(* ===== verification/Prelude.thy ===== *)
theory Prelude
  imports Main "HOL-Library.Monad_Syntax" "HOL-Library.AList"
    "HOL-Library.Option_ord" "HOL-Library.Product_Lexorder"
begin

text \<open>
  Shared vocabulary of the development.

  \<^item> Fallible code. A Rust operation that can panic (a failing \<open>debug_assert!\<close>, an
    \<open>expect\<close> on \<open>None\<close>, a checked-arithmetic \<open>expect\<close>) is a function into
    \<open>option\<close>: \<open>None\<close> is the panic, \<open>Some\<close> the normal return. The \<open>do\<close>
    notation of \<^theory_text>\<open>HOL-Library.Monad_Syntax\<close> sequences them. \<open>wp m Q\<close> says that
    \<open>m\<close> does not panic and its result satisfies \<open>Q\<close> (total correctness); the collection
    \<open>wp\<close> holds its rules.
  \<^item> \<open>std::collections::BTreeSet\<close> is a sorted list without duplicates,
    \<open>HashMap\<close> an association list without duplicate keys, a machine integer a \<open>nat\<close>
    whose bound is written where the code checks it.
\<close>

named_theorems wp "rules that compute the weakest precondition of the fallible programs"

section \<open>Fallible programs\<close>

definition require :: "bool \<Rightarrow> unit option" where
  "require b = (if b then Some () else None)"

definition wp :: "'a option \<Rightarrow> ('a \<Rightarrow> bool) \<Rightarrow> bool" where
  "wp m Q = (case m of None \<Rightarrow> False | Some x \<Rightarrow> Q x)"

lemma wp_Some [simp, wp]: "wp (Some x) Q = Q x"
  by (simp add: wp_def)

lemma wp_None [simp, wp]: "wp None Q = False"
  by (simp add: wp_def)

lemma wp_bind [simp, wp]: "wp (Option.bind m f) Q = wp m (\<lambda>x. wp (f x) Q)"
  by (cases m) simp_all

lemma wp_require [simp, wp]: "wp (require b) Q = (b \<and> Q ())"
  by (simp add: require_def)

lemma wp_if [wp]: "wp (if b then m else n) Q = (if b then wp m Q else wp n Q)"
  by simp

lemma wp_mono: "wp m P \<Longrightarrow> (\<And>x. P x \<Longrightarrow> Q x) \<Longrightarrow> wp m Q"
  by (cases m) simp_all

lemma wp_conj: "wp m P \<Longrightarrow> wp m Q \<Longrightarrow> wp m (\<lambda>x. P x \<and> Q x)"
  by (cases m) simp_all

lemma wp_Ex: "wp m Q \<longleftrightarrow> (\<exists>x. m = Some x \<and> Q x)"
  by (cases m) simp_all

lemma wpI: "m = Some x \<Longrightarrow> Q x \<Longrightarrow> wp m Q"
  by simp

lemma wpE: "wp m Q \<Longrightarrow> (\<And>x. m = Some x \<Longrightarrow> Q x \<Longrightarrow> thesis) \<Longrightarrow> thesis"
  by (cases m) simp_all

lemma wpD: "wp m Q \<Longrightarrow> m = Some x \<Longrightarrow> Q x"
  by simp

lemma wp_pairE:
  assumes "wp m (\<lambda>(a, b). Q a b)"
  obtains a b where "m = Some (a, b)" "Q a b"
  using assms by (cases m) auto

lemma wp_map_option: "wp (map_option f m) Q = wp m (\<lambda>x. Q (f x))"
  by (cases m) simp_all

section \<open>Running a list of commands\<close>

text \<open>Run a list of commands in order; a panic stops the run.\<close>

fun run_all :: "('c \<Rightarrow> 's \<Rightarrow> 's option) \<Rightarrow> 'c list \<Rightarrow> 's \<Rightarrow> 's option" where
  "run_all f [] s = Some s"
| "run_all f (c # cs) s = Option.bind (f c s) (run_all f cs)"

lemma run_all_append: "run_all f (xs @ ys) s = Option.bind (run_all f xs s) (run_all f ys)"
  by (induction xs arbitrary: s) (auto split: Option.bind_splits)

text \<open>
  The interface by which code outside the sources acts on a component: a set of commands, an
  invariant each of them keeps, and a transitive relation (a frame condition) each of them
  respects. Whatever list of commands that code issues then keeps both.
\<close>

locale command_system =
  fixes exec :: "'c \<Rightarrow> 's \<Rightarrow> 's option"
    and Inv :: "'s \<Rightarrow> bool"
    and Rel :: "'s \<Rightarrow> 's \<Rightarrow> bool"
  assumes exec_inv: "Inv s \<Longrightarrow> exec c s = Some s' \<Longrightarrow> Inv s'"
    and exec_rel: "Inv s \<Longrightarrow> exec c s = Some s' \<Longrightarrow> Rel s s'"
    and rel_refl: "Rel s s"
    and rel_trans: "Rel s t \<Longrightarrow> Rel t u \<Longrightarrow> Rel s u"
begin

lemma run_inv_rel: "Inv s \<Longrightarrow> run_all exec cs s = Some s' \<Longrightarrow> Inv s' \<and> Rel s s'"
proof (induction cs arbitrary: s)
  case Nil
  then show ?case by (simp add: rel_refl)
next
  case (Cons c cs)
  then obtain t where t: "exec c s = Some t" "run_all exec cs t = Some s'"
    by (auto split: bind_splits)
  with Cons.IH [OF exec_inv [OF Cons.prems(1) t(1)] t(2)] show ?case
    using rel_trans [OF exec_rel [OF Cons.prems(1) t(1)]] by blast
qed

lemmas run_inv = run_inv_rel [THEN conjunct1]
lemmas run_rel = run_inv_rel [THEN conjunct2]

end

text \<open>The same interface where no command can panic under the invariant.\<close>

locale total_command_system = command_system +
  assumes exec_total: "Inv s \<Longrightarrow> exec c s \<noteq> None"
begin

lemma run_total: "Inv s \<Longrightarrow> wp (run_all exec cs s) (\<lambda>s'. Inv s' \<and> Rel s s')"
proof (induction cs arbitrary: s)
  case Nil
  then show ?case by (simp add: rel_refl)
next
  case (Cons c cs)
  from exec_total [OF Cons.prems, of c] obtain t where t: "exec c s = Some t" by auto
  show ?case
    using Cons.IH [OF exec_inv [OF Cons.prems t]] rel_trans [OF exec_rel [OF Cons.prems t]]
    by (auto simp: t elim: wp_mono)
qed

end

text \<open>Commands that implement those of an abstract state, seen through \<open>view\<close>.\<close>

locale refined_command_system =
  fixes exec :: "'c \<Rightarrow> 's \<Rightarrow> 's option" and abstract_exec :: "'c \<Rightarrow> 'a \<Rightarrow> 'a"
    and Inv :: "'s \<Rightarrow> bool" and view :: "'s \<Rightarrow> 'a"
  assumes exec_refines: "Inv s \<Longrightarrow> wp (exec c s) (\<lambda>s'. Inv s' \<and> view s' = abstract_exec c (view s))"
begin

lemma run_refines: "Inv s \<Longrightarrow> wp (run_all exec cs s) (\<lambda>s'. Inv s' \<and> view s' = fold abstract_exec cs (view s))"
proof (induction cs arbitrary: s)
  case (Cons c cs)
  obtain t where t: "exec c s = Some t" "Inv t" "view t = abstract_exec c (view s)"
    using exec_refines [OF Cons.prems] by (rule wpE) auto
  then show ?case using Cons.IH [OF t(2)] by simp
qed simp

end

section \<open>Sorted duplicate-free lists as ordered sets\<close>

definition ordset :: "'a::linorder list \<Rightarrow> bool" where
  "ordset xs \<longleftrightarrow> sorted xs \<and> distinct xs"

lemma ordset_Nil [simp]: "ordset []"
  by (simp add: ordset_def)

lemma ordset_insort_insert [simp]: "ordset xs \<Longrightarrow> ordset (insort_insert x xs)"
  by (simp add: ordset_def sorted_insort_insert distinct_insort_insert)

lemma ordset_remove1 [simp]: "ordset xs \<Longrightarrow> ordset (remove1 x xs)"
  by (simp add: ordset_def sorted_remove1)

lemma set_remove1_ordset [simp]: "ordset xs \<Longrightarrow> set (remove1 x xs) = set xs - {x}"
  by (simp add: ordset_def set_remove1_eq)

lemma set_insort_insert' [simp]: "set (insort_insert x xs) = insert x (set xs)"
  by (simp add: set_insort_insert)

lemma ordset_first: "ordset (x # xs) \<Longrightarrow> y \<in> set (x # xs) \<Longrightarrow> x \<le> y"
  by (auto simp: ordset_def)

lemma ordset_eq: "ordset xs \<Longrightarrow> ordset ys \<Longrightarrow> set xs = set ys \<Longrightarrow> xs = ys"
  by (simp add: ordset_def sorted_distinct_set_unique)

section \<open>Association lists as hash maps\<close>

definition keys :: "('k \<times> 'v) list \<Rightarrow> 'k list" where
  "keys al = map fst al"

lemma keys_Nil [simp]: "keys [] = []"
  by (simp add: keys_def)

lemma set_keys: "set (keys al) = dom (map_of al)"
  by (simp add: keys_def dom_map_of_conv_image_fst)

lemma distinct_keys_update [simp]: "distinct (keys al) \<Longrightarrow> distinct (keys (AList.update k v al))"
  by (simp add: keys_def distinct_update)

lemma distinct_keys_delete [simp]: "distinct (keys al) \<Longrightarrow> distinct (keys (AList.delete k al))"
  by (simp add: keys_def distinct_delete)

lemma map_of_update [simp]: "map_of (AList.update k v al) = (map_of al)(k \<mapsto> v)"
  by (rule update_conv')

lemma map_of_delete [simp]: "map_of (AList.delete k al) = (map_of al)(k := None)"
  by (rule delete_conv')

end
