(* ===== verification/Task_Queue.thy ===== *)
theory Task_Queue
  imports Prelude
begin

text \<open>
  The task registry of the event loop, \<open>TaskQueue\<close> of
  \<open>crates/core-runtime/src/event_loop.rs\<close>: a hash map of the live tasks with two ordered
  indexes, one of the ready tasks in dispatch order and one of the timers that are not ready, in
  deadline order. The theory holds the invariant that ties the indexes to the map, its
  preservation by every operation, the termination of \<open>expire_timers\<close>, and the refinement to
  the specification that scans the map.
\<close>

section \<open>Data\<close>

text \<open>\<open>Instant\<close> is a reading of a monotonic clock; a \<open>TaskId\<close> is a \<open>u64\<close> from a counter.\<close>

type_synonym instant = nat
type_synonym task_id = nat
type_synonym origin = "string option"

record 't task_entry =
  te_id :: task_id
  te_task :: 't
  te_ready :: bool
  te_deadline :: "instant option"
  te_origin :: origin

definition ready_key :: "'t task_entry \<Rightarrow> instant option \<times> task_id" where
  "ready_key e = (te_deadline e, te_id e)"

record 't task_queue =
  tq_entries :: "(task_id \<times> 't task_entry) list"
  tq_ready :: "(instant option \<times> task_id) list"
  tq_timers :: "(instant \<times> task_id) list"

definition tq_empty :: "'t task_queue" where
  "tq_empty = \<lparr>tq_entries = [], tq_ready = [], tq_timers = []\<rparr>"

abbreviation tq_lookup :: "'t task_queue \<Rightarrow> task_id \<rightharpoonup> 't task_entry" where
  "tq_lookup q \<equiv> map_of (tq_entries q)"

section \<open>Operations\<close>

definition tq_insert :: "'t task_entry \<Rightarrow> 't task_queue \<Rightarrow> 't task_queue" where
  "tq_insert e q =
     (let q1 = (if te_ready e then q\<lparr>tq_ready := insort_insert (ready_key e) (tq_ready q)\<rparr>
                else case te_deadline e of
                  Some d \<Rightarrow> q\<lparr>tq_timers := insort_insert (d, te_id e) (tq_timers q)\<rparr>
                | None \<Rightarrow> q)
      in q1\<lparr>tq_entries := AList.update (te_id e) e (tq_entries q1)\<rparr>)"

definition tq_remove :: "task_id \<Rightarrow> 't task_queue \<Rightarrow> 't task_queue \<times> 't task_entry option" where
  "tq_remove i q =
     (case tq_lookup q i of
        None \<Rightarrow> (q, None)
      | Some e \<Rightarrow>
          (let q1 = q\<lparr>tq_entries := AList.delete i (tq_entries q)\<rparr>;
               q2 = (if te_ready e then q1\<lparr>tq_ready := remove1 (ready_key e) (tq_ready q1)\<rparr>
                     else case te_deadline e of
                       Some d \<Rightarrow> q1\<lparr>tq_timers := remove1 (d, i) (tq_timers q1)\<rparr>
                     | None \<Rightarrow> q1)
           in (q2, Some e)))"

definition mark_ready :: "task_id \<Rightarrow> 't task_queue \<Rightarrow> 't task_queue \<times> bool" where
  "mark_ready i q =
     (case tq_lookup q i of
        None \<Rightarrow> (q, False)
      | Some e \<Rightarrow>
          if te_ready e then (q, False)
          else
            (let e' = e\<lparr>te_ready := True\<rparr>;
                 q1 = q\<lparr>tq_entries := AList.update i e' (tq_entries q)\<rparr>;
                 q2 = (case te_deadline e' of
                         Some d \<Rightarrow> q1\<lparr>tq_timers := remove1 (d, i) (tq_timers q1)\<rparr>
                       | None \<Rightarrow> q1)
             in (q2\<lparr>tq_ready := insort_insert (ready_key e') (tq_ready q2)\<rparr>, True)))"

text \<open>
  The \<open>while let\<close> of \<open>expire_timers\<close>. The loop reads the first timer again after each
  \<open>mark_ready\<close> and so ends only if that call takes the timer out of the index: \<open>None\<close> is a
  loop that does not end.
\<close>

partial_function (option) expire_loop ::
    "instant \<Rightarrow> nat \<Rightarrow> 't task_queue \<Rightarrow> ('t task_queue \<times> nat) option" where
  "expire_loop now count q =
     (case tq_timers q of
        [] \<Rightarrow> Some (q, count)
      | (deadline, i) # _ \<Rightarrow>
          if deadline > now then Some (q, count)
          else expire_loop now (count + 1) (fst (mark_ready i q)))"

definition expire_timers :: "instant \<Rightarrow> 't task_queue \<Rightarrow> ('t task_queue \<times> nat) option" where
  "expire_timers now q = expire_loop now 0 q"

section \<open>The invariant\<close>

text \<open>
  Every entry is filed under its own id, the ready index holds the keys of exactly the ready
  entries, and the timer index those of exactly the entries with a deadline that are not ready.
\<close>

definition tq_wf :: "'t task_queue \<Rightarrow> bool" where
  "tq_wf q \<longleftrightarrow>
     distinct (keys (tq_entries q)) \<and>
     (\<forall>i e. tq_lookup q i = Some e \<longrightarrow> te_id e = i) \<and>
     ordset (tq_ready q) \<and> ordset (tq_timers q) \<and>
     (\<forall>d i. (d, i) \<in> set (tq_ready q) \<longleftrightarrow>
        (\<exists>e. tq_lookup q i = Some e \<and> te_ready e \<and> te_deadline e = d)) \<and>
     (\<forall>d i. (d, i) \<in> set (tq_timers q) \<longleftrightarrow>
        (\<exists>e. tq_lookup q i = Some e \<and> \<not> te_ready e \<and> te_deadline e = Some d))"

lemma tq_wfI:
  assumes "distinct (keys (tq_entries q))"
    and "\<And>i e. tq_lookup q i = Some e \<Longrightarrow> te_id e = i"
    and "ordset (tq_ready q)" and "ordset (tq_timers q)"
    and "\<And>d i. (d, i) \<in> set (tq_ready q) \<longleftrightarrow>
        (\<exists>e. tq_lookup q i = Some e \<and> te_ready e \<and> te_deadline e = d)"
    and "\<And>d i. (d, i) \<in> set (tq_timers q) \<longleftrightarrow>
        (\<exists>e. tq_lookup q i = Some e \<and> \<not> te_ready e \<and> te_deadline e = Some d)"
  shows "tq_wf q"
  using assms unfolding tq_wf_def by blast

lemma tq_wf_ready:
  "tq_wf q \<Longrightarrow> (d, i) \<in> set (tq_ready q) \<longleftrightarrow>
     (\<exists>e. tq_lookup q i = Some e \<and> te_ready e \<and> te_deadline e = d)"
  unfolding tq_wf_def by blast

lemma tq_wf_timers:
  "tq_wf q \<Longrightarrow> (d, i) \<in> set (tq_timers q) \<longleftrightarrow>
     (\<exists>e. tq_lookup q i = Some e \<and> \<not> te_ready e \<and> te_deadline e = Some d)"
  unfolding tq_wf_def by blast

lemma tq_wf_id: "tq_wf q \<Longrightarrow> tq_lookup q i = Some e \<Longrightarrow> te_id e = i"
  unfolding tq_wf_def by blast

lemma tq_wf_index:
  "tq_wf q \<Longrightarrow> distinct (keys (tq_entries q)) \<and> ordset (tq_ready q) \<and> ordset (tq_timers q)"
  unfolding tq_wf_def by blast

lemma tq_empty_simps [simp]:
  "tq_entries tq_empty = []" "tq_ready tq_empty = []" "tq_timers tq_empty = []"
  by (simp_all add: tq_empty_def)

lemma tq_empty_wf [simp]: "tq_wf tq_empty"
  by (simp add: tq_wf_def tq_empty_def)

lemma tq_insert_lookup [simp]: "tq_lookup (tq_insert e q) = (tq_lookup q)(te_id e \<mapsto> e)"
  by (simp add: tq_insert_def Let_def split: option.split)

lemma tq_remove_lookup [simp]: "tq_lookup (fst (tq_remove i q)) = (tq_lookup q)(i := None)"
  by (auto simp: tq_remove_def Let_def split: option.splits)

lemma tq_remove_result [simp]: "snd (tq_remove i q) = tq_lookup q i"
  by (simp add: tq_remove_def Let_def split: option.split)

lemma mark_ready_lookup [simp]:
  "tq_lookup (fst (mark_ready i q)) =
     (tq_lookup q)(i := map_option (te_ready_update (\<lambda>_. True)) (tq_lookup q i))"
proof (rule ext)
  fix j
  show "tq_lookup (fst (mark_ready i q)) j =
      ((tq_lookup q)(i := map_option (te_ready_update (\<lambda>_. True)) (tq_lookup q i))) j"
    by (auto simp: mark_ready_def Let_def split: option.splits)
qed

lemma mark_ready_result:
  "snd (mark_ready i q) \<longleftrightarrow> (\<exists>e. tq_lookup q i = Some e \<and> \<not> te_ready e)"
  by (simp add: mark_ready_def Let_def split: option.split)

lemma tq_insert_wf:
  assumes wf: "tq_wf q" and fresh: "tq_lookup q (te_id e) = None"
  shows "tq_wf (tq_insert e q)"
proof (rule tq_wfI)
  note w = wf [unfolded tq_wf_def]
  show "distinct (keys (tq_entries (tq_insert e q)))"
    using w by (simp add: tq_insert_def Let_def split: option.split)
  show "te_id e' = i" if "tq_lookup (tq_insert e q) i = Some e'" for i e'
    using that w by (auto split: if_splits)
  show "ordset (tq_ready (tq_insert e q))" "ordset (tq_timers (tq_insert e q))"
    using w by (simp_all add: tq_insert_def Let_def split: option.split)
  show "(d, i) \<in> set (tq_ready (tq_insert e q)) \<longleftrightarrow>
      (\<exists>e'. tq_lookup (tq_insert e q) i = Some e' \<and> te_ready e' \<and> te_deadline e' = d)" for d i
    using tq_wf_ready [OF wf, of d i] fresh
    by (auto simp: tq_insert_def Let_def ready_key_def split: option.split)
  show "(d, i) \<in> set (tq_timers (tq_insert e q)) \<longleftrightarrow>
      (\<exists>e'. tq_lookup (tq_insert e q) i = Some e' \<and> \<not> te_ready e' \<and> te_deadline e' = Some d)"
    for d i
    using tq_wf_timers [OF wf, of d i] fresh
    by (auto simp: tq_insert_def Let_def ready_key_def split: option.split)
qed

lemma tq_remove_wf:
  assumes wf: "tq_wf q"
  shows "tq_wf (fst (tq_remove i q))"
proof (rule tq_wfI)
  note w = tq_wf_index [OF wf]
  show "distinct (keys (tq_entries (fst (tq_remove i q))))"
    using w by (simp add: tq_remove_def Let_def split: option.split)
  show "te_id e' = j" if "tq_lookup (fst (tq_remove i q)) j = Some e'" for j e'
    using that tq_wf_id [OF wf] by (auto split: if_splits)
  show "ordset (tq_ready (fst (tq_remove i q)))" "ordset (tq_timers (fst (tq_remove i q)))"
    using w by (simp_all add: tq_remove_def Let_def split: option.split)
  show "(d, j) \<in> set (tq_ready (fst (tq_remove i q))) \<longleftrightarrow>
      (\<exists>e'. tq_lookup (fst (tq_remove i q)) j = Some e' \<and> te_ready e' \<and> te_deadline e' = d)" for d j
    using w tq_wf_ready [OF wf, of d j] tq_wf_id [OF wf, of i]
    by (auto simp: tq_remove_def Let_def ready_key_def split: option.split)
  show "(d, j) \<in> set (tq_timers (fst (tq_remove i q))) \<longleftrightarrow>
      (\<exists>e'. tq_lookup (fst (tq_remove i q)) j = Some e' \<and> \<not> te_ready e' \<and> te_deadline e' = Some d)"
    for d j
    using w tq_wf_timers [OF wf, of d j] tq_wf_id [OF wf, of i]
    by (auto simp: tq_remove_def Let_def ready_key_def split: option.split)
qed

lemma mark_ready_wf:
  assumes wf: "tq_wf q"
  shows "tq_wf (fst (mark_ready i q))"
proof (rule tq_wfI)
  note w = tq_wf_index [OF wf]
  show "distinct (keys (tq_entries (fst (mark_ready i q))))"
    using w by (simp add: mark_ready_def Let_def split: option.split)
  show "te_id e' = j" if "tq_lookup (fst (mark_ready i q)) j = Some e'" for j e'
    using that tq_wf_id [OF wf] by (auto split: if_splits)
  show "ordset (tq_ready (fst (mark_ready i q)))" "ordset (tq_timers (fst (mark_ready i q)))"
    using w by (simp_all add: mark_ready_def Let_def split: option.split)
  show "(d, j) \<in> set (tq_ready (fst (mark_ready i q))) \<longleftrightarrow>
      (\<exists>e'. tq_lookup (fst (mark_ready i q)) j = Some e' \<and> te_ready e' \<and> te_deadline e' = d)" for d j
    using w tq_wf_ready [OF wf, of d j] tq_wf_id [OF wf, of i]
    by (auto simp: mark_ready_def Let_def ready_key_def split: option.split)
  show "(d, j) \<in> set (tq_timers (fst (mark_ready i q))) \<longleftrightarrow>
      (\<exists>e'. tq_lookup (fst (mark_ready i q)) j = Some e' \<and> \<not> te_ready e' \<and> te_deadline e' = Some d)"
    for d j
    using w tq_wf_timers [OF wf, of d j] tq_wf_id [OF wf, of i]
    by (auto simp: mark_ready_def Let_def ready_key_def split: option.split)
qed

lemma mark_ready_timers:
  assumes "tq_wf q" and "tq_timers q = (d, i) # ts"
  shows "tq_timers (fst (mark_ready i q)) = ts"
proof -
  from assms tq_wf_timers [of q d i] obtain e
    where "tq_lookup q i = Some e" "\<not> te_ready e" "te_deadline e = Some d" by auto
  with assms(2) show ?thesis by (simp add: mark_ready_def Let_def)
qed

section \<open>Refinement: the indexes against a scan of the map\<close>

definition expired :: "instant \<Rightarrow> 't task_entry \<Rightarrow> bool" where
  "expired now e \<longleftrightarrow> \<not> te_ready e \<and> (\<exists>d. te_deadline e = Some d \<and> d \<le> now)"

definition expired_ids :: "instant \<Rightarrow> (task_id \<rightharpoonup> 't task_entry) \<Rightarrow> task_id set" where
  "expired_ids now m = {i. \<exists>e. m i = Some e \<and> expired now e}"

definition scan_expire ::
    "instant \<Rightarrow> (task_id \<rightharpoonup> 't task_entry) \<Rightarrow> (task_id \<rightharpoonup> 't task_entry)" where
  "scan_expire now m =
     (\<lambda>i. map_option (\<lambda>e. if expired now e then e\<lparr>te_ready := True\<rparr> else e) (m i))"

lemma expired_ids_timers:
  assumes "tq_wf q"
  shows "expired_ids now (tq_lookup q) = {i. \<exists>d. (d, i) \<in> set (tq_timers q) \<and> d \<le> now}"
  using tq_wf_timers [OF assms] by (auto simp: expired_ids_def expired_def)

lemma finite_expired_ids: "finite (expired_ids now (map_of al))"
  by (rule finite_subset [OF _ finite_dom_map_of [of al]]) (auto simp: expired_ids_def)

lemma scan_expire_none: "expired_ids now m = {} \<Longrightarrow> scan_expire now m = m"
  by (rule ext, case_tac "m x") (auto simp: scan_expire_def expired_ids_def)

lemma expire_loop_correct:
  assumes "tq_wf q"
  shows "\<exists>q'. expire_loop now c q = Some (q', c + card (expired_ids now (tq_lookup q))) \<and>
     tq_wf q' \<and> tq_lookup q' = scan_expire now (tq_lookup q)"
  using assms
proof (induction "length (tq_timers q)" arbitrary: q c rule: less_induct)
  case less
  note unfold = expire_loop.simps [of now c q]
  show ?case
  proof (cases "\<exists>d i ts. tq_timers q = (d, i) # ts \<and> d \<le> now")
    case False
    have none: "expired_ids now (tq_lookup q) = {}"
      using False ordset_first [of "hd (tq_timers q)" "tl (tq_timers q)"] tq_wf_index [OF less.prems]
      by (cases "tq_timers q") (fastforce simp: expired_ids_timers [OF less.prems])+
    moreover have "expire_loop now c q = Some (q, c)"
      using False by (subst unfold) (auto split: list.split)
    ultimately show ?thesis using less.prems by (simp add: scan_expire_none)
  next
    case True
    then obtain d i ts where t: "tq_timers q = (d, i) # ts" "d \<le> now" by blast
    let ?q = "fst (mark_ready i q)"
    from t less.prems tq_wf_timers [of q d i] obtain e
      where e: "tq_lookup q i = Some e" "\<not> te_ready e" "te_deadline e = Some d" by auto
    have ts: "tq_timers ?q = ts" using less.prems t(1) by (rule mark_ready_timers)
    have ids: "expired_ids now (tq_lookup q) = insert i (expired_ids now (tq_lookup ?q))"
      "i \<notin> expired_ids now (tq_lookup ?q)"
      using e t(2) by (auto simp: expired_ids_def expired_def split: if_splits)
    have scan: "scan_expire now (tq_lookup ?q) = scan_expire now (tq_lookup q)"
      using e t(2) by (intro ext) (auto simp: scan_expire_def expired_def split: option.split)
    have "expire_loop now c q = expire_loop now (c + 1) ?q"
      using t by (subst unfold) simp
    moreover have "length (tq_timers ?q) < length (tq_timers q)" using t ts by simp
    from less.hyps [OF this mark_ready_wf [OF less.prems], of "c + 1"]
    obtain q' where "expire_loop now (c + 1) ?q =
        Some (q', c + 1 + card (expired_ids now (tq_lookup ?q)))"
      "tq_wf q'" "tq_lookup q' = scan_expire now (tq_lookup ?q)" by blast
    ultimately show ?thesis
      using ids scan finite_expired_ids [of now "tq_entries ?q"] by simp
  qed
qed

lemma expire_timers_total:
  "tq_wf q \<Longrightarrow> \<exists>q' n. expire_timers now q = Some (q', n)"
  using expire_loop_correct [of q now 0] by (auto simp: expire_timers_def)

lemma expire_timers_result:
  assumes "tq_wf q" and "expire_timers now q = Some (q', n)"
  shows "tq_wf q'" and "tq_lookup q' = scan_expire now (tq_lookup q)"
    and "n = card (expired_ids now (tq_lookup q))"
  using expire_loop_correct [OF assms(1), of now 0] assms(2) by (auto simp: expire_timers_def)

lemma expire_timers_dom:
  "tq_wf q \<Longrightarrow> expire_timers now q = Some (q', n) \<Longrightarrow> dom (tq_lookup q') = dom (tq_lookup q)"
  by (auto simp: expire_timers_result(2) scan_expire_def)

text \<open>
  The batch a step dispatches is the ready index read in order. Its ids are distinct, they are
  those of the ready entries, and of two ready entries the one with the smaller key comes first.
\<close>

definition ready_batch :: "'t task_queue \<Rightarrow> task_id list" where
  "ready_batch q = map snd (tq_ready q)"

lemma set_ready_batch:
  "tq_wf q \<Longrightarrow> set (ready_batch q) = {i. \<exists>e. tq_lookup q i = Some e \<and> te_ready e}"
  using tq_wf_ready [of q] by (force simp: ready_batch_def)

lemma distinct_ready_batch:
  assumes "tq_wf q"
  shows "distinct (ready_batch q)"
proof -
  have "inj_on snd (set (tq_ready q))"
    using tq_wf_ready [OF assms] by (intro inj_onI) fastforce
  then show ?thesis
    using tq_wf_index [OF assms] by (simp add: ready_batch_def distinct_map ordset_def)
qed

lemma ready_batch_order:
  assumes wf: "tq_wf q" and b: "ready_batch q = xs @ i # ys" and j: "j \<in> set ys"
    and ei: "tq_lookup q i = Some ei" and ej: "tq_lookup q j = Some ej"
  shows "ready_key ei < ready_key ej"
proof -
  from b obtain us k vs where u: "tq_ready q = us @ k # vs" "i = snd k" "map snd vs = ys"
    by (auto simp: ready_batch_def map_eq_append_conv map_eq_Cons_conv)
  from j u(3) obtain k' where k': "k' \<in> set vs" "j = snd k'" by auto
  have "sorted (tq_ready q)" "distinct (tq_ready q)"
    using tq_wf_index [OF wf] by (simp_all add: ordset_def)
  with u(1) k'(1) have "k < k'" by (force simp: sorted_append)
  moreover have "k = ready_key ei"
    using tq_wf_ready [OF wf, of "fst k" i] u tq_wf_id [OF wf ei] ei
    by (cases k) (auto simp: ready_key_def)
  moreover have "k' = ready_key ej"
    using tq_wf_ready [OF wf, of "fst k'" j] u k' tq_wf_id [OF wf ej] ej
    by (cases k') (auto simp: ready_key_def)
  ultimately show ?thesis by simp
qed

lemma tq_first_timer:
  assumes wf: "tq_wf q" and e: "tq_lookup q i = Some e" "\<not> te_ready e" "te_deadline e = Some d"
  shows "\<exists>d0 i0 ts. tq_timers q = (d0, i0) # ts \<and> d0 \<le> d"
proof -
  have m: "(d, i) \<in> set (tq_timers q)" using e tq_wf_timers [OF wf] by blast
  then obtain k ts where k: "tq_timers q = k # ts" by (cases "tq_timers q") auto
  have "k \<le> (d, i)" using m k tq_wf_index [OF wf] ordset_first [of k ts] by auto
  with k show ?thesis by (cases k) auto
qed

end
