(* ===== verification/Interest.thy ===== *)
theory Interest
  imports Prelude
begin

text \<open>
  External keep-alive interest in one event loop,
  \<open>crates/core-runtime/src/event_loop/interest.rs\<close>. The tracker counts the handles that are
  held in a \<open>u32\<close> with checked arithmetic; a handle acquired while origins are recorded has an
  entry in a table of origins. A handle is a Rust value that is dropped once, so the model keeps
  the list of handles that are held and ties it to the tracker.
\<close>

section \<open>The tracker and its handles\<close>

record interest =
  in_count :: nat
  in_origins :: "(nat \<times> string) list"
  in_next_key :: nat

text \<open>The key of a handle's entry in the table of origins, if it has one.\<close>

type_synonym handle = "nat option"

definition interest_new :: interest where
  "interest_new = \<lparr>in_count = 0, in_origins = [], in_next_key = 0\<rparr>"

definition u32_max :: nat where
  "u32_max = 2 ^ 32 - 1"

text \<open>\<open>checked_add(1).expect(..)\<close> panics at the top of the \<open>u32\<close> range.\<close>

definition acquire_handle :: "string option \<Rightarrow> interest \<Rightarrow> (interest \<times> handle) option" where
  "acquire_handle current_origin st =
     do {
       require (in_count st < u32_max);
       let st1 = st\<lparr>in_count := in_count st + 1\<rparr>;
       Some (case current_origin of
               None \<Rightarrow> (st1, None)
             | Some o' \<Rightarrow>
                 (st1\<lparr>in_next_key := in_next_key st1 + 1,
                      in_origins := AList.update (in_next_key st1) o' (in_origins st1)\<rparr>,
                  Some (in_next_key st1)))
     }"

text \<open>\<open>Drop\<close> of a handle: \<open>checked_sub(1).expect(..)\<close>, then the origin's entry goes.\<close>

definition drop_handle :: "handle \<Rightarrow> interest \<Rightarrow> interest option" where
  "drop_handle h st =
     do {
       require (in_count st > 0);
       let st1 = st\<lparr>in_count := in_count st - 1\<rparr>;
       Some (case h of
               None \<Rightarrow> st1
             | Some key \<Rightarrow> st1\<lparr>in_origins := AList.delete key (in_origins st1)\<rparr>)
     }"

definition has_interest :: "interest \<Rightarrow> bool" where
  "has_interest st \<longleftrightarrow> in_count st > 0"

definition interest_origins :: "interest \<Rightarrow> string list" where
  "interest_origins st = map snd (in_origins st)"

section \<open>The invariant\<close>

fun handle_keys :: "handle list \<Rightarrow> nat list" where
  "handle_keys [] = []"
| "handle_keys (None # hs) = handle_keys hs"
| "handle_keys (Some k # hs) = k # handle_keys hs"

definition interest_wf :: "handle list \<Rightarrow> interest \<Rightarrow> bool" where
  "interest_wf hs st \<longleftrightarrow>
     in_count st = length hs \<and> in_count st \<le> u32_max \<and>
     distinct (handle_keys hs) \<and> distinct (keys (in_origins st)) \<and>
     set (handle_keys hs) = set (keys (in_origins st)) \<and>
     (\<forall>k \<in> set (handle_keys hs). k < in_next_key st)"

lemma handle_keys_append [simp]: "handle_keys (xs @ ys) = handle_keys xs @ handle_keys ys"
  by (induction xs rule: handle_keys.induct) simp_all

lemma length_handle_keys: "length (handle_keys hs) \<le> length hs"
  by (induction hs rule: handle_keys.induct) simp_all

lemma interest_wf_new: "interest_wf [] interest_new"
  by (simp add: interest_wf_def interest_new_def)

lemma acquire_handle_wf:
  assumes "interest_wf hs st" and "acquire_handle co st = Some (st', h)"
  shows "interest_wf (hs @ [h]) st'"
  using assms
  by (cases co)
    (auto simp: acquire_handle_def interest_wf_def require_def Let_def set_keys
      intro!: less_SucI split: if_splits)

lemma acquire_handle_panics: "acquire_handle co st = None \<longleftrightarrow> u32_max \<le> in_count st"
  by (simp add: acquire_handle_def require_def Let_def)

text \<open>Dropping any handle that is held never underflows the count.\<close>

lemma drop_handle_wf:
  assumes wf: "interest_wf (hs1 @ h # hs2) st"
  shows "wp (drop_handle h st) (interest_wf (hs1 @ hs2))"
proof -
  have k: "distinct (handle_keys (hs1 @ h # hs2))" and c: "in_count st = Suc (length (hs1 @ hs2))"
    using wf by (simp_all add: interest_wf_def)
  show ?thesis
    using wf k c
    by (cases h) (auto simp: drop_handle_def interest_wf_def Let_def set_keys)
qed

text \<open>
  The subtraction \<open>count - origins.len()\<close> of \<open>pending_work\<close> does not underflow: a handle has
  at most one recorded origin.
\<close>

lemma origins_le_count:
  assumes "interest_wf hs st"
  shows "length (in_origins st) \<le> in_count st"
proof -
  from assms have "length (handle_keys hs) = length (keys (in_origins st))"
    by (metis distinct_card interest_wf_def)
  with assms length_handle_keys [of hs] show ?thesis
    by (simp add: interest_wf_def keys_def)
qed

lemma has_interest_iff: "interest_wf hs st \<Longrightarrow> has_interest st \<longleftrightarrow> hs \<noteq> []"
  by (auto simp: has_interest_def interest_wf_def)

end
