(* ===== verification/Event_Loop.thy ===== *)
theory Event_Loop
  imports Task_Queue Interest
begin

text \<open>
  The event loop of \<open>crates/core-runtime/src/event_loop.rs\<close> and the timers of
  \<open>event_loop/timer.rs\<close>: the registry operations, the JS timer ids, the timer initialization
  steps and the timer task, the async-promise futures of \<open>crates/js/src/promise.rs\<close>, one step
  of the loop and one turn of its driver.

  JavaScript is not part of the sources. What a callback, a microtask or a poll of a host future
  does to the loop is a list of \<open>cmd\<close>, one for each call of the loop's interface that code
  running on the thread can make; which list, as a function of the whole state, is the parameter
  \<open>env\<close>. A panic of the code (\<open>expect\<close>, \<open>assert!\<close>) is \<open>None\<close>. Left out are the assertions of debug
  builds: that no job and no exception of the engine is pending when a step begins and no exception
  when microtasks run, which are facts of the engine, and that a future is not cancelled for owner 0.
\<close>

section \<open>State\<close>

type_synonym loop_id = nat
type_synonym js_ref = nat
type_synonym promise_id = nat

datatype timer_handler = HFunction js_ref "js_ref list" | HCode string

record timer_task =
  tt_handler :: timer_handler
  tt_interval :: "nat option"
  tt_nesting :: nat
  tt_timer_id :: nat

text \<open>
  The \<open>Task\<close> trait objects: the timer task of this crate, and any other implementation by its
  kind and an opaque payload.
\<close>

datatype task = Timer timer_task | Native string nat

definition task_kind :: "task \<Rightarrow> string" where
  "task_kind t =
     (case t of
        Timer tt \<Rightarrow> if tt_interval tt \<noteq> None then ''interval'' else ''timeout''
      | Native kind _ \<Rightarrow> kind)"

record js_timer =
  jt_task :: task_id
  jt_origin :: origin

record event_loop =
  el_next_id :: nat
  el_tasks :: "task task_queue"
  el_js_timers :: "(nat \<times> js_timer) list"
  el_stop :: bool
  el_interest :: interest
  el_notify :: nat
  el_sends :: "(nat \<times> origin) list"

definition event_loop_new :: event_loop where
  "event_loop_new =
     \<lparr>el_next_id = 0, el_tasks = tq_empty, el_js_timers = [], el_stop = False,
      el_interest = interest_new, el_notify = 0, el_sends = []\<rparr>"

text \<open>An async-promise future: the loop it belongs to (0 for none), its promise, its origin.\<close>

record future =
  fu_owner :: loop_id
  fu_promise :: promise_id
  fu_origin :: origin

text \<open>
  The thread's state: its loops by id, the thread-local cells the code reads, the clock, the
  counter of timer ids of the global, the futures (\<open>pending\<close> and \<open>active\<close> of
  \<open>PromiseTls\<close>), the interest handles that are held, and the JS stack that
  \<open>current_origin\<close> would record.
\<close>

record world =
  w_loops :: "loop_id \<Rightarrow> event_loop"
  w_current :: "loop_id option"
  w_no_loop_reason :: "string option"
  w_owner :: loop_id
  w_nesting :: nat
  w_clock :: instant
  w_timer_counter :: nat
  w_pending :: "future list"
  w_active :: "future list"
  w_handles :: "(loop_id \<times> handle) list"
  w_origin :: origin

definition on_loop :: "loop_id \<Rightarrow> (event_loop \<Rightarrow> event_loop) \<Rightarrow> world \<Rightarrow> world" where
  "on_loop l f w = w\<lparr>w_loops := (w_loops w)(l := f (w_loops w l))\<rparr>"

section \<open>The registry\<close>

definition notify :: "event_loop \<Rightarrow> event_loop" where
  "notify el = el\<lparr>el_notify := el_notify el + 1\<rparr>"

definition next_task_id :: "event_loop \<Rightarrow> event_loop \<times> task_id" where
  "next_task_id el = (el\<lparr>el_next_id := el_next_id el + 1\<rparr>, el_next_id el)"

definition insert_entry :: "task task_entry \<Rightarrow> event_loop \<Rightarrow> event_loop" where
  "insert_entry e el = el\<lparr>el_tasks := tq_insert e (el_tasks el)\<rparr>"

definition queue_task :: "origin \<Rightarrow> task \<Rightarrow> event_loop \<Rightarrow> event_loop \<times> task_id" where
  "queue_task current_origin t el =
     (let (el1, i) = next_task_id el
      in (insert_entry \<lparr>te_id = i, te_task = t, te_ready = False, te_deadline = None,
                        te_origin = current_origin\<rparr> el1, i))"

definition queue_ready :: "origin \<Rightarrow> task \<Rightarrow> event_loop \<Rightarrow> event_loop \<times> task_id" where
  "queue_ready current_origin t el =
     (let (el1, i) = next_task_id el
      in (notify (insert_entry \<lparr>te_id = i, te_task = t, te_ready = True, te_deadline = None,
                        te_origin = current_origin\<rparr> el1), i))"

definition insert_timer ::
    "task_id \<Rightarrow> task \<Rightarrow> instant \<Rightarrow> origin \<Rightarrow> event_loop \<Rightarrow> event_loop" where
  "insert_timer i t deadline og el =
     notify (insert_entry \<lparr>te_id = i, te_task = t, te_ready = False,
                           te_deadline = Some deadline, te_origin = og\<rparr> el)"

definition queue_timer ::
    "origin \<Rightarrow> task \<Rightarrow> instant \<Rightarrow> event_loop \<Rightarrow> event_loop \<times> task_id" where
  "queue_timer current_origin t deadline el =
     (let (el1, i) = next_task_id el
      in (insert_timer i t deadline current_origin el1, i))"

definition cancel_if_queued :: "task_id \<Rightarrow> event_loop \<Rightarrow> event_loop \<times> bool" where
  "cancel_if_queued i el =
     (let (q, removed) = tq_remove i (el_tasks el)
      in (el\<lparr>el_tasks := q\<rparr>, removed \<noteq> None))"

text \<open>
  \<open>next_global_counter\<close> reads the global's counter, bumps it and asserts that it is below
  \<open>2^53 - 1\<close>; \<open>allocate_js_timer_id\<close> repeats it until the id is not 0 and not in use.
\<close>

definition number_max :: nat where
  "number_max = 2 ^ 53 - 1"

function allocate_js_timer_id ::
    "(nat \<times> js_timer) list \<Rightarrow> nat \<Rightarrow> (nat \<times> nat) option" where
  "allocate_js_timer_id timers counter =
     (if \<not> counter < number_max then None
      else if counter \<noteq> 0 \<and> map_of timers counter = None then Some (counter + 1, counter)
      else allocate_js_timer_id timers (counter + 1))"
  by pat_completeness auto
termination
  by (relation "measure (\<lambda>(_, c). number_max - c)") auto

declare allocate_js_timer_id.simps [simp del]

definition queue_js_timer ::
    "origin \<Rightarrow> instant \<Rightarrow> (nat \<Rightarrow> task) \<Rightarrow> nat \<Rightarrow> event_loop \<Rightarrow> (event_loop \<times> nat \<times> nat) option"
where
  "queue_js_timer current_origin deadline make_task counter el =
     do {
       (counter', timer_id) \<leftarrow> allocate_js_timer_id (el_js_timers el) counter;
       let (el1, i) = next_task_id el;
       let el2 = insert_timer i (make_task timer_id) deadline current_origin el1;
       Some (el2\<lparr>el_js_timers := AList.update timer_id
                   \<lparr>jt_task = i, jt_origin = current_origin\<rparr> (el_js_timers el2)\<rparr>,
             counter', timer_id)
     }"

definition requeue_js_timer ::
    "nat \<Rightarrow> task_id \<Rightarrow> task \<Rightarrow> instant \<Rightarrow> event_loop \<Rightarrow> event_loop" where
  "requeue_js_timer timer_id i t deadline el =
     (case map_of (el_js_timers el) timer_id of
        Some timer \<Rightarrow>
          if jt_task timer = i then insert_timer i t deadline (jt_origin timer) el else el
      | None \<Rightarrow> el)"

definition clear_js_timer :: "nat \<Rightarrow> event_loop \<Rightarrow> event_loop" where
  "clear_js_timer timer_id el =
     (let removed = map_of (el_js_timers el) timer_id;
          el1 = el\<lparr>el_js_timers := AList.delete timer_id (el_js_timers el)\<rparr>
      in case removed of
           Some timer \<Rightarrow> fst (cancel_if_queued (jt_task timer) el1)
         | None \<Rightarrow> el1)"

definition js_timer_fired :: "nat \<Rightarrow> event_loop \<Rightarrow> event_loop" where
  "js_timer_fired timer_id el =
     el\<lparr>el_js_timers := AList.delete timer_id (el_js_timers el)\<rparr>"

definition signal_ready :: "task_id \<Rightarrow> event_loop \<Rightarrow> event_loop" where
  "signal_ready i el =
     (let (q, marked) = mark_ready i (el_tasks el); el1 = el\<lparr>el_tasks := q\<rparr>
      in if marked then notify el1 else el1)"

text \<open>\<open>expect("ready tasks are live")\<close> is the inner \<open>None\<close>.\<close>

definition pop_ready :: "event_loop \<Rightarrow> (event_loop \<times> (task_id \<times> task) option) option" where
  "pop_ready el =
     (case tq_ready (el_tasks el) of
        [] \<Rightarrow> Some (el, None)
      | (_, i) # _ \<Rightarrow>
          (case tq_remove i (el_tasks el) of
             (q, Some e) \<Rightarrow> Some (el\<lparr>el_tasks := q\<rparr>, Some (te_id e, te_task e))
           | (_, None) \<Rightarrow> None))"

definition advance_timers :: "instant \<Rightarrow> event_loop \<Rightarrow> (event_loop \<times> nat) option" where
  "advance_timers now el =
     do { (q, n) \<leftarrow> expire_timers now (el_tasks el); Some (el\<lparr>el_tasks := q\<rparr>, n) }"

definition time_to_next_timer :: "instant \<Rightarrow> event_loop \<Rightarrow> nat option" where
  "time_to_next_timer now el =
     (case tq_timers (el_tasks el) of [] \<Rightarrow> None | (deadline, _) # _ \<Rightarrow> Some (deadline - now))"

definition has_pending :: "event_loop \<Rightarrow> bool" where
  "has_pending el \<longleftrightarrow> tq_entries (el_tasks el) \<noteq> []"

definition has_ready :: "event_loop \<Rightarrow> bool" where
  "has_ready el \<longleftrightarrow> tq_ready (el_tasks el) \<noteq> []"

definition register_pending_send :: "origin \<Rightarrow> nat \<Rightarrow> event_loop \<Rightarrow> event_loop" where
  "register_pending_send current_origin send el =
     el\<lparr>el_sends := el_sends el @ [(send, current_origin)]\<rparr>"

definition take_pending_sends :: "event_loop \<Rightarrow> event_loop \<times> nat list" where
  "take_pending_sends el = (el\<lparr>el_sends := []\<rparr>, map fst (el_sends el))"

definition request_stop :: "event_loop \<Rightarrow> event_loop" where
  "request_stop el = el\<lparr>el_stop := True\<rparr>"

section \<open>Futures\<close>

definition owned_by :: "loop_id \<Rightarrow> future \<Rightarrow> bool" where
  "owned_by owner f \<longleftrightarrow> fu_owner f = owner \<or> fu_owner f = 0"

definition has_pending_futures :: "loop_id \<Rightarrow> world \<Rightarrow> bool" where
  "has_pending_futures owner w \<longleftrightarrow>
     list_ex (owned_by owner) (w_active w) \<or> list_ex (owned_by owner) (w_pending w)"

definition pending_future_origins :: "loop_id \<Rightarrow> world \<Rightarrow> origin list" where
  "pending_future_origins owner w =
     map fu_origin (filter (owned_by owner) (w_active w @ w_pending w))"

definition spawn_future :: "promise_id \<Rightarrow> world \<Rightarrow> world" where
  "spawn_future p w =
     w\<lparr>w_pending := w_pending w @ [\<lparr>fu_owner = w_owner w, fu_promise = p, fu_origin = w_origin w\<rparr>]\<rparr>"

definition cancel_pending_future :: "promise_id \<Rightarrow> world \<Rightarrow> world" where
  "cancel_pending_future p w =
     w\<lparr>w_pending := filter (\<lambda>f. fu_promise f \<noteq> p) (w_pending w),
       w_active := filter (\<lambda>f. fu_promise f \<noteq> p) (w_active w)\<rparr>"

definition cancel_pending_futures_for :: "loop_id \<Rightarrow> world \<Rightarrow> world" where
  "cancel_pending_futures_for owner w =
     w\<lparr>w_pending := filter (\<lambda>f. fu_owner f \<noteq> owner) (w_pending w),
       w_active := filter (\<lambda>f. fu_owner f \<noteq> owner) (w_active w)\<rparr>"

section \<open>The active loop\<close>

text \<open>\<open>with_event_loop\<close> installs the loop and the owner of new futures, and restores both.\<close>

definition with_event_loop ::
    "loop_id \<Rightarrow> (world \<Rightarrow> (world \<times> 'r) option) \<Rightarrow> world \<Rightarrow> (world \<times> 'r) option" where
  "with_event_loop l f w =
     do {
       (w', r) \<leftarrow> f (w\<lparr>w_owner := l, w_current := Some l\<rparr>);
       Some (w'\<lparr>w_current := w_current w, w_owner := w_owner w\<rparr>, r)
     }"

definition without_event_loop ::
    "string \<Rightarrow> (world \<Rightarrow> (world \<times> 'r) option) \<Rightarrow> world \<Rightarrow> (world \<times> 'r) option" where
  "without_event_loop reason f w =
     do {
       (w', r) \<leftarrow> f (w\<lparr>w_current := None, w_no_loop_reason := Some reason\<rparr>);
       Some (w'\<lparr>w_current := w_current w, w_no_loop_reason := w_no_loop_reason w\<rparr>, r)
     }"

definition with_active_event_loop :: "(event_loop \<Rightarrow> event_loop) \<Rightarrow> world \<Rightarrow> world" where
  "with_active_event_loop f w =
     (case w_current w of None \<Rightarrow> w | Some l \<Rightarrow> on_loop l f w)"

definition no_event_loop_message :: "string \<Rightarrow> world \<Rightarrow> string" where
  "no_event_loop_message what w =
     (case w_no_loop_reason w of
        Some reason \<Rightarrow> what @ '' needs an active event loop, and '' @ reason
      | None \<Rightarrow> what @ '' needs an active event loop'')"

section \<open>Timers\<close>

definition millis :: "nat \<Rightarrow> nat" where
  "millis n = n * 1000000"

text \<open>\<open>Instant + Duration\<close> saturates at the largest reading, in nanoseconds.\<close>

definition u64_max :: nat where
  "u64_max = 2 ^ 64 - 1"

definition instant_add :: "instant \<Rightarrow> nat \<Rightarrow> instant" where
  "instant_add t duration = min u64_max (t + min duration u64_max)"

definition clamp_nested_timeout :: "nat \<Rightarrow> nat \<Rightarrow> nat" where
  "clamp_nested_timeout nesting_level delay =
     (if nesting_level > 5 \<and> delay < millis 4 then millis 4 else delay)"

definition saturating_add_u32 :: "nat \<Rightarrow> nat \<Rightarrow> nat" where
  "saturating_add_u32 a b = min u32_max (a + b)"

text \<open>A \<open>TypeError\<close> is \<open>Inl\<close> its message; the timer's id is \<open>Inr\<close>.\<close>

definition timer_initialization_steps ::
    "timer_handler \<Rightarrow> int \<Rightarrow> bool \<Rightarrow> world \<Rightarrow> (world \<times> (string + nat)) option" where
  "timer_initialization_steps handler timeout repeat w =
     (let delay0 = millis (nat (max timeout 0));
          nesting_level = w_nesting w;
          delay = clamp_nested_timeout nesting_level delay0;
          task_nesting = saturating_add_u32 nesting_level 1;
          deadline = instant_add (w_clock w) delay;
          interval = (if repeat then Some delay else None);
          make = (\<lambda>timer_id. Timer \<lparr>tt_handler = handler, tt_interval = interval,
                                    tt_nesting = task_nesting, tt_timer_id = timer_id\<rparr>)
      in case w_current w of
           Some l \<Rightarrow>
             do {
               (el, counter, timer_id) \<leftarrow>
                 queue_js_timer (w_origin w) deadline make (w_timer_counter w) (w_loops w l);
               Some (on_loop l (\<lambda>_. el) (w\<lparr>w_timer_counter := counter\<rparr>), Inr timer_id)
             }
         | None \<Rightarrow>
             Some (w, Inl (no_event_loop_message
                             (if repeat then ''setInterval'' else ''setTimeout'') w)))"

text \<open>\<open>unwrap_or(0)\<close> supplies the default of a missing timeout or id.\<close>

definition set_timeout ::
    "timer_handler \<Rightarrow> int option \<Rightarrow> world \<Rightarrow> (world \<times> (string + nat)) option" where
  "set_timeout handler timeout =
     timer_initialization_steps handler (case timeout of Some t \<Rightarrow> t | None \<Rightarrow> 0) False"

definition set_interval ::
    "timer_handler \<Rightarrow> int option \<Rightarrow> world \<Rightarrow> (world \<times> (string + nat)) option" where
  "set_interval handler timeout =
     timer_initialization_steps handler (case timeout of Some t \<Rightarrow> t | None \<Rightarrow> 0) True"

definition clear_timeout :: "nat option \<Rightarrow> world \<Rightarrow> world" where
  "clear_timeout tid =
     with_active_event_loop (clear_js_timer (case tid of Some i \<Rightarrow> i | None \<Rightarrow> 0))"

section \<open>What code running on the thread can do\<close>

datatype cmd =
    SetTimeout timer_handler "int option"
  | SetInterval timer_handler "int option"
  | ClearTimer "nat option"
  | QueueTask string nat
  | QueueReady string nat
  | QueueTimer string nat instant
  | SignalReady task_id
  | CancelTask task_id
  | AcquireInterest
  | DropInterest nat
  | RegisterSend nat
  | SpawnFuture promise_id
  | CancelFuture promise_id
  | RequestStop
  | TimePasses nat
  | CallStack origin

definition acquire_interest :: "world \<Rightarrow> world option" where
  "acquire_interest w =
     (case w_current w of
        None \<Rightarrow> Some w
      | Some l \<Rightarrow>
          do {
            (st, h) \<leftarrow> acquire_handle (w_origin w) (el_interest (w_loops w l));
            Some (on_loop l (\<lambda>el. el\<lparr>el_interest := st\<rparr>) (w\<lparr>w_handles := w_handles w @ [(l, h)]\<rparr>))
          })"

text \<open>
  Dropping the \<open>n\<close>th handle that is held: its entry goes from the count of the loop it was
  acquired on, whichever loop is active, and that loop's driver is woken.
\<close>

definition drop_interest :: "nat \<Rightarrow> world \<Rightarrow> world option" where
  "drop_interest n w =
     (if n < length (w_handles w)
      then (let (l, h) = w_handles w ! n;
                rest = take n (w_handles w) @ drop (Suc n) (w_handles w)
            in do {
                 st \<leftarrow> drop_handle h (el_interest (w_loops w l));
                 Some (on_loop l (\<lambda>el. notify (el\<lparr>el_interest := st\<rparr>)) (w\<lparr>w_handles := rest\<rparr>))
               })
      else Some w)"

fun exec_cmd :: "cmd \<Rightarrow> world \<Rightarrow> world option" where
  "exec_cmd (SetTimeout h t) w = map_option fst (set_timeout h t w)"
| "exec_cmd (SetInterval h t) w = map_option fst (set_interval h t w)"
| "exec_cmd (ClearTimer i) w = Some (clear_timeout i w)"
| "exec_cmd (QueueTask k p) w =
     Some (with_active_event_loop (\<lambda>el. fst (queue_task (w_origin w) (Native k p) el)) w)"
| "exec_cmd (QueueReady k p) w =
     Some (with_active_event_loop (\<lambda>el. fst (queue_ready (w_origin w) (Native k p) el)) w)"
| "exec_cmd (QueueTimer k p d) w =
     Some (with_active_event_loop (\<lambda>el. fst (queue_timer (w_origin w) (Native k p) d el)) w)"
| "exec_cmd (SignalReady i) w = Some (with_active_event_loop (signal_ready i) w)"
| "exec_cmd (CancelTask i) w =
     Some (with_active_event_loop (\<lambda>el. fst (cancel_if_queued i el)) w)"
| "exec_cmd AcquireInterest w = acquire_interest w"
| "exec_cmd (DropInterest n) w = drop_interest n w"
| "exec_cmd (RegisterSend n) w =
     Some (with_active_event_loop (register_pending_send (w_origin w) n) w)"
| "exec_cmd (SpawnFuture p) w = Some (spawn_future p w)"
| "exec_cmd (CancelFuture p) w = Some (cancel_pending_future p w)"
| "exec_cmd RequestStop w = Some (with_active_event_loop request_stop w)"
| "exec_cmd (TimePasses n) w = Some (w\<lparr>w_clock := w_clock w + n\<rparr>)"
| "exec_cmd (CallStack og) w = Some (w\<lparr>w_origin := og\<rparr>)"

text \<open>
  The parameter: what a task's run does and whether it threw, what draining the microtasks does,
  what polling a future does and whether it is ready, whether a job is queued, and what settling
  the promises of completed futures does.
\<close>

record env =
  env_run :: "task \<Rightarrow> world \<Rightarrow> cmd list \<times> bool"
  env_micro :: "world \<Rightarrow> cmd list"
  env_poll :: "promise_id \<Rightarrow> world \<Rightarrow> cmd list \<times> bool"
  env_jobs :: "world \<Rightarrow> bool"
  env_settle :: "promise_id list \<Rightarrow> world \<Rightarrow> cmd list"

section \<open>Running tasks\<close>

definition run_microtasks :: "env \<Rightarrow> world \<Rightarrow> world option" where
  "run_microtasks env w = run_all exec_cmd (env_micro env w) w"

text \<open>\<open>TimerTask::run\<close>; the result says whether the handler threw.\<close>

definition run_timer_task :: "env \<Rightarrow> timer_task \<Rightarrow> task_id \<Rightarrow> world \<Rightarrow> (world \<times> bool) option" where
  "run_timer_task env t i w =
     (let previous_nesting = w_nesting w;
          w1 = w\<lparr>w_nesting := tt_nesting t\<rparr>;
          (cmds, failed) = env_run env (Timer t) w1
      in do {
           w2 \<leftarrow> run_all exec_cmd cmds w1;
           let w3 = w2\<lparr>w_nesting := previous_nesting\<rparr>;
           Some (case tt_interval t of
                   Some interval \<Rightarrow>
                     (let delay = clamp_nested_timeout (tt_nesting t) interval;
                          new_task = t\<lparr>tt_interval := Some interval,
                                       tt_nesting := saturating_add_u32 (tt_nesting t) 1\<rparr>
                      in with_active_event_loop
                           (requeue_js_timer (tt_timer_id t) i (Timer new_task)
                              (instant_add (w_clock w3) delay)) w3)
                 | None \<Rightarrow> with_active_event_loop (js_timer_fired (tt_timer_id t)) w3,
                 failed)
         })"

definition run_task :: "env \<Rightarrow> task \<Rightarrow> task_id \<Rightarrow> world \<Rightarrow> (world \<times> bool) option" where
  "run_task env t i w =
     (case t of
        Timer tt \<Rightarrow> run_timer_task env tt i w
      | Native _ _ \<Rightarrow>
          (let (cmds, failed) = env_run env t w
           in do { w1 \<leftarrow> run_all exec_cmd cmds w; Some (w1, failed) }))"

section \<open>One step\<close>

datatype step_outcome = Done | Idle | Progressed

definition is_alive :: "loop_id \<Rightarrow> world \<Rightarrow> bool" where
  "is_alive l w \<longleftrightarrow>
     has_pending (w_loops w l) \<or> has_interest (el_interest (w_loops w l)) \<or>
     has_pending_futures l w"

text \<open>
  The batch loop of \<open>EventLoop::step\<close>. The result is the list of the tasks that ran, of which
  the code's \<open>ran_any\<close> keeps whether there is one. A thrown exception is printed and cleared,
  which does not change the loop.
\<close>

fun step_batch ::
    "env \<Rightarrow> loop_id \<Rightarrow> task_id list \<Rightarrow> world \<Rightarrow> (world \<times> task_id list) option" where
  "step_batch env l [] w = Some (w, [])"
| "step_batch env l (i # batch) w =
     (case tq_remove i (el_tasks (w_loops w l)) of
        (_, None) \<Rightarrow> step_batch env l batch w
      | (q, Some e) \<Rightarrow>
          do {
            let w1 = on_loop l (\<lambda>el. el\<lparr>el_tasks := q\<rparr>) w;
            (w2, failed) \<leftarrow> run_task env (te_task e) i w1;
            w3 \<leftarrow> run_microtasks env w2;
            (w4, ran) \<leftarrow> step_batch env l batch w3;
            Some (w4, i # ran)
          })"

definition step_run :: "env \<Rightarrow> loop_id \<Rightarrow> world \<Rightarrow> (world \<times> task_id list) option" where
  "step_run env l w =
     do {
       (el, _) \<leftarrow> advance_timers (w_clock w) (w_loops w l);
       let w1 = on_loop l (\<lambda>_. el) w;
       step_batch env l (ready_batch (el_tasks el)) w1
     }"

definition step :: "env \<Rightarrow> loop_id \<Rightarrow> world \<Rightarrow> (world \<times> step_outcome) option" where
  "step env l w =
     do {
       (w1, ran) \<leftarrow> step_run env l w;
       Some (w1, if ran \<noteq> [] then Progressed else if is_alive l w1 then Idle else Done)
     }"

section \<open>The driver\<close>

text \<open>
  \<open>poll_pending_futures\<close> takes both lists of futures, polls those the loop owns in order, and
  puts back those that are still pending; the promises of the others are the result.
\<close>

fun poll_futures ::
    "env \<Rightarrow> loop_id \<Rightarrow> future list \<Rightarrow> world \<Rightarrow> (world \<times> future list \<times> promise_id list) option"
where
  "poll_futures env owner [] w = Some (w, [], [])"
| "poll_futures env owner (f # fs) w =
     (if \<not> owned_by owner f
      then do { (w', still, completed) \<leftarrow> poll_futures env owner fs w;
                Some (w', f # still, completed) }
      else (let (cmds, ready) = env_poll env (fu_promise f) w
            in do {
                 w1 \<leftarrow> run_all exec_cmd cmds w;
                 (w', still, completed) \<leftarrow> poll_futures env owner fs w1;
                 Some (if ready then (w', still, fu_promise f # completed)
                       else (w', f # still, completed))
               }))"

definition poll_pending_futures ::
    "env \<Rightarrow> loop_id \<Rightarrow> world \<Rightarrow> (world \<times> promise_id list) option" where
  "poll_pending_futures env owner w =
     do {
       (w', still, completed) \<leftarrow>
         poll_futures env owner (w_active w @ w_pending w) (w\<lparr>w_active := [], w_pending := []\<rparr>);
       Some (w'\<lparr>w_active := w_active w' @ still\<rparr>, completed)
     }"

text \<open>What the driver does after a turn of the loop.\<close>

datatype drive = Return | StepAgain | Wait "nat option"

definition run_until_turn ::
    "env \<Rightarrow> (world \<Rightarrow> bool) \<Rightarrow> loop_id \<Rightarrow> world \<Rightarrow> (world \<times> drive) option" where
  "run_until_turn env should_stop l w =
     do {
       (w1, outcome) \<leftarrow> with_event_loop l (step env l) w;
       let caller_stop = should_stop w1;
       if el_stop (w_loops w1 l) then Some (cancel_pending_futures_for l w1, Return)
       else if caller_stop then Some (w1, Return)
       else (let have_futures = has_pending_futures l w1
             in case outcome of
                  Done \<Rightarrow> if \<not> have_futures then Some (w1, Return)
                          else Some (w1, Wait (time_to_next_timer (w_clock w1) (w_loops w1 l)))
                | Progressed \<Rightarrow> Some (w1, StepAgain)
                | Idle \<Rightarrow> Some (w1, Wait (time_to_next_timer (w_clock w1) (w_loops w1 l))))
     }"

text \<open>
  \<open>settle_completed_futures\<close> with the loop active: settling the promises and draining their
  reactions runs JavaScript, and so does the drain of the microtasks after it. When no future
  completed, microtasks are drained only if a job is queued.
\<close>

definition settle_completed_futures ::
    "env \<Rightarrow> loop_id \<Rightarrow> promise_id list \<Rightarrow> world \<Rightarrow> world option" where
  "settle_completed_futures env l completed w =
     map_option fst
       (with_event_loop l
          (\<lambda>w1. do {
             w2 \<leftarrow> (if completed = []
                   then (if env_jobs env w1 then run_microtasks env w1 else Some w1)
                   else do { w3 \<leftarrow> run_all exec_cmd (env_settle env completed w1) w1;
                             run_microtasks env w3 });
             Some (w2, ())
           }) w)"

text \<open>
  One poll of the future that \<open>run_until\<close> waits on beside the timer and the notification: it is
  ready, with the completions, when a future completed or a job was queued.
\<close>

definition drive_futures ::
    "env \<Rightarrow> loop_id \<Rightarrow> world \<Rightarrow> (world \<times> promise_id list option) option" where
  "drive_futures env l w =
     with_event_loop l
       (\<lambda>w1. do {
          (w2, completed) \<leftarrow> poll_pending_futures env l w1;
          let jobs = env_jobs env w2;
          Some (w2, if completed = [] \<and> \<not> jobs then None else Some completed)
        }) w"

text \<open>
  The await of \<open>run_until\<close>. The platform wakes it after some time: \<open>External\<close> is a wake-up by
  the timer or a notification, which are polled first; \<open>Polled\<close> is any other. The result has no
  completions when the platform's script ends and the loop still waits.
\<close>

datatype wake = External nat | Polled nat

fun await_any ::
    "env \<Rightarrow> loop_id \<Rightarrow> wake list \<Rightarrow> world \<Rightarrow> (world \<times> promise_id list option) option" where
  "await_any env l [] w = Some (w, None)"
| "await_any env l (External n # ws) w = Some (w\<lparr>w_clock := w_clock w + n\<rparr>, Some [])"
| "await_any env l (Polled n # ws) w =
     do {
       (w1, r) \<leftarrow> drive_futures env l (w\<lparr>w_clock := w_clock w + n\<rparr>);
       case r of Some completed \<Rightarrow> Some (w1, Some completed) | None \<Rightarrow> await_any env l ws w1
     }"

text \<open>
  The loop of \<open>run_until\<close>, for a platform that wakes the waits of the successive turns as the
  lists say. The result says whether the driver returned.
\<close>

fun run_until ::
    "env \<Rightarrow> (world \<Rightarrow> bool) \<Rightarrow> loop_id \<Rightarrow> wake list list \<Rightarrow> world \<Rightarrow> (world \<times> bool) option" where
  "run_until env should_stop l [] w = Some (w, False)"
| "run_until env should_stop l (ws # turns) w =
     do {
       (w1, d) \<leftarrow> run_until_turn env should_stop l w;
       case d of
         Return \<Rightarrow> Some (w1, True)
       | StepAgain \<Rightarrow>
           do {
             (w2, completed) \<leftarrow> with_event_loop l (poll_pending_futures env l) w1;
             w3 \<leftarrow> settle_completed_futures env l completed w2;
             run_until env should_stop l turns w3
           }
       | Wait _ \<Rightarrow>
           do {
             (w2, r) \<leftarrow> await_any env l ws w1;
             case r of
               None \<Rightarrow> Some (w2, False)
             | Some completed \<Rightarrow>
                 do {
                   w3 \<leftarrow> settle_completed_futures env l completed w2;
                   run_until env should_stop l turns w3
                 }
           }
     }"

section \<open>Pending work\<close>

datatype pending_kind = PTimer string | PTask string | PInterest | PFuture | PSend

definition pending_kind_display :: "pending_kind \<Rightarrow> string" where
  "pending_kind_display k =
     (case k of
        PTimer kind \<Rightarrow> ''a pending `'' @ kind @ ''` timer''
      | PTask kind \<Rightarrow> ''a queued `'' @ kind @ ''` task''
      | PInterest \<Rightarrow> ''an operation that keeps the event loop alive''
      | PFuture \<Rightarrow> ''a host operation in flight''
      | PSend \<Rightarrow> ''a stream or future being written'')"

text \<open>
  The tasks by id, then the interest with and without a recorded origin, the futures, the sends.
  \<open>count - origins.len()\<close> would panic below zero.
\<close>

definition pending_work :: "loop_id \<Rightarrow> world \<Rightarrow> (pending_kind \<times> origin) list option" where
  "pending_work l w =
     (let el = w_loops w l;
          entries = map snd (sort_key fst (tq_entries (el_tasks el)));
          tasks = map (\<lambda>e. (case te_deadline e of
                              Some _ \<Rightarrow> PTimer (task_kind (te_task e))
                            | None \<Rightarrow> PTask (task_kind (te_task e)), te_origin e)) entries;
          origins = interest_origins (el_interest el)
      in do {
           require (length origins \<le> in_count (el_interest el));
           Some (tasks @ map (\<lambda>og. (PInterest, Some og)) origins @
                 replicate (in_count (el_interest el) - length origins) (PInterest, None) @
                 map (\<lambda>og. (PFuture, og)) (pending_future_origins l w) @
                 map (\<lambda>(_, og). (PSend, og)) (el_sends el))
         })"

text \<open>\<open>Ok\<close> is \<open>Inr\<close>; the error is the list its message is written from.\<close>

definition ensure_idle_for_snapshot ::
    "loop_id \<Rightarrow> world \<Rightarrow> ((pending_kind \<times> origin) list + unit) option" where
  "ensure_idle_for_snapshot l w =
     do { work \<leftarrow> pending_work l w; Some (if work = [] then Inr () else Inl work) }"

end
