(* ===== verification/Event_Loop_Inv.thy ===== *)
theory Event_Loop_Inv
  imports Event_Loop
begin

text \<open>
  The invariant of the event loop and what no command can undo. The invariant ties each queued
  timer task to the timer id it is registered under, and the interest count of every loop to the
  handles that are held; the frame relation says that a task id that is not in the queue never
  comes back, that a timer id is never registered twice, and that the thread-local cells are as
  before.
\<close>

section \<open>Invariant and frame\<close>

definition timer_registered :: "(nat \<times> js_timer) list \<Rightarrow> task task_entry \<Rightarrow> bool" where
  "timer_registered timers e \<longleftrightarrow>
     (case te_task e of
        Timer t \<Rightarrow> \<exists>tm. map_of timers (tt_timer_id t) = Some tm \<and> jt_task tm = te_id e
      | Native _ _ \<Rightarrow> True)"

definition loop_ok :: "nat \<Rightarrow> event_loop \<Rightarrow> bool" where
  "loop_ok counter el \<longleftrightarrow>
     tq_wf (el_tasks el) \<and>
     (\<forall>i e. tq_lookup (el_tasks el) i = Some e \<longrightarrow>
        i < el_next_id el \<and> timer_registered (el_js_timers el) e) \<and>
     (\<forall>tid tm. map_of (el_js_timers el) tid = Some tm \<longrightarrow>
        jt_task tm < el_next_id el \<and> 0 < tid \<and> tid < counter)"

definition loop_frame :: "nat \<Rightarrow> event_loop \<Rightarrow> event_loop \<Rightarrow> bool" where
  "loop_frame counter el el' \<longleftrightarrow>
     el_next_id el \<le> el_next_id el' \<and>
     (\<forall>i < el_next_id el. tq_lookup (el_tasks el) i = None \<longrightarrow> tq_lookup (el_tasks el') i = None) \<and>
     (\<forall>tid < counter. map_of (el_js_timers el') tid = map_of (el_js_timers el) tid \<or>
        map_of (el_js_timers el') tid = None)"

definition handles_of :: "loop_id \<Rightarrow> world \<Rightarrow> handle list" where
  "handles_of l w = map snd (filter (\<lambda>p. fst p = l) (w_handles w))"

definition world_ok :: "world \<Rightarrow> bool" where
  "world_ok w \<longleftrightarrow>
     (\<forall>l. loop_ok (w_timer_counter w) (w_loops w l) \<and>
          interest_wf (handles_of l w) (el_interest (w_loops w l)))"

definition frame :: "world \<Rightarrow> world \<Rightarrow> bool" where
  "frame w w' \<longleftrightarrow>
     w_current w' = w_current w \<and> w_owner w' = w_owner w \<and> w_nesting w' = w_nesting w \<and>
     w_clock w \<le> w_clock w' \<and> w_timer_counter w \<le> w_timer_counter w' \<and>
     (\<forall>l. loop_frame (w_timer_counter w) (w_loops w l) (w_loops w' l))"

lemma loop_frame_refl [simp]: "loop_frame c el el"
  by (simp add: loop_frame_def)

lemma loop_frame_trans:
  assumes "loop_frame c a b" and "loop_frame c' b d" and "c \<le> c'"
  shows "loop_frame c a d"
  unfolding loop_frame_def
proof (intro conjI allI impI)
  note f = assms(1) [unfolded loop_frame_def] and g = assms(2) [unfolded loop_frame_def]
  show "el_next_id a \<le> el_next_id d" using f g by linarith
  show "tq_lookup (el_tasks d) i = None"
    if "i < el_next_id a" "tq_lookup (el_tasks a) i = None" for i
    using f g that by (meson less_le_trans)
  show "map_of (el_js_timers d) tid = map_of (el_js_timers a) tid \<or>
      map_of (el_js_timers d) tid = None" if "tid < c" for tid
    using f g that assms(3) by (metis less_le_trans)
qed

lemma frame_refl [simp]: "frame w w"
  by (simp add: frame_def)

lemma frame_trans: "frame a b \<Longrightarrow> frame b c \<Longrightarrow> frame a c"
  unfolding frame_def by (auto intro: loop_frame_trans)

lemma loop_ok_mono: "loop_ok c el \<Longrightarrow> c \<le> c' \<Longrightarrow> loop_ok c' el"
  unfolding loop_ok_def by (meson less_le_trans)

lemma world_okD:
  "world_ok w \<Longrightarrow> loop_ok (w_timer_counter w) (w_loops w l)"
  "world_ok w \<Longrightarrow> interest_wf (handles_of l w) (el_interest (w_loops w l))"
  unfolding world_ok_def by blast+

section \<open>The registry keeps the invariant\<close>

lemma timer_registered_cong:
  "te_id e0 = te_id e \<Longrightarrow> te_task e0 = te_task e \<Longrightarrow>
     timer_registered timers e0 = timer_registered timers e"
  by (simp add: timer_registered_def split: task.split)

lemma loop_okI_tasks:
  assumes "loop_ok c el" and "tq_wf q"
    and "\<And>i e. tq_lookup q i = Some e \<Longrightarrow>
       \<exists>e0. tq_lookup (el_tasks el) i = Some e0 \<and> te_id e0 = te_id e \<and> te_task e0 = te_task e"
  shows "loop_ok c (el\<lparr>el_tasks := q\<rparr>) \<and> loop_frame c el (el\<lparr>el_tasks := q\<rparr>)"
proof
  show "loop_ok c (el\<lparr>el_tasks := q\<rparr>)"
    unfolding loop_ok_def
  proof (intro conjI allI impI)
    show "tq_wf (el_tasks (el\<lparr>el_tasks := q\<rparr>))" using assms(2) by simp
    fix i e
    assume "tq_lookup (el_tasks (el\<lparr>el_tasks := q\<rparr>)) i = Some e"
    with assms(3) [of i e] obtain e0 where
      e0: "tq_lookup (el_tasks el) i = Some e0" "te_id e0 = te_id e" "te_task e0 = te_task e" by auto
    from assms(1) e0(1) have "i < el_next_id el" "timer_registered (el_js_timers el) e0"
      unfolding loop_ok_def by blast+
    with e0 show "i < el_next_id (el\<lparr>el_tasks := q\<rparr>)"
      "timer_registered (el_js_timers (el\<lparr>el_tasks := q\<rparr>)) e"
      using timer_registered_cong [OF e0(2,3)] by simp_all
  qed (use assms(1) in \<open>simp_all add: loop_ok_def\<close>)
  have "tq_lookup q i = None" if "tq_lookup (el_tasks el) i = None" for i
    using assms(3) [of i] that by (cases "tq_lookup q i") auto
  then show "loop_frame c el (el\<lparr>el_tasks := q\<rparr>)"
    by (simp add: loop_frame_def)
qed

lemma notify_simps [simp]:
  "el_next_id (notify el) = el_next_id el" "el_tasks (notify el) = el_tasks el"
  "el_js_timers (notify el) = el_js_timers el" "el_interest (notify el) = el_interest el"
  "el_stop (notify el) = el_stop el" "el_sends (notify el) = el_sends el"
  by (simp_all add: notify_def)

lemma loop_ok_cong:
  assumes "el_next_id el' = el_next_id el" "el_tasks el' = el_tasks el"
    "el_js_timers el' = el_js_timers el"
  shows "loop_ok c el' = loop_ok c el" "loop_frame c a el' = loop_frame c a el"
  using assms by (simp_all add: loop_ok_def loop_frame_def)

lemma loop_ok_notify [simp]:
  "loop_ok c (notify el) = loop_ok c el" "loop_frame c a (notify el) = loop_frame c a el"
  by (rule loop_ok_cong; simp)+

lemma insert_fresh_ok:
  assumes ok: "loop_ok c el" and n: "el_next_id el \<le> te_id e" "te_id e < n"
    and reg: "timer_registered timers e"
    and timers: "\<And>tid tm. map_of (el_js_timers el) tid = Some tm \<Longrightarrow> map_of timers tid = Some tm"
    and new: "\<And>tid tm. map_of timers tid = Some tm \<Longrightarrow>
      map_of (el_js_timers el) tid = Some tm \<or> (jt_task tm < n \<and> 0 < tid \<and> c \<le> tid \<and> tid < c')"
    and c: "c \<le> c'"
  shows "loop_ok c' (el\<lparr>el_tasks := tq_insert e (el_tasks el), el_next_id := n,
                        el_js_timers := timers\<rparr>) \<and>
    loop_frame c el (el\<lparr>el_tasks := tq_insert e (el_tasks el), el_next_id := n,
                        el_js_timers := timers\<rparr>)"
proof
  note o = ok [unfolded loop_ok_def]
  have fresh: "tq_lookup (el_tasks el) (te_id e) = None"
    using o n(1) by (metis leD option.exhaust)
  have old: "timer_registered timers e0" if "tq_lookup (el_tasks el) i = Some e0" for i e0
    using o that timers by (fastforce simp: timer_registered_def split: task.splits)
  show "loop_ok c' (el\<lparr>el_tasks := tq_insert e (el_tasks el), el_next_id := n,
      el_js_timers := timers\<rparr>)"
    unfolding loop_ok_def
  proof (intro conjI allI impI)
    show "tq_wf (el_tasks (el\<lparr>el_tasks := tq_insert e (el_tasks el), el_next_id := n,
        el_js_timers := timers\<rparr>))" using o fresh by (simp add: tq_insert_wf)
    fix i e0
    assume "tq_lookup (el_tasks (el\<lparr>el_tasks := tq_insert e (el_tasks el), el_next_id := n,
        el_js_timers := timers\<rparr>)) i = Some e0"
    then have "i = te_id e \<and> e0 = e \<or> tq_lookup (el_tasks el) i = Some e0"
      by (auto split: if_splits)
    then show "i < el_next_id (el\<lparr>el_tasks := tq_insert e (el_tasks el), el_next_id := n,
        el_js_timers := timers\<rparr>)"
      "timer_registered (el_js_timers (el\<lparr>el_tasks := tq_insert e (el_tasks el), el_next_id := n,
        el_js_timers := timers\<rparr>)) e0"
      using o n reg old by (auto dest: less_le_trans less_trans) (metis le_less_trans less_trans)
  next
    fix tid tm
    assume "map_of (el_js_timers (el\<lparr>el_tasks := tq_insert e (el_tasks el), el_next_id := n,
        el_js_timers := timers\<rparr>)) tid = Some tm"
    then have "map_of timers tid = Some tm" by simp
    from new [OF this] o n c show "jt_task tm < el_next_id (el\<lparr>el_tasks := tq_insert e (el_tasks el),
        el_next_id := n, el_js_timers := timers\<rparr>)" "0 < tid" "tid < c'"
      by (auto, metis le_less_trans less_trans, metis less_le_trans)
  qed
  show "loop_frame c el (el\<lparr>el_tasks := tq_insert e (el_tasks el), el_next_id := n,
      el_js_timers := timers\<rparr>)"
    unfolding loop_frame_def
  proof (intro conjI allI impI)
    fix tid assume "tid < c"
    then show "map_of (el_js_timers (el\<lparr>el_tasks := tq_insert e (el_tasks el), el_next_id := n,
        el_js_timers := timers\<rparr>)) tid = map_of (el_js_timers el) tid \<or>
      map_of (el_js_timers (el\<lparr>el_tasks := tq_insert e (el_tasks el), el_next_id := n,
        el_js_timers := timers\<rparr>)) tid = None"
      using new [of tid] timers [of tid]
      by (cases "map_of timers tid"; cases "map_of (el_js_timers el) tid") force+
  qed (use n in auto)
qed

lemma insert_fresh_ok':
  assumes "loop_ok c el" and "el_next_id el \<le> te_id e" "te_id e < el_next_id el'"
    and "timer_registered (el_js_timers el') e"
    and "\<And>tid tm. map_of (el_js_timers el) tid = Some tm \<Longrightarrow>
      map_of (el_js_timers el') tid = Some tm"
    and "\<And>tid tm. map_of (el_js_timers el') tid = Some tm \<Longrightarrow>
      map_of (el_js_timers el) tid = Some tm \<or>
      (jt_task tm < el_next_id el' \<and> 0 < tid \<and> c \<le> tid \<and> tid < c')"
    and "c \<le> c'" and "el_tasks el' = tq_insert e (el_tasks el)"
  shows "loop_ok c' el' \<and> loop_frame c el el'"
  using insert_fresh_ok [OF assms(1-7)] assms(8)
  by (simp add: loop_ok_cong [of el' "el\<lparr>el_tasks := tq_insert e (el_tasks el),
        el_next_id := el_next_id el', el_js_timers := el_js_timers el'\<rparr>"])

lemma timer_registered_Native [simp]: "te_task e = Native k p \<Longrightarrow> timer_registered timers e"
  by (simp add: timer_registered_def)

lemmas queue_defs = queue_task_def queue_ready_def queue_timer_def insert_timer_def
  insert_entry_def next_task_id_def Let_def

lemma queue_native_ok:
  assumes "loop_ok c el"
  shows "loop_ok c (fst (queue_task co (Native k p) el)) \<and>
      loop_frame c el (fst (queue_task co (Native k p) el))"
    and "loop_ok c (fst (queue_ready co (Native k p) el)) \<and>
      loop_frame c el (fst (queue_ready co (Native k p) el))"
    and "loop_ok c (fst (queue_timer co (Native k p) d el)) \<and>
      loop_frame c el (fst (queue_timer co (Native k p) d el))"
proof -
  let ?e = "\<lambda>r dl. \<lparr>te_id = el_next_id el, te_task = Native k p, te_ready = r,
    te_deadline = dl, te_origin = co\<rparr>"
  show "loop_ok c (fst (queue_task co (Native k p) el)) \<and>
      loop_frame c el (fst (queue_task co (Native k p) el))"
    by (rule insert_fresh_ok' [OF assms, of "?e False None"]) (simp_all add: queue_defs)
  show "loop_ok c (fst (queue_ready co (Native k p) el)) \<and>
      loop_frame c el (fst (queue_ready co (Native k p) el))"
    by (rule insert_fresh_ok' [OF assms, of "?e True None"]) (simp_all add: queue_defs)
  show "loop_ok c (fst (queue_timer co (Native k p) d el)) \<and>
      loop_frame c el (fst (queue_timer co (Native k p) d el))"
    by (rule insert_fresh_ok' [OF assms, of "?e False (Some d)"]) (simp_all add: queue_defs)
qed

lemma cancel_if_queued_ok:
  assumes "loop_ok c el"
  shows "loop_ok c (fst (cancel_if_queued i el)) \<and> loop_frame c el (fst (cancel_if_queued i el))"
proof -
  have "loop_ok c (el\<lparr>el_tasks := fst (tq_remove i (el_tasks el))\<rparr>) \<and>
    loop_frame c el (el\<lparr>el_tasks := fst (tq_remove i (el_tasks el))\<rparr>)"
    by (rule loop_okI_tasks [OF assms])
      (use assms in \<open>auto simp: loop_ok_def tq_remove_wf split: if_splits\<close>)
  then show ?thesis by (cases "tq_remove i (el_tasks el)") (simp add: cancel_if_queued_def)
qed

lemma signal_ready_ok:
  assumes "loop_ok c el"
  shows "loop_ok c (signal_ready i el) \<and> loop_frame c el (signal_ready i el)"
proof -
  have "loop_ok c (el\<lparr>el_tasks := fst (mark_ready i (el_tasks el))\<rparr>) \<and>
    loop_frame c el (el\<lparr>el_tasks := fst (mark_ready i (el_tasks el))\<rparr>)"
    by (rule loop_okI_tasks [OF assms])
      (use assms in \<open>auto simp: loop_ok_def mark_ready_wf split: if_splits\<close>)
  then show ?thesis by (cases "mark_ready i (el_tasks el)") (simp add: signal_ready_def Let_def)
qed

lemma advance_timers_ok:
  assumes "loop_ok c el"
  shows "wp (advance_timers now el) (\<lambda>(el', n). loop_ok c el' \<and> loop_frame c el el' \<and>
    tq_lookup (el_tasks el') = scan_expire now (tq_lookup (el_tasks el)) \<and>
    n = card (expired_ids now (tq_lookup (el_tasks el))) \<and>
    el_interest el' = el_interest el)"
proof -
  have wf: "tq_wf (el_tasks el)" using assms by (simp add: loop_ok_def)
  obtain q n where q: "expire_timers now (el_tasks el) = Some (q, n)"
    using expire_timers_total [OF wf] by blast
  note r = expire_timers_result [OF wf q]
  have "loop_ok c (el\<lparr>el_tasks := q\<rparr>) \<and> loop_frame c el (el\<lparr>el_tasks := q\<rparr>)"
    by (rule loop_okI_tasks [OF assms r(1)])
      (auto simp: r(2) scan_expire_def split: if_splits)
  with q r show ?thesis by (simp add: advance_timers_def)
qed

text \<open>
  Clearing a timer takes its task out with it, so no queued timer task loses its registration.
\<close>

lemma clear_js_timer_ok:
  assumes ok: "loop_ok c el"
  shows "loop_ok c (clear_js_timer tid el) \<and> loop_frame c el (clear_js_timer tid el)"
proof -
  let ?T = "AList.delete tid (el_js_timers el)"
  let ?q = "case map_of (el_js_timers el) tid of
      Some tm \<Rightarrow> fst (tq_remove (jt_task tm) (el_tasks el)) | None \<Rightarrow> el_tasks el"
  let ?el = "el\<lparr>el_tasks := ?q, el_js_timers := ?T\<rparr>"
  have eq: "clear_js_timer tid el = ?el"
    by (auto simp: clear_js_timer_def cancel_if_queued_def Let_def split: option.split prod.split)
  note o = ok [unfolded loop_ok_def]
  have sub: "tq_lookup (el_tasks el) i = Some e"
    "\<And>tm. map_of (el_js_timers el) tid = Some tm \<Longrightarrow> jt_task tm \<noteq> i"
    if "tq_lookup ?q i = Some e" for i e
    using that by (auto split: option.splits if_splits)
  have "loop_ok c ?el"
    unfolding loop_ok_def
  proof (intro conjI allI impI)
    show "tq_wf (el_tasks ?el)" using o by (simp add: tq_remove_wf split: option.split)
    fix i e assume "tq_lookup (el_tasks ?el) i = Some e"
    then have e: "tq_lookup ?q i = Some e" by simp
    have "te_id e = i" using sub(1) [OF e] o tq_wf_id by blast
    moreover have "timer_registered (el_js_timers el) e" using sub(1) [OF e] o by blast
    ultimately show "timer_registered (el_js_timers ?el) e"
      using sub(2) [OF e] by (auto simp: timer_registered_def split: task.splits)
    show "i < el_next_id ?el" using sub(1) [OF e] o by auto
  qed (use o in \<open>auto split: if_splits\<close>)
  moreover have "loop_frame c el ?el"
    by (auto simp: loop_frame_def split: option.split)
  ultimately show ?thesis by (simp add: eq)
qed

lemma allocate_Some:
  "allocate_js_timer_id timers c = Some (c', tid) \<Longrightarrow>
     c \<le> tid \<and> 0 < tid \<and> c' = tid + 1 \<and> map_of timers tid = None \<and> tid < number_max"
proof (induction timers c rule: allocate_js_timer_id.induct)
  case (1 timers c)
  from "1.prems" "1.IH" show ?case
    by (subst (asm) allocate_js_timer_id.simps) (auto split: if_splits)
qed

lemma allocate_None:
  "allocate_js_timer_id timers c = None \<Longrightarrow> c \<le> k \<Longrightarrow> k < number_max \<Longrightarrow>
     k = 0 \<or> map_of timers k \<noteq> None"
proof (induction timers c rule: allocate_js_timer_id.induct)
  case (1 timers c)
  show ?case
  proof (cases "c = k")
    case True
    with "1.prems" show ?thesis
      by (subst (asm) allocate_js_timer_id.simps) (auto split: if_splits)
  next
    case False
    from "1.prems"(1) have "\<not> c < number_max \<or> allocate_js_timer_id timers (c + 1) = None"
      by (subst (asm) allocate_js_timer_id.simps) (auto split: if_splits)
    moreover from "1.prems" have "c < number_max" by simp
    moreover have "\<not> (c \<noteq> 0 \<and> map_of timers c = None)"
      using "1.prems"(1) \<open>c < number_max\<close>
      by (subst (asm) allocate_js_timer_id.simps) (auto split: if_splits)
    ultimately show ?thesis using "1.IH" "1.prems" False by auto
  qed
qed

lemma queue_js_timer_ok:
  assumes ok: "loop_ok c el" and q: "queue_js_timer co d mk c el = Some (el', c', tid)"
    and mk: "\<And>i. mk i = Timer (t\<lparr>tt_timer_id := i\<rparr>)"
  shows "loop_ok c' el' \<and> loop_frame c el el' \<and> c \<le> c' \<and> el_interest el' = el_interest el"
proof -
  from q have a: "allocate_js_timer_id (el_js_timers el) c = Some (c', tid)"
    by (auto simp: queue_js_timer_def Let_def split: bind_splits prod.splits)
  note a' = allocate_Some [OF a]
  let ?e = "\<lparr>te_id = el_next_id el, te_task = mk tid, te_ready = False,
    te_deadline = Some d, te_origin = co\<rparr>"
  from q a have el': "el' = notify (el\<lparr>el_next_id := el_next_id el + 1,
      el_tasks := tq_insert ?e (el_tasks el)\<rparr>)
      \<lparr>el_js_timers := AList.update tid \<lparr>jt_task = el_next_id el, jt_origin = co\<rparr>
        (el_js_timers el)\<rparr>"
    by (auto simp: queue_js_timer_def queue_defs)
  have "loop_ok c' el' \<and> loop_frame c el el'"
    by (rule insert_fresh_ok' [OF ok, of ?e])
      (use a' mk in \<open>auto simp: el' timer_registered_def split: if_splits\<close>)
  with a' show ?thesis by (simp add: el')
qed

section \<open>The commands keep the invariant\<close>

lemma on_loop_simps [simp]:
  "w_loops (on_loop l f w) l' = (if l' = l then f (w_loops w l) else w_loops w l')"
  "w_current (on_loop l f w) = w_current w" "w_owner (on_loop l f w) = w_owner w"
  "w_nesting (on_loop l f w) = w_nesting w" "w_clock (on_loop l f w) = w_clock w"
  "w_timer_counter (on_loop l f w) = w_timer_counter w"
  "w_handles (on_loop l f w) = w_handles w" "handles_of l' (on_loop l f w) = handles_of l' w"
  "w_pending (on_loop l f w) = w_pending w" "w_active (on_loop l f w) = w_active w"
  by (simp_all add: on_loop_def handles_of_def)

lemma on_loop_ok:
  assumes "world_ok w" and "\<And>c. loop_ok c (w_loops w l) \<Longrightarrow>
      loop_ok c (f (w_loops w l)) \<and> loop_frame c (w_loops w l) (f (w_loops w l))"
    and "el_interest (f (w_loops w l)) = el_interest (w_loops w l)"
  shows "world_ok (on_loop l f w) \<and> frame w (on_loop l f w)"
  using assms by (auto simp: world_ok_def frame_def)

lemma with_active_ok:
  assumes "world_ok w" and "\<And>c el. loop_ok c el \<Longrightarrow> loop_ok c (f el) \<and> loop_frame c el (f el)"
    and "\<And>el. el_interest (f el) = el_interest el"
  shows "world_ok (with_active_event_loop f w) \<and> frame w (with_active_event_loop f w)"
proof (cases "w_current w")
  case None
  with assms(1) show ?thesis by (simp add: with_active_event_loop_def)
next
  case (Some l)
  with on_loop_ok [OF assms(1), of l f] assms(2,3) show ?thesis
    by (simp add: with_active_event_loop_def)
qed

lemma loop_ok_other [simp]:
  "loop_ok c (register_pending_send co n el) = loop_ok c el"
  "loop_ok c (request_stop el) = loop_ok c el" "loop_ok c (el\<lparr>el_interest := st\<rparr>) = loop_ok c el"
  "loop_frame c a (register_pending_send co n el) = loop_frame c a el"
  "loop_frame c a (request_stop el) = loop_frame c a el"
  "loop_frame c a (el\<lparr>el_interest := st\<rparr>) = loop_frame c a el"
  by (rule loop_ok_cong; simp add: register_pending_send_def request_stop_def)+

lemma el_interest_ops [simp]:
  "el_interest (fst (queue_task co t el)) = el_interest el"
  "el_interest (fst (queue_ready co t el)) = el_interest el"
  "el_interest (fst (queue_timer co t d el)) = el_interest el"
  "el_interest (signal_ready i el) = el_interest el"
  "el_interest (fst (cancel_if_queued i el)) = el_interest el"
  "el_interest (clear_js_timer tid el) = el_interest el"
  "el_interest (register_pending_send co n el) = el_interest el"
  "el_interest (request_stop el) = el_interest el"
  "el_interest (js_timer_fired tid el) = el_interest el"
  "el_interest (requeue_js_timer tid i t d el) = el_interest el"
  by (auto simp: queue_defs signal_ready_def cancel_if_queued_def clear_js_timer_def
      register_pending_send_def request_stop_def js_timer_fired_def requeue_js_timer_def
      split: prod.split option.split)

lemma set_timer_ok:
  assumes ok: "world_ok w"
    and t: "timer_initialization_steps h tm rep w = Some (w', r)"
  shows "world_ok w' \<and> frame w w'"
proof (cases "w_current w")
  case None
  with t ok show ?thesis by (simp add: timer_initialization_steps_def Let_def)
next
  case (Some l)
  define nd where "nd = clamp_nested_timeout (w_nesting w) (millis (nat (max tm 0)))"
  define mk where "mk = (\<lambda>i. Timer \<lparr>tt_handler = h, tt_interval = (if rep then Some nd else None),
      tt_nesting = saturating_add_u32 (w_nesting w) 1, tt_timer_id = i\<rparr>)"
  from t Some obtain el c tid where
    q: "queue_js_timer (w_origin w) (instant_add (w_clock w) nd) mk (w_timer_counter w) (w_loops w l)
        = Some (el, c, tid)"
    and w': "w' = on_loop l (\<lambda>_. el) (w\<lparr>w_timer_counter := c\<rparr>)"
    by (cases rep)
      (auto simp: timer_initialization_steps_def Let_def mk_def nd_def
        split: bind_splits prod.splits)
  have "mk i = Timer (\<lparr>tt_handler = h, tt_interval = (if rep then Some nd else None),
      tt_nesting = saturating_add_u32 (w_nesting w) 1, tt_timer_id = 0\<rparr>\<lparr>tt_timer_id := i\<rparr>)" for i
    by (simp add: mk_def)
  from queue_js_timer_ok [OF world_okD(1) [OF ok] q this]
  show ?thesis
    using world_okD [OF ok]
    by (auto simp: w' world_ok_def frame_def handles_of_def intro: loop_ok_mono)
qed

lemma acquire_interest_ok:
  assumes ok: "world_ok w" and a: "acquire_interest w = Some w'"
  shows "world_ok w' \<and> frame w w'"
proof (cases "w_current w")
  case None
  with a ok show ?thesis by (simp add: acquire_interest_def)
next
  case (Some l)
  with a obtain st h where
    h: "acquire_handle (w_origin w) (el_interest (w_loops w l)) = Some (st, h)"
    and w': "w' = on_loop l (\<lambda>el. el\<lparr>el_interest := st\<rparr>) (w\<lparr>w_handles := w_handles w @ [(l, h)]\<rparr>)"
    by (auto simp: acquire_interest_def split: bind_splits prod.splits)
  have "interest_wf (handles_of l w') st"
    using acquire_handle_wf [OF world_okD(2) [OF ok, of l] h] by (simp add: w' handles_of_def)
  then show ?thesis
    using world_okD [OF ok] by (auto simp: w' world_ok_def frame_def handles_of_def)
qed

lemma handles_of_remove:
  assumes "n < length (w_handles w)" and "w_handles w ! n = (l, h)"
  shows "\<exists>hs1 hs2. handles_of l w = hs1 @ h # hs2 \<and>
    handles_of l (w\<lparr>w_handles := take n (w_handles w) @ drop (Suc n) (w_handles w)\<rparr>) = hs1 @ hs2"
    "l' \<noteq> l \<Longrightarrow>
      handles_of l' (w\<lparr>w_handles := take n (w_handles w) @ drop (Suc n) (w_handles w)\<rparr>) =
      handles_of l' w"
proof -
  have d: "w_handles w = take n (w_handles w) @ (l, h) # drop (Suc n) (w_handles w)"
    using assms id_take_nth_drop [of n "w_handles w"] by simp
  show "\<exists>hs1 hs2. handles_of l w = hs1 @ h # hs2 \<and>
    handles_of l (w\<lparr>w_handles := take n (w_handles w) @ drop (Suc n) (w_handles w)\<rparr>) = hs1 @ hs2"
    by (subst (1) handles_of_def, subst d) (auto simp: handles_of_def)
  show "handles_of l' (w\<lparr>w_handles := take n (w_handles w) @ drop (Suc n) (w_handles w)\<rparr>) =
      handles_of l' w" if "l' \<noteq> l"
    using that by (subst (2) handles_of_def, subst d) (simp add: handles_of_def)
qed

lemma drop_interest_ok:
  assumes ok: "world_ok w"
  shows "wp (drop_interest n w) (\<lambda>w'. world_ok w' \<and> frame w w')"
proof (cases "n < length (w_handles w)")
  case False
  with ok show ?thesis by (simp add: drop_interest_def)
next
  case True
  obtain l h where lh: "w_handles w ! n = (l, h)" by (cases "w_handles w ! n")
  let ?w = "w\<lparr>w_handles := take n (w_handles w) @ drop (Suc n) (w_handles w)\<rparr>"
  from handles_of_remove(1) [OF True lh] obtain hs1 hs2
    where hs: "handles_of l w = hs1 @ h # hs2" "handles_of l ?w = hs1 @ hs2" by blast
  from drop_handle_wf [of hs1 h hs2] world_okD(2) [OF ok, of l] hs(1) obtain st
    where st: "drop_handle h (el_interest (w_loops w l)) = Some st" "interest_wf (hs1 @ hs2) st"
    by (auto elim: wpE)
  have "world_ok (on_loop l (\<lambda>el. notify (el\<lparr>el_interest := st\<rparr>)) ?w)"
    using world_okD [OF ok] hs(2) st(2) handles_of_remove(2) [OF True lh]
    by (auto simp: world_ok_def)
  moreover have "frame w (on_loop l (\<lambda>el. notify (el\<lparr>el_interest := st\<rparr>)) ?w)"
    by (simp add: frame_def)
  ultimately show ?thesis using True lh st(1) by (simp add: drop_interest_def Let_def)
qed

lemma world_ok_trivial:
  "world_ok w \<Longrightarrow> world_ok (w\<lparr>w_clock := t\<rparr>)" "world_ok w \<Longrightarrow> world_ok (w\<lparr>w_origin := og\<rparr>)"
  "world_ok w \<Longrightarrow> world_ok (spawn_future p w)" "world_ok w \<Longrightarrow> world_ok (cancel_pending_future p w)"
  "world_ok w \<Longrightarrow> world_ok (w\<lparr>w_nesting := n\<rparr>)" "world_ok w \<Longrightarrow> world_ok (w\<lparr>w_current := cl, w_owner := ow\<rparr>)"
  "world_ok w \<Longrightarrow> world_ok (w\<lparr>w_owner := ow, w_current := cl\<rparr>)"
  "world_ok w \<Longrightarrow> world_ok (w\<lparr>w_active := fs, w_pending := gs\<rparr>)"
  by (simp_all add: world_ok_def spawn_future_def cancel_pending_future_def handles_of_def)

lemma exec_cmd_ok:
  assumes ok: "world_ok w" and e: "exec_cmd c w = Some w'"
  shows "world_ok w' \<and> frame w w'"
proof (cases c)
  case (SetTimeout h t)
  with e set_timer_ok [OF ok] show ?thesis by (auto simp: set_timeout_def)
next
  case (SetInterval h t)
  with e set_timer_ok [OF ok] show ?thesis by (auto simp: set_interval_def)
next
  case (ClearTimer i)
  with e with_active_ok [OF ok clear_js_timer_ok el_interest_ops(6)] show ?thesis
    by (auto simp: clear_timeout_def)
next
  case (QueueTask k p)
  with e with_active_ok [OF ok queue_native_ok(1) el_interest_ops(1)] show ?thesis by auto
next
  case (QueueReady k p)
  with e with_active_ok [OF ok queue_native_ok(2) el_interest_ops(2)] show ?thesis by auto
next
  case (QueueTimer k p d)
  with e with_active_ok [OF ok queue_native_ok(3) el_interest_ops(3)] show ?thesis by auto
next
  case (SignalReady i)
  with e with_active_ok [OF ok signal_ready_ok el_interest_ops(4)] show ?thesis by auto
next
  case (CancelTask i)
  with e with_active_ok [OF ok cancel_if_queued_ok el_interest_ops(5)] show ?thesis by auto
next
  case AcquireInterest
  with e acquire_interest_ok [OF ok] show ?thesis by auto
next
  case (DropInterest n)
  with e drop_interest_ok [OF ok, of n] show ?thesis by auto
next
  case (RegisterSend n)
  with e with_active_ok [OF ok, of "register_pending_send (w_origin w) n"] show ?thesis by auto
next
  case RequestStop
  with e with_active_ok [OF ok, of request_stop] show ?thesis by auto
qed (use e ok world_ok_trivial in
      \<open>auto simp: frame_def spawn_future_def cancel_pending_future_def\<close>)

interpretation loop_cmds: command_system exec_cmd world_ok frame
  by unfold_locales (auto dest: exec_cmd_ok intro: frame_trans)

text \<open>
  The only panics a command can meet: the interest count of the active loop is at the top of its
  range, or every timer id that is left is in use.
\<close>

lemma exec_cmd_panics:
  assumes ok: "world_ok w" and none: "exec_cmd c w = None"
  shows "\<exists>l. w_current w = Some l \<and>
    (c = AcquireInterest \<and> in_count (el_interest (w_loops w l)) = u32_max \<or>
     (\<exists>h t. c = SetTimeout h t \<or> c = SetInterval h t) \<and>
       allocate_js_timer_id (el_js_timers (w_loops w l)) (w_timer_counter w) = None)"
proof -
  have timers: "\<exists>l. w_current w = Some l \<and>
      allocate_js_timer_id (el_js_timers (w_loops w l)) (w_timer_counter w) = None"
    if "timer_initialization_steps h t rep w = None" for h t rep
    using that
    by (auto simp: timer_initialization_steps_def queue_js_timer_def Let_def
        split: option.splits bind_splits prod.splits)
  show ?thesis
  proof (cases c)
    case AcquireInterest
    with none obtain l where l: "w_current w = Some l"
      and "acquire_handle (w_origin w) (el_interest (w_loops w l)) = None"
      by (auto simp: acquire_interest_def split: option.splits bind_splits prod.splits)
    with world_okD(2) [OF ok, of l] AcquireInterest show ?thesis
      by (auto simp: acquire_handle_panics interest_wf_def)
  next
    case (DropInterest n)
    with none drop_interest_ok [OF ok, of n] show ?thesis by simp
  qed (use none timers in \<open>auto simp: set_timeout_def set_interval_def\<close>)
qed

end
