(* ===== verification/Event_Loop_Props.thy ===== *)
theory Event_Loop_Props
  imports Event_Loop_Inv "HOL-Library.Sublist"
begin

text \<open>
  What a step of the event loop and a turn of its driver guarantee, whatever JavaScript does in
  between.
\<close>

section \<open>Running one task keeps the invariant\<close>

text \<open>The part of the frame that running a task keeps: an interval's task id does come back.\<close>

definition weak_frame :: "world \<Rightarrow> world \<Rightarrow> bool" where
  "weak_frame w w' \<longleftrightarrow>
     w_current w' = w_current w \<and> w_owner w' = w_owner w \<and> w_nesting w' = w_nesting w \<and>
     w_clock w \<le> w_clock w' \<and>
     (\<forall>l. el_next_id (w_loops w l) \<le> el_next_id (w_loops w' l))"

lemma weak_frame_refl [simp]: "weak_frame w w"
  by (simp add: weak_frame_def)

lemma weak_frame_trans: "weak_frame a b \<Longrightarrow> weak_frame b c \<Longrightarrow> weak_frame a c"
  unfolding weak_frame_def by (auto intro: order_trans)

lemma frame_weak: "frame w w' \<Longrightarrow> weak_frame w w'"
  by (simp add: frame_def weak_frame_def loop_frame_def)

lemma requeue_js_timer_ok:
  assumes ok: "loop_ok c el" and i: "i < el_next_id el" "tq_lookup (el_tasks el) i = None"
    and t: "tt_timer_id t = tid"
  shows "loop_ok c (requeue_js_timer tid i (Timer t) d el) \<and>
    el_next_id (requeue_js_timer tid i (Timer t) d el) = el_next_id el"
proof (cases "\<exists>tm. map_of (el_js_timers el) tid = Some tm \<and> jt_task tm = i")
  case False
  with ok show ?thesis by (auto simp: requeue_js_timer_def split: option.split)
next
  case True
  then obtain tm where tm: "map_of (el_js_timers el) tid = Some tm" "jt_task tm = i" by blast
  let ?e = "\<lparr>te_id = i, te_task = Timer t, te_ready = False, te_deadline = Some d,
    te_origin = jt_origin tm\<rparr>"
  have eq: "requeue_js_timer tid i (Timer t) d el = notify (el\<lparr>el_tasks := tq_insert ?e (el_tasks el)\<rparr>)"
    using tm by (simp add: requeue_js_timer_def insert_timer_def insert_entry_def)
  have "tq_wf (tq_insert ?e (el_tasks el))"
    using ok i(2) by (intro tq_insert_wf) (simp_all add: loop_ok_def)
  moreover have "timer_registered (el_js_timers el) ?e"
    using tm t by (simp add: timer_registered_def)
  ultimately show ?thesis
    using ok i(1) unfolding eq by (auto simp: loop_ok_def)
qed

lemma js_timer_fired_ok:
  assumes ok: "loop_ok c el"
    and free: "\<And>tm. map_of (el_js_timers el) tid = Some tm \<Longrightarrow>
      tq_lookup (el_tasks el) (jt_task tm) = None"
  shows "loop_ok c (js_timer_fired tid el)"
proof -
  have "timer_registered (AList.delete tid (el_js_timers el)) e"
    if e: "tq_lookup (el_tasks el) i = Some e" for i e
  proof (cases "te_task e")
    case (Timer t)
    from ok e have "timer_registered (el_js_timers el) e" "te_id e = i"
      by (auto simp: loop_ok_def dest: tq_wf_id)
    with Timer obtain tm where tm: "map_of (el_js_timers el) (tt_timer_id t) = Some tm"
      "jt_task tm = i" by (auto simp: timer_registered_def)
    with free [of tm] e have "tt_timer_id t \<noteq> tid" by auto
    with tm Timer \<open>te_id e = i\<close> show ?thesis by (simp add: timer_registered_def)
  qed simp
  with ok show ?thesis by (auto simp: loop_ok_def js_timer_fired_def split: if_splits)
qed

text \<open>What is known of a task when it has just been taken out of the queue of loop \<open>l\<close>.\<close>

definition running :: "loop_id \<Rightarrow> task \<Rightarrow> task_id \<Rightarrow> world \<Rightarrow> bool" where
  "running l t i w \<longleftrightarrow>
     w_current w = Some l \<and> i < el_next_id (w_loops w l) \<and>
     tq_lookup (el_tasks (w_loops w l)) i = None \<and>
     (case t of
        Timer tt \<Rightarrow> tt_timer_id tt < w_timer_counter w \<and>
          (\<forall>tm. map_of (el_js_timers (w_loops w l)) (tt_timer_id tt) = Some tm \<longrightarrow> jt_task tm = i)
      | Native _ _ \<Rightarrow> True)"

lemma running_frame:
  assumes "running l t i w" and "frame w w'"
  shows "running l t i w'"
proof -
  have f: "loop_frame (w_timer_counter w) (w_loops w l) (w_loops w' l)"
    using assms(2) by (simp add: frame_def)
  have i: "i < el_next_id (w_loops w' l)" "tq_lookup (el_tasks (w_loops w' l)) i = None"
    using assms(1) f by (auto simp: running_def loop_frame_def)
  have timer: "jt_task tm = i" if "t = Timer tt"
    "map_of (el_js_timers (w_loops w' l)) (tt_timer_id tt) = Some tm" for tt tm
  proof -
    have "tt_timer_id tt < w_timer_counter w" using assms(1) that(1) by (simp add: running_def)
    with f that(2) have "map_of (el_js_timers (w_loops w l)) (tt_timer_id tt) = Some tm"
      unfolding loop_frame_def by (metis option.distinct(1))
    with assms(1) that(1) show ?thesis by (simp add: running_def)
  qed
  show ?thesis
    using assms i timer by (cases t) (auto simp: running_def frame_def)
qed

lemma running_nesting [simp]: "running l t i (w\<lparr>w_nesting := n\<rparr>) = running l t i w"
  by (simp add: running_def split: task.split)

lemma run_cmds_ok:
  assumes "world_ok w" and "running l t i w" and "run_all exec_cmd cmds w = Some w'"
  shows "world_ok w' \<and> running l t i w' \<and> frame w w'"
  using loop_cmds.run_inv_rel [OF assms(1,3)] running_frame [OF assms(2)] by blast

lemma run_timer_task_ok:
  assumes ok: "world_ok w" and run: "running l (Timer t) i w"
    and r: "run_timer_task env t i w = Some (w', failed)"
  shows "world_ok w' \<and> weak_frame w w'"
proof -
  let ?w1 = "w\<lparr>w_nesting := tt_nesting t\<rparr>"
  obtain cmds f where cf: "env_run env (Timer t) ?w1 = (cmds, f)" by (cases "env_run env (Timer t) ?w1")
  from r cf obtain w2 where w2: "run_all exec_cmd cmds ?w1 = Some w2"
    by (auto simp: run_timer_task_def split: bind_splits)
  have "world_ok ?w1" "running l (Timer t) i ?w1"
    using ok run by (simp_all add: world_ok_trivial)
  from run_cmds_ok [OF this w2] have k: "world_ok w2" "running l (Timer t) i w2" "frame ?w1 w2" by auto
  let ?w3 = "w2\<lparr>w_nesting := w_nesting w\<rparr>"
  have w3: "world_ok ?w3" "weak_frame w ?w3" "w_current w2 = Some l"
    using k by (auto simp: world_ok_trivial weak_frame_def frame_def loop_frame_def running_def)
  have el: "loop_ok (w_timer_counter w2) (w_loops w2 l)" using world_okD(1) [OF k(1)] .
  note rn = k(2) [unfolded running_def]
  have done_: "world_ok (on_loop l f ?w3) \<and> weak_frame w (on_loop l f ?w3)"
    if "loop_ok (w_timer_counter w2) (f (w_loops w2 l))"
      and "el_next_id (f (w_loops w2 l)) = el_next_id (w_loops w2 l)"
      and "el_interest (f (w_loops w2 l)) = el_interest (w_loops w2 l)" for f
    using that w3(1,2) by (auto simp: world_ok_def weak_frame_def)
  show ?thesis
  proof (cases "tt_interval t")
    case None
    with r cf w2 w3(3) have w': "w' = on_loop l (js_timer_fired (tt_timer_id t)) ?w3"
      by (simp add: run_timer_task_def with_active_event_loop_def Let_def)
    have "loop_ok (w_timer_counter w2) (js_timer_fired (tt_timer_id t) (w_loops w2 l))"
      by (rule js_timer_fired_ok [OF el]) (use rn in auto)
    then show ?thesis unfolding w' by (rule done_) (simp_all add: js_timer_fired_def)
  next
    case (Some d)
    define nt where "nt = t\<lparr>tt_interval := Some d, tt_nesting := saturating_add_u32 (tt_nesting t) 1\<rparr>"
    from Some r cf w2 w3(3) have w': "w' = on_loop l (requeue_js_timer (tt_timer_id t) i (Timer nt)
        (instant_add (w_clock w2) (clamp_nested_timeout (tt_nesting t) d))) ?w3"
      by (simp add: run_timer_task_def with_active_event_loop_def Let_def nt_def)
    from requeue_js_timer_ok [OF el, of i nt "tt_timer_id t"] rn
    show ?thesis unfolding w' by (intro done_) (simp_all add: nt_def)
  qed
qed

lemma run_task_ok:
  assumes ok: "world_ok w" and run: "running l t i w" and r: "run_task env t i w = Some (w', failed)"
  shows "world_ok w' \<and> weak_frame w w'"
proof (cases t)
  case (Timer tt)
  with run_timer_task_ok [OF ok _, of l tt i env w' failed] run r show ?thesis
    by (simp add: run_task_def)
next
  case (Native k p)
  with r run_cmds_ok [OF ok run] frame_weak show ?thesis
    by (auto simp: run_task_def Let_def split: prod.splits bind_splits)
qed

lemma run_microtasks_ok:
  "world_ok w \<Longrightarrow> run_microtasks env w = Some w' \<Longrightarrow> world_ok w' \<and> weak_frame w w'"
  using loop_cmds.run_inv_rel frame_weak by (auto simp: run_microtasks_def)

section \<open>A step keeps the invariant\<close>

lemma take_out_running:
  assumes ok: "world_ok w" and cur: "w_current w = Some l"
    and rm: "tq_remove i (el_tasks (w_loops w l)) = (q, Some e)"
  shows "world_ok (on_loop l (\<lambda>el. el\<lparr>el_tasks := q\<rparr>) w) \<and>
    running l (te_task e) i (on_loop l (\<lambda>el. el\<lparr>el_tasks := q\<rparr>) w) \<and>
    weak_frame w (on_loop l (\<lambda>el. el\<lparr>el_tasks := q\<rparr>) w)"
proof -
  let ?el = "w_loops w l"
  have q: "q = fst (tq_remove i (el_tasks ?el))" and e: "tq_lookup (el_tasks ?el) i = Some e"
    using rm tq_remove_result [of i "el_tasks ?el"] by simp_all
  have el: "loop_ok (w_timer_counter w) ?el" using world_okD(1) [OF ok] .
  note o = el [unfolded loop_ok_def]
  have ok': "world_ok (on_loop l (\<lambda>el. el\<lparr>el_tasks := q\<rparr>) w) \<and>
      frame w (on_loop l (\<lambda>el. el\<lparr>el_tasks := q\<rparr>) w)"
  proof (rule on_loop_ok [OF ok])
    fix c assume c: "loop_ok c ?el"
    show "loop_ok c (?el\<lparr>el_tasks := q\<rparr>) \<and> loop_frame c ?el (?el\<lparr>el_tasks := q\<rparr>)"
      by (rule loop_okI_tasks [OF c])
        (use o in \<open>auto simp: q tq_remove_wf split: if_splits\<close>)
  qed simp
  have i: "i < el_next_id ?el" and id: "te_id e = i" and reg: "timer_registered (el_js_timers ?el) e"
    using o e tq_wf_id by blast+
  have "running l (te_task e) i (on_loop l (\<lambda>el. el\<lparr>el_tasks := q\<rparr>) w)"
  proof (cases "te_task e")
    case (Timer t)
    with reg obtain tm where tm: "map_of (el_js_timers ?el) (tt_timer_id t) = Some tm"
      "jt_task tm = i" using id by (auto simp: timer_registered_def)
    with Timer i cur o show ?thesis by (auto simp: running_def q)
  qed (use i cur in \<open>simp add: running_def q\<close>)
  with ok' frame_weak show ?thesis by blast
qed

lemma step_batch_ok:
  "world_ok w \<Longrightarrow> w_current w = Some l \<Longrightarrow> step_batch env l batch w = Some (w', rs) \<Longrightarrow>
     world_ok w' \<and> weak_frame w w'"
proof (induction batch arbitrary: w rs)
  case Nil
  then show ?case by simp
next
  case (Cons i batch)
  obtain q r where rm: "tq_remove i (el_tasks (w_loops w l)) = (q, r)" by fastforce
  show ?case
  proof (cases r)
    case None
    with Cons rm show ?thesis by simp
  next
    case (Some e)
    let ?w1 = "on_loop l (\<lambda>el. el\<lparr>el_tasks := q\<rparr>) w"
    from Cons.prems(3) rm Some obtain w2 f w3 rs' where
      r2: "run_task env (te_task e) i ?w1 = Some (w2, f)" and
      r3: "run_microtasks env w2 = Some w3" and
      r4: "step_batch env l batch w3 = Some (w', rs')"
      by (auto split: bind_splits prod.splits)
    from take_out_running [OF Cons.prems(1,2)] rm Some
    have k1: "world_ok ?w1" "running l (te_task e) i ?w1" "weak_frame w ?w1" by auto
    from run_task_ok [OF k1(1,2) r2] have k2: "world_ok w2" "weak_frame ?w1 w2" by auto
    from run_microtasks_ok [OF k2(1) r3] have k3: "world_ok w3" "weak_frame w2 w3" by auto
    have f3: "weak_frame w w3" using k1(3) k2(2) k3(2) by (blast intro: weak_frame_trans)
    with Cons.prems(2) have "w_current w3 = Some l" by (simp add: weak_frame_def)
    from Cons.IH [OF k3(1) this r4] f3 show ?thesis by (blast intro: weak_frame_trans)
  qed
qed

lemma step_run_parts:
  assumes ok: "world_ok w" and s: "step_run env l w = Some (w', rs)"
  shows "\<exists>el. world_ok (on_loop l (\<lambda>_. el) w) \<and> weak_frame w (on_loop l (\<lambda>_. el) w) \<and>
    tq_wf (el_tasks el) \<and>
    tq_lookup (el_tasks el) = scan_expire (w_clock w) (tq_lookup (el_tasks (w_loops w l))) \<and>
    step_batch env l (ready_batch (el_tasks el)) (on_loop l (\<lambda>_. el) w) = Some (w', rs)"
proof -
  have a: "wp (advance_timers (w_clock w) (w_loops w l)) (\<lambda>(el', n). loop_ok c el' \<and>
      loop_frame c (w_loops w l) el' \<and>
      tq_lookup (el_tasks el') = scan_expire (w_clock w) (tq_lookup (el_tasks (w_loops w l))) \<and>
      n = card (expired_ids (w_clock w) (tq_lookup (el_tasks (w_loops w l)))) \<and>
      el_interest el' = el_interest (w_loops w l))" if "loop_ok c (w_loops w l)" for c
    using advance_timers_ok [OF that] .
  from a [OF world_okD(1) [OF ok]] obtain el n where
    el: "advance_timers (w_clock w) (w_loops w l) = Some (el, n)" by (auto elim: wpE)
  have "world_ok (on_loop l (\<lambda>_. el) w) \<and> frame w (on_loop l (\<lambda>_. el) w)"
    by (rule on_loop_ok [OF ok]) (use a el world_okD(1) [OF ok] in auto)
  moreover have "tq_wf (el_tasks el)"
    "tq_lookup (el_tasks el) = scan_expire (w_clock w) (tq_lookup (el_tasks (w_loops w l)))"
    using a [OF world_okD(1) [OF ok]] el by (auto simp: loop_ok_def)
  ultimately show ?thesis
    using s el frame_weak by (auto simp: step_run_def)
qed

lemma step_run_ok:
  assumes "world_ok w" and "w_current w = Some l" and "step_run env l w = Some (w', rs)"
  shows "world_ok w' \<and> weak_frame w w'"
proof -
  from step_run_parts [OF assms(1,3)] obtain el where
    p: "world_ok (on_loop l (\<lambda>_. el) w)" "weak_frame w (on_loop l (\<lambda>_. el) w)"
    "step_batch env l (ready_batch (el_tasks el)) (on_loop l (\<lambda>_. el) w) = Some (w', rs)" by blast
  from step_batch_ok [OF p(1) _ p(3)] assms(2) p(2) show ?thesis
    by (auto intro: weak_frame_trans)
qed

lemma step_ok:
  assumes "world_ok w" and "w_current w = Some l" and "step env l w = Some (w', outcome)"
  shows "world_ok w' \<and> weak_frame w w'"
  using assms(3) step_run_ok [OF assms(1,2)]
  by (auto simp: step_def split: bind_splits prod.splits)

section \<open>What a step runs\<close>

text \<open>The tasks a batch runs are some of the batch, in its order.\<close>

lemma step_batch_subseq:
  "step_batch env l batch w = Some (w', rs) \<Longrightarrow> subseq rs batch"
proof (induction batch arbitrary: w rs)
  case Nil
  then show ?case by simp
next
  case (Cons i batch)
  then show ?case
    by (fastforce split: prod.splits option.splits bind_splits intro: subseq_Cons')
qed

lemma subseq_in_set: "subseq xs ys \<Longrightarrow> x \<in> set xs \<Longrightarrow> x \<in> set ys"
  by (induction rule: list_emb.induct) auto

lemma subseq_sorted_wrt: "subseq xs ys \<Longrightarrow> sorted_wrt P ys \<Longrightarrow> sorted_wrt P xs"
  by (induction rule: list_emb.induct) (auto dest: subseq_in_set)

lemma subseq_distinct_list: "subseq xs ys \<Longrightarrow> distinct ys \<Longrightarrow> distinct xs"
  by (induction rule: list_emb.induct) (auto dest: subseq_in_set)

text \<open>Commands that take no task out of a queue, and those that leave a loop's tasks alone.\<close>

definition no_cancel :: "cmd \<Rightarrow> bool" where
  "no_cancel c \<longleftrightarrow> (\<forall>i. c \<noteq> ClearTimer i) \<and> (\<forall>i. c \<noteq> CancelTask i)"

definition persists :: "world \<Rightarrow> world \<Rightarrow> bool" where
  "persists w w' \<longleftrightarrow>
     (\<forall>l. dom (tq_lookup (el_tasks (w_loops w l))) \<subseteq> dom (tq_lookup (el_tasks (w_loops w' l))))"

lemma persists_refl [simp]: "persists w w"
  by (simp add: persists_def)

lemma persists_trans: "persists a b \<Longrightarrow> persists b c \<Longrightarrow> persists a c"
  unfolding persists_def by blast

lemma persists_same_loops: "w_loops w' = w_loops w \<Longrightarrow> persists w w'"
  by (simp add: persists_def)

lemma with_active_persists:
  assumes "\<And>el. dom (tq_lookup (el_tasks el)) \<subseteq> dom (tq_lookup (el_tasks (f el)))"
  shows "persists w (with_active_event_loop f w)"
  using assms by (auto simp: persists_def with_active_event_loop_def split: option.split)

lemma el_tasks_grow:
  "dom (tq_lookup (el_tasks el)) \<subseteq> dom (tq_lookup (el_tasks (fst (queue_task co t el))))"
  "dom (tq_lookup (el_tasks el)) \<subseteq> dom (tq_lookup (el_tasks (fst (queue_ready co t el))))"
  "dom (tq_lookup (el_tasks el)) \<subseteq> dom (tq_lookup (el_tasks (fst (queue_timer co t d el))))"
  "dom (tq_lookup (el_tasks el)) \<subseteq> dom (tq_lookup (el_tasks (signal_ready i el)))"
  "dom (tq_lookup (el_tasks el)) \<subseteq> dom (tq_lookup (el_tasks (register_pending_send co n el)))"
  "dom (tq_lookup (el_tasks el)) \<subseteq> dom (tq_lookup (el_tasks (request_stop el)))"
  "dom (tq_lookup (el_tasks el)) \<subseteq> dom (tq_lookup (el_tasks (requeue_js_timer tid i t d el)))"
  "dom (tq_lookup (el_tasks el)) \<subseteq> dom (tq_lookup (el_tasks (js_timer_fired tid el)))"
proof -
  have "dom (tq_lookup q) \<subseteq> dom (tq_lookup (fst (mark_ready i q)))" for q :: "task task_queue"
    by (auto simp: dom_def)
  from this [of "el_tasks el"]
  show "dom (tq_lookup (el_tasks el)) \<subseteq> dom (tq_lookup (el_tasks (signal_ready i el)))"
    by (cases "mark_ready i (el_tasks el)") (simp add: signal_ready_def Let_def)
qed (auto simp: queue_defs register_pending_send_def request_stop_def requeue_js_timer_def
    js_timer_fired_def split: option.split)

lemma set_timer_persists:
  assumes "timer_initialization_steps h tm rep w = Some (w', r)"
  shows "persists w w'"
  using assms
  by (auto simp: timer_initialization_steps_def queue_js_timer_def queue_defs persists_def
      split: option.splits bind_splits)

lemma exec_cmd_persists:
  assumes "no_cancel c" and "exec_cmd c w = Some w'"
  shows "persists w w'"
proof (cases c)
  case AcquireInterest
  with assms(2) show ?thesis
    by (auto simp: acquire_interest_def persists_def split: option.splits bind_splits prod.splits)
next
  case (DropInterest n)
  with assms(2) show ?thesis
    by (auto simp: drop_interest_def persists_def Let_def split: if_splits bind_splits prod.splits)
qed (use assms in
      \<open>auto simp: no_cancel_def set_timeout_def set_interval_def spawn_future_def
        cancel_pending_future_def
        intro: set_timer_persists with_active_persists [OF el_tasks_grow(1)]
          with_active_persists [OF el_tasks_grow(2)] with_active_persists [OF el_tasks_grow(3)]
          with_active_persists [OF el_tasks_grow(4)] with_active_persists [OF el_tasks_grow(5)]
          with_active_persists [OF el_tasks_grow(6)] persists_same_loops\<close>)

lemma run_all_persists:
  "list_all no_cancel cmds \<Longrightarrow> run_all exec_cmd cmds w = Some w' \<Longrightarrow> persists w w'"
proof (induction cmds arbitrary: w)
  case Nil
  then show ?case by simp
next
  case (Cons c cmds)
  then obtain w1 where "exec_cmd c w = Some w1" "run_all exec_cmd cmds w1 = Some w'"
    by (auto split: bind_splits)
  with Cons show ?case by (auto intro: exec_cmd_persists persists_trans)
qed

text \<open>JavaScript that cancels nothing.\<close>

definition env_no_cancel :: "env \<Rightarrow> bool" where
  "env_no_cancel env \<longleftrightarrow>
     (\<forall>t w. list_all no_cancel (fst (env_run env t w))) \<and> (\<forall>w. list_all no_cancel (env_micro env w))"

lemma run_task_persists:
  assumes env: "env_no_cancel env" and r: "run_task env t i w = Some (w', f)"
  shows "persists w w'"
proof (cases t)
  case (Native k p)
  obtain cmds g where cg: "env_run env t w = (cmds, g)" by (cases "env_run env t w")
  then have "list_all no_cancel cmds" using env by (metis env_no_cancel_def fst_conv)
  moreover have "run_all exec_cmd cmds w = Some w'"
    using r Native cg by (auto simp: run_task_def split: bind_splits)
  ultimately show ?thesis by (rule run_all_persists)
next
  case (Timer tt)
  let ?w1 = "w\<lparr>w_nesting := tt_nesting tt\<rparr>"
  obtain cmds f where cf: "env_run env (Timer tt) ?w1 = (cmds, f)"
    by (cases "env_run env (Timer tt) ?w1")
  from r Timer cf obtain w2 where w2: "run_all exec_cmd cmds ?w1 = Some w2"
    by (auto simp: run_task_def run_timer_task_def split: bind_splits)
  have "list_all no_cancel cmds" using env cf by (metis env_no_cancel_def fst_conv)
  from run_all_persists [OF this w2] have p: "persists w (w2\<lparr>w_nesting := w_nesting w\<rparr>)"
    by (simp add: persists_def)
  from r Timer cf w2 have "persists (w2\<lparr>w_nesting := w_nesting w\<rparr>) w'"
    by (auto simp: run_task_def run_timer_task_def Let_def
        intro!: with_active_persists el_tasks_grow split: option.splits)
  with p show ?thesis by (rule persists_trans)
qed

lemma step_batch_all:
  assumes env: "env_no_cancel env"
  shows "distinct batch \<Longrightarrow> set batch \<subseteq> dom (tq_lookup (el_tasks (w_loops w l))) \<Longrightarrow>
     step_batch env l batch w = Some (w', rs) \<Longrightarrow> rs = batch"
proof (induction batch arbitrary: w rs)
  case Nil
  then show ?case by simp
next
  case (Cons i batch)
  obtain q e where rm: "tq_remove i (el_tasks (w_loops w l)) = (q, Some e)"
    using Cons.prems(2) tq_remove_result [of i "el_tasks (w_loops w l)"]
    by (cases "tq_remove i (el_tasks (w_loops w l))") auto
  let ?w1 = "on_loop l (\<lambda>el. el\<lparr>el_tasks := q\<rparr>) w"
  from Cons.prems(3) rm obtain w2 f w3 rs' where
    r2: "run_task env (te_task e) i ?w1 = Some (w2, f)" and
    r3: "run_microtasks env w2 = Some w3" and
    r4: "step_batch env l batch w3 = Some (w', rs')" and rs: "rs = i # rs'"
    by (auto split: bind_splits prod.splits)
  have "persists ?w1 w3"
    using run_task_persists [OF env r2] run_all_persists [OF _ r3 [unfolded run_microtasks_def]] env
    by (auto simp: env_no_cancel_def intro: persists_trans)
  then have "dom (tq_lookup q) \<subseteq> dom (tq_lookup (el_tasks (w_loops w3 l)))"
    unfolding persists_def by (metis (no_types, lifting) event_loop.select_convs(2)
        event_loop.surjective event_loop.update_convs(2) on_loop_simps(1))
  moreover have "set batch \<subseteq> dom (tq_lookup q)"
    using Cons.prems(1,2) rm tq_remove_lookup [of i "el_tasks (w_loops w l)"] by auto
  ultimately have "set batch \<subseteq> dom (tq_lookup (el_tasks (w_loops w3 l)))" by blast
  from Cons.IH [OF _ this r4] Cons.prems(1) rs show ?case by simp
qed

end
