(* ===== verification/Event_Loop_Claims.thy ===== *)
theory Event_Loop_Claims
  imports Event_Loop_Props "HOL-Library.Multiset"
begin

text \<open>
  The properties of the event loop, each with a concrete world at which it applies.
\<close>

section \<open>A concrete world\<close>

definition fresh_world :: world where
  "fresh_world =
     \<lparr>w_loops = (\<lambda>_. event_loop_new), w_current = Some 1, w_no_loop_reason = None, w_owner = 1,
      w_nesting = 0, w_clock = 0, w_timer_counter = 0, w_pending = [], w_active = [],
      w_handles = [], w_origin = None\<rparr>"

definition quiet_env :: env where
  "quiet_env =
     \<lparr>env_run = (\<lambda>_ _. ([], False)), env_micro = (\<lambda>_. []), env_poll = (\<lambda>_ _. ([], False)),
      env_jobs = (\<lambda>_. False), env_settle = (\<lambda>_ _. [])\<rparr>"

definition sample_world :: world where
  "sample_world =
     the (run_all exec_cmd
       [SetTimeout (HCode ''a'') (Some 2), QueueReady ''native'' 7, AcquireInterest,
        SetInterval (HCode ''b'') (Some 1), TimePasses 1500000] fresh_world)"

lemma fresh_world_ok: "world_ok fresh_world"
  by (simp add: world_ok_def fresh_world_def handles_of_def interest_wf_new event_loop_new_def
      loop_ok_def)

lemmas eval_defs = fresh_world_def event_loop_new_def tq_empty_def interest_new_def
  set_timeout_def set_interval_def timer_initialization_steps_def queue_js_timer_def
  allocate_js_timer_id.simps number_max_def queue_defs notify_def tq_insert_def ready_key_def
  with_active_event_loop_def on_loop_def millis_def clamp_nested_timeout_def
  saturating_add_u32_def u32_max_def acquire_interest_def acquire_handle_def require_def
  insort_insert_key_def

lemma sample_run:
  "run_all exec_cmd
     [SetTimeout (HCode ''a'') (Some 2), QueueReady ''native'' 7, AcquireInterest,
      SetInterval (HCode ''b'') (Some 1), TimePasses 1500000] fresh_world \<noteq> None"
  by (simp add: eval_defs)

lemma sample_world_ok: "world_ok sample_world" "w_current sample_world = Some 1"
proof -
  obtain w where w: "run_all exec_cmd
     [SetTimeout (HCode ''a'') (Some 2), QueueReady ''native'' 7, AcquireInterest,
      SetInterval (HCode ''b'') (Some 1), TimePasses 1500000] fresh_world = Some w"
    using sample_run by blast
  then have "sample_world = w" by (simp add: sample_world_def)
  with loop_cmds.run_inv_rel [OF fresh_world_ok w]
  show "world_ok sample_world" "w_current sample_world = Some 1"
    by (simp_all add: frame_def fresh_world_def)
qed


section \<open>The registry\<close>

text \<open>
  C11: \<open>expire_timers\<close> terminates on every well-formed registry, returns the number of timers
  whose deadline has passed, and leaves exactly what a scan of the whole map would leave.
\<close>

theorem expire_timers_refines_scan:
  assumes "tq_wf q"
  shows "\<exists>q'. expire_timers now q = Some (q', card (expired_ids now (tq_lookup q))) \<and>
    tq_wf q' \<and> tq_lookup q' = scan_expire now (tq_lookup q)"
  using expire_loop_correct [OF assms, of now 0] by (simp add: expire_timers_def)

definition two_timers :: "nat task_queue" where
  "two_timers =
     tq_insert \<lparr>te_id = 1, te_task = 10, te_ready = False, te_deadline = Some 5, te_origin = None\<rparr>
       (tq_insert \<lparr>te_id = 0, te_task = 11, te_ready = False, te_deadline = Some 3, te_origin = None\<rparr>
          tq_empty)"

lemma two_timers_wf: "tq_wf two_timers"
  unfolding two_timers_def by (intro tq_insert_wf) simp_all

lemma two_timers_expired: "expired_ids 4 (tq_lookup two_timers) = {0}"
  by (auto simp: expired_ids_def expired_def two_timers_def split: if_splits)

theorem expire_timers_refines_scan_witness:
  "\<exists>q'. expire_timers 4 two_timers = Some (q', 1) \<and> tq_wf q'"
  using expire_timers_refines_scan [OF two_timers_wf, of 4] by (auto simp: two_timers_expired)

text \<open>
  C41: inserting a task under a fresh id, removing a task and marking one ready keep the
  indexes in step with the map; removal returns the entry and \<open>mark_ready\<close> reports whether it
  changed anything.
\<close>

theorem registry_indexes_match:
  assumes "tq_wf q" and "tq_lookup q (te_id e) = None"
  shows "tq_wf (tq_insert e q) \<and> tq_wf (fst (tq_remove i q)) \<and> tq_wf (fst (mark_ready i q)) \<and>
    snd (tq_remove i q) = tq_lookup q i \<and>
    (snd (mark_ready i q) \<longleftrightarrow> tq_lookup q i \<noteq> None \<and> \<not> te_ready (the (tq_lookup q i)))"
  using assms
  by (auto simp: tq_insert_wf tq_remove_wf mark_ready_wf mark_ready_result)

theorem registry_indexes_match_witness:
  "tq_wf (tq_insert \<lparr>te_id = 2, te_task = 12, te_ready = True, te_deadline = Some 1,
     te_origin = None\<rparr> two_timers)"
proof -
  let ?e = "\<lparr>te_id = 2, te_task = 12, te_ready = True, te_deadline = Some 1, te_origin = None\<rparr>"
  have "tq_lookup two_timers (te_id ?e) = None" by (simp add: two_timers_def)
  from registry_indexes_match [OF two_timers_wf this, of 0] show ?thesis by blast
qed

text \<open>
  C31: \<open>pop_ready\<close> never meets its \<open>expect\<close>; it takes out the ready task that is least by
  deadline (none first) and then by id, and answers none exactly when no task is ready.
\<close>

theorem pop_ready_least:
  assumes "tq_wf (el_tasks el)"
  shows "wp (pop_ready el) (\<lambda>(el', r).
    (case r of
       None \<Rightarrow> el' = el \<and> (\<forall>e. e \<in> ran (tq_lookup (el_tasks el)) \<longrightarrow> \<not> te_ready e)
     | Some (i, t) \<Rightarrow>
         tq_wf (el_tasks el') \<and> tq_lookup (el_tasks el') = (tq_lookup (el_tasks el))(i := None) \<and>
         (\<exists>e. tq_lookup (el_tasks el) i = Some e \<and> te_ready e \<and> te_task e = t \<and>
           (\<forall>e'. e' \<in> ran (tq_lookup (el_tasks el)) \<longrightarrow> te_ready e' \<longrightarrow>
             e' = e \<or> ready_key e < ready_key e'))))"
proof (cases "tq_ready (el_tasks el)")
  case Nil
  have "\<not> te_ready e" if "e \<in> ran (tq_lookup (el_tasks el))" for e
    using that tq_wf_ready [OF assms] Nil by (auto simp: ran_def split: option.splits)
  with Nil show ?thesis by (simp add: pop_ready_def)
next
  case (Cons k ks)
  obtain d i where k: "k = (d, i)" by (cases k)
  have "(d, i) \<in> set (tq_ready (el_tasks el))" using Cons k by simp
  then obtain e where e: "tq_lookup (el_tasks el) i = Some e" "te_ready e" "te_deadline e = d"
    using tq_wf_ready [OF assms] by blast
  obtain q where q: "tq_remove i (el_tasks el) = (q, Some e)"
    using e(1) tq_remove_result [of i "el_tasks el"] by (cases "tq_remove i (el_tasks el)") simp
  have q': "q = fst (tq_remove i (el_tasks el))" using q by simp
  have "tq_wf q" "tq_lookup q = (tq_lookup (el_tasks el))(i := None)"
    unfolding q' by (simp_all add: tq_remove_wf assms)
  moreover have "e' = e \<or> ready_key e < ready_key e'"
    if "tq_lookup (el_tasks el) j = Some e'" "te_ready e'" for j e'
  proof -
    have "(te_deadline e', j) \<in> set (tq_ready (el_tasks el))"
      using that tq_wf_ready [OF assms] by blast
    moreover have "te_id e' = j" "te_id e = i" using tq_wf_id [OF assms] that(1) e(1) by auto
    ultimately have "(d, i) \<le> ready_key e'" "j = i \<Longrightarrow> e' = e"
      using ordset_first [of k ks "(te_deadline e', j)"] tq_wf_index [OF assms] Cons k that e
      by (auto simp: ready_key_def)
    then show ?thesis using e \<open>te_id e = i\<close> \<open>te_id e' = j\<close>
      by (cases "j = i") (auto simp: ready_key_def)
  qed
  ultimately show ?thesis
    using Cons k e q tq_wf_id [OF assms e(1)] by (auto simp: pop_ready_def ran_def)
qed

theorem pop_ready_least_witness:
  "wp (pop_ready (event_loop_new\<lparr>el_tasks := tq_insert \<lparr>te_id = 4, te_task = Native ''k'' 1,
      te_ready = True, te_deadline = None, te_origin = None\<rparr> tq_empty\<rparr>)) (\<lambda>(el', r). r \<noteq> None)"
proof -
  let ?e = "\<lparr>te_id = 4, te_task = Native ''k'' 1, te_ready = True, te_deadline = None,
    te_origin = None\<rparr>"
  let ?el = "event_loop_new\<lparr>el_tasks := tq_insert ?e tq_empty\<rparr>"
  have "tq_wf (el_tasks ?el)" by (simp add: tq_insert_wf)
  from pop_ready_least [OF this] obtain el' r where p: "pop_ready ?el = Some (el', r)"
    "r = None \<longrightarrow> (\<forall>e. e \<in> ran (tq_lookup (el_tasks ?el)) \<longrightarrow> \<not> te_ready e)"
    by (auto elim!: wpE split: option.splits)
  have "?e \<in> ran (tq_lookup (el_tasks ?el))" by (simp add: ran_def)
  then have "r \<noteq> None" using p(2) by fastforce
  with p(1) show ?thesis by simp
qed


section \<open>The step\<close>

lemma sample_step_total: "step_run quiet_env 1 sample_world \<noteq> None"
  using sample_run
  by (simp add: sample_world_def eval_defs step_run_def advance_timers_def expire_timers_def
      expire_loop.simps mark_ready_def ready_batch_def tq_remove_def run_task_def
      run_timer_task_def quiet_env_def run_microtasks_def js_timer_fired_def requeue_js_timer_def)

text \<open>
  C1: a step runs only tasks that were ready or whose deadline had passed when it began, each at
  most once, by deadline and then by id. A task that is queued or becomes ready while the step
  runs waits for the next one, so tasks that keep queueing tasks do not keep a step from ending.
\<close>

theorem step_runs_only_what_was_due:
  assumes ok: "world_ok w" and s: "step_run env l w = Some (w', rs)"
  shows "distinct rs \<and>
    (\<forall>i. i \<in> set rs \<longrightarrow> (\<exists>e. tq_lookup (el_tasks (w_loops w l)) i = Some e \<and>
       (te_ready e \<or> expired (w_clock w) e))) \<and>
    sorted_wrt (\<lambda>i j. ready_key (the (tq_lookup (el_tasks (w_loops w l)) i)) <
      ready_key (the (tq_lookup (el_tasks (w_loops w l)) j))) rs"
proof -
  from step_run_parts [OF ok s] obtain el where el: "tq_wf (el_tasks el)"
    "tq_lookup (el_tasks el) = scan_expire (w_clock w) (tq_lookup (el_tasks (w_loops w l)))"
    and b: "step_batch env l (ready_batch (el_tasks el)) (on_loop l (\<lambda>_. el) w) = Some (w', rs)"
    by blast
  let ?m = "tq_lookup (el_tasks (w_loops w l))" and ?b = "ready_batch (el_tasks el)"
  have sub: "subseq rs ?b" using step_batch_subseq [OF b] .
  have due: "\<exists>e. ?m i = Some e \<and> (te_ready e \<or> expired (w_clock w) e)" if "i \<in> set ?b" for i
    using that unfolding set_ready_batch [OF el(1)] el(2)
    by (auto simp: scan_expire_def split: if_splits)
  have key: "ready_key (the (?m i)) = ready_key (the (tq_lookup (el_tasks el) i))"
    if "i \<in> set ?b" for i
    using due [OF that] unfolding el(2) by (auto simp: scan_expire_def ready_key_def)
  have "sorted_wrt (\<lambda>i j. ready_key (the (?m i)) < ready_key (the (?m j))) ?b"
    unfolding sorted_wrt_iff_nth_less
  proof (intro allI impI)
    fix i j assume ij: "i < j" "j < length ?b"
    let ?ys = "drop (Suc i) ?b"
    have split: "?b = take i ?b @ ?b ! i # ?ys" using ij by (simp add: id_take_nth_drop)
    have j: "?b ! j \<in> set ?ys"
      using ij nth_mem [of "j - Suc i" ?ys] by simp
    obtain ei where ei: "tq_lookup (el_tasks el) (?b ! i) = Some ei"
      using ij set_ready_batch [OF el(1)] nth_mem [of i ?b] by auto
    obtain ej where ej: "tq_lookup (el_tasks el) (?b ! j) = Some ej"
      using ij set_ready_batch [OF el(1)] nth_mem [of j ?b] by auto
    from ready_batch_order [OF el(1) split j ei ej] ei ej key [of "?b ! i"] key [of "?b ! j"] ij
    show "ready_key (the (?m (?b ! i))) < ready_key (the (?m (?b ! j)))" by simp
  qed
  then have "sorted_wrt (\<lambda>i j. ready_key (the (?m i)) < ready_key (the (?m j))) rs"
    by (rule subseq_sorted_wrt [OF sub])
  moreover have "distinct rs" using sub distinct_ready_batch [OF el(1)] by (rule subseq_distinct_list)
  moreover have "set rs \<subseteq> set ?b" using subseq_in_set [OF sub] by blast
  ultimately show ?thesis using due by blast
qed

theorem step_runs_only_what_was_due_witness:
  "\<exists>w' rs. step_run quiet_env 1 sample_world = Some (w', rs) \<and> distinct rs"
proof -
  obtain w' rs where "step_run quiet_env 1 sample_world = Some (w', rs)"
    using sample_step_total by fastforce
  with step_runs_only_what_was_due [OF sample_world_ok(1) this] show ?thesis by blast
qed


text \<open>
  C5: when neither the tasks nor the microtasks cancel anything, a step runs every task that was
  ready or whose deadline had passed: no due task is starved.
\<close>

theorem step_runs_all_that_was_due:
  assumes ok: "world_ok w" and s: "step_run env l w = Some (w', rs)" and env: "env_no_cancel env"
  shows "set rs = {i. \<exists>e. tq_lookup (el_tasks (w_loops w l)) i = Some e \<and>
    (te_ready e \<or> expired (w_clock w) e)}"
proof -
  from step_run_parts [OF ok s] obtain el where el: "tq_wf (el_tasks el)"
    "tq_lookup (el_tasks el) = scan_expire (w_clock w) (tq_lookup (el_tasks (w_loops w l)))"
    and b: "step_batch env l (ready_batch (el_tasks el)) (on_loop l (\<lambda>_. el) w) = Some (w', rs)"
    by blast
  have "set (ready_batch (el_tasks el)) \<subseteq>
      dom (tq_lookup (el_tasks (w_loops (on_loop l (\<lambda>_. el) w) l)))"
    by (auto simp: set_ready_batch [OF el(1)])
  from step_batch_all [OF env distinct_ready_batch [OF el(1)] this b]
  have "rs = ready_batch (el_tasks el)" .
  moreover have "(\<exists>e. scan_expire now m i = Some e \<and> te_ready e) \<longleftrightarrow>
      (\<exists>e. m i = Some e \<and> (te_ready e \<or> expired now e))" for now i and m :: "task_id \<rightharpoonup> task task_entry"
    by (cases "m i") (auto simp: scan_expire_def)
  ultimately show ?thesis
    by (simp add: set_ready_batch [OF el(1)] el(2))
qed

theorem step_runs_all_that_was_due_witness:
  "\<exists>w' rs. step_run quiet_env 1 sample_world = Some (w', rs) \<and>
     set rs = {i. \<exists>e. tq_lookup (el_tasks (w_loops sample_world 1)) i = Some e \<and>
       (te_ready e \<or> expired (w_clock sample_world) e)}"
proof -
  obtain w' rs where s: "step_run quiet_env 1 sample_world = Some (w', rs)"
    using sample_step_total by fastforce
  have "env_no_cancel quiet_env" by (simp add: env_no_cancel_def quiet_env_def)
  with step_runs_all_that_was_due [OF sample_world_ok(1) s] s show ?thesis by blast
qed

text \<open>
  C3: whatever the tasks and microtasks of a step do, the step keeps the invariant (every queued
  timer task is the one its timer id is registered for, ids are fresh, the interest count of every
  loop is the number of its handles) and leaves the active loop, the owner of new futures and
  the timer nesting level as they were.
\<close>

theorem step_keeps_invariant:
  assumes "world_ok w" and "w_current w = Some l" and "step env l w = Some (w', outcome)"
  shows "world_ok w' \<and> w_current w' = w_current w \<and> w_owner w' = w_owner w \<and>
    w_nesting w' = w_nesting w"
  using step_ok [OF assms] by (simp add: weak_frame_def)

theorem step_keeps_invariant_witness:
  "\<exists>w' outcome. step quiet_env 1 sample_world = Some (w', outcome) \<and> world_ok w'"
proof -
  obtain w' outcome where s: "step quiet_env 1 sample_world = Some (w', outcome)"
    using sample_step_total by (fastforce simp: step_def)
  with step_keeps_invariant [OF sample_world_ok s] show ?thesis by blast
qed

section \<open>Timers\<close>

lemma clear_in_commands:
  assumes ok: "world_ok w" and cur: "w_current w = Some l"
    and run: "run_all exec_cmd cmds w = Some w'"
    and clear: "ClearTimer (Some tid) \<in> set cmds" and tid: "tid < w_timer_counter w"
  shows "map_of (el_js_timers (w_loops w' l)) tid = None"
proof -
  from clear obtain xs ys where c: "cmds = xs @ ClearTimer (Some tid) # ys"
    by (auto simp: in_set_conv_decomp)
  with run obtain w1 where w1: "run_all exec_cmd xs w = Some w1"
    and w2: "run_all exec_cmd ys (clear_timeout (Some tid) w1) = Some w'"
    by (auto simp: run_all_append split: bind_splits)
  from loop_cmds.run_inv_rel [OF ok w1] have k1: "world_ok w1" "frame w w1" by auto
  let ?w2 = "clear_timeout (Some tid) w1"
  have e: "exec_cmd (ClearTimer (Some tid)) w1 = Some ?w2" by simp
  from exec_cmd_ok [OF k1(1) e] have k2: "world_ok ?w2" "frame w1 ?w2" by auto
  from loop_cmds.run_inv_rel [OF k2(1) w2] have k3: "frame ?w2 w'" by auto
  have "w_current w1 = Some l" using k1(2) cur by (simp add: frame_def)
  then have "map_of (el_js_timers (w_loops ?w2 l)) tid = None"
    by (simp add: clear_timeout_def with_active_event_loop_def clear_js_timer_def
        cancel_if_queued_def Let_def split: option.split prod.split)
  moreover have "tid < w_timer_counter ?w2" using tid k1(2) k2(2) by (simp add: frame_def)
  ultimately show ?thesis using k3 unfolding frame_def loop_frame_def by metis
qed

text \<open>
  C24: a timer whose handler clears its own id, directly or anywhere below it, is neither
  requeued nor registered after it has run, even if the handler throws after that.
\<close>

theorem cleared_timer_is_not_requeued:
  assumes ok: "world_ok w" and run: "running l (Timer t) i w"
    and clear: "ClearTimer (Some (tt_timer_id t)) \<in>
      set (fst (env_run env (Timer t) (w\<lparr>w_nesting := tt_nesting t\<rparr>)))"
    and r: "run_timer_task env t i w = Some (w', failed)"
  shows "tq_lookup (el_tasks (w_loops w' l)) i = None \<and>
    map_of (el_js_timers (w_loops w' l)) (tt_timer_id t) = None"
proof -
  let ?w1 = "w\<lparr>w_nesting := tt_nesting t\<rparr>"
  obtain cmds f where cf: "env_run env (Timer t) ?w1 = (cmds, f)"
    by (cases "env_run env (Timer t) ?w1")
  from r cf obtain w2 where w2: "run_all exec_cmd cmds ?w1 = Some w2"
    by (auto simp: run_timer_task_def split: bind_splits)
  have k: "world_ok ?w1" "running l (Timer t) i ?w1" using ok run by (simp_all add: world_ok_trivial)
  note rn = run [unfolded running_def]
  have gone: "map_of (el_js_timers (w_loops w2 l)) (tt_timer_id t) = None"
    using clear_in_commands [OF k(1) _ w2] clear cf rn by simp
  have q: "running l (Timer t) i w2" using run_cmds_ok [OF k w2] by blast
  show ?thesis
    using r cf w2 gone q
    by (auto simp: run_timer_task_def with_active_event_loop_def requeue_js_timer_def
        js_timer_fired_def running_def Let_def split: option.splits)
qed

text \<open>An interval that clears itself, as it is when its turn has come.\<close>

definition self_clearing :: timer_task where
  "self_clearing = \<lparr>tt_handler = HCode ''clearInterval(id)'', tt_interval = Some 1000000,
     tt_nesting = 1, tt_timer_id = 1\<rparr>"

definition clearing_env :: env where
  "clearing_env = quiet_env\<lparr>env_run := (\<lambda>_ _. ([ClearTimer (Some 1)], True))\<rparr>"

definition interval_world :: world where
  "interval_world = fresh_world\<lparr>w_timer_counter := 2, w_loops := (\<lambda>_. event_loop_new)
     (1 := event_loop_new\<lparr>el_next_id := 1,
             el_js_timers := [(1, \<lparr>jt_task = 0, jt_origin = Some ''src''\<rparr>)]\<rparr>)\<rparr>"

lemma interval_world_ok: "world_ok interval_world"
  by (auto simp: world_ok_def interval_world_def fresh_world_def handles_of_def interest_wf_new
      event_loop_new_def loop_ok_def)

lemma interval_running: "tt_timer_id t = 1 \<Longrightarrow> running 1 (Timer t) 0 interval_world"
  by (simp add: running_def interval_world_def fresh_world_def event_loop_new_def)

theorem cleared_timer_is_not_requeued_witness:
  "\<exists>w'. run_timer_task clearing_env self_clearing 0 interval_world = Some (w', True) \<and>
     tq_lookup (el_tasks (w_loops w' 1)) 0 = None"
proof -
  have r: "running 1 (Timer self_clearing) 0 interval_world"
    by (rule interval_running) (simp add: self_clearing_def)
  have c: "ClearTimer (Some (tt_timer_id self_clearing)) \<in> set (fst (env_run clearing_env
      (Timer self_clearing) (interval_world\<lparr>w_nesting := tt_nesting self_clearing\<rparr>)))"
    by (simp add: clearing_env_def self_clearing_def)
  obtain w' where w': "run_timer_task clearing_env self_clearing 0 interval_world = Some (w', True)"
    by (simp add: run_timer_task_def clearing_env_def Let_def)
  from cleared_timer_is_not_requeued [OF interval_world_ok r c w'] w' show ?thesis by blast
qed

text \<open>
  C17: an interval whose id is still registered for it after its handler ran is back in the queue
  under its own task id and its original origin, not ready, due one interval after the clock at
  the handler's end, at least 4 ms once the nesting level is above 5, with the level one higher.
\<close>

theorem interval_is_requeued:
  assumes ok: "world_ok w" and run: "running l (Timer t) i w" and int: "tt_interval t = Some d"
    and cmds: "run_all exec_cmd (fst (env_run env (Timer t) (w\<lparr>w_nesting := tt_nesting t\<rparr>)))
      (w\<lparr>w_nesting := tt_nesting t\<rparr>) = Some w2"
    and reg: "map_of (el_js_timers (w_loops w2 l)) (tt_timer_id t) = Some tm"
  shows "\<exists>w' failed. run_timer_task env t i w = Some (w', failed) \<and> w_nesting w' = w_nesting w \<and>
    tq_lookup (el_tasks (w_loops w' l)) =
      (tq_lookup (el_tasks (w_loops w2 l)))(i \<mapsto>
        \<lparr>te_id = i,
         te_task = Timer (t\<lparr>tt_nesting := min (2 ^ 32 - 1) (tt_nesting t + 1)\<rparr>),
         te_ready = False,
         te_deadline = Some (instant_add (w_clock w2) (if tt_nesting t > 5 then max d 4000000 else d)),
         te_origin = jt_origin tm\<rparr>)"
proof -
  let ?w1 = "w\<lparr>w_nesting := tt_nesting t\<rparr>"
  obtain cs f where cf: "env_run env (Timer t) ?w1 = (cs, f)"
    by (cases "env_run env (Timer t) ?w1")
  have k: "world_ok ?w1" "running l (Timer t) i ?w1" using ok run by (simp_all add: world_ok_trivial)
  have q: "running l (Timer t) i w2" using run_cmds_ok [OF k cmds] by blast
  then have "jt_task tm = i" "w_current w2 = Some l" using reg by (auto simp: running_def)
  moreover have "clamp_nested_timeout (tt_nesting t) d =
      (if tt_nesting t > 5 then max d 4000000 else d)"
    by (auto simp: clamp_nested_timeout_def millis_def)
  ultimately show ?thesis
    using cmds cf int reg
    by (cases t) (simp add: run_timer_task_def with_active_event_loop_def requeue_js_timer_def
        insert_timer_def insert_entry_def saturating_add_u32_def u32_max_def Let_def)
qed

theorem interval_is_requeued_witness:
  "\<exists>w' failed. run_timer_task quiet_env (self_clearing\<lparr>tt_nesting := 6\<rparr>) 0 interval_world =
     Some (w', failed) \<and>
     map_option te_deadline (tq_lookup (el_tasks (w_loops w' 1)) 0) = Some (Some 4000000)"
proof -
  let ?t = "self_clearing\<lparr>tt_nesting := 6\<rparr>"
  have r: "running 1 (Timer ?t) 0 interval_world"
    by (rule interval_running) (simp add: self_clearing_def)
  from interval_is_requeued [OF interval_world_ok r, of 1000000 quiet_env
      "interval_world\<lparr>w_nesting := 6\<rparr>" "\<lparr>jt_task = 0, jt_origin = Some ''src''\<rparr>"]
  show ?thesis
    by (force simp: self_clearing_def quiet_env_def interval_world_def fresh_world_def instant_add_def
        u64_max_def)
qed


text \<open>
  C21: \<open>setTimeout\<close> and \<open>setInterval\<close> with an active loop give a nonzero id that no timer of
  the loop has, and queue one task under a task id never used before, due after the delay (a
  negative one counts as 0), at least 4 ms later from a nesting level above 5; nothing else in the
  queue changes, and the id is registered for that task.
\<close>

theorem timer_initialization_queues:
  assumes ok: "world_ok w" and cur: "w_current w = Some l"
    and t: "timer_initialization_steps handler timeout rep w = Some (w', r)"
  shows "\<exists>tid. r = Inr tid \<and> 0 < tid \<and> map_of (el_js_timers (w_loops w l)) tid = None \<and>
    tq_lookup (el_tasks (w_loops w l)) (el_next_id (w_loops w l)) = None \<and>
    map_of (el_js_timers (w_loops w' l)) = (map_of (el_js_timers (w_loops w l)))
      (tid \<mapsto> \<lparr>jt_task = el_next_id (w_loops w l), jt_origin = w_origin w\<rparr>) \<and>
    (let delay = (if w_nesting w > 5 then max 4 (nat timeout) else nat timeout) * 1000000 in
     tq_lookup (el_tasks (w_loops w' l)) =
      (tq_lookup (el_tasks (w_loops w l)))(el_next_id (w_loops w l) \<mapsto>
        \<lparr>te_id = el_next_id (w_loops w l),
         te_task = Timer \<lparr>tt_handler = handler, tt_interval = (if rep then Some delay else None),
                          tt_nesting = min (2 ^ 32 - 1) (w_nesting w + 1), tt_timer_id = tid\<rparr>,
         te_ready = False, te_deadline = Some (instant_add (w_clock w) delay), te_origin = w_origin w\<rparr>))"
proof -
  let ?el = "w_loops w l"
  have nat: "nat (max timeout 0) = nat timeout" by (cases "0 \<le> timeout") (simp_all add: max_def)
  have delay: "clamp_nested_timeout (w_nesting w) (millis (nat (max timeout 0))) =
      (if w_nesting w > 5 then max 4 (nat timeout) else nat timeout) * 1000000"
    by (auto simp: clamp_nested_timeout_def millis_def nat)
  have fresh: "tq_lookup (el_tasks ?el) (el_next_id ?el) = None"
    using world_okD(1) [OF ok, of l] unfolding loop_ok_def
    by (metis less_irrefl option.exhaust)
  from t cur obtain c' tid where
    a: "allocate_js_timer_id (el_js_timers ?el) (w_timer_counter w) = Some (c', tid)"
    by (auto simp: timer_initialization_steps_def queue_js_timer_def Let_def
        split: bind_splits prod.splits)
  from allocate_Some [OF a] have tid: "0 < tid" "map_of (el_js_timers ?el) tid = None" by auto
  from t cur a show ?thesis
    using tid fresh
    by (auto simp: timer_initialization_steps_def queue_js_timer_def queue_defs delay [symmetric]
        saturating_add_u32_def u32_max_def)
qed

theorem timer_initialization_queues_witness:
  "\<exists>w' tid. timer_initialization_steps (HCode ''f()'') (- 3) True sample_world = Some (w', Inr tid) \<and>
     tid \<noteq> 0"
proof -
  have "timer_initialization_steps (HCode ''f()'') (- 3) True sample_world \<noteq> None"
    using sample_run by (simp add: sample_world_def eval_defs)
  then obtain w' r where t: "timer_initialization_steps (HCode ''f()'') (- 3) True sample_world =
      Some (w', r)" by fastforce
  from timer_initialization_queues [OF sample_world_ok t] t show ?thesis by auto
qed

section \<open>Keep-alive interest and panics\<close>

text \<open>
  C39: from fresh loops, after any sequence of commands, the interest count of each loop is the
  number of handles acquired on it and not yet dropped, so a loop has interest exactly while such
  a handle is held.
\<close>

theorem interest_counts_held_handles:
  assumes "run_all exec_cmd cmds fresh_world = Some w'"
  shows "in_count (el_interest (w_loops w' l)) = length (filter (\<lambda>(l', h). l' = l) (w_handles w')) \<and>
    (has_interest (el_interest (w_loops w' l)) \<longleftrightarrow> l \<in> fst ` set (w_handles w'))"
proof -
  have "interest_wf (handles_of l w') (el_interest (w_loops w' l))"
    using loop_cmds.run_inv_rel [OF fresh_world_ok assms] by (simp add: world_okD)
  moreover have "handles_of l w' \<noteq> [] \<longleftrightarrow> l \<in> fst ` set (w_handles w')"
    by (force simp: handles_of_def filter_empty_conv)
  ultimately show ?thesis
    by (simp add: has_interest_iff)
      (simp add: interest_wf_def handles_of_def case_prod_unfold)
qed

theorem interest_counts_held_handles_witness:
  "has_interest (el_interest (w_loops sample_world 1)) \<longleftrightarrow> 1 \<in> fst ` set (w_handles sample_world)"
proof -
  obtain w where w: "run_all exec_cmd
     [SetTimeout (HCode ''a'') (Some 2), QueueReady ''native'' 7, AcquireInterest,
      SetInterval (HCode ''b'') (Some 1), TimePasses 1500000] fresh_world = Some w"
    using sample_run by blast
  then have "sample_world = w" by (simp add: sample_world_def)
  with interest_counts_held_handles [OF w, of 1] show ?thesis by simp
qed

text \<open>
  C40: the only panics that code on the thread can cause are an acquisition at the top of the
  \<open>u32\<close> range of the interest count and a timer when every id below \<open>2^53 - 1\<close> that the counter
  has not passed is in use; dropping a handle never underflows the count.
\<close>

theorem commands_panic_only_at_the_limits:
  assumes ok: "world_ok w" and none: "exec_cmd c w = None"
  shows "\<exists>l. w_current w = Some l \<and>
    (c = AcquireInterest \<and> in_count (el_interest (w_loops w l)) = 2 ^ 32 - 1 \<or>
     (\<exists>h t. c = SetTimeout h t \<or> c = SetInterval h t) \<and>
       (\<forall>k. k \<noteq> 0 \<and> w_timer_counter w \<le> k \<and> k < 2 ^ 53 - 1 \<longrightarrow>
          map_of (el_js_timers (w_loops w l)) k \<noteq> None))"
proof -
  from exec_cmd_panics [OF ok none] obtain l where l: "w_current w = Some l"
    "c = AcquireInterest \<and> in_count (el_interest (w_loops w l)) = u32_max \<or>
     (\<exists>h t. c = SetTimeout h t \<or> c = SetInterval h t) \<and>
       allocate_js_timer_id (el_js_timers (w_loops w l)) (w_timer_counter w) = None" by blast
  have "map_of (el_js_timers (w_loops w l)) k \<noteq> None"
    if "allocate_js_timer_id (el_js_timers (w_loops w l)) (w_timer_counter w) = None"
      "k \<noteq> 0" "w_timer_counter w \<le> k" "k < 2 ^ 53 - 1" for k
    using allocate_None [OF that(1,3)] that(2,4) by (simp add: number_max_def)
  with l show ?thesis unfolding u32_max_def by blast
qed

theorem commands_panic_only_at_the_limits_witness:
  "exec_cmd (SetTimeout (HCode ''f'') None) (fresh_world\<lparr>w_timer_counter := 2 ^ 53 - 1\<rparr>) = None \<and>
   (\<exists>l. w_current (fresh_world\<lparr>w_timer_counter := 2 ^ 53 - 1\<rparr>) = Some l)"
proof -
  let ?w = "fresh_world\<lparr>w_timer_counter := 2 ^ 53 - 1\<rparr>"
  have ok: "world_ok ?w"
    by (simp add: world_ok_def fresh_world_def handles_of_def interest_wf_new event_loop_new_def
        loop_ok_def)
  have none: "exec_cmd (SetTimeout (HCode ''f'') None) ?w = None" by (simp add: eval_defs)
  from commands_panic_only_at_the_limits [OF ok none] none show ?thesis by blast
qed

text \<open>
  C39: code that runs while one loop is active changes no other loop, except that dropping an
  interest handle lowers the count of the loop the handle was acquired on and wakes its driver.
\<close>

theorem loops_are_isolated:
  assumes cur: "w_current w = Some l" and e: "exec_cmd c w = Some w'" and l': "l' \<noteq> l"
  shows "w_loops w' l' = w_loops w l' \<or>
    (\<exists>n h st. c = DropInterest n \<and> n < length (w_handles w) \<and> w_handles w ! n = (l', h) \<and>
       drop_handle h (el_interest (w_loops w l')) = Some st \<and>
       w_loops w' l' = notify ((w_loops w l')\<lparr>el_interest := st\<rparr>))"
proof (cases c)
  case (SetTimeout h t)
  with e cur l' show ?thesis
    by (auto simp: set_timeout_def timer_initialization_steps_def Let_def
        split: bind_splits prod.splits)
next
  case (SetInterval h t)
  with e cur l' show ?thesis
    by (auto simp: set_interval_def timer_initialization_steps_def Let_def
        split: bind_splits prod.splits)
next
  case AcquireInterest
  with e cur l' show ?thesis
    by (auto simp: acquire_interest_def split: bind_splits prod.splits)
next
  case (DropInterest n)
  with e l' show ?thesis
    by (auto simp: drop_interest_def Let_def split: if_splits bind_splits prod.splits)
qed (use e cur l' in \<open>auto simp: with_active_event_loop_def clear_timeout_def spawn_future_def
      cancel_pending_future_def\<close>)

theorem loops_are_isolated_witness:
  "\<exists>w'. exec_cmd (ClearTimer (Some 1)) sample_world = Some w' \<and> w_loops w' 2 = w_loops sample_world 2"
  using loops_are_isolated [OF sample_world_ok(2), of "ClearTimer (Some 1)" _ 2] by auto


section \<open>The driver\<close>

lemma driver_turn:
  assumes ok: "world_ok w" and t: "run_until_turn env should_stop l w = Some (w', d)"
  shows "world_ok w' \<and> w_current w' = w_current w \<and> w_owner w' = w_owner w \<and>
    (case d of
       Return \<Rightarrow>
         el_stop (w_loops w' l) \<and> (\<forall>f. f \<in> set (w_active w' @ w_pending w') \<longrightarrow> fu_owner f \<noteq> l) \<or>
         should_stop w' \<or> \<not> is_alive l w'
     | StepAgain \<Rightarrow> \<not> el_stop (w_loops w' l)
     | Wait timeout \<Rightarrow> \<not> el_stop (w_loops w' l) \<and> is_alive l w' \<and>
         (\<forall>i e dl. tq_lookup (el_tasks (w_loops w' l)) i = Some e \<longrightarrow> \<not> te_ready e \<longrightarrow>
            te_deadline e = Some dl \<longrightarrow> (\<exists>n. timeout = Some n \<and> n \<le> dl - w_clock w')))"
proof -
  let ?w0 = "w\<lparr>w_owner := l, w_current := Some l\<rparr>"
  from t obtain w1 outcome where s: "step env l ?w0 = Some (w1, outcome)"
    by (auto simp: run_until_turn_def with_event_loop_def split: bind_splits prod.splits)
  let ?w1 = "w1\<lparr>w_current := w_current w, w_owner := w_owner w\<rparr>"
  have ok0: "world_ok ?w0" using ok by (simp add: world_ok_trivial)
  have ok1: "world_ok ?w1" using step_ok [OF ok0 _ s] by (simp add: world_ok_trivial)
  have alive: "is_alive l ?w1 = is_alive l w1" "has_pending_futures l ?w1 = has_pending_futures l w1"
    by (simp_all add: is_alive_def has_pending_futures_def)
  have outcome: "outcome = Done \<Longrightarrow> \<not> is_alive l w1" "outcome = Idle \<Longrightarrow> is_alive l w1"
    using s by (auto simp: step_def split: bind_splits prod.splits if_splits)
  have first: "\<exists>n. time_to_next_timer (w_clock ?w1) (w_loops ?w1 l) = Some n \<and> n \<le> dl - w_clock ?w1"
    if "tq_lookup (el_tasks (w_loops ?w1 l)) i = Some e" "\<not> te_ready e" "te_deadline e = Some dl"
    for i e dl
    using tq_first_timer [OF _ that] world_okD(1) [OF ok1, of l]
    by (auto simp: time_to_next_timer_def loop_ok_def diff_le_mono)
  have nofut: "\<not> is_alive l w1 \<Longrightarrow> \<not> has_pending_futures l w1" by (simp add: is_alive_def)
  show ?thesis
  proof (cases "el_stop (w_loops ?w1 l)")
    case True
    then have "w' = cancel_pending_futures_for l ?w1" "d = Return"
      using t s by (auto simp: run_until_turn_def with_event_loop_def)
    moreover have "world_ok (cancel_pending_futures_for l ?w1)"
      using ok1 by (simp add: cancel_pending_futures_for_def world_ok_def handles_of_def)
    ultimately show ?thesis using True by (auto simp: cancel_pending_futures_for_def)
  next
    case False
    with t s have "w' = ?w1 \<and> d = (if should_stop ?w1 then Return else case outcome of
        Done \<Rightarrow> if has_pending_futures l ?w1
          then Wait (time_to_next_timer (w_clock ?w1) (w_loops ?w1 l)) else Return
      | Progressed \<Rightarrow> StepAgain
      | Idle \<Rightarrow> Wait (time_to_next_timer (w_clock ?w1) (w_loops ?w1 l)))"
      by (cases outcome; cases "should_stop ?w1"; cases "has_pending_futures l ?w1")
        (simp_all add: run_until_turn_def with_event_loop_def Let_def)
    with False ok1 alive outcome first nofut show ?thesis
      by (cases outcome) auto
  qed
qed


lemma poll_futures_ok:
  "world_ok w \<Longrightarrow> poll_futures env owner fs w = Some (w', still, completed) \<Longrightarrow>
     world_ok w' \<and> frame w w'"
proof (induction fs arbitrary: w still completed)
  case Nil
  then show ?case by simp
next
  case (Cons f fs)
  show ?case
  proof (cases "owned_by owner f")
    case False
    with Cons.prems Cons.IH [OF Cons.prems(1)] show ?thesis by (auto split: bind_splits)
  next
    case True
    obtain cmds ready where e: "env_poll env (fu_promise f) w = (cmds, ready)"
      by (cases "env_poll env (fu_promise f) w")
    with True Cons.prems obtain w1 still' completed' where
      r: "run_all exec_cmd cmds w = Some w1" and
      p: "poll_futures env owner fs w1 = Some (w', still', completed')"
      by (auto split: bind_splits if_splits)
    from loop_cmds.run_inv_rel [OF Cons.prems(1) r] Cons.IH [OF _ p] show ?thesis
      using frame_trans by blast
  qed
qed

lemma poll_pending_futures_ok:
  assumes "world_ok w" and "poll_pending_futures env owner w = Some (w', completed)"
  shows "world_ok w'"
proof -
  from assms(2) obtain w1 still where
    p: "poll_futures env owner (w_active w @ w_pending w) (w\<lparr>w_active := [], w_pending := []\<rparr>) =
      Some (w1, still, completed)" and w': "w' = w1\<lparr>w_active := w_active w1 @ still\<rparr>"
    by (auto simp: poll_pending_futures_def split: bind_splits)
  have "world_ok w1" using poll_futures_ok [OF world_ok_trivial(8) [OF assms(1)] p] by simp
  then show ?thesis by (simp add: w' world_ok_def handles_of_def)
qed

lemma with_event_loop_ok:
  assumes ok: "world_ok w" and r: "with_event_loop l f w = Some (w', r)"
    and f: "\<And>w0 w1 r. world_ok w0 \<Longrightarrow> f w0 = Some (w1, r) \<Longrightarrow> world_ok w1"
  shows "world_ok w' \<and> w_current w' = w_current w \<and> w_owner w' = w_owner w"
proof -
  from r obtain w1 where w1: "f (w\<lparr>w_owner := l, w_current := Some l\<rparr>) = Some (w1, r)"
    and w': "w' = w1\<lparr>w_current := w_current w, w_owner := w_owner w\<rparr>"
    by (auto simp: with_event_loop_def split: bind_splits)
  from f [OF world_ok_trivial(7) [OF ok] w1] show ?thesis
    unfolding w' by (simp add: world_ok_trivial)
qed

lemma settle_completed_futures_ok:
  assumes ok: "world_ok w" and r: "settle_completed_futures env l completed w = Some w'"
  shows "world_ok w' \<and> w_current w' = w_current w \<and> w_owner w' = w_owner w"
proof -
  let ?f = "\<lambda>w1. do {
       w2 \<leftarrow> (if completed = []
              then (if env_jobs env w1 then run_microtasks env w1 else Some w1)
              else do { w3 \<leftarrow> run_all exec_cmd (env_settle env completed w1) w1;
                        run_microtasks env w3 });
       Some (w2, ()) }"
  from r obtain u where "with_event_loop l ?f w = Some (w', u)"
    by (auto simp: settle_completed_futures_def)
  then show ?thesis
  proof (rule with_event_loop_ok [OF ok])
    fix w0 w1 r assume "world_ok w0" and "?f w0 = Some (w1, r)"
    then show "world_ok w1"
      by (auto simp: run_microtasks_def dest: loop_cmds.run_inv split: if_splits bind_splits)
  qed
qed

lemma drive_futures_ok:
  assumes ok: "world_ok w" and r: "drive_futures env l w = Some (w', res)"
  shows "world_ok w' \<and> w_current w' = w_current w \<and> w_owner w' = w_owner w"
  using r unfolding drive_futures_def
proof (rule with_event_loop_ok [OF ok])
  fix w0 w1 r
  assume "world_ok w0" and "do {
       (w2, completed) \<leftarrow> poll_pending_futures env l w0;
       let jobs = env_jobs env w2;
       Some (w2, if completed = [] \<and> \<not> jobs then None else Some completed) } = Some (w1, r)"
  then show "world_ok w1"
    by (auto simp: Let_def dest: poll_pending_futures_ok split: bind_splits)
qed

lemma await_any_ok:
  "world_ok w \<Longrightarrow> await_any env l ws w = Some (w', r) \<Longrightarrow>
     world_ok w' \<and> w_current w' = w_current w \<and> w_owner w' = w_owner w"
proof (induction env l ws w rule: await_any.induct)
  case (3 env l n ws w)
  have ok: "world_ok (w\<lparr>w_clock := w_clock w + n\<rparr>)" using 3(2) by (rule world_ok_trivial)
  from 3(3) obtain w1 r1 where
    d: "drive_futures env l (w\<lparr>w_clock := w_clock w + n\<rparr>) = Some (w1, r1)"
    by (auto split: bind_splits)
  note k = drive_futures_ok [OF ok d]
  show ?case
  proof (cases r1)
    case None
    with 3(3) d have "await_any env l ws w1 = Some (w', r)" by simp
    from 3(1) [OF d refl None _ this] k show ?thesis by simp
  next
    case (Some c)
    with 3(3) d k show ?thesis by simp
  qed
qed (auto simp: world_ok_trivial)

text \<open>
  C9: whatever the platform does, the driver returns only when a stop was requested (and then no
  future of this loop is left), when the caller asks for it, or when nothing keeps the loop alive;
  the invariant holds throughout and the active loop and the owner of new futures are restored.
\<close>

theorem driver_returns_only_when_finished:
  assumes "world_ok w" and "run_until env should_stop l turns w = Some (w', returned)"
  shows "world_ok w' \<and> w_current w' = w_current w \<and> w_owner w' = w_owner w \<and>
    (returned \<longrightarrow>
       el_stop (w_loops w' l) \<and> (\<forall>f. f \<in> set (w_active w' @ w_pending w') \<longrightarrow> fu_owner f \<noteq> l) \<or>
       should_stop w' \<or> \<not> is_alive l w')"
  using assms
proof (induction turns arbitrary: w)
  case Nil
  then show ?case by simp
next
  case (Cons ws turns)
  obtain w1 d where t: "run_until_turn env should_stop l w = Some (w1, d)"
    using Cons.prems(2) by (auto split: bind_splits)
  note k = driver_turn [OF Cons.prems(1) t]
  show ?case
  proof (cases d)
    case Return
    with Cons.prems t k show ?thesis by auto
  next
    case StepAgain
    with Cons.prems t obtain w2 c w3 where
      p: "with_event_loop l (poll_pending_futures env l) w1 = Some (w2, c)" and
      st: "settle_completed_futures env l c w2 = Some w3" and
      r: "run_until env should_stop l turns w3 = Some (w', returned)"
      by (auto split: bind_splits)
    have k2: "world_ok w2 \<and> w_current w2 = w_current w1 \<and> w_owner w2 = w_owner w1"
      by (rule with_event_loop_ok [OF _ p]) (use k poll_pending_futures_ok in auto)
    then have "world_ok w3 \<and> w_current w3 = w_current w2 \<and> w_owner w3 = w_owner w2"
      using settle_completed_futures_ok [OF _ st] by blast
    with k k2 Cons.IH [OF _ r] show ?thesis by auto
  next
    case (Wait tm)
    with Cons.prems t obtain w2 c where a: "await_any env l ws w1 = Some (w2, c)"
      by (auto split: bind_splits)
    have k2: "world_ok w2 \<and> w_current w2 = w_current w1 \<and> w_owner w2 = w_owner w1"
      using k by (intro await_any_ok [OF _ a]) auto
    show ?thesis
    proof (cases c)
      case None
      with Wait Cons.prems t a k k2 show ?thesis by auto
    next
      case (Some cs)
      with Wait Cons.prems t a obtain w3 where
        st: "settle_completed_futures env l cs w2 = Some w3" and
        r: "run_until env should_stop l turns w3 = Some (w', returned)"
        by (auto split: bind_splits)
      have "world_ok w3 \<and> w_current w3 = w_current w2 \<and> w_owner w3 = w_owner w2"
        using settle_completed_futures_ok [OF _ st] k2 by blast
      with k k2 Cons.IH [OF _ r] show ?thesis by auto
    qed
  qed
qed

text \<open>A fresh loop has nothing to do: the driver returns in the first turn.\<close>

theorem driver_returns_only_when_finished_witness:
  "\<exists>w'. run_until quiet_env (\<lambda>_. False) 1 [[]] fresh_world = Some (w', True) \<and> \<not> is_alive 1 w'"
proof -
  have r: "run_until quiet_env (\<lambda>_. False) 1 [[]] fresh_world = Some (fresh_world, True)"
    by (simp add: run_until_turn_def with_event_loop_def step_def step_run_def advance_timers_def
        expire_timers_def expire_loop.simps ready_batch_def is_alive_def has_pending_def
        has_interest_def has_pending_futures_def fun_upd_idem eval_defs)
  from driver_returns_only_when_finished [OF fresh_world_ok r] r show ?thesis
    by (simp add: fresh_world_def event_loop_new_def)
qed

text \<open>
  C19: a turn of the driver that ends in a wait leaves the loop alive, with no stop requested,
  and the wait is bounded by every deadline in the queue; one that steps again was not stopped.
\<close>

theorem driver_waits_only_while_alive:
  assumes "world_ok w" and "run_until_turn env should_stop l w = Some (w', Wait timeout)"
  shows "\<not> el_stop (w_loops w' l) \<and> is_alive l w' \<and>
    (\<forall>i e dl. tq_lookup (el_tasks (w_loops w' l)) i = Some e \<longrightarrow> \<not> te_ready e \<longrightarrow>
       te_deadline e = Some dl \<longrightarrow> (\<exists>n. timeout = Some n \<and> n \<le> dl - w_clock w'))"
  using driver_turn [OF assms] by simp

definition waiting_world :: world where
  "waiting_world = spawn_future 3 fresh_world"

theorem driver_waits_only_while_alive_witness:
  "\<exists>w'. run_until_turn quiet_env (\<lambda>_. False) 1 waiting_world = Some (w', Wait None) \<and> is_alive 1 w'"
proof -
  have ok: "world_ok waiting_world"
    unfolding waiting_world_def by (rule world_ok_trivial) (rule fresh_world_ok)
  have t: "run_until_turn quiet_env (\<lambda>_. False) 1 waiting_world = Some (waiting_world, Wait None)"
    by (simp add: waiting_world_def spawn_future_def run_until_turn_def with_event_loop_def step_def
        step_run_def advance_timers_def expire_timers_def expire_loop.simps ready_batch_def
        is_alive_def has_pending_def has_interest_def has_pending_futures_def owned_by_def
        time_to_next_timer_def fun_upd_idem eval_defs)
  from driver_waits_only_while_alive [OF ok t] t show ?thesis by blast
qed

text \<open>
  C36: \<open>pending_work\<close> never underflows its count, and a loop passes the gate before a snapshot
  exactly when nothing keeps it alive and no stream or future is being written.
\<close>

theorem snapshot_gate:
  assumes "world_ok w"
  shows "\<exists>r. ensure_idle_for_snapshot l w = Some r \<and>
    (r = Inr () \<longleftrightarrow> \<not> is_alive l w \<and> el_sends (w_loops w l) = [])"
proof -
  let ?st = "el_interest (w_loops w l)"
  have len: "length (interest_origins ?st) \<le> in_count ?st"
    using origins_le_count [OF world_okD(2) [OF assms, of l]] by (simp add: interest_origins_def)
  obtain work where work: "pending_work l w = Some work"
    using len by (auto simp: pending_work_def require_def Let_def)
  have sort: "sort_key fst xs = [] \<longleftrightarrow> xs = []" for xs :: "(task_id \<times> task task_entry) list"
    by (metis length_0_conv length_sort)
  have "work = [] \<longleftrightarrow> \<not> is_alive l w \<and> el_sends (w_loops w l) = []"
    using work len
    by (auto simp: pending_work_def require_def Let_def is_alive_def has_pending_def
        has_interest_def has_pending_futures_def pending_future_origins_def list_ex_iff
        filter_empty_conv sort split: if_splits)
  with work show ?thesis by (auto simp: ensure_idle_for_snapshot_def)
qed

theorem snapshot_gate_witness:
  "ensure_idle_for_snapshot 1 fresh_world = Some (Inr ()) \<and>
   ensure_idle_for_snapshot 2 sample_world \<noteq> None"
proof -
  have "\<not> is_alive 1 fresh_world" "el_sends (w_loops fresh_world 1) = []"
    by (simp_all add: is_alive_def fresh_world_def has_pending_def event_loop_new_def
        has_interest_def interest_new_def has_pending_futures_def)
  with snapshot_gate [OF fresh_world_ok, of 1] snapshot_gate [OF sample_world_ok(1), of 2]
  show ?thesis by auto
qed

lemma poll_futures_accounts:
  "poll_futures env owner fs w = Some (w', still, completed) \<Longrightarrow>
     filter (\<lambda>f. \<not> owned_by owner f) still = filter (\<lambda>f. \<not> owned_by owner f) fs \<and>
     mset completed + mset (map fu_promise (filter (owned_by owner) still)) =
       mset (map fu_promise (filter (owned_by owner) fs))"
proof (induction fs arbitrary: w still completed)
  case Nil
  then show ?case by simp
next
  case (Cons f fs)
  show ?case
  proof (cases "owned_by owner f")
    case False
    with Cons.prems obtain still' where
      "poll_futures env owner fs w = Some (w', still', completed)" "still = f # still'"
      by (auto split: bind_splits)
    with Cons.IH [OF this(1)] False show ?thesis by simp
  next
    case True
    obtain cmds ready where e: "env_poll env (fu_promise f) w = (cmds, ready)"
      by (cases "env_poll env (fu_promise f) w")
    with True Cons.prems obtain w1 still' completed' where
      p: "poll_futures env owner fs w1 = Some (w', still', completed')"
      and r: "(still, completed) =
        (if ready then (still', fu_promise f # completed') else (f # still', completed'))"
      by (auto split: bind_splits if_splits)
    with Cons.IH [OF p] True show ?thesis by (auto split: if_splits)
  qed
qed

text \<open>
  C40: polling the futures of one loop loses none: afterwards every future that was pending is
  either still in the list or its promise is among those to settle, never both, and those of
  other loops are untouched and in their order.
\<close>

theorem polling_accounts_for_every_future:
  assumes "poll_pending_futures env owner w = Some (w', completed)"
  shows "\<exists>new still. w_active w' = new @ still \<and>
    filter (\<lambda>f. \<not> owned_by owner f) still =
      filter (\<lambda>f. \<not> owned_by owner f) (w_active w @ w_pending w) \<and>
    mset completed + mset (map fu_promise (filter (owned_by owner) still)) =
      mset (map fu_promise (filter (owned_by owner) (w_active w @ w_pending w)))"
proof -
  from assms obtain w1 still where
    p: "poll_futures env owner (w_active w @ w_pending w) (w\<lparr>w_active := [], w_pending := []\<rparr>) =
      Some (w1, still, completed)" and w': "w' = w1\<lparr>w_active := w_active w1 @ still\<rparr>"
    by (auto simp: poll_pending_futures_def split: bind_splits)
  show ?thesis
    using poll_futures_accounts [OF p]
    by (intro exI [of _ "w_active w1"] exI [of _ still]) (simp add: w')
qed

theorem polling_accounts_for_every_future_witness:
  "\<exists>w'. poll_pending_futures quiet_env 1 (spawn_future 5 fresh_world) = Some (w', []) \<and>
     fu_promise ` set (w_active w') = {5}"
proof -
  have p: "poll_pending_futures quiet_env 1 (spawn_future 5 fresh_world) =
      Some ((spawn_future 5 fresh_world)\<lparr>w_active := w_pending (spawn_future 5 fresh_world),
        w_pending := []\<rparr>, [])"
    by (simp add: poll_pending_futures_def spawn_future_def fresh_world_def quiet_env_def
        owned_by_def Let_def)
  from polling_accounts_for_every_future [OF p] p show ?thesis
    by (simp add: spawn_future_def fresh_world_def)
qed

text \<open>
  C37: running code without a loop or with another loop, however it ends normally, restores the
  active loop and the owner of new futures, and while no loop is active a timer is refused with
  the recorded reason and nothing changes.
\<close>

theorem without_loop_timers_are_refused:
  assumes "without_event_loop reason (timer_initialization_steps h t rep) w = Some (w', r)"
  shows "w' = w \<and>
    r = Inl ((if rep then ''setInterval'' else ''setTimeout'') @
             '' needs an active event loop, and '' @ reason)"
  using assms
  by (cases w) (auto simp: without_event_loop_def timer_initialization_steps_def
      no_event_loop_message_def Let_def)

theorem without_loop_timers_are_refused_witness:
  "\<exists>r. without_event_loop ''x'' (timer_initialization_steps (HCode ''f'') 1 False) fresh_world =
     Some (fresh_world, Inl r)"
proof -
  have "without_event_loop ''x'' (timer_initialization_steps (HCode ''f'') 1 False) fresh_world \<noteq> None"
    by (simp add: without_event_loop_def timer_initialization_steps_def Let_def)
  then obtain w' r where
    e: "without_event_loop ''x'' (timer_initialization_steps (HCode ''f'') 1 False) fresh_world =
      Some (w', r)" by fastforce
  from without_loop_timers_are_refused [OF e] e show ?thesis by auto
qed

end
