(* ===== verification/Promise_Store.thy ===== *)
theory Promise_Store
  imports Prelude
begin

text \<open>
  JavaScript values and promises as the stream algorithms use them, through
  \<open>crates/js/src/promise.rs\<close>. A promise is an index into a store that holds its state and its
  \<open>[[PromiseIsHandled]]\<close> flag. Resolving is only ever done with a value that has no \<open>then\<close>, so it
  fulfils at once, and a settled promise is never changed again. Allocation does not fail.
\<close>

datatype jsval =
    JUndefined
  | JNull
  | JTypeError string
  | JRangeError string
  | JDomException string string
  | JUser nat

text \<open>A \<open>DOMException\<close> is its name and its message.\<close>

abbreviation JAbortError :: "string \<Rightarrow> jsval" where
  "JAbortError m \<equiv> JDomException ''AbortError'' m"

type_synonym pid = nat

datatype pstate = Pending | Fulfilled jsval | Rejected jsval

record promises =
  pr_state :: "pid \<Rightarrow> pstate"
  pr_handled :: "pid \<Rightarrow> bool"
  pr_next :: pid

definition no_promises :: promises where
  "no_promises = \<lparr>pr_state = (\<lambda>_. Pending), pr_handled = (\<lambda>_. False), pr_next = 0\<rparr>"

definition new_pending :: "promises \<Rightarrow> promises \<times> pid" where
  "new_pending ps =
     (ps\<lparr>pr_state := (pr_state ps)(pr_next ps := Pending),
         pr_handled := (pr_handled ps)(pr_next ps := False), pr_next := pr_next ps + 1\<rparr>, pr_next ps)"

definition settle :: "pid \<Rightarrow> pstate \<Rightarrow> promises \<Rightarrow> promises" where
  "settle p s ps =
     (if pr_state ps p = Pending then ps\<lparr>pr_state := (pr_state ps)(p := s)\<rparr> else ps)"

abbreviation resolve_promise :: "pid \<Rightarrow> jsval \<Rightarrow> promises \<Rightarrow> promises" where
  "resolve_promise p v \<equiv> settle p (Fulfilled v)"

abbreviation reject_promise :: "pid \<Rightarrow> jsval \<Rightarrow> promises \<Rightarrow> promises" where
  "reject_promise p v \<equiv> settle p (Rejected v)"

definition new_resolved_with_value :: "jsval \<Rightarrow> promises \<Rightarrow> promises \<times> pid" where
  "new_resolved_with_value v ps = (let (ps', p) = new_pending ps in (resolve_promise p v ps', p))"

definition new_rejected_with_error :: "jsval \<Rightarrow> promises \<Rightarrow> promises \<times> pid" where
  "new_rejected_with_error v ps = (let (ps', p) = new_pending ps in (reject_promise p v ps', p))"

text \<open>The engine asserts that the promise is settled.\<close>

definition set_settled_is_handled :: "pid \<Rightarrow> promises \<Rightarrow> promises option" where
  "set_settled_is_handled p ps =
     do {
       require (pr_state ps p \<noteq> Pending);
       Some (ps\<lparr>pr_handled := (pr_handled ps)(p := True)\<rparr>)
     }"

section \<open>Facts\<close>

lemma settle_simps [simp]:
  "pr_state (settle p s ps) q = (if q = p \<and> pr_state ps p = Pending then s else pr_state ps q)"
  "pr_next (settle p s ps) = pr_next ps" "pr_handled (settle p s ps) = pr_handled ps"
  by (simp_all add: settle_def)

text \<open>What no operation undoes: a settled promise keeps its state, and ids are never reused.\<close>

definition keeps_settled :: "promises \<Rightarrow> promises \<Rightarrow> bool" where
  "keeps_settled ps ps' \<longleftrightarrow>
     pr_next ps \<le> pr_next ps' \<and>
     (\<forall>p < pr_next ps. pr_state ps p \<noteq> Pending \<longrightarrow> pr_state ps' p = pr_state ps p)"

lemma keeps_settled_refl [simp]: "keeps_settled ps ps"
  by (simp add: keeps_settled_def)

lemma keeps_settled_trans:
  assumes "keeps_settled a b" and "keeps_settled b c"
  shows "keeps_settled a c"
  using assms unfolding keeps_settled_def by (auto dest: less_le_trans)

lemma keeps_settled_settle [simp]: "keeps_settled ps (settle p s ps)"
  by (simp add: keeps_settled_def)

lemma new_pending_simps [simp]:
  "snd (new_pending ps) = pr_next ps" "pr_next (fst (new_pending ps)) = Suc (pr_next ps)"
  "pr_state (fst (new_pending ps)) = (pr_state ps)(pr_next ps := Pending)"
  by (simp_all add: new_pending_def)

end
