(* ===== verification/F64.thy ===== *)
theory F64
  imports Prelude "HOL-Library.Log_Nat"
begin

text \<open>
  IEEE 754 binary64 as Rust's \<open>f64\<close> has it, as far as the sources use it: comparison,
  addition and subtraction, rounded to nearest with ties to even. \<open>Fin m e\<close> is the finite number
  \<open>m * 2^e\<close>; a number may have several such pairs, and the sign of zero is not kept. The sum of two
  numbers is a multiple of the smaller quantum, so adding never rounds in the subnormal range.
\<close>

datatype f64 = NaN | PInf | NInf | Fin int int

definition f64_of_int :: "int \<Rightarrow> f64" where
  "f64_of_int n = Fin n 0"

abbreviation f64_zero :: f64 where
  "f64_zero \<equiv> Fin 0 0"

text \<open>The mantissas of two finite numbers at their common exponent.\<close>

definition f64_align :: "int \<Rightarrow> int \<Rightarrow> int \<Rightarrow> int \<Rightarrow> int \<times> int" where
  "f64_align a e b f = (a * 2 ^ nat (e - min e f), b * 2 ^ nat (f - min e f))"

fun f64_lt :: "f64 \<Rightarrow> f64 \<Rightarrow> bool" where
  "f64_lt NaN y = False"
| "f64_lt x NaN = False"
| "f64_lt PInf y = False"
| "f64_lt x NInf = False"
| "f64_lt NInf y = True"
| "f64_lt x PInf = True"
| "f64_lt (Fin a e) (Fin b f) = (case f64_align a e b f of (a', b') \<Rightarrow> a' < b')"

fun f64_eq :: "f64 \<Rightarrow> f64 \<Rightarrow> bool" where
  "f64_eq NaN y = False"
| "f64_eq x NaN = False"
| "f64_eq (Fin a e) (Fin b f) = (case f64_align a e b f of (a', b') \<Rightarrow> a' = b')"
| "f64_eq x y = (x = y)"

definition f64_le :: "f64 \<Rightarrow> f64 \<Rightarrow> bool" where
  "f64_le x y \<longleftrightarrow> f64_lt x y \<or> f64_eq x y"

definition f64_check :: "int \<Rightarrow> int \<Rightarrow> f64" where
  "f64_check m e = (if bitlen \<bar>m\<bar> + e > 1024 then (if m < 0 then NInf else PInf) else Fin m e)"

definition f64_round :: "int \<Rightarrow> int \<Rightarrow> f64" where
  "f64_round m e =
     (let k = bitlen \<bar>m\<bar> - 53
      in if k \<le> 0 then f64_check m e
         else (let d = 2 ^ nat k; q = m div d; r = m mod d
               in f64_check (if 2 * r < d \<or> 2 * r = d \<and> even q then q else q + 1) (e + k)))"

fun f64_add :: "f64 \<Rightarrow> f64 \<Rightarrow> f64" where
  "f64_add NaN y = NaN"
| "f64_add x NaN = NaN"
| "f64_add PInf NInf = NaN"
| "f64_add NInf PInf = NaN"
| "f64_add PInf y = PInf"
| "f64_add x PInf = PInf"
| "f64_add NInf y = NInf"
| "f64_add x NInf = NInf"
| "f64_add (Fin a e) (Fin b f) = (case f64_align a e b f of (a', b') \<Rightarrow> f64_round (a' + b') (min e f))"

fun f64_neg :: "f64 \<Rightarrow> f64" where
  "f64_neg NaN = NaN"
| "f64_neg PInf = NInf"
| "f64_neg NInf = PInf"
| "f64_neg (Fin m e) = Fin (- m) e"

definition f64_sub :: "f64 \<Rightarrow> f64 \<Rightarrow> f64" where
  "f64_sub x y = f64_add x (f64_neg y)"

section \<open>Sign\<close>

definition f64_nonneg :: "f64 \<Rightarrow> bool" where
  "f64_nonneg x \<longleftrightarrow> x \<noteq> NaN \<and> \<not> f64_lt x f64_zero"

lemma f64_nonneg_iff: "f64_nonneg x \<longleftrightarrow> x = PInf \<or> (\<exists>m e. x = Fin m e \<and> 0 \<le> m)"
proof (cases x)
  case (Fin m e)
  have "m * 2 ^ nat (e - min e 0) < 0 \<longleftrightarrow> m < 0" by (simp add: mult_less_0_iff)
  with Fin show ?thesis by (simp add: f64_nonneg_def f64_align_def not_less)
qed (simp_all add: f64_nonneg_def)

lemma f64_nonneg_simps [simp]:
  "f64_nonneg (Fin m e) \<longleftrightarrow> 0 \<le> m" "f64_nonneg PInf" "\<not> f64_nonneg NInf" "\<not> f64_nonneg NaN"
  by (auto simp: f64_nonneg_iff)

lemma f64_check_not_nan [simp]: "f64_check m e \<noteq> NaN"
  by (simp add: f64_check_def)

lemma f64_round_not_nan [simp]: "f64_round m e \<noteq> NaN"
  by (simp add: f64_round_def Let_def)

lemma f64_check_nonneg: "0 \<le> m \<Longrightarrow> f64_nonneg (f64_check m e)"
  by (simp add: f64_check_def)

lemma f64_round_nonneg: "0 \<le> m \<Longrightarrow> f64_nonneg (f64_round m e)"
  by (auto simp: f64_round_def Let_def f64_check_nonneg pos_imp_zdiv_nonneg_iff)

lemma f64_add_nonneg:
  assumes "f64_nonneg x" and "f64_nonneg y"
  shows "f64_nonneg (f64_add x y)"
  using assms
  by (cases x; cases y) (auto simp: f64_align_def intro!: f64_round_nonneg)

lemma f64_sub_not_nan: "f64_nonneg x \<Longrightarrow> f64_sub x (Fin m e) \<noteq> NaN"
  by (cases x) (simp_all add: f64_sub_def split: prod.split)

lemma not_lt_zero_nonneg: "x \<noteq> NaN \<Longrightarrow> \<not> f64_lt x f64_zero \<Longrightarrow> f64_nonneg x"
  by (simp add: f64_nonneg_def)

section \<open>Small integers are exact\<close>

lemma bitlen_small:
  assumes "\<bar>n\<bar> < 2 ^ 53"
  shows "bitlen \<bar>n\<bar> \<le> 53"
  using assms by (simp add: bitlen_le_iff_power)

lemma f64_round_small: "\<bar>n\<bar> < 2 ^ 53 \<Longrightarrow> f64_round n 0 = Fin n 0"
  using bitlen_small [of n] by (simp add: f64_round_def f64_check_def)

lemma f64_add_of_int:
  "\<bar>a + b\<bar> < 2 ^ 53 \<Longrightarrow> f64_add (f64_of_int a) (f64_of_int b) = f64_of_int (a + b)"
  by (simp add: f64_of_int_def f64_align_def f64_round_small)

lemma f64_sub_of_int:
  "\<bar>a - b\<bar> < 2 ^ 53 \<Longrightarrow> f64_sub (f64_of_int a) (f64_of_int b) = f64_of_int (a - b)"
  by (simp add: f64_of_int_def f64_sub_def f64_align_def f64_round_small)

lemma f64_lt_of_int [simp]: "f64_lt (f64_of_int a) (f64_of_int b) \<longleftrightarrow> a < b"
  by (simp add: f64_of_int_def f64_align_def)

lemma f64_le_of_int [simp]: "f64_le (f64_of_int a) (f64_of_int b) \<longleftrightarrow> a \<le> b"
  by (auto simp: f64_le_def f64_of_int_def f64_align_def)

end
