(* ===== verification/Queue_With_Sizes.thy ===== *)
theory Queue_With_Sizes
  imports Promise_Store F64
begin

text \<open>
  The queue-with-sizes of \<open>crates/builtins/web-streams/src/queuing/queue_with_sizes.rs\<close> and its
  operations in \<open>crates/builtins/web-streams/src/algorithms.rs\<close>. The Rust trait is a record of
  accessors over a container; the locale states what an implementation owes its callers and
  proves what the operations then do.
\<close>

section \<open>The trait and the operations\<close>

datatype value_with_size = Chunk jsval f64 | CloseSentinel

fun vsize :: "value_with_size \<Rightarrow> f64" where
  "vsize (Chunk _ sz) = sz"
| "vsize CloseSentinel = f64_zero"

fun vvalue :: "value_with_size \<Rightarrow> jsval" where
  "vvalue (Chunk v _) = v"
| "vvalue CloseSentinel = JUndefined"

record 'c queue_ops =
  qo_queue :: "'c \<Rightarrow> value_with_size list"
  qo_set_queue :: "value_with_size list \<Rightarrow> 'c \<Rightarrow> 'c"
  qo_total :: "'c \<Rightarrow> f64"
  qo_set_total :: "f64 \<Rightarrow> 'c \<Rightarrow> 'c"

definition is_non_negative_number :: "f64 \<Rightarrow> bool" where
  "is_non_negative_number v = (if v = NaN then False else if f64_lt v f64_zero then False else True)"

definition size_message :: string where
  "size_message = ''Size must be a finite, non-negative number''"

definition enqueue_value_with_size :: "'c queue_ops \<Rightarrow> jsval \<Rightarrow> f64 \<Rightarrow> 'c \<Rightarrow> jsval + 'c" where
  "enqueue_value_with_size ops v sz c =
     (if \<not> is_non_negative_number sz then Inl (JRangeError size_message)
      else if f64_eq sz PInf then Inl (JRangeError size_message)
      else (let c1 = qo_set_queue ops (qo_queue ops c @ [Chunk v sz]) c;
                tot = f64_add (qo_total ops c1) sz
            in Inr (qo_set_total ops tot c1)))"

definition dequeue_value :: "'c queue_ops \<Rightarrow> 'c \<Rightarrow> ('c \<times> jsval) option" where
  "dequeue_value ops c =
     (case qo_queue ops c of
        [] \<Rightarrow> None
      | x # q \<Rightarrow>
          (let c1 = qo_set_queue ops q c;
               tot = f64_sub (qo_total ops c1) (vsize x);
               tot' = (if f64_lt tot f64_zero then f64_zero else tot)
           in Some (qo_set_total ops tot' c1, vvalue x)))"

definition peek_queue_value :: "'c queue_ops \<Rightarrow> 'c \<Rightarrow> jsval option" where
  "peek_queue_value ops c = (case qo_queue ops c of [] \<Rightarrow> None | x # _ \<Rightarrow> Some (vvalue x))"

definition reset_queue :: "'c queue_ops \<Rightarrow> 'c \<Rightarrow> 'c" where
  "reset_queue ops c = qo_set_total ops f64_zero (qo_set_queue ops [] c)"

text \<open>
  \<open>QueuingStrategy\<close> has an optional high-water mark and an optional size function; the functions
  that read them answer a \<open>RangeError\<close> as \<open>Inl\<close>.
\<close>

record queuing_strategy =
  qs_high_water_mark :: "f64 option"
  qs_size :: "nat option"

definition extract_high_water_mark :: "queuing_strategy option \<Rightarrow> f64 \<Rightarrow> jsval + f64" where
  "extract_high_water_mark strategy default_hwm =
     (case Option.bind strategy qs_high_water_mark of
        None \<Rightarrow> Inr default_hwm
      | Some hwm \<Rightarrow>
          if hwm = NaN \<or> f64_lt hwm f64_zero
          then Inl (JRangeError ''highWaterMark must be a non-negative number'')
          else Inr hwm)"

definition extract_size_algorithm :: "queuing_strategy option \<Rightarrow> nat option" where
  "extract_size_algorithm strategy = Option.bind strategy qs_size"

section \<open>The contract\<close>

text \<open>A queue total that can be trusted for its sign: entries are finite and not negative.\<close>

fun sized :: "value_with_size \<Rightarrow> bool" where
  "sized (Chunk _ sz) \<longleftrightarrow> (\<exists>m e. sz = Fin m e \<and> 0 \<le> m)"
| "sized CloseSentinel \<longleftrightarrow> True"

definition queue_ok :: "value_with_size list \<Rightarrow> f64 \<Rightarrow> bool" where
  "queue_ok q t \<longleftrightarrow> f64_nonneg t \<and> list_all sized q"

text \<open>A queue whose sizes are integers with an exact total.\<close>

fun int_size :: "value_with_size \<Rightarrow> int option" where
  "int_size (Chunk _ (Fin m e)) = (if e = 0 then Some m else None)"
| "int_size (Chunk _ _) = None"
| "int_size CloseSentinel = Some 0"

definition queue_exact :: "value_with_size list \<Rightarrow> f64 \<Rightarrow> bool" where
  "queue_exact q t \<longleftrightarrow>
     list_all (\<lambda>x. \<exists>n. int_size x = Some n \<and> 0 \<le> n) q \<and>
     t = f64_of_int (sum_list (map (the \<circ> int_size) q)) \<and>
     sum_list (map (the \<circ> int_size) q) < 2 ^ 53"

lemma queue_exact_sum:
  "list_all (\<lambda>x. \<exists>n. int_size x = Some n \<and> 0 \<le> n) q \<Longrightarrow>
     0 \<le> sum_list (map (the \<circ> int_size) q)"
  by (induction q) auto

lemma int_size_vsize: "int_size x = Some n \<Longrightarrow> vsize x = f64_of_int n"
  by (cases x rule: int_size.cases) (auto simp: f64_of_int_def split: if_splits)

lemma is_non_negative_number_iff: "is_non_negative_number v \<longleftrightarrow> f64_nonneg v"
  by (auto simp: is_non_negative_number_def f64_nonneg_def)

lemma f64_eq_PInf [simp]: "f64_eq v PInf \<longleftrightarrow> v = PInf"
  by (cases v) auto

locale queue_container =
  fixes ops :: "'c queue_ops"
  assumes queue_set_queue [simp]: "qo_queue ops (qo_set_queue ops q c) = q"
    and queue_set_total [simp]: "qo_queue ops (qo_set_total ops t c) = qo_queue ops c"
    and total_set_queue [simp]: "qo_total ops (qo_set_queue ops q c) = qo_total ops c"
    and total_set_total [simp]: "qo_total ops (qo_set_total ops t c) = t"
begin

lemma enqueue_refused:
  "enqueue_value_with_size ops v sz c = Inl e \<longleftrightarrow>
     e = JRangeError size_message \<and> (\<nexists>m ex. sz = Fin m ex \<and> 0 \<le> m)"
  by (cases sz)
    (auto simp: enqueue_value_with_size_def is_non_negative_number_iff Let_def)

lemma enqueue_accepted:
  assumes "enqueue_value_with_size ops v sz c = Inr c'"
  shows "(\<exists>m e. sz = Fin m e \<and> 0 \<le> m) \<and> qo_queue ops c' = qo_queue ops c @ [Chunk v sz] \<and>
    qo_total ops c' = f64_add (qo_total ops c) sz"
  using assms
  by (cases sz)
    (auto simp: enqueue_value_with_size_def is_non_negative_number_iff Let_def split: if_splits)

lemma enqueue_ok:
  assumes "queue_ok (qo_queue ops c) (qo_total ops c)"
    and "enqueue_value_with_size ops v sz c = Inr c'"
  shows "queue_ok (qo_queue ops c') (qo_total ops c')"
  using assms(1) enqueue_accepted [OF assms(2)]
  by (auto simp: queue_ok_def intro!: f64_add_nonneg)

lemma dequeue_total: "wp (dequeue_value ops c) Q \<Longrightarrow> qo_queue ops c \<noteq> []"
  by (auto simp: dequeue_value_def split: list.splits)

lemma dequeue_ok:
  assumes "queue_ok (qo_queue ops c) (qo_total ops c)" and "qo_queue ops c = x # q"
  shows "wp (dequeue_value ops c) (\<lambda>(c', v). v = vvalue x \<and> qo_queue ops c' = q \<and>
    queue_ok q (qo_total ops c'))"
proof -
  have t: "f64_nonneg (qo_total ops c)" and "sized x" and q: "list_all sized q"
    using assms by (simp_all add: queue_ok_def)
  then obtain m e where x: "vsize x = Fin m e" by (cases x) auto
  let ?t = "f64_sub (qo_total ops c) (vsize x)"
  have "\<not> f64_lt ?t f64_zero \<Longrightarrow> f64_nonneg ?t"
    using not_lt_zero_nonneg f64_sub_not_nan [OF t, of m e] by (simp add: x)
  with assms q show ?thesis
    by (simp add: dequeue_value_def queue_ok_def Let_def)
qed

lemma enqueue_exact:
  assumes ex: "queue_exact (qo_queue ops c) (qo_total ops c)" and n: "0 \<le> n"
    and sum: "sum_list (map (the \<circ> int_size) (qo_queue ops c)) + n < 2 ^ 53"
  shows "\<exists>c'. enqueue_value_with_size ops v (f64_of_int n) c = Inr c' \<and>
    qo_queue ops c' = qo_queue ops c @ [Chunk v (f64_of_int n)] \<and>
    queue_exact (qo_queue ops c') (qo_total ops c')"
proof -
  let ?s = "sum_list (map (the \<circ> int_size) (qo_queue ops c))"
  have s: "0 \<le> ?s" "qo_total ops c = f64_of_int ?s"
    using ex queue_exact_sum by (auto simp: queue_exact_def)
  have "f64_add (qo_total ops c) (f64_of_int n) = f64_of_int (?s + n)"
    unfolding s(2) by (rule f64_add_of_int) (use s n sum in auto)
  moreover have "is_non_negative_number (f64_of_int n)" "f64_of_int n \<noteq> PInf"
    using n by (auto simp: is_non_negative_number_iff f64_of_int_def)
  ultimately show ?thesis
    using ex n sum
    by (auto simp: enqueue_value_with_size_def queue_exact_def Let_def f64_of_int_def)
qed

lemma dequeue_exact:
  assumes ex: "queue_exact (qo_queue ops c) (qo_total ops c)" and q: "qo_queue ops c = x # q"
  shows "wp (dequeue_value ops c) (\<lambda>(c', v). v = vvalue x \<and> qo_queue ops c' = q \<and>
    queue_exact q (qo_total ops c'))"
proof -
  obtain n where n: "int_size x = Some n" "0 \<le> n"
    using ex q by (auto simp: queue_exact_def)
  let ?s = "sum_list (map (the \<circ> int_size) q)"
  have s: "0 \<le> ?s" "n + ?s < 2 ^ 53" "qo_total ops c = f64_of_int (n + ?s)"
    using ex q n queue_exact_sum [of q] by (auto simp: queue_exact_def)
  have "f64_sub (f64_of_int (n + ?s)) (f64_of_int n) = f64_of_int (n + ?s - n)"
    by (rule f64_sub_of_int) (use s n in auto)
  moreover have "\<not> f64_lt (f64_of_int ?s) f64_zero"
    using s(1) by (simp add: f64_of_int_def f64_align_def not_less)
  ultimately show ?thesis
    using ex q s n int_size_vsize [OF n(1)]
    by (auto simp add: dequeue_value_def queue_exact_def Let_def)
qed

lemma reset_ok: "qo_queue ops (reset_queue ops c) = [] \<and> qo_total ops (reset_queue ops c) = f64_zero"
  by (simp add: reset_queue_def)

lemma peek_dequeue:
  "peek_queue_value ops c = map_option snd (dequeue_value ops c)"
  by (simp add: peek_queue_value_def dequeue_value_def Let_def split: list.split)

end

end
