(* ===== verification/Stream_Support.thy ===== *)
theory Stream_Support
  imports Queue_With_Sizes
begin

text \<open>
  What both kinds of stream share, \<open>crates/builtins/web-streams/src/support.rs\<close>: the stored
  algorithms of a source or sink and how they are invoked. The code they run is a function \<open>U\<close>
  that gets a description \<open>'c\<close> of the call and the whole state \<open>'s\<close>, and may change it.
\<close>

datatype algorithm = ANone | AJs nat | ANative nat

definition from_member :: "nat option \<Rightarrow> algorithm" where
  "from_member m = (case m of Some f \<Rightarrow> AJs f | None \<Rightarrow> ANone)"

text \<open>
  How a call ends: with a value, of which only matters that it is a number or can be called, or is a
  promise that \<open>Promise.resolve\<close> fails on, as the lookup of its \<open>constructor\<close> throws; or with an exception.
\<close>

datatype user_result = Returned | Number f64 | Callable | Unresolvable | Threw jsval

definition threw :: "user_result \<Rightarrow> bool" where
  "threw r = (case r of Threw e \<Rightarrow> True | _ \<Rightarrow> False)"

text \<open>JavaScript returns to code that resolves a new promise with its result, which always succeeds.\<close>

definition js_result :: "user_result \<Rightarrow> user_result" where
  "js_result r = (if r = Unresolvable then Returned else r)"

lemma js_result_simps [simp]: "js_result r \<noteq> Unresolvable" "threw (js_result r) = threw r" "js_result Returned = Returned"
  by (simp_all add: js_result_def threw_def)

text \<open>What is known of a promise that an algorithm gave.\<close>

datatype sink_promise = Resolved | RejectedWith jsval | Unsettled

text \<open>
  An absent algorithm's promise is resolved, a throw's is rejected, and any other is what the
  source or sink made of it. The result of a native algorithm is coerced with \<open>Promise.resolve\<close>, whose
  failure panics; a new promise is resolved with that of a JavaScript one.
\<close>

definition invoke_promise_algorithm ::
    "('c \<Rightarrow> 's \<Rightarrow> ('s \<times> user_result) option) \<Rightarrow> algorithm \<Rightarrow> 'c \<Rightarrow> 's \<Rightarrow> ('s \<times> sink_promise) option" where
  "invoke_promise_algorithm U alg call st =
     (case alg of
        ANone \<Rightarrow> Some (st, Resolved)
      | ANative _ \<Rightarrow>
          do {
            (st', r) \<leftarrow> U call st;
            require (r \<noteq> Unresolvable);
            Some (st', case r of Threw e \<Rightarrow> RejectedWith e | _ \<Rightarrow> Unsettled)
          }
      | AJs _ \<Rightarrow>
          do {
            (st', r) \<leftarrow> U call st;
            Some (st', case r of Threw e \<Rightarrow> RejectedWith e | _ \<Rightarrow> Unsettled)
          })"

definition invoke_algorithm ::
    "('c \<Rightarrow> 's \<Rightarrow> ('s \<times> user_result) option) \<Rightarrow> algorithm \<Rightarrow> 'c \<Rightarrow> 's \<Rightarrow> ('s \<times> user_result) option" where
  "invoke_algorithm U alg call st =
     (case alg of ANone \<Rightarrow> Some (st, Returned) | _ \<Rightarrow> U call st)"

end
