(* ===== verification/Writable_Stream.thy ===== *)
theory Writable_Stream
  imports Stream_Support
begin

text \<open>
  \<open>WritableStream\<close>, its controller and its writers, from
  \<open>crates/builtins/web-streams/src/writable/\<close>: one stream with its controller, the writers
  created on it, the promises they hold and the reactions the code attached to promises of the
  sink. A failing \<open>debug_assert!\<close>, \<open>expect\<close> or \<open>unwrap\<close> is \<open>None\<close>.

  The sink's algorithms, the size function and the listeners of the abort signal are JavaScript
  or another component: they are the parameter \<open>U\<close>, which gets the whole state and may change
  it. When a sink's promise settles is up to the environment, so a reaction is a value that is
  run later, with an outcome the environment picks unless the promise was settled from the start.
\<close>

section \<open>State\<close>

datatype writable_state = WsWritable | WsClosed | WsErroring | WsErrored

record pending_abort_request =
  pa_promise :: pid
  pa_reason :: jsval
  pa_was_already_erroring :: bool

record writable_stream =
  s_backpressure :: bool
  s_close_request :: "pid option"
  s_controller :: bool
  s_in_flight_write_request :: "pid option"
  s_in_flight_close_request :: "pid option"
  s_pending_abort_request :: "pending_abort_request option"
  s_state :: writable_state
  s_stored_error :: jsval
  s_writer :: "nat option"
  s_write_requests :: "pid list"

record default_writer =
  wr_closed_promise :: pid
  wr_ready_promise :: pid
  wr_stream :: bool

text \<open>The abort controller is its signal's abort reason, if it is aborted.\<close>

record default_controller =
  c_abort_algorithm :: algorithm
  c_abort_reason :: "jsval option"
  c_close_algorithm :: algorithm
  c_queue :: "value_with_size list"
  c_queue_total_size :: f64
  c_started :: bool
  c_strategy_hwm :: f64
  c_strategy_size_algorithm :: "nat option"
  c_write_algorithm :: algorithm

text \<open>Which pair of reaction callbacks is attached.\<close>

datatype reaction_kind = RStart | RWrite | RClose | RAbort pid

record ws =
  ws_stream :: writable_stream
  ws_controller :: default_controller
  ws_writers :: "nat \<Rightarrow> default_writer"
  ws_next_writer :: nat
  ws_promises :: promises
  ws_reactions :: "(reaction_kind \<times> sink_promise) list"

text \<open>A call into code outside the component.\<close>

datatype user_call =
    CallStart algorithm
  | CallWrite algorithm jsval
  | CallClose algorithm
  | CallAbort algorithm jsval
  | CallSize nat jsval
  | AbortListeners jsval

type_synonym user_code = "user_call \<Rightarrow> ws \<Rightarrow> (ws \<times> user_result) option"

abbreviation on_stream :: "(writable_stream \<Rightarrow> writable_stream) \<Rightarrow> ws \<Rightarrow> ws" where
  "on_stream f st \<equiv> st\<lparr>ws_stream := f (ws_stream st)\<rparr>"

abbreviation on_controller :: "(default_controller \<Rightarrow> default_controller) \<Rightarrow> ws \<Rightarrow> ws" where
  "on_controller f st \<equiv> st\<lparr>ws_controller := f (ws_controller st)\<rparr>"

abbreviation on_promises :: "(promises \<Rightarrow> promises) \<Rightarrow> ws \<Rightarrow> ws" where
  "on_promises f st \<equiv> st\<lparr>ws_promises := f (ws_promises st)\<rparr>"

definition on_writer :: "nat \<Rightarrow> (default_writer \<Rightarrow> default_writer) \<Rightarrow> ws \<Rightarrow> ws" where
  "on_writer i f st = st\<lparr>ws_writers := (ws_writers st)(i := f (ws_writers st i))\<rparr>"

definition new_promise :: "(promises \<Rightarrow> promises \<times> pid) \<Rightarrow> ws \<Rightarrow> ws \<times> pid" where
  "new_promise mk st = (let (ps, p) = mk (ws_promises st) in (st\<lparr>ws_promises := ps\<rparr>, p))"

definition mark_handled :: "pid \<Rightarrow> ws \<Rightarrow> ws option" where
  "mark_handled p st =
     do { ps \<leftarrow> set_settled_is_handled p (ws_promises st); Some (st\<lparr>ws_promises := ps\<rparr>) }"

definition react :: "reaction_kind \<Rightarrow> sink_promise \<Rightarrow> ws \<Rightarrow> ws" where
  "react k p st = st\<lparr>ws_reactions := ws_reactions st @ [(k, p)]\<rparr>"

definition writable_queue_ops :: "default_controller queue_ops" where
  "writable_queue_ops =
     \<lparr>qo_queue = c_queue, qo_set_queue = (\<lambda>q c. c\<lparr>c_queue := q\<rparr>),
      qo_total = c_queue_total_size, qo_set_total = (\<lambda>t c. c\<lparr>c_queue_total_size := t\<rparr>)\<rparr>"

interpretation writable_queue: queue_container writable_queue_ops
  by unfold_locales (simp_all add: writable_queue_ops_def)

section \<open>Invoking algorithms\<close>

text \<open>\<open>AbortController::abort\<close>: the first reason sticks, and the listeners run once.\<close>

definition abort_controller_abort :: "user_code \<Rightarrow> jsval \<Rightarrow> ws \<Rightarrow> ws option" where
  "abort_controller_abort U reason st =
     (if c_abort_reason (ws_controller st) \<noteq> None then Some st
      else (let r = (if reason \<noteq> JUndefined then reason
                     else JAbortError ''signal is aborted without reason'')
            in map_option fst
                 (U (AbortListeners r) (on_controller (\<lambda>c. c\<lparr>c_abort_reason := Some r\<rparr>) st))))"

section \<open>Predicates\<close>

definition is_writable_stream_locked :: "ws \<Rightarrow> bool" where
  "is_writable_stream_locked st \<longleftrightarrow> s_writer (ws_stream st) \<noteq> None"

definition close_queued_or_in_flight :: "ws \<Rightarrow> bool" where
  "close_queued_or_in_flight st \<longleftrightarrow>
     s_close_request (ws_stream st) \<noteq> None \<or> s_in_flight_close_request (ws_stream st) \<noteq> None"

definition has_operation_marked_in_flight :: "ws \<Rightarrow> bool" where
  "has_operation_marked_in_flight st \<longleftrightarrow>
     s_in_flight_write_request (ws_stream st) \<noteq> None \<or>
     s_in_flight_close_request (ws_stream st) \<noteq> None"

abbreviation ws_state :: "ws \<Rightarrow> writable_state" where
  "ws_state st \<equiv> s_state (ws_stream st)"

section \<open>Erroring\<close>

definition clear_algorithms :: "ws \<Rightarrow> ws" where
  "clear_algorithms st =
     on_controller (\<lambda>c. c\<lparr>c_write_algorithm := ANone, c_close_algorithm := ANone,
       c_abort_algorithm := ANone, c_strategy_size_algorithm := None\<rparr>) st"

definition abort_steps :: "user_code \<Rightarrow> jsval \<Rightarrow> ws \<Rightarrow> (ws \<times> sink_promise) option" where
  "abort_steps U reason st =
     (let alg = c_abort_algorithm (ws_controller st)
      in do {
           (st1, result) \<leftarrow> invoke_promise_algorithm U alg (CallAbort alg reason) st;
           Some (clear_algorithms st1, result)
         })"

definition error_steps :: "ws \<Rightarrow> ws" where
  "error_steps st = on_controller (reset_queue writable_queue_ops) st"

definition reject_close_and_closed_promise_if_needed :: "ws \<Rightarrow> ws option" where
  "reject_close_and_closed_promise_if_needed st =
     do {
       require (ws_state st = WsErrored);
       let stored_error = s_stored_error (ws_stream st);
       st1 \<leftarrow> (case s_close_request (ws_stream st) of
                None \<Rightarrow> Some st
              | Some p \<Rightarrow>
                  do {
                    require (s_in_flight_close_request (ws_stream st) = None);
                    Some (on_promises (reject_promise p stored_error)
                            (on_stream (\<lambda>s. s\<lparr>s_close_request := None\<rparr>) st))
                  });
       (case s_writer (ws_stream st1) of
          None \<Rightarrow> Some st1
        | Some i \<Rightarrow>
            (let closed = wr_closed_promise (ws_writers st1 i)
             in mark_handled closed (on_promises (reject_promise closed stored_error) st1)))
     }"

text \<open>The loop that pops and rejects each write request.\<close>

fun reject_all :: "pid list \<Rightarrow> jsval \<Rightarrow> promises \<Rightarrow> promises" where
  "reject_all [] e ps = ps"
| "reject_all (p # rs) e ps = reject_all rs e (reject_promise p e ps)"

definition finish_erroring :: "user_code \<Rightarrow> ws \<Rightarrow> ws option" where
  "finish_erroring U st =
     do {
       require (ws_state st = WsErroring);
       require (\<not> has_operation_marked_in_flight st);
       let st1 = error_steps (on_stream (\<lambda>s. s\<lparr>s_state := WsErrored\<rparr>) st);
       let stored_error = s_stored_error (ws_stream st1);
       let st2 = on_stream (\<lambda>s. s\<lparr>s_write_requests := []\<rparr>)
                   (on_promises (reject_all (s_write_requests (ws_stream st1)) stored_error) st1);
       case s_pending_abort_request (ws_stream st2) of
         None \<Rightarrow> reject_close_and_closed_promise_if_needed st2
       | Some a \<Rightarrow>
           (let st3 = on_stream (\<lambda>s. s\<lparr>s_pending_abort_request := None\<rparr>) st2
            in if pa_was_already_erroring a
               then reject_close_and_closed_promise_if_needed
                      (on_promises (reject_promise (pa_promise a) stored_error) st3)
               else do {
                 (st4, promise) \<leftarrow> abort_steps U (pa_reason a) st3;
                 Some (react (RAbort (pa_promise a)) promise st4)
               })
     }"

definition ensure_closed_promise_rejected :: "nat \<Rightarrow> jsval \<Rightarrow> ws \<Rightarrow> ws option" where
  "ensure_closed_promise_rejected i e st =
     (let closed = wr_closed_promise (ws_writers st i);
          st1 = (if pr_state (ws_promises st) closed = Pending
                 then on_promises (reject_promise closed e) st
                 else (let (st', p) = new_promise (new_rejected_with_error e) st
                       in on_writer i (\<lambda>w. w\<lparr>wr_closed_promise := p\<rparr>) st'))
      in mark_handled (wr_closed_promise (ws_writers st1 i)) st1)"

definition ensure_ready_promise_rejected :: "nat \<Rightarrow> jsval \<Rightarrow> ws \<Rightarrow> ws option" where
  "ensure_ready_promise_rejected i e st =
     (let ready = wr_ready_promise (ws_writers st i);
          st1 = (if pr_state (ws_promises st) ready = Pending
                 then on_promises (reject_promise ready e) st
                 else (let (st', p) = new_promise (new_rejected_with_error e) st
                       in on_writer i (\<lambda>w. w\<lparr>wr_ready_promise := p\<rparr>) st'))
      in mark_handled (wr_ready_promise (ws_writers st1 i)) st1)"

definition start_erroring :: "user_code \<Rightarrow> jsval \<Rightarrow> ws \<Rightarrow> ws option" where
  "start_erroring U reason st =
     do {
       require (s_stored_error (ws_stream st) = JUndefined);
       require (ws_state st = WsWritable);
       require (s_controller (ws_stream st));
       let st1 = on_stream (\<lambda>s. s\<lparr>s_state := WsErroring, s_stored_error := reason\<rparr>) st;
       st2 \<leftarrow> (case s_writer (ws_stream st1) of
                None \<Rightarrow> Some st1
              | Some i \<Rightarrow> ensure_ready_promise_rejected i reason st1);
       if \<not> has_operation_marked_in_flight st2 \<and> c_started (ws_controller st2)
       then finish_erroring U st2 else Some st2
     }"

definition deal_with_rejection :: "user_code \<Rightarrow> jsval \<Rightarrow> ws \<Rightarrow> ws option" where
  "deal_with_rejection U e st =
     (if ws_state st = WsWritable then start_erroring U e st
      else do { require (ws_state st = WsErroring); finish_erroring U st })"

section \<open>Finishing what is in flight\<close>

definition finish_in_flight_write :: "ws \<Rightarrow> ws option" where
  "finish_in_flight_write st =
     do {
       p \<leftarrow> s_in_flight_write_request (ws_stream st);
       Some (on_promises (resolve_promise p JUndefined)
               (on_stream (\<lambda>s. s\<lparr>s_in_flight_write_request := None\<rparr>) st))
     }"

definition finish_in_flight_write_with_error :: "user_code \<Rightarrow> jsval \<Rightarrow> ws \<Rightarrow> ws option" where
  "finish_in_flight_write_with_error U e st =
     do {
       p \<leftarrow> s_in_flight_write_request (ws_stream st);
       let st1 = on_promises (reject_promise p e)
                   (on_stream (\<lambda>s. s\<lparr>s_in_flight_write_request := None\<rparr>) st);
       require (ws_state st1 = WsWritable \<or> ws_state st1 = WsErroring);
       deal_with_rejection U e st1
     }"

definition finish_in_flight_close :: "ws \<Rightarrow> ws option" where
  "finish_in_flight_close st =
     do {
       p \<leftarrow> s_in_flight_close_request (ws_stream st);
       let st1 = on_promises (resolve_promise p JUndefined)
                   (on_stream (\<lambda>s. s\<lparr>s_in_flight_close_request := None\<rparr>) st);
       require (ws_state st1 = WsWritable \<or> ws_state st1 = WsErroring);
       let st2 = (if ws_state st1 = WsErroring
                  then (let st1' = on_stream (\<lambda>s. s\<lparr>s_stored_error := JUndefined\<rparr>) st1
                        in case s_pending_abort_request (ws_stream st1') of
                             None \<Rightarrow> st1'
                           | Some a \<Rightarrow>
                               on_promises (resolve_promise (pa_promise a) JUndefined)
                                 (on_stream (\<lambda>s. s\<lparr>s_pending_abort_request := None\<rparr>) st1'))
                  else st1);
       let st3 = on_stream (\<lambda>s. s\<lparr>s_state := WsClosed\<rparr>) st2;
       let st4 = (case s_writer (ws_stream st3) of
                    None \<Rightarrow> st3
                  | Some i \<Rightarrow>
                      on_promises (resolve_promise (wr_closed_promise (ws_writers st3 i)) JUndefined) st3);
       require (s_pending_abort_request (ws_stream st4) = None);
       require (s_stored_error (ws_stream st4) = JUndefined);
       Some st4
     }"

definition finish_in_flight_close_with_error :: "user_code \<Rightarrow> jsval \<Rightarrow> ws \<Rightarrow> ws option" where
  "finish_in_flight_close_with_error U e st =
     do {
       p \<leftarrow> s_in_flight_close_request (ws_stream st);
       let st1 = on_promises (reject_promise p e)
                   (on_stream (\<lambda>s. s\<lparr>s_in_flight_close_request := None\<rparr>) st);
       require (ws_state st1 = WsWritable \<or> ws_state st1 = WsErroring);
       let st2 = (case s_pending_abort_request (ws_stream st1) of
                    None \<Rightarrow> st1
                  | Some a \<Rightarrow>
                      on_promises (reject_promise (pa_promise a) e)
                        (on_stream (\<lambda>s. s\<lparr>s_pending_abort_request := None\<rparr>) st1));
       deal_with_rejection U e st2
     }"

definition mark_close_request_in_flight :: "ws \<Rightarrow> ws option" where
  "mark_close_request_in_flight st =
     do {
       require (s_in_flight_close_request (ws_stream st) = None);
       require (s_close_request (ws_stream st) \<noteq> None);
       Some (on_stream (\<lambda>s. s\<lparr>s_in_flight_close_request := s_close_request s,
                              s_close_request := None\<rparr>) st)
     }"

definition mark_first_write_request_in_flight :: "ws \<Rightarrow> ws option" where
  "mark_first_write_request_in_flight st =
     do {
       require (s_in_flight_write_request (ws_stream st) = None);
       case s_write_requests (ws_stream st) of
         [] \<Rightarrow> None
       | p # rs \<Rightarrow>
           Some (on_stream (\<lambda>s. s\<lparr>s_in_flight_write_request := Some p, s_write_requests := rs\<rparr>) st)
     }"

section \<open>Backpressure\<close>

definition get_desired_size :: "ws \<Rightarrow> f64" where
  "get_desired_size st =
     f64_sub (c_strategy_hwm (ws_controller st)) (c_queue_total_size (ws_controller st))"

definition get_backpressure :: "ws \<Rightarrow> bool" where
  "get_backpressure st \<longleftrightarrow> f64_le (get_desired_size st) f64_zero"

definition update_backpressure :: "bool \<Rightarrow> ws \<Rightarrow> ws option" where
  "update_backpressure backpressure st =
     do {
       require (ws_state st = WsWritable);
       require (\<not> close_queued_or_in_flight st);
       let current = s_backpressure (ws_stream st);
       let st1 = (case s_writer (ws_stream st) of
                    None \<Rightarrow> st
                  | Some i \<Rightarrow>
                      if backpressure \<noteq> current
                      then (if backpressure
                            then (let (st', p) = new_promise new_pending st
                                  in on_writer i (\<lambda>w. w\<lparr>wr_ready_promise := p\<rparr>) st')
                            else on_promises
                                   (resolve_promise (wr_ready_promise (ws_writers st i)) JUndefined) st)
                      else st);
       Some (on_stream (\<lambda>s. s\<lparr>s_backpressure := backpressure\<rparr>) st1)
     }"

section \<open>The controller's queue\<close>

definition dequeue :: "ws \<Rightarrow> ws option" where
  "dequeue st =
     do {
       (c, _) \<leftarrow> dequeue_value writable_queue_ops (ws_controller st);
       Some (st\<lparr>ws_controller := c\<rparr>)
     }"

definition process_close :: "user_code \<Rightarrow> ws \<Rightarrow> ws option" where
  "process_close U st =
     do {
       st1 \<leftarrow> mark_close_request_in_flight st;
       st2 \<leftarrow> dequeue st1;
       require (c_queue (ws_controller st2) = []);
       let alg = c_close_algorithm (ws_controller st2);
       (st3, promise) \<leftarrow> invoke_promise_algorithm U alg (CallClose alg) st2;
       Some (react RClose promise (clear_algorithms st3))
     }"

definition process_write :: "user_code \<Rightarrow> jsval \<Rightarrow> ws \<Rightarrow> ws option" where
  "process_write U chunk st =
     do {
       st1 \<leftarrow> mark_first_write_request_in_flight st;
       let alg = c_write_algorithm (ws_controller st1);
       (st2, promise) \<leftarrow> invoke_promise_algorithm U alg (CallWrite alg chunk) st1;
       Some (react RWrite promise st2)
     }"

definition advance_queue_if_needed :: "user_code \<Rightarrow> ws \<Rightarrow> ws option" where
  "advance_queue_if_needed U st =
     (if \<not> c_started (ws_controller st) then Some st
      else if s_in_flight_write_request (ws_stream st) \<noteq> None then Some st
      else do {
        require (ws_state st \<noteq> WsClosed \<and> ws_state st \<noteq> WsErrored);
        if ws_state st = WsErroring then finish_erroring U st
        else case c_queue (ws_controller st) of
               [] \<Rightarrow> Some st
             | CloseSentinel # _ \<Rightarrow> process_close U st
             | Chunk _ _ # _ \<Rightarrow>
                 do {
                   v \<leftarrow> peek_queue_value writable_queue_ops (ws_controller st);
                   process_write U v st
                 }
      })"

definition controller_close :: "user_code \<Rightarrow> ws \<Rightarrow> ws option" where
  "controller_close U st =
     advance_queue_if_needed U (on_controller (\<lambda>c. c\<lparr>c_queue := c_queue c @ [CloseSentinel]\<rparr>) st)"

definition controller_error :: "user_code \<Rightarrow> jsval \<Rightarrow> ws \<Rightarrow> ws option" where
  "controller_error U e st =
     do {
       require (ws_state st = WsWritable);
       start_erroring U e (clear_algorithms st)
     }"

definition controller_error_if_needed :: "user_code \<Rightarrow> jsval \<Rightarrow> ws \<Rightarrow> ws option" where
  "controller_error_if_needed U e st =
     (if ws_state st = WsWritable then controller_error U e st else Some st)"

text \<open>The size function's result goes through \<open>ToNumber\<close>, which makes undefined a NaN.\<close>

definition get_chunk_size :: "user_code \<Rightarrow> jsval \<Rightarrow> ws \<Rightarrow> (ws \<times> f64) option" where
  "get_chunk_size U chunk st =
     (case c_strategy_size_algorithm (ws_controller st) of
        None \<Rightarrow> Some (st, f64_of_int 1)
      | Some f \<Rightarrow>
          do {
            (st1, r) \<leftarrow> U (CallSize f chunk) st;
            case r of
              Number n \<Rightarrow> Some (st1, n)
            | Threw e \<Rightarrow>
                do { st2 \<leftarrow> controller_error_if_needed U e st1; Some (st2, f64_of_int 1) }
            | _ \<Rightarrow> Some (st1, NaN)
          })"

definition controller_write :: "user_code \<Rightarrow> jsval \<Rightarrow> f64 \<Rightarrow> ws \<Rightarrow> ws option" where
  "controller_write U chunk chunk_size st =
     (case enqueue_value_with_size writable_queue_ops chunk chunk_size (ws_controller st) of
        Inl e \<Rightarrow> controller_error_if_needed U e st
      | Inr c \<Rightarrow>
          do {
            let st1 = st\<lparr>ws_controller := c\<rparr>;
            st2 \<leftarrow> (if \<not> close_queued_or_in_flight st1 \<and> ws_state st1 = WsWritable
                   then update_backpressure (get_backpressure st1) st1 else Some st1);
            advance_queue_if_needed U st2
          })"

end
