(* ===== verification/Writable_Api.thy ===== *)
theory Writable_Api
  imports Writable_Stream
begin

text \<open>
  The operations on a writable stream and its writers, the reactions, the set-up of the
  controller, and the interface JavaScript sees. User code that runs inside an operation acts
  through the same interface, so the model closes the circle with scripts of commands whose
  depth of nesting is the bound the JavaScript stack puts on recursion.
\<close>

section \<open>Operations on the stream\<close>

definition closed_or_errored :: "ws \<Rightarrow> bool" where
  "closed_or_errored st \<longleftrightarrow> ws_state st = WsClosed \<or> ws_state st = WsErrored"

definition writable_stream_abort :: "user_code \<Rightarrow> jsval \<Rightarrow> ws \<Rightarrow> (ws \<times> pid) option" where
  "writable_stream_abort U reason st =
     (if closed_or_errored st then Some (new_promise (new_resolved_with_value JUndefined) st)
      else do {
        require (s_controller (ws_stream st));
        st1 \<leftarrow> abort_controller_abort U reason st;
        if closed_or_errored st1 then Some (new_promise (new_resolved_with_value JUndefined) st1)
        else case s_pending_abort_request (ws_stream st1) of
               Some a \<Rightarrow> Some (st1, pa_promise a)
             | None \<Rightarrow>
                 do {
                   require (ws_state st1 = WsWritable \<or> ws_state st1 = WsErroring);
                   let was_already_erroring = (ws_state st1 = WsErroring);
                   let effective_reason = (if was_already_erroring then JUndefined else reason);
                   let (st2, p) = new_promise new_pending st1;
                   let st3 = on_stream (\<lambda>s. s\<lparr>s_pending_abort_request :=
                       Some \<lparr>pa_promise = p, pa_reason = effective_reason,
                             pa_was_already_erroring = was_already_erroring\<rparr>\<rparr>) st2;
                   st4 \<leftarrow> (if \<not> was_already_erroring then start_erroring U effective_reason st3
                          else Some st3);
                   Some (st4, p)
                 }
      })"

definition closed_message :: string where
  "closed_message =
     ''The stream (in closed or errored state) is not in the writable state and cannot be closed''"

definition writable_stream_close :: "user_code \<Rightarrow> ws \<Rightarrow> (ws \<times> pid) option" where
  "writable_stream_close U st =
     (if closed_or_errored st
      then Some (new_promise (new_rejected_with_error (JTypeError closed_message)) st)
      else do {
        require (ws_state st = WsWritable \<or> ws_state st = WsErroring);
        require (\<not> close_queued_or_in_flight st);
        let (st1, p) = new_promise new_pending st;
        let st2 = on_stream (\<lambda>s. s\<lparr>s_close_request := Some p\<rparr>) st1;
        let st3 = (case s_writer (ws_stream st2) of
                     None \<Rightarrow> st2
                   | Some i \<Rightarrow>
                       if s_backpressure (ws_stream st2) \<and> ws_state st2 = WsWritable
                       then on_promises (resolve_promise (wr_ready_promise (ws_writers st2 i)) JUndefined) st2
                       else st2);
        require (s_controller (ws_stream st3));
        st4 \<leftarrow> controller_close U st3;
        Some (st4, p)
      })"

definition add_write_request :: "ws \<Rightarrow> (ws \<times> pid) option" where
  "add_write_request st =
     do {
       require (is_writable_stream_locked st);
       require (ws_state st = WsWritable);
       let (st1, p) = new_promise new_pending st;
       Some (on_stream (\<lambda>s. s\<lparr>s_write_requests := s_write_requests s @ [p]\<rparr>) st1, p)
     }"

section \<open>Operations on a writer\<close>

definition default_writer_abort :: "user_code \<Rightarrow> nat \<Rightarrow> jsval \<Rightarrow> ws \<Rightarrow> (ws \<times> pid) option" where
  "default_writer_abort U i reason st =
     do { require (wr_stream (ws_writers st i)); writable_stream_abort U reason st }"

definition default_writer_close :: "user_code \<Rightarrow> nat \<Rightarrow> ws \<Rightarrow> (ws \<times> pid) option" where
  "default_writer_close U i st =
     do { require (wr_stream (ws_writers st i)); writable_stream_close U st }"

definition default_writer_close_with_error_propagation ::
    "user_code \<Rightarrow> nat \<Rightarrow> ws \<Rightarrow> (ws \<times> pid) option" where
  "default_writer_close_with_error_propagation U i st =
     do {
       require (wr_stream (ws_writers st i));
       if close_queued_or_in_flight st \<or> ws_state st = WsClosed
       then Some (new_promise (new_resolved_with_value JUndefined) st)
       else if ws_state st = WsErrored
       then Some (new_promise (new_rejected_with_error (s_stored_error (ws_stream st))) st)
       else do {
         require (ws_state st = WsWritable \<or> ws_state st = WsErroring);
         default_writer_close U i st
       }
     }"

definition default_writer_get_desired_size :: "nat \<Rightarrow> ws \<Rightarrow> f64 option option" where
  "default_writer_get_desired_size i st =
     do {
       require (wr_stream (ws_writers st i));
       case ws_state st of
         WsErrored \<Rightarrow> Some None
       | WsErroring \<Rightarrow> Some None
       | WsClosed \<Rightarrow> Some (Some f64_zero)
       | WsWritable \<Rightarrow> do { require (s_controller (ws_stream st)); Some (Some (get_desired_size st)) }
     }"

definition default_writer_release :: "nat \<Rightarrow> ws \<Rightarrow> ws option" where
  "default_writer_release i st =
     do {
       require (wr_stream (ws_writers st i));
       let released_error = JTypeError
         ''Writer was released and can no longer be used to monitor the stream's closedness'';
       st1 \<leftarrow> ensure_ready_promise_rejected i released_error st;
       st2 \<leftarrow> ensure_closed_promise_rejected i released_error st1;
       Some (on_writer i (\<lambda>w. w\<lparr>wr_stream := False\<rparr>) (on_stream (\<lambda>s. s\<lparr>s_writer := None\<rparr>) st2))
     }"

definition default_writer_write :: "user_code \<Rightarrow> nat \<Rightarrow> jsval \<Rightarrow> ws \<Rightarrow> (ws \<times> pid) option" where
  "default_writer_write U i chunk st =
     do {
       require (wr_stream (ws_writers st i));
       require (s_controller (ws_stream st));
       (st1, chunk_size) \<leftarrow> get_chunk_size U chunk st;
       if \<not> wr_stream (ws_writers st1 i)
       then Some (new_promise (new_rejected_with_error
              (JTypeError ''Cannot write to a stream using a released writer'')) st1)
       else if ws_state st1 = WsErrored
       then Some (new_promise (new_rejected_with_error (s_stored_error (ws_stream st1))) st1)
       else if close_queued_or_in_flight st1 \<or> ws_state st1 = WsClosed
       then Some (new_promise (new_rejected_with_error
              (JTypeError ''The stream is closing or closed and cannot be written to'')) st1)
       else if ws_state st1 = WsErroring
       then Some (new_promise (new_rejected_with_error (s_stored_error (ws_stream st1))) st1)
       else do {
         require (ws_state st1 = WsWritable);
         (st2, p) \<leftarrow> add_write_request st1;
         st3 \<leftarrow> controller_write U chunk chunk_size st2;
         Some (st3, p)
       }
     }"

definition set_up_default_writer :: "nat \<Rightarrow> ws \<Rightarrow> (jsval + ws) option" where
  "set_up_default_writer i st =
     (if is_writable_stream_locked st
      then Some (Inl (JTypeError
             ''This stream has already been locked for exclusive writing by another writer''))
      else do {
        let st1 = on_stream (\<lambda>s. s\<lparr>s_writer := Some i\<rparr>) (on_writer i (\<lambda>w. w\<lparr>wr_stream := True\<rparr>) st);
        let stored_error = s_stored_error (ws_stream st1);
        case ws_state st1 of
          WsWritable \<Rightarrow>
            (let (st2, ready) =
               (if \<not> close_queued_or_in_flight st1 \<and> s_backpressure (ws_stream st1)
                then new_promise new_pending st1
                else new_promise (new_resolved_with_value JUndefined) st1);
               (st3, closed) = new_promise new_pending st2
             in Some (Inr (on_writer i (\<lambda>w. w\<lparr>wr_ready_promise := ready, wr_closed_promise := closed\<rparr>) st3)))
        | WsErroring \<Rightarrow>
            (let (st2, ready) = new_promise (new_rejected_with_error stored_error) st1
             in do {
               st3 \<leftarrow> mark_handled ready st2;
               let (st4, closed) = new_promise new_pending st3;
               Some (Inr (on_writer i (\<lambda>w. w\<lparr>wr_ready_promise := ready, wr_closed_promise := closed\<rparr>) st4))
             })
        | WsClosed \<Rightarrow>
            (let (st2, ready) = new_promise (new_resolved_with_value JUndefined) st1;
                 (st3, closed) = new_promise (new_resolved_with_value JUndefined) st2
             in Some (Inr (on_writer i (\<lambda>w. w\<lparr>wr_ready_promise := ready, wr_closed_promise := closed\<rparr>) st3)))
        | WsErrored \<Rightarrow>
            (let (st2, ready) = new_promise (new_rejected_with_error stored_error) st1
             in do {
               st3 \<leftarrow> mark_handled ready st2;
               let (st4, closed) = new_promise (new_rejected_with_error stored_error) st3;
               st5 \<leftarrow> mark_handled closed st4;
               Some (Inr (on_writer i (\<lambda>w. w\<lparr>wr_ready_promise := ready, wr_closed_promise := closed\<rparr>) st5))
             })
      })"

text \<open>A writer object that set-up refuses is garbage: it has no stream.\<close>

definition acquire_default_writer :: "ws \<Rightarrow> (ws \<times> (jsval + nat)) option" where
  "acquire_default_writer st =
     (let i = ws_next_writer st;
          st1 = on_writer i (\<lambda>_. \<lparr>wr_closed_promise = 0, wr_ready_promise = 0, wr_stream = False\<rparr>)
                  (st\<lparr>ws_next_writer := i + 1\<rparr>)
      in do {
        r \<leftarrow> set_up_default_writer i st1;
        Some (case r of Inl e \<Rightarrow> (st1, Inl e) | Inr st2 \<Rightarrow> (st2, Inr i))
      })"

section \<open>Reactions\<close>

definition start_promise_fulfilled :: "user_code \<Rightarrow> ws \<Rightarrow> ws option" where
  "start_promise_fulfilled U st =
     do {
       require (ws_state st = WsWritable \<or> ws_state st = WsErroring);
       advance_queue_if_needed U (on_controller (\<lambda>c. c\<lparr>c_started := True\<rparr>) st)
     }"

definition start_promise_rejected :: "user_code \<Rightarrow> jsval \<Rightarrow> ws \<Rightarrow> ws option" where
  "start_promise_rejected U e st =
     do {
       require (ws_state st = WsWritable \<or> ws_state st = WsErroring);
       deal_with_rejection U e (on_controller (\<lambda>c. c\<lparr>c_started := True\<rparr>) st)
     }"

definition write_promise_fulfilled :: "user_code \<Rightarrow> ws \<Rightarrow> ws option" where
  "write_promise_fulfilled U st =
     do {
       st1 \<leftarrow> finish_in_flight_write st;
       let state = ws_state st1;
       require (state = WsWritable \<or> state = WsErroring);
       st2 \<leftarrow> dequeue st1;
       st3 \<leftarrow> (if \<not> close_queued_or_in_flight st2 \<and> state = WsWritable
              then update_backpressure (get_backpressure st2) st2 else Some st2);
       advance_queue_if_needed U st3
     }"

definition write_promise_rejected :: "user_code \<Rightarrow> jsval \<Rightarrow> ws \<Rightarrow> ws option" where
  "write_promise_rejected U e st =
     finish_in_flight_write_with_error U e
       (if ws_state st = WsWritable then clear_algorithms st else st)"

definition close_promise_fulfilled :: "user_code \<Rightarrow> ws \<Rightarrow> ws option" where
  "close_promise_fulfilled U st = finish_in_flight_close st"

definition close_promise_rejected :: "user_code \<Rightarrow> jsval \<Rightarrow> ws \<Rightarrow> ws option" where
  "close_promise_rejected U e st = finish_in_flight_close_with_error U e st"

definition abort_promise_fulfilled :: "pid \<Rightarrow> ws \<Rightarrow> ws option" where
  "abort_promise_fulfilled p st =
     reject_close_and_closed_promise_if_needed (on_promises (resolve_promise p JUndefined) st)"

definition abort_promise_rejected :: "pid \<Rightarrow> jsval \<Rightarrow> ws \<Rightarrow> ws option" where
  "abort_promise_rejected p e st =
     reject_close_and_closed_promise_if_needed (on_promises (reject_promise p e) st)"

definition fulfilled :: "user_code \<Rightarrow> reaction_kind \<Rightarrow> ws \<Rightarrow> ws option" where
  "fulfilled U k st =
     (case k of
        RStart \<Rightarrow> start_promise_fulfilled U st
      | RWrite \<Rightarrow> write_promise_fulfilled U st
      | RClose \<Rightarrow> close_promise_fulfilled U st
      | RAbort p \<Rightarrow> abort_promise_fulfilled p st)"

definition rejected :: "user_code \<Rightarrow> reaction_kind \<Rightarrow> jsval \<Rightarrow> ws \<Rightarrow> ws option" where
  "rejected U k e st =
     (case k of
        RStart \<Rightarrow> start_promise_rejected U e st
      | RWrite \<Rightarrow> write_promise_rejected U e st
      | RClose \<Rightarrow> close_promise_rejected U e st
      | RAbort p \<Rightarrow> abort_promise_rejected p e st)"

text \<open>
  A job of the engine: the \<open>n\<close>th reaction runs, once. The outcome is that of its promise if that
  is known, otherwise the one given, \<open>None\<close> for fulfilled.
\<close>

definition run_reaction :: "user_code \<Rightarrow> nat \<Rightarrow> jsval option \<Rightarrow> ws \<Rightarrow> ws option" where
  "run_reaction U n outcome st =
     (if n < length (ws_reactions st)
      then (let (k, p) = ws_reactions st ! n;
                st1 = st\<lparr>ws_reactions := take n (ws_reactions st) @ drop (Suc n) (ws_reactions st)\<rparr>
            in case (case p of Resolved \<Rightarrow> None | RejectedWith e \<Rightarrow> Some e | Unsettled \<Rightarrow> outcome) of
                 None \<Rightarrow> fulfilled U k st1
               | Some e \<Rightarrow> rejected U k e st1)
      else Some st)"

section \<open>Creation\<close>

definition initialize_writable_stream :: "writable_stream \<Rightarrow> writable_stream" where
  "initialize_writable_stream s =
     s\<lparr>s_state := WsWritable, s_stored_error := JUndefined, s_writer := None, s_controller := False,
       s_in_flight_write_request := None, s_close_request := None,
       s_in_flight_close_request := None, s_pending_abort_request := None,
       s_write_requests := [], s_backpressure := False\<rparr>"

text \<open>A stream object with the default of every field, and a controller made for it.\<close>

definition ws_default :: "promises \<Rightarrow> ws" where
  "ws_default ps =
     \<lparr>ws_stream =
        \<lparr>s_backpressure = False, s_close_request = None, s_controller = False,
         s_in_flight_write_request = None, s_in_flight_close_request = None,
         s_pending_abort_request = None, s_state = WsWritable, s_stored_error = JUndefined,
         s_writer = None, s_write_requests = []\<rparr>,
      ws_controller =
        \<lparr>c_abort_algorithm = ANone, c_abort_reason = None, c_close_algorithm = ANone,
         c_queue = [], c_queue_total_size = f64_zero, c_started = False, c_strategy_hwm = f64_zero,
         c_strategy_size_algorithm = None, c_write_algorithm = ANone\<rparr>,
      ws_writers = (\<lambda>_. \<lparr>wr_closed_promise = 0, wr_ready_promise = 0, wr_stream = False\<rparr>),
      ws_next_writer = 0, ws_promises = ps, ws_reactions = []\<rparr>"

record algorithms =
  al_start :: algorithm
  al_write :: algorithm
  al_close :: algorithm
  al_abort :: algorithm

text \<open>\<open>Inl\<close> is the exception that the start algorithm threw.\<close>

definition set_up_default_controller ::
    "user_code \<Rightarrow> algorithms \<Rightarrow> f64 \<Rightarrow> nat option \<Rightarrow> ws \<Rightarrow> (ws \<times> (jsval + unit)) option" where
  "set_up_default_controller U al high_water_mark size_alg st =
     do {
       require (\<not> s_controller (ws_stream st));
       let st1 = on_stream (\<lambda>s. s\<lparr>s_controller := True\<rparr>) st;
       let st2 = on_controller (reset_queue writable_queue_ops) st1;
       let st3 = on_controller (\<lambda>c. c\<lparr>c_started := False, c_strategy_size_algorithm := size_alg,
                    c_strategy_hwm := high_water_mark, c_write_algorithm := al_write al,
                    c_close_algorithm := al_close al, c_abort_algorithm := al_abort al\<rparr>) st2;
       st4 \<leftarrow> update_backpressure (get_backpressure st3) st3;
       (st5, start_result) \<leftarrow> invoke_algorithm U (al_start al) (CallStart (al_start al)) st4;
       case start_result of
         Threw e \<Rightarrow> Some (st5, Inl e)
       | _ \<Rightarrow> Some (react RStart (if al_start al = ANone then Resolved else Unsettled) st5, Inr ())
     }"

definition create_writable_stream ::
    "user_code \<Rightarrow> algorithms \<Rightarrow> f64 \<Rightarrow> nat option \<Rightarrow> promises \<Rightarrow> (ws \<times> (jsval + unit)) option" where
  "create_writable_stream U al high_water_mark size_alg ps =
     do {
       require (is_non_negative_number high_water_mark);
       let st = ws_default ps;
       let st1 = on_stream initialize_writable_stream st;
       set_up_default_controller U al high_water_mark size_alg st1
     }"

text \<open>
  The constructor. The sink is missing, not an object, or an object, whose conversion to the
  dictionary may throw; a member of the dictionary that is present is a callable.
\<close>

record underlying_sink =
  us_start :: "nat option"
  us_write :: "nat option"
  us_close :: "nat option"
  us_abort :: "nat option"
  us_type :: bool

datatype sink_argument = SinkMissing | SinkNotObject | SinkObject "jsval + underlying_sink"

definition set_up_from_underlying_sink ::
    "user_code \<Rightarrow> underlying_sink \<Rightarrow> f64 \<Rightarrow> nat option \<Rightarrow> ws \<Rightarrow> (ws \<times> (jsval + unit)) option" where
  "set_up_from_underlying_sink U dict high_water_mark size_alg st =
     set_up_default_controller U
       \<lparr>al_start = from_member (us_start dict), al_write = from_member (us_write dict),
        al_close = from_member (us_close dict), al_abort = from_member (us_abort dict)\<rparr>
       high_water_mark size_alg st"

definition writable_stream_new ::
    "user_code \<Rightarrow> sink_argument \<Rightarrow> queuing_strategy option \<Rightarrow> promises \<Rightarrow>
       (ws \<times> (jsval + unit)) option" where
  "writable_stream_new U sink strategy ps =
     (let st = ws_default ps;
          dict = (case sink of
                    SinkMissing \<Rightarrow> Inr \<lparr>us_start = None, us_write = None, us_close = None,
                                        us_abort = None, us_type = False\<rparr>
                  | SinkNotObject \<Rightarrow> Inl (JTypeError
                      ''WritableStream constructor: underlyingSink must be an object'')
                  | SinkObject r \<Rightarrow> r)
      in case dict of
           Inl e \<Rightarrow> Some (st, Inl e)
         | Inr d \<Rightarrow>
             if us_type d then Some (st, Inl (JRangeError ''Invalid type is specified''))
             else (let st1 = on_stream initialize_writable_stream st;
                       size_alg = extract_size_algorithm strategy
                   in case extract_high_water_mark strategy (f64_of_int 1) of
                        Inl e \<Rightarrow> Some (st1, Inl e)
                      | Inr hwm \<Rightarrow> set_up_from_underlying_sink U d hwm size_alg st1))"

section \<open>The interface\<close>

datatype api_result = Thrown jsval | APromise pid | AWriter nat | AUndefined

definition stream_abort :: "user_code \<Rightarrow> jsval \<Rightarrow> ws \<Rightarrow> (ws \<times> api_result) option" where
  "stream_abort U reason st =
     (if is_writable_stream_locked st
      then Some (st, Thrown (JTypeError ''Cannot abort a stream that already has a writer''))
      else do { (st1, p) \<leftarrow> writable_stream_abort U reason st; Some (st1, APromise p) })"

definition stream_close :: "user_code \<Rightarrow> ws \<Rightarrow> (ws \<times> api_result) option" where
  "stream_close U st =
     (if is_writable_stream_locked st
      then Some (st, Thrown (JTypeError ''Cannot close a stream that already has a writer''))
      else if close_queued_or_in_flight st
      then Some (st, Thrown (JTypeError ''Cannot close an already-closing stream''))
      else do { (st1, p) \<leftarrow> writable_stream_close U st; Some (st1, APromise p) })"

definition stream_get_writer :: "ws \<Rightarrow> (ws \<times> api_result) option" where
  "stream_get_writer st =
     do {
       (st1, r) \<leftarrow> acquire_default_writer st;
       Some (st1, case r of Inl e \<Rightarrow> Thrown e | Inr i \<Rightarrow> AWriter i)
     }"

definition writer_abort :: "user_code \<Rightarrow> nat \<Rightarrow> jsval \<Rightarrow> ws \<Rightarrow> (ws \<times> api_result) option" where
  "writer_abort U i reason st =
     (if \<not> wr_stream (ws_writers st i)
      then Some (st, Thrown (JTypeError ''Cannot abort a stream using a released writer''))
      else do { (st1, p) \<leftarrow> default_writer_abort U i reason st; Some (st1, APromise p) })"

definition writer_close :: "user_code \<Rightarrow> nat \<Rightarrow> ws \<Rightarrow> (ws \<times> api_result) option" where
  "writer_close U i st =
     (if \<not> wr_stream (ws_writers st i)
      then Some (st, Thrown (JTypeError ''Cannot close a stream using a released writer''))
      else if close_queued_or_in_flight st
      then Some (st, Thrown (JTypeError ''Cannot close an already-closing stream''))
      else do { (st1, p) \<leftarrow> default_writer_close U i st; Some (st1, APromise p) })"

definition writer_release_lock :: "nat \<Rightarrow> ws \<Rightarrow> (ws \<times> api_result) option" where
  "writer_release_lock i st =
     (if \<not> wr_stream (ws_writers st i) then Some (st, AUndefined)
      else do { st1 \<leftarrow> default_writer_release i st; Some (st1, AUndefined) })"

definition writer_write :: "user_code \<Rightarrow> nat \<Rightarrow> jsval option \<Rightarrow> ws \<Rightarrow> (ws \<times> api_result) option" where
  "writer_write U i chunk st =
     (if \<not> wr_stream (ws_writers st i)
      then Some (st, Thrown (JTypeError ''Cannot write to a stream using a released writer''))
      else do {
        (st1, p) \<leftarrow> default_writer_write U i (case chunk of Some v \<Rightarrow> v | None \<Rightarrow> JUndefined) st;
        Some (st1, APromise p)
      })"

definition writer_desired_size :: "nat \<Rightarrow> ws \<Rightarrow> (jsval + f64 option) option" where
  "writer_desired_size i st =
     (if \<not> wr_stream (ws_writers st i)
      then Some (Inl (JTypeError
             ''Cannot read desiredSize of a writer that does not have an owner stream''))
      else map_option Inr (default_writer_get_desired_size i st))"

definition controller_error_method :: "user_code \<Rightarrow> jsval option \<Rightarrow> ws \<Rightarrow> (ws \<times> api_result) option" where
  "controller_error_method U e st =
     (if ws_state st \<noteq> WsWritable then Some (st, AUndefined)
      else do {
        st1 \<leftarrow> controller_error U (case e of Some v \<Rightarrow> v | None \<Rightarrow> JUndefined) st;
        Some (st1, AUndefined)
      })"

text \<open>
  The commands: the methods, the two entries other native code uses on a locked stream
  (piping), and a job of the engine. A writer that was never handed out cannot be named.
\<close>

datatype ws_cmd =
    StreamAbort jsval
  | StreamClose
  | GetWriter
  | WriterAbort nat jsval
  | WriterClose nat
  | WriterReleaseLock nat
  | WriterWrite nat "jsval option"
  | ControllerError "jsval option"
  | NativeAbort jsval
  | NativeCloseWithErrorPropagation nat
  | RunReaction nat "jsval option"

fun ws_exec :: "user_code \<Rightarrow> ws_cmd \<Rightarrow> ws \<Rightarrow> ws option" where
  "ws_exec U (StreamAbort v) st = map_option fst (stream_abort U v st)"
| "ws_exec U StreamClose st = map_option fst (stream_close U st)"
| "ws_exec U GetWriter st = map_option fst (stream_get_writer st)"
| "ws_exec U (WriterAbort i v) st = map_option fst (writer_abort U i v st)"
| "ws_exec U (WriterClose i) st = map_option fst (writer_close U i st)"
| "ws_exec U (WriterReleaseLock i) st = map_option fst (writer_release_lock i st)"
| "ws_exec U (WriterWrite i v) st = map_option fst (writer_write U i v st)"
| "ws_exec U (ControllerError v) st = map_option fst (controller_error_method U v st)"
| "ws_exec U (NativeAbort v) st = map_option fst (writable_stream_abort U v st)"
| "ws_exec U (NativeCloseWithErrorPropagation i) st =
     (if wr_stream (ws_writers st i)
      then map_option fst (default_writer_close_with_error_propagation U i st) else Some st)"
| "ws_exec U (RunReaction n outcome) st = run_reaction U n outcome st"

text \<open>
  What a call into JavaScript does at each depth that is left of the stack: the commands it
  issues and how it ends. With no depth left it throws.
\<close>

type_synonym script = "nat \<Rightarrow> user_call \<Rightarrow> ws \<Rightarrow> ws_cmd list \<times> user_result"

fun js_user :: "script \<Rightarrow> nat \<Rightarrow> user_code" where
  "js_user scr 0 call st = Some (st, Threw (JRangeError ''too much recursion''))"
| "js_user scr (Suc n) call st =
     (let (cmds, r) = scr n call st
      in do { st' \<leftarrow> run_all (ws_exec (js_user scr n)) cmds st; Some (st', js_result r) })"

end
