(* ===== verification/Writable_Inv.thy ===== *)
theory Writable_Inv
  imports Writable_Api
begin

text \<open>
  The invariant of a writable stream at every point where other code can run, also in the middle
  of an operation that has called out. A reaction that an operation is about to attach when the
  call it makes returns is a frame: the invariant is stated for a list of such frames.
\<close>

section \<open>The parts of the invariant\<close>

definition obl :: "reaction_kind list \<Rightarrow> ws \<Rightarrow> reaction_kind list" where
  "obl F st = F @ map fst (ws_reactions st)"

definition active :: "ws \<Rightarrow> bool" where
  "active st \<longleftrightarrow> ws_state st = WsWritable \<or> ws_state st = WsErroring"

text \<open>How many of the slots for the promises of requests, and of the writer, hold a promise.\<close>

definition req :: "reaction_kind list \<Rightarrow> ws \<Rightarrow> pid \<Rightarrow> nat" where
  "req F st p =
     count_list (s_write_requests (ws_stream st)) p +
     of_bool (s_in_flight_write_request (ws_stream st) = Some p) +
     of_bool (s_close_request (ws_stream st) = Some p) +
     of_bool (s_in_flight_close_request (ws_stream st) = Some p) +
     of_bool (map_option pa_promise (s_pending_abort_request (ws_stream st)) = Some p) +
     of_bool (RAbort p \<in> set (obl F st))"

definition wcnt :: "ws \<Rightarrow> pid \<Rightarrow> nat" where
  "wcnt st p =
     (case s_writer (ws_stream st) of
        None \<Rightarrow> 0
      | Some i \<Rightarrow>
          of_bool (wr_ready_promise (ws_writers st i) = p \<and> pr_state (ws_promises st) p = Pending) +
          of_bool (wr_closed_promise (ws_writers st i) = p \<and> pr_state (ws_promises st) p = Pending))"

text \<open>Every pending promise is in exactly one slot, and every slot of a request holds one.\<close>

definition pcnt :: "promises \<Rightarrow> pid \<Rightarrow> nat" where
  "pcnt ps p = of_bool (p < pr_next ps \<and> pr_state ps p = Pending)"

definition accounting :: "reaction_kind list \<Rightarrow> ws \<Rightarrow> bool" where
  "accounting F st \<longleftrightarrow>
     (\<forall>p. req F st p + wcnt st p = pcnt (ws_promises st) p)"

text \<open>What the \<open>ready\<close> and \<open>closed\<close> promises of the stream's writer are in each state.\<close>

definition writer_promises_ok :: "ws \<Rightarrow> nat \<Rightarrow> bool" where
  "writer_promises_ok st i \<longleftrightarrow>
     (let ready = wr_ready_promise (ws_writers st i); closed = wr_closed_promise (ws_writers st i);
          P = pr_state (ws_promises st); err = s_stored_error (ws_stream st)
      in ready < pr_next (ws_promises st) \<and> closed < pr_next (ws_promises st) \<and>
         (case ws_state st of
            WsWritable \<Rightarrow> P closed = Pending \<and>
              P ready = (if s_backpressure (ws_stream st) \<and> \<not> close_queued_or_in_flight st
                         then Pending else Fulfilled JUndefined)
          | WsErroring \<Rightarrow> P closed = Pending \<and> P ready = Rejected err
          | WsClosed \<Rightarrow> P closed = Fulfilled JUndefined \<and> P ready \<noteq> Pending
          | WsErrored \<Rightarrow> (P closed = Pending \<or> P closed = Rejected err) \<and> P ready = Rejected err))"

definition writer_ok :: "ws \<Rightarrow> bool" where
  "writer_ok st \<longleftrightarrow> (\<forall>i. s_writer (ws_stream st) = Some i \<longrightarrow> writer_promises_ok st i)"

text \<open>Writers: the one that is attached is the stream's.\<close>

definition locking_ok :: "ws \<Rightarrow> bool" where
  "locking_ok st \<longleftrightarrow>
     (\<forall>i. wr_stream (ws_writers st i) \<longleftrightarrow> s_writer (ws_stream st) = Some i) \<and>
     (\<forall>i. s_writer (ws_stream st) = Some i \<longrightarrow> i < ws_next_writer st)"

text \<open>The slots of the stream, the controller's queue and the reactions that are to come.\<close>

definition control_ok :: "reaction_kind list \<Rightarrow> ws \<Rightarrow> bool" where
  "control_ok F st \<longleftrightarrow>
     (let s = ws_stream st; c = ws_controller st; A = obl F st
      in s_controller s \<and> distinct A \<and>
         (RStart \<in> set A \<longleftrightarrow> \<not> c_started c) \<and>
         (RWrite \<in> set A \<longleftrightarrow> s_in_flight_write_request s \<noteq> None) \<and>
         (RClose \<in> set A \<longleftrightarrow> s_in_flight_close_request s \<noteq> None) \<and>
         (\<forall>p. RAbort p \<in> set A \<longrightarrow> s_state s = WsErrored) \<and>
         (s_in_flight_write_request s \<noteq> None \<longrightarrow>
            c_started c \<and> active st \<and> s_in_flight_close_request s = None \<and>
            (\<exists>v z q. c_queue c = Chunk v z # q)) \<and>
         (s_in_flight_close_request s \<noteq> None \<longrightarrow>
            c_started c \<and> active st \<and> s_close_request s = None \<and> s_write_requests s = [] \<and>
            c_queue c = []) \<and>
         (\<not> c_started c \<longrightarrow> active st) \<and>
         (s_state s = WsWritable \<longrightarrow> s_stored_error s = JUndefined) \<and>
         (\<not> active st \<longrightarrow>
            s_pending_abort_request s = None \<and> s_write_requests s = [] \<and> c_queue c = []) \<and>
         (s_state s = WsClosed \<longrightarrow> s_close_request s = None \<and> s_stored_error s = JUndefined) \<and>
         queue_ok (c_queue c) (c_queue_total_size c))"

definition wbase :: "reaction_kind list \<Rightarrow> ws \<Rightarrow> bool" where
  "wbase F st \<longleftrightarrow> control_ok F st \<and> locking_ok st \<and> accounting F st \<and> writer_ok st"

text \<open>While writable, the queue has one chunk for each write request and then the sentinel.\<close>

definition queue_shape :: "value_with_size list \<Rightarrow> bool \<Rightarrow> nat \<Rightarrow> bool" where
  "queue_shape q closing n \<longleftrightarrow>
     (\<exists>cs. list_all (\<lambda>x. x \<noteq> CloseSentinel) cs \<and> length cs = n \<and>
        q = cs @ (if closing then [CloseSentinel] else []))"

definition counts :: "ws \<Rightarrow> bool" where
  "counts st \<longleftrightarrow>
     (ws_state st = WsWritable \<longrightarrow>
        queue_shape (c_queue (ws_controller st)) (s_close_request (ws_stream st) \<noteq> None)
          (length (s_write_requests (ws_stream st)) +
           of_bool (s_in_flight_write_request (ws_stream st) \<noteq> None)))"

definition synced :: "ws \<Rightarrow> bool" where
  "synced st \<longleftrightarrow>
     (ws_state st = WsWritable \<and> \<not> close_queued_or_in_flight st \<longrightarrow>
        s_backpressure (ws_stream st) = get_backpressure st)"

text \<open>An errored stream's close request or closed promise is pending only while its abort is.\<close>

definition aborting :: "reaction_kind list \<Rightarrow> ws \<Rightarrow> bool" where
  "aborting F st \<longleftrightarrow>
     (ws_state st = WsErrored \<and>
        (s_close_request (ws_stream st) \<noteq> None \<or>
         (\<exists>i. s_writer (ws_stream st) = Some i \<and>
            pr_state (ws_promises st) (wr_closed_promise (ws_writers st i)) = Pending)) \<longrightarrow>
      (\<exists>p. RAbort p \<in> set (obl F st)))"

definition no_abort_yet :: "ws \<Rightarrow> bool" where
  "no_abort_yet st \<longleftrightarrow>
     (ws_state st = WsWritable \<longrightarrow> s_pending_abort_request (ws_stream st) = None)"

text \<open>An erroring stream, and one with chunks or a close queued, waits for something.\<close>

definition waiting :: "ws \<Rightarrow> bool" where
  "waiting st \<longleftrightarrow>
     (ws_state st = WsErroring \<longrightarrow>
        has_operation_marked_in_flight st \<or> \<not> c_started (ws_controller st)) \<and>
     (ws_state st = WsWritable \<and> c_queue (ws_controller st) \<noteq> [] \<longrightarrow>
        s_in_flight_write_request (ws_stream st) \<noteq> None \<or> \<not> c_started (ws_controller st))"

definition winv :: "reaction_kind list \<Rightarrow> ws \<Rightarrow> bool" where
  "winv F st \<longleftrightarrow>
     wbase F st \<and> counts st \<and> synced st \<and> aborting F st \<and> no_abort_yet st \<and> waiting st"

text \<open>What is never undone.\<close>

definition ws_mono :: "ws \<Rightarrow> ws \<Rightarrow> bool" where
  "ws_mono st st' \<longleftrightarrow>
     keeps_settled (ws_promises st) (ws_promises st') \<and>
     (ws_state st = WsClosed \<longrightarrow> ws_state st' = WsClosed) \<and>
     (ws_state st = WsErrored \<longrightarrow>
        ws_state st' = WsErrored \<and> s_stored_error (ws_stream st') = s_stored_error (ws_stream st)) \<and>
     (ws_state st = WsErroring \<longrightarrow> ws_state st' \<noteq> WsWritable) \<and>
     (c_started (ws_controller st) \<longrightarrow> c_started (ws_controller st')) \<and>
     (c_abort_reason (ws_controller st) \<noteq> None \<longrightarrow>
        c_abort_reason (ws_controller st') = c_abort_reason (ws_controller st)) \<and>
     ws_next_writer st \<le> ws_next_writer st'"

lemma ws_mono_refl [simp]: "ws_mono st st"
  by (simp add: ws_mono_def)

lemma ws_mono_trans:
  assumes "ws_mono a b" and "ws_mono b c"
  shows "ws_mono a c"
  unfolding ws_mono_def
proof (intro conjI impI)
  note x = assms(1) [unfolded ws_mono_def] and y = assms(2) [unfolded ws_mono_def]
  show "keeps_settled (ws_promises a) (ws_promises c)"
    using x y by (blast intro: keeps_settled_trans)
  show "ws_state c = WsClosed" if "ws_state a = WsClosed" using x y that by blast
  show "ws_state c = WsErrored" if "ws_state a = WsErrored" using x y that by blast
  show "s_stored_error (ws_stream c) = s_stored_error (ws_stream a)" if a: "ws_state a = WsErrored"
  proof -
    have "ws_state b = WsErrored" "s_stored_error (ws_stream b) = s_stored_error (ws_stream a)"
      using x a by blast+
    moreover from this(1) y have "s_stored_error (ws_stream c) = s_stored_error (ws_stream b)" by blast
    ultimately show ?thesis by (rule_tac trans)
  qed
  show "ws_state c \<noteq> WsWritable" if a: "ws_state a = WsErroring"
  proof (cases "ws_state b")
    case WsWritable with x a show ?thesis by blast
  next
    case WsClosed
    then have "ws_state c = WsClosed" using y by blast
    then show ?thesis by simp
  next
    case WsErroring with y show ?thesis by blast
  next
    case WsErrored
    then have "ws_state c = WsErrored" using y by blast
    then show ?thesis by simp
  qed
  show "c_started (ws_controller c)" if "c_started (ws_controller a)" using x y that by blast
  show "c_abort_reason (ws_controller c) = c_abort_reason (ws_controller a)"
    if a: "c_abort_reason (ws_controller a) \<noteq> None"
  proof -
    have ab: "c_abort_reason (ws_controller b) = c_abort_reason (ws_controller a)" using x a by blast
    with a have "c_abort_reason (ws_controller b) \<noteq> None" by (rule_tac ssubst)
    with y have "c_abort_reason (ws_controller c) = c_abort_reason (ws_controller b)" by blast
    from trans [OF this ab] show ?thesis .
  qed
  show "ws_next_writer a \<le> ws_next_writer c" using x y order_trans by blast
qed

lemma ws_mono_erroring: "ws_mono st st' \<Longrightarrow> ws_state st = WsErroring \<Longrightarrow> ws_state st' \<noteq> WsWritable"
  by (simp add: ws_mono_def)

text \<open>Composing a step with a run that keeps the invariant.\<close>

lemma wp_then:
  "wp m (\<lambda>st'. winv F st' \<and> ws_mono st1 st') \<Longrightarrow> ws_mono st st1 \<Longrightarrow>
     wp m (\<lambda>st'. winv F st' \<and> ws_mono st st')"
  by (erule wp_mono) (blast intro: ws_mono_trans)

lemmas closing_defs = close_queued_or_in_flight_def has_operation_marked_in_flight_def
lemmas control_defs = control_ok_def obl_def active_def Let_def closing_defs
lemmas rest = counts_def synced_def aborting_def no_abort_yet_def waiting_def
lemmas writer_defs = writer_promises_ok_def Let_def closing_defs

lemma writer_okI:
  "(\<And>i. s_writer (ws_stream st) = Some i \<Longrightarrow> writer_promises_ok st i) \<Longrightarrow> writer_ok st"
  by (simp add: writer_ok_def)

lemma writer_okD: "writer_ok st \<Longrightarrow> s_writer (ws_stream st) = Some i \<Longrightarrow> writer_promises_ok st i"
  by (simp add: writer_ok_def)

lemma wbaseD:
  "wbase F st \<Longrightarrow> control_ok F st" "wbase F st \<Longrightarrow> locking_ok st"
  "wbase F st \<Longrightarrow> accounting F st" "wbase F st \<Longrightarrow> writer_ok st"
  by (simp_all add: wbase_def)

lemma wbaseI:
  "control_ok F st \<Longrightarrow> locking_ok st \<Longrightarrow> accounting F st \<Longrightarrow> writer_ok st \<Longrightarrow> wbase F st"
  by (simp add: wbase_def)

lemma controlD:
  assumes "control_ok F st"
  shows "s_controller (ws_stream st)" and "distinct (obl F st)"
    and "RStart \<in> set (obl F st) \<longleftrightarrow> \<not> c_started (ws_controller st)"
    and "RWrite \<in> set (obl F st) \<longleftrightarrow> s_in_flight_write_request (ws_stream st) \<noteq> None"
    and "RClose \<in> set (obl F st) \<longleftrightarrow> s_in_flight_close_request (ws_stream st) \<noteq> None"
    and "RAbort p \<in> set (obl F st) \<Longrightarrow> ws_state st = WsErrored"
    and "s_in_flight_write_request (ws_stream st) \<noteq> None \<Longrightarrow>
      c_started (ws_controller st) \<and> active st \<and> s_in_flight_close_request (ws_stream st) = None \<and>
      (\<exists>v z q. c_queue (ws_controller st) = Chunk v z # q)"
    and "s_in_flight_close_request (ws_stream st) \<noteq> None \<Longrightarrow>
      c_started (ws_controller st) \<and> active st \<and> s_close_request (ws_stream st) = None \<and>
      s_write_requests (ws_stream st) = [] \<and> c_queue (ws_controller st) = []"
    and "\<not> c_started (ws_controller st) \<Longrightarrow> active st"
    and "ws_state st = WsWritable \<Longrightarrow> s_stored_error (ws_stream st) = JUndefined"
    and "\<not> active st \<Longrightarrow> s_pending_abort_request (ws_stream st) = None \<and>
      s_write_requests (ws_stream st) = [] \<and> c_queue (ws_controller st) = []"
    and "ws_state st = WsClosed \<Longrightarrow>
      s_close_request (ws_stream st) = None \<and> s_stored_error (ws_stream st) = JUndefined"
    and "queue_ok (c_queue (ws_controller st)) (c_queue_total_size (ws_controller st))"
  using assms by (simp_all only: control_ok_def Let_def simp_thms)

section \<open>Promises\<close>

lemma pcnt_pos: "0 < pcnt ps p \<Longrightarrow> p < pr_next ps \<and> pr_state ps p = Pending"
  by (simp add: pcnt_def split: if_splits)

lemma pcnt_le: "pcnt ps p \<le> 1"
  by (simp add: pcnt_def)

lemma pcnt_settled: "pr_state ps p \<noteq> Pending \<Longrightarrow> pcnt ps p = 0"
  by (simp add: pcnt_def)

lemma pcnt_cong:
  "pr_next ps' = pr_next ps \<Longrightarrow> pr_state ps' p = pr_state ps p \<Longrightarrow> pcnt ps' p = pcnt ps p"
  by (simp add: pcnt_def)

lemma accountingD: "accounting F st \<Longrightarrow> req F st p + wcnt st p = pcnt (ws_promises st) p"
  by (simp add: accounting_def)

lemma accountingI: "(\<And>p. req F st p + wcnt st p = pcnt (ws_promises st) p) \<Longrightarrow> accounting F st"
  by (simp add: accounting_def)

lemma req_pending:
  assumes "accounting F st" and "0 < req F st p"
  shows "p < pr_next (ws_promises st) \<and> pr_state (ws_promises st) p = Pending \<and> wcnt st p = 0 \<and>
     req F st p = 1"
proof -
  note eq = accountingD [OF assms(1), of p]
  have "0 < pcnt (ws_promises st) p" using eq assms(2) by simp
  moreover have "req F st p + wcnt st p \<le> 1" using eq pcnt_le by simp
  ultimately show ?thesis using pcnt_pos assms(2) by auto
qed

lemma wp_mark_handled [simp]:
  "wp (mark_handled p st) Q \<longleftrightarrow>
     pr_state (ws_promises st) p \<noteq> Pending \<and>
     Q (st\<lparr>ws_promises := (ws_promises st)\<lparr>pr_handled := (pr_handled (ws_promises st))(p := True)\<rparr>\<rparr>)"
  by (simp add: mark_handled_def set_settled_is_handled_def)

lemma accounting_same:
  assumes "accounting F st" and "\<And>q. req F' st' q = req F st q"
    and "pr_state (ws_promises st') = pr_state (ws_promises st)"
    and "pr_next (ws_promises st') = pr_next (ws_promises st)"
    and "s_writer (ws_stream st') = s_writer (ws_stream st)" "ws_writers st' = ws_writers st"
  shows "accounting F' st'"
  using assms(1) by (simp only: accounting_def wcnt_def pcnt_def assms(2-) simp_thms)

lemma writer_ok_same:
  assumes "writer_ok st" and "ws_state st' = ws_state st"
    and "s_stored_error (ws_stream st') = s_stored_error (ws_stream st)"
    and "s_backpressure (ws_stream st') = s_backpressure (ws_stream st)"
    and "close_queued_or_in_flight st' = close_queued_or_in_flight st"
    and "pr_state (ws_promises st') = pr_state (ws_promises st)"
    and "pr_next (ws_promises st') = pr_next (ws_promises st)"
    and "s_writer (ws_stream st') = s_writer (ws_stream st)" "ws_writers st' = ws_writers st"
  shows "writer_ok st'"
  using assms(1) by (simp only: writer_ok_def writer_promises_ok_def assms(2-))

text \<open>Settling the promise of a request whose slot is emptied.\<close>

lemma accounting_settle_request:
  assumes acc: "accounting F st"
    and r: "\<And>q. req F st q = req F' st' q + of_bool (q = p)"
    and ps: "pr_state (ws_promises st') = (pr_state (ws_promises st))(p := x)" "x \<noteq> Pending"
      "pr_next (ws_promises st') = pr_next (ws_promises st)"
    and w: "s_writer (ws_stream st') = s_writer (ws_stream st)" "ws_writers st' = ws_writers st"
  shows "accounting F' st'"
proof (rule accountingI)
  fix q
  have "0 < req F st p" using r [of p] by simp
  note p = req_pending [OF acc this]
  show "req F' st' q + wcnt st' q = pcnt (ws_promises st') q"
  proof (cases "q = p")
    case True
    with r [of p] p ps show ?thesis by (simp add: wcnt_def pcnt_settled split: option.split)
  next
    case False
    then have "wcnt st' q = wcnt st q" by (simp add: wcnt_def w ps split: option.split)
    moreover have "pcnt (ws_promises st') q = pcnt (ws_promises st) q"
      by (rule pcnt_cong) (use False ps in auto)
    ultimately show ?thesis using False r [of q] accountingD [OF acc, of q] by simp
  qed
qed

lemma request_not_writer:
  assumes "accounting F st" and "0 < req F st p" and "s_writer (ws_stream st) = Some i"
  shows "wr_ready_promise (ws_writers st i) \<noteq> p \<and> wr_closed_promise (ws_writers st i) \<noteq> p"
  using req_pending [OF assms(1,2)] assms(3) by (auto simp: wcnt_def)

text \<open>Settling a promise of the writer.\<close>

lemma accounting_settle_writer:
  assumes acc: "accounting F st"
    and r: "\<And>q. req F' st' q = req F st q"
    and i: "s_writer (ws_stream st) = Some i"
    and p: "p = wr_ready_promise (ws_writers st i) \<or> p = wr_closed_promise (ws_writers st i)"
    and ps: "pr_state (ws_promises st') =
        (if pr_state (ws_promises st) p = Pending then (pr_state (ws_promises st))(p := x)
         else pr_state (ws_promises st))" "x \<noteq> Pending"
      "pr_next (ws_promises st') = pr_next (ws_promises st)"
    and w: "s_writer (ws_stream st') = s_writer (ws_stream st)" "ws_writers st' = ws_writers st"
  shows "accounting F' st'"
proof (rule accountingI)
  fix q
  show "req F' st' q + wcnt st' q = pcnt (ws_promises st') q"
  proof (cases "q = p \<and> pr_state (ws_promises st) p = Pending")
    case True
    then have "0 < wcnt st p" using p i by (auto simp: wcnt_def)
    moreover have "req F st p + wcnt st p \<le> 1" using accountingD [OF acc] pcnt_le by metis
    ultimately have "req F st p = 0" by simp
    with True ps show ?thesis by (simp add: wcnt_def r pcnt_settled split: option.split)
  next
    case False
    then have st: "pr_state (ws_promises st') q = pr_state (ws_promises st) q" by (auto simp: ps)
    have "wcnt st' q = wcnt st q" by (simp add: wcnt_def w st split: option.split)
    moreover have "pcnt (ws_promises st') q = pcnt (ws_promises st) q"
      by (rule pcnt_cong) (use st ps in auto)
    ultimately show ?thesis using accountingD [OF acc, of q] r by simp
  qed
qed

lemma ready_not_closed:
  assumes "accounting F st" and "s_writer (ws_stream st) = Some i"
    and "pr_state (ws_promises st) (wr_closed_promise (ws_writers st i)) = Pending"
  shows "wr_ready_promise (ws_writers st i) \<noteq> wr_closed_promise (ws_writers st i)"
proof
  assume eq: "wr_ready_promise (ws_writers st i) = wr_closed_promise (ws_writers st i)"
  have "req F st (wr_closed_promise (ws_writers st i)) + wcnt st (wr_closed_promise (ws_writers st i)) \<le> 1"
    using accountingD [OF assms(1)] pcnt_le by metis
  with assms(2,3) eq show False by (simp add: wcnt_def)
qed

section \<open>Erroring\<close>

lemma close_request_pending:
  "accounting F st \<Longrightarrow> s_close_request (ws_stream st) = Some p \<Longrightarrow>
     p < pr_next (ws_promises st) \<and> pr_state (ws_promises st) p = Pending"
  using req_pending [of F st p] by (simp add: req_def)

text \<open>Emptying the slot of the close request of an errored stream.\<close>

definition drop_close_request :: "ws \<Rightarrow> ws" where
  "drop_close_request st =
     (case s_close_request (ws_stream st) of
        None \<Rightarrow> st
      | Some p \<Rightarrow> on_promises (reject_promise p (s_stored_error (ws_stream st)))
                  (on_stream (\<lambda>s. s\<lparr>s_close_request := None\<rparr>) st))"

lemma drop_close_request_ok:
  assumes base: "wbase F st" and E: "ws_state st = WsErrored"
  shows "wbase F (drop_close_request st)" and "ws_mono st (drop_close_request st)"
    and "ws_state (drop_close_request st) = WsErrored"
    and "s_close_request (ws_stream (drop_close_request st)) = None"
    and "s_stored_error (ws_stream (drop_close_request st)) = s_stored_error (ws_stream st)"
proof -
  let ?st = "drop_close_request st"
  have "wbase F ?st \<and> ws_mono st ?st \<and> ws_state ?st = WsErrored \<and>
      s_close_request (ws_stream ?st) = None \<and>
      s_stored_error (ws_stream ?st) = s_stored_error (ws_stream st)"
  proof (cases "s_close_request (ws_stream st)")
    case None
    with base E show ?thesis by (simp add: drop_close_request_def)
  next
    case (Some p)
    have st: "?st = on_promises (reject_promise p (s_stored_error (ws_stream st)))
        (on_stream (\<lambda>s. s\<lparr>s_close_request := None\<rparr>) st)"
      by (simp add: drop_close_request_def Some)
    have p: "pr_state (ws_promises st) p = Pending" "0 < req F st p"
      using close_request_pending [OF wbaseD(3) [OF base] Some] Some by (simp_all add: req_def)
    have "control_ok F ?st" using wbaseD(1) [OF base] E by (auto simp: st control_defs)
    moreover have "locking_ok ?st" using wbaseD(2) [OF base] by (simp add: st locking_ok_def)
    moreover have "accounting F ?st"
      by (rule accounting_settle_request [OF wbaseD(3) [OF base], where p = p])
        (use p Some in \<open>auto simp: st req_def obl_def\<close>)
    moreover have "writer_ok ?st"
    proof (rule writer_okI)
      fix i assume i: "s_writer (ws_stream ?st) = Some i"
      then have i: "s_writer (ws_stream st) = Some i" by (simp add: st)
      from request_not_writer [OF wbaseD(3) [OF base] p(2) i] writer_okD [OF wbaseD(4) [OF base] i] E
      show "writer_promises_ok ?st i" by (auto simp: st writer_defs)
    qed
    moreover have "ws_mono st ?st" by (simp add: st ws_mono_def E)
    ultimately show ?thesis using E by (simp add: wbase_def st)
  qed
  then show "wbase F ?st" and "ws_mono st ?st" and "ws_state ?st = WsErrored"
    and "s_close_request (ws_stream ?st) = None"
    and "s_stored_error (ws_stream ?st) = s_stored_error (ws_stream st)" by blast+
qed

lemma errored_quiet:
  assumes "wbase F st" and "ws_state st = WsErrored"
  shows "s_in_flight_write_request (ws_stream st) = None"
    and "s_in_flight_close_request (ws_stream st) = None"
    and "s_pending_abort_request (ws_stream st) = None" and "s_write_requests (ws_stream st) = []"
    and "c_started (ws_controller st)"
  using wbaseD(1) [OF assms(1)] assms(2) by (auto simp: control_defs)

lemma reject_close_and_closed_ok:
  assumes base: "wbase F st" and E: "ws_state st = WsErrored"
  shows "wp (reject_close_and_closed_promise_if_needed st) (\<lambda>st'. winv F st' \<and> ws_mono st st')"
proof -
  let ?d = "drop_close_request st"
  note d = drop_close_request_ok [OF base E]
  have eq: "reject_close_and_closed_promise_if_needed st =
      (case s_writer (ws_stream ?d) of
         None \<Rightarrow> Some ?d
       | Some i \<Rightarrow>
           (let closed = wr_closed_promise (ws_writers ?d i)
            in mark_handled closed (on_promises (reject_promise closed (s_stored_error (ws_stream st))) ?d)))"
    using E errored_quiet(2) [OF base E]
    by (simp add: reject_close_and_closed_promise_if_needed_def drop_close_request_def require_def Let_def
        split: option.split)
  show ?thesis
  proof (cases "s_writer (ws_stream ?d)")
    case None
    with d show ?thesis by (simp add: eq winv_def rest)
  next
    case (Some i)
    define c where "c = wr_closed_promise (ws_writers ?d i)"
    define ps where "ps = reject_promise c (s_stored_error (ws_stream st)) (ws_promises ?d)"
    let ?st = "?d\<lparr>ws_promises := ps\<lparr>pr_handled := (pr_handled ps)(c := True)\<rparr>\<rparr>"
    have wi: "writer_promises_ok ?d i" using writer_okD [OF wbaseD(4) [OF d(1)] Some] .
    have c: "pr_state ps c = Rejected (s_stored_error (ws_stream st))"
      using wi d(3,5) by (auto simp: ps_def c_def writer_defs)
    have "control_ok F ?st" using wbaseD(1) [OF d(1)] by (simp add: control_defs)
    moreover have "locking_ok ?st" using wbaseD(2) [OF d(1)] by (simp add: locking_ok_def)
    moreover have "accounting F ?st"
      by (rule accounting_settle_writer [OF wbaseD(3) [OF d(1)] _ Some,
            where p = c and x = "Rejected (s_stored_error (ws_stream st))"])
        (auto simp: req_def obl_def c_def ps_def settle_def)
    moreover have "writer_ok ?st"
      using wi c d(3,5) Some
      by (auto simp: writer_ok_def writer_defs ps_def c_def)
    moreover have "ws_mono st ?st"
      by (rule ws_mono_trans [OF d(2)]) (simp add: ws_mono_def d(3) ps_def keeps_settled_def)
    ultimately have "winv F ?st \<and> ws_mono st ?st"
      using d(3,4) c Some by (auto simp: winv_def wbase_def rest c_def)
    with c show ?thesis
      by (simp add: eq Some Let_def c_def ps_def)
  qed
qed

text \<open>The promise of an abort that a frame or a reaction holds is settled.\<close>

lemma settle_abort_frame:
  assumes base: "wbase (RAbort p # F) st" and x: "x \<noteq> Pending"
  shows "wbase F (on_promises (settle p x) st)" and "ws_mono st (on_promises (settle p x) st)"
    and "ws_state st = WsErrored"
proof -
  let ?st = "on_promises (settle p x) st"
  show E: "ws_state st = WsErrored"
    by (rule controlD(6) [OF wbaseD(1) [OF base], of p]) (simp add: obl_def)
  have notin: "RAbort p \<notin> set (obl F st)"
    using controlD(2) [OF wbaseD(1) [OF base]] by (auto simp: obl_def)
  have r: "0 < req (RAbort p # F) st p" by (simp add: req_def obl_def)
  note p = req_pending [OF wbaseD(3) [OF base] r]
  have "control_ok F ?st" using wbaseD(1) [OF base] E by (auto simp: control_defs)
  moreover have "locking_ok ?st" using wbaseD(2) [OF base] by (simp add: locking_ok_def)
  moreover have "accounting F ?st"
    by (rule accounting_settle_request [OF wbaseD(3) [OF base], where p = p and x = x])
      (use p x notin in \<open>auto simp: req_def obl_def settle_def\<close>)
  moreover have "writer_ok ?st"
  proof (rule writer_okI)
    fix i assume "s_writer (ws_stream ?st) = Some i"
    then have i: "s_writer (ws_stream st) = Some i" by simp
    from request_not_writer [OF wbaseD(3) [OF base] r i] writer_okD [OF wbaseD(4) [OF base] i] E
    show "writer_promises_ok ?st i" by (auto simp: writer_defs)
  qed
  ultimately show "wbase F ?st" by (rule wbaseI)
  show "ws_mono st ?st" by (simp add: ws_mono_def)
qed

lemma reject_all_simps [simp]:
  "pr_next (reject_all rs e ps) = pr_next ps"
  "pr_state (reject_all rs e ps) p =
     (if p \<in> set rs \<and> pr_state ps p = Pending then Rejected e else pr_state ps p)"
  by (induction rs arbitrary: ps) auto

lemma keeps_settled_reject_all [simp]: "keeps_settled ps (reject_all rs e ps)"
  by (simp add: keeps_settled_def)

text \<open>Steps 3 to 10 of finishing to error: the queue and the requests are drained.\<close>

definition drained :: "ws \<Rightarrow> ws" where
  "drained st =
     on_stream (\<lambda>s. s\<lparr>s_write_requests := [], s_pending_abort_request := None\<rparr>)
       (on_promises (reject_all (s_write_requests (ws_stream st)) (s_stored_error (ws_stream st)))
          (error_steps (on_stream (\<lambda>s. s\<lparr>s_state := WsErrored\<rparr>) st)))"

definition abort_frames :: "ws \<Rightarrow> reaction_kind list" where
  "abort_frames st =
     (case s_pending_abort_request (ws_stream st) of None \<Rightarrow> [] | Some a \<Rightarrow> [RAbort (pa_promise a)])"

lemma drained_simps [simp]:
  "ws_state (drained st) = WsErrored" "s_write_requests (ws_stream (drained st)) = []"
  "s_pending_abort_request (ws_stream (drained st)) = None"
  "s_stored_error (ws_stream (drained st)) = s_stored_error (ws_stream st)"
  "s_writer (ws_stream (drained st)) = s_writer (ws_stream st)"
  "s_close_request (ws_stream (drained st)) = s_close_request (ws_stream st)"
  "s_controller (ws_stream (drained st)) = s_controller (ws_stream st)"
  "s_in_flight_write_request (ws_stream (drained st)) = s_in_flight_write_request (ws_stream st)"
  "s_in_flight_close_request (ws_stream (drained st)) = s_in_flight_close_request (ws_stream st)"
  "c_queue (ws_controller (drained st)) = []"
  "c_queue_total_size (ws_controller (drained st)) = f64_zero"
  "c_started (ws_controller (drained st)) = c_started (ws_controller st)"
  "c_abort_reason (ws_controller (drained st)) = c_abort_reason (ws_controller st)"
  "ws_writers (drained st) = ws_writers st" "ws_next_writer (drained st) = ws_next_writer st"
  "ws_reactions (drained st) = ws_reactions st"
  "ws_promises (drained st) =
     reject_all (s_write_requests (ws_stream st)) (s_stored_error (ws_stream st)) (ws_promises st)"
  by (simp_all add: drained_def error_steps_def reset_queue_def writable_queue_ops_def)

lemma count_list_pos: "0 < count_list xs x \<longleftrightarrow> x \<in> set xs"
  by (metis count_list_0_iff neq0_conv)

lemma drained_ok:
  assumes base: "wbase F st" and E: "ws_state st = WsErroring"
    and idle: "\<not> has_operation_marked_in_flight st" and st: "c_started (ws_controller st)"
  shows "wbase (abort_frames st @ F) (drained st)" and "ws_mono st (drained st)"
proof -
  let ?st = "drained st" and ?F = "abort_frames st @ F"
  note acc = wbaseD(3) [OF base]
  have noabort: "RAbort p \<notin> set (obl F st)" for p
    using controlD(6) [OF wbaseD(1) [OF base], of p] E by auto
  have "control_ok ?F ?st"
    using wbaseD(1) [OF base] E idle st noabort
    by (cases "s_pending_abort_request (ws_stream st)")
      (auto simp: control_defs abort_frames_def queue_ok_def)
  moreover have "locking_ok ?st" using wbaseD(2) [OF base] by (simp add: locking_ok_def)
  moreover have "accounting ?F ?st"
  proof (rule accountingI)
    fix q
    note a = accountingD [OF acc, of q]
    show "req ?F ?st q + wcnt ?st q = pcnt (ws_promises ?st) q"
    proof (cases "q \<in> set (s_write_requests (ws_stream st))")
      case True
      then have c: "0 < count_list (s_write_requests (ws_stream st)) q" by (simp add: count_list_pos)
      then have r: "0 < req F st q" by (simp add: req_def)
      note q = req_pending [OF acc r]
      from q c noabort have "req ?F ?st q = 0"
        by (cases "s_pending_abort_request (ws_stream st)")
          (auto simp: req_def obl_def abort_frames_def)
      moreover have "wcnt ?st q = 0" "pcnt (ws_promises ?st) q = 0"
        using q True by (simp_all add: wcnt_def pcnt_def split: option.split)
      ultimately show ?thesis by simp
    next
      case False
      have "req ?F ?st q = req F st q"
        using False noabort
        by (auto simp: req_def obl_def abort_frames_def split: option.split)
      moreover have "wcnt ?st q = wcnt st q" "pcnt (ws_promises ?st) q = pcnt (ws_promises st) q"
        using False by (simp_all add: wcnt_def pcnt_def split: option.split)
      ultimately show ?thesis using a by simp
    qed
  qed
  moreover have "writer_ok ?st"
  proof (rule writer_okI)
    fix i assume "s_writer (ws_stream ?st) = Some i"
    then have i: "s_writer (ws_stream st) = Some i" by simp
    have "p \<in> set (s_write_requests (ws_stream st)) \<Longrightarrow> 0 < req F st p" for p
      by (simp add: req_def count_list_pos)
    with request_not_writer [OF acc _ i] writer_okD [OF wbaseD(4) [OF base] i] E
    show "writer_promises_ok ?st i" by (auto simp: writer_defs)
  qed
  ultimately show "wbase ?F ?st" by (rule wbaseI)
  show "ws_mono st ?st" using E by (simp add: ws_mono_def)
qed

section \<open>What the invariant does not read\<close>

text \<open>The order of frames and reactions does not matter.\<close>

lemma winv_cong:
  assumes "set (obl F' st') = set (obl F st)" and "distinct (obl F' st') = distinct (obl F st)"
    and "ws_stream st' = ws_stream st"
    and "c_queue (ws_controller st') = c_queue (ws_controller st)"
    and "c_queue_total_size (ws_controller st') = c_queue_total_size (ws_controller st)"
    and "c_started (ws_controller st') = c_started (ws_controller st)"
    and "c_strategy_hwm (ws_controller st') = c_strategy_hwm (ws_controller st)"
    and "ws_writers st' = ws_writers st" "ws_next_writer st' = ws_next_writer st"
    and "pr_state (ws_promises st') = pr_state (ws_promises st)"
    and "pr_next (ws_promises st') = pr_next (ws_promises st)"
  shows "wbase F' st' = wbase F st" and "counts st' = counts st" and "synced st' = synced st"
    and "aborting F' st' = aborting F st" and "no_abort_yet st' = no_abort_yet st"
    and "waiting st' = waiting st" and "winv F' st' = winv F st"
  by (simp_all only: winv_def wbase_def control_ok_def Let_def active_def locking_ok_def pcnt_def
      accounting_def req_def wcnt_def writer_ok_def writer_promises_ok_def closing_defs rest
      get_backpressure_def get_desired_size_def assms)

lemma winv_react: "winv (k # F) st \<Longrightarrow> winv F (react k p st)"
proof -
  assume w: "winv (k # F) st"
  have "winv F (react k p st) = winv (k # F) st"
    by (rule winv_cong) (auto simp: obl_def react_def)
  with w show ?thesis by simp
qed

lemma ws_mono_react [simp]: "ws_mono st (react k p st') = ws_mono st st'"
  by (simp add: ws_mono_def react_def)

lemma clear_algorithms_simps [simp]:
  "ws_stream (clear_algorithms st) = ws_stream st" "ws_promises (clear_algorithms st) = ws_promises st"
  "ws_writers (clear_algorithms st) = ws_writers st"
  "ws_next_writer (clear_algorithms st) = ws_next_writer st"
  "ws_reactions (clear_algorithms st) = ws_reactions st"
  "c_queue (ws_controller (clear_algorithms st)) = c_queue (ws_controller st)"
  "c_queue_total_size (ws_controller (clear_algorithms st)) = c_queue_total_size (ws_controller st)"
  "c_started (ws_controller (clear_algorithms st)) = c_started (ws_controller st)"
  "c_strategy_hwm (ws_controller (clear_algorithms st)) = c_strategy_hwm (ws_controller st)"
  "c_abort_reason (ws_controller (clear_algorithms st)) = c_abort_reason (ws_controller st)"
  by (simp_all add: clear_algorithms_def)

lemma clear_algorithms_ok [simp]:
  "winv F (clear_algorithms st) = winv F st" "wbase F (clear_algorithms st) = wbase F st"
  "counts (clear_algorithms st) = counts st" "synced (clear_algorithms st) = synced st"
  by (rule winv_cong; simp add: obl_def)+

lemma ws_mono_clear [simp]: "ws_mono st (clear_algorithms st') = ws_mono st st'"
  "ws_mono (clear_algorithms st) st' = ws_mono st st'"
  by (simp_all add: ws_mono_def)

text \<open>The invariant in the states other than writable.\<close>

lemma winv_errored:
  "wbase F st \<Longrightarrow> ws_state st = WsErrored \<Longrightarrow> RAbort p \<in> set (obl F st) \<Longrightarrow> winv F st"
  unfolding winv_def counts_def synced_def aborting_def no_abort_yet_def waiting_def by auto

lemma winv_erroring:
  "wbase F st \<Longrightarrow> ws_state st = WsErroring \<Longrightarrow>
     has_operation_marked_in_flight st \<or> \<not> c_started (ws_controller st) \<Longrightarrow> winv F st"
  unfolding winv_def counts_def synced_def aborting_def no_abort_yet_def waiting_def by simp

lemma winv_closed: "wbase F st \<Longrightarrow> ws_state st = WsClosed \<Longrightarrow> winv F st"
  unfolding winv_def counts_def synced_def aborting_def no_abort_yet_def waiting_def by simp

lemma winv_writable:
  "wbase F st \<Longrightarrow> counts st \<Longrightarrow> synced st \<Longrightarrow> ws_state st = WsWritable \<Longrightarrow>
     s_pending_abort_request (ws_stream st) = None \<Longrightarrow>
     c_queue (ws_controller st) = [] \<or> s_in_flight_write_request (ws_stream st) \<noteq> None \<Longrightarrow> winv F st"
  unfolding winv_def aborting_def no_abort_yet_def waiting_def by auto

lemma winvD:
  "winv F st \<Longrightarrow> wbase F st" "winv F st \<Longrightarrow> counts st" "winv F st \<Longrightarrow> synced st"
  "winv F st \<Longrightarrow> aborting F st" "winv F st \<Longrightarrow> no_abort_yet st" "winv F st \<Longrightarrow> waiting st"
  by (simp_all add: winv_def)

end
