(* ===== verification/Writable_Ops.thy ===== *)
theory Writable_Ops
  imports Writable_Inv
begin

text \<open>
  The contracts of the operations of a writable stream: none of them panics under the invariant,
  and each keeps it, when the user code they call does.
\<close>

section \<open>The writer's promises\<close>

lemma on_writer_simps [simp]:
  "ws_stream (on_writer i f st) = ws_stream st" "ws_controller (on_writer i f st) = ws_controller st"
  "ws_promises (on_writer i f st) = ws_promises st"
  "ws_next_writer (on_writer i f st) = ws_next_writer st"
  "ws_reactions (on_writer i f st) = ws_reactions st"
  "ws_writers (on_writer i f st) j = (if j = i then f (ws_writers st i) else ws_writers st j)"
  by (simp_all add: on_writer_def)

lemma on_writer_same: "f (ws_writers st i) = ws_writers st i \<Longrightarrow> on_writer i f st = st"
  by (simp add: on_writer_def fun_upd_idem)

lemma new_promise_simps [simp]:
  "new_promise new_pending st =
     (st\<lparr>ws_promises := fst (new_pending (ws_promises st))\<rparr>, pr_next (ws_promises st))"
  by (simp add: new_promise_def new_pending_def)

text \<open>The state after a promise has been created settled, and its id.\<close>

definition created :: "pstate \<Rightarrow> ws \<Rightarrow> ws" where
  "created x st = on_promises (settle (pr_next (ws_promises st)) x \<circ> fst \<circ> new_pending) st"

lemma new_settled_promise [simp]:
  "new_promise (new_resolved_with_value v) st = (created (Fulfilled v) st, pr_next (ws_promises st))"
  "new_promise (new_rejected_with_error v) st = (created (Rejected v) st, pr_next (ws_promises st))"
  by (simp_all add: new_promise_def new_resolved_with_value_def new_rejected_with_error_def
      created_def new_pending_def)

lemma created_simps [simp]:
  "ws_stream (created x st) = ws_stream st" "ws_controller (created x st) = ws_controller st"
  "ws_writers (created x st) = ws_writers st" "ws_next_writer (created x st) = ws_next_writer st"
  "ws_reactions (created x st) = ws_reactions st"
  "pr_next (ws_promises (created x st)) = Suc (pr_next (ws_promises st))"
  "pr_state (ws_promises (created x st)) =
     (pr_state (ws_promises st))(pr_next (ws_promises st) := x)"
  by (auto simp: created_def)

lemma keeps_settled_created [simp]: "keeps_settled (ws_promises st) (ws_promises (created x st))"
  by (auto simp: keeps_settled_def)

lemma keeps_settled_new_pending [simp]: "keeps_settled ps (fst (new_pending ps))"
  by (auto simp: keeps_settled_def)

text \<open>A promise that is created settled changes no account, and is nobody's.\<close>

lemma req_fresh:
  assumes "accounting F st"
  shows "req F st (pr_next (ws_promises st)) = 0" and "wcnt st (pr_next (ws_promises st)) = 0"
proof -
  have "req F st (pr_next (ws_promises st)) + wcnt st (pr_next (ws_promises st)) =
      pcnt (ws_promises st) (pr_next (ws_promises st))" by (rule accountingD [OF assms])
  then show "req F st (pr_next (ws_promises st)) = 0" "wcnt st (pr_next (ws_promises st)) = 0"
    by (simp_all add: pcnt_def)
qed

definition rejects_ready :: "nat \<Rightarrow> jsval \<Rightarrow> reaction_kind list \<Rightarrow> ws \<Rightarrow> ws \<Rightarrow> bool" where
  "rejects_ready i e F st st' \<longleftrightarrow>
     (\<exists>r ps. st' = (on_writer i (\<lambda>w. w\<lparr>wr_ready_promise := r\<rparr>) st)\<lparr>ws_promises := ps\<rparr> \<and>
       pr_state ps r = Rejected e \<and> r < pr_next ps \<and> r \<noteq> wr_closed_promise (ws_writers st i) \<and>
       (\<forall>p < pr_next (ws_promises st). p \<noteq> wr_ready_promise (ws_writers st i) \<longrightarrow>
          pr_state ps p = pr_state (ws_promises st) p) \<and>
       keeps_settled (ws_promises st) ps \<and> accounting F st')"

lemma ensure_ready_ok:
  assumes acc: "accounting F st" and i: "s_writer (ws_stream st) = Some i"
    and lt: "wr_closed_promise (ws_writers st i) < pr_next (ws_promises st)"
      "wr_ready_promise (ws_writers st i) < pr_next (ws_promises st)"
  shows "wp (ensure_ready_promise_rejected i e st) (rejects_ready i e F st)"
proof (cases "pr_state (ws_promises st) (wr_ready_promise (ws_writers st i)) = Pending")
  case True
  let ?r = "wr_ready_promise (ws_writers st i)"
  have ne: "?r \<noteq> wr_closed_promise (ws_writers st i)"
    using ready_not_closed [OF acc i] True by metis
  let ?ps0 = "reject_promise ?r e (ws_promises st)"
  let ?ps = "?ps0\<lparr>pr_handled := (pr_handled ?ps0)(?r := True)\<rparr>"
  have same: "on_writer i (\<lambda>w. w\<lparr>wr_ready_promise := ?r\<rparr>) st = st"
    by (rule on_writer_same) simp
  have "accounting F (st\<lparr>ws_promises := ?ps\<rparr>)"
    by (rule accounting_settle_writer [OF acc _ i, where p = ?r and x = "Rejected e"])
      (auto simp: req_def obl_def settle_def)
  then have "rejects_ready i e F st (st\<lparr>ws_promises := ?ps\<rparr>)"
    unfolding rejects_ready_def using lt ne True
    by (intro exI [of _ ?r] exI [of _ ?ps]) (simp add: same keeps_settled_def)
  with True show ?thesis by (simp add: ensure_ready_promise_rejected_def Let_def)
next
  case False
  let ?n = "pr_next (ws_promises st)"
  let ?w = "\<lambda>w. w\<lparr>wr_ready_promise := ?n\<rparr>"
  let ?ps0 = "ws_promises (created (Rejected e) st)"
  let ?ps = "?ps0\<lparr>pr_handled := (pr_handled ?ps0)(?n := True)\<rparr>"
  have "accounting F ((on_writer i ?w st)\<lparr>ws_promises := ?ps\<rparr>)"
  proof (rule accountingI)
    fix q
    let ?st = "(on_writer i ?w st)\<lparr>ws_promises := ?ps\<rparr>"
    have r: "req F ?st q = req F st q" by (simp add: req_def obl_def)
    show "req F ?st q + wcnt ?st q = pcnt (ws_promises ?st) q"
    proof (cases "q = ?n")
      case True
      then show ?thesis using req_fresh [OF acc] r i by (simp add: wcnt_def pcnt_def)
    next
      case qn: False
      have "wcnt ?st q = wcnt st q"
        using i qn False by (cases "q = wr_ready_promise (ws_writers st i)") (auto simp: wcnt_def)
      moreover have "pcnt (ws_promises ?st) q = pcnt (ws_promises st) q"
        using qn by (simp add: pcnt_def less_Suc_eq)
      ultimately show ?thesis using accountingD [OF acc, of q] r by simp
    qed
  qed
  then have "rejects_ready i e F st ((on_writer i ?w st)\<lparr>ws_promises := ?ps\<rparr>)"
    unfolding rejects_ready_def using lt
    by (intro exI [of _ ?n] exI [of _ ?ps]) (auto simp: keeps_settled_def)
  moreover have "on_writer i ?w (created (Rejected e) st)\<lparr>ws_promises := ?ps\<rparr> =
      (on_writer i ?w st)\<lparr>ws_promises := ?ps\<rparr>"
    by (simp add: on_writer_def created_def)
  ultimately show ?thesis using False
    by (simp add: ensure_ready_promise_rejected_def Let_def)
qed

definition writer_open :: "ws \<Rightarrow> nat \<Rightarrow> bool" where
  "writer_open st i \<longleftrightarrow>
     wr_ready_promise (ws_writers st i) < pr_next (ws_promises st) \<and>
     wr_closed_promise (ws_writers st i) < pr_next (ws_promises st) \<and>
     pr_state (ws_promises st) (wr_closed_promise (ws_writers st i)) = Pending"

section \<open>Backpressure\<close>

definition updates_backpressure :: "bool \<Rightarrow> reaction_kind list \<Rightarrow> ws \<Rightarrow> ws \<Rightarrow> bool" where
  "updates_backpressure b F st st' \<longleftrightarrow>
     wbase F st' \<and> ws_mono st st' \<and> ws_controller st' = ws_controller st \<and>
     ws_stream st' = (ws_stream st)\<lparr>s_backpressure := b\<rparr> \<and> ws_reactions st' = ws_reactions st"

lemma update_backpressure_ok:
  assumes base: "wbase F st" and W: "ws_state st = WsWritable"
    and open_: "\<not> close_queued_or_in_flight st"
  shows "wp (update_backpressure b st) (updates_backpressure b F st)"
proof -
  let ?f = "\<lambda>s. s\<lparr>s_backpressure := b\<rparr>"
  have control: "control_ok F st'" if "ws_controller st' = ws_controller st"
    "ws_stream st' = ?f (ws_stream st)" "ws_reactions st' = ws_reactions st" for st'
    using wbaseD(1) [OF base] that by (simp add: control_defs)
  have locking: "locking_ok st'" if "ws_next_writer st' = ws_next_writer st"
    "ws_stream st' = ?f (ws_stream st)" "\<And>j. wr_stream (ws_writers st' j) = wr_stream (ws_writers st j)" for st'
    using wbaseD(2) [OF base] that by (simp add: locking_ok_def)
  have mono: "ws_mono st st'" if "ws_controller st' = ws_controller st"
    "ws_stream st' = ?f (ws_stream st)" "ws_next_writer st' = ws_next_writer st"
    "keeps_settled (ws_promises st) (ws_promises st')" for st'
    using that by (simp add: ws_mono_def)
  have req: "req F st' q = req F st q" if "ws_stream st' = ?f (ws_stream st)"
    "ws_reactions st' = ws_reactions st" for st' q
    using that by (simp add: req_def obl_def)
  have unfold: "update_backpressure b st = Some (on_stream ?f
      (case s_writer (ws_stream st) of
         None \<Rightarrow> st
       | Some i \<Rightarrow>
           if b \<noteq> s_backpressure (ws_stream st)
           then (if b then (let (st', p) = new_promise new_pending st
                            in on_writer i (\<lambda>w. w\<lparr>wr_ready_promise := p\<rparr>) st')
                 else on_promises (resolve_promise (wr_ready_promise (ws_writers st i)) JUndefined) st)
           else st))"
    using W open_ by (simp add: update_backpressure_def require_def Let_def)
  show ?thesis
  proof (cases "s_writer (ws_stream st)")
    case None
    have "accounting F (on_stream ?f st)"
      by (rule accounting_same [OF wbaseD(3) [OF base]]) (simp_all add: req)
    then show ?thesis
      unfolding unfold using None control locking mono
      by (simp add: updates_backpressure_def wbase_def writer_ok_def)
  next
    case (Some i)
    note w = writer_okD [OF wbaseD(4) [OF base] Some, unfolded writer_promises_ok_def Let_def]
    have ne: "wr_ready_promise (ws_writers st i) \<noteq> wr_closed_promise (ws_writers st i)"
      by (rule ready_not_closed [OF wbaseD(3) [OF base] Some]) (use w W in simp)
    consider (same) "b = s_backpressure (ws_stream st)"
      | (on) "b" "\<not> s_backpressure (ws_stream st)" | (off) "\<not> b" "s_backpressure (ws_stream st)" by blast
    then show ?thesis
    proof cases
      case same
      then have eq: "(ws_stream st)\<lparr>s_backpressure := b\<rparr> = ws_stream st" "st\<lparr>ws_stream := ws_stream st\<rparr> = st"
        by simp_all
      show ?thesis
        unfolding unfold eq(1) using base same Some eq by (simp add: updates_backpressure_def)
    next
      case on
      let ?n = "pr_next (ws_promises st)"
      let ?st = "on_stream ?f (on_writer i (\<lambda>w. w\<lparr>wr_ready_promise := ?n\<rparr>)
          (st\<lparr>ws_promises := fst (new_pending (ws_promises st))\<rparr>))"
      have "accounting F ?st"
      proof (rule accountingI)
        fix q
        have r: "req F ?st q = req F st q" by (simp add: req)
        show "req F ?st q + wcnt ?st q = pcnt (ws_promises ?st) q"
        proof (cases "q = ?n")
          case True
          then show ?thesis
            using req_fresh [OF wbaseD(3) [OF base]] r Some w by (simp add: wcnt_def pcnt_def)
        next
          case False
          have "wcnt ?st q = wcnt st q"
            using False Some on w W by (auto simp: wcnt_def)
          moreover have "pcnt (ws_promises ?st) q = pcnt (ws_promises st) q"
            using False by (simp add: pcnt_def less_Suc_eq)
          ultimately show ?thesis using accountingD [OF wbaseD(3) [OF base], of q] r by simp
        qed
      qed
      moreover have "writer_ok ?st"
        using w W Some on open_ by (auto simp: writer_ok_def writer_defs)
      ultimately show ?thesis
        unfolding unfold using Some on control locking mono
        by (simp add: updates_backpressure_def wbase_def)
    next
      case off
      let ?r = "wr_ready_promise (ws_writers st i)"
      let ?st = "on_stream ?f (on_promises (resolve_promise ?r JUndefined) st)"
      have "accounting F ?st"
        by (rule accounting_settle_writer [OF wbaseD(3) [OF base] _ Some, where p = ?r and
              x = "Fulfilled JUndefined"]) (simp_all add: req settle_def)
      moreover have "writer_ok ?st"
        using w W Some off open_ ne by (auto simp: writer_ok_def writer_defs)
      ultimately show ?thesis
        unfolding unfold using Some off control locking mono
        by (simp add: updates_backpressure_def wbase_def)
    qed
  qed
qed

lemma updates_backpressure_rest:
  assumes "updates_backpressure b F st st'"
  shows "counts st' = counts st" and "get_backpressure st' = get_backpressure st"
    and "b = get_backpressure st \<Longrightarrow> synced st'" and "no_abort_yet st' = no_abort_yet st"
    and "ws_state st' = ws_state st" and "wbase F st'" and "ws_mono st st'"
  using assms
  by (simp_all add: updates_backpressure_def counts_def synced_def no_abort_yet_def
      get_backpressure_def get_desired_size_def)

section \<open>Calling out\<close>

text \<open>What the component relies on when it calls user code: the invariant is kept, at any frames, and what
  it returns can be made a promise.\<close>

locale sink_user =
  fixes U :: user_code
  assumes user_returns: "winv F st \<Longrightarrow> wp (U call st) (\<lambda>(st', r). winv F st' \<and> ws_mono st st' \<and> r \<noteq> Unresolvable)"
begin

lemma user_ok: "winv F st \<Longrightarrow> wp (U call st) (\<lambda>(st', r). winv F st' \<and> ws_mono st st')"
  by (rule wp_mono [OF user_returns]) auto

lemma invoke_promise_ok:
  "winv F st \<Longrightarrow>
     wp (invoke_promise_algorithm U alg call st) (\<lambda>(st', r). winv F st' \<and> ws_mono st st')"
  using user_returns [of F st call]
  by (cases alg) (auto simp: invoke_promise_algorithm_def elim!: wp_mono)

lemma invoke_ok:
  "winv F st \<Longrightarrow> wp (invoke_algorithm U alg call st) (\<lambda>(st', r). winv F st' \<and> ws_mono st st')"
  using user_ok [of F st call] by (cases alg) (auto simp: invoke_algorithm_def)

lemma abort_steps_ok:
  "winv F st \<Longrightarrow> wp (abort_steps U reason st) (\<lambda>(st', r). winv F st' \<and> ws_mono st st')"
  unfolding abort_steps_def Let_def
  by (drule invoke_promise_ok [of F st "c_abort_algorithm (ws_controller st)"
        "CallAbort (c_abort_algorithm (ws_controller st)) reason"])
    (auto elim!: wp_mono)

text \<open>Finishing to error, from any erroring state with nothing in flight.\<close>

lemma finish_erroring_ok:
  assumes base: "wbase F st" and E: "ws_state st = WsErroring"
    and idle: "\<not> has_operation_marked_in_flight st" and st: "c_started (ws_controller st)"
  shows "wp (finish_erroring U st) (\<lambda>st'. winv F st' \<and> ws_mono st st')"
proof -
  note d = drained_ok [OF assms]
  show ?thesis
  proof (cases "s_pending_abort_request (ws_stream st)")
    case None
    have upd: "(ws_stream st)\<lparr>s_state := WsErrored, s_write_requests := [],
        s_pending_abort_request := None\<rparr> =
        (ws_stream st)\<lparr>s_state := WsErrored, s_write_requests := []\<rparr>"
      using None by (cases "ws_stream st") simp
    have eq: "finish_erroring U st = reject_close_and_closed_promise_if_needed (drained st)"
      using E idle None
      by (simp add: finish_erroring_def require_def drained_def error_steps_def Let_def upd)
    have "wbase F (drained st)" using d(1) None by (simp add: abort_frames_def)
    from reject_close_and_closed_ok [OF this] d(2) show ?thesis
      unfolding eq by (auto elim!: wp_mono intro: ws_mono_trans)
  next
    case (Some a)
    let ?p = "pa_promise a"
    have base': "wbase (RAbort ?p # F) (drained st)" using d(1) Some by (simp add: abort_frames_def)
    show ?thesis
    proof (cases "pa_was_already_erroring a")
      case True
      let ?st = "on_promises (reject_promise ?p (s_stored_error (ws_stream st))) (drained st)"
      have eq: "finish_erroring U st = reject_close_and_closed_promise_if_needed ?st"
        using E idle Some True
        by (simp add: finish_erroring_def require_def drained_def error_steps_def Let_def)
      note s = settle_abort_frame [OF base', of "Rejected (s_stored_error (ws_stream st))"]
      from reject_close_and_closed_ok [OF s(1)] s(2) d(2) show ?thesis
        unfolding eq by (auto elim!: wp_mono intro: ws_mono_trans)
    next
      case False
      have eq: "finish_erroring U st =
          do { (st4, promise) \<leftarrow> abort_steps U (pa_reason a) (drained st);
               Some (react (RAbort ?p) promise st4) }"
        using E idle Some False
        by (simp add: finish_erroring_def require_def drained_def error_steps_def Let_def)
      have w: "winv (RAbort ?p # F) (drained st)"
        by (rule winv_errored [OF base', of ?p]) (simp_all add: obl_def)
      show ?thesis
        unfolding eq using abort_steps_ok [OF w, of "pa_reason a"] d(2)
        by (auto elim!: wp_mono intro: ws_mono_trans winv_react)
    qed
  qed
qed

text \<open>
  Starting to error, from any writable state; of the writer only its \<open>closed\<close> promise matters.
\<close>

lemma start_erroring_open_ok:
  assumes control: "control_ok F st" and locking: "locking_ok st" and acc: "accounting F st"
    and open_: "\<And>i. s_writer (ws_stream st) = Some i \<Longrightarrow> writer_open st i"
    and W: "ws_state st = WsWritable"
  shows "wp (start_erroring U reason st)
    (\<lambda>st'. winv F st' \<and> ws_mono st st' \<and> ws_state st' \<noteq> WsWritable)"
proof -
  let ?st1 = "on_stream (\<lambda>s. s\<lparr>s_state := WsErroring, s_stored_error := reason\<rparr>) st"
  have pre: "s_stored_error (ws_stream st) = JUndefined" "s_controller (ws_stream st)"
    using controlD(1,10) [OF control] W by auto
  have finish: "wp (if \<not> has_operation_marked_in_flight st2 \<and> c_started (ws_controller st2)
      then finish_erroring U st2 else Some st2)
      (\<lambda>st'. winv F st' \<and> ws_mono st st' \<and> ws_state st' \<noteq> WsWritable)"
    if "wbase F st2" "ws_state st2 = WsErroring" "ws_mono st st2" for st2
  proof (cases "\<not> has_operation_marked_in_flight st2 \<and> c_started (ws_controller st2)")
    case True
    with finish_erroring_ok [OF that(1,2)] that(2,3) show ?thesis
      by (auto elim!: wp_mono intro: ws_mono_trans simp: ws_mono_erroring)
  next
    case False
    with winv_erroring [OF that(1,2)] that(2,3) show ?thesis by auto
  qed
  have acc1: "accounting F ?st1"
    by (rule accounting_same [OF acc]) (simp_all add: req_def obl_def)
  have control1: "control_ok F ?st1" using control W by (auto simp: control_defs)
  have locking1: "locking_ok ?st1" using locking by (simp add: locking_ok_def)
  have eq: "start_erroring U reason st = Option.bind
      (case s_writer (ws_stream ?st1) of None \<Rightarrow> Some ?st1
       | Some i \<Rightarrow> ensure_ready_promise_rejected i reason ?st1)
      (\<lambda>st2. if \<not> has_operation_marked_in_flight st2 \<and> c_started (ws_controller st2)
        then finish_erroring U st2 else Some st2)"
    using pre W by (simp add: start_erroring_def require_def Let_def)
  show ?thesis
  proof (cases "s_writer (ws_stream st)")
    case None
    have "wbase F ?st1"
      using control1 locking1 acc1 None by (simp add: wbase_def writer_ok_def)
    moreover have "ws_mono st ?st1" using W by (simp add: ws_mono_def)
    ultimately show ?thesis using finish [of ?st1] None by (simp add: eq)
  next
    case (Some i)
    note w = open_ [OF Some, unfolded writer_open_def]
    have i: "s_writer (ws_stream ?st1) = Some i" using Some by simp
    have ne: "wr_ready_promise (ws_writers st i) \<noteq> wr_closed_promise (ws_writers st i)"
      by (rule ready_not_closed [OF acc Some]) (use w in simp)
    have "wp (ensure_ready_promise_rejected i reason ?st1) (rejects_ready i reason F ?st1)"
      by (rule ensure_ready_ok [OF acc1 i]) (use w in simp_all)
    then obtain st2 where st2: "ensure_ready_promise_rejected i reason ?st1 = Some st2"
      and rej: "rejects_ready i reason F ?st1 st2" by (auto elim: wpE)
    from rej obtain r ps where
      e: "st2 = (on_writer i (\<lambda>w. w\<lparr>wr_ready_promise := r\<rparr>) ?st1)\<lparr>ws_promises := ps\<rparr>"
      and p: "pr_state ps r = Rejected reason" "r < pr_next ps"
        "\<forall>p < pr_next (ws_promises st). p \<noteq> wr_ready_promise (ws_writers st i) \<longrightarrow>
           pr_state ps p = pr_state (ws_promises st) p"
      and k: "keeps_settled (ws_promises st) ps" and acc2: "accounting F st2"
      by (auto simp: rejects_ready_def)
    have "control_ok F st2" using control1 by (simp add: e control_defs)
    moreover have "locking_ok st2" using locking1 by (auto simp: e locking_ok_def)
    moreover have "writer_ok st2"
      using w W ne p k Some
      by (auto simp: e writer_ok_def writer_promises_ok_def Let_def keeps_settled_def)
    ultimately have "wbase F st2" using acc2 by (simp add: wbase_def)
    moreover have "ws_mono st st2" using W k by (simp add: e ws_mono_def)
    moreover have "ws_state st2 = WsErroring" by (simp add: e)
    ultimately show ?thesis using finish [of st2] Some st2 by (simp add: eq)
  qed
qed

lemma start_erroring_stops:
  assumes "wbase F st" and "ws_state st = WsWritable"
  shows "wp (start_erroring U reason st)
    (\<lambda>st'. winv F st' \<and> ws_mono st st' \<and> ws_state st' \<noteq> WsWritable)"
proof (rule start_erroring_open_ok [OF wbaseD(1-3) [OF assms(1)] _ assms(2)])
  show "writer_open st i" if "s_writer (ws_stream st) = Some i" for i
    using writer_okD [OF wbaseD(4) [OF assms(1)] that] assms(2)
    by (simp add: writer_open_def writer_promises_ok_def Let_def)
qed

lemma start_erroring_ok:
  "wbase F st \<Longrightarrow> ws_state st = WsWritable \<Longrightarrow>
     wp (start_erroring U reason st) (\<lambda>st'. winv F st' \<and> ws_mono st st')"
  by (rule wp_mono [OF start_erroring_stops]) auto

lemma deal_with_rejection_ok:
  assumes "wbase F st" and "active st" and "c_started (ws_controller st)"
    and "\<not> has_operation_marked_in_flight st"
  shows "wp (deal_with_rejection U e st) (\<lambda>st'. winv F st' \<and> ws_mono st st')"
  using start_erroring_ok [OF assms(1), of e] finish_erroring_ok [OF assms(1) _ assms(4,3)] assms(2)
  by (auto simp: deal_with_rejection_def active_def require_def)

lemma controller_error_ok:
  "wbase F st \<Longrightarrow> ws_state st = WsWritable \<Longrightarrow>
     wp (controller_error U e st) (\<lambda>st'. winv F st' \<and> ws_mono st st')"
  using start_erroring_ok [of F "clear_algorithms st" e] by (simp add: controller_error_def)

lemma controller_error_if_needed_ok:
  "winv F st \<Longrightarrow> wp (controller_error_if_needed U e st) (\<lambda>st'. winv F st' \<and> ws_mono st st')"
  using controller_error_ok [of F st e] winvD(1) [of F st]
  by (simp add: controller_error_if_needed_def)

lemma get_chunk_size_ok:
  assumes "winv F st"
  shows "wp (get_chunk_size U chunk st) (\<lambda>(st', n). winv F st' \<and> ws_mono st st')"
proof (cases "c_strategy_size_algorithm (ws_controller st)")
  case None
  with assms show ?thesis by (simp add: get_chunk_size_def)
next
  case (Some f)
  from user_ok [OF assms, of "CallSize f chunk"] obtain st1 r where
    u: "U (CallSize f chunk) st = Some (st1, r)" "winv F st1" "ws_mono st st1"
    by (auto elim: wpE)
  show ?thesis
    using u wp_then [OF controller_error_if_needed_ok [OF u(2)] u(3)]
    by (cases r) (simp_all add: get_chunk_size_def Some)
qed

text \<open>The sink's write algorithm, called with its frame on the stack.\<close>

lemma process_write_ok:
  assumes base: "wbase F st" and parts: "counts st" "synced st" "no_abort_yet st"
    and W: "ws_state st = WsWritable" and st: "c_started (ws_controller st)"
    and idle: "s_in_flight_write_request (ws_stream st) = None"
    and q: "c_queue (ws_controller st) = Chunk v z # q"
  shows "wp (process_write U chunk st) (\<lambda>st'. winv F st' \<and> ws_mono st st')"
proof -
  note c = controlD [OF wbaseD(1) [OF base]]
  have shape: "queue_shape (Chunk v z # q) (s_close_request (ws_stream st) \<noteq> None)
      (length (s_write_requests (ws_stream st)))"
    using parts(1) W q idle by (simp add: counts_def)
  then obtain p rs where rs: "s_write_requests (ws_stream st) = p # rs"
    by (cases "s_write_requests (ws_stream st)") (auto simp: queue_shape_def split: if_splits)
  let ?st = "on_stream (\<lambda>s. s\<lparr>s_in_flight_write_request := Some p, s_write_requests := rs\<rparr>) st"
  have ifc: "s_in_flight_close_request (ws_stream st) = None" using c(8) q by (cases "s_in_flight_close_request (ws_stream st)") auto
  have "control_ok (RWrite # F) ?st"
    using wbaseD(1) [OF base] W st idle ifc q by (auto simp: control_defs)
  moreover have "locking_ok ?st" using wbaseD(2) [OF base] by (simp add: locking_ok_def)
  moreover have "accounting (RWrite # F) ?st"
    by (rule accounting_same [OF wbaseD(3) [OF base]]) (use rs idle in \<open>auto simp: req_def obl_def\<close>)
  moreover have "writer_ok ?st"
    by (rule writer_ok_same [OF wbaseD(4) [OF base]]) (simp_all add: closing_defs)
  moreover have "counts ?st" using shape rs q by (simp add: counts_def)
  moreover have "synced ?st"
    using parts(2) by (simp add: synced_def closing_defs get_backpressure_def get_desired_size_def)
  ultimately have "winv (RWrite # F) ?st"
    using W parts(3) by (simp add: winv_writable wbase_def no_abort_yet_def)
  from invoke_promise_ok [OF this, of "c_write_algorithm (ws_controller st)"
      "CallWrite (c_write_algorithm (ws_controller st)) chunk"]
  have "wp (invoke_promise_algorithm U (c_write_algorithm (ws_controller st))
      (CallWrite (c_write_algorithm (ws_controller st)) chunk) ?st)
      (\<lambda>(st', r). winv (RWrite # F) st' \<and> ws_mono ?st st')" .
  moreover have "ws_mono st ?st" by (simp add: ws_mono_def)
  ultimately show ?thesis
    using idle rs
    by (auto simp: process_write_def mark_first_write_request_in_flight_def Let_def
        elim!: wp_mono intro: winv_react ws_mono_trans)
qed

lemma process_close_ok:
  assumes base: "wbase F st" and parts: "counts st" "synced st" "no_abort_yet st"
    and W: "ws_state st = WsWritable" and st: "c_started (ws_controller st)"
    and idle: "s_in_flight_write_request (ws_stream st) = None"
    and q: "c_queue (ws_controller st) = CloseSentinel # q"
  shows "wp (process_close U st) (\<lambda>st'. winv F st' \<and> ws_mono st st')"
proof -
  note c = controlD [OF wbaseD(1) [OF base]]
  have shape: "queue_shape (CloseSentinel # q) (s_close_request (ws_stream st) \<noteq> None)
      (length (s_write_requests (ws_stream st)))"
    using parts(1) W q idle by (simp add: counts_def)
  then have q0: "q = []" and wr: "s_write_requests (ws_stream st) = []"
    and cr: "s_close_request (ws_stream st) \<noteq> None"
    by (auto simp: queue_shape_def Cons_eq_append_conv split: if_splits)
  from cr obtain p where p: "s_close_request (ws_stream st) = Some p" by auto
  have ifc: "s_in_flight_close_request (ws_stream st) = None" using c(8) q by (cases "s_in_flight_close_request (ws_stream st)") auto
  let ?st1 = "on_stream (\<lambda>s. s\<lparr>s_in_flight_close_request := s_close_request s,
      s_close_request := None\<rparr>) st"
  have "queue_ok (qo_queue writable_queue_ops (ws_controller st))
      (qo_total writable_queue_ops (ws_controller st))"
    using c(13) by (simp add: writable_queue_ops_def)
  from writable_queue.dequeue_ok [OF this, of CloseSentinel q] q obtain ct x where
    d: "dequeue_value writable_queue_ops (ws_controller st) = Some (ct, x)"
    and ct: "c_queue ct = []" "queue_ok [] (c_queue_total_size ct)"
    by (auto simp: writable_queue_ops_def q0 elim: wpE)
  have ct': "c_started ct = c_started (ws_controller st)"
    "c_strategy_hwm ct = c_strategy_hwm (ws_controller st)"
    "c_abort_reason ct = c_abort_reason (ws_controller st)"
    "c_close_algorithm ct = c_close_algorithm (ws_controller st)"
    using d q by (auto simp: dequeue_value_def writable_queue_ops_def Let_def)
  let ?st = "?st1\<lparr>ws_controller := ct\<rparr>"
  have "control_ok (RClose # F) ?st"
    using wbaseD(1) [OF base] W st idle ifc q p wr ct ct' by (auto simp: control_defs)
  moreover have "locking_ok ?st" using wbaseD(2) [OF base] by (simp add: locking_ok_def)
  moreover have "accounting (RClose # F) ?st"
    by (rule accounting_same [OF wbaseD(3) [OF base]]) (use p ifc in \<open>auto simp: req_def obl_def\<close>)
  moreover have "writer_ok ?st"
    by (rule writer_ok_same [OF wbaseD(4) [OF base]]) (simp_all add: closing_defs p)
  moreover have "counts ?st" using wr ct idle by (simp add: counts_def queue_shape_def)
  moreover have "synced ?st" using p by (simp add: synced_def closing_defs)
  ultimately have "winv (RClose # F) ?st"
    using W parts(3) ct by (simp add: winv_writable wbase_def no_abort_yet_def)
  from invoke_promise_ok [OF this, of "c_close_algorithm ct" "CallClose (c_close_algorithm ct)"]
  obtain st3 r where i: "invoke_promise_algorithm U (c_close_algorithm ct)
      (CallClose (c_close_algorithm ct)) ?st = Some (st3, r)"
    "winv (RClose # F) st3" "ws_mono ?st st3" by (auto elim: wpE)
  have "ws_mono st ?st" by (simp add: ws_mono_def ct')
  from ws_mono_trans [OF this i(3)] i(1,2) show ?thesis
    using ifc p d ct winv_react [of RClose F "clear_algorithms st3" r]
    by (simp add: process_close_def mark_close_request_in_flight_def dequeue_def Let_def)
qed

text \<open>Advancing the queue, from a state that may be erroring with nothing in flight.\<close>

lemma advance_ok:
  assumes base: "wbase F st" and rest: "aborting F st" "counts st" "synced st" "no_abort_yet st"
    and ready: "c_started (ws_controller st) \<Longrightarrow> s_in_flight_write_request (ws_stream st) = None \<Longrightarrow>
      active st \<and> (ws_state st = WsErroring \<longrightarrow> s_in_flight_close_request (ws_stream st) = None)"
  shows "wp (advance_queue_if_needed U st) (\<lambda>st'. winv F st' \<and> ws_mono st st')"
proof (cases "c_started (ws_controller st) \<and> s_in_flight_write_request (ws_stream st) = None")
  case False
  then have "waiting st" by (auto simp: waiting_def closing_defs)
  with False base rest show ?thesis
    by (simp add: advance_queue_if_needed_def winv_def)
next
  case True
  then have st: "c_started (ws_controller st)" and idle: "s_in_flight_write_request (ws_stream st) = None"
    by auto
  note r = ready [OF st idle]
  show ?thesis
  proof (cases "ws_state st = WsErroring")
    case True
    with r idle have "\<not> has_operation_marked_in_flight st" by (simp add: closing_defs)
    from finish_erroring_ok [OF base True this st] True st idle show ?thesis
      by (simp add: advance_queue_if_needed_def)
  next
    case False
    with r have W: "ws_state st = WsWritable" by (auto simp: active_def)
    show ?thesis
    proof (cases "c_queue (ws_controller st)")
      case Nil
      then have "winv F st" using base rest W by (simp add: winv_def waiting_def)
      with Nil W st idle show ?thesis by (simp add: advance_queue_if_needed_def)
    next
      case (Cons x q)
      show ?thesis
      proof (cases x)
        case CloseSentinel
        with process_close_ok [OF base rest(2-4) W st idle, of q] Cons W st idle show ?thesis
          by (simp add: advance_queue_if_needed_def)
      next
        case (Chunk v z)
        with process_write_ok [OF base rest(2-4) W st idle, of v z q] Cons W st idle show ?thesis
          by (simp add: advance_queue_if_needed_def peek_queue_value_def writable_queue_ops_def)
      qed
    qed
  qed
qed

end

end
