(* ===== verification/Writable_Contracts.thy ===== *)
theory Writable_Contracts
  imports Writable_Ops
begin

text \<open>
  The contracts of the methods, the reactions and the set-up of a writable stream, up to the
  interface JavaScript sees, and the theorem that closes the circle: user code that acts through
  that interface keeps the invariant, so nothing it does makes an assertion of the code fail.
\<close>

section \<open>More accounts\<close>

lemma accounting_new_request:
  assumes acc: "accounting F st" and w: "writer_ok st"
    and r: "\<And>q. req F st' q = req F st q + of_bool (q = pr_next (ws_promises st))"
    and ps: "pr_state (ws_promises st') = (pr_state (ws_promises st))(pr_next (ws_promises st) := Pending)"
      "pr_next (ws_promises st') = Suc (pr_next (ws_promises st))"
    and same: "s_writer (ws_stream st') = s_writer (ws_stream st)" "ws_writers st' = ws_writers st"
  shows "accounting F st'"
proof (rule accountingI)
  fix q
  let ?n = "pr_next (ws_promises st)"
  have lt: "wr_ready_promise (ws_writers st i) < ?n \<and> wr_closed_promise (ws_writers st i) < ?n"
    if "s_writer (ws_stream st) = Some i" for i
    using writer_okD [OF w that] by (simp add: writer_promises_ok_def Let_def)
  show "req F st' q + wcnt st' q = pcnt (ws_promises st') q"
  proof (cases "q = ?n")
    case True
    have "wcnt st' ?n = 0"
      by (cases "s_writer (ws_stream st)") (use lt in \<open>auto simp: wcnt_def same ps\<close>)
    with True req_fresh [OF acc] r [of q] show ?thesis by (simp add: pcnt_def ps)
  next
    case False
    then have "wcnt st' q = wcnt st q"
      by (cases "s_writer (ws_stream st)") (simp_all add: wcnt_def same ps)
    moreover have "pcnt (ws_promises st') q = pcnt (ws_promises st) q"
      using False by (simp add: pcnt_def ps less_Suc_eq)
    ultimately show ?thesis using False accountingD [OF acc, of q] r [of q] by simp
  qed
qed

lemma writer_ok_new:
  assumes w: "writer_ok st"
    and ps: "\<And>p. p < pr_next (ws_promises st) \<Longrightarrow> pr_state (ws_promises st') p = pr_state (ws_promises st) p"
      "pr_next (ws_promises st) \<le> pr_next (ws_promises st')"
    and same: "s_writer (ws_stream st') = s_writer (ws_stream st)" "ws_writers st' = ws_writers st"
      "ws_state st' = ws_state st" "s_stored_error (ws_stream st') = s_stored_error (ws_stream st)"
      "s_backpressure (ws_stream st') = s_backpressure (ws_stream st)"
      "close_queued_or_in_flight st' = close_queued_or_in_flight st"
  shows "writer_ok st'"
proof (rule writer_okI)
  fix i assume "s_writer (ws_stream st') = Some i"
  then have i: "s_writer (ws_stream st) = Some i" by (simp add: same)
  note wi = writer_okD [OF w i, unfolded writer_promises_ok_def Let_def]
  then have "pr_state (ws_promises st') (wr_ready_promise (ws_writers st i)) =
      pr_state (ws_promises st) (wr_ready_promise (ws_writers st i))"
    "pr_state (ws_promises st') (wr_closed_promise (ws_writers st i)) =
      pr_state (ws_promises st) (wr_closed_promise (ws_writers st i))"
    by (simp_all add: ps(1))
  moreover have "wr_ready_promise (ws_writers st i) < pr_next (ws_promises st')"
    "wr_closed_promise (ws_writers st i) < pr_next (ws_promises st')"
    using wi ps(2) by linarith+
  ultimately show "writer_promises_ok st' i"
    using wi by (simp only: writer_promises_ok_def Let_def same simp_thms)
qed

text \<open>A promise that is returned to the caller already settled.\<close>

lemma winv_created:
  assumes inv: "winv F st" and x: "x \<noteq> Pending"
  shows "winv F (created x st)" and "ws_mono st (created x st)"
proof -
  let ?st = "created x st" and ?n = "pr_next (ws_promises st)"
  note base = winvD(1) [OF inv]
  have "control_ok F ?st" using wbaseD(1) [OF base] by (simp add: control_defs)
  moreover have "locking_ok ?st" using wbaseD(2) [OF base] by (simp add: locking_ok_def)
  moreover have "accounting F ?st"
  proof (rule accountingI)
    fix q
    have r: "req F ?st q = req F st q" by (simp add: req_def obl_def)
    show "req F ?st q + wcnt ?st q = pcnt (ws_promises ?st) q"
    proof (cases "q = ?n")
      case True
      with req_fresh [OF wbaseD(3) [OF base]] r x show ?thesis
        by (simp add: wcnt_def pcnt_def split: option.split)
    next
      case False
      then have "wcnt ?st q = wcnt st q"
        by (cases "s_writer (ws_stream st)") (simp_all add: wcnt_def)
      moreover have "pcnt (ws_promises ?st) q = pcnt (ws_promises st) q"
        using False by (simp add: pcnt_def less_Suc_eq)
      ultimately show ?thesis using accountingD [OF wbaseD(3) [OF base], of q] r by simp
    qed
  qed
  moreover have "writer_ok ?st"
    by (rule writer_ok_new [OF wbaseD(4) [OF base]]) (simp_all add: closing_defs)
  ultimately have base': "wbase F ?st" by (rule wbaseI)
  have "aborting F ?st"
    using winvD(4) [OF inv] writer_okD [OF wbaseD(4) [OF base]]
    by (auto simp: aborting_def obl_def writer_promises_ok_def Let_def)
  with base' inv show "winv F ?st"
    by (simp add: winv_def counts_def synced_def no_abort_yet_def waiting_def closing_defs
        get_backpressure_def get_desired_size_def)
  show "ws_mono st ?st" by (simp add: ws_mono_def)
qed

section \<open>Writing\<close>

context sink_user
begin

lemma add_and_write_ok:
  assumes inv: "winv F st" and W: "ws_state st = WsWritable"
    and open_: "\<not> close_queued_or_in_flight st" and lock: "is_writable_stream_locked st"
  shows "wp (Option.bind (add_write_request st) (\<lambda>(st2, p). controller_write U chunk sz st2))
    (\<lambda>st'. winv F st' \<and> ws_mono st st')"
proof -
  note base = winvD(1) [OF inv]
  let ?n = "pr_next (ws_promises st)"
  let ?st2 = "on_stream (\<lambda>s. s\<lparr>s_write_requests := s_write_requests s @ [?n]\<rparr>)
      (st\<lparr>ws_promises := fst (new_pending (ws_promises st))\<rparr>)"
  have add: "add_write_request st = Some (?st2, ?n)"
    using W lock by (simp add: add_write_request_def require_def)
  have c: "s_close_request (ws_stream st) = None" "s_in_flight_close_request (ws_stream st) = None"
    using open_ by (simp_all add: closing_defs)
  have "control_ok F ?st2" using wbaseD(1) [OF base] W c by (auto simp: control_defs)
  moreover have "locking_ok ?st2" using wbaseD(2) [OF base] by (simp add: locking_ok_def)
  moreover have "accounting F ?st2"
    by (rule accounting_new_request [OF wbaseD(3,4) [OF base]]) (simp_all add: req_def obl_def)
  moreover have "writer_ok ?st2"
    by (rule writer_ok_new [OF wbaseD(4) [OF base]]) (simp_all add: closing_defs)
  ultimately have base2: "wbase F ?st2" by (rule wbaseI)
  have mono2: "ws_mono st ?st2" by (simp add: ws_mono_def)
  have W2: "ws_state ?st2 = WsWritable" using W by simp
  show ?thesis
  proof (cases "enqueue_value_with_size writable_queue_ops chunk sz (ws_controller st)")
    case (Inl e)
    from wp_then [OF controller_error_ok [OF base2 W2, of e] mono2] Inl W
    show ?thesis by (simp add: add controller_write_def controller_error_if_needed_def)
  next
    case (Inr ct)
    note acc = writable_queue.enqueue_accepted [OF Inr]
    have qok: "queue_ok (c_queue ct) (c_queue_total_size ct)"
      using writable_queue.enqueue_ok [OF _ Inr] controlD(13) [OF wbaseD(1) [OF base]]
      by (simp add: writable_queue_ops_def)
    have q: "c_queue ct = c_queue (ws_controller st) @ [Chunk chunk sz]"
      using acc by (simp add: writable_queue_ops_def)
    have ct: "c_started ct = c_started (ws_controller st)"
      "c_strategy_hwm ct = c_strategy_hwm (ws_controller st)"
      "c_abort_reason ct = c_abort_reason (ws_controller st)"
      using Inr by (auto simp: enqueue_value_with_size_def writable_queue_ops_def Let_def split: if_splits)
    let ?st3 = "?st2\<lparr>ws_controller := ct\<rparr>"
    have "control_ok F ?st3" using wbaseD(1) [OF base] W c q qok ct by (auto simp: control_defs)
    moreover have "locking_ok ?st3" using wbaseD(2) [OF base] by (simp add: locking_ok_def)
    moreover have "accounting F ?st3"
      by (rule accounting_same [OF wbaseD(3) [OF base2]]) (simp_all add: req_def obl_def)
    moreover have "writer_ok ?st3"
      by (rule writer_ok_same [OF wbaseD(4) [OF base2]]) (simp_all add: closing_defs)
    ultimately have base3: "wbase F ?st3" by (rule wbaseI)
    have mono3: "ws_mono st ?st3" using ct by (simp add: ws_mono_def)
    have "queue_shape (c_queue (ws_controller st)) False
        (length (s_write_requests (ws_stream st)) +
         of_bool (s_in_flight_write_request (ws_stream st) \<noteq> None))"
      using winvD(2) [OF inv] W c by (simp add: counts_def)
    then have counts3: "counts ?st3" using c q by (auto simp: counts_def queue_shape_def)
    have open3: "\<not> close_queued_or_in_flight ?st3" using c by (simp add: closing_defs)
    have W3: "ws_state ?st3 = WsWritable" using W by simp
    obtain st4 where u: "update_backpressure (get_backpressure ?st3) ?st3 = Some st4"
      "updates_backpressure (get_backpressure ?st3) F ?st3 st4"
      using update_backpressure_ok [OF base3 W3 open3, of "get_backpressure ?st3"] by (auto elim: wpE)
    note r = updates_backpressure_rest [OF u(2)]
    have W4: "ws_state st4 = WsWritable" using r(5) W by simp
    have "wp (advance_queue_if_needed U st4) (\<lambda>st'. winv F st' \<and> ws_mono st4 st')"
    proof (rule advance_ok)
      show "wbase F st4" "counts st4" "synced st4" using r counts3 by auto
      show "no_abort_yet st4" using r(4) winvD(5) [OF inv] by (simp add: no_abort_yet_def)
      show "aborting F st4" using W4 by (simp add: aborting_def)
      show "active st4 \<and> (ws_state st4 = WsErroring \<longrightarrow> s_in_flight_close_request (ws_stream st4) = None)"
        using W4 by (simp add: active_def)
    qed
    from wp_then [OF this ws_mono_trans [OF mono3 r(7)]] show ?thesis
      using Inr u(1) open3 W by (simp add: add controller_write_def Let_def)
  qed
qed

lemma default_writer_write_ok:
  assumes inv: "winv F st" and i: "wr_stream (ws_writers st i)"
  shows "wp (default_writer_write U i chunk st) (\<lambda>(st', p). winv F st' \<and> ws_mono st st')"
proof -
  have ctl: "s_controller (ws_stream st)" using controlD(1) [OF wbaseD(1) [OF winvD(1) [OF inv]]] .
  from get_chunk_size_ok [OF inv, of chunk] obtain st1 sz where
    g: "get_chunk_size U chunk st = Some (st1, sz)" "winv F st1" "ws_mono st st1" by (auto elim: wpE)
  note cr = winv_created [OF g(2)] ws_mono_trans [OF g(3) winv_created(2) [OF g(2)]]
  show ?thesis
  proof (cases "wr_stream (ws_writers st1 i) \<and> ws_state st1 = WsWritable \<and>
      \<not> close_queued_or_in_flight st1")
    case True
    then have "is_writable_stream_locked st1"
      using wbaseD(2) [OF winvD(1) [OF g(2)]]
      by (auto simp: locking_ok_def is_writable_stream_locked_def)
    with add_and_write_ok [OF g(2) _ _ this, of chunk sz] True
    have "wp (Option.bind (add_write_request st1) (\<lambda>(st2, p). controller_write U chunk sz st2))
        (\<lambda>st'. winv F st' \<and> ws_mono st1 st')" by simp
    from wp_then [OF this g(3)] True i ctl g(1) show ?thesis
      by (auto simp: default_writer_write_def split: prod.splits elim!: wp_mono)
  next
    case False
    with i ctl g cr show ?thesis
      by (cases "ws_state st1") (auto simp: default_writer_write_def)
  qed
qed

end

end
