(* ===== verification/Writable_Methods.thy ===== *)
theory Writable_Methods
  imports Writable_Contracts
begin

text \<open>
  The contracts of closing, aborting, locking and releasing a writable stream.
\<close>

section \<open>Closing\<close>

lemma queue_shape_close: "queue_shape q False n \<Longrightarrow> queue_shape (q @ [CloseSentinel]) True n"
  by (auto simp: queue_shape_def)

lemma queue_ok_close: "queue_ok (q @ [CloseSentinel]) t \<longleftrightarrow> queue_ok q t"
  by (simp add: queue_ok_def)

context sink_user
begin

lemma controller_close_ok:
  assumes inv: "winv F st" and open_: "\<not> close_queued_or_in_flight st" and act: "active st"
    and st3: "ws_stream st3 = (ws_stream st)\<lparr>s_close_request := Some p\<rparr>"
      "ws_controller st3 = ws_controller st" "ws_writers st3 = ws_writers st"
      "ws_next_writer st3 = ws_next_writer st" "ws_reactions st3 = ws_reactions st"
    and ok: "accounting F st3" "writer_ok st3" "keeps_settled (ws_promises st) (ws_promises st3)"
  shows "wp (controller_close U st3) (\<lambda>st'. winv F st' \<and> ws_mono st st')"
proof -
  note base = winvD(1) [OF inv] and c = controlD [OF wbaseD(1) [OF winvD(1) [OF inv]]]
  let ?st = "on_controller (\<lambda>c. c\<lparr>c_queue := c_queue c @ [CloseSentinel]\<rparr>) st3"
  have cr: "s_close_request (ws_stream st) = None" "s_in_flight_close_request (ws_stream st) = None"
    using open_ by (simp_all add: closing_defs)
  have "control_ok F ?st"
    using wbaseD(1) [OF base] act cr
    by (auto simp: control_defs st3 queue_ok_close)
  moreover have "locking_ok ?st" using wbaseD(2) [OF base] by (simp add: locking_ok_def st3)
  moreover have "accounting F ?st"
    by (rule accounting_same [OF ok(1)]) (simp_all add: req_def obl_def)
  moreover have "writer_ok ?st"
    by (rule writer_ok_same [OF ok(2)]) (simp_all add: closing_defs)
  ultimately have base': "wbase F ?st" by (rule wbaseI)
  have counts: "counts ?st"
    using winvD(2) [OF inv] cr by (auto simp: counts_def st3 intro: queue_shape_close)
  have act': "active ?st" using act by (simp add: active_def st3)
  have "wp (advance_queue_if_needed U ?st) (\<lambda>st'. winv F st' \<and> ws_mono ?st st')"
  proof (rule advance_ok [OF base' _ counts])
    show "aborting F ?st" using act' by (auto simp: aborting_def active_def)
    show "synced ?st" by (simp add: synced_def closing_defs st3)
    show "no_abort_yet ?st" using winvD(5) [OF inv] by (simp add: no_abort_yet_def st3)
    show "active ?st \<and> (ws_state ?st = WsErroring \<longrightarrow> s_in_flight_close_request (ws_stream ?st) = None)"
      using act' cr by (simp add: st3)
  qed
  moreover have "ws_mono st ?st" using ok(3) by (simp add: ws_mono_def st3)
  ultimately show ?thesis unfolding controller_close_def by (rule wp_then)
qed

lemma writable_stream_close_ok:
  assumes inv: "winv F st" and open_: "\<not> close_queued_or_in_flight st"
  shows "wp (writable_stream_close U st) (\<lambda>(st', p). winv F st' \<and> ws_mono st st')"
proof (cases "closed_or_errored st")
  case True
  with winv_created [OF inv] show ?thesis by (simp add: writable_stream_close_def)
next
  case False
  note base = winvD(1) [OF inv] and c = controlD [OF wbaseD(1) [OF winvD(1) [OF inv]]]
  have act: "active st" using False by (cases "ws_state st") (auto simp: closed_or_errored_def active_def)
  have cr: "s_close_request (ws_stream st) = None" "s_in_flight_close_request (ws_stream st) = None"
    using open_ by (simp_all add: closing_defs)
  let ?n = "pr_next (ws_promises st)"
  let ?st2 = "on_stream (\<lambda>s. s\<lparr>s_close_request := Some ?n\<rparr>)
      (st\<lparr>ws_promises := fst (new_pending (ws_promises st))\<rparr>)"
  have acc2: "accounting F ?st2"
    by (rule accounting_new_request [OF wbaseD(3,4) [OF base]])
      (use cr in \<open>auto simp: req_def obl_def\<close>)
  have wi: "writer_promises_ok st i" if "s_writer (ws_stream st) = Some i" for i
    using writer_okD [OF wbaseD(4) [OF base] that] .
  show ?thesis
  proof (cases "s_backpressure (ws_stream st) \<and> ws_state st = WsWritable \<and> s_writer (ws_stream st) \<noteq> None")
    case False
    have "writer_ok ?st2"
    proof (rule writer_okI)
      fix i assume "s_writer (ws_stream ?st2) = Some i"
      then have i: "s_writer (ws_stream st) = Some i" by simp
      with wi [OF i] False act cr show "writer_promises_ok ?st2 i"
        by (cases "ws_state st") (auto simp: writer_defs active_def)
    qed
    from controller_close_ok [OF inv open_ act _ _ _ _ _ acc2 this, of ?n]
    have "wp (controller_close U ?st2) (\<lambda>st'. winv F st' \<and> ws_mono st st')" by simp
    then show ?thesis
      using act open_ c(1) False \<open>\<not> closed_or_errored st\<close>
      by (auto simp: writable_stream_close_def active_def closing_defs Let_def
          split: option.split elim!: wp_mono)
  next
    case True
    then obtain i where i: "s_writer (ws_stream st) = Some i" by auto
    let ?r = "wr_ready_promise (ws_writers st i)"
    let ?st3 = "on_promises (resolve_promise ?r JUndefined) ?st2"
    note w = wi [OF i, unfolded writer_promises_ok_def Let_def]
    have ne: "?r \<noteq> wr_closed_promise (ws_writers st i)"
      by (rule ready_not_closed [OF wbaseD(3) [OF base] i]) (use w True in simp)
    have lt: "?r \<noteq> ?n" "wr_closed_promise (ws_writers st i) \<noteq> ?n" using w by auto
    have acc3: "accounting F ?st3"
      by (rule accounting_settle_writer [OF acc2, of F _ i ?r "Fulfilled JUndefined"])
        (use i in \<open>simp_all add: req_def obl_def settle_def\<close>)
    have "writer_ok ?st3"
      using w True i ne lt open_ by (auto simp: writer_ok_def writer_defs)
    from controller_close_ok [OF inv open_ act _ _ _ _ _ acc3 this, of ?n]
    have "wp (controller_close U ?st3) (\<lambda>st'. winv F st' \<and> ws_mono st st')"
      by (simp add: keeps_settled_def)
    then show ?thesis
      using act open_ c(1) True i \<open>\<not> closed_or_errored st\<close>
      by (auto simp: writable_stream_close_def active_def closing_defs Let_def elim!: wp_mono)
  qed
qed

lemma default_writer_close_ok:
  assumes "winv F st" and "\<not> close_queued_or_in_flight st" and "wr_stream (ws_writers st i)"
  shows "wp (default_writer_close U i st) (\<lambda>(st', p). winv F st' \<and> ws_mono st st')"
  using writable_stream_close_ok [OF assms(1,2)] assms(3) by (simp add: default_writer_close_def)

lemma close_with_error_propagation_ok:
  assumes inv: "winv F st" and i: "wr_stream (ws_writers st i)"
  shows "wp (default_writer_close_with_error_propagation U i st)
    (\<lambda>(st', p). winv F st' \<and> ws_mono st st')"
  using winv_created [OF inv] default_writer_close_ok [OF inv _ i] i
  by (cases "ws_state st") (auto simp: default_writer_close_with_error_propagation_def)

section \<open>Aborting\<close>

lemma abort_controller_abort_ok:
  assumes "winv F st"
  shows "wp (abort_controller_abort U reason st) (\<lambda>st'. winv F st' \<and> ws_mono st st')"
proof (cases "c_abort_reason (ws_controller st) = None")
  case False
  with assms show ?thesis by (simp add: abort_controller_abort_def)
next
  case True
  let ?st = "\<lambda>r. on_controller (\<lambda>c. c\<lparr>c_abort_reason := Some r\<rparr>) st"
  have "winv F (?st r) = winv F st" for r
    by (rule winv_cong) (auto simp: obl_def)
  with assms have inv: "winv F (?st r)" for r by simp
  have "ws_mono st (?st r)" for r using True by (simp add: ws_mono_def)
  then have "wp (U (AbortListeners r) (?st r)) (\<lambda>(st', x). winv F st' \<and> ws_mono st st')" for r
    by (rule_tac wp_mono [OF user_ok [OF inv]]) (auto intro: ws_mono_trans)
  then have "wp (map_option fst (U (AbortListeners r) (?st r))) (\<lambda>st'. winv F st' \<and> ws_mono st st')" for r
    by (auto simp: wp_Ex split: prod.splits dest: spec [of _ r])
  with True show ?thesis by (simp add: abort_controller_abort_def Let_def)
qed

lemma writable_stream_abort_stops:
  assumes inv0: "winv F st0"
  shows "wp (writable_stream_abort U reason st0)
    (\<lambda>(st', p). winv F st' \<and> ws_mono st0 st' \<and> ws_state st' \<noteq> WsWritable)"
proof (cases "closed_or_errored st0")
  case True
  with winv_created [OF inv0] show ?thesis
    by (auto simp: writable_stream_abort_def closed_or_errored_def)
next
  case False
  note c0 = controlD(1) [OF wbaseD(1) [OF winvD(1) [OF inv0]]]
  from abort_controller_abort_ok [OF inv0, of reason] obtain st where
    a: "abort_controller_abort U reason st0 = Some st" and inv: "winv F st" and mono: "ws_mono st0 st"
    by (auto elim: wpE)
  note unfold = writable_stream_abort_def False c0 a
  show ?thesis
  proof (cases "closed_or_errored st")
    case True
    moreover from True have "ws_state st \<noteq> WsWritable" by (auto simp: closed_or_errored_def)
    ultimately show ?thesis using winv_created [OF inv] mono
      by (auto simp: unfold intro: ws_mono_trans)
  next
    case open_: False
    note base = winvD(1) [OF inv]
    have act: "ws_state st = WsWritable \<or> ws_state st = WsErroring"
      using open_ by (cases "ws_state st") (auto simp: closed_or_errored_def)
    show ?thesis
    proof (cases "s_pending_abort_request (ws_stream st)")
      case (Some x)
      then have "ws_state st \<noteq> WsWritable" using winvD(5) [OF inv] by (auto simp: no_abort_yet_def)
      with Some inv mono open_ show ?thesis by (simp add: unfold)
    next
      case None
      let ?n = "pr_next (ws_promises st)"
      let ?st3 = "\<lambda>r b. on_stream (\<lambda>s. s\<lparr>s_pending_abort_request :=
          Some \<lparr>pa_promise = ?n, pa_reason = r, pa_was_already_erroring = b\<rparr>\<rparr>)
          (st\<lparr>ws_promises := fst (new_pending (ws_promises st))\<rparr>)"
      have base3: "wbase F (?st3 r b)" for r b
      proof (rule wbaseI)
        show "control_ok F (?st3 r b)" using wbaseD(1) [OF base] act by (auto simp: control_defs)
        show "locking_ok (?st3 r b)" using wbaseD(2) [OF base] by (simp add: locking_ok_def)
        show "accounting F (?st3 r b)"
          by (rule accounting_new_request [OF wbaseD(3,4) [OF base]])
            (use None in \<open>auto simp: req_def obl_def\<close>)
        show "writer_ok (?st3 r b)"
          by (rule writer_ok_new [OF wbaseD(4) [OF base]]) (simp_all add: closing_defs)
      qed
      have mono3: "ws_mono st0 (?st3 r b)" for r b
        by (rule ws_mono_trans [OF mono]) (simp add: ws_mono_def)
      show ?thesis
      proof (cases "ws_state st = WsErroring")
        case True
        have "winv F (?st3 JUndefined True)"
          by (rule winv_erroring [OF base3]) (use True winvD(6) [OF inv] in \<open>simp_all add: waiting_def closing_defs\<close>)
        with mono3 None True open_ show ?thesis by (simp add: unfold)
      next
        case False
        with act have W: "ws_state st = WsWritable" by blast
        from start_erroring_stops [OF base3, of reason False reason] W
        have "wp (start_erroring U reason (?st3 reason False))
            (\<lambda>st'. winv F st' \<and> ws_mono (?st3 reason False) st' \<and> ws_state st' \<noteq> WsWritable)" by simp
        then have "wp (start_erroring U reason (?st3 reason False))
            (\<lambda>st'. winv F st' \<and> ws_mono st0 st' \<and> ws_state st' \<noteq> WsWritable)"
          by (rule wp_mono) (auto intro: ws_mono_trans [OF mono3])
        with None W open_ show ?thesis
          by (auto simp: unfold Let_def elim!: wp_mono)
      qed
    qed
  qed
qed

lemma writable_stream_abort_ok:
  "winv F st \<Longrightarrow>
     wp (writable_stream_abort U reason st) (\<lambda>(st', p). winv F st' \<and> ws_mono st st')"
  by (rule wp_mono [OF writable_stream_abort_stops]) auto

lemma default_writer_abort_ok:
  "winv F st \<Longrightarrow> wr_stream (ws_writers st i) \<Longrightarrow>
     wp (default_writer_abort U i reason st) (\<lambda>(st', p). winv F st' \<and> ws_mono st st')"
  using writable_stream_abort_ok [of F st reason] by (simp add: default_writer_abort_def)

end

section \<open>Releasing\<close>

lemma release_closed_ok:
  assumes rej: "rejects_ready i e F st st1" and i: "s_writer (ws_stream st) = Some i"
    and c: "wr_closed_promise (ws_writers st i) < pr_next (ws_promises st)"
  shows "wp (ensure_closed_promise_rejected i e st1) (\<lambda>st2. 
    ws_stream st2 = ws_stream st \<and> ws_controller st2 = ws_controller st \<and>
    ws_next_writer st2 = ws_next_writer st \<and> ws_reactions st2 = ws_reactions st \<and>
    (\<forall>j. wr_stream (ws_writers st2 j) = wr_stream (ws_writers st j)) \<and>
    keeps_settled (ws_promises st) (ws_promises st2) \<and>
    pr_state (ws_promises st2) (wr_closed_promise (ws_writers st2 i)) = Rejected e \<and>
    pr_state (ws_promises st2) (wr_ready_promise (ws_writers st2 i)) = Rejected e \<and>
    (\<forall>q. req F st q = pcnt (ws_promises st2) q))"
proof -
  from rej obtain r ps where
    st1: "st1 = (on_writer i (\<lambda>w. w\<lparr>wr_ready_promise := r\<rparr>) st)\<lparr>ws_promises := ps\<rparr>"
    and r: "pr_state ps r = Rejected e" "r < pr_next ps" "r \<noteq> wr_closed_promise (ws_writers st i)"
    and k: "keeps_settled (ws_promises st) ps" and acc: "accounting F st1"
    by (auto simp: rejects_ready_def)
  let ?c = "wr_closed_promise (ws_writers st i)"
  have c': "?c < pr_next ps" using c k by (simp add: keeps_settled_def)
  have req: "req F st q + of_bool (?c = q \<and> pr_state ps q = Pending) = pcnt ps q" for q
  proof -
    have "wcnt st1 q = of_bool (?c = q \<and> pr_state ps q = Pending)"
      using i r by (auto simp: wcnt_def st1)
    moreover have "req F st1 q = req F st q" by (simp add: req_def obl_def st1)
    ultimately show ?thesis using accountingD [OF acc, of q] by (simp add: st1)
  qed
  show ?thesis
  proof (cases "pr_state ps ?c = Pending")
    case True
    let ?ps0 = "reject_promise ?c e ps"
    let ?ps = "?ps0\<lparr>pr_handled := (pr_handled ?ps0)(?c := True)\<rparr>"
    have "req F st q = pcnt ?ps q" for q
      using req [of q] True by (cases "q = ?c") (simp_all add: pcnt_def c')
    moreover have "keeps_settled (ws_promises st) ?ps"
      by (rule keeps_settled_trans [OF k]) (simp add: keeps_settled_def)
    ultimately show ?thesis using True r
      by (simp add: ensure_closed_promise_rejected_def st1 Let_def on_writer_def)
  next
    case False
    let ?ps0 = "ws_promises (created (Rejected e) st1)"
    let ?ps = "?ps0\<lparr>pr_handled := (pr_handled ?ps0)(pr_next ps := True)\<rparr>"
    have "req F st q = pcnt ps q" for q
      using req [of q] False by (cases "?c = q") simp_all
    then have "req F st q = pcnt ?ps q" for q
      by (cases "q = pr_next ps") (simp_all add: pcnt_def st1 less_Suc_eq)
    moreover have "keeps_settled ps ?ps" by (simp add: keeps_settled_def st1)
    ultimately show ?thesis using False keeps_settled_trans [OF k] r
      by (auto simp: ensure_closed_promise_rejected_def st1 Let_def)
  qed
qed

definition released_error :: jsval where
  "released_error = JTypeError
     ''Writer was released and can no longer be used to monitor the stream's closedness''"

lemma default_writer_release_frees:
  assumes inv: "winv F st" and i: "wr_stream (ws_writers st i)"
  shows "wp (default_writer_release i st) (\<lambda>st'. winv F st' \<and> ws_mono st st' \<and>
    \<not> wr_stream (ws_writers st' i) \<and> ws_stream st' = (ws_stream st)\<lparr>s_writer := None\<rparr> \<and>
    ws_controller st' = ws_controller st \<and> ws_reactions st' = ws_reactions st \<and>
    pr_state (ws_promises st') (wr_closed_promise (ws_writers st' i)) = Rejected released_error \<and>
    pr_state (ws_promises st') (wr_ready_promise (ws_writers st' i)) = Rejected released_error)"
proof -
  note base = winvD(1) [OF inv]
  have w: "s_writer (ws_stream st) = Some i" using wbaseD(2) [OF base] i by (simp add: locking_ok_def)
  note wp' = writer_okD [OF wbaseD(4) [OF base] w, unfolded writer_promises_ok_def Let_def]
  let ?e = "JTypeError ''Writer was released and can no longer be used to monitor the stream's closedness''"
  from ensure_ready_ok [OF wbaseD(3) [OF base] w, of ?e] wp' obtain st1 where
    r: "ensure_ready_promise_rejected i ?e st = Some st1" "rejects_ready i ?e F st st1"
    by (auto elim: wpE)
  from release_closed_ok [OF r(2) w] wp' obtain st2 where
    c: "ensure_closed_promise_rejected i ?e st1 = Some st2"
    and same: "ws_stream st2 = ws_stream st" "ws_controller st2 = ws_controller st"
      "ws_next_writer st2 = ws_next_writer st" "ws_reactions st2 = ws_reactions st"
      "\<And>j. wr_stream (ws_writers st2 j) = wr_stream (ws_writers st j)"
    and k: "keeps_settled (ws_promises st) (ws_promises st2)"
    and rejected: "pr_state (ws_promises st2) (wr_closed_promise (ws_writers st2 i)) = Rejected ?e"
      "pr_state (ws_promises st2) (wr_ready_promise (ws_writers st2 i)) = Rejected ?e"
    and req: "\<And>q. req F st q = pcnt (ws_promises st2) q"
    by (auto elim: wpE)
  let ?st = "on_writer i (\<lambda>w. w\<lparr>wr_stream := False\<rparr>) (on_stream (\<lambda>s. s\<lparr>s_writer := None\<rparr>) st2)"
  have "control_ok F ?st" using wbaseD(1) [OF base] by (simp add: control_defs same)
  moreover have "locking_ok ?st" using wbaseD(2) [OF base] w by (auto simp: locking_ok_def same)
  moreover have "accounting F ?st"
    by (rule accountingI) (use req in \<open>simp add: req_def obl_def wcnt_def same\<close>)
  moreover have "writer_ok ?st" by (simp add: writer_ok_def)
  ultimately have "wbase F ?st" by (rule wbaseI)
  moreover have "aborting F ?st" using winvD(4) [OF inv] by (auto simp: aborting_def same obl_def)
  ultimately have "winv F ?st"
    using inv by (simp add: winv_def counts_def synced_def no_abort_yet_def waiting_def closing_defs
        get_backpressure_def get_desired_size_def same)
  moreover have "ws_mono st ?st" using k by (simp add: ws_mono_def same)
  ultimately show ?thesis using i r(1) c rejected same
    by (simp add: default_writer_release_def Let_def released_error_def)
qed

lemma default_writer_release_ok:
  "winv F st \<Longrightarrow> wr_stream (ws_writers st i) \<Longrightarrow>
     wp (default_writer_release i st) (\<lambda>st'. winv F st' \<and> ws_mono st st')"
  by (rule wp_mono [OF default_writer_release_frees]) auto

section \<open>Locking\<close>

lemma winv_next_writer:
  assumes inv: "winv F st" and f: "\<not> wr_stream w"
  shows "winv F (on_writer (ws_next_writer st) (\<lambda>_. w) (st\<lparr>ws_next_writer := ws_next_writer st + 1\<rparr>))"
    (is "winv F ?st")
    and "ws_mono st (on_writer (ws_next_writer st) (\<lambda>_. w) (st\<lparr>ws_next_writer := ws_next_writer st + 1\<rparr>))"
proof -
  note base = winvD(1) [OF inv]
  have lt: "i < ws_next_writer st" if "s_writer (ws_stream st) = Some i" for i
    using wbaseD(2) [OF base] that by (simp add: locking_ok_def)
  then have same: "ws_writers ?st i = ws_writers st i" if "s_writer (ws_stream st) = Some i" for i
    using that by (auto dest: lt)
  have "control_ok F ?st" using wbaseD(1) [OF base] by (simp add: control_defs)
  moreover have "locking_ok ?st"
    using wbaseD(2) [OF base] f lt by (fastforce simp: locking_ok_def)
  moreover have "accounting F ?st"
  proof (rule accountingI)
    fix q
    have "wcnt ?st q = wcnt st q" using same by (simp add: wcnt_def split: option.split)
    then show "req F ?st q + wcnt ?st q = pcnt (ws_promises ?st) q"
      using accountingD [OF wbaseD(3) [OF base], of q] by (simp add: req_def obl_def)
  qed
  moreover have "writer_ok ?st"
  proof (rule writer_okI)
    fix i assume "s_writer (ws_stream ?st) = Some i"
    then have i: "s_writer (ws_stream st) = Some i" by simp
    from writer_okD [OF wbaseD(4) [OF base] i] lt [OF i]
    show "writer_promises_ok ?st i" by (cases "ws_state st") (auto simp: writer_defs)
  qed
  ultimately have base': "wbase F ?st" by (rule wbaseI)
  have "aborting F ?st"
    using winvD(4) [OF inv] same by (fastforce simp: aborting_def obl_def)
  with base' inv show "winv F ?st"
    by (simp add: winv_def counts_def synced_def no_abort_yet_def waiting_def closing_defs
        get_backpressure_def get_desired_size_def)
  show "ws_mono st ?st" by (simp add: ws_mono_def)
qed

text \<open>The two new promises of a writer that is attached.\<close>

definition attach_states :: "ws \<Rightarrow> pstate \<Rightarrow> pstate \<Rightarrow> bool" where
  "attach_states st x y \<longleftrightarrow>
     (case ws_state st of
        WsWritable \<Rightarrow> y = Pending \<and>
          x = (if s_backpressure (ws_stream st) \<and> \<not> close_queued_or_in_flight st
               then Pending else Fulfilled JUndefined)
      | WsErroring \<Rightarrow> y = Pending \<and> x = Rejected (s_stored_error (ws_stream st))
      | WsClosed \<Rightarrow> y = Fulfilled JUndefined \<and> x = Fulfilled JUndefined
      | WsErrored \<Rightarrow> y = Rejected (s_stored_error (ws_stream st)) \<and>
          x = Rejected (s_stored_error (ws_stream st)))"

lemma attach_ok:
  assumes inv: "winv F st" and free: "s_writer (ws_stream st) = None" and i: "i < ws_next_writer st"
    and st': "ws_stream st' = (ws_stream st)\<lparr>s_writer := Some i\<rparr>"
      "ws_controller st' = ws_controller st" "ws_reactions st' = ws_reactions st"
      "ws_next_writer st' = ws_next_writer st"
      "ws_writers st' = (ws_writers st)(i := \<lparr>wr_closed_promise = Suc (pr_next (ws_promises st)),
         wr_ready_promise = pr_next (ws_promises st), wr_stream = True\<rparr>)"
    and ps: "pr_next (ws_promises st') = Suc (Suc (pr_next (ws_promises st)))"
      "pr_state (ws_promises st') = (pr_state (ws_promises st))
         (pr_next (ws_promises st) := x, Suc (pr_next (ws_promises st)) := y)"
    and xy: "attach_states st x y"
  shows "winv F st' \<and> ws_mono st st'"
proof -
  note base = winvD(1) [OF inv]
  let ?n = "pr_next (ws_promises st)"
  have "control_ok F st'" using wbaseD(1) [OF base] by (simp add: control_defs st')
  moreover have "locking_ok st'"
    using wbaseD(2) [OF base] free i by (auto simp: locking_ok_def st')
  moreover have "accounting F st'"
  proof (rule accountingI)
    fix q
    note acc = wbaseD(3) [OF base]
    have eq: "req F st' p = pcnt (ws_promises st) p" for p
      using accountingD [OF acc, of p] free by (simp add: wcnt_def req_def obl_def st')
    consider "q < ?n" | "q = ?n" | "q = Suc ?n" | "Suc ?n < q" by linarith
    then show "req F st' q + wcnt st' q = pcnt (ws_promises st') q"
      by cases (simp_all add: eq pcnt_def wcnt_def st' ps)
  qed
  moreover have "writer_ok st'"
    using xy by (cases "ws_state st") (auto simp: writer_ok_def writer_defs st' ps attach_states_def)
  ultimately have base': "wbase F st'" by (rule wbaseI)
  have "aborting F st'"
    using winvD(4) [OF inv] xy by (auto simp: aborting_def obl_def st' ps attach_states_def)
  with base' inv have "winv F st'"
    by (simp add: winv_def counts_def synced_def no_abort_yet_def waiting_def closing_defs
        get_backpressure_def get_desired_size_def st')
  moreover have "keeps_settled (ws_promises st) (ws_promises st')"
    by (simp add: keeps_settled_def ps)
  ultimately show ?thesis by (simp add: ws_mono_def st')
qed

lemma acquire_default_writer_ok:
  assumes inv0: "winv F st0"
  shows "wp (acquire_default_writer st0) (\<lambda>(st', r). winv F st' \<and> ws_mono st0 st' \<and>
    (case r of Inl e \<Rightarrow> s_writer (ws_stream st0) \<noteq> None | Inr i \<Rightarrow> s_writer (ws_stream st') = Some i))"
proof -
  let ?i = "ws_next_writer st0"
  define st where "st = on_writer ?i (\<lambda>_. \<lparr>wr_closed_promise = 0, wr_ready_promise = 0, wr_stream = False\<rparr>)
      (st0\<lparr>ws_next_writer := ?i + 1\<rparr>)"
  have st: "winv F st" "ws_mono st0 st" and i: "?i < ws_next_writer st"
    and w: "ws_writers st ?i = \<lparr>wr_closed_promise = 0, wr_ready_promise = 0, wr_stream = False\<rparr>"
    and same: "ws_stream st = ws_stream st0"
    using winv_next_writer [OF inv0] by (simp_all add: st_def)
  have "wp (set_up_default_writer ?i st) (\<lambda>r. case r of
      Inl e \<Rightarrow> s_writer (ws_stream st) \<noteq> None
    | Inr st' \<Rightarrow> winv F st' \<and> ws_mono st st' \<and> s_writer (ws_stream st') = Some ?i)"
  proof (cases "s_writer (ws_stream st)")
    case (Some j)
    then show ?thesis by (simp add: set_up_default_writer_def is_writable_stream_locked_def)
  next
    case None
    have ok: "winv F st' \<and> ws_mono st st'"
      if "ws_stream st' = (ws_stream st)\<lparr>s_writer := Some ?i\<rparr>"
        "ws_controller st' = ws_controller st" "ws_reactions st' = ws_reactions st"
        "ws_next_writer st' = ws_next_writer st"
        "ws_writers st' = (ws_writers st)(?i := \<lparr>wr_closed_promise = Suc (pr_next (ws_promises st)),
           wr_ready_promise = pr_next (ws_promises st), wr_stream = True\<rparr>)"
        "pr_next (ws_promises st') = Suc (Suc (pr_next (ws_promises st)))"
        "pr_state (ws_promises st') = (pr_state (ws_promises st))
           (pr_next (ws_promises st) := x, Suc (pr_next (ws_promises st)) := y)"
        "attach_states st x y" for st' x y
      by (rule attach_ok [OF st(1) None i that])
    note defs = set_up_default_writer_def is_writable_stream_locked_def None Let_def
      attach_states_def on_writer_def w mark_handled_def set_settled_is_handled_def closing_defs
    let ?e = "Rejected (s_stored_error (ws_stream st))"
    show ?thesis
    proof (cases "ws_state st")
      case WsWritable
      then show ?thesis
        by (cases "s_backpressure (ws_stream st) \<and> \<not> close_queued_or_in_flight st")
          (auto simp: defs ok [where x = Pending and y = Pending]
            ok [where x = "Fulfilled JUndefined" and y = Pending])
    next
      case WsErroring
      then show ?thesis by (simp add: defs ok [where x = ?e and y = Pending])
    next
      case WsClosed
      then show ?thesis
        by (simp add: defs ok [where x = "Fulfilled JUndefined" and y = "Fulfilled JUndefined"])
    next
      case WsErrored
      then show ?thesis by (simp add: defs ok [where x = ?e and y = ?e])
    qed
  qed
  then obtain r where r: "set_up_default_writer ?i st = Some r"
    "case r of Inl e \<Rightarrow> s_writer (ws_stream st) \<noteq> None
     | Inr st' \<Rightarrow> winv F st' \<and> ws_mono st st' \<and> s_writer (ws_stream st') = Some ?i"
    by (auto elim: wpE)
  have "acquire_default_writer st0 =
      Some (case r of Inl e \<Rightarrow> (st, Inl e) | Inr st2 \<Rightarrow> (st2, Inr ?i))"
    using r(1) by (simp only: acquire_default_writer_def Let_def st_def [symmetric] Option.bind.simps)
  with r(2) st same show ?thesis by (cases r) (auto intro: ws_mono_trans)
qed

end
