(* ===== verification/Writable_Reactions.thy ===== *)
theory Writable_Reactions
  imports Writable_Methods
begin

text \<open>
  The contracts of the reactions to the sink's promises. A reaction that runs has left the list
  of reactions to come, so it starts as a frame of its own.
\<close>

lemma obl_Cons [simp]: "obl (k # F) st = k # obl F st"
  by (simp add: obl_def)

lemma control_ok_promises [simp]: "control_ok F (st\<lparr>ws_promises := ps\<rparr>) = control_ok F st"
  by (simp add: control_ok_def obl_def active_def Let_def)

lemma locking_ok_promises [simp]: "locking_ok (st\<lparr>ws_promises := ps\<rparr>) = locking_ok st"
  by (simp add: locking_ok_def)

lemma frame_fresh: "control_ok (k # F) st \<Longrightarrow> k \<notin> set (obl F st)"
  using controlD(2) [of "k # F" st] by simp

lemma no_start_in_flight:
  assumes "control_ok (RStart # F) st"
  shows "\<not> c_started (ws_controller st)" and "active st"
    and "s_in_flight_write_request (ws_stream st) = None"
    and "s_in_flight_close_request (ws_stream st) = None"
proof -
  note c = controlD [OF assms]
  show s: "\<not> c_started (ws_controller st)" using c(3) by simp
  show "active st" using c(9) s by blast
  show "s_in_flight_write_request (ws_stream st) = None" using c(7) s by blast
  show "s_in_flight_close_request (ws_stream st) = None" using c(8) s by blast
qed

section \<open>The start promise\<close>

lemma started_ok:
  assumes inv: "winv (RStart # F) st"
  defines "st' \<equiv> on_controller (\<lambda>c. c\<lparr>c_started := True\<rparr>) st"
  shows "wbase F st'" and "counts st'" and "synced st'" and "aborting F st'" and "no_abort_yet st'"
    and "ws_mono st st'" and "active st'" and "\<not> has_operation_marked_in_flight st'"
proof -
  note base = winvD(1) [OF inv]
  note n = no_start_in_flight [OF wbaseD(1) [OF base]]
  note fresh = frame_fresh [OF wbaseD(1) [OF base]]
  have obl: "obl F st' = obl F st" by (simp add: obl_def st'_def)
  have "control_ok F st'"
    using wbaseD(1) [OF base] n fresh by (simp add: control_ok_def Let_def obl active_def) (simp add: st'_def)
  moreover have "locking_ok st'" using wbaseD(2) [OF base] by (simp add: locking_ok_def st'_def)
  moreover have "accounting F st'"
    by (rule accounting_same [OF wbaseD(3) [OF base]]) (simp_all add: req_def obl, simp_all add: st'_def)
  moreover have "writer_ok st'"
    by (rule writer_ok_same [OF wbaseD(4) [OF base]]) (simp_all add: closing_defs st'_def)
  ultimately show "wbase F st'" by (rule wbaseI)
  show "counts st'" using winvD(2) [OF inv] by (simp add: counts_def st'_def)
  show "synced st'" using winvD(3) [OF inv]
    by (simp add: synced_def closing_defs get_backpressure_def get_desired_size_def st'_def)
  show "aborting F st'" using n(2) by (auto simp: aborting_def active_def st'_def)
  show "no_abort_yet st'" using winvD(5) [OF inv] by (simp add: no_abort_yet_def st'_def)
  show "ws_mono st st'" by (simp add: ws_mono_def st'_def)
  show "active st'" using n(2) by (simp add: active_def st'_def)
  show "\<not> has_operation_marked_in_flight st'" using n(3,4) by (simp add: closing_defs st'_def)
qed

context sink_user
begin

lemma start_promise_fulfilled_ok:
  assumes inv: "winv (RStart # F) st"
  shows "wp (start_promise_fulfilled U st) (\<lambda>st'. winv F st' \<and> ws_mono st st')"
proof -
  note s = started_ok [OF inv]
  have act: "ws_state st = WsWritable \<or> ws_state st = WsErroring"
    using no_start_in_flight(2) [OF wbaseD(1) [OF winvD(1) [OF inv]]] by (simp add: active_def)
  have "wp (advance_queue_if_needed U (on_controller (\<lambda>c. c\<lparr>c_started := True\<rparr>) st))
      (\<lambda>st'. winv F st' \<and> ws_mono (on_controller (\<lambda>c. c\<lparr>c_started := True\<rparr>) st) st')"
    by (rule advance_ok [OF s(1,4,2,3,5)]) (use s(7,8) in \<open>simp add: closing_defs\<close>)
  from wp_then [OF this s(6)] act show ?thesis by (simp add: start_promise_fulfilled_def)
qed

lemma start_promise_rejected_ok:
  assumes inv: "winv (RStart # F) st"
  shows "wp (start_promise_rejected U e st) (\<lambda>st'. winv F st' \<and> ws_mono st st')"
proof -
  note s = started_ok [OF inv]
  have act: "ws_state st = WsWritable \<or> ws_state st = WsErroring"
    using no_start_in_flight(2) [OF wbaseD(1) [OF winvD(1) [OF inv]]] by (simp add: active_def)
  from deal_with_rejection_ok [OF s(1,7) _ s(8), of e]
  have "wp (deal_with_rejection U e (on_controller (\<lambda>c. c\<lparr>c_started := True\<rparr>) st))
      (\<lambda>st'. winv F st' \<and> ws_mono (on_controller (\<lambda>c. c\<lparr>c_started := True\<rparr>) st) st')" by simp
  from wp_then [OF this s(6)] act show ?thesis by (simp add: start_promise_rejected_def)
qed

end

section \<open>The write promise\<close>

lemma settle_pending:
  "pr_state ps p = Pending \<Longrightarrow> pr_state (settle p x ps) = (pr_state ps)(p := x)"
  by (simp add: settle_def)

lemma writer_ok_settle:
  assumes w: "writer_ok st" and acc: "accounting F st" and r: "0 < req F st p"
    and st': "ws_promises st' = settle p x (ws_promises st)"
      "s_writer (ws_stream st') = s_writer (ws_stream st)" "ws_writers st' = ws_writers st"
      "ws_state st' = ws_state st" "s_stored_error (ws_stream st') = s_stored_error (ws_stream st)"
      "s_backpressure (ws_stream st') = s_backpressure (ws_stream st)"
      "close_queued_or_in_flight st' = close_queued_or_in_flight st"
  shows "writer_ok st'"
proof (rule writer_okI)
  fix i assume "s_writer (ws_stream st') = Some i"
  then have i: "s_writer (ws_stream st) = Some i" by (simp add: st')
  note ne = request_not_writer [OF acc r i]
  have "pr_state (ws_promises st') (wr_ready_promise (ws_writers st i)) =
      pr_state (ws_promises st) (wr_ready_promise (ws_writers st i))"
    "pr_state (ws_promises st') (wr_closed_promise (ws_writers st i)) =
      pr_state (ws_promises st) (wr_closed_promise (ws_writers st i))"
    "pr_next (ws_promises st') = pr_next (ws_promises st)"
    using ne by (auto simp: st')
  with writer_okD [OF w i] show "writer_promises_ok st' i"
    by (simp only: writer_promises_ok_def Let_def st'(2-) simp_thms)
qed

text \<open>The in-flight write is settled, with the chunk still in the queue.\<close>

definition settle_write :: "pstate \<Rightarrow> ws \<Rightarrow> ws" where
  "settle_write x st =
     on_promises (settle (the (s_in_flight_write_request (ws_stream st))) x)
       (on_stream (\<lambda>s. s\<lparr>s_in_flight_write_request := None\<rparr>) st)"

lemma settle_write_ok:
  assumes inv: "winv (RWrite # F) st" and x: "x \<noteq> Pending"
  shows "\<exists>p. s_in_flight_write_request (ws_stream st) = Some p"
    and "c_started (ws_controller st)" and "active st"
    and "s_in_flight_close_request (ws_stream st) = None"
    and "\<exists>v z q. c_queue (ws_controller st) = Chunk v z # q"
    and "wbase F (settle_write x st)" and "ws_mono st (settle_write x st)"
proof -
  note base = winvD(1) [OF inv]
  note c = controlD [OF wbaseD(1) [OF base]] and fresh = frame_fresh [OF wbaseD(1) [OF base]]
  have ne: "s_in_flight_write_request (ws_stream st) \<noteq> None" using c(4) by simp
  then obtain p where p: "s_in_flight_write_request (ws_stream st) = Some p" by auto
  then show "\<exists>p. s_in_flight_write_request (ws_stream st) = Some p" ..
  show "c_started (ws_controller st)" "active st" "s_in_flight_close_request (ws_stream st) = None"
    "\<exists>v z q. c_queue (ws_controller st) = Chunk v z # q" using c(7) [OF ne] by auto
  have r: "0 < req (RWrite # F) st p" using p by (simp add: req_def)
  let ?st = "settle_write x st"
  have obl: "obl F ?st = obl F st" by (simp add: obl_def settle_write_def)
  have "control_ok F ?st"
    using wbaseD(1) [OF base] p fresh
    by (simp add: control_ok_def Let_def obl active_def) (auto simp: settle_write_def)
  moreover have "locking_ok ?st" using wbaseD(2) [OF base] by (simp add: locking_ok_def settle_write_def)
  moreover have "accounting F ?st"
    by (rule accounting_settle_request [OF wbaseD(3) [OF base], where p = p and x = x])
      (use p x req_pending [OF wbaseD(3) [OF base] r] in
        \<open>auto simp: req_def settle_write_def obl_def settle_pending\<close>)
  moreover have "writer_ok ?st"
    by (rule writer_ok_settle [OF wbaseD(4,3) [OF base] r]) (simp_all add: settle_write_def p closing_defs)
  ultimately show "wbase F ?st" by (rule wbaseI)
  show "ws_mono st ?st" by (simp add: ws_mono_def settle_write_def)
qed

lemma queue_shape_Cons: "queue_shape (Chunk v z # q) b (Suc n) \<Longrightarrow> queue_shape q b n"
  by (auto simp: queue_shape_def Cons_eq_append_conv split: if_splits)

lemma dequeue_ok':
  assumes "wbase F st" and "c_queue (ws_controller st) = x # q"
    and "s_in_flight_write_request (ws_stream st) = None"
  shows "wp (dequeue st) (\<lambda>st'. wbase F st' \<and> ws_mono st st' \<and> ws_stream st' = ws_stream st \<and>
    c_queue (ws_controller st') = q \<and> c_started (ws_controller st') = c_started (ws_controller st))"
proof -
  have "queue_ok (qo_queue writable_queue_ops (ws_controller st))
      (qo_total writable_queue_ops (ws_controller st))"
    using controlD(13) [OF wbaseD(1) [OF assms(1)]] by (simp add: writable_queue_ops_def)
  from writable_queue.dequeue_ok [OF this, of x q] assms(2) obtain ct v where
    d: "dequeue_value writable_queue_ops (ws_controller st) = Some (ct, v)"
    and ct: "c_queue ct = q" "queue_ok q (c_queue_total_size ct)"
    by (auto simp: writable_queue_ops_def elim: wpE)
  have ct': "c_started ct = c_started (ws_controller st)"
    "c_abort_reason ct = c_abort_reason (ws_controller st)"
    using d assms(2) by (auto simp: dequeue_value_def writable_queue_ops_def Let_def)
  let ?st = "st\<lparr>ws_controller := ct\<rparr>"
  have "control_ok F ?st"
    using wbaseD(1) [OF assms(1)] assms(2,3) ct ct' by (auto simp: control_defs)
  moreover have "locking_ok ?st" using wbaseD(2) [OF assms(1)] by (simp add: locking_ok_def)
  moreover have "accounting F ?st"
    by (rule accounting_same [OF wbaseD(3) [OF assms(1)]]) (simp_all add: req_def obl_def)
  moreover have "writer_ok ?st"
    by (rule writer_ok_same [OF wbaseD(4) [OF assms(1)]]) (simp_all add: closing_defs)
  ultimately have "wbase F ?st" by (rule wbaseI)
  moreover have "ws_mono st ?st" by (simp add: ws_mono_def ct')
  ultimately show ?thesis using d ct ct' by (simp add: dequeue_def)
qed

context sink_user
begin

lemma write_promise_fulfilled_ok:
  assumes inv: "winv (RWrite # F) st"
  shows "wp (write_promise_fulfilled U st) (\<lambda>st'. winv F st' \<and> ws_mono st st')"
proof -
  let ?st1 = "settle_write (Fulfilled JUndefined) st"
  note s = settle_write_ok [OF inv, of "Fulfilled JUndefined", simplified]
  from s(1) obtain p where p: "s_in_flight_write_request (ws_stream st) = Some p" ..
  from s(5) obtain v z q where q: "c_queue (ws_controller st) = Chunk v z # q" by blast
  have fin: "finish_in_flight_write st = Some ?st1"
    by (simp add: finish_in_flight_write_def settle_write_def p)
  have st1: "ws_state ?st1 = ws_state st" "s_in_flight_write_request (ws_stream ?st1) = None"
    "s_in_flight_close_request (ws_stream ?st1) = None"
    "s_pending_abort_request (ws_stream ?st1) = s_pending_abort_request (ws_stream st)"
    "s_close_request (ws_stream ?st1) = s_close_request (ws_stream st)"
    "s_write_requests (ws_stream ?st1) = s_write_requests (ws_stream st)"
    "c_queue (ws_controller ?st1) = Chunk v z # q"
    using s(4) q by (simp_all add: settle_write_def)
  from dequeue_ok' [OF s(6) st1(7,2)] obtain st2 where
    d: "dequeue ?st1 = Some st2" and base2: "wbase F st2" and mono2: "ws_mono ?st1 st2"
    and st2: "ws_stream st2 = ws_stream ?st1" "c_queue (ws_controller st2) = q"
    by (auto elim: wpE)
  have counts2: "counts st2"
    using winvD(2) [OF inv] p q st1 by (auto simp: counts_def st2 dest: queue_shape_Cons)
  have no2: "no_abort_yet st2" using winvD(5) [OF inv] by (simp add: no_abort_yet_def st2 st1)
  have act: "ws_state st = WsWritable \<or> ws_state st = WsErroring" using s(3) by (simp add: active_def)
  have adv: "wp (advance_queue_if_needed U st3) (\<lambda>st'. winv F st' \<and> ws_mono st st')"
    if "wbase F st3" "counts st3" "synced st3" "no_abort_yet st3" "ws_mono st2 st3"
      "ws_state st3 = ws_state st" "s_in_flight_close_request (ws_stream st3) = None" for st3
  proof -
    have "wp (advance_queue_if_needed U st3) (\<lambda>st'. winv F st' \<and> ws_mono st3 st')"
      by (rule advance_ok [OF that(1) _ that(2-4)])
        (use act that(6,7) in \<open>auto simp: active_def aborting_def\<close>)
    from wp_then [OF this ws_mono_trans [OF ws_mono_trans [OF s(7) mono2] that(5)]] show ?thesis .
  qed
  show ?thesis
  proof (cases "\<not> close_queued_or_in_flight st2 \<and> ws_state st = WsWritable")
    case False
    then have "synced st2" by (auto simp: synced_def st2 st1)
    from adv [OF base2 counts2 this no2] st1
    have "wp (advance_queue_if_needed U st2) (\<lambda>st'. winv F st' \<and> ws_mono st st')" by (simp add: st2)
    with False act st1 d fin show ?thesis
      by (auto simp: write_promise_fulfilled_def Let_def)
  next
    case True
    have "ws_state st2 = WsWritable" using True by (simp add: st2 st1)
    from update_backpressure_ok [OF base2 this, of "get_backpressure st2"] True obtain st3 where
      u: "update_backpressure (get_backpressure st2) st2 = Some st3"
      "updates_backpressure (get_backpressure st2) F st2 st3" by (auto elim: wpE)
    note r = updates_backpressure_rest [OF u(2)]
    have "s_in_flight_close_request (ws_stream st3) = None"
      using u(2) by (simp add: updates_backpressure_def st2 st1)
    then have "wp (advance_queue_if_needed U st3) (\<lambda>st'. winv F st' \<and> ws_mono st st')"
      by (intro adv) (use r counts2 no2 in \<open>simp_all add: st2 st1\<close>)
    with True u(1) d fin st1 show ?thesis
      by (simp add: write_promise_fulfilled_def Let_def)
  qed
qed

lemma write_promise_rejected_ok:
  assumes inv: "winv (RWrite # F) st"
  shows "wp (write_promise_rejected U e st) (\<lambda>st'. winv F st' \<and> ws_mono st st')"
proof -
  let ?st0 = "if ws_state st = WsWritable then clear_algorithms st else st"
  have inv0: "winv (RWrite # F) ?st0" using inv by simp
  note s = settle_write_ok [OF inv0, of "Rejected e", simplified]
  from s(1) obtain p where p: "s_in_flight_write_request (ws_stream ?st0) = Some p" by auto
  let ?st1 = "settle_write (Rejected e) ?st0"
  have act: "active ?st1" using s(3) by (auto simp: active_def settle_write_def)
  have "wp (deal_with_rejection U e ?st1) (\<lambda>st'. winv F st' \<and> ws_mono ?st1 st')"
  proof (rule deal_with_rejection_ok [OF _ act])
    show "wbase F ?st1" by (rule s(6))
    show "c_started (ws_controller ?st1)" using s(2) by (simp add: settle_write_def)
    show "\<not> has_operation_marked_in_flight ?st1" using s(4) by (simp add: settle_write_def closing_defs)
  qed
  moreover have "ws_mono st ?st1" using s(7) by (simp split: if_splits)
  ultimately have "wp (deal_with_rejection U e ?st1) (\<lambda>st'. winv F st' \<and> ws_mono st st')"
    by (rule wp_then)
  with p act show ?thesis
    by (simp add: write_promise_rejected_def finish_in_flight_write_with_error_def
        settle_write_def active_def Let_def)
qed

end

section \<open>The close promise\<close>

text \<open>The in-flight close is settled; the state is not changed yet.\<close>

definition settle_close :: "pstate \<Rightarrow> ws \<Rightarrow> ws" where
  "settle_close x st =
     on_promises (settle (the (s_in_flight_close_request (ws_stream st))) x)
       (on_stream (\<lambda>s. s\<lparr>s_in_flight_close_request := None\<rparr>) st)"

lemma close_in_flight:
  assumes inv: "winv (RClose # F) st"
  shows "\<exists>p. s_in_flight_close_request (ws_stream st) = Some p"
    and "c_started (ws_controller st)" and "active st"
    and "s_in_flight_write_request (ws_stream st) = None"
    and "s_close_request (ws_stream st) = None" and "s_write_requests (ws_stream st) = []"
    and "c_queue (ws_controller st) = []"
proof -
  note c = controlD [OF wbaseD(1) [OF winvD(1) [OF inv]]]
  have ne: "s_in_flight_close_request (ws_stream st) \<noteq> None" using c(5) by simp
  then show "\<exists>p. s_in_flight_close_request (ws_stream st) = Some p" by simp
  show "c_started (ws_controller st)" "active st" "s_close_request (ws_stream st) = None"
    "s_write_requests (ws_stream st) = []" "c_queue (ws_controller st) = []"
    using c(8) [OF ne] by auto
  show "s_in_flight_write_request (ws_stream st) = None" using c(7) ne by blast
qed

text \<open>
  While the stream is writable its \<open>ready\<close> promise has been resolved since the close request, so
  what is left to show of the writer is only that its promises are not the request's.
\<close>

lemma settle_close_ok:
  assumes inv: "winv (RClose # F) st" and x: "x \<noteq> Pending"
  shows "control_ok F (settle_close x st)" and "locking_ok (settle_close x st)"
    and "accounting F (settle_close x st)"
    and "s_writer (ws_stream st) = Some i \<Longrightarrow>
      pr_state (ws_promises (settle_close x st)) (wr_ready_promise (ws_writers st i)) =
        pr_state (ws_promises st) (wr_ready_promise (ws_writers st i)) \<and>
      pr_state (ws_promises (settle_close x st)) (wr_closed_promise (ws_writers st i)) =
        pr_state (ws_promises st) (wr_closed_promise (ws_writers st i))"
    and "ws_mono st (settle_close x st)"
proof -
  note base = winvD(1) [OF inv]
  note fresh = frame_fresh [OF wbaseD(1) [OF base]]
  note f = close_in_flight [OF inv]
  from f(1) obtain p where p: "s_in_flight_close_request (ws_stream st) = Some p" ..
  have r: "0 < req (RClose # F) st p" using p by (simp add: req_def)
  let ?st = "settle_close x st"
  have obl: "obl F ?st = obl F st" by (simp add: obl_def settle_close_def)
  show "control_ok F ?st"
    using wbaseD(1) [OF base] p fresh
    by (simp add: control_ok_def Let_def obl active_def) (auto simp: settle_close_def)
  show "locking_ok ?st" using wbaseD(2) [OF base] by (simp add: locking_ok_def settle_close_def)
  show "accounting F ?st"
    by (rule accounting_settle_request [OF wbaseD(3) [OF base], where p = p and x = x])
      (use p x f(5) req_pending [OF wbaseD(3) [OF base] r] in
        \<open>auto simp: req_def settle_close_def obl_def settle_pending\<close>)
  show "pr_state (ws_promises ?st) (wr_ready_promise (ws_writers st i)) =
        pr_state (ws_promises st) (wr_ready_promise (ws_writers st i)) \<and>
      pr_state (ws_promises ?st) (wr_closed_promise (ws_writers st i)) =
        pr_state (ws_promises st) (wr_closed_promise (ws_writers st i))"
    if "s_writer (ws_stream st) = Some i"
    using request_not_writer [OF wbaseD(3) [OF base] r that] by (auto simp: settle_close_def p)
  show "ws_mono st ?st" by (simp add: ws_mono_def settle_close_def)
qed

text \<open>The promise of a pending abort request is settled and the slot emptied.\<close>

definition settle_abort :: "pstate \<Rightarrow> ws \<Rightarrow> ws" where
  "settle_abort x st =
     (case s_pending_abort_request (ws_stream st) of
        None \<Rightarrow> st
      | Some a \<Rightarrow> on_promises (settle (pa_promise a) x)
          (on_stream (\<lambda>s. s\<lparr>s_pending_abort_request := None\<rparr>) st))"

lemma settle_abort_ok:
  assumes control: "control_ok F st" and locking: "locking_ok st" and acc: "accounting F st"
    and x: "x \<noteq> Pending"
  shows "control_ok F (settle_abort x st)" and "locking_ok (settle_abort x st)"
    and "accounting F (settle_abort x st)"
    and "s_writer (ws_stream st) = Some i \<Longrightarrow>
      pr_state (ws_promises (settle_abort x st)) (wr_ready_promise (ws_writers st i)) =
        pr_state (ws_promises st) (wr_ready_promise (ws_writers st i)) \<and>
      pr_state (ws_promises (settle_abort x st)) (wr_closed_promise (ws_writers st i)) =
        pr_state (ws_promises st) (wr_closed_promise (ws_writers st i))"
    and "ws_mono st (settle_abort x st)"
    and "settle_abort x st =
      st\<lparr>ws_stream := (ws_stream st)\<lparr>s_pending_abort_request := None\<rparr>,
         ws_promises := ws_promises (settle_abort x st)\<rparr>"
    and "pr_next (ws_promises (settle_abort x st)) = pr_next (ws_promises st)"
proof -
  let ?st = "settle_abort x st"
  have all: "control_ok F ?st \<and> locking_ok ?st \<and> accounting F ?st \<and>
      (\<forall>i. s_writer (ws_stream st) = Some i \<longrightarrow>
        pr_state (ws_promises ?st) (wr_ready_promise (ws_writers st i)) =
          pr_state (ws_promises st) (wr_ready_promise (ws_writers st i)) \<and>
        pr_state (ws_promises ?st) (wr_closed_promise (ws_writers st i)) =
          pr_state (ws_promises st) (wr_closed_promise (ws_writers st i))) \<and> ws_mono st ?st"
  proof (cases "s_pending_abort_request (ws_stream st)")
    case None
    with assms show ?thesis by (simp add: settle_abort_def)
  next
    case (Some a)
    let ?p = "pa_promise a"
    have st: "?st = on_promises (settle ?p x)
        (on_stream (\<lambda>s. s\<lparr>s_pending_abort_request := None\<rparr>) st)"
      by (simp add: settle_abort_def Some)
    have r: "0 < req F st ?p" using Some by (simp add: req_def)
    have "control_ok F ?st" using control by (simp add: st control_defs)
    moreover have "locking_ok ?st" using locking by (simp add: st locking_ok_def)
    moreover have "accounting F ?st"
      by (rule accounting_settle_request [OF acc, where p = ?p and x = x])
        (use Some x req_pending [OF acc r] in \<open>auto simp: req_def st obl_def settle_pending\<close>)
    moreover have "ws_mono st ?st" by (simp add: ws_mono_def st)
    ultimately show ?thesis using request_not_writer [OF acc r] by (auto simp: st)
  qed
  then show "control_ok F ?st" "locking_ok ?st" "accounting F ?st" "ws_mono st ?st" by blast+
  show "pr_state (ws_promises ?st) (wr_ready_promise (ws_writers st i)) =
        pr_state (ws_promises st) (wr_ready_promise (ws_writers st i)) \<and>
      pr_state (ws_promises ?st) (wr_closed_promise (ws_writers st i)) =
        pr_state (ws_promises st) (wr_closed_promise (ws_writers st i))"
    if "s_writer (ws_stream st) = Some i" using all that by blast
  show "?st = st\<lparr>ws_stream := (ws_stream st)\<lparr>s_pending_abort_request := None\<rparr>,
         ws_promises := ws_promises ?st\<rparr>"
    by (cases st, cases "ws_stream st") (auto simp: settle_abort_def split: option.split)
  show "pr_next (ws_promises ?st) = pr_next (ws_promises st)"
    by (simp add: settle_abort_def split: option.split)
qed

context sink_user
begin

lemma close_promise_rejected_ok:
  assumes inv: "winv (RClose # F) st"
  shows "wp (close_promise_rejected U e st) (\<lambda>st'. winv F st' \<and> ws_mono st st')"
proof -
  note f = close_in_flight [OF inv]
  from f(1) obtain p where p: "s_in_flight_close_request (ws_stream st) = Some p" ..
  let ?st1 = "settle_close (Rejected e) st" and ?st2 = "settle_abort (Rejected e) (settle_close (Rejected e) st)"
  note s = settle_close_ok [OF inv, of "Rejected e", simplified]
  note a = settle_abort_ok [OF s(1-3), of "Rejected e", simplified]
  have same: "ws_stream ?st2 = (ws_stream st)\<lparr>s_in_flight_close_request := None, s_pending_abort_request := None\<rparr>"
    "ws_controller ?st2 = ws_controller st" "ws_writers ?st2 = ws_writers st"
    "pr_next (ws_promises ?st2) = pr_next (ws_promises st)"
    using a(7) by (subst a(6), simp add: settle_close_def)+
  have w: "wr_ready_promise (ws_writers ?st2 i) < pr_next (ws_promises ?st2) \<and>
      wr_closed_promise (ws_writers ?st2 i) < pr_next (ws_promises ?st2) \<and>
      pr_state (ws_promises ?st2) (wr_closed_promise (ws_writers ?st2 i)) = Pending \<and>
      (ws_state st = WsErroring \<longrightarrow>
         pr_state (ws_promises ?st2) (wr_ready_promise (ws_writers ?st2 i)) =
         Rejected (s_stored_error (ws_stream st)))"
    if "s_writer (ws_stream ?st2) = Some i" for i
  proof -
    have i: "s_writer (ws_stream st) = Some i" using that by (simp add: same)
    have i1: "s_writer (ws_stream ?st1) = Some i" using i by (simp add: settle_close_def)
    have "ws_writers ?st1 = ws_writers st" by (simp add: settle_close_def)
    with writer_okD [OF wbaseD(4) [OF winvD(1) [OF inv]] i] a(4) [OF i1] s(4) [OF i] f(3)
    show ?thesis by (auto simp: same writer_promises_ok_def Let_def active_def)
  qed
  have act: "ws_state st = WsWritable \<or> ws_state st = WsErroring" using f(3) by (simp add: active_def)
  have "wp (deal_with_rejection U e ?st2) (\<lambda>st'. winv F st' \<and> ws_mono ?st2 st')"
  proof (cases "ws_state st = WsWritable")
    case True
    with start_erroring_open_ok [OF a(1-3), of e] w show ?thesis
      by (auto simp: deal_with_rejection_def same writer_open_def elim!: wp_mono)
  next
    case False
    with act have E: "ws_state st = WsErroring" by blast
    have "writer_ok ?st2"
      by (rule writer_okI) (use w E in \<open>auto simp: writer_promises_ok_def Let_def same\<close>)
    then have "wbase F ?st2" by (rule wbaseI [OF a(1-3)])
    from finish_erroring_ok [OF this] E f show ?thesis
      by (simp add: deal_with_rejection_def same closing_defs)
  qed
  moreover have "ws_mono st ?st2" by (rule ws_mono_trans [OF s(5) a(5)])
  ultimately have "wp (deal_with_rejection U e ?st2) (\<lambda>st'. winv F st' \<and> ws_mono st st')"
    by (rule wp_then)
  moreover have "close_promise_rejected U e st = deal_with_rejection U e ?st2"
    using p act
    by (auto simp: close_promise_rejected_def finish_in_flight_close_with_error_def
        settle_close_def settle_abort_def require_def Let_def split: option.split)
  ultimately show ?thesis by simp
qed

lemma close_promise_fulfilled_ok:
  assumes inv: "winv (RClose # F) st"
  shows "wp (close_promise_fulfilled U st) (\<lambda>st'. winv F st' \<and> ws_mono st st')"
proof -
  note f = close_in_flight [OF inv]
  from f(1) obtain p where p: "s_in_flight_close_request (ws_stream st) = Some p" ..
  let ?ok = "Fulfilled JUndefined"
  let ?st2 = "settle_abort ?ok (settle_close ?ok st)"
  note s = settle_close_ok [OF inv, of ?ok, simplified]
  note a = settle_abort_ok [OF s(1-3), of ?ok, simplified]
  have same: "ws_stream ?st2 = (ws_stream st)\<lparr>s_in_flight_close_request := None, s_pending_abort_request := None\<rparr>"
    "ws_controller ?st2 = ws_controller st" "ws_writers ?st2 = ws_writers st"
    "pr_next (ws_promises ?st2) = pr_next (ws_promises st)"
    using a(7) by (subst a(6), simp add: settle_close_def)+
  have act: "ws_state st = WsWritable \<or> ws_state st = WsErroring" using f(3) by (simp add: active_def)
  have noabort: "s_pending_abort_request (ws_stream st) = None" if "ws_state st = WsWritable"
    using winvD(5) [OF inv] that by (simp add: no_abort_yet_def)
  have undef: "s_stored_error (ws_stream st) = JUndefined" if "ws_state st = WsWritable"
    using controlD(10) [OF wbaseD(1) [OF winvD(1) [OF inv]] that] .
  let ?close = "\<lambda>st. on_stream (\<lambda>s. s\<lparr>s_state := WsClosed, s_stored_error := JUndefined\<rparr>) st"
  let ?st3 = "?close ?st2"
  let ?st4 = "case s_writer (ws_stream st) of None \<Rightarrow> ?st3
    | Some i \<Rightarrow> on_promises (settle (wr_closed_promise (ws_writers st i)) ?ok) ?st3"
  have eq: "close_promise_fulfilled U st = Some ?st4"
  proof (cases "ws_state st = WsWritable")
    case True
    have "(ws_stream st)\<lparr>s_state := WsClosed, s_in_flight_close_request := None, s_stored_error := JUndefined\<rparr> =
        (ws_stream st)\<lparr>s_state := WsClosed, s_in_flight_close_request := None\<rparr>"
      using undef [OF True] by (cases "ws_stream st") simp
    with True noabort undef p show ?thesis
      by (simp add: close_promise_fulfilled_def finish_in_flight_close_def settle_close_def
          settle_abort_def require_def Let_def split: option.split)
  next
    case False
    with act p show ?thesis
      by (auto simp: close_promise_fulfilled_def finish_in_flight_close_def settle_close_def
          settle_abort_def require_def Let_def split: option.split)
  qed
  have "control_ok F ?st3"
  proof -
    have obl: "obl F (?st2\<lparr>ws_stream := s\<rparr>) = obl F ?st2" for s by (simp add: obl_def)
    have noabort: "RAbort q \<notin> set (obl F ?st2)" for q
      using controlD(6) [OF a(1), of q] act by (auto simp: same)
    have "RStart \<notin> set (obl F ?st2)" using controlD(3) [OF a(1)] f(2) by (auto simp: same)
    with controlD(1,2,4,5,13) [OF a(1)] noabort f show ?thesis
      by (simp add: control_ok_def Let_def obl active_def same)
  qed
  then have control: "control_ok F ?st4" by (cases "s_writer (ws_stream st)") simp_all
  have "locking_ok ?st3" using a(2) by (simp add: locking_ok_def)
  then have locking: "locking_ok ?st4" by (cases "s_writer (ws_stream st)") simp_all
  have acc3: "accounting F ?st3"
    by (rule accounting_same [OF a(3)]) (simp_all add: req_def obl_def)
  have "accounting F ?st4 \<and> writer_ok ?st4"
  proof (cases "s_writer (ws_stream st)")
    case None
    with acc3 show ?thesis by (simp add: writer_ok_def same)
  next
    case (Some i)
    have i1: "s_writer (ws_stream (settle_close ?ok st)) = Some i" using Some by (simp add: settle_close_def)
    have w1: "ws_writers (settle_close ?ok st) = ws_writers st" by (simp add: settle_close_def)
    have i3: "s_writer (ws_stream ?st3) = Some i" using Some by (simp add: same)
    have "accounting F (on_promises (settle (wr_closed_promise (ws_writers st i)) ?ok) ?st3)"
      by (rule accounting_settle_writer [OF acc3 _ i3, where p = "wr_closed_promise (ws_writers st i)" and x = ?ok])
        (auto simp: req_def obl_def settle_def same)
    moreover have "writer_ok (on_promises (settle (wr_closed_promise (ws_writers st i)) ?ok) ?st3)"
      using writer_okD [OF wbaseD(4) [OF winvD(1) [OF inv]] Some] a(4) [OF i1] s(4) [OF Some] f(3) w1 Some p
      by (auto simp: writer_ok_def writer_promises_ok_def Let_def same active_def closing_defs)
    ultimately show ?thesis using Some by simp
  qed
  then have "wbase F ?st4" using control locking by (simp add: wbase_def)
  moreover have "ws_state ?st4 = WsClosed" by (cases "s_writer (ws_stream st)") simp_all
  ultimately have "winv F ?st4" by (rule winv_closed)
  moreover have "ws_mono ?st2 ?st4"
    using act by (cases "s_writer (ws_stream st)") (auto simp: ws_mono_def same)
  ultimately show ?thesis using eq ws_mono_trans [OF ws_mono_trans [OF s(5) a(5)]] by simp
qed

lemma abort_promise_fulfilled_ok:
  assumes "winv (RAbort p # F) st"
  shows "wp (abort_promise_fulfilled p st) (\<lambda>st'. winv F st' \<and> ws_mono st st')"
proof -
  note s = settle_abort_frame [OF winvD(1) [OF assms], of "Fulfilled JUndefined", simplified]
  show ?thesis
    unfolding abort_promise_fulfilled_def
    by (rule wp_then [OF reject_close_and_closed_ok [OF s(1)] s(2)]) (simp add: s(3))
qed

lemma abort_promise_rejected_ok:
  assumes "winv (RAbort p # F) st"
  shows "wp (abort_promise_rejected p e st) (\<lambda>st'. winv F st' \<and> ws_mono st st')"
proof -
  note s = settle_abort_frame [OF winvD(1) [OF assms], of "Rejected e", simplified]
  show ?thesis
    unfolding abort_promise_rejected_def
    by (rule wp_then [OF reject_close_and_closed_ok [OF s(1)] s(2)]) (simp add: s(3))
qed

end

end
