(* ===== verification/Writable_Loop.thy ===== *)
theory Writable_Loop
  imports Writable_Reactions
begin

text \<open>
  The loop closed: every command of the interface keeps the invariant when user code does, so
  user code that acts through the interface does, at any depth of nesting; and creation
  establishes it.
\<close>

section \<open>Commands\<close>

lemma winv_take_reaction:
  assumes inv: "winv F st" and n: "n < length (ws_reactions st)" and k: "ws_reactions st ! n = (k, p)"
  shows "winv (k # F)
    (st\<lparr>ws_reactions := take n (ws_reactions st) @ drop (Suc n) (ws_reactions st)\<rparr>)"
proof -
  have rs: "ws_reactions st = take n (ws_reactions st) @ (k, p) # drop (Suc n) (ws_reactions st)"
    using id_take_nth_drop [OF n] k by simp
  let ?st = "st\<lparr>ws_reactions := take n (ws_reactions st) @ drop (Suc n) (ws_reactions st)\<rparr>"
  have "set (obl (k # F) ?st) = set (obl F st)"
    unfolding obl_def by (subst (3) rs) auto
  moreover have "distinct (obl (k # F) ?st) = distinct (obl F st)"
    unfolding obl_def by (subst (3) rs) auto
  ultimately have "winv (k # F) ?st = winv F st" by (rule winv_cong) simp_all
  with inv show ?thesis by simp
qed

lemma ws_mono_reactions [simp]: "ws_mono (st\<lparr>ws_reactions := rs\<rparr>) st' = ws_mono st st'"
  by (simp add: ws_mono_def)

context sink_user
begin

lemma reaction_ok:
  assumes "winv (k # F) st"
  shows "wp (case r of None \<Rightarrow> fulfilled U k st | Some e \<Rightarrow> rejected U k e st)
    (\<lambda>st'. winv F st' \<and> ws_mono st st')"
  using assms start_promise_fulfilled_ok start_promise_rejected_ok write_promise_fulfilled_ok
    write_promise_rejected_ok close_promise_fulfilled_ok close_promise_rejected_ok
    abort_promise_fulfilled_ok abort_promise_rejected_ok
  by (cases r; cases k) (simp_all add: fulfilled_def rejected_def)

lemma run_reaction_ok:
  assumes inv: "winv F st"
  shows "wp (run_reaction U n outcome st) (\<lambda>st'. winv F st' \<and> ws_mono st st')"
proof (cases "n < length (ws_reactions st)")
  case True
  obtain k p where kp: "ws_reactions st ! n = (k, p)" by (cases "ws_reactions st ! n")
  from reaction_ok [OF winv_take_reaction [OF inv True kp], of
      "case p of Resolved \<Rightarrow> None | RejectedWith e \<Rightarrow> Some e | Unsettled \<Rightarrow> outcome"]
  show ?thesis using True by (simp add: run_reaction_def kp Let_def)
next
  case False
  with inv show ?thesis by (simp add: run_reaction_def)
qed

lemma controller_error_method_ok:
  "winv F st \<Longrightarrow> wp (controller_error_method U e st) (\<lambda>(st', r). winv F st' \<and> ws_mono st st')"
  using controller_error_ok [of F st, OF winvD(1)] by (simp add: controller_error_method_def)

lemma ws_exec_ok:
  assumes inv: "winv F st"
  shows "wp (ws_exec U c st) (\<lambda>st'. winv F st' \<and> ws_mono st st')"
proof -
  have fst: "wp (map_option fst m) (\<lambda>st'. winv F st' \<and> ws_mono st st')"
    if "wp m (\<lambda>(st', r). winv F st' \<and> ws_mono st st')" for m :: "(ws \<times> 'x) option"
    using that by (simp add: wp_map_option case_prod_unfold)
  show ?thesis
  proof (cases c)
    case (StreamAbort v)
    then show ?thesis using inv writable_stream_abort_ok [OF inv, of v]
      by (simp add: wp_map_option stream_abort_def case_prod_unfold)
  next
    case StreamClose
    then show ?thesis using inv writable_stream_close_ok [OF inv]
      by (simp add: wp_map_option stream_close_def case_prod_unfold)
  next
    case GetWriter
    from acquire_default_writer_ok [OF inv]
    have "wp (acquire_default_writer st) (\<lambda>(st', r). winv F st' \<and> ws_mono st st')"
      by (rule wp_mono) auto
    with GetWriter show ?thesis by (simp add: wp_map_option stream_get_writer_def case_prod_unfold)
  next
    case (WriterAbort i v)
    then show ?thesis using inv default_writer_abort_ok [OF inv, of i v]
      by (simp add: wp_map_option writer_abort_def case_prod_unfold)
  next
    case (WriterClose i)
    then show ?thesis using inv default_writer_close_ok [OF inv, of i]
      by (simp add: wp_map_option writer_close_def case_prod_unfold)
  next
    case (WriterReleaseLock i)
    then show ?thesis using inv default_writer_release_ok [OF inv, of i]
      by (simp add: wp_map_option writer_release_lock_def)
  next
    case (WriterWrite i v)
    then show ?thesis using inv default_writer_write_ok [OF inv, of i]
      by (simp add: wp_map_option writer_write_def case_prod_unfold)
  next
    case (ControllerError v)
    then show ?thesis using controller_error_method_ok [OF inv, of v] by (simp add: fst)
  next
    case (NativeAbort v)
    then show ?thesis using writable_stream_abort_ok [OF inv, of v]
      by (simp add: wp_map_option case_prod_unfold)
  next
    case (NativeCloseWithErrorPropagation i)
    then show ?thesis using inv close_with_error_propagation_ok [OF inv, of i]
      by (simp add: wp_map_option case_prod_unfold)
  next
    case (RunReaction n outcome)
    then show ?thesis using run_reaction_ok [OF inv] by simp
  qed
qed

end

sublocale sink_user \<subseteq> commands: total_command_system "ws_exec U" "winv F" ws_mono for F
proof unfold_locales
  fix st st' c
  assume inv: "winv F st" and e: "ws_exec U c st = Some st'"
  from ws_exec_ok [OF inv, of c] e show "winv F st'" and "ws_mono st st'" by simp_all
next
  fix st c
  assume "winv F st"
  from ws_exec_ok [OF this, of c] show "ws_exec U c st \<noteq> None" by (auto elim: wpE)
qed (auto intro: ws_mono_trans)

context sink_user
begin

lemma run_commands_ok:
  "winv F st \<Longrightarrow> wp (run_all (ws_exec U) cmds st) (\<lambda>st'. winv F st' \<and> ws_mono st st')"
  by (rule commands.run_total)

end

lemma js_user_sink_user: "sink_user (js_user scr n)"
proof (induction n)
  case 0
  show ?case by unfold_locales simp
next
  case (Suc n)
  show ?case
  proof unfold_locales
    fix F st call
    assume inv: "winv F st"
    obtain cmds r where s: "scr n call st = (cmds, r)" by (cases "scr n call st")
    from sink_user.run_commands_ok [OF Suc.IH inv, of cmds]
    show "wp (js_user scr (Suc n) call st) (\<lambda>(st', r). winv F st' \<and> ws_mono st st' \<and> r \<noteq> Unresolvable)"
      by (simp add: s)
  qed
qed

interpretation js: sink_user "js_user scr n" for scr n
  by (rule js_user_sink_user)

section \<open>Creation\<close>

definition all_settled :: "promises \<Rightarrow> bool" where
  "all_settled ps \<longleftrightarrow> (\<forall>p < pr_next ps. pr_state ps p \<noteq> Pending)"

text \<open>A stream as the initializer leaves it, before its controller is set up.\<close>

definition blank :: "ws \<Rightarrow> bool" where
  "blank st \<longleftrightarrow>
     ws_state st = WsWritable \<and> s_stored_error (ws_stream st) = JUndefined \<and>
     s_writer (ws_stream st) = None \<and> \<not> s_controller (ws_stream st) \<and>
     s_in_flight_write_request (ws_stream st) = None \<and> s_close_request (ws_stream st) = None \<and>
     s_in_flight_close_request (ws_stream st) = None \<and>
     s_pending_abort_request (ws_stream st) = None \<and> s_write_requests (ws_stream st) = [] \<and>
     (\<forall>i. \<not> wr_stream (ws_writers st i)) \<and> ws_reactions st = [] \<and> all_settled (ws_promises st)"

lemma blank_default: "all_settled ps \<Longrightarrow> blank (on_stream initialize_writable_stream (ws_default ps))"
  by (simp add: blank_def ws_default_def initialize_writable_stream_def)

context sink_user
begin

lemma set_up_default_controller_ok:
  assumes blank: "blank st"
  shows "wp (set_up_default_controller U al hwm size_alg st)
    (\<lambda>(st', r). (r = Inr () \<longrightarrow> winv [] st') \<and> (al_start al = ANone \<longrightarrow> r = Inr ()))"
proof -
  let ?st3 = "on_controller (\<lambda>c. c\<lparr>c_started := False, c_strategy_size_algorithm := size_alg,
      c_strategy_hwm := hwm, c_write_algorithm := al_write al,
      c_close_algorithm := al_close al, c_abort_algorithm := al_abort al\<rparr>)
      (on_controller (reset_queue writable_queue_ops) (on_stream (\<lambda>s. s\<lparr>s_controller := True\<rparr>) st))"
  note b = blank [unfolded blank_def]
  have "control_ok [RStart] ?st3"
    using b by (simp add: control_defs reset_queue_def writable_queue_ops_def queue_ok_def)
  moreover have "locking_ok ?st3" using b by (simp add: locking_ok_def)
  moreover have "accounting [RStart] ?st3"
    using b by (auto simp: accounting_def req_def obl_def wcnt_def pcnt_def all_settled_def)
  moreover have "writer_ok ?st3" using b by (simp add: writer_ok_def)
  ultimately have base: "wbase [RStart] ?st3" by (rule wbaseI)
  have open_: "\<not> close_queued_or_in_flight ?st3" and W: "ws_state ?st3 = WsWritable"
    using b by (simp_all add: closing_defs)
  from update_backpressure_ok [OF base W open_, of "get_backpressure ?st3"] obtain st4 where
    u: "update_backpressure (get_backpressure ?st3) ?st3 = Some st4"
    "updates_backpressure (get_backpressure ?st3) [RStart] ?st3 st4" by (auto elim: wpE)
  note r = updates_backpressure_rest [OF u(2)]
  have "counts ?st3" using b
    by (simp add: counts_def queue_shape_def reset_queue_def writable_queue_ops_def)
  moreover have "s_pending_abort_request (ws_stream st4) = None" "c_queue (ws_controller st4) = []"
    using u(2) b by (simp_all add: updates_backpressure_def reset_queue_def writable_queue_ops_def)
  ultimately have inv4: "winv [RStart] st4" using r W by (intro winv_writable) simp_all
  from invoke_ok [OF this, of "al_start al" "CallStart (al_start al)"] obtain st5 x where
    i: "invoke_algorithm U (al_start al) (CallStart (al_start al)) st4 = Some (st5, x)" "winv [RStart] st5"
    by (auto elim: wpE)
  moreover have "x = Returned" if "al_start al = ANone"
    using i(1) that by (simp add: invoke_algorithm_def)
  ultimately show ?thesis
    using b u(1) i winv_react [OF i(2)]
    by (cases x) (auto simp: set_up_default_controller_def Let_def)
qed

lemma writable_stream_new_ok:
  assumes "all_settled ps"
  shows "wp (writable_stream_new U sink strategy ps) (\<lambda>(st, r). r = Inr () \<longrightarrow> winv [] st)"
proof -
  have set_up: "wp (set_up_from_underlying_sink U d hwm f
      (on_stream initialize_writable_stream (ws_default ps))) (\<lambda>(st, r). r = Inr () \<longrightarrow> winv [] st)" for d hwm f
    unfolding set_up_from_underlying_sink_def
    by (rule wp_mono [OF set_up_default_controller_ok [OF blank_default [OF assms]]]) auto
  show ?thesis
    using set_up
    by (auto simp: writable_stream_new_def Let_def split: sink_argument.split sum.split)
qed

lemma create_writable_stream_ok:
  "all_settled ps \<Longrightarrow> is_non_negative_number hwm \<Longrightarrow>
     wp (create_writable_stream U al hwm f ps) (\<lambda>(st, r). r = Inr () \<longrightarrow> winv [] st)"
  unfolding create_writable_stream_def Let_def
  by (auto intro!: wp_mono [OF set_up_default_controller_ok [OF blank_default]])

end

section \<open>Sessions\<close>

text \<open>
  A session constructs a stream and then issues commands; JavaScript called on the way runs the
  script. The exception of a constructor that throws ends it.
\<close>

definition ws_run :: "script \<Rightarrow> nat \<Rightarrow> ws_cmd list \<Rightarrow> ws \<Rightarrow> ws option" where
  "ws_run scr n cmds st = run_all (ws_exec (js_user scr n)) cmds st"

definition ws_session ::
    "script \<Rightarrow> nat \<Rightarrow> sink_argument \<Rightarrow> queuing_strategy option \<Rightarrow> ws_cmd list \<Rightarrow> (jsval + ws) option" where
  "ws_session scr n sink strategy cmds =
     do {
       (st, r) \<leftarrow> writable_stream_new (js_user scr n) sink strategy no_promises;
       case r of
         Inl e \<Rightarrow> Some (Inl e)
       | Inr _ \<Rightarrow> map_option Inr (ws_run scr n cmds st)
     }"

lemma ws_run_ok: "winv F st \<Longrightarrow> wp (ws_run scr n cmds st) (\<lambda>st'. winv F st' \<and> ws_mono st st')"
  unfolding ws_run_def by (rule js.run_commands_ok)

lemma ws_session_ok:
  "wp (ws_session scr n sink strategy cmds) (\<lambda>r. \<forall>st. r = Inr st \<longrightarrow> winv [] st)"
proof -
  have "all_settled no_promises" by (simp add: all_settled_def no_promises_def)
  from js.writable_stream_new_ok [OF this, of scr n sink strategy] obtain st r where
    n: "writable_stream_new (js_user scr n) sink strategy no_promises = Some (st, r)"
    and inv: "r = Inr () \<Longrightarrow> winv [] st" by (auto elim: wpE)
  show ?thesis
  proof (cases r)
    case (Inl e)
    then show ?thesis by (simp add: ws_session_def n)
  next
    case (Inr u)
    then have "winv [] st" using inv by simp
    from ws_run_ok [OF this, of scr n cmds] show ?thesis
      by (auto simp: ws_session_def n Inr wp_map_option elim: wp_mono)
  qed
qed

lemma ws_session_inv: "ws_session scr n sink strategy cmds = Some (Inr st) \<Longrightarrow> winv [] st"
  using ws_session_ok [of scr n sink strategy cmds] by simp

end
