(* ===== verification/Writable_Claims.thy ===== *)
theory Writable_Claims
  imports Writable_Loop
begin

text \<open>
  The properties of the writable streams and of the queue-with-sizes. A property of a session
  holds for every script that JavaScript may be, every depth of nesting, every sink and strategy,
  and every list of commands.
\<close>

section \<open>Examples\<close>

text \<open>A sink with all its algorithms and JavaScript that does nothing when it is called.\<close>

definition example_sink :: sink_argument where
  "example_sink = SinkObject (Inr \<lparr>us_start = Some 0, us_write = Some 1, us_close = Some 2,
     us_abort = Some 3, us_type = False\<rparr>)"

definition quiet :: script where
  "quiet n call st = ([], Returned)"

definition example_state :: "ws_cmd list \<Rightarrow> ws" where
  "example_state cmds =
     (case ws_session quiet 1 example_sink None cmds of
        Some (Inr st) \<Rightarrow> st | _ \<Rightarrow> ws_default no_promises)"

lemma example_session:
  "(case ws_session quiet 1 example_sink None cmds of Some (Inr st) \<Rightarrow> True | _ \<Rightarrow> False) \<Longrightarrow>
     ws_session quiet 1 example_sink None cmds = Some (Inr (example_state cmds))"
  by (simp add: example_state_def split: option.splits sum.splits)

text \<open>A stream whose write is in flight, and one whose write has failed.\<close>

abbreviation writing_cmds :: "ws_cmd list" where
  "writing_cmds \<equiv> [GetWriter, RunReaction 0 None, WriterWrite 0 (Some (JUser 7)), WriterWrite 0 None]"

abbreviation failed_cmds :: "ws_cmd list" where
  "failed_cmds \<equiv> [GetWriter, RunReaction 0 None, WriterWrite 0 None, RunReaction 0 (Some (JUser 9))]"

lemma writing_session:
  "ws_session quiet 1 example_sink None writing_cmds = Some (Inr (example_state writing_cmds))"
  by (rule example_session) code_simp

lemma failed_session:
  "ws_session quiet 1 example_sink None failed_cmds = Some (Inr (example_state failed_cmds))"
  by (rule example_session) code_simp

section \<open>Safety\<close>

text \<open>C2: whatever JavaScript does, no assertion, \<open>expect\<close> or \<open>unwrap\<close> of the writable streams
  is ever reached with its condition false: no session panics.\<close>

theorem writable_sessions_never_panic:
  "ws_session scr n sink strategy cmds \<noteq> None"
  using ws_session_ok [of scr n sink strategy cmds] by (auto elim: wpE)

text \<open>C12: nothing is undone. More commands never panic, and after them a closed stream is closed,
  an errored one is errored with the same stored error, an erroring one is not writable again, a
  settled promise has the state it had, and the abort signal keeps its reason.\<close>

theorem writable_states_move_forward:
  assumes "ws_session scr n sink strategy cmds = Some (Inr st)"
  shows "wp (ws_run scr n later st) (\<lambda>st'.
    (ws_state st = WsClosed \<longrightarrow> ws_state st' = WsClosed) \<and>
    (ws_state st = WsErrored \<longrightarrow>
       ws_state st' = WsErrored \<and> s_stored_error (ws_stream st') = s_stored_error (ws_stream st)) \<and>
    (ws_state st = WsErroring \<longrightarrow> ws_state st' \<noteq> WsWritable) \<and>
    (\<forall>p < pr_next (ws_promises st). pr_state (ws_promises st) p \<noteq> Pending \<longrightarrow>
       pr_state (ws_promises st') p = pr_state (ws_promises st) p) \<and>
    (c_abort_reason (ws_controller st) \<noteq> None \<longrightarrow>
       c_abort_reason (ws_controller st') = c_abort_reason (ws_controller st)))"
  by (rule wp_mono [OF ws_run_ok [OF ws_session_inv [OF assms]]])
    (auto simp: ws_mono_def keeps_settled_def)

lemma writable_states_move_forward_witness:
  "wp (ws_run quiet 1 [WriterWrite 0 None, StreamClose] (example_state failed_cmds)) (\<lambda>st'.
     ws_state st' = WsErrored \<and> s_stored_error (ws_stream st') = JUser 9)"
proof -
  have "ws_state (example_state failed_cmds) = WsErrored \<and>
      s_stored_error (ws_stream (example_state failed_cmds)) = JUser 9" by code_simp
  then show ?thesis
    using writable_states_move_forward [OF failed_session, of "[WriterWrite 0 None, StreamClose]"]
    by (auto elim: wp_mono)
qed

text \<open>C4: every promise that is pending is in exactly one place: the list of write requests, one
  of the slots for what is in flight, the close request, the pending abort, an abort that waits
  for the sink, or the \<open>ready\<close> or \<open>closed\<close> promise of the stream's writer. And every request in one
  of those places is pending.\<close>

theorem pending_promises_are_owned_once:
  assumes "ws_session scr n sink strategy cmds = Some (Inr st)"
  shows "req [] st p + wcnt st p =
    (if p < pr_next (ws_promises st) \<and> pr_state (ws_promises st) p = Pending then 1 else 0)"
  using accountingD [OF wbaseD(3) [OF winvD(1) [OF ws_session_inv [OF assms]]], of p]
  by (simp add: pcnt_def)

lemma pending_promises_are_owned_once_witness:
  "req [] (example_state writing_cmds) 2 + wcnt (example_state writing_cmds) 2 = 1"
proof -
  have "2 < pr_next (ws_promises (example_state writing_cmds)) \<and>
      pr_state (ws_promises (example_state writing_cmds)) 2 = Pending" by code_simp
  then show ?thesis using pending_promises_are_owned_once [OF writing_session, of 2] by simp
qed

text \<open>C6: no request is forgotten: while a write, close or abort is pending, a reaction to one of
  the sink's promises is still to run.\<close>

theorem pending_requests_wait_for_the_sink:
  assumes "ws_session scr n sink strategy cmds = Some (Inr st)" and "0 < req [] st p"
  shows "ws_reactions st \<noteq> []"
proof
  assume none: "ws_reactions st = []"
  note inv = ws_session_inv [OF assms(1)]
  note c = controlD [OF wbaseD(1) [OF winvD(1) [OF inv]]]
  have o: "obl [] st = []" using none by (simp add: obl_def)
  have idle: "c_started (ws_controller st)" "s_in_flight_write_request (ws_stream st) = None"
    "s_in_flight_close_request (ws_stream st) = None"
    using c(3-5) by (simp_all add: o)
  have "ws_state st \<noteq> WsErroring"
    using winvD(6) [OF inv] idle by (auto simp: waiting_def closing_defs)
  moreover have "ws_state st = WsWritable \<Longrightarrow> req [] st p = 0"
    using winvD(2,5,6) [OF inv] idle
    by (auto simp: waiting_def counts_def queue_shape_def no_abort_yet_def req_def o split: if_splits)
  moreover have "\<not> active st \<Longrightarrow> req [] st p = 0"
    using c(11,12) winvD(4) [OF inv] idle
    by (cases "ws_state st") (auto simp: req_def o aborting_def active_def)
  ultimately show False using assms(2) by (cases "ws_state st") (auto simp: active_def)
qed

lemma pending_requests_wait_for_the_sink_witness:
  "ws_reactions (example_state writing_cmds) \<noteq> []"
  by (rule pending_requests_wait_for_the_sink [OF writing_session, of 2]) code_simp

text \<open>C24: once a stream is closed, or errored with no abort left to answer, no promise it handed
  out stays pending.\<close>

theorem finished_streams_settle_everything:
  assumes "ws_session scr n sink strategy cmds = Some (Inr st)"
    and "ws_state st = WsClosed \<or> ws_state st = WsErrored \<and> ws_reactions st = []"
  shows "\<forall>p < pr_next (ws_promises st). pr_state (ws_promises st) p \<noteq> Pending"
proof (intro allI impI notI)
  fix p assume p: "p < pr_next (ws_promises st)" "pr_state (ws_promises st) p = Pending"
  note inv = ws_session_inv [OF assms(1)]
  note base = winvD(1) [OF inv] and c = controlD [OF wbaseD(1) [OF winvD(1) [OF inv]]]
  have na: "\<not> active st" using assms(2) by (auto simp: active_def)
  have idle: "s_in_flight_write_request (ws_stream st) = None"
    "s_in_flight_close_request (ws_stream st) = None" using c(7,8) na by blast+
  have noabort: "RAbort q \<notin> set (obl [] st)" for q
  proof
    assume r: "RAbort q \<in> set (obl [] st)"
    with c(6) [OF r] assms(2) show False by (auto simp: obl_def)
  qed
  have close: "s_close_request (ws_stream st) = None"
    using assms(2) c(12) winvD(4) [OF inv] noabort by (auto simp: aborting_def)
  have "req [] st p = 0" using c(11) [OF na] idle close noabort by (simp add: req_def)
  moreover have "wcnt st p = 0"
  proof (cases "s_writer (ws_stream st)")
    case (Some i)
    have "pr_state (ws_promises st) (wr_closed_promise (ws_writers st i)) \<noteq> Pending"
      "pr_state (ws_promises st) (wr_ready_promise (ws_writers st i)) \<noteq> Pending"
      using writer_okD [OF wbaseD(4) [OF base] Some] assms(2) winvD(4) [OF inv] noabort Some
      by (auto simp: writer_promises_ok_def Let_def aborting_def)
    then show ?thesis using Some by (auto simp: wcnt_def)
  qed (simp add: wcnt_def)
  ultimately show False
    using accountingD [OF wbaseD(3) [OF base], of p] p by (simp add: pcnt_def)
qed

lemma finished_streams_settle_everything_witness:
  "pr_state (ws_promises (example_state failed_cmds)) 2 \<noteq> Pending"
proof -
  have "ws_state (example_state failed_cmds) = WsClosed \<or>
      ws_state (example_state failed_cmds) = WsErrored \<and> ws_reactions (example_state failed_cmds) = []"
    "2 < pr_next (ws_promises (example_state failed_cmds))" by code_simp+
  with finished_streams_settle_everything [OF failed_session] show ?thesis by blast
qed

section \<open>The sink and the queue\<close>

text \<open>C10: the sink is never called again while it works: a write or a close is in flight exactly
  when its reaction is to come, there is at most one of the two, and neither before the sink has
  started. The chunk in flight is the one at the head of the queue, and a close is only in flight
  when every chunk has been written.\<close>

theorem sink_operations_do_not_overlap:
  assumes "ws_session scr n sink strategy cmds = Some (Inr st)"
  shows "distinct (map fst (ws_reactions st)) \<and>
    (RStart \<in> fst ` set (ws_reactions st)) = (\<not> c_started (ws_controller st)) \<and>
    (RWrite \<in> fst ` set (ws_reactions st)) = (s_in_flight_write_request (ws_stream st) \<noteq> None) \<and>
    (RClose \<in> fst ` set (ws_reactions st)) = (s_in_flight_close_request (ws_stream st) \<noteq> None) \<and>
    \<not> (RStart \<in> fst ` set (ws_reactions st) \<and> RWrite \<in> fst ` set (ws_reactions st)) \<and>
    \<not> (RStart \<in> fst ` set (ws_reactions st) \<and> RClose \<in> fst ` set (ws_reactions st)) \<and>
    \<not> (RWrite \<in> fst ` set (ws_reactions st) \<and> RClose \<in> fst ` set (ws_reactions st)) \<and>
    (RWrite \<in> fst ` set (ws_reactions st) \<longrightarrow> (\<exists>v z q. c_queue (ws_controller st) = Chunk v z # q)) \<and>
    (RClose \<in> fst ` set (ws_reactions st) \<longrightarrow>
       c_queue (ws_controller st) = [] \<and> s_write_requests (ws_stream st) = [])"
proof -
  note c = controlD [OF wbaseD(1) [OF winvD(1) [OF ws_session_inv [OF assms]]]]
  show ?thesis using c(2-5,7,8) by (auto simp: obl_def)
qed

lemma sink_operations_do_not_overlap_witness:
  "\<exists>v z q. c_queue (ws_controller (example_state writing_cmds)) = Chunk v z # q"
proof -
  have "RWrite \<in> fst ` set (ws_reactions (example_state writing_cmds))" by code_simp
  then show ?thesis using sink_operations_do_not_overlap [OF writing_session] by simp
qed

text \<open>While the stream is writable its queue holds one chunk for each write that has not been
  answered, in order, and then the close sentinel if a close is requested. The queue moves: it is
  empty unless a write is in flight or the sink has not started.\<close>

theorem queue_matches_requests:
  assumes "ws_session scr n sink strategy cmds = Some (Inr st)" and "ws_state st = WsWritable"
  shows "(\<exists>cs. CloseSentinel \<notin> set cs \<and>
      length cs = length (s_write_requests (ws_stream st)) +
        (if s_in_flight_write_request (ws_stream st) = None then 0 else 1) \<and>
      c_queue (ws_controller st) =
        cs @ (if s_close_request (ws_stream st) = None then [] else [CloseSentinel])) \<and>
    (s_in_flight_write_request (ws_stream st) = None \<and> c_started (ws_controller st) \<longrightarrow>
      c_queue (ws_controller st) = [])"
proof -
  note inv = ws_session_inv [OF assms(1)]
  have "list_all (\<lambda>x. x \<noteq> CloseSentinel) cs \<longleftrightarrow> CloseSentinel \<notin> set cs" for cs
    by (auto simp: list_all_iff)
  then show ?thesis
    using winvD(2,6) [OF inv] assms(2)
    by (auto simp: counts_def queue_shape_def waiting_def of_bool_def split: if_splits)
qed

lemma queue_matches_requests_witness:
  "ws_state (example_state writing_cmds) = WsWritable \<and>
   (\<exists>cs. CloseSentinel \<notin> set cs \<and> length cs = 2 \<and> c_queue (ws_controller (example_state writing_cmds)) = cs)"
proof -
  have s: "ws_state (example_state writing_cmds) = WsWritable" by code_simp
  have "length (s_write_requests (ws_stream (example_state writing_cmds))) = 1 \<and>
      s_in_flight_write_request (ws_stream (example_state writing_cmds)) \<noteq> None \<and>
      s_close_request (ws_stream (example_state writing_cmds)) = None" by code_simp
  with queue_matches_requests [OF writing_session s] s show ?thesis by auto
qed

text \<open>C23: backpressure. While the stream is writable and not closing, its backpressure flag says
  that the desired size is not positive, and the writer's \<open>ready\<close> promise is pending exactly while
  it is set.\<close>

theorem backpressure_follows_desired_size:
  assumes "ws_session scr n sink strategy cmds = Some (Inr st)"
    and "ws_state st = WsWritable" and "\<not> close_queued_or_in_flight st"
  shows "s_backpressure (ws_stream st) = f64_le (get_desired_size st) f64_zero \<and>
    (\<forall>i. s_writer (ws_stream st) = Some i \<longrightarrow>
       pr_state (ws_promises st) (wr_ready_promise (ws_writers st i)) =
         (if f64_le (get_desired_size st) f64_zero then Pending else Fulfilled JUndefined))"
proof -
  note inv = ws_session_inv [OF assms(1)]
  have "s_backpressure (ws_stream st) = f64_le (get_desired_size st) f64_zero"
    using winvD(3) [OF inv] assms(2,3) by (simp add: synced_def get_backpressure_def)
  then show ?thesis
    using writer_okD [OF wbaseD(4) [OF winvD(1) [OF inv]]] assms(2,3)
    by (auto simp: writer_promises_ok_def Let_def)
qed

lemma backpressure_follows_desired_size_witness:
  "s_backpressure (ws_stream (example_state writing_cmds)) \<and>
   pr_state (ws_promises (example_state writing_cmds))
     (wr_ready_promise (ws_writers (example_state writing_cmds) 0)) = Pending"
proof -
  have s: "ws_state (example_state writing_cmds) = WsWritable"
    "\<not> close_queued_or_in_flight (example_state writing_cmds)"
    "s_writer (ws_stream (example_state writing_cmds)) = Some 0"
    "f64_le (get_desired_size (example_state writing_cmds)) f64_zero" by code_simp+
  with backpressure_follows_desired_size [OF writing_session s(1,2)] show ?thesis by simp
qed

section \<open>Writers\<close>

text \<open>At most one writer is attached, it is the stream's, and its promises tell the stream's
  state: \<open>closed\<close> is pending exactly until the stream is closed or has failed for good, then
  fulfilled or rejected with the stored error, with which \<open>ready\<close> is rejected as soon as the
  stream is erroring.\<close>

theorem writer_promises_tell_the_state:
  assumes "ws_session scr n sink strategy cmds = Some (Inr st)" and "wr_stream (ws_writers st i)"
  shows "s_writer (ws_stream st) = Some i \<and>
    (\<forall>j. wr_stream (ws_writers st j) \<longrightarrow> j = i) \<and>
    (let closed = pr_state (ws_promises st) (wr_closed_promise (ws_writers st i));
         ready = pr_state (ws_promises st) (wr_ready_promise (ws_writers st i))
     in (active st \<longrightarrow> closed = Pending) \<and>
        (ws_state st = WsClosed \<longrightarrow> closed = Fulfilled JUndefined) \<and>
        (ws_state st = WsErrored \<and> ws_reactions st = [] \<longrightarrow>
           closed = Rejected (s_stored_error (ws_stream st))) \<and>
        (ws_state st = WsErroring \<or> ws_state st = WsErrored \<longrightarrow>
           ready = Rejected (s_stored_error (ws_stream st))))"
proof -
  note inv = ws_session_inv [OF assms(1)]
  note base = winvD(1) [OF inv]
  have w: "s_writer (ws_stream st) = Some i" and one: "wr_stream (ws_writers st j) \<Longrightarrow> j = i" for j
    using wbaseD(2) [OF base] assms(2) by (auto simp: locking_ok_def)
  have "ws_state st = WsErrored \<Longrightarrow> ws_reactions st = [] \<Longrightarrow>
      pr_state (ws_promises st) (wr_closed_promise (ws_writers st i)) \<noteq> Pending"
    using winvD(4) [OF inv] w by (simp add: aborting_def obl_def)
  with writer_okD [OF wbaseD(4) [OF base] w] w one show ?thesis
    by (cases "ws_state st") (auto simp: writer_promises_ok_def Let_def active_def)
qed

lemma writer_promises_tell_the_state_witness:
  "pr_state (ws_promises (example_state failed_cmds))
     (wr_closed_promise (ws_writers (example_state failed_cmds) 0)) = Rejected (JUser 9)"
proof -
  have s: "wr_stream (ws_writers (example_state failed_cmds) 0)"
    "ws_state (example_state failed_cmds) = WsErrored" "ws_reactions (example_state failed_cmds) = []"
    "s_stored_error (ws_stream (example_state failed_cmds)) = JUser 9" by code_simp+
  with writer_promises_tell_the_state [OF failed_session s(1)] show ?thesis by (simp add: Let_def)
qed

text \<open>Releasing the lock. The writer that is released is detached, its \<open>ready\<close> and \<open>closed\<close>
  promises are both rejected with the same \<open>TypeError\<close>, and the stream can be locked again at
  once; its state, its queue and its requests are as they were.\<close>

theorem released_writer_lets_go:
  assumes "ws_session scr n sink strategy cmds = Some (Inr st)" and "wr_stream (ws_writers st i)"
  shows "wp (ws_exec (js_user scr n) (WriterReleaseLock i) st) (\<lambda>st1.
    \<not> wr_stream (ws_writers st1 i) \<and>
    ws_stream st1 = (ws_stream st)\<lparr>s_writer := None\<rparr> \<and>
    ws_controller st1 = ws_controller st \<and> ws_reactions st1 = ws_reactions st \<and>
    pr_state (ws_promises st1) (wr_closed_promise (ws_writers st1 i)) = Rejected released_error \<and>
    pr_state (ws_promises st1) (wr_ready_promise (ws_writers st1 i)) = Rejected released_error \<and>
    wp (acquire_default_writer st1) (\<lambda>(st2, r). \<exists>j. r = Inr j \<and> s_writer (ws_stream st2) = Some j))"
proof -
  have free: "wp (acquire_default_writer st1) (\<lambda>(st2, r). \<exists>j. r = Inr j \<and> s_writer (ws_stream st2) = Some j)"
    if "winv [] st1" "s_writer (ws_stream st1) = None" for st1
    by (rule wp_mono [OF acquire_default_writer_ok [OF that(1)]], clarify, rename_tac st2 r, case_tac r)
      (auto simp: that(2))
  show ?thesis
    using assms(2)
    by (auto simp: writer_release_lock_def wp_map_option
        intro!: wp_mono [OF default_writer_release_frees [OF ws_session_inv [OF assms(1)] assms(2)]] free)
qed

lemma released_writer_lets_go_witness:
  "wp (ws_exec (js_user quiet 1) (WriterReleaseLock 0) (example_state writing_cmds)) (\<lambda>st1.
     pr_state (ws_promises st1) (wr_closed_promise (ws_writers st1 0)) = Rejected released_error)"
proof -
  have "wr_stream (ws_writers (example_state writing_cmds) 0)" by code_simp
  from released_writer_lets_go [OF writing_session this] show ?thesis by (rule wp_mono) simp
qed

section \<open>Aborting\<close>

text \<open>Aborting, whether by JavaScript or by piping, leaves the stream not writable, now and
  after whatever is done to it later.\<close>

theorem abort_stops_the_stream:
  assumes "ws_session scr n sink strategy cmds = Some (Inr st)"
  shows "wp (writable_stream_abort (js_user scr n) reason st) (\<lambda>(st1, p).
    ws_state st1 \<noteq> WsWritable \<and>
    wp (ws_run scr n later st1) (\<lambda>st2. ws_state st2 \<noteq> WsWritable))"
proof -
  have stays: "wp (ws_run scr n later st1) (\<lambda>st2. ws_state st2 \<noteq> WsWritable)"
    if "winv [] st1" "ws_state st1 \<noteq> WsWritable" for st1
    by (rule wp_mono [OF ws_run_ok [OF that(1)]])
      (use that(2) in \<open>cases "ws_state st1"; simp add: ws_mono_def\<close>)
  show ?thesis
    by (rule wp_mono [OF js.writable_stream_abort_stops [OF ws_session_inv [OF assms]]])
      (auto intro: stays)
qed

lemma abort_stops_the_stream_witness:
  "wp (writable_stream_abort (js_user quiet 1) JUndefined (example_state writing_cmds)) (\<lambda>(st1, p).
     ws_state st1 \<noteq> WsWritable)"
  using abort_stops_the_stream [OF writing_session, of JUndefined "[]"] by (auto elim: wp_mono)

section \<open>Construction\<close>

text \<open>What the constructor refuses. It throws the conversion's exception, a \<open>TypeError\<close> for a
  sink that is not an object, a \<open>RangeError\<close> for a \<open>type\<close> or for a high-water mark that is NaN or
  negative, and what \<open>start\<close> throws; otherwise it makes a stream with the strategy's high-water
  mark, 1 by default.\<close>

definition sink_error :: "sink_argument \<Rightarrow> queuing_strategy option \<Rightarrow> jsval option" where
  "sink_error sink strategy =
     (let hwm = (case Option.bind strategy qs_high_water_mark of
                   Some h \<Rightarrow> if f64_nonneg h then None
                     else Some (JRangeError ''highWaterMark must be a non-negative number'')
                 | None \<Rightarrow> None)
      in case sink of
           SinkMissing \<Rightarrow> hwm
         | SinkNotObject \<Rightarrow> Some (JTypeError ''WritableStream constructor: underlyingSink must be an object'')
         | SinkObject (Inl e) \<Rightarrow> Some e
         | SinkObject (Inr d) \<Rightarrow>
             if us_type d then Some (JRangeError ''Invalid type is specified'') else hwm)"

theorem constructor_refuses:
  "wp (writable_stream_new (js_user scr n) sink strategy no_promises) (\<lambda>(st, r).
    case sink_error sink strategy of
      Some e \<Rightarrow> r = Inl e
    | None \<Rightarrow> (case sink of SinkObject (Inr d) \<Rightarrow> us_start d = None | _ \<Rightarrow> True) \<longrightarrow> r = Inr ())"
proof -
  have blank: "blank (on_stream initialize_writable_stream (ws_default no_promises))"
    by (rule blank_default) (simp add: all_settled_def no_promises_def)
  have set_up: "wp (set_up_from_underlying_sink (js_user scr n) d hwm f
      (on_stream initialize_writable_stream (ws_default no_promises)))
      (\<lambda>(st, r). us_start d = None \<longrightarrow> r = Inr ())" for d hwm f
    unfolding set_up_from_underlying_sink_def
    by (rule wp_mono [OF js.set_up_default_controller_ok [OF blank]]) (auto simp: from_member_def)
  show ?thesis
    using set_up [of "\<lparr>us_start = None, us_write = None, us_close = None, us_abort = None, us_type = False\<rparr>"]
      set_up
    by (auto simp: writable_stream_new_def sink_error_def Let_def extract_high_water_mark_def
        f64_nonneg_def split: sink_argument.split sum.split option.split)
qed

lemma constructor_refuses_witness:
  "wp (writable_stream_new (js_user quiet 1) SinkMissing
     (Some \<lparr>qs_high_water_mark = Some (Fin (-1) 0), qs_size = None\<rparr>) no_promises) (\<lambda>(st, r).
     r = Inl (JRangeError ''highWaterMark must be a non-negative number''))"
  by (rule wp_mono [OF constructor_refuses]) (simp add: sink_error_def)

section \<open>The queue with sizes\<close>

text \<open>A size is refused, with a \<open>RangeError\<close>, exactly when it is not a finite non-negative
  number; otherwise the chunk joins the queue at its end.\<close>

theorem enqueue_accepts_exactly_sizes:
  "(\<exists>e. enqueue_value_with_size writable_queue_ops v sz c = Inl e) = (\<nexists>m ex. sz = Fin m ex \<and> 0 \<le> m) \<and>
   (case enqueue_value_with_size writable_queue_ops v sz c of
      Inl e \<Rightarrow> e = JRangeError size_message
    | Inr c' \<Rightarrow> c_queue c' = c_queue c @ [Chunk v sz])"
proof (cases "enqueue_value_with_size writable_queue_ops v sz c")
  case (Inl e)
  then show ?thesis using writable_queue.enqueue_refused [of v sz c e] by simp
next
  case (Inr c')
  from writable_queue.enqueue_accepted [OF Inr] have "c_queue c' = c_queue c @ [Chunk v sz]"
    and "\<exists>m ex. sz = Fin m ex \<and> 0 \<le> m" by (simp_all add: writable_queue_ops_def)
  with Inr show ?thesis by auto
qed

text \<open>The operations on the queue, as commands, and the queue of values with exact integer sizes
  they implement.\<close>

datatype queue_cmd = Enqueue jsval int | Dequeue

fun queue_exec :: "queue_cmd \<Rightarrow> default_controller \<Rightarrow> default_controller option" where
  "queue_exec (Enqueue v n) c =
     (case enqueue_value_with_size writable_queue_ops v (f64_of_int n) c of
        Inl e \<Rightarrow> None | Inr c' \<Rightarrow> Some c')"
| "queue_exec Dequeue c =
     (if c_queue c = [] then Some c else map_option fst (dequeue_value writable_queue_ops c))"

fun abstract_exec :: "queue_cmd \<Rightarrow> (jsval \<times> int) list \<Rightarrow> (jsval \<times> int) list" where
  "abstract_exec (Enqueue v n) q = q @ [(v, n)]"
| "abstract_exec Dequeue q = tl q"

fun bounded :: "queue_cmd list \<Rightarrow> (jsval \<times> int) list \<Rightarrow> bool" where
  "bounded [] q \<longleftrightarrow> True"
| "bounded (x # xs) q \<longleftrightarrow>
     (case x of Enqueue v n \<Rightarrow> 0 \<le> n | Dequeue \<Rightarrow> True) \<and>
     sum_list (map snd (abstract_exec x q)) < 2 ^ 53 \<and> bounded xs (abstract_exec x q)"

definition represents :: "default_controller \<Rightarrow> (jsval \<times> int) list \<Rightarrow> bool" where
  "represents c q \<longleftrightarrow>
     c_queue c = map (\<lambda>(v, n). Chunk v (f64_of_int n)) q \<and>
     c_queue_total_size c = f64_of_int (sum_list (map snd q)) \<and> (\<forall>(v, n) \<in> set q. 0 \<le> n)"

lemma represents_sum:
  "sum_list (map (the \<circ> int_size) (map (\<lambda>(v, n). Chunk v (f64_of_int n)) q)) = sum_list (map snd q)"
  by (induction q) (auto simp: f64_of_int_def)

lemma represents_exact:
  "represents c q \<Longrightarrow> sum_list (map snd q) < 2 ^ 53 \<Longrightarrow>
     queue_exact (qo_queue writable_queue_ops c) (qo_total writable_queue_ops c)"
  using represents_sum [of q]
  by (auto simp: represents_def queue_exact_def writable_queue_ops_def list_all_iff f64_of_int_def)

lemma exact_total: "queue_exact (map (\<lambda>(v, n). Chunk v (f64_of_int n)) q) t \<Longrightarrow> t = f64_of_int (sum_list (map snd q))"
  using represents_sum [of q] by (simp add: queue_exact_def)

lemma represents_enqueue:
  assumes r: "represents c q" and n: "0 \<le> n" and sum: "sum_list (map snd q) < 2 ^ 53"
    "sum_list (map snd q) + n < 2 ^ 53"
  shows "wp (queue_exec (Enqueue v n) c) (\<lambda>c'. represents c' (q @ [(v, n)]))"
proof -
  have q: "c_queue c = map (\<lambda>(v, n). Chunk v (f64_of_int n)) q" using r by (simp add: represents_def)
  have "sum_list (map (the \<circ> int_size) (qo_queue writable_queue_ops c)) + n < 2 ^ 53"
    using sum(2) represents_sum [of q] by (simp add: writable_queue_ops_def q)
  from writable_queue.enqueue_exact [OF represents_exact [OF r sum(1)] n this, of v]
  obtain c' where c': "enqueue_value_with_size writable_queue_ops v (f64_of_int n) c = Inr c'"
    "c_queue c' = map (\<lambda>(v, n). Chunk v (f64_of_int n)) (q @ [(v, n)])"
    "queue_exact (c_queue c') (c_queue_total_size c')"
    by (auto simp: writable_queue_ops_def q)
  from exact_total [OF c'(3) [unfolded c'(2)]] c'(1,2) r n show ?thesis
    by (auto simp: represents_def)
qed

lemma represents_dequeue:
  assumes r: "represents c q" and sum: "sum_list (map snd q) < 2 ^ 53"
  shows "wp (queue_exec Dequeue c) (\<lambda>c'. represents c' (tl q))"
proof (cases q)
  case Nil
  with r show ?thesis by (simp add: represents_def)
next
  case (Cons x q')
  obtain v n where x: "x = (v, n)" by (cases x)
  have q: "c_queue c = Chunk v (f64_of_int n) # map (\<lambda>(v, n). Chunk v (f64_of_int n)) q'"
    using r by (simp add: represents_def Cons x)
  from writable_queue.dequeue_exact [OF represents_exact [OF r sum], of "Chunk v (f64_of_int n)"
      "map (\<lambda>(v, n). Chunk v (f64_of_int n)) q'"] q
  obtain c' u where d: "dequeue_value writable_queue_ops c = Some (c', u)"
    "c_queue c' = map (\<lambda>(v, n). Chunk v (f64_of_int n)) q'"
    "queue_exact (map (\<lambda>(v, n). Chunk v (f64_of_int n)) q') (c_queue_total_size c')"
    by (auto simp: writable_queue_ops_def elim: wpE)
  from exact_total [OF d(3)] d q r show ?thesis by (simp add: represents_def Cons)
qed

text \<open>C25: the floating-point total of the queue is exact: as long as sizes are non-negative
  integers whose sum stays below \<open>2^53\<close>, enqueueing and dequeueing implement the abstract queue of
  values with integer sizes, with the exact sum as the total, which \<open>desiredSize\<close> is computed from.\<close>

theorem queue_totals_are_exact:
  assumes "represents c q" and "sum_list (map snd q) < 2 ^ 53" and "bounded cmds q"
  shows "wp (run_all queue_exec cmds c) (\<lambda>c'. represents c' (fold abstract_exec cmds q))"
  using assms
proof (induction cmds arbitrary: c q)
  case Nil
  then show ?case by simp
next
  case (Cons x cmds)
  have step: "wp (queue_exec x c) (\<lambda>c'. represents c' (abstract_exec x q))"
  proof (cases x)
    case (Enqueue v n)
    with Cons.prems represents_enqueue [of c q n v] show ?thesis by simp
  next
    case Dequeue
    with Cons.prems represents_dequeue [of c q] show ?thesis by simp
  qed
  have "wp (run_all queue_exec cmds c') (\<lambda>c'. represents c' (fold abstract_exec (x # cmds) q))"
    if "represents c' (abstract_exec x q)" for c'
    using Cons.IH [OF that] Cons.prems(3) by simp
  then show ?case using step by (auto elim: wp_mono)
qed

lemma queue_totals_are_exact_witness:
  "wp (run_all queue_exec [Enqueue (JUser 0) 3, Enqueue (JUser 1) 4, Dequeue]
     (ws_controller (ws_default no_promises))) (\<lambda>c'. c_queue_total_size c' = f64_of_int 4)"
proof -
  have "represents (ws_controller (ws_default no_promises)) []"
    by (simp add: represents_def ws_default_def f64_of_int_def)
  then have "wp (run_all queue_exec [Enqueue (JUser 0) 3, Enqueue (JUser 1) 4, Dequeue]
      (ws_controller (ws_default no_promises)))
      (\<lambda>c'. represents c' (fold abstract_exec [Enqueue (JUser 0) 3, Enqueue (JUser 1) 4, Dequeue] []))"
    by (rule queue_totals_are_exact) simp_all
  then show ?thesis by (rule wp_mono) (simp add: represents_def)
qed

end
