(* ===== verification/Readable_Stream.thy ===== *)
theory Readable_Stream
  imports Stream_Support
begin

text \<open>
  \<open>ReadableStream\<close> with a default controller and its default readers, from
  \<open>crates/builtins/web-streams/src/readable/\<close>: one stream with its controller, the readers
  created on it, the promises they hold, the reads that were asked for and the reactions the code
  attached to promises of the source. A failing \<open>debug_assert!\<close>, \<open>expect\<close> or \<open>unwrap\<close> is \<open>None\<close>.

  What runs outside the component is the parameter \<open>U\<close>: the source's algorithms, the size function,
  the steps of read requests of other components (tee, pipe, the async iterator, native readers),
  the lookup of \<open>then\<close> that the engine makes on the result object a read is resolved with, which a
  getter on \<open>Object.prototype\<close> can turn into a call of anything, and that of \<open>constructor\<close> that it makes
  on a promise to derive another from it, which a getter on \<open>Promise.prototype\<close> can.
\<close>

section \<open>State\<close>

datatype readable_state = RsReadable | RsClosed | RsErrored

text \<open>A request of \<open>read()\<close>, by the number of its promise, or of another consumer, by its identity.\<close>

datatype read_request = ReadPromise nat | Consumer nat

text \<open>
  The promise that a \<open>read()\<close> returned: pending, fulfilled with \<open>{value, done}\<close>, rejected, or resolved
  with a result object whose \<open>then\<close> can be called, which it follows.
\<close>

datatype read_result =
  ReadPending | ReadFulfilled jsval bool | ReadRejected jsval | ReadFollowing jsval bool

record readable_stream =
  r_controller :: bool
  r_disturbed :: bool
  r_reader :: "nat option"
  r_state :: readable_state
  r_stored_error :: jsval

record default_reader =
  rd_read_requests :: "read_request list"
  rd_stream :: bool
  rd_closed_promise :: pid

record readable_controller =
  k_cancel_algorithm :: algorithm
  k_close_requested :: bool
  k_pull_again :: bool
  k_pull_algorithm :: algorithm
  k_pulling :: bool
  k_queue :: "value_with_size list"
  k_queue_total_size :: f64
  k_started :: bool
  k_strategy_hwm :: f64
  k_strategy_size_algorithm :: "nat option"

text \<open>Which pair of reaction callbacks is attached; a cancellation has the promise it returned.\<close>

datatype read_reaction = RStart | RPull | RCancel pid

record rs =
  rs_stream :: readable_stream
  rs_controller :: readable_controller
  rs_readers :: "nat \<Rightarrow> default_reader"
  rs_next_reader :: nat
  rs_promises :: promises
  rs_reads :: "nat \<Rightarrow> read_result"
  rs_next_read :: nat
  rs_reactions :: "(read_reaction \<times> sink_promise) list"

datatype rs_call =
    StartCall algorithm
  | PullCall algorithm
  | CancelCall algorithm jsval
  | SizeCall nat jsval
  | ThenLookup nat
  | ConstructorLookup
  | ConsumerChunk nat jsval
  | ConsumerClose nat
  | ConsumerError nat jsval

type_synonym rs_code = "rs_call \<Rightarrow> rs \<Rightarrow> (rs \<times> user_result) option"

abbreviation on_stream :: "(readable_stream \<Rightarrow> readable_stream) \<Rightarrow> rs \<Rightarrow> rs" where
  "on_stream f st \<equiv> st\<lparr>rs_stream := f (rs_stream st)\<rparr>"

abbreviation on_controller :: "(readable_controller \<Rightarrow> readable_controller) \<Rightarrow> rs \<Rightarrow> rs" where
  "on_controller f st \<equiv> st\<lparr>rs_controller := f (rs_controller st)\<rparr>"

abbreviation on_promises :: "(promises \<Rightarrow> promises) \<Rightarrow> rs \<Rightarrow> rs" where
  "on_promises f st \<equiv> st\<lparr>rs_promises := f (rs_promises st)\<rparr>"

definition on_reader :: "nat \<Rightarrow> (default_reader \<Rightarrow> default_reader) \<Rightarrow> rs \<Rightarrow> rs" where
  "on_reader i f st = st\<lparr>rs_readers := (rs_readers st)(i := f (rs_readers st i))\<rparr>"

definition readable_new_promise :: "(promises \<Rightarrow> promises \<times> pid) \<Rightarrow> rs \<Rightarrow> rs \<times> pid" where
  "readable_new_promise mk st = (let (ps, p) = mk (rs_promises st) in (st\<lparr>rs_promises := ps\<rparr>, p))"

definition readable_mark_handled :: "pid \<Rightarrow> rs \<Rightarrow> rs option" where
  "readable_mark_handled p st =
     do { ps \<leftarrow> set_settled_is_handled p (rs_promises st); Some (st\<lparr>rs_promises := ps\<rparr>) }"

definition readable_react :: "read_reaction \<Rightarrow> sink_promise \<Rightarrow> rs \<Rightarrow> rs" where
  "readable_react k p st = st\<lparr>rs_reactions := rs_reactions st @ [(k, p)]\<rparr>"

text \<open>A promise of a read that is not pending any more stays as it is.\<close>

definition settle_read :: "nat \<Rightarrow> read_result \<Rightarrow> rs \<Rightarrow> rs" where
  "settle_read p r st =
     (if rs_reads st p = ReadPending then st\<lparr>rs_reads := (rs_reads st)(p := r)\<rparr> else st)"

definition readable_queue_ops :: "readable_controller queue_ops" where
  "readable_queue_ops =
     \<lparr>qo_queue = k_queue, qo_set_queue = (\<lambda>q c. c\<lparr>k_queue := q\<rparr>),
      qo_total = k_queue_total_size, qo_set_total = (\<lambda>t c. c\<lparr>k_queue_total_size := t\<rparr>)\<rparr>"

interpretation readable_queue: queue_container readable_queue_ops
  by unfold_locales (simp_all add: readable_queue_ops_def)

abbreviation rs_state :: "rs \<Rightarrow> readable_state" where
  "rs_state st \<equiv> r_state (rs_stream st)"

section \<open>Read requests\<close>

definition resolution :: "user_result \<Rightarrow> jsval \<Rightarrow> bool \<Rightarrow> read_result" where
  "resolution r v done' =
     (case r of
        Threw e \<Rightarrow> ReadRejected e
      | Callable \<Rightarrow> ReadFollowing v done'
      | _ \<Rightarrow> ReadFulfilled v done')"

definition chunk_steps :: "rs_code \<Rightarrow> read_request \<Rightarrow> jsval \<Rightarrow> rs \<Rightarrow> rs option" where
  "chunk_steps U request chunk st =
     (case request of
        ReadPromise p \<Rightarrow>
          do { (st1, r) \<leftarrow> U (ThenLookup p) st; Some (settle_read p (resolution r chunk False) st1) }
      | Consumer n \<Rightarrow> map_option fst (U (ConsumerChunk n chunk) st))"

definition close_steps :: "rs_code \<Rightarrow> read_request \<Rightarrow> rs \<Rightarrow> rs option" where
  "close_steps U request st =
     (case request of
        ReadPromise p \<Rightarrow>
          do { (st1, r) \<leftarrow> U (ThenLookup p) st; Some (settle_read p (resolution r JUndefined True) st1) }
      | Consumer n \<Rightarrow> map_option fst (U (ConsumerClose n) st))"

definition request_error_steps :: "rs_code \<Rightarrow> read_request \<Rightarrow> jsval \<Rightarrow> rs \<Rightarrow> rs option" where
  "request_error_steps U request e st =
     (case request of
        ReadPromise p \<Rightarrow> Some (settle_read p (ReadRejected e) st)
      | Consumer n \<Rightarrow> map_option fst (U (ConsumerError n e) st))"

text \<open>\<open>settle_request_snapshot\<close>: the requests of a list that was taken from its reader, in order.\<close>

fun settle_request_snapshot :: "(read_request \<Rightarrow> rs \<Rightarrow> rs option) \<Rightarrow> read_request list \<Rightarrow> rs \<Rightarrow> rs option" where
  "settle_request_snapshot steps [] st = Some st"
| "settle_request_snapshot steps (request # snapshot) st =
     do { st1 \<leftarrow> steps request st; settle_request_snapshot steps snapshot st1 }"

definition take_read_requests :: "nat \<Rightarrow> rs \<Rightarrow> rs" where
  "take_read_requests i = on_reader i (\<lambda>r. r\<lparr>rd_read_requests := []\<rparr>)"

section \<open>The stream\<close>

definition is_locked :: "rs \<Rightarrow> bool" where
  "is_locked st \<longleftrightarrow> r_reader (rs_stream st) \<noteq> None"

definition readable_stream_close :: "rs_code \<Rightarrow> rs \<Rightarrow> rs option" where
  "readable_stream_close U st =
     do {
       require (rs_state st = RsReadable);
       let st1 = on_stream (\<lambda>s. s\<lparr>r_state := RsClosed\<rparr>) st;
       case r_reader (rs_stream st1) of
         None \<Rightarrow> Some st1
       | Some i \<Rightarrow>
           (let st2 = on_promises (resolve_promise (rd_closed_promise (rs_readers st1 i)) JUndefined) st1;
                read_requests = rd_read_requests (rs_readers st2 i)
            in settle_request_snapshot (close_steps U) read_requests (take_read_requests i st2))
     }"

definition error_read_requests :: "rs_code \<Rightarrow> nat \<Rightarrow> jsval \<Rightarrow> rs \<Rightarrow> rs option" where
  "error_read_requests U i e st =
     (let read_requests = rd_read_requests (rs_readers st i)
      in settle_request_snapshot (\<lambda>request. request_error_steps U request e) read_requests (take_read_requests i st))"

definition readable_stream_error :: "rs_code \<Rightarrow> jsval \<Rightarrow> rs \<Rightarrow> rs option" where
  "readable_stream_error U e st =
     do {
       require (rs_state st = RsReadable);
       let st1 = on_stream (\<lambda>s. s\<lparr>r_state := RsErrored, r_stored_error := e\<rparr>) st;
       case r_reader (rs_stream st1) of
         None \<Rightarrow> Some st1
       | Some i \<Rightarrow>
           (let closed = rd_closed_promise (rs_readers st1 i)
            in do {
              st2 \<leftarrow> readable_mark_handled closed (on_promises (reject_promise closed e) st1);
              error_read_requests U i e st2
            })
     }"

definition add_read_request :: "read_request \<Rightarrow> rs \<Rightarrow> rs option" where
  "add_read_request request st =
     do {
       i \<leftarrow> r_reader (rs_stream st);
       Some (on_reader i (\<lambda>r. r\<lparr>rd_read_requests := rd_read_requests r @ [request]\<rparr>) st)
     }"

definition get_num_read_requests :: "rs \<Rightarrow> nat option" where
  "get_num_read_requests st =
     do { i \<leftarrow> r_reader (rs_stream st); Some (length (rd_read_requests (rs_readers st i))) }"

definition fulfill_read_request :: "rs_code \<Rightarrow> jsval \<Rightarrow> bool \<Rightarrow> rs \<Rightarrow> rs option" where
  "fulfill_read_request U chunk done' st =
     do {
       i \<leftarrow> r_reader (rs_stream st);
       case rd_read_requests (rs_readers st i) of
         [] \<Rightarrow> None
       | request # rest \<Rightarrow>
           (let st1 = on_reader i (\<lambda>r. r\<lparr>rd_read_requests := rest\<rparr>) st
            in if done' then close_steps U request st1 else chunk_steps U request chunk st1)
     }"

section \<open>The controller\<close>

definition can_close_or_enqueue :: "rs \<Rightarrow> bool" where
  "can_close_or_enqueue st \<longleftrightarrow> \<not> k_close_requested (rs_controller st) \<and> rs_state st = RsReadable"

definition readable_get_desired_size :: "rs \<Rightarrow> f64 option" where
  "readable_get_desired_size st =
     (case rs_state st of
        RsErrored \<Rightarrow> None
      | RsClosed \<Rightarrow> Some f64_zero
      | RsReadable \<Rightarrow>
          Some (f64_sub (k_strategy_hwm (rs_controller st)) (k_queue_total_size (rs_controller st))))"

text \<open>Whether the stream is locked and reads wait.\<close>

definition has_waiting_reads :: "rs \<Rightarrow> bool option" where
  "has_waiting_reads st =
     (if is_locked st then do { n \<leftarrow> get_num_read_requests st; Some (n > 0) } else Some False)"

definition should_call_pull :: "rs \<Rightarrow> bool option" where
  "should_call_pull st =
     (if \<not> can_close_or_enqueue st then Some False
      else if \<not> k_started (rs_controller st) then Some False
      else do {
        waiting \<leftarrow> has_waiting_reads st;
        if waiting then Some True
        else do {
          desired_size \<leftarrow> readable_get_desired_size st;
          Some (f64_lt f64_zero desired_size)
        }
      })"

definition call_pull_if_needed :: "rs_code \<Rightarrow> rs \<Rightarrow> rs option" where
  "call_pull_if_needed U st =
     do {
       should_pull \<leftarrow> should_call_pull st;
       if \<not> should_pull then Some st
       else if k_pulling (rs_controller st)
       then Some (on_controller (\<lambda>k. k\<lparr>k_pull_again := True\<rparr>) st)
       else do {
         require (\<not> k_pull_again (rs_controller st));
         let st1 = on_controller (\<lambda>k. k\<lparr>k_pulling := True\<rparr>) st;
         let pull_algorithm = k_pull_algorithm (rs_controller st1);
         (st2, pull_promise) \<leftarrow> invoke_promise_algorithm U pull_algorithm (PullCall pull_algorithm) st1;
         Some (readable_react RPull pull_promise st2)
       }
     }"

definition readable_clear_algorithms :: "rs \<Rightarrow> rs" where
  "readable_clear_algorithms st =
     on_controller (\<lambda>k. k\<lparr>k_pull_algorithm := ANone, k_cancel_algorithm := ANone,
       k_strategy_size_algorithm := None\<rparr>) st"

definition readable_controller_close :: "rs_code \<Rightarrow> rs \<Rightarrow> rs option" where
  "readable_controller_close U st =
     (if \<not> can_close_or_enqueue st then Some st
      else (let st1 = on_controller (\<lambda>k. k\<lparr>k_close_requested := True\<rparr>) st
            in if k_queue (rs_controller st1) = []
               then readable_stream_close U (readable_clear_algorithms st1) else Some st1))"

definition readable_controller_error :: "rs_code \<Rightarrow> jsval \<Rightarrow> rs \<Rightarrow> rs option" where
  "readable_controller_error U e st =
     (if rs_state st \<noteq> RsReadable then Some st
      else readable_stream_error U e (readable_clear_algorithms (on_controller (reset_queue readable_queue_ops) st)))"

text \<open>\<open>Inl\<close> is the exception that the caller throws again.\<close>

definition readable_controller_enqueue :: "rs_code \<Rightarrow> jsval \<Rightarrow> rs \<Rightarrow> (rs \<times> (jsval + unit)) option" where
  "readable_controller_enqueue U chunk st =
     (if \<not> can_close_or_enqueue st then Some (st, Inr ())
      else do {
        waiting \<leftarrow> has_waiting_reads st;
        if waiting
        then do {
          st1 \<leftarrow> fulfill_read_request U chunk False st;
          st2 \<leftarrow> call_pull_if_needed U st1;
          Some (st2, Inr ())
        }
        else do {
          (st1, chunk_size) \<leftarrow>
            (case k_strategy_size_algorithm (rs_controller st) of
               None \<Rightarrow> Some (st, Number (f64_of_int 1))
             | Some f \<Rightarrow> U (SizeCall f chunk) st);
          case (case chunk_size of
                  Threw e \<Rightarrow> Inl e
                | Number n \<Rightarrow> enqueue_value_with_size readable_queue_ops chunk n (rs_controller st1)
                | _ \<Rightarrow> enqueue_value_with_size readable_queue_ops chunk NaN (rs_controller st1)) of
            Inl e \<Rightarrow> do { st2 \<leftarrow> readable_controller_error U e st1; Some (st2, Inl e) }
          | Inr k \<Rightarrow>
              do { st2 \<leftarrow> call_pull_if_needed U (st1\<lparr>rs_controller := k\<rparr>); Some (st2, Inr ()) }
        }
      })"

definition cancel_steps :: "rs_code \<Rightarrow> jsval \<Rightarrow> rs \<Rightarrow> (rs \<times> sink_promise) option" where
  "cancel_steps U reason st =
     (let st1 = on_controller (reset_queue readable_queue_ops) st;
          alg = k_cancel_algorithm (rs_controller st1)
      in do {
        (st2, result) \<leftarrow> invoke_promise_algorithm U alg (CancelCall alg reason) st1;
        Some (readable_clear_algorithms st2, result)
      })"

definition pull_steps :: "rs_code \<Rightarrow> read_request \<Rightarrow> rs \<Rightarrow> rs option" where
  "pull_steps U request st =
     (if k_queue (rs_controller st) \<noteq> []
      then do {
        (k, chunk) \<leftarrow> dequeue_value readable_queue_ops (rs_controller st);
        let st1 = st\<lparr>rs_controller := k\<rparr>;
        st2 \<leftarrow> (if k_close_requested k \<and> k_queue k = []
               then readable_stream_close U (readable_clear_algorithms st1)
               else call_pull_if_needed U st1);
        chunk_steps U request chunk st2
      }
      else do {
        st1 \<leftarrow> add_read_request request st;
        call_pull_if_needed U st1
      })"

section \<open>Cancelling\<close>

text \<open>
  \<open>Promise::then\<close> with \<open>return_undefined\<close>, and its \<open>expect\<close>: the engine looks up the constructor of the new
  promise first, and that may throw. A constructor of the author's that it may find instead makes the
  promise in the author's way; the model keeps to the engine's.
\<close>

definition readable_promise_then :: "rs_code \<Rightarrow> sink_promise \<Rightarrow> rs \<Rightarrow> (rs \<times> pid) option" where
  "readable_promise_then U promise st =
     do {
       (st1, r) \<leftarrow> U ConstructorLookup st;
       require (\<not> threw r);
       let (st2, p) = readable_new_promise new_pending st1;
       Some (readable_react (RCancel p) promise st2, p)
     }"

definition readable_stream_cancel :: "rs_code \<Rightarrow> jsval \<Rightarrow> rs \<Rightarrow> (rs \<times> pid) option" where
  "readable_stream_cancel U reason st =
     (let st1 = on_stream (\<lambda>s. s\<lparr>r_disturbed := True\<rparr>) st
      in case rs_state st1 of
           RsClosed \<Rightarrow> Some (readable_new_promise (new_resolved_with_value JUndefined) st1)
         | RsErrored \<Rightarrow> Some (readable_new_promise (new_rejected_with_error (r_stored_error (rs_stream st1))) st1)
         | RsReadable \<Rightarrow>
             do {
               st2 \<leftarrow> readable_stream_close U st1;
               require (r_controller (rs_stream st2));
               (st3, source_cancel_promise) \<leftarrow> cancel_steps U reason st2;
               readable_promise_then U source_cancel_promise st3
             })"

section \<open>Readers\<close>

definition reader_generic_cancel :: "rs_code \<Rightarrow> nat \<Rightarrow> jsval \<Rightarrow> rs \<Rightarrow> (rs \<times> pid) option" where
  "reader_generic_cancel U i reason st =
     do { require (rd_stream (rs_readers st i)); readable_stream_cancel U reason st }"

definition reader_generic_initialize :: "nat \<Rightarrow> rs \<Rightarrow> rs option" where
  "reader_generic_initialize i st =
     do {
       let st1 = on_stream (\<lambda>s. s\<lparr>r_reader := Some i\<rparr>) (on_reader i (\<lambda>r. r\<lparr>rd_stream := True\<rparr>) st);
       (st2, closed) \<leftarrow>
         (case rs_state st1 of
            RsReadable \<Rightarrow> Some (readable_new_promise new_pending st1)
          | RsClosed \<Rightarrow> Some (readable_new_promise (new_resolved_with_value JUndefined) st1)
          | RsErrored \<Rightarrow>
              (let (st', p) = readable_new_promise (new_rejected_with_error (r_stored_error (rs_stream st1))) st1
               in do { st'' \<leftarrow> readable_mark_handled p st'; Some (st'', p) }));
       Some (on_reader i (\<lambda>r. r\<lparr>rd_closed_promise := closed\<rparr>) st2)
     }"

definition reader_generic_release :: "nat \<Rightarrow> rs \<Rightarrow> rs option" where
  "reader_generic_release i st =
     do {
       require (rd_stream (rs_readers st i));
       let type_error = JTypeError
         ''Reader was released and can no longer be used to monitor the stream's closedness'';
       let st1 = (if rs_state st = RsReadable
                  then on_promises (reject_promise (rd_closed_promise (rs_readers st i)) type_error) st
                  else (let (st', p) = readable_new_promise (new_rejected_with_error type_error) st
                        in on_reader i (\<lambda>r. r\<lparr>rd_closed_promise := p\<rparr>) st'));
       st2 \<leftarrow> readable_mark_handled (rd_closed_promise (rs_readers st1 i)) st1;
       Some (on_reader i (\<lambda>r. r\<lparr>rd_stream := False\<rparr>) (on_stream (\<lambda>s. s\<lparr>r_reader := None\<rparr>) st2))
     }"

definition default_reader_read :: "rs_code \<Rightarrow> nat \<Rightarrow> read_request \<Rightarrow> rs \<Rightarrow> rs option" where
  "default_reader_read U i request st =
     do {
       require (rd_stream (rs_readers st i));
       let st1 = on_stream (\<lambda>s. s\<lparr>r_disturbed := True\<rparr>) st;
       case rs_state st1 of
         RsClosed \<Rightarrow> close_steps U request st1
       | RsErrored \<Rightarrow> request_error_steps U request (r_stored_error (rs_stream st1)) st1
       | RsReadable \<Rightarrow> do { require (r_controller (rs_stream st1)); pull_steps U request st1 }
     }"

definition default_reader_release :: "rs_code \<Rightarrow> nat \<Rightarrow> rs \<Rightarrow> rs option" where
  "default_reader_release U i st =
     do {
       st1 \<leftarrow> reader_generic_release i st;
       error_read_requests U i (JTypeError ''Reader was released'') st1
     }"

definition set_up_default_reader :: "nat \<Rightarrow> rs \<Rightarrow> (jsval + rs) option" where
  "set_up_default_reader i st =
     (if is_locked st
      then Some (Inl (JTypeError
             ''This stream has already been locked for exclusive reading by another reader''))
      else do {
        st1 \<leftarrow> reader_generic_initialize i st;
        Some (Inr (take_read_requests i st1))
      })"

text \<open>A reader object that set-up refuses is garbage: it has no stream.\<close>

definition acquire_default_reader :: "rs \<Rightarrow> (rs \<times> (jsval + nat)) option" where
  "acquire_default_reader st =
     (let i = rs_next_reader st;
          st1 = on_reader i (\<lambda>_. \<lparr>rd_read_requests = [], rd_stream = False, rd_closed_promise = 0\<rparr>)
                  (st\<lparr>rs_next_reader := i + 1\<rparr>)
      in do {
        r \<leftarrow> set_up_default_reader i st1;
        Some (case r of Inl e \<Rightarrow> (st1, Inl e) | Inr st2 \<Rightarrow> (st2, Inr i))
      })"

end
