(* ===== verification/Readable_Api.thy ===== *)
theory Readable_Api
  imports Readable_Stream
begin

text \<open>
  The reactions, the set-up of the controller, the constructors, and the interface that JavaScript,
  native consumers and the engine's jobs have; scripts of commands of that interface close the
  circle, nested as deep as the JavaScript stack permits.
\<close>

section \<open>Reactions\<close>

definition readable_start_promise_fulfilled :: "rs_code \<Rightarrow> rs \<Rightarrow> rs option" where
  "readable_start_promise_fulfilled U st =
     do {
       let st1 = on_controller (\<lambda>k. k\<lparr>k_started := True\<rparr>) st;
       require (\<not> k_pulling (rs_controller st1));
       require (\<not> k_pull_again (rs_controller st1));
       call_pull_if_needed U st1
     }"

definition readable_start_promise_rejected :: "rs_code \<Rightarrow> jsval \<Rightarrow> rs \<Rightarrow> rs option" where
  "readable_start_promise_rejected U e st = readable_controller_error U e st"

definition readable_pull_promise_fulfilled :: "rs_code \<Rightarrow> rs \<Rightarrow> rs option" where
  "readable_pull_promise_fulfilled U st =
     (let st1 = on_controller (\<lambda>k. k\<lparr>k_pulling := False\<rparr>) st
      in if k_pull_again (rs_controller st1)
         then call_pull_if_needed U (on_controller (\<lambda>k. k\<lparr>k_pull_again := False\<rparr>) st1)
         else Some st1)"

definition readable_pull_promise_rejected :: "rs_code \<Rightarrow> jsval \<Rightarrow> rs \<Rightarrow> rs option" where
  "readable_pull_promise_rejected U e st = readable_controller_error U e st"

text \<open>The promise of a cancellation: \<open>then\<close> with \<open>return_undefined\<close> and no rejection handler.\<close>

definition cancel_fulfilled :: "pid \<Rightarrow> rs \<Rightarrow> rs option" where
  "cancel_fulfilled p st = Some (on_promises (resolve_promise p JUndefined) st)"

definition cancel_rejected :: "pid \<Rightarrow> jsval \<Rightarrow> rs \<Rightarrow> rs option" where
  "cancel_rejected p e st = Some (on_promises (reject_promise p e) st)"

definition readable_fulfilled :: "rs_code \<Rightarrow> read_reaction \<Rightarrow> rs \<Rightarrow> rs option" where
  "readable_fulfilled U k st =
     (case k of
        RStart \<Rightarrow> readable_start_promise_fulfilled U st
      | RPull \<Rightarrow> readable_pull_promise_fulfilled U st
      | RCancel p \<Rightarrow> cancel_fulfilled p st)"

definition readable_rejected :: "rs_code \<Rightarrow> read_reaction \<Rightarrow> jsval \<Rightarrow> rs \<Rightarrow> rs option" where
  "readable_rejected U k e st =
     (case k of
        RStart \<Rightarrow> readable_start_promise_rejected U e st
      | RPull \<Rightarrow> readable_pull_promise_rejected U e st
      | RCancel p \<Rightarrow> cancel_rejected p e st)"

text \<open>
  A job of the engine: the \<open>n\<close>th reaction runs, once. The outcome is that of its promise if that
  is known, otherwise the one given, \<open>None\<close> for fulfilled.
\<close>

definition readable_run_reaction :: "rs_code \<Rightarrow> nat \<Rightarrow> jsval option \<Rightarrow> rs \<Rightarrow> rs option" where
  "readable_run_reaction U n outcome st =
     (if n < length (rs_reactions st)
      then (let (k, p) = rs_reactions st ! n;
                st1 = st\<lparr>rs_reactions := take n (rs_reactions st) @ drop (Suc n) (rs_reactions st)\<rparr>
            in case (case p of Resolved \<Rightarrow> None | RejectedWith e \<Rightarrow> Some e | Unsettled \<Rightarrow> outcome) of
                 None \<Rightarrow> readable_fulfilled U k st1
               | Some e \<Rightarrow> readable_rejected U k e st1)
      else Some st)"

section \<open>Creation\<close>

definition initialize_readable_stream :: "readable_stream \<Rightarrow> readable_stream" where
  "initialize_readable_stream s =
     s\<lparr>r_state := RsReadable, r_reader := None, r_stored_error := JUndefined, r_disturbed := False\<rparr>"

text \<open>A stream object with the default of every field, and a controller made for it.\<close>

definition rs_default :: "promises \<Rightarrow> rs" where
  "rs_default ps =
     \<lparr>rs_stream = \<lparr>r_controller = False, r_disturbed = False, r_reader = None, r_state = RsReadable,
                    r_stored_error = JUndefined\<rparr>,
      rs_controller =
        \<lparr>k_cancel_algorithm = ANone, k_close_requested = False, k_pull_again = False,
         k_pull_algorithm = ANone, k_pulling = False, k_queue = [], k_queue_total_size = f64_zero,
         k_started = False, k_strategy_hwm = f64_zero, k_strategy_size_algorithm = None\<rparr>,
      rs_readers = (\<lambda>_. \<lparr>rd_read_requests = [], rd_stream = False, rd_closed_promise = 0\<rparr>),
      rs_next_reader = 0, rs_promises = ps, rs_reads = (\<lambda>_. ReadPending), rs_next_read = 0,
      rs_reactions = []\<rparr>"

record read_algorithms =
  ra_start :: algorithm
  ra_pull :: algorithm
  ra_cancel :: algorithm

text \<open>\<open>Inl\<close> is the exception that the start algorithm threw.\<close>

definition readable_set_up_default_controller ::
    "rs_code \<Rightarrow> read_algorithms \<Rightarrow> f64 \<Rightarrow> nat option \<Rightarrow> rs \<Rightarrow> (rs \<times> (jsval + unit)) option" where
  "readable_set_up_default_controller U al high_water_mark size_alg st =
     do {
       require (\<not> r_controller (rs_stream st));
       let st1 = on_controller (reset_queue readable_queue_ops) st;
       let st2 = on_controller (\<lambda>k. k\<lparr>k_started := False, k_close_requested := False,
                    k_pull_again := False, k_pulling := False\<rparr>) st1;
       let st3 = on_controller (\<lambda>k. k\<lparr>k_strategy_size_algorithm := size_alg,
                    k_strategy_hwm := high_water_mark, k_pull_algorithm := ra_pull al,
                    k_cancel_algorithm := ra_cancel al\<rparr>) st2;
       let st4 = on_stream (\<lambda>s. s\<lparr>r_controller := True\<rparr>) st3;
       (st5, start_result) \<leftarrow> invoke_algorithm U (ra_start al) (StartCall (ra_start al)) st4;
       case start_result of
         Threw e \<Rightarrow> Some (st5, Inl e)
       | _ \<Rightarrow> Some (readable_react RStart (if ra_start al = ANone then Resolved else Unsettled) st5, Inr ())
     }"

definition create_readable_stream ::
    "rs_code \<Rightarrow> read_algorithms \<Rightarrow> f64 \<Rightarrow> nat option \<Rightarrow> promises \<Rightarrow> (rs \<times> (jsval + unit)) option" where
  "create_readable_stream U al high_water_mark size_alg ps =
     do {
       require (is_non_negative_number high_water_mark);
       let st = on_stream initialize_readable_stream (rs_default ps);
       readable_set_up_default_controller U al high_water_mark size_alg st
     }"

text \<open>
  The constructor. The source is missing, not an object, or an object, whose conversion to the
  dictionary may throw; a member that is present is a callable. A source of bytes is set up with
  a byte controller, which is outside the model, once the strategy is checked.
\<close>

record underlying_source =
  uso_start :: "nat option"
  uso_pull :: "nat option"
  uso_cancel :: "nat option"

datatype source_argument = SourceMissing | SourceNotObject | SourceObject "jsval + underlying_source"

definition set_up_from_underlying_source ::
    "rs_code \<Rightarrow> underlying_source \<Rightarrow> f64 \<Rightarrow> nat option \<Rightarrow> rs \<Rightarrow> (rs \<times> (jsval + unit)) option" where
  "set_up_from_underlying_source U dict high_water_mark size_alg st =
     readable_set_up_default_controller U
       \<lparr>ra_start = from_member (uso_start dict), ra_pull = from_member (uso_pull dict),
        ra_cancel = from_member (uso_cancel dict)\<rparr>
       high_water_mark size_alg st"

definition readable_stream_new ::
    "rs_code \<Rightarrow> source_argument \<Rightarrow> queuing_strategy option \<Rightarrow> promises \<Rightarrow> (rs \<times> (jsval + unit)) option" where
  "readable_stream_new U source strategy ps =
     (let st = rs_default ps;
          dict = (case source of
                    SourceMissing \<Rightarrow> Inr \<lparr>uso_start = None, uso_pull = None, uso_cancel = None\<rparr>
                  | SourceNotObject \<Rightarrow> Inl (JTypeError
                      ''ReadableStream constructor: underlyingSource must be an object'')
                  | SourceObject r \<Rightarrow> r)
      in case dict of
           Inl e \<Rightarrow> Some (st, Inl e)
         | Inr d \<Rightarrow>
             (let st1 = on_stream initialize_readable_stream st;
                  size_alg = extract_size_algorithm strategy
              in case extract_high_water_mark strategy (f64_of_int 1) of
                   Inl e \<Rightarrow> Some (st1, Inl e)
                 | Inr hwm \<Rightarrow> set_up_from_underlying_source U d hwm size_alg st1))"

text \<open>The constructors for native code: a lazy stream, and a stream of given bytes, \<open>None\<close> if empty.\<close>

definition new_native ::
    "rs_code \<Rightarrow> algorithm \<Rightarrow> algorithm \<Rightarrow> promises \<Rightarrow> (rs \<times> (jsval + unit)) option" where
  "new_native U pull cancel ps =
     create_readable_stream U \<lparr>ra_start = ANone, ra_pull = pull, ra_cancel = cancel\<rparr> f64_zero None ps"

definition from_bytes :: "rs_code \<Rightarrow> jsval option \<Rightarrow> promises \<Rightarrow> (rs \<times> (jsval + unit)) option" where
  "from_bytes U chunk ps =
     do {
       (st1, r) \<leftarrow> create_readable_stream U \<lparr>ra_start = ANone, ra_pull = ANone, ra_cancel = ANone\<rparr>
                    (f64_of_int 1) None ps;
       case r of
         Inl e \<Rightarrow> Some (st1, Inl e)
       | Inr _ \<Rightarrow>
           do {
             (st2, r2) \<leftarrow> (case chunk of Some c \<Rightarrow> readable_controller_enqueue U c st1 | None \<Rightarrow> Some (st1, Inr ()));
             case r2 of
               Inl e \<Rightarrow> Some (st2, Inl e)
             | Inr _ \<Rightarrow> do { st3 \<leftarrow> readable_controller_close U st2; Some (st3, Inr ()) }
           }
     }"

section \<open>The interface\<close>

text \<open>\<open>ReadableStream::error\<close> for native code, and what it may ask.\<close>

definition stream_error :: "rs_code \<Rightarrow> jsval \<Rightarrow> rs \<Rightarrow> rs option" where
  "stream_error U reason st =
     do { require (r_controller (rs_stream st)); readable_controller_error U reason st }"

definition is_disturbed :: "rs \<Rightarrow> bool" where
  "is_disturbed st = r_disturbed (rs_stream st)"

definition is_readable :: "rs \<Rightarrow> bool" where
  "is_readable st \<longleftrightarrow> rs_state st = RsReadable"

datatype read_api_result =
  Thrown jsval | APromise pid | ARead nat | AReader nat | AUndefined

definition stream_cancel :: "rs_code \<Rightarrow> jsval option \<Rightarrow> rs \<Rightarrow> (rs \<times> read_api_result) option" where
  "stream_cancel U reason st =
     (if is_locked st
      then Some (st, Thrown (JTypeError ''Cannot cancel a stream that already has a reader''))
      else do {
        (st1, p) \<leftarrow> readable_stream_cancel U (case reason of Some v \<Rightarrow> v | None \<Rightarrow> JUndefined) st;
        Some (st1, APromise p)
      })"

text \<open>\<open>getReader()\<close> without a mode.\<close>

definition stream_get_reader :: "rs \<Rightarrow> (rs \<times> read_api_result) option" where
  "stream_get_reader st =
     do {
       (st1, r) \<leftarrow> acquire_default_reader st;
       Some (st1, case r of Inl e \<Rightarrow> Thrown e | Inr i \<Rightarrow> AReader i)
     }"

definition lock_and_disturb :: "rs \<Rightarrow> rs option" where
  "lock_and_disturb st =
     (if is_locked st then Some st
      else do {
        (st1, r) \<leftarrow> acquire_default_reader st;
        Some (case r of Inl e \<Rightarrow> st1 | Inr _ \<Rightarrow> on_stream (\<lambda>s. s\<lparr>r_disturbed := True\<rparr>) st1)
      })"

text \<open>A stream that was consumed before it is handed out.\<close>

definition new_consumed :: "rs_code \<Rightarrow> promises \<Rightarrow> (rs \<times> (jsval + unit)) option" where
  "new_consumed U ps =
     do {
       (st1, r) \<leftarrow> from_bytes U None ps;
       case r of
         Inl e \<Rightarrow> Some (st1, Inl e)
       | Inr _ \<Rightarrow> do { st2 \<leftarrow> lock_and_disturb st1; Some (st2, Inr ()) }
     }"

definition reader_read :: "rs_code \<Rightarrow> nat \<Rightarrow> rs \<Rightarrow> (rs \<times> read_api_result) option" where
  "reader_read U i st =
     (if \<not> rd_stream (rs_readers st i)
      then Some (st, Thrown (JTypeError ''Cannot read from a reader that does not have an owner stream''))
      else (let p = rs_next_read st;
                st1 = st\<lparr>rs_next_read := p + 1, rs_reads := (rs_reads st)(p := ReadPending)\<rparr>
            in do {
              st2 \<leftarrow> default_reader_read U i (ReadPromise p) st1;
              Some (st2, ARead p)
            }))"

definition reader_release_lock :: "rs_code \<Rightarrow> nat \<Rightarrow> rs \<Rightarrow> (rs \<times> read_api_result) option" where
  "reader_release_lock U i st =
     (if \<not> rd_stream (rs_readers st i) then Some (st, AUndefined)
      else do { st1 \<leftarrow> default_reader_release U i st; Some (st1, AUndefined) })"

definition reader_cancel :: "rs_code \<Rightarrow> nat \<Rightarrow> jsval option \<Rightarrow> rs \<Rightarrow> (rs \<times> read_api_result) option" where
  "reader_cancel U i reason st =
     (if \<not> rd_stream (rs_readers st i)
      then Some (st, Thrown (JTypeError ''Cannot cancel a reader that does not have an owner stream''))
      else do {
        (st1, p) \<leftarrow> reader_generic_cancel U i (case reason of Some v \<Rightarrow> v | None \<Rightarrow> JUndefined) st;
        Some (st1, APromise p)
      })"

definition readable_controller_close_method :: "rs_code \<Rightarrow> rs \<Rightarrow> (rs \<times> read_api_result) option" where
  "readable_controller_close_method U st =
     (if \<not> can_close_or_enqueue st
      then Some (st, Thrown (JTypeError ''The stream is not in a state that permits close''))
      else do { st1 \<leftarrow> readable_controller_close U st; Some (st1, AUndefined) })"

definition readable_controller_enqueue_method :: "rs_code \<Rightarrow> jsval \<Rightarrow> rs \<Rightarrow> (rs \<times> read_api_result) option" where
  "readable_controller_enqueue_method U chunk st =
     (if \<not> can_close_or_enqueue st
      then Some (st, Thrown (JTypeError ''The stream is not in a state that permits enqueue''))
      else do {
        (st1, r) \<leftarrow> readable_controller_enqueue U chunk st;
        Some (st1, case r of Inl e \<Rightarrow> Thrown e | Inr _ \<Rightarrow> AUndefined)
      })"

definition readable_controller_error_method :: "rs_code \<Rightarrow> jsval option \<Rightarrow> rs \<Rightarrow> (rs \<times> read_api_result) option" where
  "readable_controller_error_method U e st =
     do {
       st1 \<leftarrow> readable_controller_error U (case e of Some v \<Rightarrow> v | None \<Rightarrow> JUndefined) st;
       Some (st1, AUndefined)
     }"

text \<open>The native consumers' read, with steps of their own, on a reader that is not released.\<close>

definition native_reader_read :: "rs_code \<Rightarrow> nat \<Rightarrow> nat \<Rightarrow> rs \<Rightarrow> rs option" where
  "native_reader_read U i consumer st = default_reader_read U i (Consumer consumer) st"

definition native_reader_cancel :: "rs_code \<Rightarrow> nat \<Rightarrow> jsval \<Rightarrow> rs \<Rightarrow> (rs \<times> pid) option" where
  "native_reader_cancel U i reason st = reader_generic_cancel U i reason st"

text \<open>
  The commands: the methods, the entries that other native code uses (tee, pipe, transforms,
  body consumers), and a job of the engine. A reader that was never handed out has no stream.
\<close>

datatype rs_cmd =
    StreamCancel "jsval option"
  | GetReader
  | LockAndDisturb
  | ReaderRead nat
  | ReaderReleaseLock nat
  | ReaderCancel nat "jsval option"
  | ControllerClose
  | ControllerEnqueue jsval
  | ControllerError "jsval option"
  | NativeRead nat nat
  | NativeReaderCancel nat jsval
  | NativeCancel jsval
  | NativeEnqueue jsval
  | NativeClose
  | NativeError jsval
  | RunReaction nat "jsval option"

fun rs_exec :: "rs_code \<Rightarrow> rs_cmd \<Rightarrow> rs \<Rightarrow> rs option" where
  "rs_exec U (StreamCancel v) st = map_option fst (stream_cancel U v st)"
| "rs_exec U GetReader st = map_option fst (stream_get_reader st)"
| "rs_exec U LockAndDisturb st = lock_and_disturb st"
| "rs_exec U (ReaderRead i) st = map_option fst (reader_read U i st)"
| "rs_exec U (ReaderReleaseLock i) st = map_option fst (reader_release_lock U i st)"
| "rs_exec U (ReaderCancel i v) st = map_option fst (reader_cancel U i v st)"
| "rs_exec U ControllerClose st = map_option fst (readable_controller_close_method U st)"
| "rs_exec U (ControllerEnqueue v) st = map_option fst (readable_controller_enqueue_method U v st)"
| "rs_exec U (ControllerError v) st = map_option fst (readable_controller_error_method U v st)"
| "rs_exec U (NativeRead i n) st =
     (if rd_stream (rs_readers st i) then native_reader_read U i n st else Some st)"
| "rs_exec U (NativeReaderCancel i v) st =
     (if rd_stream (rs_readers st i) then map_option fst (native_reader_cancel U i v st) else Some st)"
| "rs_exec U (NativeCancel v) st = map_option fst (readable_stream_cancel U v st)"
| "rs_exec U (NativeEnqueue v) st = map_option fst (readable_controller_enqueue U v st)"
| "rs_exec U NativeClose st = readable_controller_close U st"
| "rs_exec U (NativeError v) st = stream_error U v st"
| "rs_exec U (RunReaction n outcome) st = readable_run_reaction U n outcome st"

text \<open>
  What a call into JavaScript does at each depth that is left of the stack: the commands it
  issues and how it ends. With no depth left it throws, but the lookups, which are no calls when no
  getter is installed, find nothing of the author's.
\<close>

type_synonym read_script = "nat \<Rightarrow> rs_call \<Rightarrow> rs \<Rightarrow> rs_cmd list \<times> user_result"

fun rs_user :: "read_script \<Rightarrow> nat \<Rightarrow> rs_code" where
  "rs_user scr 0 call st =
     Some (st, case call of ThenLookup _ \<Rightarrow> Returned | ConstructorLookup \<Rightarrow> Returned | _ \<Rightarrow> Threw (JRangeError ''too much recursion''))"
| "rs_user scr (Suc n) call st =
     (let (cmds, r) = scr n call st
      in do { st' \<leftarrow> run_all (rs_exec (rs_user scr n)) cmds st; Some (st', js_result r) })"

definition rs_run :: "read_script \<Rightarrow> nat \<Rightarrow> rs_cmd list \<Rightarrow> rs \<Rightarrow> rs option" where
  "rs_run scr n cmds st = run_all (rs_exec (rs_user scr n)) cmds st"

definition rs_session ::
    "read_script \<Rightarrow> nat \<Rightarrow> source_argument \<Rightarrow> queuing_strategy option \<Rightarrow> rs_cmd list \<Rightarrow> (jsval + rs) option" where
  "rs_session scr n source strategy cmds =
     do {
       (st, r) \<leftarrow> readable_stream_new (rs_user scr n) source strategy no_promises;
       case r of
         Inl e \<Rightarrow> Some (Inl e)
       | Inr _ \<Rightarrow> map_option Inr (rs_run scr n cmds st)
     }"

end
