(* ===== verification/Readable_Inv.thy ===== *)
theory Readable_Inv
  imports Readable_Api "HOL-Library.Multiset"
begin

text \<open>
  The invariant of a readable stream, stated so that it also holds in the middle of an operation,
  where code outside the component runs: \<open>K\<close> are the reactions that operations on the stack will
  attach when their call returns, \<open>P\<close> the reads they took from the stream and will answer.
\<close>

section \<open>What is owed\<close>

definition obl :: "read_reaction list \<Rightarrow> rs \<Rightarrow> read_reaction list" where
  "obl K st = K @ map fst (rs_reactions st)"

definition read_ids :: "read_request list \<Rightarrow> nat list" where
  "read_ids rs = concat (map (\<lambda>r. case r of ReadPromise p \<Rightarrow> [p] | Consumer _ \<Rightarrow> []) rs)"

lemma read_ids_simps [simp]:
  "read_ids [] = []" "read_ids (ReadPromise p # rs) = p # read_ids rs"
  "read_ids (Consumer n # rs) = read_ids rs" "read_ids (rs @ rs') = read_ids rs @ read_ids rs'"
  by (simp_all add: read_ids_def)

lemma read_ids_Cons: "read_ids (r # rs) = read_ids [r] @ read_ids rs"
  by (simp add: read_ids_def)

text \<open>The requests that wait at the reader of the stream.\<close>

definition waiting :: "rs \<Rightarrow> read_request list" where
  "waiting st = (case r_reader (rs_stream st) of None \<Rightarrow> [] | Some i \<Rightarrow> rd_read_requests (rs_readers st i))"

fun cancel_ids :: "read_reaction list \<Rightarrow> pid list" where
  "cancel_ids [] = []"
| "cancel_ids (RCancel p # ks) = p # cancel_ids ks"
| "cancel_ids (k # ks) = cancel_ids ks"

lemma cancel_ids_append [simp]: "cancel_ids (ks @ ks') = cancel_ids ks @ cancel_ids ks'"
  by (induction ks rule: cancel_ids.induct) simp_all

text \<open>The promises of the store that are to be settled.\<close>

definition closed_ids :: "rs \<Rightarrow> pid list" where
  "closed_ids st =
     (case r_reader (rs_stream st) of
        Some i \<Rightarrow> if rs_state st = RsReadable then [rd_closed_promise (rs_readers st i)] else []
      | None \<Rightarrow> [])"

definition owed :: "read_reaction list \<Rightarrow> rs \<Rightarrow> pid list" where
  "owed K st = closed_ids st @ cancel_ids (obl K st)"

section \<open>The invariant\<close>

definition flags_ok :: "read_reaction list \<Rightarrow> rs \<Rightarrow> bool" where
  "flags_ok K st \<longleftrightarrow>
     r_controller (rs_stream st) \<and>
     count_list (obl K st) RStart \<le> 1 \<and> count_list (obl K st) RPull \<le> 1 \<and>
     (RStart \<in> set (obl K st) \<longrightarrow> \<not> k_started (rs_controller st)) \<and>
     (\<not> k_started (rs_controller st) \<longrightarrow> \<not> k_pulling (rs_controller st)) \<and>
     (k_pull_again (rs_controller st) \<longrightarrow> k_pulling (rs_controller st)) \<and>
     (RPull \<in> set (obl K st) \<longrightarrow> k_pulling (rs_controller st))"

text \<open>How a stream's state shows in its reader's closed promise.\<close>

definition closed_state :: "readable_stream \<Rightarrow> pstate" where
  "closed_state s =
     (case r_state s of
        RsReadable \<Rightarrow> Pending
      | RsClosed \<Rightarrow> Fulfilled JUndefined
      | RsErrored \<Rightarrow> Rejected (r_stored_error s))"

definition readers_ok :: "rs \<Rightarrow> bool" where
  "readers_ok st \<longleftrightarrow>
     (\<forall>i. rd_stream (rs_readers st i) \<longleftrightarrow> r_reader (rs_stream st) = Some i) \<and>
     (\<forall>i. r_reader (rs_stream st) = Some i \<longrightarrow>
        i < rs_next_reader st \<and>
        rd_closed_promise (rs_readers st i) < pr_next (rs_promises st) \<and>
        pr_state (rs_promises st) (rd_closed_promise (rs_readers st i)) = closed_state (rs_stream st)) \<and>
     (rs_state st \<noteq> RsReadable \<longrightarrow> waiting st = [])"

text \<open>Whoever is pending is owed by exactly one holder.\<close>

definition owes :: "nat list \<Rightarrow> nat set \<Rightarrow> bool" where
  "owes xs S \<longleftrightarrow> distinct xs \<and> set xs = S"

definition pending_reads :: "rs \<Rightarrow> nat set" where
  "pending_reads st = {p. p < rs_next_read st \<and> rs_reads st p = ReadPending}"

definition pending_promises :: "promises \<Rightarrow> pid set" where
  "pending_promises ps = {p. p < pr_next ps \<and> pr_state ps p = Pending}"

definition accounts_ok :: "read_reaction list \<Rightarrow> nat list \<Rightarrow> rs \<Rightarrow> bool" where
  "accounts_ok K P st \<longleftrightarrow>
     owes (read_ids (waiting st) @ P) (pending_reads st) \<and>
     owes (owed K st) (pending_promises (rs_promises st))"

definition rbase :: "read_reaction list \<Rightarrow> nat list \<Rightarrow> rs \<Rightarrow> bool" where
  "rbase K P st \<longleftrightarrow> flags_ok K st \<and> readers_ok st \<and> accounts_ok K P st"

text \<open>What a readable stream still has to come: a start, the end of a pull, chunks before it closes.\<close>

definition ropen :: "read_reaction list \<Rightarrow> rs \<Rightarrow> bool" where
  "ropen K st \<longleftrightarrow>
     (\<not> k_started (rs_controller st) \<longrightarrow> RStart \<in> set (obl K st)) \<and>
     (k_pulling (rs_controller st) \<longrightarrow> RPull \<in> set (obl K st)) \<and>
     (k_close_requested (rs_controller st) \<longrightarrow> k_queue (rs_controller st) \<noteq> [])"

definition rinv :: "read_reaction list \<Rightarrow> nat list \<Rightarrow> rs \<Rightarrow> bool" where
  "rinv K P st \<longleftrightarrow> rbase K P st \<and> (rs_state st = RsReadable \<longrightarrow> ropen K st)"

section \<open>What no operation undoes\<close>

definition rs_le :: "rs \<Rightarrow> rs \<Rightarrow> bool" where
  "rs_le st st' \<longleftrightarrow>
     (rs_state st \<noteq> RsReadable \<longrightarrow>
       rs_state st' = rs_state st \<and> r_stored_error (rs_stream st') = r_stored_error (rs_stream st)) \<and>
     (r_disturbed (rs_stream st) \<longrightarrow> r_disturbed (rs_stream st')) \<and>
     keeps_settled (rs_promises st) (rs_promises st') \<and>
     rs_next_read st \<le> rs_next_read st' \<and>
     (\<forall>p < rs_next_read st. rs_reads st p \<noteq> ReadPending \<longrightarrow> rs_reads st' p = rs_reads st p) \<and>
     (k_started (rs_controller st) \<longrightarrow> k_started (rs_controller st'))"

lemma rs_le_refl [simp]: "rs_le st st"
  by (simp add: rs_le_def)

lemma rs_le_trans: "rs_le a b \<Longrightarrow> rs_le b c \<Longrightarrow> rs_le a c"
  unfolding rs_le_def by (auto intro: keeps_settled_trans dest: less_le_trans)

text \<open>A fact of the state that \<open>rs_le\<close> keeps.\<close>

lemma rs_le_state: "rs_le st st' \<Longrightarrow> rs_state st \<noteq> RsReadable \<Longrightarrow> rs_state st' = rs_state st"
  by (simp add: rs_le_def)

section \<open>Elementary changes\<close>

lemmas inv_defs = rinv_def rbase_def flags_ok_def readers_ok_def accounts_ok_def ropen_def
lemmas view_defs = waiting_def closed_ids_def owed_def obl_def

lemma on_reader_simps [simp]:
  "rs_stream (on_reader i f st) = rs_stream st" "rs_controller (on_reader i f st) = rs_controller st"
  "rs_promises (on_reader i f st) = rs_promises st" "rs_reads (on_reader i f st) = rs_reads st"
  "rs_next_read (on_reader i f st) = rs_next_read st" "rs_next_reader (on_reader i f st) = rs_next_reader st"
  "rs_reactions (on_reader i f st) = rs_reactions st"
  "rs_readers (on_reader i f st) = (rs_readers st)(i := f (rs_readers st i))"
  by (simp_all add: on_reader_def)

lemma settle_read_simps [simp]:
  "rs_stream (settle_read p r st) = rs_stream st" "rs_controller (settle_read p r st) = rs_controller st"
  "rs_promises (settle_read p r st) = rs_promises st" "rs_readers (settle_read p r st) = rs_readers st"
  "rs_next_read (settle_read p r st) = rs_next_read st"
  "rs_next_reader (settle_read p r st) = rs_next_reader st"
  "rs_reactions (settle_read p r st) = rs_reactions st"
  "rs_reads (settle_read p r st) q = (if q = p \<and> rs_reads st p = ReadPending then r else rs_reads st q)"
  by (simp_all add: settle_read_def)

lemma readable_react_simps [simp]:
  "rs_stream (readable_react k p st) = rs_stream st" "rs_controller (readable_react k p st) = rs_controller st"
  "rs_promises (readable_react k p st) = rs_promises st" "rs_readers (readable_react k p st) = rs_readers st"
  "rs_reads (readable_react k p st) = rs_reads st" "rs_next_read (readable_react k p st) = rs_next_read st"
  "rs_next_reader (readable_react k p st) = rs_next_reader st"
  "rs_reactions (readable_react k p st) = rs_reactions st @ [(k, p)]"
  by (simp_all add: readable_react_def)

lemma owes_perm: "mset xs = mset ys \<Longrightarrow> owes xs S = owes ys S"
  unfolding owes_def by (metis mset_eq_imp_distinct_iff mset_eq_setD)

lemma owes_paid: "owes (p # xs) S \<Longrightarrow> owes xs (S - {p})"
  by (auto simp: owes_def)

lemma owes_new: "owes xs S \<Longrightarrow> p \<notin> S \<Longrightarrow> owes (p # xs) (insert p S)"
  by (auto simp: owes_def)

lemma pending_settle: "s \<noteq> Pending \<Longrightarrow> pending_promises (settle p s ps) = pending_promises ps - {p}"
  by (auto simp: pending_promises_def)

lemma pending_new: "pending_promises (fst (new_pending ps)) = insert (pr_next ps) (pending_promises ps)"
  by (auto simp: pending_promises_def less_Suc_eq)

lemma pr_next_pending [simp]: "pr_next ps \<notin> pending_promises ps"
  by (simp add: pending_promises_def)

lemma pending_handled [simp]: "pending_promises (ps\<lparr>pr_handled := h\<rparr>) = pending_promises ps"
  by (simp add: pending_promises_def)

text \<open>What the parts of the invariant do not depend on.\<close>

lemma waiting_frame [simp]:
  "waiting (st\<lparr>rs_controller := c\<rparr>) = waiting st" "waiting (st\<lparr>rs_promises := ps\<rparr>) = waiting st"
  "waiting (st\<lparr>rs_reads := rd\<rparr>) = waiting st" "waiting (st\<lparr>rs_next_read := n\<rparr>) = waiting st"
  "waiting (st\<lparr>rs_next_reader := n\<rparr>) = waiting st" "waiting (st\<lparr>rs_reactions := rr\<rparr>) = waiting st"
  "waiting (readable_react k p st) = waiting st" "waiting (settle_read q r st) = waiting st"
  by (simp_all add: waiting_def split: option.split)

lemma closed_ids_frame [simp]:
  "closed_ids (st\<lparr>rs_controller := c\<rparr>) = closed_ids st" "closed_ids (st\<lparr>rs_promises := ps\<rparr>) = closed_ids st"
  "closed_ids (st\<lparr>rs_reads := rd\<rparr>) = closed_ids st" "closed_ids (st\<lparr>rs_next_read := n\<rparr>) = closed_ids st"
  "closed_ids (st\<lparr>rs_next_reader := n\<rparr>) = closed_ids st" "closed_ids (st\<lparr>rs_reactions := rr\<rparr>) = closed_ids st"
  "closed_ids (readable_react k p st) = closed_ids st" "closed_ids (settle_read q r st) = closed_ids st"
  by (simp_all add: closed_ids_def split: option.split)

lemma obl_frame [simp]:
  "obl K (st\<lparr>rs_controller := c\<rparr>) = obl K st" "obl K (st\<lparr>rs_promises := ps\<rparr>) = obl K st"
  "obl K (st\<lparr>rs_reads := rd\<rparr>) = obl K st" "obl K (st\<lparr>rs_next_read := n\<rparr>) = obl K st"
  "obl K (st\<lparr>rs_next_reader := n\<rparr>) = obl K st" "obl K (st\<lparr>rs_readers := rr\<rparr>) = obl K st"
  "obl K (st\<lparr>rs_stream := s\<rparr>) = obl K st" "obl K (on_reader i f st) = obl K st"
  "obl K (settle_read q r st) = obl K st"
  by (simp_all add: obl_def on_reader_def)

lemma owed_frame [simp]:
  "owed K (st\<lparr>rs_controller := c\<rparr>) = owed K st" "owed K (st\<lparr>rs_promises := ps\<rparr>) = owed K st"
  "owed K (st\<lparr>rs_reads := rd\<rparr>) = owed K st" "owed K (st\<lparr>rs_next_read := n\<rparr>) = owed K st"
  "owed K (st\<lparr>rs_next_reader := n\<rparr>) = owed K st" "owed K (settle_read q r st) = owed K st"
  by (simp_all add: owed_def)

lemma pending_reads_frame [simp]:
  "pending_reads (st\<lparr>rs_controller := c\<rparr>) = pending_reads st"
  "pending_reads (st\<lparr>rs_promises := ps\<rparr>) = pending_reads st"
  "pending_reads (st\<lparr>rs_stream := s\<rparr>) = pending_reads st"
  "pending_reads (st\<lparr>rs_next_reader := n\<rparr>) = pending_reads st"
  "pending_reads (st\<lparr>rs_reactions := rr\<rparr>) = pending_reads st"
  "pending_reads (on_reader i f st) = pending_reads st" "pending_reads (readable_react k p st) = pending_reads st"
  by (simp_all add: pending_reads_def)

lemma pending_reads_settle [simp]:
  "r \<noteq> ReadPending \<Longrightarrow> pending_reads (settle_read p r st) = pending_reads st - {p}"
  by (auto simp: pending_reads_def)

text \<open>A read that an operation answers is settled and not owed any more.\<close>

lemma settle_read_ok:
  assumes inv: "rinv K (p # P) st" and r: "r \<noteq> ReadPending"
  shows "rinv K P (settle_read p r st) \<and> rs_le st (settle_read p r st)"
proof -
  have "owes (p # read_ids (waiting st) @ P) (pending_reads st) = owes (read_ids (waiting st) @ p # P) (pending_reads st)"
    by (rule owes_perm) simp
  then have "owes (read_ids (waiting st) @ P) (pending_reads st - {p})"
    using inv by (intro owes_paid) (simp add: inv_defs)
  moreover have "rs_le st (settle_read p r st)" by (simp add: rs_le_def)
  ultimately show ?thesis using inv r by (simp add: inv_defs)
qed

text \<open>The obligations of a reaction that is announced and those of one that is attached are the same.\<close>

lemma cancel_ids_perm: "mset ks = mset ks' \<Longrightarrow> mset (cancel_ids ks) = mset (cancel_ids ks')"
proof -
  have f: "mset (cancel_ids ks) = image_mset (\<lambda>k. case k of RCancel p \<Rightarrow> p | _ \<Rightarrow> 0)
      (filter_mset (\<lambda>k. \<exists>p. k = RCancel p) (mset ks))" for ks
    by (induction ks rule: cancel_ids.induct) simp_all
  assume "mset ks = mset ks'"
  then show ?thesis by (simp add: f)
qed

lemma rinv_perm:
  assumes m: "mset (obl K' st') = mset (obl K st)"
    and eq: "rs_stream st' = rs_stream st" "rs_controller st' = rs_controller st"
      "rs_readers st' = rs_readers st" "rs_next_reader st' = rs_next_reader st"
      "rs_promises st' = rs_promises st" "rs_reads st' = rs_reads st" "rs_next_read st' = rs_next_read st"
  shows "rinv K' P st' = rinv K P st"
proof -
  have set: "set (obl K' st') = set (obl K st)" using m by (metis mset_eq_setD)
  have cnt: "count_list (obl K' st') x = count_list (obl K st) x" for x
    using m by (metis count_mset)
  have views: "waiting st' = waiting st" "closed_ids st' = closed_ids st"
    "pending_reads st' = pending_reads st"
    using eq by (simp_all add: waiting_def closed_ids_def pending_reads_def split: option.split)
  have "owes (owed K' st') S = owes (owed K st) S" for S
    by (rule owes_perm) (simp add: owed_def views cancel_ids_perm [OF m])
  then show ?thesis using eq by (simp add: inv_defs set cnt views)
qed

lemma readable_react_ok:
  assumes "rinv (k # K) P st"
  shows "rinv K P (readable_react k p st) \<and> rs_le st (readable_react k p st)"
proof -
  have "rinv K P (readable_react k p st) = rinv (k # K) P st"
    by (rule rinv_perm) (simp_all add: obl_def)
  then show ?thesis using assms by (simp add: rs_le_def)
qed

lemma rinv_take_reaction:
  assumes inv: "rinv K P st" and n: "n < length (rs_reactions st)" and k: "rs_reactions st ! n = (k, p)"
  shows "rinv (k # K) P
    (st\<lparr>rs_reactions := take n (rs_reactions st) @ drop (Suc n) (rs_reactions st)\<rparr>)" (is "rinv _ _ ?st")
proof -
  have rs: "rs_reactions st = take n (rs_reactions st) @ (k, p) # drop (Suc n) (rs_reactions st)"
    using id_take_nth_drop [OF n] k by simp
  have "mset (obl (k # K) ?st) = mset (obl K st)"
    unfolding obl_def by (subst (3) rs) simp
  then have "rinv (k # K) P ?st = rinv K P st" by (rule rinv_perm) simp_all
  with inv show ?thesis by simp
qed

end
