(* ===== verification/Readable_Ops.thy ===== *)
theory Readable_Ops
  imports Readable_Inv
begin

text \<open>
  The contracts of the stream and controller operations under the invariant. The locale states
  what is assumed of code outside the component: it keeps the invariant it finds, with the
  obligations of the operations on the stack, undoes nothing, and what it returns can be made a promise.
\<close>

section \<open>Composing\<close>

definition goes :: "read_reaction list \<Rightarrow> nat list \<Rightarrow> rs \<Rightarrow> rs \<Rightarrow> bool" where
  "goes K P st st' \<longleftrightarrow> rinv K P st' \<and> rs_le st st'"

lemma goesD: "goes K P st st' \<Longrightarrow> rinv K P st'" "goes K P st st' \<Longrightarrow> rs_le st st'"
  by (simp_all add: goes_def)

lemma wp_goes: "rs_le st st1 \<Longrightarrow> wp m (goes K P st1) \<Longrightarrow> wp m (goes K P st)"
  by (erule wp_mono) (auto simp: goes_def intro: rs_le_trans)

lemma wp_goes_pair:
  "rs_le st st1 \<Longrightarrow> wp m (\<lambda>(st', r). goes K P st1 st') \<Longrightarrow> wp m (\<lambda>(st', r). goes K P st st')"
  by (erule wp_mono) (auto simp: goes_def intro: rs_le_trans)

lemma goes_trans: "rs_le a b \<Longrightarrow> goes K P b c \<Longrightarrow> goes K P a c"
  by (auto simp: goes_def intro: rs_le_trans)

lemma rinvD: "rinv K P st \<Longrightarrow> rbase K P st" "rinv K P st \<Longrightarrow> rs_state st = RsReadable \<Longrightarrow> ropen K st"
  by (simp_all add: rinv_def)

lemma rinv_not_readable: "rbase K P st \<Longrightarrow> rs_state st \<noteq> RsReadable \<Longrightarrow> rinv K P st"
  by (simp add: rinv_def)

lemma read_obl_Cons [simp]: "obl (k # K) st = k # obl K st"
  by (simp add: obl_def)

text \<open>A controller that changes without its flags.\<close>

lemma rbase_controller:
  assumes "rbase K P st" "k_started c = k_started (rs_controller st)"
    "k_pulling c = k_pulling (rs_controller st)" "k_pull_again c = k_pull_again (rs_controller st)"
  shows "rbase K P (st\<lparr>rs_controller := c\<rparr>)"
  using assms by (simp add: inv_defs)

lemma goes_controller:
  assumes "rinv K P st" "k_started c = k_started (rs_controller st)"
    "k_pulling c = k_pulling (rs_controller st)" "k_pull_again c = k_pull_again (rs_controller st)"
    "rs_state st = RsReadable \<Longrightarrow> k_close_requested c \<Longrightarrow> k_queue c \<noteq> []"
  shows "goes K P st (st\<lparr>rs_controller := c\<rparr>)"
  using assms by (simp add: goes_def inv_defs rs_le_def)

lemma rs_le_controller [simp]:
  "rs_le st (st\<lparr>rs_controller := c\<rparr>) = (k_started (rs_controller st) \<longrightarrow> k_started c)"
  by (simp add: rs_le_def)

lemma closed_state_frame [simp]:
  "closed_state (s\<lparr>r_disturbed := b\<rparr>) = closed_state s" "closed_state (s\<lparr>r_reader := r\<rparr>) = closed_state s"
  "closed_state (s\<lparr>r_controller := b\<rparr>) = closed_state s"
  by (simp_all add: closed_state_def split: readable_state.split)

lemma goes_disturbed:
  assumes "rinv K P st"
  shows "goes K P st (on_stream (\<lambda>s. s\<lparr>r_disturbed := True\<rparr>) st)"
proof -
  have "waiting (on_stream (\<lambda>s. s\<lparr>r_disturbed := True\<rparr>) st) = waiting st"
    "closed_ids (on_stream (\<lambda>s. s\<lparr>r_disturbed := True\<rparr>) st) = closed_ids st"
    by (simp_all add: waiting_def closed_ids_def split: option.split)
  then show ?thesis using assms
    by (simp add: goes_def inv_defs owed_def rs_le_def)
qed

text \<open>A new read is pending and owed by its caller.\<close>

lemma goes_new_read:
  assumes "rinv K P st"
  shows "goes K (rs_next_read st # P) st
    (st\<lparr>rs_next_read := rs_next_read st + 1, rs_reads := (rs_reads st)(rs_next_read st := ReadPending)\<rparr>)"
    (is "goes _ _ _ ?st")
proof -
  have "pending_reads ?st = insert (rs_next_read st) (pending_reads st)"
    by (auto simp: pending_reads_def less_Suc_eq)
  moreover have "rs_next_read st \<notin> pending_reads st" by (simp add: pending_reads_def)
  ultimately have "owes (rs_next_read st # read_ids (waiting st) @ P) (pending_reads ?st)"
    using assms by (simp add: owes_new inv_defs)
  also have "owes (rs_next_read st # read_ids (waiting st) @ P) (pending_reads ?st) =
      owes (read_ids (waiting st) @ rs_next_read st # P) (pending_reads ?st)"
    by (rule owes_perm) simp
  finally show ?thesis using assms by (simp add: goes_def inv_defs rs_le_def)
qed

text \<open>A reaction of start or pull that was taken to run owes no promise.\<close>

lemma rbase_drop:
  assumes "rbase (k # K) P st" "k = RStart \<or> k = RPull"
  shows "rbase K P st"
  using assms by (auto simp: inv_defs owed_def split: if_splits)

section \<open>Leaving the readable state\<close>

lemma leave_readable:
  assumes base: "rbase K P st" and R: "rs_state st = RsReadable"
    and s: "r_state s \<noteq> RsReadable" "r_reader s = r_reader (rs_stream st)"
      "r_controller s = r_controller (rs_stream st)" "r_disturbed s = r_disturbed (rs_stream st)"
  shows "r_reader (rs_stream st) = None \<Longrightarrow> goes K P st (st\<lparr>rs_stream := s\<rparr>)"
    and "r_reader (rs_stream st) = Some i \<Longrightarrow>
      goes K (read_ids (rd_read_requests (rs_readers st i)) @ P) st
        (take_read_requests i (st\<lparr>rs_stream := s, rs_promises :=
           (settle (rd_closed_promise (rs_readers st i)) (closed_state s) (rs_promises st))\<lparr>pr_handled := h\<rparr>\<rparr>))"
proof -
  assume "r_reader (rs_stream st) = None"
  with assms show "goes K P st (st\<lparr>rs_stream := s\<rparr>)"
    by (simp add: goes_def inv_defs rs_le_def waiting_def closed_ids_def owed_def)
next
  let ?c = "rd_closed_promise (rs_readers st i)"
  let ?st = "take_read_requests i (st\<lparr>rs_stream := s, rs_promises :=
      (settle ?c (closed_state s) (rs_promises st))\<lparr>pr_handled := h\<rparr>\<rparr>)"
  assume i: "r_reader (rs_stream st) = Some i"
  have ns: "closed_state s \<noteq> Pending" using s(1) by (simp add: closed_state_def split: readable_state.split)
  have w: "waiting st = rd_read_requests (rs_readers st i)" "waiting ?st = []"
    "closed_ids st = [?c]" "closed_ids ?st = []"
    using i s R by (simp_all add: waiting_def closed_ids_def take_read_requests_def)
  have "owes (?c # cancel_ids (obl K st)) (pending_promises (rs_promises st))"
    using base by (simp add: inv_defs owed_def w)
  moreover have "owed K ?st = cancel_ids (obl K st)"
    unfolding owed_def w by (simp add: take_read_requests_def)
  ultimately have o: "owes (owed K ?st) (pending_promises (rs_promises ?st))"
    using ns by (simp add: take_read_requests_def pending_settle owes_paid)
  have c: "pr_state (rs_promises st) ?c = Pending"
    using base i R by (simp add: inv_defs closed_state_def)
  have "pending_reads ?st = pending_reads st"
    by (simp add: pending_reads_def take_read_requests_def)
  with o w have "accounts_ok K (read_ids (rd_read_requests (rs_readers st i)) @ P) ?st"
    using base by (simp add: inv_defs)
  moreover have "readers_ok ?st" unfolding readers_ok_def w(2)
    using base i s c by (simp add: inv_defs take_read_requests_def)
  moreover have "flags_ok K ?st"
    using base s by (simp add: inv_defs take_read_requests_def)
  moreover have "rs_le st ?st"
    using R s by (simp add: rs_le_def take_read_requests_def keeps_settled_def)
  ultimately show "goes K (read_ids (rd_read_requests (rs_readers st i)) @ P) st ?st"
    using s(1) by (simp add: goes_def rinv_def rbase_def take_read_requests_def)
qed

section \<open>Code outside the component\<close>

locale read_user =
  fixes U :: rs_code
  assumes user_returns: "rinv K P st \<Longrightarrow> wp (U call st) (\<lambda>(st', r). rinv K P st' \<and> rs_le st st' \<and>
    r \<noteq> Unresolvable \<and> \<not> (call = ConstructorLookup \<and> threw r))"
begin

lemma user: "rinv K P st \<Longrightarrow> wp (U call st) (\<lambda>(st', r). rinv K P st' \<and> rs_le st st')"
  by (rule wp_mono [OF user_returns]) auto

lemma user_goes: "rinv K P st \<Longrightarrow> wp (U call st) (\<lambda>(st', r). goes K P st st')"
  using user by (simp add: goes_def)

lemma invoke_goes:
  assumes "rinv K P st"
  shows "wp (invoke_promise_algorithm U a c st) (\<lambda>(st', r). goes K P st st')"
    and "wp (invoke_algorithm U a c st) (\<lambda>(st', r). goes K P st st')"
  using assms user_goes [OF assms, of c] user_returns [OF assms, of c]
  by (auto simp: invoke_promise_algorithm_def invoke_algorithm_def goes_def case_prod_unfold
    split: algorithm.split elim: wp_mono)

lemma resolution_settles [simp]: "resolution r v d \<noteq> ReadPending"
  by (simp add: resolution_def split: user_result.split)

lemma answer_ok:
  assumes "rinv K (read_ids [r] @ P) st"
  shows "wp (chunk_steps U r v st) (goes K P st)" and "wp (close_steps U r st) (goes K P st)"
    and "wp (request_error_steps U r v st) (goes K P st)"
proof -
  have settle: "goes K P st (settle_read p x st')" if "goes K (p # P) st st'" "x \<noteq> ReadPending" for p x st'
    using settle_read_ok [OF goesD(1) [OF that(1)] that(2)] goesD(2) [OF that(1)]
    by (auto simp: goes_def intro: rs_le_trans)
  show "wp (request_error_steps U r v st) (goes K P st)"
  proof (cases r)
    case (ReadPromise p)
    then show ?thesis using settle [of p st "ReadRejected v"] assms
      by (simp add: request_error_steps_def goes_def)
  next
    case (Consumer n)
    with user_goes [of K P st "ConsumerError n v"] assms show ?thesis
      by (simp add: request_error_steps_def wp_map_option case_prod_unfold)
  qed
  show "wp (chunk_steps U r v st) (goes K P st)"
  proof (cases r)
    case (ReadPromise p)
    with user_goes [OF assms, of "ThenLookup p"] obtain st1 x where
      "U (ThenLookup p) st = Some (st1, x)" "goes K (p # P) st st1" by (auto elim: wp_pairE)
    then show ?thesis using settle by (simp add: ReadPromise chunk_steps_def)
  next
    case (Consumer n)
    with user_goes [of K P st "ConsumerChunk n v"] assms show ?thesis
      by (simp add: chunk_steps_def wp_map_option case_prod_unfold)
  qed
  show "wp (close_steps U r st) (goes K P st)"
  proof (cases r)
    case (ReadPromise p)
    with user_goes [OF assms, of "ThenLookup p"] obtain st1 x where
      "U (ThenLookup p) st = Some (st1, x)" "goes K (p # P) st st1" by (auto elim: wp_pairE)
    then show ?thesis using settle by (simp add: ReadPromise close_steps_def)
  next
    case (Consumer n)
    with user_goes [of K P st "ConsumerClose n"] assms show ?thesis
      by (simp add: close_steps_def wp_map_option case_prod_unfold)
  qed
qed

lemma snapshot_ok:
  assumes "\<And>r P st. rinv K (read_ids [r] @ P) st \<Longrightarrow> wp (steps r st) (goes K P st)"
  shows "rinv K (read_ids rs @ P) st \<Longrightarrow> wp (settle_request_snapshot steps rs st) (goes K P st)"
proof (induction rs arbitrary: st)
  case Nil
  then show ?case by (simp add: goes_def)
next
  case (Cons r rs)
  have "rinv K (read_ids [r] @ read_ids rs @ P) st"
    using Cons.prems by (simp add: read_ids_Cons [of r rs])
  from assms [OF this] obtain st1 where "steps r st = Some st1" "goes K (read_ids rs @ P) st st1"
    by (rule wpE)
  then show ?case using wp_goes [OF goesD(2) Cons.IH [OF goesD(1)]] by simp
qed

end

end
