(* ===== verification/Readable_Contracts.thy ===== *)
theory Readable_Contracts
  imports Readable_Ops
begin

text \<open>
  Every operation of the stream, its controller and its readers keeps the invariant and panics
  nowhere, whatever the code it calls does through the interface.
\<close>

lemma goesI: "rinv K P st' \<Longrightarrow> rs_le st st' \<Longrightarrow> goes K P st st'"
  by (simp add: goes_def)

lemma goes_refl: "rinv K P st \<Longrightarrow> goes K P st st"
  by (simp add: goes_def)

lemma rs_le_clear [simp]: "rs_le st (readable_clear_algorithms st)"
  by (simp add: readable_clear_algorithms_def)

lemma clear_simps [simp]:
  "rs_stream (readable_clear_algorithms st) = rs_stream st" "rs_readers (readable_clear_algorithms st) = rs_readers st"
  "k_queue (rs_controller (readable_clear_algorithms st)) = k_queue (rs_controller st)"
  by (simp_all add: readable_clear_algorithms_def)

lemma rbase_clear: "rbase K P st \<Longrightarrow> rbase K P (readable_clear_algorithms st)"
  unfolding readable_clear_algorithms_def by (rule rbase_controller) simp_all

lemma goes_clear: "rinv K P st \<Longrightarrow> goes K P st (readable_clear_algorithms st)"
  unfolding readable_clear_algorithms_def
  by (rule goes_controller) (simp_all add: inv_defs)

text \<open>Whether to pull is always known, and never asked for before the stream started.\<close>

lemma should_call_pull_known:
  "\<exists>b. should_call_pull st = Some b \<and>
     (b \<longrightarrow> rs_state st = RsReadable \<and> k_started (rs_controller st) \<and>
       \<not> k_close_requested (rs_controller st))"
  by (auto simp: should_call_pull_def can_close_or_enqueue_def has_waiting_reads_def is_locked_def
      get_num_read_requests_def readable_get_desired_size_def)

lemma rinv_flags:
  assumes "rinv K P st"
  shows "RStart \<in> set (obl K st) \<Longrightarrow> \<not> k_started (rs_controller st)"
    and "k_pulling (rs_controller st) \<Longrightarrow> k_started (rs_controller st)"
    and "k_pull_again (rs_controller st) \<Longrightarrow> k_pulling (rs_controller st)"
    and "RPull \<in> set (obl K st) \<Longrightarrow> k_pulling (rs_controller st)"
  using assms unfolding inv_defs by blast+

lemma start_pulling:
  assumes inv: "rinv K P st" and s: "k_started (rs_controller st)" and p: "\<not> k_pulling (rs_controller st)"
  shows "goes (RPull # K) P st (on_controller (\<lambda>k. k\<lparr>k_pulling := True\<rparr>) st)"
proof -
  have "RPull \<notin> set (obl K st)" using rinv_flags(4) [OF inv] p by blast
  then have c: "count_list (obl K st) RPull = 0" by (simp add: count_list_0_iff)
  let ?st = "on_controller (\<lambda>k. k\<lparr>k_pulling := True\<rparr>) st"
  have parts: "flags_ok K st" "readers_ok st" "accounts_ok K P st"
    "rs_state st = RsReadable \<Longrightarrow> ropen K st"
    using inv by (simp_all add: rinv_def rbase_def)
  have "flags_ok (RPull # K) ?st" using parts(1) s c by (simp add: flags_ok_def)
  moreover have "readers_ok ?st" using parts(2) by (simp add: readers_ok_def)
  moreover have "accounts_ok (RPull # K) P ?st" using parts(3) by (simp add: accounts_ok_def owed_def)
  moreover have "rs_state st = RsReadable \<longrightarrow> ropen (RPull # K) ?st"
    using parts(4) s by (simp add: ropen_def)
  ultimately show ?thesis by (simp add: goes_def rinv_def rbase_def)
qed

lemma can_pull_again:
  assumes "rinv K P st" "k_pulling (rs_controller st)"
  shows "goes K P st (on_controller (\<lambda>k. k\<lparr>k_pull_again := True\<rparr>) st)"
proof -
  have "RStart \<notin> set (obl K st)" using rinv_flags [OF assms(1)] assms(2) by blast
  with assms show ?thesis by (simp add: goes_def inv_defs)
qed

lemma reader_of: "rinv K P st \<Longrightarrow> rd_stream (rs_readers st i) \<longleftrightarrow> r_reader (rs_stream st) = Some i"
  by (simp add: inv_defs)

text \<open>A waiting read is the reader's, a read that is taken is the caller's.\<close>

lemma goes_add_request:
  assumes inv: "rinv K (read_ids [r] @ P) st" and i: "r_reader (rs_stream st) = Some i"
    and R: "rs_state st = RsReadable"
  shows "goes K P st (on_reader i (\<lambda>x. x\<lparr>rd_read_requests := rd_read_requests x @ [r]\<rparr>) st)"
    (is "goes _ _ _ ?st")
proof -
  have w: "waiting ?st = waiting st @ [r]" "closed_ids ?st = closed_ids st"
    using i by (simp_all add: waiting_def closed_ids_def)
  show ?thesis using inv R i by (simp add: goes_def inv_defs w owed_def rs_le_def)
qed

lemma goes_take_request:
  assumes inv: "rinv K P st" and i: "r_reader (rs_stream st) = Some i"
    and r: "rd_read_requests (rs_readers st i) = r # rest"
  shows "goes K (read_ids [r] @ P) st (on_reader i (\<lambda>x. x\<lparr>rd_read_requests := rest\<rparr>) st)"
    (is "goes _ _ _ ?st")
proof -
  have w: "waiting ?st = rest" "waiting st = r # rest" "closed_ids ?st = closed_ids st"
    using i r by (simp_all add: waiting_def closed_ids_def)
  have R: "rs_state st = RsReadable" using inv by (auto simp: inv_defs w)
  have "owes (read_ids rest @ read_ids [r] @ P) S = owes (read_ids (r # rest) @ P) S" for S
    by (rule owes_perm) (simp add: read_ids_Cons [of r rest])
  then show ?thesis using inv R i by (simp add: goes_def inv_defs w owed_def rs_le_def)
qed

context read_user
begin

lemma close_ok:
  assumes base: "rbase K P st" and R: "rs_state st = RsReadable"
  shows "wp (readable_stream_close U st) (\<lambda>st'. goes K P st st' \<and> rs_state st' = RsClosed)"
proof -
  let ?s = "(rs_stream st)\<lparr>r_state := RsClosed\<rparr>"
  note leave = leave_readable [OF base R, of ?s]
  show ?thesis
  proof (cases "r_reader (rs_stream st)")
    case None
    then show ?thesis using leave(1) R by (simp add: readable_stream_close_def)
  next
    case (Some i)
    let ?c = "rd_closed_promise (rs_readers st i)"
    let ?st = "take_read_requests i (st\<lparr>rs_stream := ?s, rs_promises :=
        resolve_promise ?c JUndefined (rs_promises st)\<rparr>)"
    have h: "(resolve_promise ?c JUndefined (rs_promises st))\<lparr>pr_handled := pr_handled (rs_promises st)\<rparr>
        = resolve_promise ?c JUndefined (rs_promises st)" by (simp add: settle_def)
    have g: "goes K (read_ids (rd_read_requests (rs_readers st i)) @ P) st ?st"
      using leave(2) [of i "pr_handled (rs_promises st)"] Some by (simp add: closed_state_def h)
    have closed: "rs_state ?st = RsClosed" by (simp add: take_read_requests_def)
    from snapshot_ok [of K "close_steps U", OF answer_ok(2) goesD(1) [OF g]] obtain st' where
      st': "settle_request_snapshot (close_steps U) (rd_read_requests (rs_readers st i)) ?st = Some st'"
        "goes K P ?st st'" by (rule wpE)
    have "goes K P st st'" by (rule goes_trans [OF goesD(2) [OF g] st'(2)])
    moreover have "rs_state st' = RsClosed"
      using rs_le_state [OF goesD(2) [OF st'(2)]] closed by simp
    ultimately show ?thesis using Some R st'(1) by (simp add: readable_stream_close_def)
  qed
qed

lemma error_ok:
  assumes base: "rbase K P st" and R: "rs_state st = RsReadable"
  shows "wp (readable_stream_error U e st) (goes K P st)"
proof -
  let ?s = "(rs_stream st)\<lparr>r_state := RsErrored, r_stored_error := e\<rparr>"
  note leave = leave_readable [OF base R, of ?s]
  show ?thesis
  proof (cases "r_reader (rs_stream st)")
    case None
    then show ?thesis using leave(1) R by (simp add: readable_stream_error_def)
  next
    case (Some i)
    let ?c = "rd_closed_promise (rs_readers st i)"
    let ?ps = "reject_promise ?c e (rs_promises st)"
    let ?st = "take_read_requests i (st\<lparr>rs_stream := ?s, rs_promises :=
        ?ps\<lparr>pr_handled := (pr_handled (rs_promises st))(?c := True)\<rparr>\<rparr>)"
    have g: "goes K (read_ids (rd_read_requests (rs_readers st i)) @ P) st ?st"
      using leave(2) [of i] Some by (simp add: closed_state_def)
    from snapshot_ok [of K "\<lambda>r. request_error_steps U r e", OF answer_ok(3) goesD(1) [OF g]]
    have "wp (settle_request_snapshot (\<lambda>r. request_error_steps U r e) (rd_read_requests (rs_readers st i)) ?st)
        (goes K P st)" by (rule wp_goes [OF goesD(2) [OF g]])
    then show ?thesis using Some R
      by (simp add: readable_stream_error_def error_read_requests_def readable_mark_handled_def
          set_settled_is_handled_def Let_def)
  qed
qed

lemma readable_controller_error_ok:
  assumes "rbase K P st"
  shows "wp (readable_controller_error U e st) (goes K P st)"
proof (cases "rs_state st = RsReadable")
  case True
  let ?st = "readable_clear_algorithms (on_controller (reset_queue readable_queue_ops) st)"
  have q: "rbase K P (on_controller (reset_queue readable_queue_ops) st)"
    by (rule rbase_controller [OF assms]) (simp_all add: reset_queue_def readable_queue_ops_def)
  have le: "rs_le st ?st"
    by (rule rs_le_trans [OF _ rs_le_clear]) (simp add: reset_queue_def readable_queue_ops_def)
  from wp_goes [OF le error_ok [OF rbase_clear [OF q]]] True show ?thesis
    by (simp add: readable_controller_error_def)
next
  case False
  then show ?thesis using rinv_not_readable [OF assms] by (simp add: readable_controller_error_def goes_def)
qed

lemma call_pull_ok:
  assumes inv: "rinv K P st"
  shows "wp (call_pull_if_needed U st) (goes K P st)"
proof -
  obtain b where b: "should_call_pull st = Some b" "b \<Longrightarrow> k_started (rs_controller st)"
    using should_call_pull_known [of st] by auto
  show ?thesis
  proof (cases "b \<and> \<not> k_pulling (rs_controller st)")
    case False
    then show ?thesis using b(1) goes_refl [OF inv] can_pull_again [OF inv]
      by (auto simp: call_pull_if_needed_def)
  next
    case True
    let ?st1 = "on_controller (\<lambda>k. k\<lparr>k_pulling := True\<rparr>) st"
    let ?alg = "k_pull_algorithm (rs_controller st)"
    have g: "goes (RPull # K) P st ?st1" using start_pulling [OF inv] True b(2) by simp
    from invoke_goes(1) [OF goesD(1) [OF g], of ?alg "PullCall ?alg"] obtain st2 r where
      s: "invoke_promise_algorithm U ?alg (PullCall ?alg) ?st1 = Some (st2, r)"
        "goes (RPull # K) P ?st1 st2" by (rule wp_pairE)
    have "goes K P st (readable_react RPull r st2)"
      by (rule goes_trans [OF goesD(2) [OF g] goes_trans [OF goesD(2) [OF s(2)]]])
        (use readable_react_ok [OF goesD(1) [OF s(2)]] in \<open>simp add: goes_def\<close>)
    moreover have "\<not> k_pull_again (rs_controller st)" using rinv_flags(3) [OF inv] True by blast
    ultimately show ?thesis using True b(1) s(1) by (simp add: call_pull_if_needed_def)
  qed
qed

lemma readable_controller_close_ok:
  assumes inv: "rinv K P st"
  shows "wp (readable_controller_close U st) (goes K P st)"
proof (cases "can_close_or_enqueue st")
  case True
  let ?st = "on_controller (\<lambda>k. k\<lparr>k_close_requested := True\<rparr>) st"
  have R: "rs_state st = RsReadable" using True by (simp add: can_close_or_enqueue_def)
  show ?thesis
  proof (cases "k_queue (rs_controller st) = []")
    case True
    have "rbase K P ?st" by (rule rbase_controller [OF rinvD(1) [OF inv]]) simp_all
    from close_ok [OF rbase_clear [OF this]] R
    have "wp (readable_stream_close U (readable_clear_algorithms ?st)) (goes K P (readable_clear_algorithms ?st))"
      by (auto elim: wp_mono)
    from wp_goes [OF _ this, of st] \<open>can_close_or_enqueue st\<close> True show ?thesis
      by (simp add: readable_controller_close_def readable_clear_algorithms_def)
  next
    case False
    have "goes K P st ?st" by (rule goes_controller [OF inv]) (use False in simp_all)
    with \<open>can_close_or_enqueue st\<close> False show ?thesis by (simp add: readable_controller_close_def)
  qed
next
  case False
  then show ?thesis using goes_refl [OF inv] by (simp add: readable_controller_close_def)
qed

lemma fulfill_read_request_ok:
  assumes inv: "rinv K P st" and w: "has_waiting_reads st = Some True"
  shows "wp (fulfill_read_request U v d st) (goes K P st)"
proof -
  obtain i r rest where i: "r_reader (rs_stream st) = Some i"
    and r: "rd_read_requests (rs_readers st i) = r # rest"
    using w by (auto simp: has_waiting_reads_def get_num_read_requests_def neq_Nil_conv split: if_splits bind_splits)
  note g = goes_take_request [OF inv i r]
  show ?thesis
    using wp_goes [OF goesD(2) [OF g] answer_ok(1) [OF goesD(1) [OF g]]]
      wp_goes [OF goesD(2) [OF g] answer_ok(2) [OF goesD(1) [OF g]]]
    by (simp add: fulfill_read_request_def i r Let_def)
qed

lemma has_waiting_reads_known: "\<exists>b. has_waiting_reads st = Some b"
  by (auto simp: has_waiting_reads_def is_locked_def get_num_read_requests_def)

lemma readable_controller_enqueue_ok:
  assumes inv: "rinv K P st"
  shows "wp (readable_controller_enqueue U v st) (\<lambda>(st', r). goes K P st st')"
proof (cases "can_close_or_enqueue st")
  case False
  then show ?thesis using goes_refl [OF inv] by (simp add: readable_controller_enqueue_def)
next
  case can: True
  show ?thesis
  proof (cases "has_waiting_reads st = Some True")
    case True
    from fulfill_read_request_ok [OF inv True] obtain st1 where
      f: "fulfill_read_request U v False st = Some st1" "goes K P st st1" by (rule wpE)
    from wp_goes [OF goesD(2) [OF f(2)] call_pull_ok [OF goesD(1) [OF f(2)]]]
    show ?thesis using can True f(1) by (simp add: readable_controller_enqueue_def)
  next
    case False
    then have w: "has_waiting_reads st = Some False"
      using has_waiting_reads_known [of st] by auto
    let ?size = "case k_strategy_size_algorithm (rs_controller st) of
        None \<Rightarrow> Some (st, Number (f64_of_int 1)) | Some f \<Rightarrow> U (SizeCall f v) st"
    have "wp ?size (\<lambda>(st', r). goes K P st st')"
      using goes_refl [OF inv] user_goes [OF inv] by (simp split: option.split)
    then obtain st1 r where s: "?size = Some (st1, r)" "goes K P st st1" by (rule wp_pairE)
    let ?q = "case r of Threw e \<Rightarrow> Inl e
        | Number n \<Rightarrow> enqueue_value_with_size readable_queue_ops v n (rs_controller st1)
        | _ \<Rightarrow> enqueue_value_with_size readable_queue_ops v NaN (rs_controller st1)"
    show ?thesis
    proof (cases ?q)
      case (Inl e)
      have "wp (readable_controller_error U e st1) (goes K P st)"
        by (rule wp_goes [OF goesD(2) [OF s(2)] readable_controller_error_ok [OF rinvD(1) [OF goesD(1) [OF s(2)]]]])
      with can w s(1) Inl show ?thesis by (simp add: readable_controller_enqueue_def)
    next
      case (Inr k)
      then obtain n where "enqueue_value_with_size readable_queue_ops v n (rs_controller st1) = Inr k"
        by (cases r) auto
      then have k: "k_started k = k_started (rs_controller st1)" "k_pulling k = k_pulling (rs_controller st1)"
        "k_pull_again k = k_pull_again (rs_controller st1)" "k_queue k \<noteq> []"
        by (auto simp: enqueue_value_with_size_def readable_queue_ops_def Let_def split: if_splits)
      have g: "goes K P st1 (st1\<lparr>rs_controller := k\<rparr>)"
        by (rule goes_controller [OF goesD(1) [OF s(2)]]) (simp_all add: k)
      have "wp (call_pull_if_needed U (st1\<lparr>rs_controller := k\<rparr>)) (goes K P st)"
        by (rule wp_goes [OF rs_le_trans [OF goesD(2) [OF s(2)] goesD(2) [OF g]]
              call_pull_ok [OF goesD(1) [OF g]]])
      with can w s(1) Inr show ?thesis by (simp add: readable_controller_enqueue_def)
    qed
  qed
qed

lemma pull_steps_ok:
  assumes inv: "rinv K (read_ids [r] @ P) st" and i: "r_reader (rs_stream st) = Some i"
    and R: "rs_state st = RsReadable"
  shows "wp (pull_steps U r st) (goes K P st)"
proof (cases "k_queue (rs_controller st)")
  case Nil
  note g = goes_add_request [OF inv i R]
  from wp_goes [OF goesD(2) [OF g] call_pull_ok [OF goesD(1) [OF g]]] Nil i show ?thesis
    by (simp add: pull_steps_def add_read_request_def)
next
  case (Cons x q)
  let ?P = "read_ids [r] @ P"
  obtain k v where k: "dequeue_value readable_queue_ops (rs_controller st) = Some (k, v)" "k_queue k = q"
    "k_started k = k_started (rs_controller st)" "k_pulling k = k_pulling (rs_controller st)"
    "k_pull_again k = k_pull_again (rs_controller st)"
    using Cons by (simp add: dequeue_value_def readable_queue_ops_def Let_def)
  let ?st = "st\<lparr>rs_controller := k\<rparr>"
  let ?m = "if k_close_requested k \<and> k_queue k = []
      then readable_stream_close U (readable_clear_algorithms ?st) else call_pull_if_needed U ?st"
  have "wp ?m (goes K ?P st)"
  proof (cases "k_close_requested k \<and> k_queue k = []")
    case True
    have b: "rbase K ?P ?st" by (rule rbase_controller [OF rinvD(1) [OF inv]]) (simp_all add: k)
    from close_ok [OF rbase_clear [OF b]] R
    have "wp (readable_stream_close U (readable_clear_algorithms ?st)) (goes K ?P (readable_clear_algorithms ?st))"
      by (auto elim: wp_mono)
    from wp_goes [OF _ this, of st] True show ?thesis by (simp add: readable_clear_algorithms_def k)
  next
    case False
    have g: "goes K ?P st ?st" by (rule goes_controller [OF inv]) (use False k in auto)
    from wp_goes [OF goesD(2) [OF g] call_pull_ok [OF goesD(1) [OF g]]] False show ?thesis by auto
  qed
  then obtain st2 where st2: "?m = Some st2" "goes K ?P st st2" by (rule wpE)
  from wp_goes [OF goesD(2) [OF st2(2)] answer_ok(1) [OF goesD(1) [OF st2(2)]]]
  show ?thesis using Cons k(1) st2(1) by (simp add: pull_steps_def)
qed

lemma reader_read_ok:
  assumes inv: "rinv K (read_ids [r] @ P) st" and i: "rd_stream (rs_readers st i)"
  shows "wp (default_reader_read U i r st) (goes K P st)"
proof -
  let ?st = "on_stream (\<lambda>s. s\<lparr>r_disturbed := True\<rparr>) st"
  note g = goes_disturbed [OF inv]
  have reader: "r_reader (rs_stream ?st) = Some i" using i reader_of [OF inv] by simp
  have c: "r_controller (rs_stream st)" using inv by (simp add: inv_defs)
  show ?thesis
  proof (cases "rs_state st")
    case RsReadable
    with wp_goes [OF goesD(2) [OF g] pull_steps_ok [OF goesD(1) [OF g] reader]] i c show ?thesis
      by (simp add: default_reader_read_def)
  next
    case RsClosed
    with wp_goes [OF goesD(2) [OF g] answer_ok(2) [OF goesD(1) [OF g]]] i show ?thesis
      by (simp add: default_reader_read_def)
  next
    case RsErrored
    with wp_goes [OF goesD(2) [OF g] answer_ok(3) [OF goesD(1) [OF g]]] i show ?thesis
      by (simp add: default_reader_read_def)
  qed
qed

end

end
