(* ===== verification/Readable_Loop.thy ===== *)
theory Readable_Loop
  imports Readable_Contracts
begin

text \<open>
  Cancelling, locking and unlocking, the reactions, and with them every command of the interface;
  then the loop is closed: code that acts through the interface, at any depth of nesting, is code
  the contracts assume. Creation establishes the invariant.
\<close>

section \<open>New promises\<close>

lemma pr_state_new [simp]:
  "pr_state (fst (new_resolved_with_value v ps)) = (pr_state ps)(pr_next ps := Fulfilled v)"
  "pr_state (fst (new_rejected_with_error e ps)) = (pr_state ps)(pr_next ps := Rejected e)"
  "pr_next (fst (new_resolved_with_value v ps)) = Suc (pr_next ps)"
  "pr_next (fst (new_rejected_with_error e ps)) = Suc (pr_next ps)"
  "snd (new_resolved_with_value v ps) = pr_next ps" "snd (new_rejected_with_error e ps) = pr_next ps"
  by (auto simp: new_resolved_with_value_def new_rejected_with_error_def case_prod_unfold)

lemma pending_new_settled [simp]:
  "pending_promises (fst (new_resolved_with_value v ps)) = pending_promises ps"
  "pending_promises (fst (new_rejected_with_error e ps)) = pending_promises ps"
  by (auto simp: pending_promises_def less_Suc_eq)

lemma keeps_settled_new [simp]:
  "keeps_settled ps (fst (new_pending ps))" "keeps_settled ps (fst (new_resolved_with_value v ps))"
  "keeps_settled ps (fst (new_rejected_with_error e ps))"
  by (auto simp: keeps_settled_def)

lemma readable_new_promise_eq: "readable_new_promise mk st = (st\<lparr>rs_promises := fst (mk (rs_promises st))\<rparr>, snd (mk (rs_promises st)))"
  by (simp add: readable_new_promise_def case_prod_unfold Let_def)

text \<open>A promise that is made settled is owed by nobody.\<close>

lemma goes_new_settled:
  assumes inv: "rinv K P st" and ps: "pr_state ps = (pr_state (rs_promises st))(pr_next (rs_promises st) := s)"
      "pr_next ps = Suc (pr_next (rs_promises st))" "s \<noteq> Pending"
  shows "goes K P st (st\<lparr>rs_promises := ps\<rparr>)"
proof -
  have "pending_promises ps = pending_promises (rs_promises st)"
    using ps by (auto simp: pending_promises_def less_Suc_eq)
  moreover have "keeps_settled (rs_promises st) ps" using ps by (simp add: keeps_settled_def)
  ultimately show ?thesis using inv ps by (auto simp: goes_def inv_defs rs_le_def)
qed

text \<open>The promise of a cancellation is owed by the reaction that will be attached.\<close>

lemma goes_new_cancel:
  assumes inv: "rinv K P st"
  shows "goes (RCancel (pr_next (rs_promises st)) # K) P st (st\<lparr>rs_promises := fst (new_pending (rs_promises st))\<rparr>)"
    (is "goes (_ # K) P st ?st")
proof -
  let ?n = "pr_next (rs_promises st)"
  have "owes (?n # owed K st) (pending_promises (rs_promises ?st))"
    using inv by (simp add: pending_new owes_new inv_defs)
  also have "owes (?n # owed K st) (pending_promises (rs_promises ?st)) =
      owes (owed (RCancel ?n # K) ?st) (pending_promises (rs_promises ?st))"
    by (rule owes_perm) (simp add: owed_def)
  finally have o: "owes (owed (RCancel ?n # K) ?st) (pending_promises (rs_promises ?st))" .
  have parts: "flags_ok K st" "readers_ok st" "accounts_ok K P st"
    "rs_state st = RsReadable \<Longrightarrow> ropen K st"
    using inv by (simp_all add: rinv_def rbase_def)
  have "flags_ok (RCancel ?n # K) ?st" using parts(1) by (simp add: flags_ok_def)
  moreover have "readers_ok ?st" using parts(2) by (auto simp: readers_ok_def)
  moreover have "accounts_ok (RCancel ?n # K) P ?st" using parts(3) o by (simp add: accounts_ok_def)
  moreover have "rs_state st = RsReadable \<longrightarrow> ropen (RCancel ?n # K) ?st"
    using parts(4) by (simp add: ropen_def)
  ultimately show ?thesis by (simp add: goes_def rinv_def rbase_def rs_le_def)
qed

section \<open>Locking\<close>

lemma goes_lock:
  assumes inv: "rinv K P st" and free: "r_reader (rs_stream st) = None"
    and s: "pr_state ps = (pr_state (rs_promises st))(n := closed_state (rs_stream st))"
      "n = pr_next (rs_promises st)" "pr_next ps = Suc n"
  shows "goes K P st (on_reader i (\<lambda>_. \<lparr>rd_read_requests = [], rd_stream = True, rd_closed_promise = n\<rparr>)
    (st\<lparr>rs_next_reader := Suc i, rs_stream := (rs_stream st)\<lparr>r_reader := Some i\<rparr>, rs_promises := ps\<rparr>))"
    (is "goes _ _ _ ?st")
proof -
  have parts: "flags_ok K st" "readers_ok st" "accounts_ok K P st"
    "rs_state st = RsReadable \<Longrightarrow> ropen K st"
    using inv by (simp_all add: rinv_def rbase_def)
  have w: "waiting ?st = []" "waiting st = []" "closed_ids st = []"
    "closed_ids ?st = (if rs_state st = RsReadable then [n] else [])"
    using free by (simp_all add: waiting_def closed_ids_def)
  have "pending_promises ps = (if rs_state st = RsReadable then insert n else id) (pending_promises (rs_promises st))"
    using s by (auto simp: pending_promises_def less_Suc_eq closed_state_def split: readable_state.splits)
  moreover have "n \<notin> pending_promises (rs_promises st)" using s by simp
  ultimately have "owes (owed K ?st) (pending_promises ps)"
    using parts(3) unfolding accounts_ok_def owed_def w by (auto intro: owes_new)
  then have "accounts_ok K P ?st" using parts(3) w by (simp add: accounts_ok_def pending_reads_def)
  moreover have "flags_ok K ?st" using parts(1) by (simp add: flags_ok_def)
  moreover have "readers_ok ?st" using parts(2) free s unfolding readers_ok_def w by auto
  moreover have "rs_state st = RsReadable \<longrightarrow> ropen K ?st"
    using parts(4) by (simp add: ropen_def)
  moreover have "rs_le st ?st" using s by (auto simp: rs_le_def keeps_settled_def)
  ultimately show ?thesis by (simp add: goes_def rinv_def rbase_def)
qed

text \<open>A reader object that gets no stream is of no account.\<close>

lemma goes_idle_reader:
  assumes inv: "rinv K P st"
  shows "goes K P st (on_reader (rs_next_reader st)
    (\<lambda>_. \<lparr>rd_read_requests = [], rd_stream = False, rd_closed_promise = 0\<rparr>)
    (st\<lparr>rs_next_reader := Suc (rs_next_reader st)\<rparr>))" (is "goes _ _ _ ?st")
proof -
  have parts: "flags_ok K st" "readers_ok st" "accounts_ok K P st"
    "rs_state st = RsReadable \<Longrightarrow> ropen K st"
    using inv by (simp_all add: rinv_def rbase_def)
  have n: "r_reader (rs_stream st) \<noteq> Some (rs_next_reader st)"
    using parts(2) by (auto simp: readers_ok_def)
  then have w: "waiting ?st = waiting st" "closed_ids ?st = closed_ids st"
    by (auto simp: waiting_def closed_ids_def split: option.split)
  have "accounts_ok K P ?st" using parts(3) by (simp add: accounts_ok_def pending_reads_def owed_def w)
  moreover have "flags_ok K ?st" using parts(1) by (simp add: flags_ok_def)
  moreover have "readers_ok ?st" using parts(2) n unfolding readers_ok_def w by auto
  moreover have "rs_state st = RsReadable \<longrightarrow> ropen K ?st"
    using parts(4) by (simp add: ropen_def)
  moreover have "rs_le st ?st" by (simp add: rs_le_def)
  ultimately show ?thesis by (simp add: goes_def rinv_def rbase_def)
qed

lemma acquire_default_reader_ok:
  assumes inv: "rinv K P st"
  shows "wp (acquire_default_reader st) (\<lambda>(st', r). goes K P st st' \<and>
    (case r of Inl e \<Rightarrow> is_locked st | Inr i \<Rightarrow> r_reader (rs_stream st') = Some i))"
proof (cases "r_reader (rs_stream st)")
  case None
  let ?n = "pr_next (rs_promises st)"
  note lock = goes_lock [OF inv None, of _ ?n "rs_next_reader st"]
  show ?thesis
  proof (cases "rs_state st")
    case RsReadable
    then show ?thesis using lock [of "fst (new_pending (rs_promises st))"] None
      by (simp add: acquire_default_reader_def set_up_default_reader_def is_locked_def
          reader_generic_initialize_def take_read_requests_def readable_new_promise_eq closed_state_def
          on_reader_def Let_def)
  next
    case RsClosed
    then show ?thesis using lock [of "fst (new_resolved_with_value JUndefined (rs_promises st))"] None
      by (simp add: acquire_default_reader_def set_up_default_reader_def is_locked_def
          reader_generic_initialize_def take_read_requests_def readable_new_promise_eq closed_state_def
          on_reader_def Let_def)
  next
    case RsErrored
    let ?ps = "fst (new_rejected_with_error (r_stored_error (rs_stream st)) (rs_promises st))"
    show ?thesis using RsErrored None lock [of "?ps\<lparr>pr_handled := (pr_handled ?ps)(?n := True)\<rparr>"]
      by (simp add: acquire_default_reader_def set_up_default_reader_def is_locked_def
          reader_generic_initialize_def take_read_requests_def readable_new_promise_eq closed_state_def
          on_reader_def Let_def readable_mark_handled_def set_settled_is_handled_def)
  qed
next
  case (Some i)
  then show ?thesis using goes_idle_reader [OF inv]
    by (simp add: acquire_default_reader_def set_up_default_reader_def is_locked_def Let_def)
qed

section \<open>Unlocking\<close>

text \<open>
  The reader loses its stream: its reads become the caller's to answer, and its closed promise is
  settled, or a settled one takes its place.
\<close>

lemma goes_unlock:
  assumes inv: "rinv K P st" and i: "r_reader (rs_stream st) = Some i"
    and f: "\<And>r. \<not> rd_stream (f r)"
    and ps: "keeps_settled (rs_promises st) ps"
      "pending_promises ps = pending_promises (rs_promises st) - set (closed_ids st)"
  shows "goes K (read_ids (rd_read_requests (rs_readers st i)) @ P) st
    (on_reader i f (st\<lparr>rs_promises := ps, rs_stream := (rs_stream st)\<lparr>r_reader := None\<rparr>\<rparr>))"
    (is "goes _ _ _ ?st")
proof -
  have parts: "flags_ok K st" "readers_ok st" "accounts_ok K P st"
    "rs_state st = RsReadable \<Longrightarrow> ropen K st"
    using inv by (simp_all add: rinv_def rbase_def)
  have w: "waiting ?st = []" "waiting st = rd_read_requests (rs_readers st i)" "closed_ids ?st = []"
    "closed_ids st = (if rs_state st = RsReadable then [rd_closed_promise (rs_readers st i)] else [])"
    using i by (simp_all add: waiting_def closed_ids_def)
  have "owes (cancel_ids (obl K st)) (pending_promises ps)"
    using parts(3) ps(2) unfolding accounts_ok_def owed_def w by (auto dest: owes_paid split: if_splits)
  then have "accounts_ok K (read_ids (rd_read_requests (rs_readers st i)) @ P) ?st"
    using parts(3) by (simp add: accounts_ok_def pending_reads_def owed_def w)
  moreover have "flags_ok K ?st" using parts(1) by (simp add: flags_ok_def)
  moreover have "readers_ok ?st" using parts(2) i f unfolding readers_ok_def w by auto
  moreover have "rs_state st = RsReadable \<longrightarrow> ropen K ?st"
    using parts(4) by (simp add: ropen_def)
  moreover have "rs_le st ?st" using ps by (simp add: rs_le_def)
  ultimately show ?thesis by (simp add: goes_def rinv_def rbase_def)
qed

context read_user
begin

lemma default_reader_release_ok:
  assumes inv: "rinv K P st" and i: "rd_stream (rs_readers st i)"
  shows "wp (default_reader_release U i st) (goes K P st)"
proof -
  let ?e = "JTypeError ''Reader was released and can no longer be used to monitor the stream's closedness''"
  let ?c = "rd_closed_promise (rs_readers st i)" and ?n = "pr_next (rs_promises st)"
  have r: "r_reader (rs_stream st) = Some i" using i reader_of [OF inv] by simp
  define st' where "st' = (if rs_state st = RsReadable
    then (let ps = reject_promise ?c ?e (rs_promises st) in
      on_reader i (\<lambda>r. r\<lparr>rd_stream := False, rd_read_requests := []\<rparr>)
        (st\<lparr>rs_promises := ps\<lparr>pr_handled := (pr_handled ps)(?c := True)\<rparr>,
            rs_stream := (rs_stream st)\<lparr>r_reader := None\<rparr>\<rparr>))
    else (let ps = fst (new_rejected_with_error ?e (rs_promises st)) in
      on_reader i (\<lambda>r. r\<lparr>rd_closed_promise := ?n, rd_stream := False, rd_read_requests := []\<rparr>)
        (st\<lparr>rs_promises := ps\<lparr>pr_handled := (pr_handled ps)(?n := True)\<rparr>,
            rs_stream := (rs_stream st)\<lparr>r_reader := None\<rparr>\<rparr>)))"
  have g: "goes K (read_ids (rd_read_requests (rs_readers st i)) @ P) st st'"
    unfolding st'_def Let_def
    by (auto intro!: goes_unlock [OF inv r] simp: closed_ids_def r pending_settle keeps_settled_def)
  from snapshot_ok [of K "\<lambda>r. request_error_steps U r e" for e, OF answer_ok(3) goesD(1) [OF g]]
  have "wp (settle_request_snapshot (\<lambda>r. request_error_steps U r e) (rd_read_requests (rs_readers st i)) st')
      (goes K P st)" for e by (rule wp_goes [OF goesD(2) [OF g]])
  moreover have "default_reader_release U i st = settle_request_snapshot
      (\<lambda>r. request_error_steps U r (JTypeError ''Reader was released'')) (rd_read_requests (rs_readers st i)) st'"
    using i by (simp add: default_reader_release_def reader_generic_release_def error_read_requests_def
        take_read_requests_def st'_def readable_mark_handled_def set_settled_is_handled_def readable_new_promise_eq
        Let_def on_reader_def require_def)
  ultimately show ?thesis by simp
qed

section \<open>Cancelling\<close>

lemma cancel_steps_ok:
  assumes inv: "rinv K P st" and s: "rs_state st = RsClosed"
  shows "wp (cancel_steps U e st) (\<lambda>(st', r). goes K P st st')"
proof -
  let ?st = "on_controller (reset_queue readable_queue_ops) st"
  let ?alg = "k_cancel_algorithm (rs_controller ?st)"
  have g: "goes K P st ?st"
    by (rule goes_controller [OF inv]) (simp_all add: reset_queue_def readable_queue_ops_def s)
  from invoke_goes(1) [OF goesD(1) [OF g], of ?alg "CancelCall ?alg e"] obtain st2 r where
    i: "invoke_promise_algorithm U ?alg (CancelCall ?alg e) ?st = Some (st2, r)" "goes K P ?st st2"
    by (rule wp_pairE)
  have "goes K P st (readable_clear_algorithms st2)"
    by (rule goes_trans [OF goesD(2) [OF g] goes_trans [OF goesD(2) [OF i(2)] goes_clear [OF goesD(1) [OF i(2)]]]])
  with i(1) show ?thesis by (simp add: cancel_steps_def Let_def)
qed

lemma promise_then_ok:
  assumes inv: "rinv K P st"
  shows "wp (readable_promise_then U r st) (\<lambda>(st', p). goes K P st st')"
proof -
  from user_returns [OF inv, of ConstructorLookup] obtain st1 x where
    u: "U ConstructorLookup st = Some (st1, x)" "goes K P st st1" "\<not> threw x"
    by (auto simp: goes_def elim!: wp_pairE)
  let ?p = "pr_next (rs_promises st1)"
  let ?st2 = "st1\<lparr>rs_promises := fst (new_pending (rs_promises st1))\<rparr>"
  note n = goes_new_cancel [OF goesD(1) [OF u(2)]]
  have "goes K P ?st2 (readable_react (RCancel ?p) r ?st2)"
    using readable_react_ok [OF goesD(1) [OF n]] by (simp add: goes_def)
  then have "goes K P st (readable_react (RCancel ?p) r ?st2)"
    by (rule goes_trans [OF goesD(2) [OF u(2)] goes_trans [OF goesD(2) [OF n]]])
  with u show ?thesis by (simp add: readable_promise_then_def readable_new_promise_eq)
qed

lemma readable_stream_cancel_ok:
  assumes inv: "rinv K P st"
  shows "wp (readable_stream_cancel U e st) (\<lambda>(st', r). goes K P st st')"
proof -
  let ?st = "on_stream (\<lambda>s. s\<lparr>r_disturbed := True\<rparr>) st"
  note g = goes_disturbed [OF inv]
  show ?thesis
  proof (cases "rs_state st")
    case RsReadable
    from close_ok [OF rinvD(1) [OF goesD(1) [OF g]]] RsReadable obtain st2 where
      c: "readable_stream_close U ?st = Some st2" "goes K P ?st st2" "rs_state st2 = RsClosed"
      by (auto elim: wpE)
    have k: "r_controller (rs_stream st2)" using goesD(1) [OF c(2)] by (simp add: inv_defs)
    from cancel_steps_ok [OF goesD(1) [OF c(2)] c(3)] obtain st3 r where
      s: "cancel_steps U e st2 = Some (st3, r)" "goes K P st2 st3" by (rule wp_pairE)
    have "rs_le st st3" by (rule rs_le_trans [OF goesD(2) [OF g] rs_le_trans [OF goesD(2) [OF c(2)] goesD(2) [OF s(2)]]])
    from wp_goes_pair [OF this promise_then_ok [OF goesD(1) [OF s(2)]]] RsReadable c(1) k s(1) show ?thesis
      by (simp add: readable_stream_cancel_def)
  next
    case RsClosed
    let ?ps = "fst (new_resolved_with_value JUndefined (rs_promises st))"
    have "goes K P ?st (?st\<lparr>rs_promises := ?ps\<rparr>)"
      by (rule goes_new_settled [OF goesD(1) [OF g], where s = "Fulfilled JUndefined"]) simp_all
    from goes_trans [OF goesD(2) [OF g] this] RsClosed show ?thesis
      by (simp add: readable_stream_cancel_def readable_new_promise_eq)
  next
    case RsErrored
    let ?ps = "fst (new_rejected_with_error (r_stored_error (rs_stream st)) (rs_promises st))"
    have "goes K P ?st (?st\<lparr>rs_promises := ?ps\<rparr>)"
      by (rule goes_new_settled [OF goesD(1) [OF g], where s = "Rejected (r_stored_error (rs_stream st))"])
        simp_all
    from goes_trans [OF goesD(2) [OF g] this] RsErrored show ?thesis
      by (simp add: readable_stream_cancel_def readable_new_promise_eq)
  qed
qed

section \<open>Reactions\<close>

lemma pull_fulfilled_ok:
  assumes inv: "rinv (RPull # K) P st"
  shows "wp (readable_pull_promise_fulfilled U st) (goes K P st)"
proof -
  have n: "RPull \<notin> set (obl K st)" and s: "k_started (rs_controller st)"
    using inv rinv_flags(2,4) [OF inv] by (auto simp: inv_defs count_list_0_iff)
  let ?st = "on_controller (\<lambda>k. k\<lparr>k_pulling := False, k_pull_again := False\<rparr>) st"
  have parts: "flags_ok (RPull # K) st" "readers_ok st" "accounts_ok (RPull # K) P st"
    "rs_state st = RsReadable \<Longrightarrow> ropen (RPull # K) st"
    using inv by (simp_all add: rinv_def rbase_def)
  have "flags_ok K ?st" using parts(1) n s by (simp add: flags_ok_def)
  moreover have "readers_ok ?st" using parts(2) by (simp add: readers_ok_def)
  moreover have "accounts_ok K P ?st" using parts(3) by (simp add: accounts_ok_def owed_def)
  moreover have "rs_state st = RsReadable \<longrightarrow> ropen K ?st"
    using parts(4) s by (simp add: ropen_def)
  ultimately have g: "goes K P st ?st" by (simp add: goes_def rinv_def rbase_def)
  have id: "on_controller (\<lambda>k. k\<lparr>k_pulling := False\<rparr>) st = ?st" if "\<not> k_pull_again (rs_controller st)"
    using that by (cases "rs_controller st") simp
  show ?thesis
  proof (cases "k_pull_again (rs_controller st)")
    case True
    with wp_goes [OF goesD(2) [OF g] call_pull_ok [OF goesD(1) [OF g]]] show ?thesis
      by (simp add: readable_pull_promise_fulfilled_def)
  next
    case False
    with g show ?thesis by (simp add: readable_pull_promise_fulfilled_def id [OF False])
  qed
qed

lemma start_fulfilled_ok:
  assumes inv: "rinv (RStart # K) P st"
  shows "wp (readable_start_promise_fulfilled U st) (goes K P st)"
proof -
  have n: "RStart \<notin> set (obl K st)"
    using inv by (auto simp: inv_defs count_list_0_iff)
  have f: "\<not> k_started (rs_controller st)" using rinv_flags(1) [OF inv] by simp
  then have p: "\<not> k_pulling (rs_controller st)" "\<not> k_pull_again (rs_controller st)"
    using rinv_flags(2,3) [OF inv] by auto
  let ?st = "on_controller (\<lambda>k. k\<lparr>k_started := True\<rparr>) st"
  have parts: "flags_ok (RStart # K) st" "readers_ok st" "accounts_ok (RStart # K) P st"
    "rs_state st = RsReadable \<Longrightarrow> ropen (RStart # K) st"
    using inv by (simp_all add: rinv_def rbase_def)
  have "flags_ok K ?st" using parts(1) n p by (simp add: flags_ok_def)
  moreover have "readers_ok ?st" using parts(2) by (simp add: readers_ok_def)
  moreover have "accounts_ok K P ?st" using parts(3) by (simp add: accounts_ok_def owed_def)
  moreover have "rs_state st = RsReadable \<longrightarrow> ropen K ?st"
    using parts(4) p by (simp add: ropen_def)
  ultimately have g: "goes K P st ?st" by (simp add: goes_def rinv_def rbase_def)
  from wp_goes [OF goesD(2) [OF g] call_pull_ok [OF goesD(1) [OF g]]] p show ?thesis
    by (simp add: readable_start_promise_fulfilled_def)
qed

lemma cancel_settled_ok:
  assumes inv: "rinv (RCancel p # K) P st" and s: "s \<noteq> Pending"
  shows "goes K P st (on_promises (settle p s) st)"
proof -
  let ?st = "on_promises (settle p s) st"
  have parts: "flags_ok (RCancel p # K) st" "readers_ok st" "accounts_ok (RCancel p # K) P st"
    "rs_state st = RsReadable \<Longrightarrow> ropen (RCancel p # K) st"
    using inv by (simp_all add: rinv_def rbase_def)
  have "owes (owed (RCancel p # K) st) S = owes (p # owed K st) S" for S
    by (rule owes_perm) (simp add: owed_def)
  then have o: "owes (p # owed K st) (pending_promises (rs_promises st))"
    using parts(3) by (simp add: accounts_ok_def)
  then have c: "p \<notin> set (closed_ids st)" by (simp add: owes_def owed_def)
  have "accounts_ok K P ?st" using parts(3) owes_paid [OF o] s
    by (simp add: accounts_ok_def pending_settle)
  moreover have "readers_ok ?st" using parts(2) c s
    by (auto simp: readers_ok_def closed_ids_def closed_state_def split: readable_state.splits if_splits)
  moreover have "flags_ok K ?st" using parts(1) by (simp add: flags_ok_def)
  moreover have "rs_state st = RsReadable \<longrightarrow> ropen K ?st"
    using parts(4) by (simp add: ropen_def)
  ultimately show ?thesis by (simp add: goes_def rinv_def rbase_def rs_le_def)
qed

lemma reaction_ok:
  assumes inv: "rinv (k # K) P st"
  shows "wp (case r of None \<Rightarrow> readable_fulfilled U k st | Some e \<Rightarrow> readable_rejected U k e st) (goes K P st)"
proof (cases r)
  case None
  then show ?thesis using inv pull_fulfilled_ok start_fulfilled_ok cancel_settled_ok
    by (cases k) (simp_all add: readable_fulfilled_def cancel_fulfilled_def)
next
  case (Some e)
  show ?thesis
  proof (cases k)
    case (RCancel p)
    then show ?thesis using inv cancel_settled_ok
      by (simp add: Some readable_rejected_def cancel_rejected_def)
  next
    case RStart
    then show ?thesis using readable_controller_error_ok [OF rbase_drop [OF rinvD(1) [OF inv]]]
      by (simp add: Some readable_rejected_def readable_start_promise_rejected_def)
  next
    case RPull
    then show ?thesis using readable_controller_error_ok [OF rbase_drop [OF rinvD(1) [OF inv]]]
      by (simp add: Some readable_rejected_def readable_pull_promise_rejected_def)
  qed
qed

lemma readable_run_reaction_ok:
  assumes inv: "rinv K P st"
  shows "wp (readable_run_reaction U n outcome st) (goes K P st)"
proof (cases "n < length (rs_reactions st)")
  case True
  obtain k p where kp: "rs_reactions st ! n = (k, p)" by (cases "rs_reactions st ! n")
  let ?st = "st\<lparr>rs_reactions := take n (rs_reactions st) @ drop (Suc n) (rs_reactions st)\<rparr>"
  have le: "rs_le st ?st" by (simp add: rs_le_def)
  show ?thesis using True
      wp_goes [OF le reaction_ok [OF rinv_take_reaction [OF inv True kp], of
        "case p of Resolved \<Rightarrow> None | RejectedWith e \<Rightarrow> Some e | Unsettled \<Rightarrow> outcome"]]
    by (simp add: readable_run_reaction_def kp Let_def)
next
  case False
  with inv show ?thesis by (simp add: readable_run_reaction_def goes_def)
qed

text \<open>What a cancellation leaves, besides the invariant.\<close>

lemma cancel_result:
  assumes inv: "rinv K P st"
  shows "wp (readable_stream_cancel U e st) (\<lambda>(st', r). r_disturbed (rs_stream st') \<and>
    rs_state st' = (if rs_state st = RsReadable then RsClosed else rs_state st))"
proof (cases "rs_state st")
  case RsReadable
  let ?st = "on_stream (\<lambda>s. s\<lparr>r_disturbed := True\<rparr>) st"
  note g = goes_disturbed [OF inv]
  from close_ok [OF rinvD(1) [OF goesD(1) [OF g]]] RsReadable obtain st2 where
    c: "readable_stream_close U ?st = Some st2" "goes K P ?st st2" "rs_state st2 = RsClosed"
    by (auto elim: wpE)
  have k: "r_controller (rs_stream st2)" using goesD(1) [OF c(2)] by (simp add: inv_defs)
  from cancel_steps_ok [OF goesD(1) [OF c(2)] c(3)] obtain st3 r where
    s: "cancel_steps U e st2 = Some (st3, r)" "goes K P st2 st3" by (rule wp_pairE)
  have "r_disturbed (rs_stream st3)" "rs_state st3 = RsClosed"
    using goesD(2) [OF c(2)] goesD(2) [OF s(2)] c(3) by (simp_all add: rs_le_def)
  with wp_mono [OF promise_then_ok [OF goesD(1) [OF s(2)], of r]]
  have "wp (readable_promise_then U r st3) (\<lambda>(st', p). r_disturbed (rs_stream st') \<and> rs_state st' = RsClosed)"
    by (auto simp: goes_def rs_le_def)
  with RsReadable c(1) k s(1) show ?thesis by (simp add: readable_stream_cancel_def)
qed (simp_all add: readable_stream_cancel_def readable_new_promise_eq)

section \<open>Commands\<close>

lemma reader_read_method_ok:
  assumes inv: "rinv K P st"
  shows "wp (reader_read U i st) (\<lambda>(st', r). goes K P st st')"
proof (cases "rd_stream (rs_readers st i)")
  case True
  note g = goes_new_read [OF inv]
  have "rinv K (read_ids [ReadPromise (rs_next_read st)] @ P)
      (st\<lparr>rs_next_read := rs_next_read st + 1, rs_reads := (rs_reads st)(rs_next_read st := ReadPending)\<rparr>)"
    using goesD(1) [OF g] by simp
  from wp_goes [OF goesD(2) [OF g] reader_read_ok [OF this]] True show ?thesis
    by (simp add: reader_read_def Let_def)
next
  case False
  then show ?thesis using goes_refl [OF inv] by (simp add: reader_read_def)
qed

lemma rs_exec_ok:
  assumes inv: "rinv K P st"
  shows "wp (rs_exec U c st) (goes K P st)"
proof -
  note refl = goes_refl [OF inv]
  have acquire: "wp (acquire_default_reader st) (\<lambda>(st', r). goes K P st st')"
    using acquire_default_reader_ok [OF inv] by (rule wp_mono) auto
  show ?thesis
  proof (cases c)
    case LockAndDisturb
    show ?thesis
    proof (cases "is_locked st")
      case False
      obtain st1 r where a: "acquire_default_reader st = Some (st1, r)" "goes K P st st1"
        using acquire by (rule wp_pairE)
      from goes_trans [OF goesD(2) [OF a(2)] goes_disturbed [OF goesD(1) [OF a(2)]]] a False
      show ?thesis by (simp add: LockAndDisturb lock_and_disturb_def split: sum.split)
    qed (use refl in \<open>simp add: LockAndDisturb lock_and_disturb_def\<close>)
  next
    case GetReader
    then show ?thesis using acquire by (simp add: wp_map_option stream_get_reader_def case_prod_unfold)
  next
    case (ReaderRead i)
    then show ?thesis using reader_read_method_ok [OF inv] by (simp add: wp_map_option case_prod_unfold)
  next
    case (NativeRead i n)
    have "rinv K (read_ids [Consumer n] @ P) st" using inv by simp
    from reader_read_ok [OF this] NativeRead refl show ?thesis by (simp add: native_reader_read_def)
  next
    case (RunReaction n outcome)
    then show ?thesis using readable_run_reaction_ok [OF inv] by simp
  next
    case (ReaderReleaseLock i)
    then show ?thesis using default_reader_release_ok [OF inv] refl
      by (simp add: wp_map_option reader_release_lock_def)
  next
    case (ControllerError v)
    then show ?thesis using readable_controller_error_ok [OF rinvD(1) [OF inv]]
      by (simp add: wp_map_option readable_controller_error_method_def)
  next
    case ControllerClose
    then show ?thesis using readable_controller_close_ok [OF inv] refl
      by (simp add: wp_map_option readable_controller_close_method_def)
  next
    case (ControllerEnqueue v)
    then show ?thesis using readable_controller_enqueue_ok [OF inv] refl
      by (simp add: wp_map_option readable_controller_enqueue_method_def case_prod_unfold)
  next
    case (StreamCancel v)
    then show ?thesis using readable_stream_cancel_ok [OF inv] refl
      by (simp add: wp_map_option stream_cancel_def case_prod_unfold)
  next
    case (ReaderCancel i v)
    then show ?thesis using readable_stream_cancel_ok [OF inv] refl
      by (simp add: wp_map_option reader_cancel_def reader_generic_cancel_def case_prod_unfold)
  next
    case (NativeReaderCancel i v)
    then show ?thesis using readable_stream_cancel_ok [OF inv] refl
      by (simp add: wp_map_option native_reader_cancel_def reader_generic_cancel_def case_prod_unfold)
  next
    case (NativeCancel v)
    then show ?thesis using readable_stream_cancel_ok [OF inv]
      by (simp add: wp_map_option case_prod_unfold)
  next
    case (NativeEnqueue v)
    then show ?thesis using readable_controller_enqueue_ok [OF inv]
      by (simp add: wp_map_option case_prod_unfold)
  next
    case NativeClose
    then show ?thesis using readable_controller_close_ok [OF inv] by simp
  next
    case (NativeError v)
    have "r_controller (rs_stream st)" using inv by (simp add: inv_defs)
    with NativeError show ?thesis using readable_controller_error_ok [OF rinvD(1) [OF inv]]
      by (simp add: stream_error_def)
  qed
qed

end

sublocale read_user \<subseteq> commands: total_command_system "rs_exec U" "rinv K P" rs_le for K P
proof unfold_locales
  fix st st' c
  assume inv: "rinv K P st" and e: "rs_exec U c st = Some st'"
  from rs_exec_ok [OF inv, of c] e show "rinv K P st'" and "rs_le st st'" by (simp_all add: goes_def)
next
  fix st c
  assume "rinv K P st"
  from rs_exec_ok [OF this, of c] show "rs_exec U c st \<noteq> None" by (auto elim: wpE)
qed (auto intro: rs_le_trans)

context read_user
begin

lemma run_commands_ok: "rinv K P st \<Longrightarrow> wp (run_all (rs_exec U) cmds st) (goes K P st)"
  using commands.run_total [of K P st cmds] by (auto simp: goes_def elim: wp_mono)

end

text \<open>Code whose lookups of a constructor do not throw, at any depth.\<close>

definition lookups_succeed :: "read_script \<Rightarrow> bool" where
  "lookups_succeed scr \<longleftrightarrow> (\<forall>n st. \<not> threw (snd (scr n ConstructorLookup st)))"

lemma rs_user_read_user: "lookups_succeed scr \<Longrightarrow> read_user (rs_user scr n)"
proof (induction n)
  case 0
  show ?case by unfold_locales (simp add: threw_def split: rs_call.split)
next
  case (Suc n)
  show ?case
  proof unfold_locales
    fix K P st call
    assume inv: "rinv K P st"
    obtain cmds r where s: "scr n call st = (cmds, r)" by (cases "scr n call st")
    then have "\<not> (call = ConstructorLookup \<and> threw r)"
      using Suc.prems by (metis lookups_succeed_def snd_conv)
    with read_user.run_commands_ok [OF Suc.IH [OF Suc.prems] inv, of cmds]
    show "wp (rs_user scr (Suc n) call st) (\<lambda>(st', r). rinv K P st' \<and> rs_le st st' \<and>
        r \<noteq> Unresolvable \<and> \<not> (call = ConstructorLookup \<and> threw r))"
      by (auto simp: s goes_def elim: wp_mono)
  qed
qed

text \<open>Any code, but with the lookups that throw made to return: it does the same until the first of them.\<close>

definition tame :: "read_script \<Rightarrow> read_script" where
  "tame scr n call st =
     (let (cmds, r) = scr n call st in (cmds, if call = ConstructorLookup \<and> threw r then Returned else r))"

lemma tame_succeeds: "lookups_succeed (tame scr)"
  by (simp add: lookups_succeed_def tame_def threw_def case_prod_unfold Let_def)

interpretation rs_js: read_user "rs_user (tame scr) n" for scr n
  by (rule rs_user_read_user [OF tame_succeeds])

section \<open>Creation\<close>

definition all_settled_promises :: "promises \<Rightarrow> bool" where
  "all_settled_promises ps \<longleftrightarrow> pending_promises ps = {}"

lemma no_promises_settled [simp]: "all_settled_promises no_promises"
  by (simp add: all_settled_promises_def pending_promises_def no_promises_def)

lemma blank_readable:
  assumes ps: "all_settled_promises ps"
    and c: "\<not> k_started c" "\<not> k_pulling c" "\<not> k_pull_again c" "\<not> k_close_requested c"
  shows "rinv [RStart] [] ((rs_default ps)\<lparr>rs_stream := \<lparr>r_controller = True, r_disturbed = False,
    r_reader = None, r_state = RsReadable, r_stored_error = JUndefined\<rparr>, rs_controller := c\<rparr>)"
  using assms
  by (simp add: inv_defs rs_default_def waiting_def closed_ids_def owed_def obl_def owes_def
      pending_reads_def all_settled_promises_def)

context read_user
begin

lemma create_ok:
  assumes ps: "all_settled_promises ps"
  shows "wp (readable_set_up_default_controller U al hwm f (on_stream initialize_readable_stream (rs_default ps)))
    (\<lambda>(st, r). (r = Inr () \<longrightarrow> rinv [] [] st) \<and> (ra_start al = ANone \<longrightarrow> r = Inr ()))"
proof -
  define c where "c = (reset_queue readable_queue_ops (rs_controller (rs_default ps)))\<lparr>k_started := False,
    k_close_requested := False, k_pull_again := False, k_pulling := False,
    k_strategy_size_algorithm := f, k_strategy_hwm := hwm, k_pull_algorithm := ra_pull al,
    k_cancel_algorithm := ra_cancel al\<rparr>"
  define st where "st = (rs_default ps)\<lparr>rs_stream := \<lparr>r_controller = True, r_disturbed = False,
    r_reader = None, r_state = RsReadable, r_stored_error = JUndefined\<rparr>, rs_controller := c\<rparr>"
  have inv: "rinv [RStart] [] st"
    unfolding st_def by (rule blank_readable [OF ps]) (simp_all add: c_def)
  from invoke_goes(2) [OF this, of "ra_start al" "StartCall (ra_start al)"] obtain st5 r where
    i: "invoke_algorithm U (ra_start al) (StartCall (ra_start al)) st = Some (st5, r)"
      "goes [RStart] [] st st5" by (rule wp_pairE)
  have eq: "readable_set_up_default_controller U al hwm f (on_stream initialize_readable_stream (rs_default ps)) =
      do {
        (st5, r) \<leftarrow> invoke_algorithm U (ra_start al) (StartCall (ra_start al)) st;
        case r of
          Threw e \<Rightarrow> Some (st5, Inl e)
        | _ \<Rightarrow> Some (readable_react RStart (if ra_start al = ANone then Resolved else Unsettled) st5, Inr ())
      }"
    by (simp add: readable_set_up_default_controller_def st_def c_def initialize_readable_stream_def
        rs_default_def require_def Let_def)
  have "r = Returned" if "ra_start al = ANone" using i(1) that by (simp add: invoke_algorithm_def)
  with readable_react_ok [OF goesD(1) [OF i(2)]] show ?thesis
    unfolding eq by (cases r) (auto simp: i(1))
qed

lemma readable_stream_new_ok:
  assumes "all_settled_promises ps"
  shows "wp (readable_stream_new U source strategy ps) (\<lambda>(st, r). r = Inr () \<longrightarrow> rinv [] [] st)"
proof -
  have "wp (set_up_from_underlying_source U d hwm f (on_stream initialize_readable_stream (rs_default ps)))
      (\<lambda>(st, r). r = Inr () \<longrightarrow> rinv [] [] st)" for d hwm f
    unfolding set_up_from_underlying_source_def
    by (rule wp_mono [OF create_ok [OF assms]]) auto
  then show ?thesis
    by (auto simp: readable_stream_new_def Let_def split: source_argument.split sum.split)
qed

text \<open>Without a start algorithm, native construction always succeeds.\<close>

lemma create_readable_stream_ok:
  assumes "all_settled_promises ps" "is_non_negative_number hwm" "ra_start al = ANone"
  shows "wp (create_readable_stream U al hwm f ps) (\<lambda>(st, r). r = Inr () \<and> rinv [] [] st)"
  using assms(2,3) unfolding create_readable_stream_def
  by (auto intro!: wp_mono [OF create_ok [OF assms(1)]])

end

section \<open>Sessions\<close>

lemma rs_run_ok: "lookups_succeed scr \<Longrightarrow> rinv [] [] st \<Longrightarrow> wp (rs_run scr n cmds st) (goes [] [] st)"
  unfolding rs_run_def by (rule read_user.run_commands_ok [OF rs_user_read_user])

lemma rs_session_ok:
  assumes scr: "lookups_succeed scr"
  shows "wp (rs_session scr n source strategy cmds)
    (\<lambda>r. case r of Inl e \<Rightarrow> True | Inr st \<Rightarrow> rinv [] [] st)"
proof -
  from read_user.readable_stream_new_ok [OF rs_user_read_user [OF scr] no_promises_settled] obtain st r where
    n: "readable_stream_new (rs_user scr n) source strategy no_promises = Some (st, r)"
      "r = Inr () \<longrightarrow> rinv [] [] st" by (rule wp_pairE)
  show ?thesis
  proof (cases r)
    case (Inr u)
    from rs_run_ok [OF scr, of st n cmds] n(2) Inr show ?thesis
      by (auto simp: rs_session_def n(1) wp_map_option goes_def elim: wp_mono)
  qed (simp add: rs_session_def n(1))
qed

end
