(* ===== verification/Readable_Mono.thy ===== *)
theory Readable_Mono
  imports Readable_Loop
begin

text \<open>
  A session does the same with code that returns more often: the operations are monotone in the code
  they call. So what ends without a panic also does, and in the same state, when the lookups of a
  constructor are made to return, and has the invariant that is proved for those sessions.
\<close>

section \<open>Runs that return more often\<close>

definition ext :: "'a option \<Rightarrow> 'a option \<Rightarrow> bool" where
  "ext m m' \<longleftrightarrow> (\<forall>x. m = Some x \<longrightarrow> m' = Some x)"

named_theorems ext

lemma extD: "ext m m' \<Longrightarrow> m = Some x \<Longrightarrow> m' = Some x"
  by (simp add: ext_def)

lemma ext_refl [ext]: "ext m m"
  by (simp add: ext_def)

lemma ext_bind [ext]: "ext m m' \<Longrightarrow> (\<And>x. ext (f x) (f' x)) \<Longrightarrow> ext (Option.bind m f) (Option.bind m' f')"
  by (cases m) (auto simp: ext_def)

lemma ext_map [ext]: "ext m m' \<Longrightarrow> ext (map_option f m) (map_option f m')"
  by (cases m) (auto simp: ext_def)

lemma ext_if [ext]: "(b \<Longrightarrow> ext m m') \<Longrightarrow> (\<not> b \<Longrightarrow> ext n n') \<Longrightarrow> ext (if b then m else n) (if b then m' else n')"
  by simp

lemma ext_Let [ext]: "(\<And>x. ext (f x) (f' x)) \<Longrightarrow> ext (Let v f) (Let v f')"
  by simp

lemma ext_prod [ext]: "(\<And>x y. ext (f x y) (f' x y)) \<Longrightarrow> ext (case p of (x, y) \<Rightarrow> f x y) (case p of (x, y) \<Rightarrow> f' x y)"
  by (cases p) simp

lemma ext_option [ext]:
  "ext n n' \<Longrightarrow> (\<And>x. ext (f x) (f' x)) \<Longrightarrow>
    ext (case z of None \<Rightarrow> n | Some x \<Rightarrow> f x) (case z of None \<Rightarrow> n' | Some x \<Rightarrow> f' x)"
  by (cases z) simp_all

lemma ext_sum [ext]:
  "(\<And>x. ext (f x) (f' x)) \<Longrightarrow> (\<And>x. ext (g x) (g' x)) \<Longrightarrow>
    ext (case s of Inl x \<Rightarrow> f x | Inr x \<Rightarrow> g x) (case s of Inl x \<Rightarrow> f' x | Inr x \<Rightarrow> g' x)"
  by (cases s) simp_all

lemma ext_list [ext]:
  "ext n n' \<Longrightarrow> (\<And>x xs. ext (f x xs) (f' x xs)) \<Longrightarrow>
    ext (case l of [] \<Rightarrow> n | x # xs \<Rightarrow> f x xs) (case l of [] \<Rightarrow> n' | x # xs \<Rightarrow> f' x xs)"
  by (cases l) simp_all

lemma ext_algorithm [ext]:
  "ext n n' \<Longrightarrow> (\<And>x. ext (f x) (f' x)) \<Longrightarrow> (\<And>x. ext (g x) (g' x)) \<Longrightarrow>
    ext (case a of ANone \<Rightarrow> n | AJs x \<Rightarrow> f x | ANative x \<Rightarrow> g x) (case a of ANone \<Rightarrow> n' | AJs x \<Rightarrow> f' x | ANative x \<Rightarrow> g' x)"
  by (cases a) simp_all

lemma ext_request [ext]:
  "(\<And>x. ext (f x) (f' x)) \<Longrightarrow> (\<And>x. ext (g x) (g' x)) \<Longrightarrow>
    ext (case r of ReadPromise x \<Rightarrow> f x | Consumer x \<Rightarrow> g x) (case r of ReadPromise x \<Rightarrow> f' x | Consumer x \<Rightarrow> g' x)"
  by (cases r) simp_all

lemma ext_state [ext]:
  "ext a a' \<Longrightarrow> ext b b' \<Longrightarrow> ext c c' \<Longrightarrow>
    ext (case s of RsReadable \<Rightarrow> a | RsClosed \<Rightarrow> b | RsErrored \<Rightarrow> c) (case s of RsReadable \<Rightarrow> a' | RsClosed \<Rightarrow> b' | RsErrored \<Rightarrow> c')"
  by (cases s) simp_all

lemma ext_reaction [ext]:
  "ext a a' \<Longrightarrow> ext b b' \<Longrightarrow> (\<And>p. ext (f p) (f' p)) \<Longrightarrow>
    ext (case k of RStart \<Rightarrow> a | RPull \<Rightarrow> b | RCancel p \<Rightarrow> f p) (case k of RStart \<Rightarrow> a' | RPull \<Rightarrow> b' | RCancel p \<Rightarrow> f' p)"
  by (cases k) simp_all

lemma ext_run_all: "(\<And>c s. ext (f c s) (f' c s)) \<Longrightarrow> ext (run_all f cs s) (run_all f' cs s)"
  by (induction cs arbitrary: s) (auto intro!: ext)

lemma ext_snapshot: "(\<And>r s. ext (f r s) (f' r s)) \<Longrightarrow> ext (settle_request_snapshot f rs s) (settle_request_snapshot f' rs s)"
  by (induction rs arbitrary: s) (auto intro!: ext)

section \<open>The operations\<close>

locale wider_user =
  fixes U U' :: rs_code
  assumes wider: "U call st = Some (st', r) \<Longrightarrow> \<not> (call = ConstructorLookup \<and> threw r) \<Longrightarrow> U' call st = Some (st', r)"
begin

lemma call_ext [ext]: "call \<noteq> ConstructorLookup \<Longrightarrow> ext (U call st) (U' call st)"
  using wider by (auto simp: ext_def)

lemma chunk_steps_ext [ext]: "ext (chunk_steps U r v st) (chunk_steps U' r v st)"
  unfolding chunk_steps_def by (intro ext; simp)

lemma close_steps_ext [ext]: "ext (close_steps U r st) (close_steps U' r st)"
  unfolding close_steps_def by (intro ext; simp)

lemma request_error_steps_ext [ext]: "ext (request_error_steps U r e st) (request_error_steps U' r e st)"
  unfolding request_error_steps_def by (intro ext; simp)

lemma invoke_promise_algorithm_ext [ext]: "c \<noteq> ConstructorLookup \<Longrightarrow> ext (invoke_promise_algorithm U a c st) (invoke_promise_algorithm U' a c st)"
  unfolding invoke_promise_algorithm_def by (intro ext; simp)

lemma invoke_algorithm_ext [ext]: "c \<noteq> ConstructorLookup \<Longrightarrow> ext (invoke_algorithm U a c st) (invoke_algorithm U' a c st)"
  unfolding invoke_algorithm_def by (intro ext; simp)

lemma readable_stream_close_ext [ext]: "ext (readable_stream_close U st) (readable_stream_close U' st)"
  unfolding readable_stream_close_def by (intro ext ext_snapshot; simp)

lemma error_read_requests_ext [ext]: "ext (error_read_requests U i e st) (error_read_requests U' i e st)"
  unfolding error_read_requests_def by (intro ext ext_snapshot; simp)

lemma readable_stream_error_ext [ext]: "ext (readable_stream_error U e st) (readable_stream_error U' e st)"
  unfolding readable_stream_error_def by (intro ext; simp)

lemma fulfill_read_request_ext [ext]: "ext (fulfill_read_request U v d st) (fulfill_read_request U' v d st)"
  unfolding fulfill_read_request_def by (intro ext; simp)

lemma call_pull_if_needed_ext [ext]: "ext (call_pull_if_needed U st) (call_pull_if_needed U' st)"
  unfolding call_pull_if_needed_def by (intro ext; simp)

lemma readable_controller_close_ext [ext]: "ext (readable_controller_close U st) (readable_controller_close U' st)"
  unfolding readable_controller_close_def by (intro ext; simp)

lemma readable_controller_error_ext [ext]: "ext (readable_controller_error U e st) (readable_controller_error U' e st)"
  unfolding readable_controller_error_def by (intro ext; simp)

lemma readable_controller_enqueue_ext [ext]: "ext (readable_controller_enqueue U v st) (readable_controller_enqueue U' v st)"
  unfolding readable_controller_enqueue_def by (intro ext; simp)

lemma cancel_steps_ext [ext]: "ext (cancel_steps U v st) (cancel_steps U' v st)"
  unfolding cancel_steps_def by (intro ext; simp)

lemma pull_steps_ext [ext]: "ext (pull_steps U r st) (pull_steps U' r st)"
  unfolding pull_steps_def by (intro ext; simp)

lemma readable_promise_then_ext [ext]: "ext (readable_promise_then U p st) (readable_promise_then U' p st)"
  using wider [of ConstructorLookup st]
  by (auto simp: ext_def readable_promise_then_def require_def split: bind_splits if_splits)

lemma readable_stream_cancel_ext [ext]: "ext (readable_stream_cancel U v st) (readable_stream_cancel U' v st)"
  unfolding readable_stream_cancel_def by (intro ext; simp)

lemma reader_generic_cancel_ext [ext]: "ext (reader_generic_cancel U i v st) (reader_generic_cancel U' i v st)"
  unfolding reader_generic_cancel_def by (intro ext; simp)

lemma default_reader_read_ext [ext]: "ext (default_reader_read U i r st) (default_reader_read U' i r st)"
  unfolding default_reader_read_def by (intro ext; simp)

lemma default_reader_release_ext [ext]: "ext (default_reader_release U i st) (default_reader_release U' i st)"
  unfolding default_reader_release_def by (intro ext; simp)

lemma readable_start_promise_fulfilled_ext [ext]: "ext (readable_start_promise_fulfilled U st) (readable_start_promise_fulfilled U' st)"
  unfolding readable_start_promise_fulfilled_def by (intro ext; simp)

lemma readable_start_promise_rejected_ext [ext]: "ext (readable_start_promise_rejected U e st) (readable_start_promise_rejected U' e st)"
  unfolding readable_start_promise_rejected_def by (intro ext; simp)

lemma readable_pull_promise_fulfilled_ext [ext]: "ext (readable_pull_promise_fulfilled U st) (readable_pull_promise_fulfilled U' st)"
  unfolding readable_pull_promise_fulfilled_def by (intro ext; simp)

lemma readable_pull_promise_rejected_ext [ext]: "ext (readable_pull_promise_rejected U e st) (readable_pull_promise_rejected U' e st)"
  unfolding readable_pull_promise_rejected_def by (intro ext; simp)

lemma readable_fulfilled_ext [ext]: "ext (readable_fulfilled U k st) (readable_fulfilled U' k st)"
  unfolding readable_fulfilled_def by (intro ext; simp)

lemma readable_rejected_ext [ext]: "ext (readable_rejected U k e st) (readable_rejected U' k e st)"
  unfolding readable_rejected_def by (intro ext; simp)

lemma readable_run_reaction_ext [ext]: "ext (readable_run_reaction U n r st) (readable_run_reaction U' n r st)"
  unfolding readable_run_reaction_def by (intro ext; simp)

lemma readable_set_up_default_controller_ext [ext]: "ext (readable_set_up_default_controller U al h f st) (readable_set_up_default_controller U' al h f st)"
  unfolding readable_set_up_default_controller_def by (intro ext; simp)

lemma set_up_from_underlying_source_ext [ext]: "ext (set_up_from_underlying_source U d h f st) (set_up_from_underlying_source U' d h f st)"
  unfolding set_up_from_underlying_source_def by (intro ext; simp)

lemma readable_stream_new_ext [ext]: "ext (readable_stream_new U src str ps) (readable_stream_new U' src str ps)"
  unfolding readable_stream_new_def by (intro ext; simp)

lemma stream_error_ext [ext]: "ext (stream_error U e st) (stream_error U' e st)"
  unfolding stream_error_def by (intro ext; simp)

lemma stream_cancel_ext [ext]: "ext (stream_cancel U v st) (stream_cancel U' v st)"
  unfolding stream_cancel_def by (intro ext; simp)

lemma reader_read_ext [ext]: "ext (reader_read U i st) (reader_read U' i st)"
  unfolding reader_read_def by (intro ext; simp)

lemma reader_release_lock_ext [ext]: "ext (reader_release_lock U i st) (reader_release_lock U' i st)"
  unfolding reader_release_lock_def by (intro ext; simp)

lemma reader_cancel_ext [ext]: "ext (reader_cancel U i v st) (reader_cancel U' i v st)"
  unfolding reader_cancel_def by (intro ext; simp)

lemma readable_controller_close_method_ext [ext]: "ext (readable_controller_close_method U st) (readable_controller_close_method U' st)"
  unfolding readable_controller_close_method_def by (intro ext; simp)

lemma readable_controller_enqueue_method_ext [ext]: "ext (readable_controller_enqueue_method U v st) (readable_controller_enqueue_method U' v st)"
  unfolding readable_controller_enqueue_method_def by (intro ext; simp)

lemma readable_controller_error_method_ext [ext]: "ext (readable_controller_error_method U e st) (readable_controller_error_method U' e st)"
  unfolding readable_controller_error_method_def by (intro ext; simp)

lemma native_reader_read_ext [ext]: "ext (native_reader_read U i n st) (native_reader_read U' i n st)"
  unfolding native_reader_read_def by (intro ext; simp)

lemma native_reader_cancel_ext [ext]: "ext (native_reader_cancel U i v st) (native_reader_cancel U' i v st)"
  unfolding native_reader_cancel_def by (intro ext; simp)

lemma rs_exec_ext [ext]: "ext (rs_exec U c st) (rs_exec U' c st)"
  by (cases c) (simp_all only: rs_exec.simps, (intro ext)+)

lemma run_ext: "ext (run_all (rs_exec U) cs st) (run_all (rs_exec U') cs st)"
  by (rule ext_run_all) (rule rs_exec_ext)

end

section \<open>Sessions with lookups that return\<close>

lemma tame_wider: "wider_user (rs_user scr n) (rs_user (tame scr) n)"
proof (induction n)
  case 0
  show ?case by unfold_locales (simp add: ext_def)
next
  case (Suc n)
  show ?case
  proof
    fix call st st' r
    assume u: "rs_user scr (Suc n) call st = Some (st', r)" and t: "\<not> (call = ConstructorLookup \<and> threw r)"
    obtain cmds x where x: "scr n call st = (cmds, x)" by (cases "scr n call st")
    then have run: "run_all (rs_exec (rs_user scr n)) cmds st = Some st'" and r: "r = js_result x"
      using u by (auto split: bind_splits)
    have "run_all (rs_exec (rs_user (tame scr) n)) cmds st = Some st'"
      using extD [OF wider_user.run_ext [OF Suc.IH] run] .
    then show "rs_user (tame scr) (Suc n) call st = Some (st', r)"
      using t by (auto simp: x r tame_def)
  qed
qed

interpretation tame_js: wider_user "rs_user scr n" "rs_user (tame scr) n" for scr n
  by (rule tame_wider)

lemma rs_run_tame: "rs_run scr n cmds st = Some st' \<Longrightarrow> rs_run (tame scr) n cmds st = Some st'"
  unfolding rs_run_def by (rule extD [OF tame_js.run_ext])

lemma rs_session_tame:
  "rs_session scr n source strategy cmds = Some r \<Longrightarrow> rs_session (tame scr) n source strategy cmds = Some r"
  by (erule extD [rotated]) (unfold rs_session_def rs_run_def, intro ext tame_js.readable_stream_new_ext tame_js.run_ext)

text \<open>What a session leaves has the invariant, whatever the code does.\<close>

lemma rs_session_inv: "rs_session scr n source strategy cmds = Some (Inr st) \<Longrightarrow> rinv [] [] st"
  by (drule wpD [OF rs_session_ok [OF tame_succeeds] rs_session_tame]) simp

lemma rs_run_goes: "rinv [] [] st \<Longrightarrow> rs_run scr n cmds st = Some st' \<Longrightarrow> goes [] [] st st'"
  by (rule wpD [OF rs_run_ok [OF tame_succeeds] rs_run_tame])

end
