(* ===== verification/Readable_Order.thy ===== *)
theory Readable_Order
  imports Readable_Mono
begin

text \<open>
  The order of reads and chunks. An abstract queue has the chunks that were enqueued, the number of
  reads, and whether it was closed; it says what each read gets. With a source and a getter of
  \<open>then\<close> that return quietly and no size function, the stream computes just that.
\<close>

section \<open>The abstract queue\<close>

type_synonym aqueue = "jsval list \<times> nat \<times> bool"

fun aq_step :: "rs_cmd \<Rightarrow> aqueue \<Rightarrow> aqueue" where
  "aq_step (ControllerEnqueue v) (E, R, c) = (if c then E else E @ [v], R, c)"
| "aq_step ControllerClose (E, R, c) = (E, R, True)"
| "aq_step (ReaderRead i) (E, R, c) = (E, R + 1, c)"
| "aq_step _ q = q"

definition outcome :: "aqueue \<Rightarrow> nat \<Rightarrow> read_result" where
  "outcome q k = (case q of (E, R, c) \<Rightarrow>
     if k < length E then ReadFulfilled (E ! k) False
     else if c then ReadFulfilled JUndefined True else ReadPending)"

definition aq_state :: "aqueue \<Rightarrow> readable_state" where
  "aq_state q = (case q of (E, R, c) \<Rightarrow> if c \<and> length E \<le> R then RsClosed else RsReadable)"

fun plain :: "rs_cmd \<Rightarrow> bool" where
  "plain (ControllerEnqueue v) = True"
| "plain ControllerClose = True"
| "plain (ReaderRead i) = (i = 0)"
| "plain (RunReaction n r) = (r = None)"
| "plain _ = False"

section \<open>The simulation\<close>

text \<open>Only reactions of start and pull are attached, to promises that are not rejected.\<close>

fun calm_reaction :: "read_reaction \<times> sink_promise \<Rightarrow> bool" where
  "calm_reaction (RCancel _, _) = False"
| "calm_reaction (_, RejectedWith _) = False"
| "calm_reaction _ = True"

definition calm :: "rs \<Rightarrow> bool" where
  "calm st \<longleftrightarrow> list_all calm_reaction (rs_reactions st)"

definition sim :: "aqueue \<Rightarrow> rs \<Rightarrow> bool" where
  "sim q st \<longleftrightarrow> (case q of (E, R, c) \<Rightarrow>
     r_controller (rs_stream st) \<and> r_reader (rs_stream st) = Some 0 \<and> rd_stream (rs_readers st 0) \<and>
     rs_state st = aq_state q \<and> k_close_requested (rs_controller st) = c \<and>
     k_strategy_size_algorithm (rs_controller st) = None \<and>
     map vvalue (k_queue (rs_controller st)) = drop R E \<and>
     rd_read_requests (rs_readers st 0) = (if c then [] else map ReadPromise [length E..<R]) \<and>
     rs_next_read st = R \<and> (\<forall>k < R. rs_reads st k = outcome q k) \<and> calm st)"

text \<open>What pulling does not touch.\<close>

definition same_data :: "rs \<Rightarrow> rs \<Rightarrow> bool" where
  "same_data st st' \<longleftrightarrow>
     rs_stream st' = rs_stream st \<and> rs_readers st' = rs_readers st \<and>
     k_close_requested (rs_controller st') = k_close_requested (rs_controller st) \<and>
     k_strategy_size_algorithm (rs_controller st') = k_strategy_size_algorithm (rs_controller st) \<and>
     k_queue (rs_controller st') = k_queue (rs_controller st) \<and>
     rs_next_read st' = rs_next_read st \<and> rs_reads st' = rs_reads st \<and> (calm st \<longrightarrow> calm st')"

lemma sim_same: "sim q st \<Longrightarrow> same_data st st' \<Longrightarrow> sim q st'"
  by (cases q) (simp add: sim_def same_data_def)

lemma same_trans: "same_data a b \<Longrightarrow> same_data b c \<Longrightarrow> same_data a c"
  by (simp add: same_data_def)

lemma calm_frame [simp]:
  "calm (st\<lparr>rs_controller := c\<rparr>) = calm st" "calm (st\<lparr>rs_reads := r\<rparr>) = calm st"
  "calm (st\<lparr>rs_stream := s\<rparr>) = calm st" "calm (st\<lparr>rs_promises := ps\<rparr>) = calm st"
  "calm (st\<lparr>rs_next_read := n\<rparr>) = calm st" "calm (st\<lparr>rs_next_reader := n\<rparr>) = calm st"
  "calm (on_reader i f st) = calm st"
  "calm (settle_read p x st) = calm st" "calm (take_read_requests i st) = calm st"
  by (simp_all add: calm_def take_read_requests_def)

locale quiet_user =
  fixes U :: rs_code
  assumes quiet: "U call st = Some (st, Returned)"
begin

lemma pull_same:
  assumes "call_pull_if_needed U st = Some st'"
  shows "same_data st st'"
proof -
  obtain b where b: "should_call_pull st = Some b" using should_call_pull_known [of st] by auto
  let ?st1 = "on_controller (\<lambda>k. k\<lparr>k_pulling := True\<rparr>) st"
  let ?alg = "k_pull_algorithm (rs_controller st)"
  let ?p = "case ?alg of ANone \<Rightarrow> Resolved | _ \<Rightarrow> Unsettled"
  have i: "invoke_promise_algorithm U ?alg call ?st1 = Some (?st1, ?p)" for call
    by (simp add: invoke_promise_algorithm_def quiet require_def split: algorithm.split)
  have "calm_reaction (RPull, ?p)" by (simp split: algorithm.split)
  then have c: "calm (readable_react RPull ?p ?st1) = calm st" by (simp add: calm_def)
  consider "st' = st" | "st' = on_controller (\<lambda>k. k\<lparr>k_pull_again := True\<rparr>) st"
    | "st' = readable_react RPull ?p ?st1"
    using assms by (auto simp: call_pull_if_needed_def b i require_def Let_def split: if_splits)
  then show ?thesis by cases (simp_all add: same_data_def c)
qed

lemma settle_snapshot:
  "settle_request_snapshot (close_steps U) (map ReadPromise ps) st =
     Some (st\<lparr>rs_reads := \<lambda>k. if k \<in> set ps \<and> rs_reads st k = ReadPending
       then ReadFulfilled JUndefined True else rs_reads st k\<rparr>)"
proof (induction ps arbitrary: st)
  case (Cons p ps)
  have "settle_read p (ReadFulfilled JUndefined True) st =
      st\<lparr>rs_reads := \<lambda>k. if k = p \<and> rs_reads st k = ReadPending
        then ReadFulfilled JUndefined True else rs_reads st k\<rparr>"
    by (auto simp: settle_read_def fun_eq_iff intro!: rs.equality)
  with Cons.IH show ?case
    by (auto simp: close_steps_def quiet resolution_def fun_eq_iff intro!: rs.equality)
qed simp

lemma reaction_same:
  assumes run: "readable_run_reaction U n None st = Some st'" and calm: "calm st"
  shows "same_data st st'"
proof (cases "n < length (rs_reactions st)")
  case True
  obtain k p where kp: "rs_reactions st ! n = (k, p)" by (cases "rs_reactions st ! n")
  let ?st = "st\<lparr>rs_reactions := take n (rs_reactions st) @ drop (Suc n) (rs_reactions st)\<rparr>"
  have k: "k = RStart \<or> k = RPull" and p: "\<And>e. p \<noteq> RejectedWith e"
    using calm kp calm_reaction.simps True by (cases k; cases p; auto simp: calm_def list_all_length)+
  have "(case p of Resolved \<Rightarrow> None | RejectedWith e \<Rightarrow> Some e | Unsettled \<Rightarrow> None) = (None :: jsval option)"
    using p by (cases p) auto
  then have f: "readable_fulfilled U k ?st = Some st'"
    using run True kp by (simp add: readable_run_reaction_def)
  have c: "calm ?st"
    using calm by (auto simp: calm_def list_all_iff dest: in_set_takeD in_set_dropD)
  have "same_data ?st st'"
    using k
  proof
    assume "k = RStart"
    with f have "call_pull_if_needed U (on_controller (\<lambda>k. k\<lparr>k_started := True\<rparr>) ?st) = Some st'"
      by (auto simp: readable_fulfilled_def readable_start_promise_fulfilled_def Let_def require_def
          split: bind_splits if_splits)
    from pull_same [OF this] show ?thesis by (simp add: same_data_def)
  next
    assume r: "k = RPull"
    show ?thesis
    proof (cases "k_pull_again (rs_controller st)")
      case True
      with f r have "call_pull_if_needed U
          (on_controller (\<lambda>k. k\<lparr>k_pulling := False, k_pull_again := False\<rparr>) ?st) = Some st'"
        by (simp add: readable_fulfilled_def readable_pull_promise_fulfilled_def)
      from pull_same [OF this] show ?thesis by (simp add: same_data_def)
    next
      case False
      with f r show ?thesis
        by (auto simp: readable_fulfilled_def readable_pull_promise_fulfilled_def same_data_def)
    qed
  qed
  then show ?thesis using c by (simp add: same_data_def)
next
  case False
  then show ?thesis using run by (simp add: readable_run_reaction_def same_data_def)
qed

lemma sim_enqueue:
  assumes sim: "sim q st" and ex: "rs_exec U (ControllerEnqueue v) st = Some st'"
  shows "sim (aq_step (ControllerEnqueue v) q) st'"
proof -
  obtain E R c where q: "q = (E, R, c)" by (cases q)
  note s = sim [unfolded sim_def q prod.case]
  show ?thesis
  proof (cases "can_close_or_enqueue st")
    case False
    then have "c \<or> rs_state st \<noteq> RsReadable" using s by (auto simp: can_close_or_enqueue_def)
    then have c using s by (auto simp: aq_state_def split: if_splits)
    moreover have "st' = st" using ex False by (simp add: readable_controller_enqueue_method_def)
    ultimately show ?thesis using sim q by simp
  next
    case can: True
    then have c: "\<not> c" using s by (simp add: can_close_or_enqueue_def)
    obtain r where e: "readable_controller_enqueue U v st = Some (st', r)"
      using ex can by (auto simp: readable_controller_enqueue_method_def split: bind_splits)
    have w: "has_waiting_reads st = Some (length E < R)"
      using s c by (simp add: has_waiting_reads_def is_locked_def get_num_read_requests_def)
    show ?thesis
    proof (cases "length E < R")
      case True
      let ?st1 = "on_reader 0 (\<lambda>x. x\<lparr>rd_read_requests := map ReadPromise [Suc (length E)..<R]\<rparr>) st"
      let ?st2 = "settle_read (length E) (ReadFulfilled v False) ?st1"
      have rr: "rd_read_requests (rs_readers st 0) =
          ReadPromise (length E) # map ReadPromise [Suc (length E)..<R]"
        using s c True by (simp add: upt_conv_Cons del: upt_Suc)
      have "fulfill_read_request U v False st = Some ?st2"
        unfolding fulfill_read_request_def
        using conjunct1 [OF conjunct2 [OF s]] by (simp add: rr chunk_steps_def quiet resolution_def)
      then have p: "call_pull_if_needed U ?st2 = Some st'"
        using e can w True by (auto simp: readable_controller_enqueue_def split: bind_splits)
      have "sim (E @ [v], R, c) ?st2"
        using s c True by (auto simp: sim_def q aq_state_def outcome_def nth_append)
      from sim_same [OF this pull_same [OF p]] c q show ?thesis by simp
    next
      case False
      let ?k = "(rs_controller st)\<lparr>k_queue := k_queue (rs_controller st) @ [Chunk v (f64_of_int 1)],
          k_queue_total_size := f64_add (k_queue_total_size (rs_controller st)) (f64_of_int 1)\<rparr>"
      have "enqueue_value_with_size readable_queue_ops v (f64_of_int 1) (rs_controller st) = Inr ?k"
        by (simp add: enqueue_value_with_size_def readable_queue_ops_def is_non_negative_number_def
            f64_of_int_def f64_align_def)
      then have p: "call_pull_if_needed U (st\<lparr>rs_controller := ?k\<rparr>) = Some st'"
        using e can w False s by (auto simp: readable_controller_enqueue_def split: bind_splits)
      have "sim (E @ [v], R, c) (st\<lparr>rs_controller := ?k\<rparr>)"
        using s c False by (auto simp: sim_def q aq_state_def outcome_def nth_append)
      from sim_same [OF this pull_same [OF p]] c q show ?thesis by simp
    qed
  qed
qed

lemma sim_close:
  assumes sim: "sim q st" and ex: "rs_exec U ControllerClose st = Some st'"
  shows "sim (aq_step ControllerClose q) st'"
proof -
  obtain E R c where q: "q = (E, R, c)" by (cases q)
  note s = sim [unfolded sim_def q prod.case]
  show ?thesis
  proof (cases "can_close_or_enqueue st")
    case False
    then have "c \<or> rs_state st \<noteq> RsReadable" using s by (auto simp: can_close_or_enqueue_def)
    then have c using s by (auto simp: aq_state_def split: if_splits)
    moreover have "st' = st" using ex False by (simp add: readable_controller_close_method_def)
    ultimately show ?thesis using sim q by simp
  next
    case can: True
    then have c: "\<not> c" using s by (simp add: can_close_or_enqueue_def)
    have e: "readable_controller_close U st = Some st'"
      using ex can by (auto simp: readable_controller_close_method_def split: bind_splits)
    let ?st1 = "on_controller (\<lambda>k. k\<lparr>k_close_requested := True\<rparr>) st"
    show ?thesis
    proof (cases "length E \<le> R")
      case False
      then have "k_queue (rs_controller st) \<noteq> []" using s by auto
      then have "st' = ?st1" using e can by (simp add: readable_controller_close_def)
      moreover have "sim (E, R, True) ?st1" using s c False
        by (auto simp: sim_def q aq_state_def outcome_def)
      ultimately show ?thesis using q by simp
    next
      case True
      then have k: "k_queue (rs_controller st) = []" using s by auto
      let ?st2 = "take_read_requests 0 (on_promises (resolve_promise (rd_closed_promise (rs_readers st 0)) JUndefined)
          (on_stream (\<lambda>s. s\<lparr>r_state := RsClosed\<rparr>) (readable_clear_algorithms ?st1)))"
      have R: "rs_state st = RsReadable" using can by (simp add: can_close_or_enqueue_def)
      have "readable_controller_close U st =
          settle_request_snapshot (close_steps U) (map ReadPromise [length E..<R]) ?st2"
        using can k s R c by (simp add: readable_controller_close_def readable_stream_close_def Let_def
            readable_clear_algorithms_def require_def)
      with e have "st' = ?st2\<lparr>rs_reads := \<lambda>k. if k \<in> set [length E..<R] \<and> rs_reads ?st2 k = ReadPending
          then ReadFulfilled JUndefined True else rs_reads ?st2 k\<rparr>"
        unfolding settle_snapshot by simp
      moreover have "rs_reads ?st2 = rs_reads st"
        by (simp add: take_read_requests_def readable_clear_algorithms_def)
      ultimately show ?thesis using s c k True q
        by (auto simp: sim_def aq_state_def outcome_def take_read_requests_def readable_clear_algorithms_def
            split: if_splits)
    qed
  qed
qed

lemma sim_read:
  assumes sim: "sim q st" and ex: "rs_exec U (ReaderRead 0) st = Some st'"
  shows "sim (aq_step (ReaderRead 0) q) st'"
proof -
  obtain E R c where q: "q = (E, R, c)" by (cases q)
  note s = sim [unfolded sim_def q prod.case]
  have n: "rs_next_read st = R" "rd_stream (rs_readers st 0)" "r_controller (rs_stream st)"
    using s by simp_all
  let ?st1 = "on_stream (\<lambda>s. s\<lparr>r_disturbed := True\<rparr>)
      (st\<lparr>rs_next_read := R + 1, rs_reads := (rs_reads st)(R := ReadPending)\<rparr>)"
  have read: "default_reader_read U 0 (ReadPromise R)
      (st\<lparr>rs_next_read := R + 1, rs_reads := (rs_reads st)(R := ReadPending)\<rparr>) = Some st'"
    using ex n by (auto simp: reader_read_def Let_def split: bind_splits)
  show ?thesis
  proof (cases "c \<and> length E \<le> R")
    case True
    then have "rs_state st = RsClosed" using s by (simp add: aq_state_def)
    then have "st' = settle_read R (ReadFulfilled JUndefined True) ?st1"
      using read n by (simp add: default_reader_read_def close_steps_def quiet resolution_def require_def)
    then show ?thesis using s True q
      by (auto simp: sim_def aq_state_def outcome_def less_Suc_eq)
  next
    case False
    then have "rs_state st = RsReadable" using s by (auto simp: aq_state_def)
    then have p: "pull_steps U (ReadPromise R) ?st1 = Some st'"
      using read n by (simp add: default_reader_read_def require_def)
    show ?thesis
    proof (cases "length E \<le> R")
      case True
      then have c: "\<not> c" using False by simp
      let ?st2 = "on_reader 0 (\<lambda>x. x\<lparr>rd_read_requests := rd_read_requests x @ [ReadPromise R]\<rparr>) ?st1"
      have "call_pull_if_needed U ?st2 = Some st'"
        using p s True by (simp add: pull_steps_def add_read_request_def)
      moreover have "sim (E, Suc R, c) ?st2"
        using s c True q by (auto simp: sim_def aq_state_def outcome_def less_Suc_eq)
      ultimately show ?thesis using sim_same [OF _ pull_same] q by simp
    next
      case lt: False
      obtain x xs where k: "k_queue (rs_controller st) = x # xs" "vvalue x = E ! R" "map vvalue xs = drop (Suc R) E"
      proof -
        have "map vvalue (k_queue (rs_controller st)) = E ! R # drop (Suc R) E"
          using s lt by (simp add: Cons_nth_drop_Suc)
        then show ?thesis using that by (cases "k_queue (rs_controller st)") auto
      qed
      have lenx: "xs = [] \<longleftrightarrow> length E = Suc R" using k(3) lt by (cases xs) auto
      have reqs: "rd_read_requests (rs_readers st 0) = []" using s lt by simp
      obtain k where d: "dequeue_value readable_queue_ops (rs_controller st) = Some (k, E ! R)"
        "k_queue k = xs" "k_close_requested k = c" "k_strategy_size_algorithm k = None"
        using k s by (simp add: dequeue_value_def readable_queue_ops_def Let_def)
      let ?st2 = "?st1\<lparr>rs_controller := k\<rparr>"
      have settle: "chunk_steps U (ReadPromise R) (E ! R) = (\<lambda>x. Some (settle_read R (ReadFulfilled (E ! R) False) x))"
        by (simp add: chunk_steps_def quiet resolution_def fun_eq_iff)
      show ?thesis
      proof (cases "c \<and> xs = []")
        case True
        let ?st3 = "take_read_requests 0 (on_promises (resolve_promise (rd_closed_promise (rs_readers st 0)) JUndefined)
            (on_stream (\<lambda>s. s\<lparr>r_state := RsClosed\<rparr>) (readable_clear_algorithms ?st2)))"
        have "readable_stream_close U (readable_clear_algorithms ?st2) = Some ?st3"
          using s True \<open>rs_state st = RsReadable\<close> reqs
          by (simp add: readable_stream_close_def readable_clear_algorithms_def require_def)
        then have "st' = settle_read R (ReadFulfilled (E ! R) False) ?st3"
          using p d k True by (simp add: pull_steps_def settle)
        then show ?thesis using s True lt lenx d q
          by (auto simp: sim_def aq_state_def outcome_def less_Suc_eq take_read_requests_def
              readable_clear_algorithms_def)
      next
        case open_: False
        have "pull_steps U (ReadPromise R) ?st1 = do {
            st3 \<leftarrow> call_pull_if_needed U ?st2; Some (settle_read R (ReadFulfilled (E ! R) False) st3) }"
          using d k open_ by (auto simp: pull_steps_def settle [abs_def])
        then obtain st3 where c3: "call_pull_if_needed U ?st2 = Some st3"
          "st' = settle_read R (ReadFulfilled (E ! R) False) st3"
          using p by (auto split: bind_splits)
        note same = pull_same [OF c3(1), unfolded same_data_def]
        show ?thesis using s lt lenx d k same open_ q unfolding c3(2)
          by (auto simp: sim_def aq_state_def outcome_def less_Suc_eq)
      qed
    qed
  qed
qed

lemma sim_run:
  "sim q st \<Longrightarrow> list_all plain cmds \<Longrightarrow> run_all (rs_exec U) cmds st = Some st' \<Longrightarrow>
     sim (fold aq_step cmds q) st'"
proof (induction cmds arbitrary: q st)
  case (Cons c cmds)
  then obtain st1 where st1: "rs_exec U c st = Some st1" "run_all (rs_exec U) cmds st1 = Some st'"
    by (auto split: bind_splits)
  have "sim (aq_step c q) st1"
  proof (cases c)
    case (RunReaction n r)
    then have "same_data st st1" using Cons.prems st1(1) reaction_same [of n st st1]
      by (cases q) (simp add: sim_def)
    with Cons.prems(1) RunReaction show ?thesis by (cases q) (simp add: sim_same)
  qed (use Cons.prems st1(1) sim_enqueue sim_close sim_read in \<open>auto simp del: rs_exec.simps\<close>)
  with Cons st1(2) show ?case by simp
qed simp

end

lemma quiet_user_script: "quiet_user (rs_user (\<lambda>_ _ _. ([], Returned)) (Suc n))"
  by unfold_locales simp

interpretation quiet_js: quiet_user "rs_user (\<lambda>_ _ _. ([], Returned)) (Suc n)" for n
  by (rule quiet_user_script)

text \<open>A new stream whose reader is taken first is the empty queue.\<close>

lemma sim_new:
  assumes new: "readable_stream_new U source strategy ps = Some (st, Inr ())" and U: "quiet_user U"
    and size: "extract_size_algorithm strategy = None" and get: "rs_exec U GetReader st = Some st'"
  shows "sim ([], 0, False) st'"
proof -
  have U': "\<And>call st. U call st = Some (st, Returned)" using U by (simp add: quiet_user_def)
  have d: "r_controller (rs_stream st) \<and> r_reader (rs_stream st) = None \<and> rs_state st = RsReadable \<and>
      rs_next_reader st = 0 \<and> \<not> k_close_requested (rs_controller st) \<and>
      k_strategy_size_algorithm (rs_controller st) = None \<and> k_queue (rs_controller st) = [] \<and>
      rs_next_read st = 0 \<and> calm st"
    using new size
    by (auto simp: readable_stream_new_def set_up_from_underlying_source_def
        readable_set_up_default_controller_def invoke_algorithm_def U' rs_default_def calm_def
        initialize_readable_stream_def reset_queue_def readable_queue_ops_def require_def Let_def
        readable_react_def split: source_argument.splits sum.splits algorithm.splits if_splits bind_splits)
  then show ?thesis using get
    by (auto simp: stream_get_reader_def acquire_default_reader_def set_up_default_reader_def
        is_locked_def reader_generic_initialize_def readable_new_promise_eq take_read_requests_def
        sim_def aq_state_def Let_def split: bind_splits)
qed

end
