(* ===== verification/Readable_Claims.thy ===== *)
theory Readable_Claims
  imports Readable_Order
begin

text \<open>
  What holds of every session with a readable stream: no panic, one owner for every promise that is
  to be settled, states that are final, pulls one at a time; and, when the code it calls returns
  quietly, that reads get the chunks in the order of both.
\<close>

section \<open>Sessions for the witnesses\<close>

text \<open>A source with all its algorithms, and JavaScript that does nothing when it is called.\<close>

definition example_source :: source_argument where
  "example_source = SourceObject (Inr \<lparr>uso_start = Some 0, uso_pull = Some 1, uso_cancel = Some 2\<rparr>)"

definition read_quiet :: read_script where
  "read_quiet n call st = ([], Returned)"

definition read_state :: "rs_cmd list \<Rightarrow> rs" where
  "read_state cmds =
     (case rs_session read_quiet 1 example_source None cmds of
        Some (Inr st) \<Rightarrow> st | _ \<Rightarrow> rs_default no_promises)"

lemma read_session:
  "(case rs_session read_quiet 1 example_source None cmds of Some (Inr st) \<Rightarrow> True | _ \<Rightarrow> False) \<Longrightarrow>
     rs_session read_quiet 1 example_source None cmds = Some (Inr (read_state cmds))"
  by (simp add: read_state_def split: option.splits sum.splits)

text \<open>A stream that started and has two reads, of which the first got a chunk; and one that errored.\<close>

abbreviation reading_cmds :: "rs_cmd list" where
  "reading_cmds \<equiv> [GetReader, RunReaction 0 None, ControllerEnqueue (JUser 7), ReaderRead 0, ReaderRead 0]"

abbreviation errored_cmds :: "rs_cmd list" where
  "errored_cmds \<equiv> [GetReader, ReaderRead 0, RunReaction 0 (Some (JUser 9))]"

lemma reading_session:
  "rs_session read_quiet 1 example_source None reading_cmds = Some (Inr (read_state reading_cmds))"
  by (rule read_session) code_simp

lemma errored_session:
  "rs_session read_quiet 1 example_source None errored_cmds = Some (Inr (read_state errored_cmds))"
  by (rule read_session) code_simp

section \<open>Sessions\<close>

text \<open>C13: No session with a readable stream panics, whatever the source, the size function, a getter of
  \<open>then\<close> and the consumers do through the interface, at any depth, if the lookups of a promise's
  \<open>constructor\<close>, which a getter on \<open>Promise.prototype\<close> answers, do not throw: not its assertions, nor the
  \<open>expect\<close>s on the reader, the controller, the queue and the promise that cancelling derives.\<close>
theorem readable_sessions_never_panic:
  assumes "lookups_succeed scr"
  shows "rs_session scr n source strategy cmds \<noteq> None"
  using rs_session_ok [OF assms, of n source strategy cmds] by (auto elim: wpE)

lemma readable_sessions_never_panic_witness:
  "rs_session read_quiet 3 SourceMissing None [GetReader, ReaderRead 0, NativeCancel JUndefined] \<noteq> None"
  by (rule readable_sessions_never_panic) (simp add: lookups_succeed_def read_quiet_def threw_def)

text \<open>A getter that throws makes cancelling a readable stream panic.\<close>

definition constructor_throws :: read_script where
  "constructor_throws n call st = ([], if call = ConstructorLookup then Threw (JUser 0) else Returned)"

lemma throwing_constructor_panics:
  "rs_session constructor_throws 1 SourceMissing None [StreamCancel None] = None"
  by code_simp

lemma readable_session_inv: "rs_session scr n source strategy cmds = Some (Inr st) \<Longrightarrow> rinv [] [] st"
  by (rule rs_session_inv)

lemma run_goes:
  assumes "rs_session scr n source strategy cmds = Some (Inr st)" "rs_run scr m cmds' st = Some st'"
  shows "goes [] [] st st'"
  by (rule rs_run_goes [OF rs_session_inv [OF assms(1)] assms(2)])

lemma read_quiet_run: "rinv [] [] st \<Longrightarrow> wp (rs_run read_quiet m cmds st) (goes [] [] st)"
  by (rule rs_run_ok) (simp_all add: lookups_succeed_def read_quiet_def threw_def)

text \<open>What the invariant says when nothing is on the stack.\<close>

lemma reads_accounted:
  assumes "rinv [] [] st"
  shows "distinct (read_ids (waiting st))"
    and "p < rs_next_read st \<Longrightarrow> rs_reads st p = ReadPending \<longleftrightarrow> p \<in> set (read_ids (waiting st))"
    and "rs_state st \<noteq> RsReadable \<Longrightarrow> waiting st = []"
  using assms by (auto simp: inv_defs owes_def pending_reads_def)

lemma promises_accounted:
  assumes "rinv [] [] st" "p < pr_next (rs_promises st)"
  shows "pr_state (rs_promises st) p = Pending \<longleftrightarrow>
    p \<in> set (closed_ids st @ cancel_ids (map fst (rs_reactions st)))"
  using assms by (auto simp: inv_defs owes_def pending_promises_def owed_def obl_def)

lemma promises_distinct:
  "rinv [] [] st \<Longrightarrow> distinct (closed_ids st @ cancel_ids (map fst (rs_reactions st)))"
  by (simp add: inv_defs owes_def owed_def obl_def)

text \<open>C14: After any session, the reads that are pending are exactly those that wait at the reader
  that holds the lock, each once, and there is none unless the stream is readable. The other pending
  promises are the closed promise of that reader, if the stream is readable, and those that
  cancellations returned, each with one reaction that will settle it.\<close>
theorem pending_reads_are_owned_once:
  assumes "rs_session scr n source strategy cmds = Some (Inr st)"
  shows "distinct (read_ids (waiting st)) \<and>
    (\<forall>p < rs_next_read st. rs_reads st p = ReadPending \<longleftrightarrow> p \<in> set (read_ids (waiting st))) \<and>
    (rs_state st \<noteq> RsReadable \<longrightarrow> (\<forall>p < rs_next_read st. rs_reads st p \<noteq> ReadPending)) \<and>
    distinct (closed_ids st @ cancel_ids (map fst (rs_reactions st))) \<and>
    (\<forall>p < pr_next (rs_promises st). pr_state (rs_promises st) p = Pending \<longleftrightarrow>
      p \<in> set (closed_ids st @ cancel_ids (map fst (rs_reactions st))))"
  using reads_accounted [OF readable_session_inv [OF assms]] promises_accounted [OF readable_session_inv [OF assms]]
    promises_distinct [OF readable_session_inv [OF assms]]
  by simp

lemma pending_reads_are_owned_once_witness:
  "rs_reads (read_state reading_cmds) 1 = ReadPending \<and>
     rs_reads (read_state errored_cmds) 0 \<noteq> ReadPending"
proof -
  have "1 < rs_next_read (read_state reading_cmds) \<and> 1 \<in> set (read_ids (waiting (read_state reading_cmds)))"
    "rs_state (read_state errored_cmds) \<noteq> RsReadable" "0 < rs_next_read (read_state errored_cmds)"
    by code_simp+
  then show ?thesis
    using pending_reads_are_owned_once [OF reading_session] pending_reads_are_owned_once [OF errored_session]
    by blast
qed

text \<open>C31: Whatever follows a session, a stream that is closed or errored stays so, with the error it
  stored, a disturbed one stays disturbed, a started one started, and a read or promise that was
  settled keeps its value.\<close>
theorem readable_states_are_final:
  assumes "rs_session scr n source strategy cmds = Some (Inr st)" and "rs_run scr m cmds' st = Some st'"
  shows "(rs_state st \<noteq> RsReadable \<longrightarrow>
      rs_state st' = rs_state st \<and> r_stored_error (rs_stream st') = r_stored_error (rs_stream st)) \<and>
    (is_disturbed st \<longrightarrow> is_disturbed st') \<and>
    (k_started (rs_controller st) \<longrightarrow> k_started (rs_controller st')) \<and>
    (\<forall>p < rs_next_read st. rs_reads st p \<noteq> ReadPending \<longrightarrow> rs_reads st' p = rs_reads st p) \<and>
    (\<forall>p < pr_next (rs_promises st). pr_state (rs_promises st) p \<noteq> Pending \<longrightarrow>
      pr_state (rs_promises st') p = pr_state (rs_promises st) p)"
  using goesD(2) [OF run_goes [OF assms]]
  unfolding rs_le_def keeps_settled_def is_disturbed_def by blast

lemma readable_states_are_final_witness:
  "wp (rs_run read_quiet 1 [ControllerEnqueue (JUser 1), NativeClose] (read_state errored_cmds)) (\<lambda>st'.
     rs_state st' = RsErrored \<and> r_stored_error (rs_stream st') = JUser 9)"
proof -
  let ?st = "read_state errored_cmds"
  have e: "rs_state ?st = RsErrored \<and> r_stored_error (rs_stream ?st) = JUser 9" by code_simp
  obtain st' where "rs_run read_quiet 1 [ControllerEnqueue (JUser 1), NativeClose] ?st = Some st'"
    by (rule wpE [OF read_quiet_run [OF readable_session_inv [OF errored_session]]])
  with readable_states_are_final [OF errored_session this] e show ?thesis by simp
qed

text \<open>C30: After any session at most one start and one pull are waited for; no pull was made before
  the start ended; a pull is only remembered for later while one runs; and while the stream is
  readable the controller's flags say exactly what is waited for.\<close>
theorem pulls_do_not_overlap:
  assumes "rs_session scr n source strategy cmds = Some (Inr st)"
  shows "count_list (map fst (rs_reactions st)) RStart \<le> 1 \<and>
    count_list (map fst (rs_reactions st)) RPull \<le> 1 \<and>
    (k_pulling (rs_controller st) \<longrightarrow> k_started (rs_controller st)) \<and>
    (k_pull_again (rs_controller st) \<longrightarrow> k_pulling (rs_controller st)) \<and>
    (rs_state st = RsReadable \<longrightarrow>
      (k_started (rs_controller st) \<longleftrightarrow> RStart \<notin> set (map fst (rs_reactions st))) \<and>
      (k_pulling (rs_controller st) \<longleftrightarrow> RPull \<in> set (map fst (rs_reactions st))))"
proof -
  have f: "flags_ok [] st" and o: "rs_state st = RsReadable \<longrightarrow> ropen [] st"
    using readable_session_inv [OF assms] by (simp_all add: rinv_def rbase_def)
  from o have "rs_state st = RsReadable \<longrightarrow>
      (\<not> k_started (rs_controller st) \<longrightarrow> RStart \<in> set (obl [] st)) \<and>
      (k_pulling (rs_controller st) \<longrightarrow> RPull \<in> set (obl [] st))"
    unfolding ropen_def by blast
  moreover have "obl [] st = map fst (rs_reactions st)" by (simp add: obl_def)
  ultimately show ?thesis using f unfolding flags_ok_def by metis
qed

lemma pulls_do_not_overlap_witness:
  "RPull \<in> set (map fst (rs_reactions (read_state reading_cmds)))"
proof -
  have "rs_state (read_state reading_cmds) = RsReadable \<and>
      k_pulling (rs_controller (read_state reading_cmds))" by code_simp
  then show ?thesis using pulls_do_not_overlap [OF reading_session] by blast
qed

text \<open>Cancelling, which the consumers' native code may do to a locked stream too, ends what is
  waited for: the stream is disturbed, closed if it was readable and as before otherwise, no read is
  pending, and the reader's closed promise is settled.\<close>
theorem cancelling_settles_the_reads:
  assumes "rs_session scr n source strategy cmds = Some (Inr st)"
    and "rs_run scr m [NativeCancel reason] st = Some st'"
  shows "is_disturbed st' \<and>
    rs_state st' = (if rs_state st = RsReadable then RsClosed else rs_state st) \<and>
    (\<forall>p < rs_next_read st'. rs_reads st' p \<noteq> ReadPending) \<and>
    (\<forall>i. r_reader (rs_stream st') = Some i \<longrightarrow>
      pr_state (rs_promises st') (rd_closed_promise (rs_readers st' i)) \<noteq> Pending)"
proof -
  have inv: "rinv [] [] st" and inv': "rinv [] [] st'" and le: "rs_le st st'"
    using readable_session_inv [OF assms(1)] goesD [OF run_goes [OF assms]] by simp_all
  have c: "rs_state st' = (if rs_state st = RsReadable then RsClosed else rs_state st) \<and> is_disturbed st'"
    using rs_js.cancel_result [OF inv, of scr m reason] rs_run_tame [OF assms(2)]
    by (auto simp: rs_run_def wp_map_option is_disturbed_def split: bind_splits)
  then have n: "rs_state st' \<noteq> RsReadable" by (auto split: if_splits)
  moreover have "closed_state (rs_stream st') \<noteq> Pending"
    using n by (simp add: closed_state_def split: readable_state.split)
  ultimately show ?thesis
    using c reads_accounted [OF inv'] inv' by (simp add: inv_defs)
qed

lemma cancelling_settles_the_reads_witness:
  "wp (rs_run read_quiet 1 [NativeCancel (JUser 3)] (read_state reading_cmds)) (\<lambda>st'.
     rs_state st' = RsClosed \<and> rs_reads st' 1 \<noteq> ReadPending)"
proof -
  let ?st = "read_state reading_cmds"
  have r: "rs_state ?st = RsReadable" "1 < rs_next_read ?st" by code_simp+
  obtain st' where run: "rs_run read_quiet 1 [NativeCancel (JUser 3)] ?st = Some st'"
    by (rule wpE [OF read_quiet_run [OF readable_session_inv [OF reading_session]]])
  have "rs_next_read ?st \<le> rs_next_read st'"
    using goesD(2) [OF run_goes [OF reading_session run]] by (simp add: rs_le_def)
  with cancelling_settles_the_reads [OF reading_session run] r run show ?thesis by simp
qed

section \<open>Order\<close>

lemma read_quiet_eq: "read_quiet = (\<lambda>_ _ _. ([], Returned))"
  by (simp add: read_quiet_def fun_eq_iff)

text \<open>C15: With a source and a getter of \<open>then\<close> that do nothing and no size function, any sequence of
  enqueueing, closing, reading and reactions makes the stream an abstract queue: the \<open>k\<close>th read gets
  the \<open>k\<close>th chunk, whichever came first; one beyond the last chunk ends when the stream is closed and
  waits otherwise; and the stream is closed when it was closed and every chunk was read.\<close>
theorem reads_follow_the_queue:
  assumes "rs_session read_quiet (Suc n) source strategy (GetReader # cmds) = Some (Inr st)"
    and "extract_size_algorithm strategy = None" and "list_all plain cmds"
  shows "let q = fold aq_step cmds ([], 0, False) in
    rs_state st = aq_state q \<and> rs_next_read st = fst (snd q) \<and>
    (\<forall>k < fst (snd q). rs_reads st k = outcome q k)"
proof -
  let ?U = "rs_user (\<lambda>_ _ _. ([], Returned)) (Suc n)"
  obtain st0 st1 where new: "readable_stream_new ?U source strategy no_promises = Some (st0, Inr ())"
    and get: "rs_exec ?U GetReader st0 = Some st1" and run: "run_all (rs_exec ?U) cmds st1 = Some st"
    using assms(1)
    by (auto simp: rs_session_def rs_run_def read_quiet_eq split: bind_splits sum.splits
        simp del: rs_exec.simps rs_user.simps)
  have "sim ([], 0, False) st1" by (rule sim_new [OF new quiet_user_script assms(2) get])
  from quiet_js.sim_run [OF this assms(3) run] have "sim (fold aq_step cmds ([], 0, False)) st" .
  then show ?thesis
    by (cases "fold aq_step cmds ([], 0, False)") (simp add: sim_def)
qed

lemma reads_follow_the_queue_witness:
  "rs_reads (read_state reading_cmds) 0 = ReadFulfilled (JUser 7) False \<and>
     rs_reads (read_state reading_cmds) 1 = ReadPending"
  using reads_follow_the_queue [of 0 example_source None "tl reading_cmds" "read_state reading_cmds"]
    reading_session
  by (simp add: extract_size_algorithm_def outcome_def)

end
