(* ===== verification/Panics.thy ===== *)
theory Panics
  imports Prelude
begin

text \<open>
  Fallible code whose panics are told apart. A run is \<open>Inl p\<close> for the panic \<open>p\<close> or \<open>Inr x\<close> for a
  normal return; \<open>and_then\<close> sequences runs. \<open>rwp ok m Q\<close> says that \<open>m\<close> returns a value in \<open>Q\<close>, or
  panics in a way \<open>ok\<close> permits. Inside a run, a JavaScript exception is a value of its own:
  \<open>js_then\<close> is the \<open>?\<close> of a Rust function into \<open>Result\<close> that threads a state.
\<close>

section \<open>Runs\<close>

type_synonym ('p, 'a) run = "'p + 'a"

definition and_then :: "('p, 'a) run \<Rightarrow> ('a \<Rightarrow> ('p, 'b) run) \<Rightarrow> ('p, 'b) run" where
  "and_then m f = (case m of Inl p \<Rightarrow> Inl p | Inr x \<Rightarrow> f x)"

definition or_panic :: "'p \<Rightarrow> bool \<Rightarrow> ('p, unit) run" where
  "or_panic p b = (if b then Inr () else Inl p)"

text \<open>\<open>expect\<close> on an option.\<close>

definition or_expect :: "'p \<Rightarrow> 'a option \<Rightarrow> ('p, 'a) run" where
  "or_expect p m = (case m of None \<Rightarrow> Inl p | Some x \<Rightarrow> Inr x)"

definition js_then ::
    "('p, 's \<times> ('e + 'a)) run \<Rightarrow> ('s \<Rightarrow> 'a \<Rightarrow> ('p, 's \<times> ('e + 'b)) run) \<Rightarrow>
       ('p, 's \<times> ('e + 'b)) run" where
  "js_then m f =
     and_then m (\<lambda>(st, r). case r of Inl e \<Rightarrow> Inr (st, Inl e) | Inr x \<Rightarrow> f st x)"

lemma and_then_simps [simp]: "and_then (Inl p) f = Inl p" "and_then (Inr x) f = f x"
  by (simp_all add: and_then_def)

lemma and_then_assoc: "and_then (and_then m f) g = and_then m (\<lambda>x. and_then (f x) g)"
  by (cases m) simp_all

lemma js_then_simps [simp]:
  "js_then (Inl p) f = Inl p"
  "js_then (Inr (st, Inl e)) f = Inr (st, Inl e)"
  "js_then (Inr (st, Inr x)) f = f st x"
  by (simp_all add: js_then_def)

text \<open>With these congruences the simplifier evaluates a run from its first step on.\<close>

lemma and_then_weak_cong: "m = m' \<Longrightarrow> and_then m f = and_then m' f"
  by simp

lemma js_then_weak_cong: "m = m' \<Longrightarrow> js_then m f = js_then m' f"
  by simp

section \<open>Weakest preconditions\<close>

definition rwp :: "('p \<Rightarrow> bool) \<Rightarrow> ('p, 'a) run \<Rightarrow> ('a \<Rightarrow> bool) \<Rightarrow> bool" where
  "rwp ok m Q = (case m of Inl p \<Rightarrow> ok p | Inr x \<Rightarrow> Q x)"

lemma rwp_simps [simp]:
  "rwp ok (Inl p) Q = ok p"
  "rwp ok (Inr x) Q = Q x"
  "rwp ok (and_then m f) Q = rwp ok m (\<lambda>x. rwp ok (f x) Q)"
  by (simp_all add: rwp_def and_then_def split: sum.split)

lemma rwp_or_panic [simp]: "rwp ok (or_panic p b) Q = (if b then Q () else ok p)"
  by (simp add: or_panic_def)

lemma rwp_or_expect [simp]:
  "rwp ok (or_expect p m) Q = (case m of None \<Rightarrow> ok p | Some x \<Rightarrow> Q x)"
  by (cases m) (simp_all add: or_expect_def)

lemma rwp_js_then [simp]:
  "rwp ok (js_then m f) Q =
     rwp ok m (\<lambda>(st, r). case r of Inl e \<Rightarrow> Q (st, Inl e) | Inr x \<Rightarrow> rwp ok (f st x) Q)"
  by (cases m) (auto simp: js_then_def split: sum.split)

lemma rwp_if: "rwp ok (if b then m else n) Q = (if b then rwp ok m Q else rwp ok n Q)"
  by simp

lemma rwp_mono: "rwp ok m P \<Longrightarrow> (\<And>x. P x \<Longrightarrow> Q x) \<Longrightarrow> rwp ok m Q"
  by (cases m) simp_all

lemma rwp_conj: "rwp ok m P \<Longrightarrow> rwp ok m Q \<Longrightarrow> rwp ok m (\<lambda>x. P x \<and> Q x)"
  by (cases m) simp_all

lemma rwpD: "rwp ok m Q \<Longrightarrow> m = Inr x \<Longrightarrow> Q x"
  by simp

lemma rwpI: "m = Inr x \<Longrightarrow> Q x \<Longrightarrow> rwp ok m Q"
  by simp

section \<open>Lists of commands\<close>

fun run_cmds :: "('c \<Rightarrow> 's \<Rightarrow> ('p, 's) run) \<Rightarrow> 'c list \<Rightarrow> 's \<Rightarrow> ('p, 's) run" where
  "run_cmds f [] s = Inr s"
| "run_cmds f (c # cs) s = and_then (f c s) (run_cmds f cs)"

lemma run_cmds_append: "run_cmds f (xs @ ys) s = and_then (run_cmds f xs s) (run_cmds f ys)"
  by (induction xs arbitrary: s) (auto simp: and_then_def split: sum.splits)

text \<open>
  The interface of code outside the sources: commands that keep an invariant, respect a frame
  condition, and panic only as permitted. Whatever commands that code issues do the same.
\<close>

locale guarded_commands =
  fixes exec :: "'c \<Rightarrow> 's \<Rightarrow> ('p, 's) run"
    and ok :: "'s \<Rightarrow> 'p \<Rightarrow> bool"
    and Inv :: "'s \<Rightarrow> bool"
    and Rel :: "'s \<Rightarrow> 's \<Rightarrow> bool"
  assumes exec_step: "Inv s \<Longrightarrow> rwp (ok s) (exec c s) (\<lambda>s'. Inv s' \<and> Rel s s')"
    and rel_refl: "Rel s s"
    and rel_trans: "Rel s t \<Longrightarrow> Rel t u \<Longrightarrow> Rel s u"
    and rel_ok: "Rel s t \<Longrightarrow> ok t = ok s"
begin

lemma run_steps: "Inv s \<Longrightarrow> rwp (ok s) (run_cmds exec cs s) (\<lambda>s'. Inv s' \<and> Rel s s')"
proof (induction cs arbitrary: s)
  case Nil
  then show ?case by (simp add: rel_refl)
next
  case (Cons c cs)
  have "rwp (ok s) (run_cmds exec cs t) (\<lambda>s'. Inv s' \<and> Rel s s')" if "Inv t \<and> Rel s t" for t
    using Cons.IH [of t] that rel_trans [of s t] by (auto simp: rel_ok [of s t] elim!: rwp_mono)
  with exec_step [OF Cons.prems, of c] show ?case
    by (auto elim!: rwp_mono)
qed

end

end
