(* ===== verification/Dom_World.thy ===== *)
theory Dom_World
  imports Panics Interest Event_Loop Promise_Store
begin

text \<open>
  The objects of the events, the abort signals and the extendable events:
  \<open>crates/builtins/web-globals/src/events/\<close>, \<open>.../signals/\<close> and
  \<open>crates/builtins/fetch-event/src/\<close>. An event target, an abort signal or an event is an index
  into a store; the fields a class adds to its parent have a store of their own. User code is a
  parameter of the operations: a function of the call and the state.
\<close>

section \<open>Events\<close>

text \<open>\<open>EventFlags\<close>, the bits of a \<open>bitflags\<close> type, as a set of flags.\<close>

datatype event_flag =
    STOP_PROPAGATION
  | STOP_IMMEDIATE_PROPAGATION
  | CANCELED
  | IN_PASSIVE_LISTENER
  | DISPATCH
  | INITIALIZED
  | BUBBLES
  | CANCELABLE
  | COMPOSED
  | TRUSTED

definition set_flag :: "event_flag \<Rightarrow> bool \<Rightarrow> event_flag set \<Rightarrow> event_flag set" where
  "set_flag f b fs = (if b then insert f fs else fs - {f})"

type_synonym oid = nat
type_synonym eid = nat

datatype event_class = ClassEvent | ClassCustomEvent | ClassExtendableEvent | ClassFetchEvent

record event =
  ev_class :: event_class
  ev_type :: string
  ev_target :: "oid option"
  ev_flags :: "event_flag set"

record event_init =
  ei_bubbles :: bool
  ei_cancelable :: bool
  ei_composed :: bool

record fetch_event =
  fe_potential_response :: "nat option"
  fe_potential_response_headers :: "(string \<times> string) list option"
  fe_request :: nat
  fe_client_id :: string
  fe_handled :: pid
  fe_respond_interest :: "(loop_id \<times> handle) option"
  fe_respond_with_entered :: bool
  fe_wait_to_respond :: bool
  fe_respond_with_error :: bool

section \<open>Event targets and abort signals\<close>

text \<open>
  A JavaScript value as an argument that WebIDL converts: what \<open>ToBoolean\<close> makes of a primitive,
  and the identity and kind of an object.
\<close>

datatype argument =
    ArgUndefined
  | ArgNull
  | ArgPrimitive bool
  | ArgFunction nat
  | ArgObject nat
  | ArgTarget oid

definition is_null_or_undefined :: "argument \<Rightarrow> bool" where
  "is_null_or_undefined v \<longleftrightarrow> v = ArgUndefined \<or> v = ArgNull"

fun is_object :: "argument \<Rightarrow> bool" where
  "is_object (ArgFunction _) = True"
| "is_object (ArgObject _) = True"
| "is_object (ArgTarget _) = True"
| "is_object _ = False"

fun is_callable :: "argument \<Rightarrow> bool" where
  "is_callable (ArgFunction _) = True"
| "is_callable _ = False"

fun to_boolean :: "argument \<Rightarrow> bool" where
  "to_boolean ArgUndefined = False"
| "to_boolean ArgNull = False"
| "to_boolean (ArgPrimitive b) = b"
| "to_boolean _ = True"

record event_listener =
  li_id :: nat
  li_event_type :: string
  li_callback :: argument
  li_capture :: bool
  li_passive :: "bool option"
  li_once :: bool

datatype abort_algorithm = RemoveListener oid nat | RunSteps nat

record abort_signal =
  as_abort_reason :: jsval
  as_dependent :: bool
  as_source_signals :: "oid list"
  as_dependent_signals :: "oid list"
  as_abort_algorithms :: "abort_algorithm list"
  as_onabort_handler :: "argument option"

definition abort_signal_new :: abort_signal where
  "abort_signal_new = \<lparr>as_abort_reason = JUndefined, as_dependent = False,
     as_source_signals = [], as_dependent_signals = [], as_abort_algorithms = [],
     as_onabort_handler = None\<rparr>"

section \<open>The state\<close>

text \<open>
  A reaction that waits for a promise: to a lifetime promise, with the handle its payload owns;
  to one whose payload became garbage before it settled, so that it never runs; to the promise
  given to \<open>respondWith\<close>.
\<close>

datatype reaction =
    LifetimePromise "loop_id \<times> handle" eid
  | UnreachablePromise eid
  | RespondPromise eid

text \<open>\<open>d_debug\<close> is \<open>cfg!(debug_assertions)\<close>.\<close>

record dom =
  d_debug :: bool
  d_events :: "eid \<Rightarrow> event"
  d_next_event :: eid
  d_detail :: "eid \<Rightarrow> jsval"
  d_pending_promises_count :: "eid \<Rightarrow> nat"
  d_fetch :: "eid \<Rightarrow> fetch_event"
  d_listeners :: "oid \<Rightarrow> event_listener list"
  d_is_signal :: "oid \<Rightarrow> bool"
  d_signals :: "oid \<Rightarrow> abort_signal"
  d_next_object :: oid
  d_next_listener_id :: nat
  d_controllers :: "oid list"
  d_global :: oid
  d_reactions :: "reaction list"
  d_promises :: promises
  d_active :: "loop_id option"
  d_no_loop_reason :: "string option"
  d_origin :: "string option"
  d_loops :: "loop_id \<Rightarrow> event_loop"
  d_clock :: instant

datatype panic =
    StartDispatching
  | InPassiveOutsideDispatch
  | NoEventLoop
  | InterestOverflow
  | InterestUnderflow
  | PendingCountOverflow
  | PendingCountUnderflow

text \<open>\<open>debug_assert!\<close>: checked in a debug build only.\<close>

definition debug_assert :: "panic \<Rightarrow> bool \<Rightarrow> dom \<Rightarrow> (panic, unit) run" where
  "debug_assert p b st = or_panic p (d_debug st \<longrightarrow> b)"

text \<open>
  The calls into JavaScript: reading a property, calling a listener or an abort algorithm, a
  microtask checkpoint. Each ends with a value or an exception.
\<close>

datatype dom_call =
    GetProperty argument string
  | CallListener argument argument eid
  | CallAbortAlgorithm nat jsval
  | Microtasks

type_synonym 'a result = "jsval + 'a"

type_synonym 'a fallible = "(panic, dom \<times> 'a result) run"

type_synonym dom_user = "dom_call \<Rightarrow> dom \<Rightarrow> argument fallible"

definition on_event :: "eid \<Rightarrow> (event \<Rightarrow> event) \<Rightarrow> dom \<Rightarrow> dom" where
  "on_event e f st = st\<lparr>d_events := (d_events st)(e := f (d_events st e))\<rparr>"

definition on_fetch :: "eid \<Rightarrow> (fetch_event \<Rightarrow> fetch_event) \<Rightarrow> dom \<Rightarrow> dom" where
  "on_fetch e f st = st\<lparr>d_fetch := (d_fetch st)(e := f (d_fetch st e))\<rparr>"

definition on_listeners :: "oid \<Rightarrow> (event_listener list \<Rightarrow> event_listener list) \<Rightarrow> dom \<Rightarrow> dom" where
  "on_listeners t f st = st\<lparr>d_listeners := (d_listeners st)(t := f (d_listeners st t))\<rparr>"

definition on_signal :: "oid \<Rightarrow> (abort_signal \<Rightarrow> abort_signal) \<Rightarrow> dom \<Rightarrow> dom" where
  "on_signal s f st = st\<lparr>d_signals := (d_signals st)(s := f (d_signals st s))\<rparr>"

abbreviation flags :: "dom \<Rightarrow> eid \<Rightarrow> event_flag set" where
  "flags st e \<equiv> ev_flags (d_events st e)"

abbreviation on_flags :: "eid \<Rightarrow> (event_flag set \<Rightarrow> event_flag set) \<Rightarrow> dom \<Rightarrow> dom" where
  "on_flags e f \<equiv> on_event e (\<lambda>ev. ev\<lparr>ev_flags := f (ev_flags ev)\<rparr>)"

text \<open>
  A new event target and a new abort signal: a fresh object without listeners.
\<close>

definition new_object :: "bool \<Rightarrow> dom \<Rightarrow> dom \<times> oid" where
  "new_object is_signal st =
     (st\<lparr>d_listeners := (d_listeners st)(d_next_object st := []),
         d_is_signal := (d_is_signal st)(d_next_object st := is_signal),
         d_signals := (d_signals st)(d_next_object st := abort_signal_new),
         d_next_object := d_next_object st + 1\<rparr>, d_next_object st)"

definition event_target_new :: "dom \<Rightarrow> dom \<times> oid" where
  "event_target_new st = new_object False st"

definition new_abort_signal :: "dom \<Rightarrow> dom \<times> oid" where
  "new_abort_signal st = new_object True st"

end
