(* ===== verification/Dom_Events.thy ===== *)
theory Dom_Events
  imports Dom_World
begin

text \<open>
  The methods of \<open>Event\<close>, \<open>CustomEvent\<close> and \<open>EventTarget\<close>, and the listener and dispatch
  algorithms of \<open>crates/builtins/web-globals/src/events/algorithms.rs\<close>. \<open>time_stamp\<close> is left out:
  nothing reads it but its getter.
\<close>

section \<open>Events\<close>

definition new_untrusted :: "event_class \<Rightarrow> string \<Rightarrow> event_init option \<Rightarrow> event" where
  "new_untrusted cls event_type event_init_dict =
     \<lparr>ev_class = cls, ev_type = event_type, ev_target = None,
      ev_flags =
        (case event_init_dict of
           None \<Rightarrow> {INITIALIZED}
         | Some init \<Rightarrow>
             set_flag COMPOSED (ei_composed init)
               (set_flag CANCELABLE (ei_cancelable init)
                 (set_flag BUBBLES (ei_bubbles init) {INITIALIZED})))\<rparr>"

definition trusted :: "event \<Rightarrow> event" where
  "trusted ev = ev\<lparr>ev_flags := set_flag TRUSTED True (ev_flags ev)\<rparr>"

definition new_trusted :: "event_class \<Rightarrow> string \<Rightarrow> event_init option \<Rightarrow> event" where
  "new_trusted cls event_type event_init_dict = trusted (new_untrusted cls event_type event_init_dict)"

text \<open>A new event object: its class's own fields start at their defaults.\<close>

definition allocate_event :: "event \<Rightarrow> dom \<Rightarrow> dom \<times> eid" where
  "allocate_event ev st =
     (st\<lparr>d_events := (d_events st)(d_next_event st := ev),
         d_detail := (d_detail st)(d_next_event st := JUndefined),
         d_pending_promises_count := (d_pending_promises_count st)(d_next_event st := 0),
         d_next_event := d_next_event st + 1\<rparr>, d_next_event st)"

definition is_dispatching :: "eid \<Rightarrow> dom \<Rightarrow> bool" where
  "is_dispatching e st \<longleftrightarrow> DISPATCH \<in> flags st e"

definition is_initialized :: "eid \<Rightarrow> dom \<Rightarrow> bool" where
  "is_initialized e st \<longleftrightarrow> INITIALIZED \<in> flags st e"

definition is_propagation_stopped :: "eid \<Rightarrow> dom \<Rightarrow> bool" where
  "is_propagation_stopped e st \<longleftrightarrow> STOP_PROPAGATION \<in> flags st e"

definition is_immediate_propagation_stopped :: "eid \<Rightarrow> dom \<Rightarrow> bool" where
  "is_immediate_propagation_stopped e st \<longleftrightarrow> STOP_IMMEDIATE_PROPAGATION \<in> flags st e"

definition is_canceled :: "eid \<Rightarrow> dom \<Rightarrow> bool" where
  "is_canceled e st \<longleftrightarrow> CANCELED \<in> flags st e"

definition is_trusted :: "eid \<Rightarrow> dom \<Rightarrow> bool" where
  "is_trusted e st \<longleftrightarrow> TRUSTED \<in> flags st e"

definition current_target :: "eid \<Rightarrow> dom \<Rightarrow> oid option" where
  "current_target e st = (if is_dispatching e st then ev_target (d_events st e) else None)"

definition event_phase :: "eid \<Rightarrow> dom \<Rightarrow> nat" where
  "event_phase e st = (if is_dispatching e st then 2 else 0)"

definition stop_propagation :: "eid \<Rightarrow> dom \<Rightarrow> dom" where
  "stop_propagation e = on_flags e (insert STOP_PROPAGATION)"

definition set_cancel_bubble :: "eid \<Rightarrow> bool \<Rightarrow> dom \<Rightarrow> dom" where
  "set_cancel_bubble e v st = (if v then stop_propagation e st else st)"

definition stop_immediate_propagation :: "eid \<Rightarrow> dom \<Rightarrow> dom" where
  "stop_immediate_propagation e =
     on_flags e (\<lambda>fs. fs \<union> {STOP_PROPAGATION, STOP_IMMEDIATE_PROPAGATION})"

text \<open>Set the canceled flag; \<open>prevent_default\<close> and \<open>returnValue = false\<close> are this step.\<close>

definition event_cancel :: "eid \<Rightarrow> dom \<Rightarrow> dom" where
  "event_cancel e =
     on_flags e (\<lambda>fs. if CANCELABLE \<in> fs \<and> IN_PASSIVE_LISTENER \<notin> fs then insert CANCELED fs else fs)"

definition prevent_default :: "eid \<Rightarrow> dom \<Rightarrow> dom" where
  "prevent_default e st = event_cancel e st"

definition set_return_value :: "eid \<Rightarrow> bool \<Rightarrow> dom \<Rightarrow> dom" where
  "set_return_value e v st = (if \<not> v then event_cancel e st else st)"

definition initialize :: "string \<Rightarrow> bool \<Rightarrow> bool \<Rightarrow> event \<Rightarrow> event" where
  "initialize event_type bubbles cancelable ev =
     ev\<lparr>ev_target := None, ev_type := event_type,
        ev_flags :=
          set_flag CANCELABLE cancelable
            (set_flag BUBBLES bubbles
              (insert INITIALIZED (ev_flags ev) -
                {STOP_PROPAGATION, STOP_IMMEDIATE_PROPAGATION, CANCELED}))\<rparr>"

definition init_event :: "eid \<Rightarrow> string \<Rightarrow> bool option \<Rightarrow> bool option \<Rightarrow> dom \<Rightarrow> dom" where
  "init_event e event_type bubbles cancelable st =
     (if DISPATCH \<in> flags st e then st
      else on_event e (initialize event_type (bubbles = Some True) (cancelable = Some True)) st)"

definition init_custom_event ::
    "eid \<Rightarrow> string \<Rightarrow> bool option \<Rightarrow> bool option \<Rightarrow> jsval option \<Rightarrow> dom \<Rightarrow> dom" where
  "init_custom_event e event_type bubbles cancelable detail st =
     (if is_dispatching e st then st
      else (let st1 = on_event e (initialize event_type (bubbles = Some True) (cancelable = Some True)) st
            in st1\<lparr>d_detail := (d_detail st1)(e := (case detail of Some v \<Rightarrow> v | None \<Rightarrow> JNull))\<rparr>))"

definition custom_event_new ::
    "string \<Rightarrow> (event_init \<times> jsval option) option \<Rightarrow> dom \<Rightarrow> dom \<times> eid" where
  "custom_event_new event_type init st =
     (let (parent, detail) = (case init of
            Some i \<Rightarrow> i
          | None \<Rightarrow> (\<lparr>ei_bubbles = False, ei_cancelable = False, ei_composed = False\<rparr>, None));
          (st1, e) = allocate_event (new_untrusted ClassCustomEvent event_type (Some parent)) st
      in (st1\<lparr>d_detail := (d_detail st1)(e := (case detail of Some v \<Rightarrow> v | None \<Rightarrow> JNull))\<rparr>, e))"

definition start_dispatching :: "eid \<Rightarrow> dom \<Rightarrow> (panic, dom) run" where
  "start_dispatching e st =
     and_then
       (debug_assert StartDispatching
         (flags st e \<inter> {DISPATCH, STOP_PROPAGATION, STOP_IMMEDIATE_PROPAGATION} = {}) st)
       (\<lambda>_. Inr (on_flags e (set_flag DISPATCH True) st))"

definition stop_dispatching :: "eid \<Rightarrow> dom \<Rightarrow> dom" where
  "stop_dispatching e =
     on_flags e (\<lambda>fs. fs - {DISPATCH, STOP_PROPAGATION, STOP_IMMEDIATE_PROPAGATION})"

definition set_in_passive_listener :: "eid \<Rightarrow> bool \<Rightarrow> dom \<Rightarrow> (panic, dom) run" where
  "set_in_passive_listener e v st =
     and_then (debug_assert InPassiveOutsideDispatch (is_dispatching e st) st)
       (\<lambda>_. Inr (on_flags e (set_flag IN_PASSIVE_LISTENER v) st))"

section \<open>Flattening the options\<close>

datatype options_argument = OptBoolean bool | OptDictionary "argument option"

definition options_dictionary :: "argument option \<Rightarrow> options_argument" where
  "options_dictionary options =
     (case options of
        None \<Rightarrow> OptDictionary None
      | Some v \<Rightarrow>
          if is_null_or_undefined v then OptDictionary None
          else if is_object v then OptDictionary (Some v)
          else OptBoolean (to_boolean v))"

definition read_bool_option ::
    "dom_user \<Rightarrow> argument option \<Rightarrow> string \<Rightarrow> dom \<Rightarrow> bool fallible" where
  "read_bool_option U dictionary name st =
     (case dictionary of
        None \<Rightarrow> Inr (st, Inr False)
      | Some obj \<Rightarrow>
          js_then (U (GetProperty obj name) st) (\<lambda>st1 v. Inr (st1, Inr (to_boolean v))))"

definition flatten_options :: "dom_user \<Rightarrow> argument option \<Rightarrow> dom \<Rightarrow> bool fallible" where
  "flatten_options U options st =
     (case options_dictionary options of
        OptBoolean capture \<Rightarrow> Inr (st, Inr capture)
      | OptDictionary obj \<Rightarrow> read_bool_option U obj ''capture'' st)"

record listener_options =
  lo_capture :: bool
  lo_passive :: "bool option"
  lo_once :: bool
  lo_signal :: "oid option"

definition read_signal_option :: "dom_user \<Rightarrow> argument \<Rightarrow> dom \<Rightarrow> oid option fallible" where
  "read_signal_option U options st =
     js_then (U (GetProperty options ''signal'') st) (\<lambda>st1 v.
       case v of
         ArgUndefined \<Rightarrow> Inr (st1, Inr None)
       | ArgTarget s \<Rightarrow>
           if d_is_signal st1 s then Inr (st1, Inr (Some s))
           else Inr (st1, Inl (JTypeError ''signal must be an AbortSignal''))
       | _ \<Rightarrow> Inr (st1, Inl (JTypeError ''signal must be an AbortSignal'')))"

definition flatten_more_options ::
    "dom_user \<Rightarrow> argument option \<Rightarrow> dom \<Rightarrow> listener_options fallible" where
  "flatten_more_options U options st =
     (case options_dictionary options of
        OptBoolean capture \<Rightarrow>
          Inr (st, Inr \<lparr>lo_capture = capture, lo_passive = None, lo_once = False, lo_signal = None\<rparr>)
      | OptDictionary dictionary \<Rightarrow>
          js_then (read_bool_option U dictionary ''capture'' st) (\<lambda>st1 capture.
          js_then (read_bool_option U dictionary ''once'' st1) (\<lambda>st2 once.
          js_then (case dictionary of
                     Some obj \<Rightarrow>
                       js_then (U (GetProperty obj ''passive'') st2) (\<lambda>st3 v.
                         Inr (st3, Inr (if v \<noteq> ArgUndefined then Some (to_boolean v) else None)))
                   | None \<Rightarrow> Inr (st2, Inr None)) (\<lambda>st3 passive.
          js_then (case dictionary of
                     Some obj \<Rightarrow> read_signal_option U obj st3
                   | None \<Rightarrow> Inr (st3, Inr None)) (\<lambda>st4 signal.
            Inr (st4, Inr \<lparr>lo_capture = capture, lo_passive = passive, lo_once = once,
                           lo_signal = signal\<rparr>))))))"

section \<open>The event listener list\<close>

definition next_listener_id :: "dom \<Rightarrow> dom \<times> nat" where
  "next_listener_id st =
     (st\<lparr>d_next_listener_id := d_next_listener_id st + 1\<rparr>, d_next_listener_id st)"

definition aborted :: "oid \<Rightarrow> dom \<Rightarrow> bool" where
  "aborted s st \<longleftrightarrow> as_abort_reason (d_signals st s) \<noteq> JUndefined"

definition add_listener_removal_algorithm :: "oid \<Rightarrow> oid \<Rightarrow> nat \<Rightarrow> dom \<Rightarrow> dom" where
  "add_listener_removal_algorithm s t listener_id st =
     (if aborted s st then st
      else on_signal s (\<lambda>sg. sg\<lparr>as_abort_algorithms :=
             as_abort_algorithms sg @ [RemoveListener t listener_id]\<rparr>) st)"

definition same_listener :: "string \<Rightarrow> argument \<Rightarrow> bool \<Rightarrow> event_listener \<Rightarrow> bool" where
  "same_listener event_type callback capture l \<longleftrightarrow>
     li_event_type l = event_type \<and> li_capture l = capture \<and> li_callback l = callback"

definition add_an_event_listener ::
    "oid \<Rightarrow> string \<Rightarrow> argument \<Rightarrow> bool \<Rightarrow> bool option \<Rightarrow> bool \<Rightarrow> oid option \<Rightarrow> dom \<Rightarrow> dom" where
  "add_an_event_listener t event_type callback capture passive once signal st =
     (if (case signal of Some s \<Rightarrow> aborted s st | None \<Rightarrow> False) then st
      else
        (let (st1, listener_id) =
               (case find (same_listener event_type callback capture) (d_listeners st t) of
                  Some l \<Rightarrow> (st, li_id l)
                | None \<Rightarrow>
                    (let (st', id') = next_listener_id st
                     in (on_listeners t (\<lambda>ls. ls @
                           [\<lparr>li_id = id', li_event_type = event_type, li_callback = callback,
                             li_capture = capture, li_passive = passive, li_once = once\<rparr>]) st', id')))
         in case signal of
              Some s \<Rightarrow> add_listener_removal_algorithm s t listener_id st1
            | None \<Rightarrow> st1))"

definition remove_an_event_listener ::
    "oid \<Rightarrow> string \<Rightarrow> argument \<Rightarrow> bool \<Rightarrow> dom \<Rightarrow> dom" where
  "remove_an_event_listener t event_type callback capture =
     on_listeners t (filter (\<lambda>l. \<not> same_listener event_type callback capture l))"

definition remove_an_event_listener_by_id :: "oid \<Rightarrow> nat \<Rightarrow> dom \<Rightarrow> dom" where
  "remove_an_event_listener_by_id t i = on_listeners t (filter (\<lambda>l. li_id l \<noteq> i))"

definition event_listener_argument :: "argument \<Rightarrow> argument option result" where
  "event_listener_argument callback =
     (if is_null_or_undefined callback then Inr None
      else if is_object callback then Inr (Some callback)
      else Inl (JTypeError ''event listener must be an object''))"

definition add_event_listener ::
    "dom_user \<Rightarrow> oid \<Rightarrow> string \<Rightarrow> argument \<Rightarrow> argument option \<Rightarrow> dom \<Rightarrow> unit fallible" where
  "add_event_listener U t event_type callback options st =
     js_then (flatten_more_options U options st) (\<lambda>st1 o'.
       case event_listener_argument callback of
         Inl e \<Rightarrow> Inr (st1, Inl e)
       | Inr None \<Rightarrow> Inr (st1, Inr ())
       | Inr (Some cb) \<Rightarrow>
           Inr (add_an_event_listener t event_type cb (lo_capture o') (lo_passive o') (lo_once o')
                  (lo_signal o') st1, Inr ()))"

definition remove_event_listener ::
    "dom_user \<Rightarrow> oid \<Rightarrow> string \<Rightarrow> argument \<Rightarrow> argument option \<Rightarrow> dom \<Rightarrow> unit fallible" where
  "remove_event_listener U t event_type callback options st =
     js_then (flatten_options U options st) (\<lambda>st1 capture.
       case event_listener_argument callback of
         Inl e \<Rightarrow> Inr (st1, Inl e)
       | Inr None \<Rightarrow> Inr (st1, Inr ())
       | Inr (Some cb) \<Rightarrow> Inr (remove_an_event_listener t event_type cb capture st1, Inr ()))"

definition has_listener_for :: "oid \<Rightarrow> string \<Rightarrow> dom \<Rightarrow> bool" where
  "has_listener_for t event_type st \<longleftrightarrow>
     list_ex (\<lambda>l. li_event_type l = event_type) (d_listeners st t)"

section \<open>Dispatch\<close>

datatype script_stack_state = StackEmpty | StackNonEmpty

definition clean_up_after_running_script ::
    "dom_user \<Rightarrow> script_stack_state \<Rightarrow> dom \<Rightarrow> (panic, dom) run" where
  "clean_up_after_running_script U stack st =
     (if stack = StackEmpty then and_then (U Microtasks st) (\<lambda>(st1, _). Inr st1) else Inr st)"

text \<open>A callable listener is called on the target, another object by its \<open>handleEvent\<close>.\<close>

definition call_event_listener ::
    "dom_user \<Rightarrow> oid \<Rightarrow> argument \<Rightarrow> eid \<Rightarrow> dom \<Rightarrow> unit fallible" where
  "call_event_listener U t listener e st =
     (if is_callable listener
      then js_then (U (CallListener listener (ArgTarget t) e) st) (\<lambda>st1 _. Inr (st1, Inr ()))
      else
        js_then (U (GetProperty listener ''handleEvent'') st) (\<lambda>st1 handle_event.
          if \<not> is_callable handle_event
          then Inr (st1, Inl (JTypeError ''event listener's handleEvent is not callable''))
          else js_then (U (CallListener handle_event listener e) st1) (\<lambda>st2 _. Inr (st2, Inr ()))))"

record listener_snapshot =
  sn_id :: nat
  sn_passive :: "bool option"
  sn_once :: bool

definition snapshot_of :: "event_listener \<Rightarrow> listener_snapshot" where
  "snapshot_of l = \<lparr>sn_id = li_id l, sn_passive = li_passive l, sn_once = li_once l\<rparr>"

text \<open>
  The loop of \<open>invoke_listeners\<close>. The listener is looked up again by its id; the result is also
  the list of the ids that were called. An exception of the listener is reported and cleared.
\<close>

fun invoke_loop ::
    "dom_user \<Rightarrow> script_stack_state \<Rightarrow> eid \<Rightarrow> oid \<Rightarrow> listener_snapshot list \<Rightarrow> dom \<Rightarrow>
       (panic, dom \<times> nat list) run" where
  "invoke_loop U stack e t [] st = Inr (st, [])"
| "invoke_loop U stack e t (snap # snaps) st =
     (case List.extract (\<lambda>l. li_id l = sn_id snap) (d_listeners st t) of
        None \<Rightarrow> invoke_loop U stack e t snaps st
      | Some (before, l, after) \<Rightarrow>
          (let st1 = (if sn_once snap then on_listeners t (\<lambda>_. before @ after) st else st)
           in and_then
                (if sn_passive snap = Some True then set_in_passive_listener e True st1 else Inr st1)
                (\<lambda>st2. and_then (call_event_listener U t (li_callback l) e st2)
                (\<lambda>(st3, _). and_then (clean_up_after_running_script U stack st3)
                (\<lambda>st4. and_then (set_in_passive_listener e False st4)
                (\<lambda>st5. if is_immediate_propagation_stopped e st5 then Inr (st5, [sn_id snap])
                       else and_then (invoke_loop U stack e t snaps st5)
                              (\<lambda>(st6, called). Inr (st6, sn_id snap # called))))))))"

definition snapshots :: "string \<Rightarrow> event_listener list \<Rightarrow> listener_snapshot list" where
  "snapshots event_type ls = map snapshot_of (filter (\<lambda>l. li_event_type l = event_type) ls)"

definition invoke_listeners ::
    "dom_user \<Rightarrow> eid \<Rightarrow> oid \<Rightarrow> script_stack_state \<Rightarrow> dom \<Rightarrow> (panic, dom \<times> nat list) run" where
  "invoke_listeners U e t stack st =
     (if is_propagation_stopped e st then Inr (st, [])
      else invoke_loop U stack e t (snapshots (ev_type (d_events st e)) (d_listeners st t)) st)"

text \<open>The result is whether the event was not canceled.\<close>

definition dispatch ::
    "dom_user \<Rightarrow> eid \<Rightarrow> oid \<Rightarrow> script_stack_state \<Rightarrow> dom \<Rightarrow> (panic, dom \<times> bool) run" where
  "dispatch U e t stack st =
     and_then (start_dispatching e st) (\<lambda>st1.
     and_then (invoke_listeners U e t stack (on_event e (\<lambda>ev. ev\<lparr>ev_target := Some t\<rparr>) st1))
       (\<lambda>(st2, _).
         let st3 = stop_dispatching e st2 in Inr (st3, \<not> is_canceled e st3)))"

definition fire_an_event ::
    "dom_user \<Rightarrow> string \<Rightarrow> oid \<Rightarrow> script_stack_state \<Rightarrow> dom \<Rightarrow> (panic, dom \<times> bool) run" where
  "fire_an_event U name t stack st =
     (let (st1, e) = allocate_event (new_trusted ClassEvent name None) st
      in dispatch U e t stack st1)"

definition dispatch_event :: "dom_user \<Rightarrow> oid \<Rightarrow> eid \<Rightarrow> dom \<Rightarrow> bool fallible" where
  "dispatch_event U t e st =
     (if is_dispatching e st \<or> \<not> is_initialized e st
      then Inr (st, Inl (JDomException ''InvalidStateError''
             ''The event is already being dispatched or has not been initialized''))
      else and_then (dispatch U e t StackNonEmpty (on_flags e (\<lambda>fs. fs - {TRUSTED}) st))
             (\<lambda>(st1, r). Inr (st1, Inr r)))"

definition dispatch_trusted ::
    "dom_user \<Rightarrow> oid \<Rightarrow> eid \<Rightarrow> script_stack_state \<Rightarrow> dom \<Rightarrow> (panic, dom) run" where
  "dispatch_trusted U t e stack st =
     and_then (dispatch U e t stack st) (\<lambda>(st1, _). Inr st1)"

end
