(* ===== verification/Dom_Signals.thy ===== *)
theory Dom_Signals
  imports Dom_Events F64
begin

text \<open>
  The abort algorithms of \<open>crates/builtins/web-globals/src/signals/algorithms.rs\<close>, the methods of
  \<open>AbortSignal\<close> and \<open>AbortController\<close>. The links between sources and dependents are lists of
  objects, as in the code. Allocating an object does not fail.
\<close>

section \<open>Dependent signals\<close>

text \<open>The first signal that is aborted, as the loop of step 2 finds it.\<close>

fun first_aborted :: "oid list \<Rightarrow> dom \<Rightarrow> oid option" where
  "first_aborted [] st = None"
| "first_aborted (s # ss) st = (if aborted s st then Some s else first_aborted ss st)"

definition link_source :: "oid \<Rightarrow> oid \<Rightarrow> dom \<Rightarrow> dom" where
  "link_source r s st =
     on_signal s (\<lambda>sg. sg\<lparr>as_dependent_signals := as_dependent_signals sg @ [r]\<rparr>)
       (on_signal r (\<lambda>sg. sg\<lparr>as_source_signals := as_source_signals sg @ [s]\<rparr>) st)"

definition link_source_if_new :: "oid \<Rightarrow> oid \<Rightarrow> dom \<Rightarrow> dom" where
  "link_source_if_new r s st =
     (if s \<in> set (as_source_signals (d_signals st r)) then st else link_source r s st)"

definition link_signal :: "oid \<Rightarrow> oid \<Rightarrow> dom \<Rightarrow> dom" where
  "link_signal r s st =
     (if \<not> as_dependent (d_signals st s) then link_source r s st
      else fold (link_source_if_new r) (as_source_signals (d_signals st s)) st)"

definition create_dependent_abort_signal :: "oid list \<Rightarrow> dom \<Rightarrow> dom \<times> oid" where
  "create_dependent_abort_signal signals st =
     (let (st1, r) = new_abort_signal st
      in case first_aborted signals st1 of
           Some s \<Rightarrow>
             (on_signal r (\<lambda>sg. sg\<lparr>as_abort_reason := as_abort_reason (d_signals st1 s)\<rparr>) st1, r)
         | None \<Rightarrow>
             (fold (link_signal r) signals (on_signal r (\<lambda>sg. sg\<lparr>as_dependent := True\<rparr>) st1), r))"

section \<open>Signal abort\<close>

definition run_abort_algorithm ::
    "dom_user \<Rightarrow> script_stack_state \<Rightarrow> jsval \<Rightarrow> abort_algorithm \<Rightarrow> dom \<Rightarrow> (panic, dom) run" where
  "run_abort_algorithm U stack reason a st =
     (case a of
        RemoveListener t i \<Rightarrow> Inr (remove_an_event_listener_by_id t i st)
      | RunSteps callback \<Rightarrow>
          and_then (U (CallAbortAlgorithm callback reason) st)
            (\<lambda>(st1, _). clean_up_after_running_script U stack st1))"

definition run_the_abort_steps ::
    "dom_user \<Rightarrow> oid \<Rightarrow> script_stack_state \<Rightarrow> dom \<Rightarrow> (panic, dom) run" where
  "run_the_abort_steps U s stack st =
     (let pending = as_abort_algorithms (d_signals st s);
          st1 = on_signal s (\<lambda>sg. sg\<lparr>as_abort_algorithms := []\<rparr>) st;
          reason = as_abort_reason (d_signals st1 s)
      in and_then (run_cmds (run_abort_algorithm U stack reason) pending st1)
           (\<lambda>st2. and_then (fire_an_event U ''abort'' s stack st2) (\<lambda>(st3, _). Inr st3)))"

definition abort_steps_of ::
    "dom_user \<Rightarrow> script_stack_state \<Rightarrow> oid \<Rightarrow> dom \<Rightarrow> (panic, dom) run" where
  "abort_steps_of U stack s = run_the_abort_steps U s stack"

text \<open>
  Steps 3 and 4: the dependents that are not aborted take the reason and are collected, in order.
\<close>

fun abort_dependents :: "jsval \<Rightarrow> oid list \<Rightarrow> dom \<Rightarrow> dom \<times> oid list" where
  "abort_dependents reason [] st = (st, [])"
| "abort_dependents reason (d # ds) st =
     (if as_abort_reason (d_signals st d) = JUndefined
      then (let (st1, ds') = abort_dependents reason ds
                  (on_signal d (\<lambda>sg. sg\<lparr>as_abort_reason := reason\<rparr>) st)
            in (st1, d # ds'))
      else abort_dependents reason ds st)"

definition signal_abort ::
    "dom_user \<Rightarrow> oid \<Rightarrow> jsval \<Rightarrow> script_stack_state \<Rightarrow> dom \<Rightarrow> (panic, dom) run" where
  "signal_abort U s reason stack st =
     (if as_abort_reason (d_signals st s) \<noteq> JUndefined then Inr st
      else
        (let reason' = (if reason \<noteq> JUndefined then reason
                        else JAbortError ''signal is aborted without reason'');
             st1 = on_signal s (\<lambda>sg. sg\<lparr>as_abort_reason := reason'\<rparr>) st;
             (st2, dependents) = abort_dependents (as_abort_reason (d_signals st1 s))
                                   (as_dependent_signals (d_signals st1 s)) st1
         in and_then (run_the_abort_steps U s stack st2)
              (run_cmds (abort_steps_of U stack) dependents)))"

section \<open>Abort algorithms of other components\<close>

definition add_abort_algorithm :: "oid \<Rightarrow> nat \<Rightarrow> dom \<Rightarrow> dom" where
  "add_abort_algorithm s callback st =
     (if aborted s st then st
      else on_signal s (\<lambda>sg. sg\<lparr>as_abort_algorithms :=
             as_abort_algorithms sg @ [RunSteps callback]\<rparr>) st)"

definition remove_abort_algorithm :: "oid \<Rightarrow> nat \<Rightarrow> dom \<Rightarrow> dom" where
  "remove_abort_algorithm s callback =
     on_signal s (\<lambda>sg. sg\<lparr>as_abort_algorithms :=
       filter (\<lambda>a. a \<noteq> RunSteps callback) (as_abort_algorithms sg)\<rparr>)"

text \<open>
  The recursion follows the dependent links. It ends only if they have no cycle: \<open>None\<close> is a
  call that does not return.
\<close>

fun sum_some :: "nat option list \<Rightarrow> nat option" where
  "sum_some [] = Some 0"
| "sum_some (None # xs) = None"
| "sum_some (Some n # xs) = map_option ((+) n) (sum_some xs)"

fun abort_algorithm_count_fuel :: "nat \<Rightarrow> dom \<Rightarrow> oid \<Rightarrow> nat option" where
  "abort_algorithm_count_fuel 0 st s = None"
| "abort_algorithm_count_fuel (Suc n) st s =
     (let dependents = as_dependent_signals (d_signals st s);
          own = length (as_abort_algorithms (d_signals st s))
      in map_option ((+) own) (sum_some (map (abort_algorithm_count_fuel n st) dependents)))"

section \<open>The methods of \<open>AbortSignal\<close> and \<open>AbortController\<close>\<close>

definition throw_if_aborted :: "oid \<Rightarrow> dom \<Rightarrow> unit result" where
  "throw_if_aborted s st =
     (if as_abort_reason (d_signals st s) \<noteq> JUndefined
      then Inl (as_abort_reason (d_signals st s)) else Inr ())"

definition set_onabort :: "oid \<Rightarrow> argument \<Rightarrow> dom \<Rightarrow> dom" where
  "set_onabort s val st =
     (let st1 = (case as_onabort_handler (d_signals st s) of
                   Some func \<Rightarrow> remove_an_event_listener s ''abort'' func False st
                 | None \<Rightarrow> st)
      in if is_callable val
         then on_signal s (\<lambda>sg. sg\<lparr>as_onabort_handler := Some val\<rparr>)
                (add_an_event_listener s ''abort'' val False None False None st1)
         else on_signal s (\<lambda>sg. sg\<lparr>as_onabort_handler := None\<rparr>) st1)"

definition abort_static :: "jsval option \<Rightarrow> dom \<Rightarrow> dom \<times> oid" where
  "abort_static reason st =
     (let (st1, s) = new_abort_signal st
      in (on_signal s (\<lambda>sg. sg\<lparr>as_abort_reason :=
            (case reason of Some r \<Rightarrow> r
             | None \<Rightarrow> JAbortError ''signal is aborted without reason'')\<rparr>) st1, s))"

text \<open>
  The task that signals abort on a timeout, and its scheduling. \<open>milliseconds.max(0.0) as u64\<close>
  truncates, maps NaN to zero and saturates. Without an active loop the timeout never fires.
\<close>

fun f64_as_u64 :: "f64 \<Rightarrow> nat" where
  "f64_as_u64 NaN = 0"
| "f64_as_u64 NInf = 0"
| "f64_as_u64 PInf = u64_max"
| "f64_as_u64 (Fin m e) =
     min u64_max (nat (if e \<ge> 0 then m * 2 ^ nat e else m div 2 ^ nat (- e)))"

definition abort_timeout_task :: "oid \<Rightarrow> task" where
  "abort_timeout_task s = Native ''abort-timeout'' s"

definition schedule_abort_timeout :: "oid \<Rightarrow> f64 \<Rightarrow> dom \<Rightarrow> dom" where
  "schedule_abort_timeout s milliseconds st =
     (case d_active st of
        None \<Rightarrow> st
      | Some l \<Rightarrow>
          st\<lparr>d_loops := (d_loops st)(l :=
            fst (queue_timer (d_origin st) (abort_timeout_task s)
                   (instant_add (d_clock st) (millis (f64_as_u64 milliseconds))) (d_loops st l)))\<rparr>)"

definition run_abort_timeout :: "dom_user \<Rightarrow> oid \<Rightarrow> dom \<Rightarrow> (panic, dom) run" where
  "run_abort_timeout U s st =
     signal_abort U s (JDomException ''TimeoutError'' ''signal timed out'') StackEmpty st"

definition abort_timeout :: "f64 \<Rightarrow> dom \<Rightarrow> dom \<times> oid" where
  "abort_timeout milliseconds st =
     (let (st1, s) = new_abort_signal st in (schedule_abort_timeout s milliseconds st1, s))"

definition abort_any :: "oid list \<Rightarrow> dom \<Rightarrow> dom \<times> oid" where
  "abort_any signals st = create_dependent_abort_signal signals st"

definition abort_controller_new :: "dom \<Rightarrow> dom \<times> nat" where
  "abort_controller_new st =
     (let (st1, s) = new_abort_signal st
      in (st1\<lparr>d_controllers := d_controllers st1 @ [s]\<rparr>, length (d_controllers st1)))"

definition controller_abort ::
    "dom_user \<Rightarrow> nat \<Rightarrow> jsval \<Rightarrow> script_stack_state \<Rightarrow> dom \<Rightarrow> (panic, dom) run" where
  "controller_abort U c reason stack st = signal_abort U (d_controllers st ! c) reason stack st"

end
