(* ===== verification/Dom_Extend.thy ===== *)
theory Dom_Extend
  imports Dom_Signals
begin

text \<open>
  \<open>ExtendableEvent\<close> and \<open>FetchEvent\<close>, \<open>crates/builtins/fetch-event/src/\<close>: the lifetime promises
  that keep the event active and hold interest in the loop that was active, and \<open>respondWith\<close>.
  A response is an identity; whether its body is unusable and its headers come from
  \<open>web_fetch\<close> and are part of the input of the reaction. Attaching a reaction does not fail.
\<close>

section \<open>Interest handles\<close>

text \<open>\<open>with_active_event_loop(|el| el.acquire_interest_handle())\<close>: \<open>None\<close> without a loop.\<close>

definition acquire_interest_handle ::
    "dom \<Rightarrow> (panic, dom \<times> (loop_id \<times> handle) option) run" where
  "acquire_interest_handle st =
     (case d_active st of
        None \<Rightarrow> Inr (st, None)
      | Some l \<Rightarrow>
          and_then (or_expect InterestOverflow
                     (acquire_handle (d_origin st) (el_interest (d_loops st l))))
            (\<lambda>(st', h). Inr (st\<lparr>d_loops := (d_loops st)(l := (d_loops st l)\<lparr>el_interest := st'\<rparr>)\<rparr>,
                             Some (l, h))))"

definition drop_interest_handle :: "loop_id \<times> handle \<Rightarrow> dom \<Rightarrow> (panic, dom) run" where
  "drop_interest_handle lh st =
     (let (l, h) = lh
      in and_then (or_expect InterestUnderflow (drop_handle h (el_interest (d_loops st l))))
           (\<lambda>st'. Inr (st\<lparr>d_loops := (d_loops st)(l := notify ((d_loops st l)\<lparr>el_interest := st'\<rparr>))\<rparr>)))"

definition drop_optional_handle :: "(loop_id \<times> handle) option \<Rightarrow> dom \<Rightarrow> (panic, dom) run" where
  "drop_optional_handle h st = (case h of Some lh \<Rightarrow> drop_interest_handle lh st | None \<Rightarrow> Inr st)"

section \<open>Extendable events\<close>

definition extendable_event_new :: "string \<Rightarrow> event_init option \<Rightarrow> event" where
  "extendable_event_new event_type event_init =
     new_untrusted ClassExtendableEvent event_type
       (Some (case event_init of
                Some i \<Rightarrow> i
              | None \<Rightarrow> \<lparr>ei_bubbles = False, ei_cancelable = False, ei_composed = False\<rparr>))"

definition is_active :: "eid \<Rightarrow> dom \<Rightarrow> bool" where
  "is_active e st \<longleftrightarrow> d_pending_promises_count st e > 0 \<or> is_dispatching e st"

definition check_can_extend_lifetime :: "eid \<Rightarrow> string \<Rightarrow> dom \<Rightarrow> unit result" where
  "check_can_extend_lifetime e caller st =
     (if \<not> is_trusted e st
      then Inl (JDomException ''InvalidStateError''
             (caller @ '' can only be called on a trusted event, not on one constructed and '' @
              ''dispatched by script''))
      else if \<not> is_active e st
      then Inl (JDomException ''InvalidStateError''
             (caller @ '' must be called while the event is active: during its dispatch, or '' @
              ''while an earlier lifetime promise is still pending''))
      else Inr ())"

definition usize_max :: nat where
  "usize_max = 2 ^ 32 - 1"

text \<open>The counter as on wasm32; a debug build asserts that it does not wrap around.\<close>

definition note_lifetime_promise_pending :: "eid \<Rightarrow> dom \<Rightarrow> (panic, dom) run" where
  "note_lifetime_promise_pending e st =
     and_then (debug_assert PendingCountOverflow (d_pending_promises_count st e < usize_max) st)
       (\<lambda>_. Inr (st\<lparr>d_pending_promises_count := (d_pending_promises_count st)(e :=
                    (d_pending_promises_count st e + 1) mod (usize_max + 1))\<rparr>))"

definition note_lifetime_promise_settled :: "eid \<Rightarrow> dom \<Rightarrow> (panic, dom) run" where
  "note_lifetime_promise_settled e st =
     and_then (debug_assert PendingCountUnderflow (d_pending_promises_count st e > 0) st)
       (\<lambda>_. Inr (st\<lparr>d_pending_promises_count := (d_pending_promises_count st)(e :=
                    (d_pending_promises_count st e + usize_max) mod (usize_max + 1))\<rparr>))"

definition no_event_loop_error :: "string \<Rightarrow> dom \<Rightarrow> jsval" where
  "no_event_loop_error what st =
     JTypeError (case d_no_loop_reason st of
                   Some reason \<Rightarrow> what @ '' needs an active event loop, and '' @ reason
                 | None \<Rightarrow> what @ '' needs an active event loop'')"

definition add_lifetime_promise :: "eid \<Rightarrow> string \<Rightarrow> dom \<Rightarrow> unit fallible" where
  "add_lifetime_promise e caller st =
     (case check_can_extend_lifetime e caller st of
        Inl err \<Rightarrow> Inr (st, Inl err)
      | Inr _ \<Rightarrow>
          and_then (acquire_interest_handle st) (\<lambda>(st1, h).
            case h of
              None \<Rightarrow> Inr (st1, Inl (no_event_loop_error (''`'' @ caller @ ''`'') st1))
            | Some handle \<Rightarrow>
                (let st2 = st1\<lparr>d_reactions := d_reactions st1 @ [LifetimePromise handle e]\<rparr>
                 in and_then (note_lifetime_promise_pending e st2) (\<lambda>st3. Inr (st3, Inr ())))))"

definition wait_until :: "eid \<Rightarrow> dom \<Rightarrow> unit fallible" where
  "wait_until e st = add_lifetime_promise e ''waitUntil'' st"

definition lifetime_promise_settled_cb :: "loop_id \<times> handle \<Rightarrow> eid \<Rightarrow> dom \<Rightarrow> (panic, dom) run" where
  "lifetime_promise_settled_cb handle e st =
     and_then (note_lifetime_promise_settled e st) (drop_interest_handle handle)"

section \<open>Fetch events\<close>

definition fetch_event_default :: "nat \<Rightarrow> string \<Rightarrow> pid \<Rightarrow> fetch_event" where
  "fetch_event_default request client_id handled =
     \<lparr>fe_potential_response = None, fe_potential_response_headers = None, fe_request = request,
      fe_client_id = client_id, fe_handled = handled, fe_respond_interest = None,
      fe_respond_with_entered = False, fe_wait_to_respond = False, fe_respond_with_error = False\<rparr>"

definition allocate_fetch_event :: "event \<Rightarrow> nat \<Rightarrow> string \<Rightarrow> dom \<Rightarrow> dom \<times> eid" where
  "allocate_fetch_event ev request client_id st =
     (let (ps, handled) = new_pending (d_promises st);
          (st1, e) = allocate_event (ev\<lparr>ev_class := ClassFetchEvent\<rparr>) (st\<lparr>d_promises := ps\<rparr>)
      in (on_fetch e (\<lambda>_. fetch_event_default request client_id handled) st1, e))"

definition fetch_event_js_ctor :: "string \<Rightarrow> event_init \<Rightarrow> nat \<Rightarrow> string \<Rightarrow> dom \<Rightarrow> dom \<times> eid" where
  "fetch_event_js_ctor event_type init request client_id =
     allocate_fetch_event (extendable_event_new event_type (Some init)) request client_id"

definition create_for_request :: "nat \<Rightarrow> dom \<Rightarrow> dom \<times> eid" where
  "create_for_request request =
     allocate_fetch_event
       (trusted (extendable_event_new ''fetch''
          (Some \<lparr>ei_bubbles = False, ei_cancelable = True, ei_composed = False\<rparr>))) request []"

definition fetch_has_listener :: "dom \<Rightarrow> bool" where
  "fetch_has_listener st = has_listener_for (d_global st) ''fetch'' st"

definition fetch_dispatch ::
    "dom_user \<Rightarrow> nat \<Rightarrow> script_stack_state \<Rightarrow> dom \<Rightarrow> (panic, dom \<times> eid) run" where
  "fetch_dispatch U request stack st =
     (let (st1, e) = create_for_request request st
      in and_then (dispatch_trusted U (d_global st1) e stack st1) (\<lambda>st2. Inr (st2, e)))"

definition respond_with :: "eid \<Rightarrow> dom \<Rightarrow> unit fallible" where
  "respond_with e st =
     (if \<not> is_dispatching e st
      then Inr (st, Inl (JDomException ''InvalidStateError''
             ''respondWith must be called during fetch event dispatch''))
      else if fe_respond_with_entered (d_fetch st e)
      then Inr (st, Inl (JDomException ''InvalidStateError''
             ''respondWith has already been called on this FetchEvent''))
      else
        (case check_can_extend_lifetime e ''respondWith'' st of
           Inl err \<Rightarrow> Inr (st, Inl err)
         | Inr _ \<Rightarrow>
             (let st1 = st\<lparr>d_reactions := d_reactions st @ [RespondPromise e]\<rparr>
              in and_then (acquire_interest_handle st1) (\<lambda>(st2, h).
                 and_then (or_expect NoEventLoop h) (\<lambda>handle.
                 and_then (note_lifetime_promise_pending e
                    (on_fetch e (\<lambda>f. f\<lparr>fe_respond_interest := Some handle\<rparr>) st2)) (\<lambda>st3.
                   let st4 = stop_immediate_propagation e st3
                   in Inr (on_fetch e (\<lambda>f. f\<lparr>fe_respond_with_entered := True,
                                             fe_wait_to_respond := True\<rparr>) st4, Inr ())))))))"

definition take_respond_interest :: "eid \<Rightarrow> dom \<Rightarrow> (panic, dom) run" where
  "take_respond_interest e st =
     drop_optional_handle (fe_respond_interest (d_fetch st e))
       (on_fetch e (\<lambda>f. f\<lparr>fe_respond_interest := None\<rparr>) st)"

definition on_respond_fulfilled ::
    "eid \<Rightarrow> nat \<Rightarrow> bool \<Rightarrow> (string \<times> string) list \<Rightarrow> dom \<Rightarrow> (panic, dom) run" where
  "on_respond_fulfilled e response unusable headers_list st =
     (let st1 = (if unusable then on_fetch e (\<lambda>f. f\<lparr>fe_respond_with_error := True\<rparr>) st
                 else on_fetch e (\<lambda>f. f\<lparr>fe_potential_response_headers := Some headers_list,
                                        fe_potential_response := Some response\<rparr>) st);
          st2 = on_fetch e (\<lambda>f. f\<lparr>fe_wait_to_respond := False\<rparr>) st1
      in and_then (take_respond_interest e st2) (note_lifetime_promise_settled e))"

definition on_respond_rejected :: "eid \<Rightarrow> dom \<Rightarrow> (panic, dom) run" where
  "on_respond_rejected e st =
     (let st1 = on_fetch e (\<lambda>f. f\<lparr>fe_respond_with_error := True, fe_wait_to_respond := False\<rparr>) st
      in and_then (take_respond_interest e st1) (note_lifetime_promise_settled e))"

text \<open>A rejection is marked handled, so that it is not reported.\<close>

definition settle_handled :: "eid \<Rightarrow> bool \<Rightarrow> dom \<Rightarrow> dom" where
  "settle_handled e responded st =
     (let handled = fe_handled (d_fetch st e)
      in if pr_state (d_promises st) handled \<noteq> Pending then st
         else if responded
         then st\<lparr>d_promises := resolve_promise handled JUndefined (d_promises st)\<rparr>
         else
           (let reason = (if fe_respond_with_error (d_fetch st e)
                          then ''the promise passed to respondWith did not produce a Response''
                          else ''the fetch event was not responded to'');
                ps = reject_promise handled (JDomException ''NetworkError'' reason) (d_promises st)
            in case set_settled_is_handled handled ps of
                 Some ps' \<Rightarrow> st\<lparr>d_promises := ps'\<rparr>
               | None \<Rightarrow> st\<lparr>d_promises := ps\<rparr>))"

definition take_potential_response_headers ::
    "eid \<Rightarrow> dom \<Rightarrow> dom \<times> (string \<times> string) list option" where
  "take_potential_response_headers e st =
     (on_fetch e (\<lambda>f. f\<lparr>fe_potential_response_headers := None\<rparr>) st,
      fe_potential_response_headers (d_fetch st e))"

definition abandon_respond :: "eid \<Rightarrow> dom \<Rightarrow> (panic, dom) run" where
  "abandon_respond e st = take_respond_interest e st"

end
