(* ===== verification/Dom_Api.thy ===== *)
theory Dom_Api
  imports Dom_Extend
begin

text \<open>
  The interface of the events, signals and extendable events: one command for each method
  JavaScript may call, for each entry of other native code, and for the reaction jobs of the
  engine. JavaScript that runs inside an operation acts through the same commands, to the depth
  of nesting that is left on the stack.
\<close>

section \<open>Reaction jobs\<close>

text \<open>
  How the promise of a reaction settled. For \<open>respondWith\<close>, a fulfilment comes with the response,
  whether its body is unusable, and its headers; every other outcome counts as a rejection.
\<close>

datatype outcome = FulfilledWith nat bool "(string \<times> string) list" | RejectedWith

definition run_reaction_job :: "nat \<Rightarrow> outcome \<Rightarrow> dom \<Rightarrow> (panic, dom) run" where
  "run_reaction_job n outcome st =
     (if n < length (d_reactions st)
      then (let st1 = st\<lparr>d_reactions := take n (d_reactions st) @ drop (Suc n) (d_reactions st)\<rparr>
            in case d_reactions st ! n of
                 LifetimePromise h e \<Rightarrow> lifetime_promise_settled_cb h e st1
               | UnreachablePromise e \<Rightarrow> Inr st
               | RespondPromise e \<Rightarrow>
                   (case outcome of
                      FulfilledWith r unusable hs \<Rightarrow> on_respond_fulfilled e r unusable hs st1
                    | RejectedWith \<Rightarrow> on_respond_rejected e st1))
      else Inr st)"

text \<open>The payload of a lifetime promise is collected: its handle is dropped, it never runs.\<close>

definition collect_reaction :: "nat \<Rightarrow> dom \<Rightarrow> (panic, dom) run" where
  "collect_reaction n st =
     (if n < length (d_reactions st)
      then (case d_reactions st ! n of
              LifetimePromise h e \<Rightarrow>
                drop_interest_handle h
                  (st\<lparr>d_reactions := (d_reactions st)[n := UnreachablePromise e]\<rparr>)
            | _ \<Rightarrow> Inr st)
      else Inr st)"

section \<open>Commands\<close>

datatype dom_cmd =
    NewEvent string "event_init option"
  | NewCustomEvent string "(event_init \<times> jsval option) option"
  | NewExtendableEvent string "event_init option"
  | NewFetchEvent string event_init nat string
  | StopPropagation eid
  | SetCancelBubble eid bool
  | StopImmediatePropagation eid
  | PreventDefault eid
  | SetReturnValue eid bool
  | InitEvent eid string "bool option" "bool option"
  | InitCustomEvent eid string "bool option" "bool option" "jsval option"
  | NewEventTarget
  | AddEventListener oid string argument "argument option"
  | RemoveEventListener oid string argument "argument option"
  | DispatchEvent oid eid
  | NewAbortController
  | ControllerAbort nat jsval script_stack_state
  | AbortStatic "jsval option"
  | AbortTimeout f64
  | AbortAny "oid list"
  | SetOnabort oid argument
  | AddAbortAlgorithm oid nat
  | RemoveAbortAlgorithm oid nat
  | TimeoutFires oid
  | WaitUntil eid
  | RespondWith eid
  | FetchDispatch nat script_stack_state
  | SettleHandled eid bool
  | TakeResponseHeaders eid
  | AbandonRespond eid
  | RunReactionJob nat outcome
  | CollectReaction nat
  | ClockTick nat

text \<open>
  The receiver and the arguments of a method are converted first: what is not an object of the
  class is refused with a \<open>TypeError\<close> before any state changes.
\<close>

definition event_exists :: "eid \<Rightarrow> dom \<Rightarrow> bool" where
  "event_exists e st \<longleftrightarrow> e < d_next_event st"

definition has_class :: "eid \<Rightarrow> event_class list \<Rightarrow> dom \<Rightarrow> bool" where
  "has_class e cs st \<longleftrightarrow> e < d_next_event st \<and> ev_class (d_events st e) \<in> set cs"

definition is_target :: "oid \<Rightarrow> dom \<Rightarrow> bool" where
  "is_target t st \<longleftrightarrow> t < d_next_object st"

definition is_abort_signal :: "oid \<Rightarrow> dom \<Rightarrow> bool" where
  "is_abort_signal s st \<longleftrightarrow> s < d_next_object st \<and> d_is_signal st s"

definition guarded :: "bool \<Rightarrow> (panic, dom) run \<Rightarrow> dom \<Rightarrow> (panic, dom) run" where
  "guarded b m st = (if b then m else Inr st)"

definition state_of :: "(panic, dom \<times> 'a) run \<Rightarrow> (panic, dom) run" where
  "state_of m = and_then m (\<lambda>(st, _). Inr st)"

text \<open>An optional argument that is undefined is a missing one.\<close>

definition optional_any :: "jsval option \<Rightarrow> jsval option" where
  "optional_any v = (if v = Some JUndefined then None else v)"

definition optional_argument :: "argument option \<Rightarrow> argument option" where
  "optional_argument v = (if v = Some ArgUndefined then None else v)"

fun dom_exec :: "dom_user \<Rightarrow> dom_cmd \<Rightarrow> dom \<Rightarrow> (panic, dom) run" where
  "dom_exec U (NewEvent ty init) st = Inr (fst (allocate_event (new_untrusted ClassEvent ty init) st))"
| "dom_exec U (NewCustomEvent ty init) st = Inr (fst (custom_event_new ty init st))"
| "dom_exec U (NewExtendableEvent ty init) st =
     Inr (fst (allocate_event (extendable_event_new ty init) st))"
| "dom_exec U (NewFetchEvent ty init req cid) st = Inr (fst (fetch_event_js_ctor ty init req cid st))"
| "dom_exec U (StopPropagation e) st = guarded (event_exists e st) (Inr (stop_propagation e st)) st"
| "dom_exec U (SetCancelBubble e v) st = guarded (event_exists e st) (Inr (set_cancel_bubble e v st)) st"
| "dom_exec U (StopImmediatePropagation e) st =
     guarded (event_exists e st) (Inr (stop_immediate_propagation e st)) st"
| "dom_exec U (PreventDefault e) st = guarded (event_exists e st) (Inr (prevent_default e st)) st"
| "dom_exec U (SetReturnValue e v) st = guarded (event_exists e st) (Inr (set_return_value e v st)) st"
| "dom_exec U (InitEvent e ty b c) st = guarded (event_exists e st) (Inr (init_event e ty b c st)) st"
| "dom_exec U (InitCustomEvent e ty b c d) st =
     guarded (has_class e [ClassCustomEvent] st)
       (Inr (init_custom_event e ty b c (optional_any d) st)) st"
| "dom_exec U NewEventTarget st = Inr (fst (event_target_new st))"
| "dom_exec U (AddEventListener t ty cb opts) st =
     guarded (is_target t st) (state_of (add_event_listener U t ty cb (optional_argument opts) st)) st"
| "dom_exec U (RemoveEventListener t ty cb opts) st =
     guarded (is_target t st) (state_of (remove_event_listener U t ty cb (optional_argument opts) st)) st"
| "dom_exec U (DispatchEvent t e) st =
     guarded (is_target t st \<and> event_exists e st) (state_of (dispatch_event U t e st)) st"
| "dom_exec U NewAbortController st = Inr (fst (abort_controller_new st))"
| "dom_exec U (ControllerAbort c reason stack) st =
     guarded (c < length (d_controllers st)) (controller_abort U c reason stack st) st"
| "dom_exec U (AbortStatic reason) st = Inr (fst (abort_static (optional_any reason) st))"
| "dom_exec U (AbortTimeout ms) st = Inr (fst (abort_timeout ms st))"
| "dom_exec U (AbortAny ss) st =
     guarded (list_all (\<lambda>s. is_abort_signal s st) ss) (Inr (fst (abort_any ss st))) st"
| "dom_exec U (SetOnabort s v) st = guarded (is_abort_signal s st) (Inr (set_onabort s v st)) st"
| "dom_exec U (AddAbortAlgorithm s cb) st =
     guarded (is_abort_signal s st) (Inr (add_abort_algorithm s cb st)) st"
| "dom_exec U (RemoveAbortAlgorithm s cb) st =
     guarded (is_abort_signal s st) (Inr (remove_abort_algorithm s cb st)) st"
| "dom_exec U (TimeoutFires s) st =
     guarded (is_abort_signal s st \<and> \<not> as_dependent (d_signals st s)) (run_abort_timeout U s st) st"
| "dom_exec U (WaitUntil e) st =
     guarded (has_class e [ClassExtendableEvent, ClassFetchEvent] st) (state_of (wait_until e st)) st"
| "dom_exec U (RespondWith e) st =
     guarded (has_class e [ClassFetchEvent] st) (state_of (respond_with e st)) st"
| "dom_exec U (FetchDispatch req stack) st = state_of (fetch_dispatch U req stack st)"
| "dom_exec U (SettleHandled e r) st =
     guarded (has_class e [ClassFetchEvent] st) (Inr (settle_handled e r st)) st"
| "dom_exec U (TakeResponseHeaders e) st =
     guarded (has_class e [ClassFetchEvent] st) (Inr (fst (take_potential_response_headers e st))) st"
| "dom_exec U (AbandonRespond e) st =
     guarded (has_class e [ClassFetchEvent] st) (abandon_respond e st) st"
| "dom_exec U (RunReactionJob n out) st = run_reaction_job n out st"
| "dom_exec U (CollectReaction n) st = collect_reaction n st"
| "dom_exec U (ClockTick n) st = Inr (st\<lparr>d_clock := d_clock st + n\<rparr>)"

text \<open>
  What a call into JavaScript does at each depth that is left: the commands it issues and how it
  ends. With no depth left it throws.
\<close>

type_synonym dom_script = "nat \<Rightarrow> dom_call \<Rightarrow> dom \<Rightarrow> dom_cmd list \<times> argument result"

fun dom_js :: "dom_script \<Rightarrow> nat \<Rightarrow> dom_user" where
  "dom_js scr 0 call st = Inr (st, Inl (JRangeError ''too much recursion''))"
| "dom_js scr (Suc n) call st =
     (let (cmds, r) = scr n call st
      in and_then (run_cmds (dom_exec (dom_js scr n)) cmds st) (\<lambda>st'. Inr (st', r)))"

text \<open>A session: a realm whose global is the first event target, and a list of commands.\<close>

definition dom_start :: "bool \<Rightarrow> loop_id option \<Rightarrow> string option \<Rightarrow> dom" where
  "dom_start debug active og =
     \<lparr>d_debug = debug,
      d_events = (\<lambda>_. \<lparr>ev_class = ClassEvent, ev_type = [], ev_target = None, ev_flags = {}\<rparr>),
      d_next_event = 0, d_detail = (\<lambda>_. JUndefined), d_pending_promises_count = (\<lambda>_. 0),
      d_fetch = (\<lambda>_. fetch_event_default 0 [] 0), d_listeners = (\<lambda>_. []),
      d_is_signal = (\<lambda>_. False), d_signals = (\<lambda>_. abort_signal_new), d_next_object = 1,
      d_next_listener_id = 0, d_controllers = [], d_global = 0, d_reactions = [],
      d_promises = no_promises, d_active = active, d_no_loop_reason = None, d_origin = og,
      d_loops = (\<lambda>_. event_loop_new), d_clock = 0\<rparr>"

definition dom_run :: "dom_script \<Rightarrow> nat \<Rightarrow> dom_cmd list \<Rightarrow> dom \<Rightarrow> (panic, dom) run" where
  "dom_run scr n cmds st = run_cmds (dom_exec (dom_js scr n)) cmds st"

definition dom_session ::
    "bool \<Rightarrow> loop_id option \<Rightarrow> string option \<Rightarrow> dom_script \<Rightarrow> nat \<Rightarrow> dom_cmd list \<Rightarrow>
       (panic, dom) run" where
  "dom_session debug active og scr n cmds = dom_run scr n cmds (dom_start debug active og)"

text \<open>The definitions, for evaluating a concrete session by simplification.\<close>

lemmas dom_eval =
  dom_session_def dom_run_def dom_start_def guarded_def state_of_def set_flag_def
  is_null_or_undefined_def abort_signal_new_def debug_assert_def on_event_def on_fetch_def
  on_listeners_def on_signal_def new_object_def event_target_new_def new_abort_signal_def
  new_untrusted_def trusted_def new_trusted_def allocate_event_def is_dispatching_def
  is_initialized_def is_propagation_stopped_def is_immediate_propagation_stopped_def
  is_canceled_def is_trusted_def stop_propagation_def set_cancel_bubble_def
  stop_immediate_propagation_def event_cancel_def prevent_default_def set_return_value_def
  initialize_def init_event_def init_custom_event_def custom_event_new_def start_dispatching_def
  stop_dispatching_def set_in_passive_listener_def options_dictionary_def read_bool_option_def
  flatten_options_def read_signal_option_def flatten_more_options_def next_listener_id_def
  aborted_def add_listener_removal_algorithm_def same_listener_def add_an_event_listener_def
  remove_an_event_listener_def remove_an_event_listener_by_id_def event_listener_argument_def
  add_event_listener_def remove_event_listener_def has_listener_for_def
  clean_up_after_running_script_def call_event_listener_def snapshot_of_def snapshots_def
  invoke_listeners_def dispatch_def fire_an_event_def dispatch_event_def dispatch_trusted_def
  link_source_def link_source_if_new_def link_signal_def create_dependent_abort_signal_def
  run_abort_algorithm_def run_the_abort_steps_def abort_steps_of_def signal_abort_def
  add_abort_algorithm_def remove_abort_algorithm_def set_onabort_def abort_static_def
  abort_any_def abort_controller_new_def controller_abort_def acquire_interest_handle_def
  drop_interest_handle_def drop_optional_handle_def extendable_event_new_def is_active_def
  check_can_extend_lifetime_def note_lifetime_promise_pending_def
  note_lifetime_promise_settled_def usize_max_def add_lifetime_promise_def wait_until_def
  lifetime_promise_settled_cb_def fetch_event_default_def allocate_fetch_event_def
  fetch_event_js_ctor_def create_for_request_def fetch_dispatch_def respond_with_def
  take_respond_interest_def on_respond_fulfilled_def on_respond_rejected_def abandon_respond_def
  run_reaction_job_def collect_reaction_def event_exists_def has_class_def is_target_def
  is_abort_signal_def optional_any_def optional_argument_def or_panic_def or_expect_def
  acquire_handle_def drop_handle_def u32_max_def event_loop_new_def interest_new_def require_def
  List.extract_def

end
