(* ===== verification/Dom_Inv.thy ===== *)
theory Dom_Inv
  imports Dom_Api
begin

text \<open>
  The invariant of the events, signals and extendable events, and the frame that every operation,
  with the JavaScript it runs, respects. \<open>F\<close> lists the signals whose abort steps an operation
  that is still running has promised to run.
\<close>

section \<open>The invariant\<close>

definition flags_ok :: "event_flag set \<Rightarrow> bool" where
  "flags_ok fs \<longleftrightarrow>
     INITIALIZED \<in> fs \<and> (IN_PASSIVE_LISTENER \<in> fs \<longrightarrow> DISPATCH \<in> fs) \<and>
     (STOP_IMMEDIATE_PROPAGATION \<in> fs \<longrightarrow> STOP_PROPAGATION \<in> fs)"

definition events_ok :: "dom \<Rightarrow> bool" where
  "events_ok st \<longleftrightarrow> (\<forall>e < d_next_event st. flags_ok (flags st e))"

definition li_key :: "event_listener \<Rightarrow> string \<times> argument \<times> bool" where
  "li_key l = (li_event_type l, li_callback l, li_capture l)"

definition ids_of :: "event_listener list \<Rightarrow> nat set" where
  "ids_of ls = li_id ` set ls"

definition listeners_ok :: "dom \<Rightarrow> bool" where
  "listeners_ok st \<longleftrightarrow>
     (\<forall>t. distinct (map li_id (d_listeners st t)) \<and> distinct (map li_key (d_listeners st t)) \<and>
        (\<forall>l \<in> set (d_listeners st t). li_id l < d_next_listener_id st \<and> is_object (li_callback l))) \<and>
     (\<forall>t u. t \<noteq> u \<longrightarrow> ids_of (d_listeners st t) \<inter> ids_of (d_listeners st u) = {})"

text \<open>The links of dependent signals, seen from one signal.\<close>

definition signal_ok :: "oid list \<Rightarrow> nat \<Rightarrow> (oid \<Rightarrow> abort_signal) \<Rightarrow> oid \<Rightarrow> bool" where
  "signal_ok F n sgs s \<longleftrightarrow>
     (\<forall>d \<in> set (as_dependent_signals (sgs s)).
        d < n \<and> as_dependent (sgs d) \<and> s \<in> set (as_source_signals (sgs d)) \<and>
        (as_abort_reason (sgs s) \<noteq> JUndefined \<longrightarrow> as_abort_reason (sgs d) \<noteq> JUndefined)) \<and>
     (\<forall>r \<in> set (as_source_signals (sgs s)).
        r < n \<and> \<not> as_dependent (sgs r) \<and> s \<in> set (as_dependent_signals (sgs r))) \<and>
     (as_abort_reason (sgs s) \<noteq> JUndefined \<and> s \<notin> set F \<longrightarrow> as_abort_algorithms (sgs s) = [])"

definition signals_ok :: "oid list \<Rightarrow> dom \<Rightarrow> bool" where
  "signals_ok F st \<longleftrightarrow>
     (\<forall>s < d_next_object st. signal_ok F (d_next_object st) (d_signals st) s) \<and>
     (\<forall>s \<in> set (d_controllers st). s < d_next_object st \<and> \<not> as_dependent (d_signals st s))"

fun reaction_event :: "reaction \<Rightarrow> eid" where
  "reaction_event (LifetimePromise h e) = e"
| "reaction_event (UnreachablePromise e) = e"
| "reaction_event (RespondPromise e) = e"

definition lifetime_reactions :: "reaction list \<Rightarrow> eid \<Rightarrow> nat" where
  "lifetime_reactions rs e = length (filter (\<lambda>r. reaction_event r = e) rs)"

text \<open>The states of \<open>respondWith\<close>: not called, waiting for its promise, or answered.\<close>

definition fetch_ok :: "nat \<Rightarrow> fetch_event \<Rightarrow> bool" where
  "fetch_ok waiting f \<longleftrightarrow>
     waiting = of_bool (fe_wait_to_respond f) \<and>
     (fe_respond_interest f \<noteq> None \<longrightarrow> fe_wait_to_respond f) \<and>
     (fe_wait_to_respond f \<longrightarrow> fe_respond_with_entered f) \<and>
     (\<not> fe_respond_with_entered f \<or> fe_wait_to_respond f \<longrightarrow>
        fe_potential_response f = None \<and> \<not> fe_respond_with_error f) \<and>
     (fe_respond_with_entered f \<and> \<not> fe_wait_to_respond f \<longrightarrow>
        (fe_potential_response f = None) = fe_respond_with_error f)"

definition count_ok :: "bool \<Rightarrow> nat \<Rightarrow> nat \<Rightarrow> bool" where
  "count_ok debug count n \<longleftrightarrow> count = n mod (usize_max + 1) \<and> (debug \<longrightarrow> n \<le> usize_max)"

definition lifetime_ok :: "dom \<Rightarrow> bool" where
  "lifetime_ok st \<longleftrightarrow>
     (\<forall>r \<in> set (d_reactions st). reaction_event r < d_next_event st) \<and>
     (\<forall>e < d_next_event st.
        count_ok (d_debug st) (d_pending_promises_count st e) (lifetime_reactions (d_reactions st) e) \<and>
        (ev_class (d_events st e) = ClassFetchEvent \<longrightarrow>
           fetch_ok (count_list (d_reactions st) (RespondPromise e)) (d_fetch st e)) \<and>
        (ev_class (d_events st e) \<noteq> ClassFetchEvent \<longrightarrow> RespondPromise e \<notin> set (d_reactions st)))"

text \<open>The handles that are held on a loop: those of lifetime promises and of \<open>respondWith\<close>.\<close>

fun reaction_loop :: "reaction \<Rightarrow> loop_id option" where
  "reaction_loop (LifetimePromise h e) = Some (fst h)"
| "reaction_loop (UnreachablePromise e) = None"
| "reaction_loop (RespondPromise e) = None"

definition reaction_handles :: "reaction list \<Rightarrow> loop_id \<Rightarrow> nat" where
  "reaction_handles rs l = length (filter (\<lambda>r. reaction_loop r = Some l) rs)"

definition holds_fetch :: "loop_id \<Rightarrow> event_class \<Rightarrow> fetch_event \<Rightarrow> bool" where
  "holds_fetch l c f \<longleftrightarrow> c = ClassFetchEvent \<and> map_option fst (fe_respond_interest f) = Some l"

definition fetch_handles :: "dom \<Rightarrow> loop_id \<Rightarrow> nat" where
  "fetch_handles st l =
     (\<Sum>e < d_next_event st. of_bool (holds_fetch l (ev_class (d_events st e)) (d_fetch st e)))"

definition interest_ok :: "dom \<Rightarrow> bool" where
  "interest_ok st \<longleftrightarrow>
     (\<forall>l. in_count (el_interest (d_loops st l)) =
            reaction_handles (d_reactions st) l + fetch_handles st l)"

definition dom_inv :: "oid list \<Rightarrow> dom \<Rightarrow> bool" where
  "dom_inv F st \<longleftrightarrow>
     events_ok st \<and> listeners_ok st \<and> signals_ok F st \<and> lifetime_ok st \<and> interest_ok st"

section \<open>The frame\<close>

text \<open>
  What happens to an event that is not the one being dispatched by the operation itself. While an
  event is dispatched, its type, target and flags stay, but for the two stop flags and the
  canceled flag, which may be set, the latter not in a passive listener.
\<close>

definition event_le :: "event \<Rightarrow> event \<Rightarrow> bool" where
  "event_le ev ev' \<longleftrightarrow>
     (DISPATCH \<in> ev_flags ev' \<longleftrightarrow> DISPATCH \<in> ev_flags ev) \<and>
     (DISPATCH \<in> ev_flags ev \<longrightarrow>
        ev_type ev' = ev_type ev \<and> ev_target ev' = ev_target ev \<and>
        ev_flags ev \<subseteq> ev_flags ev' \<and>
        ev_flags ev' \<subseteq> ev_flags ev \<union> {STOP_PROPAGATION, STOP_IMMEDIATE_PROPAGATION, CANCELED} \<and>
        (CANCELABLE \<notin> ev_flags ev \<or> IN_PASSIVE_LISTENER \<in> ev_flags ev \<longrightarrow>
           (CANCELED \<in> ev_flags ev' \<longleftrightarrow> CANCELED \<in> ev_flags ev)))"

definition signal_le :: "abort_signal \<Rightarrow> abort_signal \<Rightarrow> bool" where
  "signal_le sg sg' \<longleftrightarrow>
     as_dependent sg' = as_dependent sg \<and>
     set (as_dependent_signals sg) \<subseteq> set (as_dependent_signals sg') \<and>
     (as_abort_reason sg \<noteq> JUndefined \<longrightarrow>
        as_abort_reason sg' = as_abort_reason sg \<and>
        set (as_abort_algorithms sg') \<subseteq> set (as_abort_algorithms sg))"

text \<open>
  \<open>x\<close> is the event the operation itself dispatches, whose flags are excepted. An event that was
  created meanwhile is not being dispatched any more.
\<close>

definition events_le :: "eid option \<Rightarrow> dom \<Rightarrow> dom \<Rightarrow> bool" where
  "events_le x st st' \<longleftrightarrow>
     d_next_event st \<le> d_next_event st' \<and>
     (\<forall>e < d_next_event st. ev_class (d_events st' e) = ev_class (d_events st e) \<and>
        (x \<noteq> Some e \<longrightarrow> event_le (d_events st e) (d_events st' e))) \<and>
     (\<forall>e < d_next_event st'. d_next_event st \<le> e \<and> x \<noteq> Some e \<longrightarrow> DISPATCH \<notin> flags st' e)"

definition listeners_le :: "dom \<Rightarrow> dom \<Rightarrow> bool" where
  "listeners_le st st' \<longleftrightarrow>
     d_next_listener_id st \<le> d_next_listener_id st' \<and>
     (\<forall>t. \<forall>l \<in> set (d_listeners st' t).
        li_id l < d_next_listener_id st \<longrightarrow> l \<in> set (d_listeners st t))"

definition signals_le :: "dom \<Rightarrow> dom \<Rightarrow> bool" where
  "signals_le st st' \<longleftrightarrow>
     d_next_object st \<le> d_next_object st' \<and>
     (\<exists>cs. d_controllers st' = d_controllers st @ cs) \<and>
     (\<forall>s < d_next_object st. signal_le (d_signals st s) (d_signals st' s) \<and>
        d_is_signal st' s = d_is_signal st s)"

definition constants_le :: "dom \<Rightarrow> dom \<Rightarrow> bool" where
  "constants_le st st' \<longleftrightarrow>
     d_debug st' = d_debug st \<and> d_active st' = d_active st \<and> d_global st' = d_global st \<and>
     d_origin st' = d_origin st \<and> d_no_loop_reason st' = d_no_loop_reason st"

definition dom_le_x :: "eid option \<Rightarrow> dom \<Rightarrow> dom \<Rightarrow> bool" where
  "dom_le_x x st st' \<longleftrightarrow>
     events_le x st st' \<and> listeners_le st st' \<and> signals_le st st' \<and> constants_le st st'"

abbreviation dom_le :: "dom \<Rightarrow> dom \<Rightarrow> bool" where
  "dom_le \<equiv> dom_le_x None"

lemma event_le_refl [simp]: "event_le ev ev"
  by (auto simp: event_le_def)

lemma event_le_trans: "event_le a b \<Longrightarrow> event_le b c \<Longrightarrow> event_le a c"
  unfolding event_le_def by (cases "DISPATCH \<in> ev_flags a") auto

lemma signal_le_refl [simp]: "signal_le sg sg"
  by (simp add: signal_le_def)

lemma signal_le_trans: "signal_le a b \<Longrightarrow> signal_le b c \<Longrightarrow> signal_le a c"
  unfolding signal_le_def by auto

lemma events_le_refl [simp]: "events_le x st st"
  by (simp add: events_le_def)

lemma events_le_trans: "events_le x a b \<Longrightarrow> events_le x b c \<Longrightarrow> events_le x a c"
proof -
  assume a: "events_le x a b" and b: "events_le x b c"
  have "ev_class (d_events c e) = ev_class (d_events a e) \<and>
      (x \<noteq> Some e \<longrightarrow> event_le (d_events a e) (d_events c e))" if "e < d_next_event a" for e
    using a b that event_le_trans [of "d_events a e" "d_events b e" "d_events c e"]
    by (simp add: events_le_def)
  moreover have "DISPATCH \<notin> flags c e"
    if "e < d_next_event c" "d_next_event a \<le> e" "x \<noteq> Some e" for e
    using a b that by (cases "e < d_next_event b") (auto simp: events_le_def event_le_def)
  ultimately show "events_le x a c" using a b by (simp add: events_le_def)
qed

lemma listeners_le_refl [simp]: "listeners_le st st"
  by (simp add: listeners_le_def)

lemma listeners_le_trans: "listeners_le a b \<Longrightarrow> listeners_le b c \<Longrightarrow> listeners_le a c"
  unfolding listeners_le_def by (meson le_trans order.strict_trans2)

lemma signals_le_refl [simp]: "signals_le st st"
  by (simp add: signals_le_def)

lemma signals_le_trans: "signals_le a b \<Longrightarrow> signals_le b c \<Longrightarrow> signals_le a c"
proof -
  assume a: "signals_le a b" and b: "signals_le b c"
  have "signal_le (d_signals a s) (d_signals c s) \<and> d_is_signal c s = d_is_signal a s"
    if "s < d_next_object a" for s
    using a b that signal_le_trans [of "d_signals a s" "d_signals b s" "d_signals c s"]
    by (simp add: signals_le_def)
  with a b show "signals_le a c" by (auto simp: signals_le_def)
qed

lemma dom_le_refl [simp]: "dom_le_x x st st"
  by (simp add: dom_le_x_def constants_le_def)

lemma dom_le_trans: "dom_le_x x a b \<Longrightarrow> dom_le_x x b c \<Longrightarrow> dom_le_x x a c"
  using events_le_trans [of x a b c] listeners_le_trans [of a b c] signals_le_trans [of a b c]
  by (simp add: dom_le_x_def constants_le_def)

lemma dom_le_any: "dom_le a b \<Longrightarrow> dom_le_x x a b"
  by (simp add: dom_le_x_def events_le_def)

lemma dom_le_done:
  "dom_le_x (Some e) a b \<Longrightarrow> DISPATCH \<notin> flags a e \<Longrightarrow> DISPATCH \<notin> flags b e \<Longrightarrow> dom_le a b"
  by (auto simp: dom_le_x_def events_le_def event_le_def)

section \<open>The panics a session may end in\<close>

definition allowed :: "dom \<Rightarrow> panic \<Rightarrow> bool" where
  "allowed st p \<longleftrightarrow>
     p = InterestOverflow \<or> (p = NoEventLoop \<and> d_active st = None) \<or>
     (d_debug st \<and> (p = StartDispatching \<or> p = PendingCountOverflow))"

lemma allowed_le: "dom_le_x x st st' \<Longrightarrow> allowed st' = allowed st"
  by (simp add: dom_le_x_def constants_le_def allowed_def fun_eq_iff)

text \<open>What an operation is shown to do: keep the invariant, respect the frame.\<close>

definition keeps :: "oid list \<Rightarrow> dom \<Rightarrow> dom \<Rightarrow> bool" where
  "keeps F st st' \<longleftrightarrow> dom_inv F st' \<and> dom_le st st'"

lemma keeps_refl: "dom_inv F st \<Longrightarrow> keeps F st st"
  by (simp add: keeps_def)

lemma keeps_trans: "keeps F a b \<Longrightarrow> keeps F b c \<Longrightarrow> keeps F a c"
  using dom_le_trans by (auto simp: keeps_def)

lemma keeps_inv: "keeps F a b \<Longrightarrow> dom_inv F b"
  by (simp add: keeps_def)

lemma keeps_bind:
  assumes "rwp (allowed st) m (\<lambda>x. keeps F st (f x))"
    and "\<And>x. keeps F st (f x) \<Longrightarrow> rwp (allowed (f x)) (g x) (\<lambda>y. keeps F (f x) (h y))"
  shows "rwp (allowed st) (and_then m g) (\<lambda>y. keeps F st (h y))"
proof -
  have "rwp (allowed st) (g x) (\<lambda>y. keeps F st (h y))" if k: "keeps F st (f x)" for x
    using assms(2) [OF k] k keeps_trans [OF k]
    by (auto simp: keeps_def allowed_le [of None st "f x"] elim!: rwp_mono)
  with assms(1) show ?thesis by (auto elim: rwp_mono)
qed

end
