(* ===== verification/Dom_Ops.thy ===== *)
theory Dom_Ops
  imports Dom_Inv "HOL-Library.Sublist"
begin

text \<open>
  The primitive changes of the state: each keeps the invariant and respects the frame.
\<close>

named_theorems keeps "operations that keep the invariant and respect the frame"

lemma dom_invD:
  "dom_inv F st \<Longrightarrow> events_ok st" "dom_inv F st \<Longrightarrow> listeners_ok st"
  "dom_inv F st \<Longrightarrow> signals_ok F st" "dom_inv F st \<Longrightarrow> lifetime_ok st"
  "dom_inv F st \<Longrightarrow> interest_ok st"
  by (simp_all add: dom_inv_def)

lemma dom_invI:
  "events_ok st \<Longrightarrow> listeners_ok st \<Longrightarrow> signals_ok F st \<Longrightarrow> lifetime_ok st \<Longrightarrow> interest_ok st \<Longrightarrow>
     dom_inv F st"
  by (simp add: dom_inv_def)

lemma dom_le_xI:
  "events_le x st st' \<Longrightarrow> listeners_le st st' \<Longrightarrow> signals_le st st' \<Longrightarrow> constants_le st st' \<Longrightarrow>
     dom_le_x x st st'"
  by (simp add: dom_le_x_def)

text \<open>Each part of the invariant reads only its own fields.\<close>

lemma events_ok_cong:
  "d_events st' = d_events st \<Longrightarrow> d_next_event st' = d_next_event st \<Longrightarrow>
     events_ok st \<Longrightarrow> events_ok st'"
  by (simp add: events_ok_def)

lemma listeners_ok_cong:
  "d_listeners st' = d_listeners st \<Longrightarrow> d_next_listener_id st' = d_next_listener_id st \<Longrightarrow>
     listeners_ok st \<Longrightarrow> listeners_ok st'"
  by (simp add: listeners_ok_def)

lemma signals_ok_cong:
  "d_signals st' = d_signals st \<Longrightarrow> d_next_object st' = d_next_object st \<Longrightarrow>
     d_controllers st' = d_controllers st \<Longrightarrow> signals_ok F st \<Longrightarrow> signals_ok F st'"
  by (simp add: signals_ok_def)

lemma lifetime_ok_cong:
  "d_reactions st' = d_reactions st \<Longrightarrow> d_next_event st' = d_next_event st \<Longrightarrow>
     d_debug st' = d_debug st \<Longrightarrow> d_pending_promises_count st' = d_pending_promises_count st \<Longrightarrow>
     d_fetch st' = d_fetch st \<Longrightarrow>
     (\<And>e. e < d_next_event st \<Longrightarrow> ev_class (d_events st' e) = ev_class (d_events st e)) \<Longrightarrow>
     lifetime_ok st \<Longrightarrow> lifetime_ok st'"
  by (simp add: lifetime_ok_def)

lemma fetch_handles_cong:
  "d_next_event st' = d_next_event st \<Longrightarrow> d_fetch st' = d_fetch st \<Longrightarrow>
     (\<And>e. e < d_next_event st \<Longrightarrow> ev_class (d_events st' e) = ev_class (d_events st e)) \<Longrightarrow>
     fetch_handles st' l = fetch_handles st l"
  by (simp add: fetch_handles_def cong: sum.cong_simp)

lemma interest_ok_cong:
  "(\<And>l. el_interest (d_loops st' l) = el_interest (d_loops st l)) \<Longrightarrow>
     d_reactions st' = d_reactions st \<Longrightarrow> (\<And>l. fetch_handles st' l = fetch_handles st l) \<Longrightarrow>
     interest_ok st \<Longrightarrow> interest_ok st'"
  by (simp add: interest_ok_def)

lemma events_le_cong:
  "d_next_event st' = d_next_event st \<Longrightarrow>
     (\<And>e. e < d_next_event st \<Longrightarrow> d_events st' e = d_events st e) \<Longrightarrow> events_le x st st'"
  by (simp add: events_le_def)

lemma listeners_le_cong:
  "d_next_listener_id st' = d_next_listener_id st \<Longrightarrow> d_listeners st' = d_listeners st \<Longrightarrow>
     listeners_le st st'"
  by (simp add: listeners_le_def)

lemma signals_le_cong:
  "d_next_object st' = d_next_object st \<Longrightarrow> d_controllers st' = d_controllers st \<Longrightarrow>
     (\<And>s. s < d_next_object st \<Longrightarrow> d_signals st' s = d_signals st s \<and> d_is_signal st' s = d_is_signal st s) \<Longrightarrow>
     signals_le st st'"
  by (simp add: signals_le_def)

section \<open>Events\<close>

lemma on_event_inv:
  assumes inv: "dom_inv F st" and fl: "flags_ok (ev_flags (f (d_events st e)))"
    and c: "ev_class (f (d_events st e)) = ev_class (d_events st e)"
  shows "dom_inv F (on_event e f st)"
proof -
  note d = dom_invD [OF inv]
  have "fetch_handles (on_event e f st) l = fetch_handles st l" for l
    by (rule fetch_handles_cong) (auto simp: on_event_def c)
  then show ?thesis
    using d fl c
    by (intro dom_invI listeners_ok_cong [OF _ _ d(2)] signals_ok_cong [OF _ _ _ d(3)]
          lifetime_ok_cong [OF _ _ _ _ _ _ d(4)] interest_ok_cong [OF _ _ _ d(5)])
      (auto simp: on_event_def events_ok_def)
qed

lemma on_event_le:
  assumes "x \<noteq> Some e \<Longrightarrow> event_le (d_events st e) (f (d_events st e))"
    and c: "ev_class (f (d_events st e)) = ev_class (d_events st e)"
  shows "dom_le_x x st (on_event e f st)"
  using assms by (intro dom_le_xI listeners_le_cong signals_le_cong)
    (auto simp: on_event_def events_le_def constants_le_def)

lemma on_event_keeps:
  assumes "dom_inv F st" and "flags_ok (ev_flags (f (d_events st e)))"
    and "ev_class (f (d_events st e)) = ev_class (d_events st e)"
    and "event_le (d_events st e) (f (d_events st e))"
  shows "keeps F st (on_event e f st)"
  using assms by (simp add: keeps_def on_event_inv on_event_le)

lemma flags_okD: "dom_inv F st \<Longrightarrow> e < d_next_event st \<Longrightarrow> flags_ok (flags st e)"
  by (simp add: dom_inv_def events_ok_def)

lemma stop_propagation_keeps [keeps]:
  "dom_inv F st \<Longrightarrow> e < d_next_event st \<Longrightarrow> keeps F st (stop_propagation e st)"
  unfolding stop_propagation_def using flags_okD [of F st e]
  by (intro on_event_keeps) (auto simp: flags_ok_def event_le_def)

lemma set_cancel_bubble_keeps [keeps]:
  "dom_inv F st \<Longrightarrow> e < d_next_event st \<Longrightarrow> keeps F st (set_cancel_bubble e v st)"
  by (simp add: set_cancel_bubble_def stop_propagation_keeps keeps_refl)

lemma stop_immediate_propagation_keeps [keeps]:
  "dom_inv F st \<Longrightarrow> e < d_next_event st \<Longrightarrow> keeps F st (stop_immediate_propagation e st)"
  unfolding stop_immediate_propagation_def using flags_okD [of F st e]
  by (intro on_event_keeps) (auto simp: flags_ok_def event_le_def)

lemma event_cancel_keeps [keeps]:
  "dom_inv F st \<Longrightarrow> e < d_next_event st \<Longrightarrow> keeps F st (event_cancel e st)"
  unfolding event_cancel_def using flags_okD [of F st e]
  by (intro on_event_keeps) (auto simp: flags_ok_def event_le_def)

lemma prevent_default_keeps [keeps]:
  "dom_inv F st \<Longrightarrow> e < d_next_event st \<Longrightarrow> keeps F st (prevent_default e st)"
  by (simp add: prevent_default_def event_cancel_keeps)

lemma set_return_value_keeps [keeps]:
  "dom_inv F st \<Longrightarrow> e < d_next_event st \<Longrightarrow> keeps F st (set_return_value e v st)"
  by (simp add: set_return_value_def event_cancel_keeps keeps_refl)

lemma initialize_keeps:
  "dom_inv F st \<Longrightarrow> e < d_next_event st \<Longrightarrow> DISPATCH \<notin> flags st e \<Longrightarrow>
     keeps F st (on_event e (initialize ty b c) st)"
  using flags_okD [of F st e]
  by (intro on_event_keeps)
    (auto simp: flags_ok_def event_le_def initialize_def set_flag_def)

lemma init_event_keeps [keeps]:
  "dom_inv F st \<Longrightarrow> e < d_next_event st \<Longrightarrow> keeps F st (init_event e ty b c st)"
  by (simp add: init_event_def keeps_refl initialize_keeps)

text \<open>The detail of a custom event is read by nothing else.\<close>

lemma detail_keeps: "keeps F st0 st \<Longrightarrow> keeps F st0 (st\<lparr>d_detail := f\<rparr>)"
proof -
  assume k: "keeps F st0 st"
  then have d: "dom_inv F st" by (simp add: keeps_def)
  note d = dom_invD [OF d]
  have "dom_inv F (st\<lparr>d_detail := f\<rparr>)"
    by (intro dom_invI events_ok_cong [OF _ _ d(1)] listeners_ok_cong [OF _ _ d(2)]
          signals_ok_cong [OF _ _ _ d(3)] lifetime_ok_cong [OF _ _ _ _ _ _ d(4)]
          interest_ok_cong [OF _ _ _ d(5)]) (simp_all add: fetch_handles_def)
  moreover have "dom_le st (st\<lparr>d_detail := f\<rparr>)"
    by (intro dom_le_xI events_le_cong listeners_le_cong signals_le_cong)
      (simp_all add: constants_le_def)
  ultimately show ?thesis using keeps_trans [OF k] by (simp add: keeps_def)
qed

lemma init_custom_event_keeps [keeps]:
  "dom_inv F st \<Longrightarrow> e < d_next_event st \<Longrightarrow> keeps F st (init_custom_event e ty b c d st)"
  using detail_keeps [OF initialize_keeps]
  by (simp add: init_custom_event_def keeps_refl is_dispatching_def Let_def)

lemma new_untrusted_flags_ok [simp]:
  "flags_ok (ev_flags (new_untrusted cls ty init))" "flags_ok (ev_flags (trusted (new_untrusted cls ty init)))"
  "flags_ok (ev_flags (new_trusted cls ty init))"
  "flags_ok (ev_flags (extendable_event_new ty init))"
  "flags_ok (ev_flags (trusted (extendable_event_new ty init)))"
  by (auto simp: flags_ok_def new_untrusted_def trusted_def new_trusted_def extendable_event_new_def
      set_flag_def split: option.splits)

lemma new_untrusted_simps [simp]:
  "ev_class (new_untrusted cls ty init) = cls" "ev_class (trusted ev) = ev_class ev"
  "ev_class (new_trusted cls ty init) = cls"
  "ev_class (extendable_event_new ty ini) = ClassExtendableEvent"
  "DISPATCH \<notin> ev_flags (new_untrusted cls ty init)"
  "DISPATCH \<notin> ev_flags (new_trusted cls ty init)" "DISPATCH \<notin> ev_flags (extendable_event_new ty ini)"
  "DISPATCH \<in> ev_flags (trusted ev) \<longleftrightarrow> DISPATCH \<in> ev_flags ev"
  by (auto simp: new_untrusted_def trusted_def new_trusted_def extendable_event_new_def set_flag_def
      split: option.splits)

lemma lifetime_reactions_fresh:
  "lifetime_ok st \<Longrightarrow> lifetime_reactions (d_reactions st) (d_next_event st) = 0"
  by (auto simp: lifetime_ok_def lifetime_reactions_def filter_empty_conv)

lemma respond_fresh: "lifetime_ok st \<Longrightarrow> RespondPromise (d_next_event st) \<notin> set (d_reactions st)"
  by (force simp: lifetime_ok_def)

lemma allocate_event_keeps:
  assumes inv: "dom_inv F st" and fl: "flags_ok (ev_flags ev)" and c: "ev_class ev \<noteq> ClassFetchEvent"
    and nd: "DISPATCH \<notin> ev_flags ev"
  shows "keeps F st (fst (allocate_event ev st))"
proof -
  note d = dom_invD [OF inv]
  let ?st = "fst (allocate_event ev st)"
  have "events_ok ?st" using d(1) fl by (simp add: allocate_event_def events_ok_def less_Suc_eq)
  moreover have "lifetime_ok ?st"
    using d(4) c lifetime_reactions_fresh [OF d(4)] respond_fresh [OF d(4)]
    by (auto simp: allocate_event_def lifetime_ok_def less_Suc_eq count_ok_def)
  moreover have "interest_ok ?st"
    using d(5) c by (simp add: allocate_event_def interest_ok_def fetch_handles_def holds_fetch_def)
  moreover have "listeners_ok ?st" "signals_ok F ?st"
    using d by (auto simp: allocate_event_def intro: listeners_ok_cong signals_ok_cong)
  moreover have "dom_le st ?st"
    by (intro dom_le_xI listeners_le_cong signals_le_cong)
      (auto simp: allocate_event_def events_le_def constants_le_def nd)
  ultimately show ?thesis by (simp add: keeps_def dom_inv_def)
qed

lemma snd_allocate_event [simp]: "snd (allocate_event ev st) = d_next_event st"
  by (simp add: allocate_event_def)

lemma custom_event_new_keeps [keeps]: "dom_inv F st \<Longrightarrow> keeps F st (fst (custom_event_new ty init st))"
  using detail_keeps [OF allocate_event_keeps]
  by (simp add: custom_event_new_def Let_def split_beta)

section \<open>Event listeners\<close>

lemma subseq_set: "subseq xs ys \<Longrightarrow> set xs \<subseteq> set ys"
  by (metis set_nths_subset subseq_conv_nths)

text \<open>Any change of a list that keeps it part of itself.\<close>

lemma on_listeners_shrink:
  assumes inv: "dom_inv F st" and sub: "subseq (f (d_listeners st t)) (d_listeners st t)"
  shows "keeps F st (on_listeners t f st)"
proof -
  note d = dom_invD [OF inv]
  let ?st = "on_listeners t f st"
  have s: "subseq (d_listeners ?st u) (d_listeners st u)" for u
    using sub by (simp add: on_listeners_def)
  have st: "set (d_listeners ?st u) \<subseteq> set (d_listeners st u)" for u
    using s [of u] by (rule subseq_set)
  have dm: "distinct (map g (d_listeners ?st u))" if "distinct (map g (d_listeners st u))"
    for g :: "event_listener \<Rightarrow> 'b" and u
    using subseq_map [OF s, of g u] that by (metis distinct_nthsI subseq_conv_nths)
  have n: "d_next_listener_id ?st = d_next_listener_id st" by (simp add: on_listeners_def)
  have "listeners_ok ?st"
    using d(2) st dm unfolding listeners_ok_def n ids_of_def
    by (meson disjoint_iff image_mono subset_eq)
  moreover have "events_ok ?st" "signals_ok F ?st" "lifetime_ok ?st" "interest_ok ?st"
    using d by (auto simp: on_listeners_def fetch_handles_def
        intro: events_ok_cong signals_ok_cong lifetime_ok_cong interest_ok_cong)
  moreover have "dom_le st ?st"
    using st n by (intro dom_le_xI events_le_cong signals_le_cong)
      (auto simp: listeners_le_def constants_le_def, auto simp: on_listeners_def)
  ultimately show ?thesis by (simp add: keeps_def dom_inv_def)
qed

lemma remove_an_event_listener_keeps [keeps]:
  "dom_inv F st \<Longrightarrow> keeps F st (remove_an_event_listener t ty cb c st)"
  by (simp add: remove_an_event_listener_def on_listeners_shrink)

lemma remove_an_event_listener_by_id_keeps [keeps]:
  "dom_inv F st \<Longrightarrow> keeps F st (remove_an_event_listener_by_id t i st)"
  by (simp add: remove_an_event_listener_by_id_def on_listeners_shrink)

lemma add_listener_keeps:
  assumes inv: "dom_inv F st" and cb: "is_object (li_callback l)" and i: "li_id l = d_next_listener_id st"
    and new: "li_key l \<notin> li_key ` set (d_listeners st t)"
  shows "keeps F st (on_listeners t (\<lambda>ls. ls @ [l]) (fst (next_listener_id st)))"
proof -
  note d = dom_invD [OF inv]
  let ?st = "on_listeners t (\<lambda>ls. ls @ [l]) (fst (next_listener_id st))"
  have u: "d_listeners ?st u = (if u = t then d_listeners st t @ [l] else d_listeners st u)" for u
    by (simp add: on_listeners_def next_listener_id_def)
  have n: "d_next_listener_id ?st = Suc (d_next_listener_id st)"
    by (simp add: on_listeners_def next_listener_id_def)
  have lt: "x \<in> set (d_listeners st v) \<Longrightarrow> li_id x < d_next_listener_id st" for x v
    using d(2) by (simp add: listeners_ok_def)
  have "listeners_ok ?st"
    using d(2) cb new lt unfolding listeners_ok_def n u ids_of_def i
    by (auto simp: i less_SucI) (metis less_irrefl i lt)+
  moreover have "events_ok ?st" "signals_ok F ?st" "lifetime_ok ?st" "interest_ok ?st"
    using d by (auto simp: on_listeners_def next_listener_id_def fetch_handles_def
        intro: events_ok_cong signals_ok_cong lifetime_ok_cong interest_ok_cong)
  moreover have "dom_le st ?st"
    using i by (intro dom_le_xI events_le_cong signals_le_cong)
      (auto simp: listeners_le_def constants_le_def u n, auto simp: on_listeners_def next_listener_id_def)
  ultimately show ?thesis by (simp add: keeps_def dom_inv_def)
qed

section \<open>Abort signals\<close>

text \<open>A change of one signal that leaves its reason and its links alone.\<close>

lemma on_signal_keeps:
  assumes inv: "dom_inv F st"
    and same: "as_abort_reason (f (d_signals st s)) = as_abort_reason (d_signals st s)"
      "as_dependent (f (d_signals st s)) = as_dependent (d_signals st s)"
      "as_source_signals (f (d_signals st s)) = as_source_signals (d_signals st s)"
      "as_dependent_signals (f (d_signals st s)) = as_dependent_signals (d_signals st s)"
    and algs: "as_abort_reason (d_signals st s) \<noteq> JUndefined \<Longrightarrow>
      set (as_abort_algorithms (f (d_signals st s))) \<subseteq> set (as_abort_algorithms (d_signals st s))"
  shows "keeps F st (on_signal s f st)"
proof -
  note d = dom_invD [OF inv]
  let ?st = "on_signal s f st"
  have sg: "d_signals ?st = (d_signals st)(s := f (d_signals st s))" by (simp add: on_signal_def)
  have "signal_ok F (d_next_object st) (d_signals ?st) u" if "signal_ok F (d_next_object st) (d_signals st) u" for u
    using that same algs unfolding signal_ok_def sg by auto
  then have "signals_ok F ?st"
    using d(3) same by (auto simp: signals_ok_def sg) (simp_all add: on_signal_def)
  moreover have "events_ok ?st" "listeners_ok ?st" "lifetime_ok ?st" "interest_ok ?st"
    using d by (auto simp: on_signal_def fetch_handles_def
        intro: events_ok_cong listeners_ok_cong lifetime_ok_cong interest_ok_cong)
  moreover have "dom_le st ?st"
    using same algs by (intro dom_le_xI events_le_cong listeners_le_cong)
      (auto simp: on_signal_def signals_le_def signal_le_def constants_le_def)
  ultimately show ?thesis by (simp add: keeps_def dom_inv_def)
qed

lemma add_listener_removal_algorithm_keeps [keeps]:
  "dom_inv F st \<Longrightarrow> keeps F st (add_listener_removal_algorithm s t i st)"
  by (auto simp: add_listener_removal_algorithm_def keeps_refl aborted_def intro: on_signal_keeps)

lemma add_abort_algorithm_keeps [keeps]:
  "dom_inv F st \<Longrightarrow> keeps F st (add_abort_algorithm s cb st)"
  by (auto simp: add_abort_algorithm_def keeps_refl aborted_def intro: on_signal_keeps)

lemma remove_abort_algorithm_keeps [keeps]:
  "dom_inv F st \<Longrightarrow> keeps F st (remove_abort_algorithm s cb st)"
  unfolding remove_abort_algorithm_def by (rule on_signal_keeps) auto

lemma find_key:
  "find (same_listener ty cb c) ls = None \<Longrightarrow> (ty, cb, c) \<notin> li_key ` set ls"
  by (auto simp: find_None_iff same_listener_def li_key_def)

lemma add_an_event_listener_keeps [keeps]:
  assumes inv: "dom_inv F st" and cb: "is_object cb"
  shows "keeps F st (add_an_event_listener t ty cb c p o' sg st)"
proof -
  let ?l = "\<lparr>li_id = d_next_listener_id st, li_event_type = ty, li_callback = cb, li_capture = c,
      li_passive = p, li_once = o'\<rparr>"
  have new: "keeps F st (on_listeners t (\<lambda>ls. ls @ [?l]) (fst (next_listener_id st)))"
    if "find (same_listener ty cb c) (d_listeners st t) = None"
    using inv cb find_key [OF that] by (intro add_listener_keeps) (simp_all add: li_key_def)
  have step: "keeps F st (add_listener_removal_algorithm s t i st')" if "keeps F st st'" for s i st'
    using that keeps_trans add_listener_removal_algorithm_keeps by (meson keeps_inv)
  show ?thesis
    using new step [OF new] step [OF keeps_refl [OF inv]] keeps_refl [OF inv]
    by (auto simp: add_an_event_listener_def next_listener_id_def Let_def split: option.split)
qed

lemma set_onabort_keeps [keeps]:
  assumes inv: "dom_inv F st"
  shows "keeps F st (set_onabort s v st)"
proof -
  have handler: "keeps F st (on_signal s (\<lambda>sg. sg\<lparr>as_onabort_handler := h\<rparr>) st')"
    if "keeps F st st'" for h st'
    using that keeps_trans on_signal_keeps [OF keeps_inv [OF that]] by simp
  have c: "is_callable v \<Longrightarrow> is_object v" by (cases v) simp_all
  have add: "keeps F st (add_an_event_listener s ty v False None False None st')"
    if "keeps F st st'" "is_callable v" for ty st'
    using that keeps_trans add_an_event_listener_keeps [OF keeps_inv [OF that(1)] c [OF that(2)]] by blast
  show ?thesis
    using remove_an_event_listener_keeps [OF inv] keeps_refl [OF inv]
    by (auto simp: set_onabort_def Let_def intro!: handler add split: option.split)
qed

text \<open>A new object: nothing is linked to it.\<close>

lemma signal_fresh:
  assumes "signals_ok F st" and "s < d_next_object st"
  shows "d_next_object st \<notin> set (as_dependent_signals (d_signals st s))"
    and "d_next_object st \<notin> set (as_source_signals (d_signals st s))"
proof -
  have "signal_ok F (d_next_object st) (d_signals st) s" using assms by (simp add: signals_ok_def)
  then show "d_next_object st \<notin> set (as_dependent_signals (d_signals st s))"
    and "d_next_object st \<notin> set (as_source_signals (d_signals st s))"
    unfolding signal_ok_def by blast+
qed

lemma signal_ok_cong:
  assumes "signal_ok F n sgs u" and "n \<le> n'" and "sgs' u = sgs u"
    and "\<And>v. v \<in> set (as_dependent_signals (sgs u)) \<Longrightarrow> sgs' v = sgs v"
    and "\<And>v. v \<in> set (as_source_signals (sgs u)) \<Longrightarrow> sgs' v = sgs v"
  shows "signal_ok F n' sgs' u"
proof -
  note a = assms(1) [unfolded signal_ok_def]
  have "d < n' \<and> as_dependent (sgs' d) \<and> u \<in> set (as_source_signals (sgs' d)) \<and>
      (as_abort_reason (sgs u) \<noteq> JUndefined \<longrightarrow> as_abort_reason (sgs' d) \<noteq> JUndefined)"
    if "d \<in> set (as_dependent_signals (sgs u))" for d
    unfolding assms(4) [OF that] using a that assms(2) by auto
  moreover have "r < n' \<and> \<not> as_dependent (sgs' r) \<and> u \<in> set (as_dependent_signals (sgs' r))"
    if "r \<in> set (as_source_signals (sgs u))" for r
    unfolding assms(5) [OF that] using a that assms(2) by auto
  ultimately show ?thesis using a by (simp add: signal_ok_def assms(3))
qed

lemma new_object_keeps:
  assumes inv: "dom_inv F st"
  shows "keeps F st (fst (new_object b st))"
proof -
  note d = dom_invD [OF inv]
  let ?n = "d_next_object st"
  let ?st = "fst (new_object b st)"
  have "signal_ok F (Suc ?n) ((d_signals st)(?n := abort_signal_new)) u" if "u < Suc ?n" for u
  proof (cases "u = ?n")
    case True
    then show ?thesis by (simp add: signal_ok_def abort_signal_new_def)
  next
    case False
    with that have u: "u < ?n" by simp
    then have "signal_ok F ?n (d_signals st) u" using d(3) by (simp add: signals_ok_def)
    then show ?thesis
      by (rule signal_ok_cong) (use False signal_fresh [OF d(3) u] in auto)
  qed
  then have "signals_ok F ?st"
    using d(3) by (auto simp: new_object_def signals_ok_def less_SucI)
  moreover have "listeners_ok ?st"
    using d(2) by (auto simp: new_object_def listeners_ok_def ids_of_def)
  moreover have "events_ok ?st" "lifetime_ok ?st" "interest_ok ?st"
    using d by (auto simp: new_object_def fetch_handles_def
        intro: events_ok_cong lifetime_ok_cong interest_ok_cong)
  moreover have "dom_le st ?st"
    by (intro dom_le_xI events_le_cong)
      (auto simp: new_object_def signals_le_def listeners_le_def constants_le_def)
  ultimately show ?thesis by (simp add: keeps_def dom_inv_def)
qed

lemma event_target_new_keeps [keeps]: "dom_inv F st \<Longrightarrow> keeps F st (fst (event_target_new st))"
  by (simp add: event_target_new_def new_object_keeps)

lemma new_abort_signal_keeps: "dom_inv F st \<Longrightarrow> keeps F st (fst (new_abort_signal st))"
  by (simp add: new_abort_signal_def new_object_keeps)

lemma new_abort_signal_simps [simp]:
  "snd (new_abort_signal st) = d_next_object st"
  "d_next_object (fst (new_abort_signal st)) = Suc (d_next_object st)"
  "d_signals (fst (new_abort_signal st)) = (d_signals st)(d_next_object st := abort_signal_new)"
  "d_controllers (fst (new_abort_signal st)) = d_controllers st"
  "d_is_signal (fst (new_abort_signal st)) = (d_is_signal st)(d_next_object st := True)"
  by (simp_all add: new_abort_signal_def new_object_def)

end
