(* ===== verification/Dom_Signal_Ops.thy ===== *)
theory Dom_Signal_Ops
  imports Dom_Ops
begin

text \<open>Creating signals, linking dependent signals to their sources, and setting abort reasons.\<close>

section \<open>New signals\<close>

definition with_new_signal :: "(abort_signal \<Rightarrow> abort_signal) \<Rightarrow> dom \<Rightarrow> dom" where
  "with_new_signal f st = on_signal (d_next_object st) f (fst (new_abort_signal st))"

lemma with_new_signal_simps [simp]:
  "d_next_object (with_new_signal f st) = Suc (d_next_object st)"
  "d_signals (with_new_signal f st) = (d_signals st)(d_next_object st := f abort_signal_new)"
  "d_controllers (with_new_signal f st) = d_controllers st"
  "d_is_signal (with_new_signal f st) = (d_is_signal st)(d_next_object st := True)"
  by (simp_all add: with_new_signal_def on_signal_def)

lemma with_new_signal_eq:
  "with_new_signal f st = (fst (new_abort_signal st))\<lparr>d_signals :=
     (d_signals st)(d_next_object st := f abort_signal_new)\<rparr>"
  by (simp add: with_new_signal_def on_signal_def)

lemma with_new_signal_keeps:
  assumes inv: "dom_inv F st"
    and f: "as_source_signals (f abort_signal_new) = []" "as_dependent_signals (f abort_signal_new) = []"
      "as_abort_algorithms (f abort_signal_new) = []"
  shows "keeps F st (with_new_signal f st)"
proof -
  let ?n = "d_next_object st" and ?st = "with_new_signal f st" and ?st1 = "fst (new_abort_signal st)"
  have k: "keeps F st ?st1" by (rule new_abort_signal_keeps [OF inv])
  note d = dom_invD [OF keeps_inv [OF k]]
  note d0 = dom_invD [OF inv]
  have "signal_ok F (Suc ?n) (d_signals ?st) u" if "u < Suc ?n" for u
  proof (cases "u = ?n")
    case True
    then show ?thesis using f by (simp add: signal_ok_def)
  next
    case False
    with that have u: "u < ?n" by simp
    have "signal_ok F ?n (d_signals st) u" using d0(3) u by (simp add: signals_ok_def)
    then show ?thesis
      by (rule signal_ok_cong) (use False signal_fresh [OF d0(3) u] in auto)
  qed
  then have "signals_ok F ?st"
    using d0(3) by (auto simp: signals_ok_def less_SucI)
  moreover have "events_ok ?st" "listeners_ok ?st" "lifetime_ok ?st" "interest_ok ?st"
    using d by (auto simp: with_new_signal_eq fetch_handles_def
        intro: events_ok_cong listeners_ok_cong lifetime_ok_cong interest_ok_cong)
  moreover have "dom_le st ?st"
    using k unfolding keeps_def dom_le_x_def with_new_signal_eq
    by (auto simp: events_le_def listeners_le_def signals_le_def constants_le_def)
  ultimately show ?thesis by (simp add: keeps_def dom_inv_def)
qed

lemma abort_static_eq:
  "abort_static reason st =
     (with_new_signal (\<lambda>sg. sg\<lparr>as_abort_reason := (case reason of Some r \<Rightarrow> r
        | None \<Rightarrow> JAbortError ''signal is aborted without reason'')\<rparr>) st, d_next_object st)"
  by (simp add: abort_static_def with_new_signal_def Let_def split_beta)

lemma abort_static_keeps [keeps]: "dom_inv F st \<Longrightarrow> keeps F st (fst (abort_static reason st))"
  by (simp add: abort_static_eq with_new_signal_keeps abort_signal_new_def)

lemma controllers_keeps:
  assumes inv: "dom_inv F st" and s: "s < d_next_object st" "\<not> as_dependent (d_signals st s)"
  shows "keeps F st (st\<lparr>d_controllers := d_controllers st @ [s]\<rparr>)"
proof -
  note d = dom_invD [OF inv]
  let ?st = "st\<lparr>d_controllers := d_controllers st @ [s]\<rparr>"
  have "signals_ok F ?st" using d(3) s by (auto simp: signals_ok_def)
  moreover have "events_ok ?st" "listeners_ok ?st" "lifetime_ok ?st" "interest_ok ?st"
    using d by (auto simp: fetch_handles_def
        intro: events_ok_cong listeners_ok_cong lifetime_ok_cong interest_ok_cong)
  moreover have "dom_le st ?st"
    by (intro dom_le_xI events_le_cong listeners_le_cong)
      (auto simp: signals_le_def constants_le_def)
  ultimately show ?thesis by (simp add: keeps_def dom_inv_def)
qed

lemma abort_controller_new_keeps [keeps]:
  "dom_inv F st \<Longrightarrow> keeps F st (fst (abort_controller_new st))"
  using keeps_trans [OF new_abort_signal_keeps controllers_keeps, of F st "d_next_object st"]
    keeps_inv [OF new_abort_signal_keeps, of F st]
  by (simp add: abort_controller_new_def Let_def split_beta abort_signal_new_def)

section \<open>Links\<close>

lemma link_source_signals:
  "r \<noteq> s \<Longrightarrow> d_signals (link_source r s st) = (d_signals st)
     (r := (d_signals st r)\<lparr>as_source_signals := as_source_signals (d_signals st r) @ [s]\<rparr>,
      s := (d_signals st s)\<lparr>as_dependent_signals := as_dependent_signals (d_signals st s) @ [r]\<rparr>)"
  by (simp add: link_source_def on_signal_def fun_upd_twist)

lemma link_source_other:
  "link_source r s st = st\<lparr>d_signals := d_signals (link_source r s st)\<rparr>"
  by (simp add: link_source_def on_signal_def)

lemma signal_ok_link:
  assumes ok: "\<And>u. u < n \<Longrightarrow> signal_ok F n sgs u" and u: "u < n"
    and r: "r < n" "as_dependent (sgs r)"
    and s: "s < n" "\<not> as_dependent (sgs s)" "as_abort_reason (sgs s) = JUndefined"
  shows "signal_ok F n (sgs(r := (sgs r)\<lparr>as_source_signals := as_source_signals (sgs r) @ [s]\<rparr>,
      s := (sgs s)\<lparr>as_dependent_signals := as_dependent_signals (sgs s) @ [r]\<rparr>)) u"
proof -
  have ne: "r \<noteq> s" using r s by auto
  from ok [OF u] show ?thesis
    using r s ne unfolding signal_ok_def by (cases "u = r"; cases "u = s") auto
qed

lemma signals_change_keeps:
  assumes inv: "dom_inv F st" and st': "st' = st\<lparr>d_signals := sgs\<rparr>"
    and ok: "\<And>u. u < d_next_object st \<Longrightarrow> signal_ok F' (d_next_object st) sgs u"
    and le: "\<And>u. u < d_next_object st \<Longrightarrow> signal_le (d_signals st u) (sgs u)"
  shows "dom_inv F' st' \<and> dom_le st st'"
proof -
  note d = dom_invD [OF inv]
  have "signals_ok F' st'"
    using d(3) ok le by (auto simp: signals_ok_def signal_le_def st')
  moreover have "events_ok st'" "listeners_ok st'" "lifetime_ok st'" "interest_ok st'"
    using d by (auto simp: fetch_handles_def st'
        intro: events_ok_cong listeners_ok_cong lifetime_ok_cong interest_ok_cong)
  moreover have "dom_le st st'"
    using le by (intro dom_le_xI events_le_cong listeners_le_cong)
      (auto simp: signals_le_def constants_le_def st')
  ultimately show ?thesis by (simp add: dom_inv_def)
qed

lemma link_source_keeps:
  assumes inv: "dom_inv F st"
    and r: "r < d_next_object st" "as_dependent (d_signals st r)"
    and s: "s < d_next_object st" "\<not> as_dependent (d_signals st s)" "\<not> aborted s st"
    and nr: "\<not> aborted r st"
  shows "keeps F st (link_source r s st)"
proof -
  have ne: "r \<noteq> s" using r s by auto
  have ok: "signal_ok F (d_next_object st) (d_signals st) u" if "u < d_next_object st" for u
    using dom_invD(3) [OF inv] that by (simp add: signals_ok_def)
  show ?thesis
    unfolding keeps_def
  proof (rule signals_change_keeps [OF inv link_source_other])
    fix u assume u: "u < d_next_object st"
    show "signal_ok F (d_next_object st) (d_signals (link_source r s st)) u"
      unfolding link_source_signals [OF ne]
      by (rule signal_ok_link [OF ok u r]) (use s in \<open>simp_all add: aborted_def\<close>)
    show "signal_le (d_signals st u) (d_signals (link_source r s st) u)"
      using s nr unfolding link_source_signals [OF ne] by (auto simp: signal_le_def aborted_def)
  qed
qed

text \<open>What holds while the links of the new signal \<open>r\<close> are made.\<close>

definition linking :: "oid list \<Rightarrow> oid \<Rightarrow> dom \<Rightarrow> dom \<Rightarrow> bool" where
  "linking F r st0 st \<longleftrightarrow>
     keeps F st0 st \<and> r < d_next_object st \<and> as_dependent (d_signals st r) \<and> \<not> aborted r st \<and>
     d_next_object st = d_next_object st0 \<and>
     (\<forall>s. aborted s st = aborted s st0 \<and>
        as_dependent (d_signals st s) = as_dependent (d_signals st0 s))"

lemma link_source_linking:
  assumes l: "linking F r st0 st" and s: "s < d_next_object st" "\<not> as_dependent (d_signals st s)"
    "\<not> aborted s st"
  shows "linking F r st0 (link_source r s st)"
proof -
  have ne: "r \<noteq> s" using l s by (auto simp: linking_def)
  have k: "keeps F st (link_source r s st)"
    using l s by (intro link_source_keeps) (auto simp: linking_def keeps_def)
  have "d_next_object (link_source r s st) = d_next_object st"
    by (simp add: link_source_def on_signal_def)
  moreover have "aborted u (link_source r s st) = aborted u st \<and>
      as_dependent (d_signals (link_source r s st) u) = as_dependent (d_signals st u)" for u
    by (simp add: aborted_def link_source_signals [OF ne])
  ultimately show ?thesis using l k keeps_trans [OF _ k] by (auto simp: linking_def)
qed

lemma link_source_if_new_linking:
  assumes "linking F r st0 st" and "s < d_next_object st" "\<not> as_dependent (d_signals st s)"
    "\<not> aborted s st"
  shows "linking F r st0 (link_source_if_new r s st)"
  using assms link_source_linking [OF assms] by (simp add: link_source_if_new_def)

lemma fold_link_linking:
  assumes "linking F r st0 st"
    and "\<And>s. s \<in> set ss \<Longrightarrow> s < d_next_object st \<and> \<not> as_dependent (d_signals st s) \<and> \<not> aborted s st"
  shows "linking F r st0 (fold (link_source_if_new r) ss st)"
  using assms
proof (induction ss arbitrary: st)
  case Nil
  then show ?case by simp
next
  case (Cons s ss)
  have l: "linking F r st0 (link_source_if_new r s st)"
    using Cons.prems by (intro link_source_if_new_linking) auto
  have "u < d_next_object (link_source_if_new r s st) \<and>
      \<not> as_dependent (d_signals (link_source_if_new r s st) u) \<and>
      \<not> aborted u (link_source_if_new r s st)" if "u \<in> set ss" for u
    using Cons.prems l that by (auto simp: linking_def)
  with Cons.IH [OF l] show ?case by simp
qed

lemma source_not_aborted:
  assumes inv: "dom_inv F st" and s: "s < d_next_object st" "\<not> aborted s st"
    and u: "u \<in> set (as_source_signals (d_signals st s))"
  shows "u < d_next_object st \<and> \<not> as_dependent (d_signals st u) \<and> \<not> aborted u st"
proof -
  have ok: "signal_ok F (d_next_object st) (d_signals st) v" if "v < d_next_object st" for v
    using dom_invD(3) [OF inv] that by (simp add: signals_ok_def)
  have "u < d_next_object st \<and> \<not> as_dependent (d_signals st u) \<and>
      s \<in> set (as_dependent_signals (d_signals st u))"
    using ok [OF s(1)] u unfolding signal_ok_def by blast
  moreover from this have "aborted u st \<Longrightarrow> aborted s st"
    using ok [of u] unfolding signal_ok_def aborted_def by blast
  ultimately show ?thesis using s(2) by blast
qed

lemma link_signal_linking:
  assumes l: "linking F r st0 st" and s: "s < d_next_object st" "\<not> aborted s st"
  shows "linking F r st0 (link_signal r s st)"
proof (cases "as_dependent (d_signals st s)")
  case True
  have inv: "dom_inv F st" using l by (simp add: linking_def keeps_def)
  show ?thesis
    using True fold_link_linking [OF l source_not_aborted [OF inv s]]
    by (simp add: link_signal_def)
next
  case False
  then show ?thesis using link_source_linking [OF l] s by (simp add: link_signal_def)
qed

lemma fold_link_signal_linking:
  assumes "linking F r st0 st"
    and "\<And>s. s \<in> set ss \<Longrightarrow> s < d_next_object st \<and> \<not> aborted s st"
  shows "linking F r st0 (fold (link_signal r) ss st)"
  using assms
proof (induction ss arbitrary: st)
  case Nil
  then show ?case by simp
next
  case (Cons s ss)
  have l: "linking F r st0 (link_signal r s st)"
    using Cons.prems by (intro link_signal_linking) auto
  have "u < d_next_object (link_signal r s st) \<and> \<not> aborted u (link_signal r s st)"
    if "u \<in> set ss" for u
    using Cons.prems l that by (auto simp: linking_def)
  with Cons.IH [OF l] show ?case by simp
qed

lemma first_aborted_None: "first_aborted ss st = None \<longleftrightarrow> (\<forall>s \<in> set ss. \<not> aborted s st)"
  by (induction ss) auto

lemma first_aborted_Some: "first_aborted ss st = Some s \<Longrightarrow> s \<in> set ss \<and> aborted s st"
  by (induction ss) (auto split: if_splits)

text \<open>The dependent signal, by cases on whether a signal of the list is aborted already.\<close>

lemma create_dependent_cases:
  "create_dependent_abort_signal ss st =
     (case first_aborted ss (fst (new_abort_signal st)) of
        Some s \<Rightarrow>
          (with_new_signal (\<lambda>sg. sg\<lparr>as_abort_reason :=
             as_abort_reason (d_signals (fst (new_abort_signal st)) s)\<rparr>) st, d_next_object st)
      | None \<Rightarrow>
          (fold (link_signal (d_next_object st)) ss
             (with_new_signal (\<lambda>sg. sg\<lparr>as_dependent := True\<rparr>) st), d_next_object st))"
  by (auto simp: create_dependent_abort_signal_def with_new_signal_def Let_def split_beta
      split: option.split)

lemma create_dependent_linking:
  assumes inv: "dom_inv F st" and ss: "\<forall>s \<in> set ss. s < d_next_object st"
    and none: "first_aborted ss (fst (new_abort_signal st)) = None"
  shows "linking F (d_next_object st) (with_new_signal (\<lambda>sg. sg\<lparr>as_dependent := True\<rparr>) st)
    (fst (create_dependent_abort_signal ss st))"
proof -
  let ?st = "with_new_signal (\<lambda>sg. sg\<lparr>as_dependent := True\<rparr>) st"
  have k: "keeps F st ?st" using inv by (rule with_new_signal_keeps) (simp_all add: abort_signal_new_def)
  then have l: "linking F (d_next_object st) ?st ?st"
    by (simp add: linking_def keeps_refl keeps_inv aborted_def abort_signal_new_def)
  have "s < d_next_object ?st \<and> \<not> aborted s ?st" if "s \<in> set ss" for s
    using none ss that by (auto simp: first_aborted_None aborted_def less_SucI)
  from fold_link_signal_linking [OF l this] show ?thesis
    using none by (simp add: create_dependent_cases)
qed

lemma abort_any_keeps [keeps]:
  assumes inv: "dom_inv F st" and ss: "list_all (\<lambda>s. is_abort_signal s st) ss"
  shows "keeps F st (fst (abort_any ss st))"
proof (cases "first_aborted ss (fst (new_abort_signal st))")
  case None
  have "keeps F st (with_new_signal (\<lambda>sg. sg\<lparr>as_dependent := True\<rparr>) st)"
    using inv by (rule with_new_signal_keeps) (simp_all add: abort_signal_new_def)
  moreover have "keeps F (with_new_signal (\<lambda>sg. sg\<lparr>as_dependent := True\<rparr>) st)
      (fst (create_dependent_abort_signal ss st))"
    using create_dependent_linking [OF inv _ None] ss
    by (auto simp: linking_def list_all_iff is_abort_signal_def)
  ultimately show ?thesis using keeps_trans by (auto simp: abort_any_def)
next
  case (Some s)
  then show ?thesis
    by (simp add: abort_any_def create_dependent_cases with_new_signal_keeps [OF inv]
        abort_signal_new_def)
qed

end
