(* ===== verification/Dom_Lifetime.thy ===== *)
theory Dom_Lifetime
  imports Dom_Ops
begin

text \<open>
  The operations of extendable and fetch events: the pending count is the number of lifetime
  promises that have not settled, and each loop's interest the number of handles that they hold.
\<close>

section \<open>Counting\<close>

lemma count_ok_add:
  "count_ok debug c n \<Longrightarrow> (debug \<Longrightarrow> c < usize_max) \<Longrightarrow>
     count_ok debug ((c + 1) mod (usize_max + 1)) (Suc n)"
  by (cases debug) (auto simp: count_ok_def mod_simps)

lemma count_ok_remove:
  assumes "count_ok debug c (Suc n)"
  shows "debug \<Longrightarrow> 0 < c" and "count_ok debug ((c + usize_max) mod (usize_max + 1)) n"
proof -
  have "(Suc n mod (usize_max + 1) + usize_max) mod (usize_max + 1) =
      (Suc n + usize_max) mod (usize_max + 1)" by (rule mod_add_left_eq)
  also have "Suc n + usize_max = n + (usize_max + 1)" by simp
  also have "(n + (usize_max + 1)) mod (usize_max + 1) = n mod (usize_max + 1)"
    by (rule mod_add_self2)
  finally have "(Suc n mod (usize_max + 1) + usize_max) mod (usize_max + 1) = n mod (usize_max + 1)" .
  then show "count_ok debug ((c + usize_max) mod (usize_max + 1)) n"
    using assms by (auto simp: count_ok_def)
  show "debug \<Longrightarrow> 0 < c" using assms by (simp add: count_ok_def)
qed

lemma lifetime_reactions_append [simp]:
  "lifetime_reactions (xs @ ys) e = lifetime_reactions xs e + lifetime_reactions ys e"
  "lifetime_reactions [] e = 0"
  "lifetime_reactions (r # rs) e = of_bool (reaction_event r = e) + lifetime_reactions rs e"
  by (simp_all add: lifetime_reactions_def)

lemma reaction_handles_append [simp]:
  "reaction_handles (xs @ ys) l = reaction_handles xs l + reaction_handles ys l"
  "reaction_handles [] l = 0"
  "reaction_handles (r # rs) l = of_bool (reaction_loop r = Some l) + reaction_handles rs l"
  by (simp_all add: reaction_handles_def)

lemma fetch_handles_on_fetch:
  assumes "e < d_next_event st"
  shows "fetch_handles (on_fetch e f st) l + of_bool (holds_fetch l (ev_class (d_events st e)) (d_fetch st e)) =
    fetch_handles st l + of_bool (holds_fetch l (ev_class (d_events st e)) (f (d_fetch st e)))"
proof -
  let ?h = "\<lambda>fe i. of_bool (holds_fetch l (ev_class (d_events st i)) (fe i)) :: nat"
  let ?g = "(d_fetch st)(e := f (d_fetch st e))"
  have split: "(\<Sum>i < d_next_event st. ?h fe i) = ?h fe e + (\<Sum>i \<in> {..<d_next_event st} - {e}. ?h fe i)" for fe
    using assms by (intro sum.remove) auto
  have "(\<Sum>i \<in> {..<d_next_event st} - {e}. ?h ?g i) = (\<Sum>i \<in> {..<d_next_event st} - {e}. ?h (d_fetch st) i)"
    by (rule sum.cong) auto
  then show ?thesis
    using split [of ?g] split [of "d_fetch st"] by (simp add: fetch_handles_def on_fetch_def)
qed

lemma fetch_handles_positive:
  assumes "e < d_next_event st" and "holds_fetch l (ev_class (d_events st e)) (d_fetch st e)"
  shows "0 < fetch_handles st l"
proof -
  have "of_bool (holds_fetch l (ev_class (d_events st e)) (d_fetch st e)) \<le> fetch_handles st l"
    unfolding fetch_handles_def using assms(1) by (intro member_le_sum) auto
  with assms(2) show ?thesis by simp
qed

text \<open>Only the loops, the reactions, the counts and the fields of fetch events change.\<close>

lemma lifetime_change:
  assumes inv: "dom_inv F st"
    and st': "st' = st\<lparr>d_pending_promises_count := p, d_fetch := fe, d_reactions := rs,
      d_loops := ls, d_promises := ps\<rparr>"
    and "lifetime_ok st'" and "interest_ok st'"
  shows "keeps F st st'"
proof -
  note d = dom_invD [OF inv]
  have "events_ok st'" "listeners_ok st'" "signals_ok F st'"
    using d by (auto simp: st' intro: events_ok_cong listeners_ok_cong signals_ok_cong)
  moreover have "dom_le st st'"
    by (intro dom_le_xI events_le_cong listeners_le_cong signals_le_cong)
      (simp_all add: st' constants_le_def)
  ultimately show ?thesis using assms(3,4) by (simp add: keeps_def dom_inv_def)
qed

lemma acquire_handle_count:
  "acquire_handle co i = Some (i', h) \<Longrightarrow> in_count i' = Suc (in_count i)"
  by (cases co) (auto simp: acquire_handle_def require_def Let_def split: if_splits)

lemma drop_handle_cases:
  "drop_handle h i = (if in_count i > 0
     then Some (case h of
               None \<Rightarrow> i\<lparr>in_count := in_count i - 1\<rparr>
             | Some key \<Rightarrow> i\<lparr>in_count := in_count i - 1, in_origins := AList.delete key (in_origins i)\<rparr>)
     else None)"
  by (simp add: drop_handle_def require_def Let_def split: option.split)

lemma el_interest_notify [simp]: "el_interest (notify el) = el_interest el"
  by (simp add: notify_def)

lemma usize_max_pos: "0 < usize_max"
  by (simp add: usize_max_def)

section \<open>Lifetime promises\<close>

lemma lifetime_okD:
  assumes "lifetime_ok st" and "e < d_next_event st"
  shows "count_ok (d_debug st) (d_pending_promises_count st e) (lifetime_reactions (d_reactions st) e)"
    and "ev_class (d_events st e) = ClassFetchEvent \<Longrightarrow>
      fetch_ok (count_list (d_reactions st) (RespondPromise e)) (d_fetch st e)"
    and "ev_class (d_events st e) \<noteq> ClassFetchEvent \<Longrightarrow> RespondPromise e \<notin> set (d_reactions st)"
  using assms by (simp_all add: lifetime_ok_def)

lemma add_lifetime_promise_keeps [keeps]:
  assumes inv: "dom_inv F st" and e: "e < d_next_event st"
  shows "rwp (allowed st) (add_lifetime_promise e caller st) (\<lambda>(st', r). keeps F st st')"
proof (cases "check_can_extend_lifetime e caller st")
  case (Inl err)
  then show ?thesis by (simp add: add_lifetime_promise_def keeps_refl [OF inv])
next
  case ok: (Inr u)
  show ?thesis
  proof (cases "d_active st")
    case None
    with ok show ?thesis
      by (simp add: add_lifetime_promise_def acquire_interest_handle_def keeps_refl [OF inv])
  next
    case (Some l)
    show ?thesis
    proof (cases "acquire_handle (d_origin st) (el_interest (d_loops st l))")
      case None
      with ok Some show ?thesis
        by (simp add: add_lifetime_promise_def acquire_interest_handle_def allowed_def)
    next
      case (Some a)
      obtain i h where a: "a = (i, h)" by fastforce
      note d = dom_invD [OF inv]
      let ?st = "st\<lparr>d_loops := (d_loops st)(l := (d_loops st l)\<lparr>el_interest := i\<rparr>),
        d_reactions := d_reactions st @ [LifetimePromise (l, h) e],
        d_pending_promises_count := (d_pending_promises_count st)(e :=
          (d_pending_promises_count st e + 1) mod (usize_max + 1))\<rparr>"
      have run: "add_lifetime_promise e caller st =
          and_then (debug_assert PendingCountOverflow (d_pending_promises_count st e < usize_max) st)
            (\<lambda>_. Inr (?st, Inr ()))"
        using ok \<open>d_active st = Some l\<close> Some
        by (simp add: add_lifetime_promise_def acquire_interest_handle_def a or_expect_def
            note_lifetime_promise_pending_def debug_assert_def and_then_assoc Let_def)
      have k: "keeps F st ?st" if "d_debug st \<Longrightarrow> d_pending_promises_count st e < usize_max"
      proof (rule lifetime_change [OF inv])
        show "?st = st\<lparr>d_pending_promises_count := (d_pending_promises_count st)(e :=
            (d_pending_promises_count st e + 1) mod (usize_max + 1)), d_fetch := d_fetch st,
          d_reactions := d_reactions st @ [LifetimePromise (l, h) e],
          d_loops := (d_loops st)(l := (d_loops st l)\<lparr>el_interest := i\<rparr>),
          d_promises := d_promises st\<rparr>" by simp
        show "lifetime_ok ?st"
          using d(4) e count_ok_add [OF lifetime_okD(1) [OF d(4) e] that]
          by (auto simp: lifetime_ok_def)
        have "fetch_handles ?st = fetch_handles st" by (simp add: fetch_handles_def fun_eq_iff)
        then show "interest_ok ?st"
          using d(5) acquire_handle_count [OF Some [unfolded a]]
          by (auto simp: interest_ok_def)
      qed
      show ?thesis unfolding run using k by (simp add: debug_assert_def allowed_def)
    qed
  qed
qed

lemma wait_until_keeps [keeps]:
  "dom_inv F st \<Longrightarrow> e < d_next_event st \<Longrightarrow>
     rwp (allowed st) (wait_until e st) (\<lambda>(st', r). keeps F st st')"
  by (simp add: wait_until_def add_lifetime_promise_keeps)

section \<open>Settling\<close>

lemma nth_split: "n < length rs \<Longrightarrow> \<exists>xs ys. rs = xs @ rs ! n # ys \<and>
    take n rs @ drop (Suc n) rs = xs @ ys \<and> rs[n := r] = xs @ r # ys"
  by (metis id_take_nth_drop upd_conv_take_nth_drop)

lemma drop_interest_keeps:
  assumes pos: "0 < in_count (el_interest (d_loops st l))"
    and k: "\<And>i. in_count i = in_count (el_interest (d_loops st l)) - 1 \<Longrightarrow>
      Q (st\<lparr>d_loops := (d_loops st)(l := notify ((d_loops st l)\<lparr>el_interest := i\<rparr>))\<rparr>)"
  shows "rwp ok (drop_interest_handle (l, h) st) Q"
  using pos k by (simp add: drop_interest_handle_def drop_handle_cases split: option.split)

lemma lifetime_settled_keeps:
  assumes inv: "dom_inv F st" and rs: "d_reactions st = xs @ LifetimePromise (l, h) e # ys"
  shows "rwp (allowed st) (lifetime_promise_settled_cb (l, h) e (st\<lparr>d_reactions := xs @ ys\<rparr>))
    (keeps F st)"
proof -
  note d = dom_invD [OF inv]
  have e: "e < d_next_event st" using d(4) by (simp add: lifetime_ok_def rs)
  have n: "lifetime_reactions (d_reactions st) e = Suc (lifetime_reactions (xs @ ys) e)"
    by (simp add: rs)
  note c = count_ok_remove [OF lifetime_okD(1) [OF d(4) e, unfolded n]]
  let ?p = "(d_pending_promises_count st)(e :=
    (d_pending_promises_count st e + usize_max) mod (usize_max + 1))"
  have pos: "0 < in_count (el_interest (d_loops st l))"
    using d(5) by (simp add: interest_ok_def rs)
  have k: "keeps F st (st\<lparr>d_reactions := xs @ ys, d_pending_promises_count := ?p,
      d_loops := (d_loops st)(l := notify ((d_loops st l)\<lparr>el_interest := i\<rparr>))\<rparr>)" (is "keeps F st ?st")
    if i: "in_count i = in_count (el_interest (d_loops st l)) - 1" for i
  proof (rule lifetime_change [OF inv])
    show "?st = st\<lparr>d_pending_promises_count := ?p, d_fetch := d_fetch st, d_reactions := xs @ ys,
        d_loops := (d_loops st)(l := notify ((d_loops st l)\<lparr>el_interest := i\<rparr>)),
        d_promises := d_promises st\<rparr>" by simp
    show "lifetime_ok ?st" using d(4) c(2) by (auto simp: lifetime_ok_def rs)
    have "fetch_handles ?st = fetch_handles st" by (simp add: fetch_handles_def fun_eq_iff)
    then show "interest_ok ?st" using d(5) i by (auto simp: interest_ok_def rs)
  qed
  have a: "d_debug st \<longrightarrow> 0 < d_pending_promises_count st e" using c(1) by blast
  show ?thesis
    using a k pos
    by (auto simp: lifetime_promise_settled_cb_def note_lifetime_promise_settled_def debug_assert_def
        intro!: drop_interest_keeps)
qed

lemma collect_reaction_keeps [keeps]:
  assumes inv: "dom_inv F st"
  shows "rwp (allowed st) (collect_reaction n st) (keeps F st)"
proof (cases "n < length (d_reactions st)")
  case False
  then show ?thesis by (simp add: collect_reaction_def keeps_refl [OF inv])
next
  case True
  show ?thesis
  proof (cases "d_reactions st ! n")
    case (LifetimePromise lh e)
    obtain l h where lh: "lh = (l, h)" by fastforce
    obtain xs ys where rs: "d_reactions st = xs @ LifetimePromise (l, h) e # ys"
      and upd: "(d_reactions st)[n := UnreachablePromise e] = xs @ UnreachablePromise e # ys"
      using nth_split [OF True, of "UnreachablePromise e"] LifetimePromise lh by auto
    note d = dom_invD [OF inv]
    have pos: "0 < in_count (el_interest (d_loops st l))"
      using d(5) by (simp add: interest_ok_def rs)
    have k: "keeps F st (st\<lparr>d_reactions := xs @ UnreachablePromise e # ys,
        d_loops := (d_loops st)(l := notify ((d_loops st l)\<lparr>el_interest := i\<rparr>))\<rparr>)" (is "keeps F st ?st")
      if i: "in_count i = in_count (el_interest (d_loops st l)) - 1" for i
    proof (rule lifetime_change [OF inv])
      show "?st = st\<lparr>d_pending_promises_count := d_pending_promises_count st, d_fetch := d_fetch st,
          d_reactions := xs @ UnreachablePromise e # ys,
          d_loops := (d_loops st)(l := notify ((d_loops st l)\<lparr>el_interest := i\<rparr>)),
          d_promises := d_promises st\<rparr>" by simp
      show "lifetime_ok ?st" using d(4) by (auto simp: lifetime_ok_def rs)
      have "fetch_handles ?st = fetch_handles st" by (simp add: fetch_handles_def fun_eq_iff)
      then show "interest_ok ?st" using d(5) i by (auto simp: interest_ok_def rs)
    qed
    show ?thesis
      using True LifetimePromise k pos
      by (auto simp: collect_reaction_def lh upd intro!: drop_interest_keeps)
  qed (simp_all add: collect_reaction_def keeps_refl [OF inv])
qed

section \<open>Fetch events\<close>

lemma fetch_keeps:
  assumes inv: "dom_inv F st" and e: "has_class e [ClassFetchEvent] st"
    and f: "\<And>n. fetch_ok n (d_fetch st e) \<Longrightarrow> fetch_ok n (f (d_fetch st e))"
    and i: "fe_respond_interest (f (d_fetch st e)) = fe_respond_interest (d_fetch st e)"
  shows "keeps F st (on_fetch e f st)"
proof (rule lifetime_change [OF inv])
  note d = dom_invD [OF inv]
  have c: "e < d_next_event st" using e by (simp add: has_class_def)
  let ?st = "on_fetch e f st"
  show "?st = st\<lparr>d_pending_promises_count := d_pending_promises_count st,
      d_fetch := (d_fetch st)(e := f (d_fetch st e)), d_reactions := d_reactions st,
      d_loops := d_loops st, d_promises := d_promises st\<rparr>" by (simp add: on_fetch_def)
  show "lifetime_ok ?st" using d(4) f by (auto simp: lifetime_ok_def on_fetch_def)
  have "fetch_handles ?st l = fetch_handles st l" for l
    using fetch_handles_on_fetch [OF c, of f l] i by (simp add: holds_fetch_def)
  then show "interest_ok ?st" using d(5) by (simp add: interest_ok_def) (simp add: on_fetch_def)
qed

lemma take_headers_keeps [keeps]:
  "dom_inv F st \<Longrightarrow> has_class e [ClassFetchEvent] st \<Longrightarrow>
     keeps F st (fst (take_potential_response_headers e st))"
  unfolding take_potential_response_headers_def fst_conv
  by (rule fetch_keeps) (simp_all add: fetch_ok_def)

lemma promises_keeps:
  assumes inv: "dom_inv F st"
  shows "keeps F st (st\<lparr>d_promises := ps\<rparr>)"
proof (rule lifetime_change [OF inv])
  show "st\<lparr>d_promises := ps\<rparr> = st\<lparr>d_pending_promises_count := d_pending_promises_count st,
      d_fetch := d_fetch st, d_reactions := d_reactions st, d_loops := d_loops st,
      d_promises := ps\<rparr>" by simp
  show "lifetime_ok (st\<lparr>d_promises := ps\<rparr>)" "interest_ok (st\<lparr>d_promises := ps\<rparr>)"
    using dom_invD [OF inv] by (auto simp: fetch_handles_def intro: lifetime_ok_cong interest_ok_cong)
qed

lemma settle_handled_keeps [keeps]: "dom_inv F st \<Longrightarrow> keeps F st (settle_handled e r st)"
  by (auto simp: settle_handled_def Let_def keeps_refl promises_keeps split: option.split)

lemma allocate_fetch_event_keeps:
  assumes inv: "dom_inv F st" and fl: "flags_ok (ev_flags ev)" and nd: "DISPATCH \<notin> ev_flags ev"
  shows "keeps F st (fst (allocate_fetch_event ev req cid st))"
proof -
  note d = dom_invD [OF inv]
  let ?st = "fst (allocate_fetch_event ev req cid st)"
  let ?n = "d_next_event st"
  let ?f = "fetch_event_default req cid (snd (new_pending (d_promises st)))"
  have st: "?st = st\<lparr>d_promises := fst (new_pending (d_promises st)),
      d_events := (d_events st)(?n := ev\<lparr>ev_class := ClassFetchEvent\<rparr>),
      d_detail := (d_detail st)(?n := JUndefined),
      d_pending_promises_count := (d_pending_promises_count st)(?n := 0),
      d_fetch := (d_fetch st)(?n := ?f), d_next_event := Suc ?n\<rparr>"
    by (simp add: allocate_fetch_event_def allocate_event_def on_fetch_def split_beta Let_def)
  have "events_ok ?st" using d(1) fl by (simp add: st events_ok_def less_Suc_eq)
  moreover have "lifetime_ok ?st"
    using d(4) lifetime_reactions_fresh [OF d(4)] respond_fresh [OF d(4)]
    by (auto simp: st lifetime_ok_def less_Suc_eq count_ok_def fetch_ok_def fetch_event_default_def
        count_list_0_iff)
  moreover have "fetch_handles ?st l = fetch_handles st l" for l
    by (simp add: st fetch_handles_def holds_fetch_def fetch_event_default_def)
  then have "interest_ok ?st" using d(5) by (simp add: interest_ok_def) (simp add: st)
  moreover have "listeners_ok ?st" "signals_ok F ?st"
    using d by (auto simp: st intro: listeners_ok_cong signals_ok_cong)
  moreover have "dom_le st ?st"
    by (intro dom_le_xI listeners_le_cong signals_le_cong)
      (auto simp: st events_le_def constants_le_def nd)
  ultimately show ?thesis by (simp add: keeps_def dom_inv_def)
qed

lemma fetch_event_js_ctor_keeps [keeps]:
  "dom_inv F st \<Longrightarrow> keeps F st (fst (fetch_event_js_ctor ty init req cid st))"
  by (simp add: fetch_event_js_ctor_def allocate_fetch_event_keeps)

lemma create_for_request_keeps [keeps]:
  "dom_inv F st \<Longrightarrow> keeps F st (fst (create_for_request req st))"
  by (simp add: create_for_request_def allocate_fetch_event_keeps)

lemma snd_allocate_fetch_event [simp]:
  "snd (allocate_fetch_event ev req cid st) = d_next_event st"
  "d_next_event (fst (allocate_fetch_event ev req cid st)) = Suc (d_next_event st)"
  "d_global (fst (allocate_fetch_event ev req cid st)) = d_global st"
  "d_next_listener_id (fst (allocate_fetch_event ev req cid st)) = d_next_listener_id st"
  "flags (fst (allocate_fetch_event ev req cid st)) (d_next_event st) = ev_flags ev"
  by (simp_all add: allocate_fetch_event_def allocate_event_def on_fetch_def split_beta Let_def)

lemma fetch_ok_waiting:
  "fetch_ok n f \<Longrightarrow> fe_respond_with_entered f = False \<Longrightarrow> n = 0 \<and> fe_respond_interest f = None"
  by (cases "fe_respond_interest f") (auto simp: fetch_ok_def)

lemma respond_update_order:
  "st\<lparr>d_reactions := a, d_loops := b, d_pending_promises_count := c, d_events := d, d_fetch := f\<rparr> =
     st\<lparr>d_loops := b, d_fetch := f, d_reactions := a, d_pending_promises_count := c, d_events := d\<rparr>"
  by (cases st) simp

lemma respond_with_keeps [keeps]:
  assumes inv: "dom_inv F st" and e: "has_class e [ClassFetchEvent] st"
  shows "rwp (allowed st) (respond_with e st) (\<lambda>(st', r). keeps F st st')"
proof (cases "\<not> is_dispatching e st \<or> fe_respond_with_entered (d_fetch st e) \<or>
    (\<exists>err. check_can_extend_lifetime e ''respondWith'' st = Inl err)")
  case True
  then show ?thesis by (auto simp: respond_with_def keeps_refl [OF inv] split: sum.split)
next
  case False
  then obtain u where ok: "is_dispatching e st" "\<not> fe_respond_with_entered (d_fetch st e)"
    "check_can_extend_lifetime e ''respondWith'' st = Inr u"
    by (cases "check_can_extend_lifetime e ''respondWith'' st") auto
  have c: "e < d_next_event st" "ev_class (d_events st e) = ClassFetchEvent"
    using e by (simp_all add: has_class_def)
  show ?thesis
  proof (cases "d_active st")
    case None
    with ok show ?thesis by (simp add: respond_with_def acquire_interest_handle_def allowed_def Let_def)
  next
    case (Some l)
    show ?thesis
    proof (cases "acquire_handle (d_origin st) (el_interest (d_loops st l))")
      case None
      with ok Some show ?thesis
        by (simp add: respond_with_def acquire_interest_handle_def allowed_def Let_def)
    next
      case (Some a)
      obtain i h where a: "a = (i, h)" by fastforce
      note d = dom_invD [OF inv]
      let ?f = "\<lambda>f. f\<lparr>fe_respond_interest := Some (l, h), fe_respond_with_entered := True,
        fe_wait_to_respond := True\<rparr>"
      let ?st = "st\<lparr>d_loops := (d_loops st)(l := (d_loops st l)\<lparr>el_interest := i\<rparr>),
        d_fetch := (d_fetch st)(e := ?f (d_fetch st e)),
        d_reactions := d_reactions st @ [RespondPromise e],
        d_pending_promises_count := (d_pending_promises_count st)(e :=
          (d_pending_promises_count st e + 1) mod (usize_max + 1))\<rparr>"
      have run: "respond_with e st =
          and_then (debug_assert PendingCountOverflow (d_pending_promises_count st e < usize_max) st)
            (\<lambda>_. Inr (stop_immediate_propagation e ?st, Inr ()))"
        using ok \<open>d_active st = Some l\<close> Some
        by (simp add: respond_with_def acquire_interest_handle_def a or_expect_def on_fetch_def
            note_lifetime_promise_pending_def debug_assert_def and_then_assoc Let_def
            stop_immediate_propagation_def on_event_def respond_update_order)
      have f: "fetch_ok (count_list (d_reactions st) (RespondPromise e)) (d_fetch st e)"
        using lifetime_okD(2) [OF d(4) c] .
      note w = fetch_ok_waiting [OF f ok(2) [simplified eq_False [symmetric]]]
      have k: "keeps F st ?st" if "d_debug st \<Longrightarrow> d_pending_promises_count st e < usize_max"
      proof (rule lifetime_change [OF inv])
        show "?st = st\<lparr>d_pending_promises_count := (d_pending_promises_count st)(e :=
            (d_pending_promises_count st e + 1) mod (usize_max + 1)),
          d_fetch := (d_fetch st)(e := ?f (d_fetch st e)),
          d_reactions := d_reactions st @ [RespondPromise e],
          d_loops := (d_loops st)(l := (d_loops st l)\<lparr>el_interest := i\<rparr>),
          d_promises := d_promises st\<rparr>" by simp
        show "lifetime_ok ?st"
          using d(4) c f w ok(2) count_ok_add [OF lifetime_okD(1) [OF d(4) c(1)] that]
          by (auto simp: lifetime_ok_def fetch_ok_def)
        have "fetch_handles ?st l' = fetch_handles st l' + of_bool (l' = l)" for l'
          using fetch_handles_on_fetch [OF c(1), of ?f l'] c(2) w
          by (simp add: holds_fetch_def fetch_handles_def on_fetch_def)
        then show "interest_ok ?st"
          using d(5) acquire_handle_count [OF Some [unfolded a]]
          by (auto simp: interest_ok_def)
      qed
      have "keeps F st (stop_immediate_propagation e ?st)"
        if "d_debug st \<Longrightarrow> d_pending_promises_count st e < usize_max"
        using keeps_trans [OF k stop_immediate_propagation_keeps [OF keeps_inv [OF k]]] that c by simp
      then show ?thesis unfolding run by (simp add: debug_assert_def allowed_def)
    qed
  qed
qed

text \<open>
  The end of both reactions to the promise of \<open>respondWith\<close>: the interest is taken, the count
  goes down. \<open>f\<close> sets the outcome.
\<close>

lemma respond_settled_keeps:
  assumes inv: "dom_inv F st" and rs: "d_reactions st = xs @ RespondPromise e # ys"
    and f: "\<And>fe. fe_respond_interest (f fe) = fe_respond_interest fe"
      "\<And>fe. fetch_ok 1 fe \<Longrightarrow> fetch_ok 0 ((f fe)\<lparr>fe_respond_interest := None\<rparr>)"
  shows "rwp (allowed st)
    (and_then (take_respond_interest e (on_fetch e f (st\<lparr>d_reactions := xs @ ys\<rparr>)))
      (note_lifetime_promise_settled e)) (keeps F st)"
proof -
  note d = dom_invD [OF inv]
  have e: "e < d_next_event st" using d(4) by (simp add: lifetime_ok_def rs)
  have c: "ev_class (d_events st e) = ClassFetchEvent"
    using lifetime_okD(3) [OF d(4) e] rs by fastforce
  have n: "lifetime_reactions (d_reactions st) e = Suc (lifetime_reactions (xs @ ys) e)"
    by (simp add: rs)
  note cnt = count_ok_remove [OF lifetime_okD(1) [OF d(4) e, unfolded n]]
  let ?p = "(d_pending_promises_count st)(e :=
    (d_pending_promises_count st e + usize_max) mod (usize_max + 1))"
  let ?g = "\<lambda>fe. (f fe)\<lparr>fe_respond_interest := None\<rparr>"
  have fo: "fetch_ok (count_list (d_reactions st) (RespondPromise e)) (d_fetch st e)"
    using lifetime_okD(2) [OF d(4) e c] .
  then have one: "count_list (xs @ ys) (RespondPromise e) = 0"
    by (cases "fe_wait_to_respond (d_fetch st e)") (auto simp: fetch_ok_def rs)
  with fo have fo1: "fetch_ok 1 (d_fetch st e)" by (simp add: rs)
  have k: "keeps F st (st\<lparr>d_reactions := xs @ ys, d_fetch := (d_fetch st)(e := ?g (d_fetch st e)),
      d_loops := ls, d_pending_promises_count := ?p\<rparr>)" (is "keeps F st ?st")
    if ls: "\<And>l. in_count (el_interest (ls l)) + of_bool (holds_fetch l ClassFetchEvent (d_fetch st e)) =
      in_count (el_interest (d_loops st l))" for ls
  proof (rule lifetime_change [OF inv])
    show "?st = st\<lparr>d_pending_promises_count := ?p, d_fetch := (d_fetch st)(e := ?g (d_fetch st e)),
        d_reactions := xs @ ys, d_loops := ls, d_promises := d_promises st\<rparr>" by simp
    show "lifetime_ok ?st" using d(4) cnt(2) f(2) [OF fo1] one by (auto simp: lifetime_ok_def rs)
    have "fetch_handles ?st l = fetch_handles (on_fetch e ?g st) l" for l
      by (rule fetch_handles_cong) (simp_all add: on_fetch_def)
    moreover have "\<not> holds_fetch l (ev_class (d_events st e)) (?g (d_fetch st e))" for l
      by (simp add: holds_fetch_def)
    ultimately have h: "fetch_handles ?st l + of_bool (holds_fetch l ClassFetchEvent (d_fetch st e)) =
        fetch_handles st l" for l
      using fetch_handles_on_fetch [OF e, of ?g l] c by simp
    have all: "in_count (el_interest (d_loops st l)) =
        reaction_handles (xs @ ys) l + fetch_handles st l" for l
      using d(5) by (simp add: interest_ok_def rs)
    have "in_count (el_interest (ls l)) = reaction_handles (xs @ ys) l + fetch_handles ?st l" for l
      using all [of l] h [of l] ls [of l] by linarith
    then show "interest_ok ?st" by (simp add: interest_ok_def)
  qed
  have a: "d_debug st \<longrightarrow> 0 < d_pending_promises_count st e" using cnt(1) by blast
  show ?thesis
  proof (cases "fe_respond_interest (d_fetch st e)")
    case None
    show ?thesis using k [of "d_loops st"] a None
      by (simp add: take_respond_interest_def drop_optional_handle_def f(1) on_fetch_def
          note_lifetime_promise_settled_def debug_assert_def holds_fetch_def)
  next
    case (Some lh)
    obtain l h where lh: "lh = (l, h)" by fastforce
    have pos: "0 < in_count (el_interest (d_loops st l))"
      using d(5) fetch_handles_positive [OF e, of l] c Some
      by (simp add: interest_ok_def holds_fetch_def lh)
    have kk: "keeps F st (st\<lparr>d_reactions := xs @ ys, d_fetch := (d_fetch st)(e := ?g (d_fetch st e)),
        d_loops := (d_loops st)(l := notify ((d_loops st l)\<lparr>el_interest := i\<rparr>)),
        d_pending_promises_count := ?p\<rparr>)"
      if "in_count i = in_count (el_interest (d_loops st l)) - 1" for i
      using that pos Some by (intro k) (auto simp: holds_fetch_def lh)
    show ?thesis
      using a kk pos Some
      by (auto simp: take_respond_interest_def drop_optional_handle_def f(1) on_fetch_def lh
          note_lifetime_promise_settled_def debug_assert_def intro!: drop_interest_keeps)
  qed
qed

lemma fetch_ok_settled:
  assumes "fetch_ok 1 fe"
  shows "fetch_ok 0 (fe\<lparr>fe_respond_with_error := True, fe_wait_to_respond := False,
      fe_respond_interest := None\<rparr>)"
    and "fetch_ok 0 (fe\<lparr>fe_potential_response_headers := Some hs, fe_potential_response := Some r,
      fe_wait_to_respond := False, fe_respond_interest := None\<rparr>)"
proof -
  have "fe_wait_to_respond fe" using assms by (cases "fe_wait_to_respond fe") (simp_all add: fetch_ok_def)
  with assms show "fetch_ok 0 (fe\<lparr>fe_respond_with_error := True, fe_wait_to_respond := False,
      fe_respond_interest := None\<rparr>)"
    and "fetch_ok 0 (fe\<lparr>fe_potential_response_headers := Some hs, fe_potential_response := Some r,
      fe_wait_to_respond := False, fe_respond_interest := None\<rparr>)"
    by (simp_all add: fetch_ok_def)
qed

lemma run_reaction_job_keeps [keeps]:
  assumes inv: "dom_inv F st"
  shows "rwp (allowed st) (run_reaction_job n out st) (keeps F st)"
proof (cases "n < length (d_reactions st)")
  case False
  then show ?thesis by (simp add: run_reaction_job_def keeps_refl [OF inv])
next
  case True
  obtain xs ys where rs: "d_reactions st = xs @ d_reactions st ! n # ys"
    and rm: "take n (d_reactions st) @ drop (Suc n) (d_reactions st) = xs @ ys"
    using nth_split [OF True] by metis
  show ?thesis
  proof (cases "d_reactions st ! n")
    case (LifetimePromise lh e)
    obtain l h where lh: "lh = (l, h)" by fastforce
    show ?thesis
      using lifetime_settled_keeps [OF inv rs [unfolded LifetimePromise lh]]
      by (simp add: run_reaction_job_def True rm LifetimePromise lh)
  next
    case (UnreachablePromise e)
    then show ?thesis by (simp add: run_reaction_job_def True keeps_refl [OF inv])
  next
    case (RespondPromise e)
    note k = respond_settled_keeps [OF inv rs [unfolded RespondPromise]]
    show ?thesis
    proof (cases out)
      case (FulfilledWith r unusable hs)
      show ?thesis
      proof (cases unusable)
        case True
        have eq: "on_fetch e (\<lambda>f. f\<lparr>fe_wait_to_respond := False\<rparr>) (on_fetch e (\<lambda>f. f\<lparr>fe_respond_with_error := True\<rparr>) s) =
            on_fetch e (\<lambda>f. f\<lparr>fe_respond_with_error := True, fe_wait_to_respond := False\<rparr>) s" for s
          by (simp add: on_fetch_def)
        show ?thesis
          using k [of "\<lambda>f. f\<lparr>fe_respond_with_error := True, fe_wait_to_respond := False\<rparr>"] fetch_ok_settled(1)
          by (simp add: run_reaction_job_def \<open>n < length (d_reactions st)\<close> rm RespondPromise
              FulfilledWith True on_respond_fulfilled_def eq)
      next
        case False
        have eq: "on_fetch e (\<lambda>f. f\<lparr>fe_wait_to_respond := False\<rparr>)
            (on_fetch e (\<lambda>f. f\<lparr>fe_potential_response_headers := Some hs, fe_potential_response := Some r\<rparr>) s) =
            on_fetch e (\<lambda>f. f\<lparr>fe_potential_response_headers := Some hs, fe_potential_response := Some r,
              fe_wait_to_respond := False\<rparr>) s" for s
          by (simp add: on_fetch_def)
        show ?thesis
          using k [of "\<lambda>f. f\<lparr>fe_potential_response_headers := Some hs, fe_potential_response := Some r,
              fe_wait_to_respond := False\<rparr>"] fetch_ok_settled(2)
          by (simp add: run_reaction_job_def \<open>n < length (d_reactions st)\<close> rm RespondPromise
              FulfilledWith False on_respond_fulfilled_def eq)
      qed
    next
      case RejectedWith
      then show ?thesis
        using k [of "\<lambda>f. f\<lparr>fe_respond_with_error := True, fe_wait_to_respond := False\<rparr>"] fetch_ok_settled(1)
        by (simp add: run_reaction_job_def True rm RespondPromise on_respond_rejected_def)
    qed
  qed
qed

lemma abandon_respond_keeps [keeps]:
  assumes inv: "dom_inv F st" and e: "has_class e [ClassFetchEvent] st"
  shows "rwp (allowed st) (abandon_respond e st) (keeps F st)"
proof -
  note d = dom_invD [OF inv]
  have c: "e < d_next_event st" "ev_class (d_events st e) = ClassFetchEvent"
    using e by (simp_all add: has_class_def)
  let ?g = "\<lambda>fe. fe\<lparr>fe_respond_interest := None\<rparr>"
  show ?thesis
  proof (cases "fe_respond_interest (d_fetch st e)")
    case None
    then have "on_fetch e ?g st = st" by (simp add: on_fetch_def fun_upd_idem)
    with None show ?thesis
      by (simp add: abandon_respond_def take_respond_interest_def drop_optional_handle_def
          keeps_refl [OF inv])
  next
    case (Some lh)
    obtain l h where lh: "lh = (l, h)" by fastforce
    have pos: "0 < in_count (el_interest (d_loops st l))"
      using d(5) fetch_handles_positive [OF c(1), of l] c Some
      by (simp add: interest_ok_def holds_fetch_def lh)
    have k: "keeps F st (st\<lparr>d_fetch := (d_fetch st)(e := ?g (d_fetch st e)),
        d_loops := (d_loops st)(l := notify ((d_loops st l)\<lparr>el_interest := i\<rparr>))\<rparr>)" (is "keeps F st ?st")
      if i: "in_count i = in_count (el_interest (d_loops st l)) - 1" for i
    proof (rule lifetime_change [OF inv])
      show "?st = st\<lparr>d_pending_promises_count := d_pending_promises_count st,
          d_fetch := (d_fetch st)(e := ?g (d_fetch st e)), d_reactions := d_reactions st,
          d_loops := (d_loops st)(l := notify ((d_loops st l)\<lparr>el_interest := i\<rparr>)),
          d_promises := d_promises st\<rparr>" by simp
      show "lifetime_ok ?st" using d(4) by (auto simp: lifetime_ok_def fetch_ok_def)
      have "fetch_handles ?st l' = fetch_handles (on_fetch e ?g st) l'" for l'
        by (rule fetch_handles_cong) (simp_all add: on_fetch_def)
      then have h: "fetch_handles ?st l' + of_bool (l' = l) = fetch_handles st l'" for l'
        using fetch_handles_on_fetch [OF c(1), of ?g l'] c(2) Some
        by (auto simp: holds_fetch_def lh)
      have "in_count (el_interest (d_loops ?st l')) =
          reaction_handles (d_reactions ?st) l' + fetch_handles ?st l'" for l'
        using d(5) i pos h [of l'] by (auto simp: interest_ok_def split: if_splits)
      then show "interest_ok ?st" by (simp add: interest_ok_def)
    qed
    show ?thesis
      using k pos Some
      by (auto simp: abandon_respond_def take_respond_interest_def drop_optional_handle_def
          on_fetch_def lh intro!: drop_interest_keeps)
  qed
qed

end
