(* ===== verification/Dom_Dispatch.thy ===== *)
theory Dom_Dispatch
  imports Dom_Signal_Ops Dom_Lifetime
begin

text \<open>
  The operations that run JavaScript: reading the options of a listener, dispatching an event,
  signalling abort. They are shown correct once, for any user code that keeps the invariant and
  respects the frame.
\<close>

section \<open>Runs that keep the invariant\<close>

lemma keeps_le: "keeps F st st' \<Longrightarrow> dom_le st st'"
  by (simp add: keeps_def)

lemma js_keeps:
  assumes "rwp (allowed st) m (\<lambda>(st', r). keeps F st st')"
    and "\<And>st' x. keeps F st st' \<Longrightarrow> dom_inv F st' \<Longrightarrow> rwp (allowed st') (f st' x) (\<lambda>(st'', r). keeps F st' st'')"
  shows "rwp (allowed st) (js_then m f) (\<lambda>(st', r). keeps F st st')"
proof -
  have "rwp (allowed st) (f st' x) (\<lambda>(st'', r). keeps F st st'')" if k: "keeps F st st'" for st' x
    using assms(2) [OF k keeps_inv [OF k], of x] keeps_trans [OF k]
    by (auto simp: allowed_le [OF keeps_le [OF k]] elim!: rwp_mono)
  with assms(1) show ?thesis by (auto elim!: rwp_mono split: sum.split)
qed

lemma run_keeps:
  assumes "rwp (allowed st) m (\<lambda>(st', r). keeps F st st')"
    and "\<And>st' x. keeps F st st' \<Longrightarrow> dom_inv F st' \<Longrightarrow> rwp (allowed st') (f (st', x)) (keeps F st')"
  shows "rwp (allowed st) (and_then m f) (keeps F st)"
proof -
  have "rwp (allowed st) (f (st', x)) (keeps F st)" if k: "keeps F st st'" for st' x
    using assms(2) [OF k keeps_inv [OF k], of x] keeps_trans [OF k]
    by (auto simp: allowed_le [OF keeps_le [OF k]] elim!: rwp_mono)
  with assms(1) show ?thesis by (auto elim!: rwp_mono)
qed

lemma then_keeps:
  assumes "rwp (allowed st) m (keeps F st)"
    and "\<And>st'. keeps F st st' \<Longrightarrow> dom_inv F st' \<Longrightarrow> rwp (allowed st') (f st') (keeps F st')"
  shows "rwp (allowed st) (and_then m f) (keeps F st)"
proof -
  have "rwp (allowed st) (f st') (keeps F st)" if k: "keeps F st st'" for st'
    using assms(2) [OF k keeps_inv [OF k]] keeps_trans [OF k]
    by (auto simp: allowed_le [OF keeps_le [OF k]] elim!: rwp_mono)
  with assms(1) show ?thesis by (auto elim!: rwp_mono)
qed

lemma run_cmds_keeps:
  assumes "\<And>c st'. c \<in> set cs \<Longrightarrow> keeps F st st' \<Longrightarrow> rwp (allowed st') (f c st') (keeps F st')"
    and "dom_inv F st"
  shows "rwp (allowed st) (run_cmds f cs st) (keeps F st)"
  using assms
proof (induction cs arbitrary: st)
  case Nil
  then show ?case by (simp add: keeps_refl)
next
  case (Cons c cs)
  show ?case
    unfolding run_cmds.simps
  proof (rule then_keeps)
    show "rwp (allowed st) (f c st) (keeps F st)"
      using Cons.prems(1) [of c st] keeps_refl [OF Cons.prems(2)] by simp
    fix st' assume k: "keeps F st st'"
    show "rwp (allowed st') (run_cmds f cs st') (keeps F st')"
      using keeps_trans [OF k] Cons.prems(1) by (intro Cons.IH keeps_inv [OF k]) simp_all
  qed
qed

section \<open>The passive flag\<close>

lemma passive_flag_inv:
  assumes inv: "dom_inv F st" and e: "e < d_next_event st" "DISPATCH \<in> flags st e"
  shows "dom_inv F (on_flags e (set_flag IN_PASSIVE_LISTENER v) st)"
    and "dom_le_x (Some e) st (on_flags e (set_flag IN_PASSIVE_LISTENER v) st)"
  using flags_okD [OF inv e(1)] e(2)
  by (auto intro!: on_event_inv [OF inv] on_event_le simp: flags_ok_def set_flag_def)

lemma set_in_passive_run:
  "DISPATCH \<in> flags st e \<Longrightarrow>
     set_in_passive_listener e v st = Inr (on_flags e (set_flag IN_PASSIVE_LISTENER v) st)"
  by (simp add: set_in_passive_listener_def debug_assert_def is_dispatching_def or_panic_def)

lemma listeners_le_ids:
  "listeners_le st st' \<Longrightarrow> i < d_next_listener_id st \<Longrightarrow> i \<in> ids_of (d_listeners st' t) \<Longrightarrow>
     i \<in> ids_of (d_listeners st t)"
  unfolding listeners_le_def ids_of_def by blast

lemma extract_listener:
  assumes "List.extract (\<lambda>l. li_id l = i) ls = Some (xs, l, ys)"
  shows "ls = xs @ l # ys" and "li_id l = i"
    and "distinct (map li_id ls) \<Longrightarrow> i \<notin> ids_of (xs @ ys)" and "subseq (xs @ ys) ls"
proof -
  show ls: "ls = xs @ l # ys" and i: "li_id l = i"
    using assms by (auto simp: extract_Some_iff)
  show "distinct (map li_id ls) \<Longrightarrow> i \<notin> ids_of (xs @ ys)"
    by (auto simp: ls i [symmetric] ids_of_def image_iff)
  show "subseq (xs @ ys) ls" unfolding ls by (intro list_emb_append_mono) auto
qed

lemma extract_None: "List.extract (\<lambda>l. li_id l = i) ls = None \<longleftrightarrow> i \<notin> ids_of ls"
  by (auto simp: extract_None_iff ids_of_def)

text \<open>What the loop over the snapshot of listeners achieves.\<close>

definition loop_done ::
    "oid list \<Rightarrow> eid \<Rightarrow> oid \<Rightarrow> listener_snapshot list \<Rightarrow> dom \<Rightarrow> dom \<times> nat list \<Rightarrow> bool" where
  "loop_done F e t snaps st r \<longleftrightarrow>
     (case r of (st', called) \<Rightarrow>
        dom_inv F st' \<and> dom_le_x (Some e) st st' \<and> DISPATCH \<in> flags st' e \<and>
        (IN_PASSIVE_LISTENER \<notin> flags st e \<longrightarrow> IN_PASSIVE_LISTENER \<notin> flags st' e) \<and>
        subseq called (map sn_id snaps) \<and> set called \<subseteq> ids_of (d_listeners st t) \<and>
        (\<forall>s \<in> set snaps. sn_once s \<and> sn_id s \<in> set called \<longrightarrow>
           sn_id s \<notin> ids_of (d_listeners st' t)) \<and>
        (\<forall>s \<in> set snaps. sn_id s \<in> set called \<or> sn_id s \<notin> ids_of (d_listeners st' t) \<or>
           STOP_IMMEDIATE_PROPAGATION \<in> flags st' e) \<and>
        (CANCELABLE \<in> flags st' e \<longleftrightarrow> CANCELABLE \<in> flags st e) \<and>
        (CANCELABLE \<notin> flags st e \<or> (\<forall>s \<in> set snaps. sn_passive s = Some True) \<longrightarrow>
           (CANCELED \<in> flags st' e \<longleftrightarrow> CANCELED \<in> flags st e)))"

text \<open>One turn of the loop up to the test of the stop flag, from \<open>st\<close> to \<open>st'\<close>.\<close>

definition turn_state :: "oid list \<Rightarrow> eid \<Rightarrow> bool \<Rightarrow> dom \<Rightarrow> dom \<Rightarrow> bool" where
  "turn_state F e p st st' \<longleftrightarrow>
     dom_inv F st' \<and> dom_le_x (Some e) st st' \<and> DISPATCH \<in> flags st' e \<and>
     (CANCELABLE \<in> flags st' e \<longleftrightarrow> CANCELABLE \<in> flags st e) \<and>
     (CANCELABLE \<notin> flags st e \<or> p \<longrightarrow> (CANCELED \<in> flags st' e \<longleftrightarrow> CANCELED \<in> flags st e))"

definition turn_done :: "oid list \<Rightarrow> eid \<Rightarrow> bool \<Rightarrow> dom \<Rightarrow> dom \<Rightarrow> bool" where
  "turn_done F e p st st' \<longleftrightarrow> turn_state F e p st st' \<and> IN_PASSIVE_LISTENER \<notin> flags st' e"

lemma distinct_map_neq: "distinct (map f (x # xs)) \<Longrightarrow> s \<in> set xs \<Longrightarrow> f s \<noteq> f x"
  by (metis distinct.simps(2) image_eqI list.set_map list.simps(9))

lemma loop_done_cons:
  assumes t: "turn_done F e (sn_passive snap = Some True) st st5"
    and called: "sn_id snap \<in> ids_of (d_listeners st t)"
    and once: "sn_once snap \<Longrightarrow> sn_id snap \<notin> ids_of (d_listeners st5 t)"
    and ids: "\<forall>s \<in> set (snap # snaps). sn_id s < d_next_listener_id st"
    and dist: "distinct (map sn_id (snap # snaps))"
    and rest: "loop_done F e t snaps st5 (st6, cs)"
  shows "loop_done F e t (snap # snaps) st (st6, sn_id snap # cs)"
proof -
  have le5: "listeners_le st st5" and le6: "listeners_le st5 st6"
    using t rest by (simp_all add: turn_done_def turn_state_def loop_done_def dom_le_x_def)
  have n5: "d_next_listener_id st \<le> d_next_listener_id st5" using le5 by (simp add: listeners_le_def)
  have sub: "subseq cs (map sn_id snaps)" using rest by (simp add: loop_done_def)
  have lt: "i < d_next_listener_id st" if "i \<in> set cs" for i
    using subsetD [OF subseq_set [OF sub] that] ids by auto
  have "set cs \<subseteq> ids_of (d_listeners st5 t)" using rest by (simp add: loop_done_def)
  then have cs: "set cs \<subseteq> ids_of (d_listeners st t)"
    using listeners_le_ids [OF le5 lt] by blast
  have gone: "sn_id snap \<notin> ids_of (d_listeners st6 t)" if "sn_id snap \<notin> ids_of (d_listeners st5 t)"
    using that listeners_le_ids [OF le6, of "sn_id snap" t] ids n5 by auto
  have trans: "dom_le_x (Some e) st st6"
    using t rest dom_le_trans by (auto simp: turn_done_def turn_state_def loop_done_def)
  have onces: "sn_id s \<notin> ids_of (d_listeners st6 t)"
    if "s \<in> set (snap # snaps)" "sn_once s" "sn_id s \<in> set (sn_id snap # cs)" for s
  proof (cases "s = snap")
    case True
    with that gone once show ?thesis by blast
  next
    case False
    with that(1) have s: "s \<in> set snaps" by simp
    with that distinct_map_neq [OF dist s] rest show ?thesis by (simp add: loop_done_def)
  qed
  have cancel: "(CANCELABLE \<in> flags st6 e \<longleftrightarrow> CANCELABLE \<in> flags st e) \<and>
      (CANCELABLE \<notin> flags st e \<or> (\<forall>s \<in> set (snap # snaps). sn_passive s = Some True) \<longrightarrow>
         (CANCELED \<in> flags st6 e \<longleftrightarrow> CANCELED \<in> flags st e))"
    using t rest unfolding loop_done_def turn_done_def turn_state_def prod.case list.set
    by (metis insert_iff)
  have "IN_PASSIVE_LISTENER \<notin> flags st6 e"
    using t rest by (simp add: turn_done_def loop_done_def)
  then show ?thesis
    using rest called cs trans sub onces cancel unfolding loop_done_def by auto
qed

lemma loop_done_skip:
  assumes inv: "dom_inv F st" and gone: "sn_id snap \<notin> ids_of (d_listeners st t)"
    and ids: "\<forall>s \<in> set (snap # snaps). sn_id s < d_next_listener_id st"
    and rest: "loop_done F e t snaps st (st6, cs)"
  shows "loop_done F e t (snap # snaps) st (st6, cs)"
proof -
  have le: "listeners_le st st6" using rest by (simp add: loop_done_def dom_le_x_def)
  have "sn_id snap \<notin> ids_of (d_listeners st6 t)"
    using gone listeners_le_ids [OF le, of "sn_id snap" t] ids by auto
  with rest show ?thesis unfolding loop_done_def by auto
qed

lemma loop_done_break:
  assumes t: "turn_done F e (sn_passive snap = Some True) st st5"
    and called: "sn_id snap \<in> ids_of (d_listeners st t)"
    and once: "sn_once snap \<Longrightarrow> sn_id snap \<notin> ids_of (d_listeners st5 t)"
    and stop: "STOP_IMMEDIATE_PROPAGATION \<in> flags st5 e"
    and dist: "distinct (map sn_id (snap # snaps))"
  shows "loop_done F e t (snap # snaps) st (st5, [sn_id snap])"
proof -
  have "sn_id s \<notin> ids_of (d_listeners st5 t)"
    if "s \<in> set (snap # snaps)" "sn_once s" "sn_id s \<in> set [sn_id snap]" for s
  proof -
    from that have "s = snap" using distinct_map_neq [OF dist, of s] by auto
    with that once show ?thesis by blast
  qed
  then show ?thesis using t called stop unfolding loop_done_def turn_done_def turn_state_def by auto
qed

section \<open>User code\<close>

locale dom_user_code =
  fixes U :: dom_user
  assumes user_ok: "dom_inv F st \<Longrightarrow> rwp (allowed st) (U call st) (\<lambda>(st', r). keeps F st st')"
begin

lemma read_bool_option_keeps:
  "dom_inv F st \<Longrightarrow> rwp (allowed st) (read_bool_option U d name st) (\<lambda>(st', r). keeps F st st')"
  unfolding read_bool_option_def
  by (cases d) (auto intro!: js_keeps user_ok keeps_refl intro: keeps_inv simp del: rwp_js_then)

lemma flatten_options_keeps:
  "dom_inv F st \<Longrightarrow> rwp (allowed st) (flatten_options U o' st) (\<lambda>(st', r). keeps F st st')"
  by (auto simp: flatten_options_def keeps_refl read_bool_option_keeps split: options_argument.split)

lemma read_signal_option_keeps:
  "dom_inv F st \<Longrightarrow> rwp (allowed st) (read_signal_option U d st) (\<lambda>(st', r). keeps F st st')"
  unfolding read_signal_option_def
  by (rule js_keeps [OF user_ok]) (auto simp: keeps_refl intro: keeps_inv split: argument.split)

lemma flatten_more_options_keeps:
  assumes inv: "dom_inv F st"
  shows "rwp (allowed st) (flatten_more_options U o' st) (\<lambda>(st', r). keeps F st st')"
proof -
  have passive_option: "rwp (allowed st) (case dictionary of
                     Some obj \<Rightarrow>
                       js_then (U (GetProperty obj ''passive'') st) (\<lambda>st3 v.
                         Inr (st3, Inr (if v \<noteq> ArgUndefined then Some (to_boolean v) else None)))
                   | None \<Rightarrow> Inr (st, Inr None)) (\<lambda>(st', r). keeps F st st')"
    if "dom_inv F st" for st dictionary
    using that by (cases dictionary)
      (auto intro!: js_keeps user_ok keeps_refl intro: keeps_inv simp del: rwp_js_then)
  have signal: "rwp (allowed st) (case dictionary of
                     Some obj \<Rightarrow> read_signal_option U obj st
                   | None \<Rightarrow> Inr (st, Inr None)) (\<lambda>(st', r). keeps F st st')"
    if "dom_inv F st" for st dictionary
    using that by (cases dictionary) (auto simp: keeps_refl read_signal_option_keeps)
  show ?thesis
    unfolding flatten_more_options_def
    by (auto simp: keeps_refl inv simp del: rwp_js_then split: options_argument.split
        intro!: js_keeps read_bool_option_keeps passive_option signal inv intro: keeps_inv)
qed

lemma event_listener_argument_object:
  "event_listener_argument cb = Inr (Some v) \<Longrightarrow> is_object v"
  by (auto simp: event_listener_argument_def split: if_splits)

lemma add_event_listener_keeps:
  "dom_inv F st \<Longrightarrow>
     rwp (allowed st) (add_event_listener U t ty cb o' st) (\<lambda>(st', r). keeps F st st')"
  unfolding add_event_listener_def
  by (rule js_keeps [OF flatten_more_options_keeps])
    (auto simp: keeps_refl keeps_inv dest: event_listener_argument_object
      intro: add_an_event_listener_keeps keeps_inv split: sum.split option.split)

lemma remove_event_listener_keeps:
  "dom_inv F st \<Longrightarrow>
     rwp (allowed st) (remove_event_listener U t ty cb o' st) (\<lambda>(st', r). keeps F st st')"
  unfolding remove_event_listener_def
  by (rule js_keeps [OF flatten_options_keeps])
    (auto simp: keeps_refl keeps_inv intro: keeps_inv remove_an_event_listener_keeps
      split: sum.split option.split)

lemma clean_up_keeps:
  "dom_inv F st \<Longrightarrow> rwp (allowed st) (clean_up_after_running_script U stack st) (keeps F st)"
  unfolding clean_up_after_running_script_def
  using user_ok [of F st Microtasks] by (auto simp: keeps_refl elim!: rwp_mono)

lemma call_event_listener_keeps:
  "dom_inv F st \<Longrightarrow>
     rwp (allowed st) (call_event_listener U t l e st) (\<lambda>(st', r). keeps F st st')"
  unfolding call_event_listener_def
  by (auto intro!: js_keeps user_ok keeps_refl intro: keeps_inv simp del: rwp_js_then)

end

section \<open>Dispatch\<close>

text \<open>Within a turn, from the moment the passive flag is set to the moment it is cleared.\<close>

definition mid_turn :: "oid list \<Rightarrow> eid \<Rightarrow> bool \<Rightarrow> dom \<Rightarrow> dom \<Rightarrow> bool" where
  "mid_turn F e p st st' \<longleftrightarrow> turn_state F e p st st' \<and> (p \<longrightarrow> IN_PASSIVE_LISTENER \<in> flags st' e)"

lemma events_leD:
  "dom_le st st' \<Longrightarrow> e < d_next_event st \<Longrightarrow>
     event_le (d_events st e) (d_events st' e) \<and> e < d_next_event st'"
  by (auto simp: dom_le_x_def events_le_def)

lemma mid_turn_step:
  assumes m: "mid_turn F e p st st'" and e: "e < d_next_event st" and k: "keeps F st' st''"
  shows "mid_turn F e p st st''"
proof -
  have le: "dom_le st' st''" and inv: "dom_inv F st''" using k by (simp_all add: keeps_def)
  have tr: "dom_le_x (Some e) st st''"
    using m dom_le_trans [OF _ dom_le_any [OF le]] by (auto simp: mid_turn_def turn_done_def turn_state_def)
  have "e < d_next_event st'"
    using m e by (auto simp: mid_turn_def turn_done_def turn_state_def dom_le_x_def events_le_def)
  with events_leD [OF le] have "event_le (d_events st' e) (d_events st'' e)" by blast
  then show ?thesis
    using m inv tr unfolding mid_turn_def turn_done_def turn_state_def event_le_def by auto
qed

lemma turn_start:
  assumes inv: "dom_inv F st" and e: "e < d_next_event st" "DISPATCH \<in> flags st e"
    and sub: "subseq ls (d_listeners st t)"
    and st1: "st1 = (if once then on_listeners t (\<lambda>_. ls) st else st)"
  shows "rwp (allowed st) (if p then set_in_passive_listener e True st1 else Inr st1)
    (mid_turn F e p st)"
proof -
  have k: "keeps F st st1"
    using on_listeners_shrink [OF inv, of "\<lambda>_. ls" t] sub by (simp add: st1 keeps_refl [OF inv])
  have f: "flags st1 e' = flags st e'" "d_next_event st1 = d_next_event st" for e'
    by (simp_all add: st1 on_listeners_def)
  have e1: "e < d_next_event st1" "DISPATCH \<in> flags st1 e" using e f by simp_all
  note v = passive_flag_inv [OF keeps_inv [OF k] e1, of True]
  show ?thesis
    using k e f v dom_le_trans [OF dom_le_any [OF keeps_le [OF k]] v(2)] e1
    by (auto simp: set_in_passive_run mid_turn_def turn_done_def turn_state_def keeps_def dom_le_any on_event_def
        set_flag_def)
qed

lemma turn_end:
  assumes m: "mid_turn F e p st st'" and e: "e < d_next_event st"
  shows "rwp ok (set_in_passive_listener e False st') (turn_done F e p st)"
proof -
  have e1: "e < d_next_event st'" "DISPATCH \<in> flags st' e" "dom_inv F st'" "dom_le_x (Some e) st st'"
    using m e by (auto simp: mid_turn_def turn_done_def turn_state_def dom_le_x_def events_le_def)
  note v = passive_flag_inv [OF e1(3,1,2), of False]
  show ?thesis
    using m v dom_le_trans [OF e1(4) v(2)] e1(2)
    by (auto simp: set_in_passive_run mid_turn_def turn_done_def turn_state_def on_event_def set_flag_def)
qed

text \<open>The call of one listener, with its passive flag.\<close>

definition listener_turn ::
    "dom_user \<Rightarrow> script_stack_state \<Rightarrow> eid \<Rightarrow> oid \<Rightarrow> bool \<Rightarrow> argument \<Rightarrow> dom \<Rightarrow> (panic, dom) run" where
  "listener_turn U stack e t p cb st1 =
     and_then (if p then set_in_passive_listener e True st1 else Inr st1)
       (\<lambda>st2. and_then (call_event_listener U t cb e st2)
       (\<lambda>(st3, _). and_then (clean_up_after_running_script U stack st3)
       (set_in_passive_listener e False)))"

lemma invoke_loop_turn:
  "List.extract (\<lambda>l. li_id l = sn_id snap) (d_listeners st t) = Some (before, l, after) \<Longrightarrow>
   invoke_loop U stack e t (snap # snaps) st =
     and_then (listener_turn U stack e t (sn_passive snap = Some True) (li_callback l)
        (if sn_once snap then on_listeners t (\<lambda>_. before @ after) st else st))
       (\<lambda>st5. if is_immediate_propagation_stopped e st5 then Inr (st5, [sn_id snap])
              else and_then (invoke_loop U stack e t snaps st5)
                     (\<lambda>(st6, called). Inr (st6, sn_id snap # called)))"
  by (simp add: listener_turn_def and_then_assoc split_def Let_def)

text \<open>What a dispatch achieves for its event: it leaves the dispatch, canceled or not.\<close>

definition dispatched :: "oid list \<Rightarrow> eid \<Rightarrow> oid \<Rightarrow> dom \<Rightarrow> dom \<times> bool \<Rightarrow> bool" where
  "dispatched F e t st r \<longleftrightarrow>
     (case r of (st', ok) \<Rightarrow>
        keeps F st st' \<and> ok = (CANCELED \<notin> flags st' e) \<and>
        flags st' e \<inter> {DISPATCH, STOP_PROPAGATION, STOP_IMMEDIATE_PROPAGATION} = {} \<and>
        (CANCELABLE \<notin> flags st e \<or>
         (\<forall>l \<in> set (d_listeners st t). li_event_type l = ev_type (d_events st e) \<longrightarrow> li_passive l = Some True) \<longrightarrow>
           (CANCELED \<in> flags st' e \<longleftrightarrow> CANCELED \<in> flags st e)))"

context dom_user_code
begin

lemma turn_calls:
  assumes m: "mid_turn F e p st st2" and e: "e < d_next_event st"
  shows "rwp (allowed st) (call_event_listener U t l e st2) (\<lambda>(st3, _).
    rwp (allowed st) (clean_up_after_running_script U stack st3) (mid_turn F e p st))"
proof -
  have inv: "dom_inv F st2" and le: "dom_le_x (Some e) st st2"
    using m by (simp_all add: mid_turn_def turn_done_def turn_state_def)
  have "rwp (allowed st) (clean_up_after_running_script U stack st3) (mid_turn F e p st)"
    if k: "keeps F st2 st3" for st3
  proof -
    have "allowed st3 = allowed st"
      using allowed_le [OF le] allowed_le [OF keeps_le [OF k]] by simp
    then show ?thesis
      using clean_up_keeps [OF keeps_inv [OF k], of stack] mid_turn_step [OF mid_turn_step [OF m e k] e]
      by (auto elim!: rwp_mono)
  qed
  then show ?thesis
    using call_event_listener_keeps [OF inv, of t l e] allowed_le [OF le] by (auto elim!: rwp_mono)
qed

lemma turn_done_run:
  assumes inv: "dom_inv F st" and e: "e < d_next_event st" "DISPATCH \<in> flags st e"
    and sub: "subseq ls (d_listeners st t)"
    and st1: "st1 = (if once then on_listeners t (\<lambda>_. ls) st else st)"
  shows "rwp (allowed st) (listener_turn U stack e t p cb st1) (turn_done F e p st)"
proof -
  have "rwp (allowed st) (call_event_listener U t cb e st2) (\<lambda>(st3, _).
      rwp (allowed st) (clean_up_after_running_script U stack st3) (\<lambda>st4.
        rwp (allowed st) (set_in_passive_listener e False st4) (turn_done F e p st)))"
    if m: "mid_turn F e p st st2" for st2
    by (rule rwp_mono [OF turn_calls [OF m e(1)]])
      (auto elim!: rwp_mono intro: turn_end [OF _ e(1)])
  then show ?thesis
    unfolding listener_turn_def rwp_simps
    by (intro rwp_mono [OF turn_start [OF inv e sub st1]]) (auto simp: split_def)
qed

lemma invoke_loop_done:
  assumes "dom_inv F st" and "e < d_next_event st" and "DISPATCH \<in> flags st e"
    and "\<forall>s \<in> set snaps. sn_id s < d_next_listener_id st" and "distinct (map sn_id snaps)"
  shows "rwp (allowed st) (invoke_loop U stack e t snaps st) (loop_done F e t snaps st)"
  using assms
proof (induction snaps arbitrary: st)
  case Nil
  then show ?case by (simp add: loop_done_def)
next
  case (Cons snap snaps)
  note inv = Cons.prems(1) and e = Cons.prems(2,3) and ids = Cons.prems(4) and dist = Cons.prems(5)
  have ih: "rwp (allowed st5) (invoke_loop U stack e t snaps st5) (loop_done F e t snaps st5)"
    if t: "dom_inv F st5" "DISPATCH \<in> flags st5 e" "dom_le_x (Some e) st st5" for st5
    using t ids dist e(1)
    by (intro Cons.IH) (auto simp: dom_le_x_def events_le_def listeners_le_def)
  show ?case
  proof (cases "List.extract (\<lambda>l. li_id l = sn_id snap) (d_listeners st t)")
    case None
    have "rwp (allowed st) (invoke_loop U stack e t snaps st) (loop_done F e t snaps st)"
      using ih [OF inv e(2) dom_le_refl] .
    then show ?thesis
      using loop_done_skip [OF inv None [unfolded extract_None] ids]
      by (auto simp: None elim!: rwp_mono)
  next
    case (Some r)
    obtain before l after where r: "r = (before, l, after)" by (cases r) auto
    note x = extract_listener [OF Some [unfolded r]]
    let ?p = "sn_passive snap = Some True"
    let ?st1 = "if sn_once snap then on_listeners t (\<lambda>_. before @ after) st else st"
    have called: "sn_id snap \<in> ids_of (d_listeners st t)"
      using x(1,2) by (force simp: ids_of_def)
    have "distinct (map li_id (d_listeners st t))"
      using dom_invD(2) [OF inv] by (simp add: listeners_ok_def)
    note gone = x(3) [OF this]
    have last: "rwp (allowed st) (if is_immediate_propagation_stopped e st5 then Inr (st5, [sn_id snap])
        else and_then (invoke_loop U stack e t snaps st5)
               (\<lambda>(st6, called). Inr (st6, sn_id snap # called))) (loop_done F e t (snap # snaps) st)"
      if t: "turn_done F e ?p st st5" and le: "dom_le_x (Some e) ?st1 st5" for st5
    proof -
      have once: "sn_id snap \<notin> ids_of (d_listeners st5 t)" if o': "sn_once snap"
      proof -
        have "d_listeners ?st1 t = before @ after" "d_next_listener_id ?st1 = d_next_listener_id st"
          using o' by (simp_all add: on_listeners_def)
        moreover have "listeners_le ?st1 st5" using le by (simp add: dom_le_x_def)
        ultimately show ?thesis
          using listeners_le_ids [of ?st1 st5 "sn_id snap" t] gone ids by auto
      qed
      have t5: "dom_inv F st5" "DISPATCH \<in> flags st5 e" "dom_le_x (Some e) st st5"
        using t by (simp_all add: turn_done_def turn_state_def)
      show ?thesis
        using loop_done_break [OF t called once _ dist] loop_done_cons [OF t called once ids dist]
          ih [OF t5] allowed_le [OF t5(3)]
        by (auto simp: is_immediate_propagation_stopped_def elim!: rwp_mono)
    qed
    have once1: "?st1 = (if False then on_listeners t (\<lambda>_. []) ?st1 else ?st1)" by simp
    have k1: "keeps F st ?st1"
      using on_listeners_shrink [OF inv, of "\<lambda>_. before @ after" t] x(4) keeps_refl [OF inv] by simp
    have e1: "e < d_next_event ?st1" "DISPATCH \<in> flags ?st1 e"
      using e by (simp_all add: on_listeners_def)
    have al: "allowed ?st1 = allowed st" by (rule allowed_le [OF keeps_le [OF k1]])
    note a = turn_done_run [OF inv e x(4), of ?st1 "sn_once snap" stack ?p "li_callback l", OF refl]
    note b = turn_done_run [OF keeps_inv [OF k1] e1 list_emb_Nil once1, of stack ?p "li_callback l"]
    have d: "turn_done F e ?p ?st1 st5 \<Longrightarrow> dom_le_x (Some e) ?st1 st5" for st5
      by (simp add: turn_done_def turn_state_def)
    show ?thesis
      unfolding invoke_loop_turn [OF Some [unfolded r]] rwp_simps(3)
      by (rule rwp_mono [OF rwp_conj [OF a b [unfolded al]]]) (blast intro: last d)
  qed
qed

lemma snapshots_ids:
  assumes "dom_inv F st"
  shows "\<forall>s \<in> set (snapshots ty (d_listeners st t)). sn_id s < d_next_listener_id st"
    and "distinct (map sn_id (snapshots ty (d_listeners st t)))"
proof -
  have l: "distinct (map li_id (d_listeners st t))" "\<forall>l \<in> set (d_listeners st t). li_id l < d_next_listener_id st"
    using dom_invD(2) [OF assms] by (simp_all add: listeners_ok_def)
  then show "\<forall>s \<in> set (snapshots ty (d_listeners st t)). sn_id s < d_next_listener_id st"
    by (auto simp: snapshots_def snapshot_of_def)
  have "map sn_id (snapshots ty (d_listeners st t)) =
      map li_id (filter (\<lambda>l. li_event_type l = ty) (d_listeners st t))"
    by (simp add: snapshots_def snapshot_of_def)
  then show "distinct (map sn_id (snapshots ty (d_listeners st t)))"
    using l(1) by (simp add: distinct_map_filter)
qed

lemma invoke_listeners_done:
  assumes "dom_inv F st" and "e < d_next_event st" and "DISPATCH \<in> flags st e"
    and "\<not> is_propagation_stopped e st"
  shows "rwp (allowed st) (invoke_listeners U e t stack st)
    (loop_done F e t (snapshots (ev_type (d_events st e)) (d_listeners st t)) st)"
  using assms snapshots_ids [OF assms(1)] by (simp add: invoke_listeners_def invoke_loop_done)

lemma dispatch_done:
  assumes inv: "dom_inv F st" and e: "e < d_next_event st" "DISPATCH \<notin> flags st e"
  shows "rwp (allowed st) (dispatch U e t stack st) (dispatched F e t st)"
proof (cases "d_debug st \<longrightarrow> flags st e \<inter> {DISPATCH, STOP_PROPAGATION, STOP_IMMEDIATE_PROPAGATION} = {}")
  case False
  then show ?thesis
    by (auto simp: dispatch_def start_dispatching_def debug_assert_def or_panic_def allowed_def)
next
  case start: True
  let ?st = "on_event e (\<lambda>ev. ev\<lparr>ev_flags := set_flag DISPATCH True (ev_flags ev), ev_target := Some t\<rparr>) st"
  have eq: "on_event e (\<lambda>ev. ev\<lparr>ev_target := Some t\<rparr>) (on_flags e (set_flag DISPATCH True) st) = ?st"
    by (simp add: on_event_def)
  have run: "dispatch U e t stack st = and_then (invoke_listeners U e t stack ?st)
      (\<lambda>(st2, _). let st3 = stop_dispatching e st2 in Inr (st3, \<not> is_canceled e st3))"
    using start by (simp add: dispatch_def start_dispatching_def debug_assert_def or_panic_def eq)
  have fl: "flags_ok (flags st e)" by (rule flags_okD [OF inv e(1)])
  have inv1: "dom_inv F ?st" and le1: "dom_le_x (Some e) st ?st"
    using fl by (auto intro!: on_event_inv [OF inv] on_event_le simp: flags_ok_def set_flag_def)
  have e1: "e < d_next_event ?st" "DISPATCH \<in> flags ?st e"
    using e by (auto simp: on_event_def set_flag_def)
  have np: "IN_PASSIVE_LISTENER \<notin> flags ?st e"
    using fl e(2) by (auto simp: flags_ok_def on_event_def set_flag_def)
  have l: "d_listeners ?st = d_listeners st" and ty: "ev_type (d_events ?st e) = ev_type (d_events st e)"
    and same: "CANCELABLE \<in> flags ?st e \<longleftrightarrow> CANCELABLE \<in> flags st e"
      "CANCELED \<in> flags ?st e \<longleftrightarrow> CANCELED \<in> flags st e"
    by (auto simp: on_event_def set_flag_def)
  let ?snaps = "snapshots (ev_type (d_events ?st e)) (d_listeners ?st t)"
  have finish: "dispatched F e t st (stop_dispatching e st2, \<not> is_canceled e (stop_dispatching e st2))"
    if r: "dom_inv F st2" "dom_le_x (Some e) ?st st2" "DISPATCH \<in> flags st2 e" "IN_PASSIVE_LISTENER \<notin> flags st2 e"
      and c: "CANCELABLE \<notin> flags ?st e \<or> (\<forall>s \<in> set ?snaps. sn_passive s = Some True) \<longrightarrow>
        (CANCELED \<in> flags st2 e \<longleftrightarrow> CANCELED \<in> flags ?st e)" for st2
  proof -
    have e2: "e < d_next_event st2" using r(2) e1(1) by (auto simp: dom_le_x_def events_le_def)
    have s: "dom_inv F (stop_dispatching e st2)" "dom_le_x (Some e) st2 (stop_dispatching e st2)"
      unfolding stop_dispatching_def using flags_okD [OF r(1) e2] r(4)
      by (auto intro!: on_event_inv [OF r(1)] on_event_le simp: flags_ok_def)
    have "dom_le_x (Some e) st (stop_dispatching e st2)"
      using dom_le_trans [OF dom_le_trans [OF le1 r(2)] s(2)] .
    moreover have "DISPATCH \<notin> flags (stop_dispatching e st2) e"
      by (simp add: stop_dispatching_def on_event_def)
    ultimately have "keeps F st (stop_dispatching e st2)"
      using s(1) dom_le_done [OF _ e(2)] by (simp add: keeps_def)
    moreover have "CANCELED \<in> flags (stop_dispatching e st2) e \<longleftrightarrow> CANCELED \<in> flags st2 e"
      by (simp add: stop_dispatching_def on_event_def)
    moreover have "(\<forall>s \<in> set ?snaps. sn_passive s = Some True) \<longleftrightarrow>
        (\<forall>l \<in> set (d_listeners st t). li_event_type l = ev_type (d_events st e) \<longrightarrow> li_passive l = Some True)"
      by (auto simp: snapshots_def snapshot_of_def l ty)
    ultimately show ?thesis
      using c same by (auto simp: dispatched_def is_canceled_def stop_dispatching_def on_event_def)
  qed
  have al: "allowed ?st = allowed st" by (rule allowed_le [OF le1])
  show ?thesis
  proof (cases "is_propagation_stopped e ?st")
    case True
    show ?thesis
      using finish [OF inv1 dom_le_refl e1(2) np] by (simp add: run invoke_listeners_def True Let_def)
  next
    case False
    show ?thesis
      unfolding run rwp_simps(3)
      by (rule rwp_mono [OF invoke_listeners_done [OF inv1 e1 False, unfolded al]])
        (auto simp: loop_done_def Let_def split_def intro!: finish np)
  qed
qed

lemma dispatch_keeps:
  assumes k: "keeps F st0 st" and e: "e < d_next_event st" "DISPATCH \<notin> flags st e"
  shows "rwp (allowed st0) (dispatch U e t stack st) (\<lambda>(st', r). keeps F st0 st')"
  unfolding allowed_le [OF keeps_le [OF k], symmetric]
  by (rule rwp_mono [OF dispatch_done [OF keeps_inv [OF k] e]])
    (auto simp: dispatched_def intro: keeps_trans [OF k])

lemma fire_an_event_keeps:
  assumes inv: "dom_inv F st"
  shows "rwp (allowed st) (fire_an_event U name t stack st) (\<lambda>(st', r). keeps F st st')"
proof -
  let ?st = "fst (allocate_event (new_trusted ClassEvent name None) st)"
  have k: "keeps F st ?st" by (rule allocate_event_keeps [OF inv]) simp_all
  have e: "d_next_event st < d_next_event ?st" "DISPATCH \<notin> flags ?st (d_next_event st)"
    by (simp_all add: allocate_event_def new_trusted_def trusted_def new_untrusted_def set_flag_def)
  have "rwp (allowed st) (dispatch U (d_next_event st) t stack ?st) (\<lambda>(st', r). keeps F st st')"
    by (rule dispatch_keeps [OF k e])
  then show ?thesis by (simp add: fire_an_event_def Let_def split_beta)
qed

lemma untrust_keeps:
  "dom_inv F st \<Longrightarrow> e < d_next_event st \<Longrightarrow> DISPATCH \<notin> flags st e \<Longrightarrow>
     keeps F st (on_flags e (\<lambda>fs. fs - {TRUSTED}) st)"
  using flags_okD [of F st e] by (intro on_event_keeps) (auto simp: flags_ok_def event_le_def)

lemma dispatch_event_keeps:
  assumes inv: "dom_inv F st" and e: "e < d_next_event st"
  shows "rwp (allowed st) (dispatch_event U t e st) (\<lambda>(st', r). keeps F st st')"
proof (cases "is_dispatching e st \<or> \<not> is_initialized e st")
  case True
  then show ?thesis by (simp add: dispatch_event_def keeps_refl [OF inv])
next
  case False
  let ?st = "on_flags e (\<lambda>fs. fs - {TRUSTED}) st"
  have k: "keeps F st ?st" using False by (intro untrust_keeps [OF inv e]) (simp add: is_dispatching_def)
  have e1: "e < d_next_event ?st" "DISPATCH \<notin> flags ?st e"
    using e False by (simp_all add: on_event_def is_dispatching_def)
  show ?thesis
    using False dispatch_keeps [OF k e1, of t StackNonEmpty]
    by (auto simp: dispatch_event_def split_def)
qed

lemma fetch_dispatch_keeps:
  assumes inv: "dom_inv F st"
  shows "rwp (allowed st) (fetch_dispatch U req stack st) (\<lambda>(st', r). keeps F st st')"
proof -
  let ?st = "fst (create_for_request req st)"
  have k: "keeps F st ?st" by (rule create_for_request_keeps [OF inv])
  have e: "d_next_event st < d_next_event ?st" "DISPATCH \<notin> flags ?st (d_next_event st)"
    by (simp_all add: create_for_request_def extendable_event_new_def)
  have n: "snd (create_for_request req st) = d_next_event st"
    by (simp add: create_for_request_def)
  show ?thesis
    using dispatch_keeps [OF k e, of "d_global ?st" stack]
    by (auto simp: fetch_dispatch_def dispatch_trusted_def Let_def split_beta n elim!: rwp_mono)
qed

end

end
