(* ===== verification/Dom_Abort.thy ===== *)
theory Dom_Abort
  imports Dom_Dispatch
begin

text \<open>
  Signalling abort, and with it every command of the interface: whatever JavaScript does at any
  depth of nesting, the invariant is kept, the frame respected, and only the permitted panics
  are reached.
\<close>

section \<open>Abort reasons\<close>

definition abort_reason_set :: "jsval \<Rightarrow> oid list \<Rightarrow> (oid \<Rightarrow> abort_signal) \<Rightarrow> oid \<Rightarrow> abort_signal" where
  "abort_reason_set v ds sgs u =
     (if u \<in> set ds \<and> as_abort_reason (sgs u) = JUndefined
      then (sgs u)\<lparr>as_abort_reason := v\<rparr> else sgs u)"

lemma abort_dependents_state:
  "v \<noteq> JUndefined \<Longrightarrow>
     fst (abort_dependents v ds st) = st\<lparr>d_signals := abort_reason_set v ds (d_signals st)\<rparr>"
  by (induction ds arbitrary: st)
    (auto simp: abort_reason_set_def on_signal_def Let_def split_beta fun_eq_iff intro!: dom.equality)

lemma abort_dependents_list:
  "v \<noteq> JUndefined \<Longrightarrow>
     set (snd (abort_dependents v ds st)) = {u \<in> set ds. \<not> aborted u st}"
  by (induction ds arbitrary: st)
    (auto simp: on_signal_def Let_def split_beta aborted_def split: if_splits)

lemma signal_links:
  assumes inv: "dom_inv F st" and s: "s < d_next_object st"
  shows "d \<in> set (as_dependent_signals (d_signals st s)) \<Longrightarrow>
      d < d_next_object st \<and> as_dependent (d_signals st d) \<and> \<not> as_dependent (d_signals st s) \<and>
      (aborted s st \<longrightarrow> aborted d st)"
proof -
  have ok: "signal_ok F (d_next_object st) (d_signals st) v" if "v < d_next_object st" for v
    using dom_invD(3) [OF inv] that by (simp add: signals_ok_def)
  show "d \<in> set (as_dependent_signals (d_signals st s)) \<Longrightarrow>
      d < d_next_object st \<and> as_dependent (d_signals st d) \<and> \<not> as_dependent (d_signals st s) \<and>
      (aborted s st \<longrightarrow> aborted d st)"
    using ok [OF s] ok [of d] unfolding signal_ok_def aborted_def by blast
qed

text \<open>
  The state in which the abort steps start to run: the signal and its dependents are aborted, and
  their abort steps are promised.
\<close>

lemma abort_reasons_keep:
  assumes inv: "dom_inv F st" and s: "s < d_next_object st" "\<not> aborted s st"
    and v: "v \<noteq> JUndefined"
    and st1: "st1 = on_signal s (\<lambda>sg. sg\<lparr>as_abort_reason := v\<rparr>) st"
    and st2: "(st2, ds) = abort_dependents v (as_dependent_signals (d_signals st s)) st1"
  shows "dom_inv (s # ds @ F) st2" and "dom_le st st2"
    and "as_abort_reason (d_signals st2 s) = v"
    and "\<forall>d \<in> set (as_dependent_signals (d_signals st s)). as_abort_reason (d_signals st2 d) =
      (if aborted d st then as_abort_reason (d_signals st d) else v)"
proof -
  let ?deps = "as_dependent_signals (d_signals st s)"
  let ?sgs = "abort_reason_set v ?deps ((d_signals st)(s := (d_signals st s)\<lparr>as_abort_reason := v\<rparr>))"
  have e: "st2 = st\<lparr>d_signals := ?sgs\<rparr>"
    using abort_dependents_state [OF v, of ?deps st1] st2 [symmetric] by (simp add: st1 on_signal_def)
  have ok: "signal_ok F (d_next_object st) (d_signals st) u" if "u < d_next_object st" for u
    using dom_invD(3) [OF inv] that by (simp add: signals_ok_def)
  have nself: "s \<notin> set ?deps" using signal_links [OF inv s(1)] by blast
  have ds: "set ds = {u \<in> set ?deps. \<not> aborted u st}"
    using abort_dependents_list [OF v, of ?deps st1] st2 [symmetric] nself
    by (auto simp: st1 on_signal_def aborted_def)
  have sg: "?sgs u = (if u = s \<or> u \<in> set ds then (d_signals st u)\<lparr>as_abort_reason := v\<rparr> else d_signals st u)" for u
    using nself v by (auto simp: abort_reason_set_def ds aborted_def)
  have ab: "as_abort_reason (?sgs u) \<noteq> JUndefined \<longleftrightarrow> u = s \<or> u \<in> set ds \<or> aborted u st" for u
    using v unfolding sg by (auto simp: aborted_def)
  have links: "as_dependent (?sgs u) = as_dependent (d_signals st u)"
    "as_source_signals (?sgs u) = as_source_signals (d_signals st u)"
    "as_dependent_signals (?sgs u) = as_dependent_signals (d_signals st u)"
    "as_abort_algorithms (?sgs u) = as_abort_algorithms (d_signals st u)" for u
    unfolding sg by auto
  have sok: "signal_ok (s # ds @ F) (d_next_object st) ?sgs u" if u: "u < d_next_object st" for u
  proof -
    have "d = s \<or> d \<in> set ds \<or> aborted d st"
      if d: "d \<in> set (as_dependent_signals (d_signals st u))" and a: "u = s \<or> u \<in> set ds \<or> aborted u st" for d
    proof -
      have "u \<notin> set ds" using signal_links [OF inv u d] signal_links [OF inv s(1), of u] ds by auto
      with a have "u = s \<or> aborted u st" by blast
      then show ?thesis using d signal_links [OF inv u d] ds by auto
    qed
    then show ?thesis
      using ok [OF u] unfolding signal_ok_def ab links by (auto simp: aborted_def)
  qed
  have sle: "signal_le (d_signals st u) (?sgs u)" for u
    using s(2) ds unfolding signal_le_def links by (auto simp: sg aborted_def)
  show "dom_inv (s # ds @ F) st2" "dom_le st st2"
    using signals_change_keeps [OF inv e sok sle] by blast+
  show "as_abort_reason (d_signals st2 s) = v" by (simp add: e sg)
  show "\<forall>d \<in> set ?deps. as_abort_reason (d_signals st2 d) =
      (if aborted d st then as_abort_reason (d_signals st d) else v)"
    using nself by (auto simp: e sg ds)
qed

lemma clear_algorithms_keep:
  assumes inv: "dom_inv (s # F) st"
  shows "dom_inv F (on_signal s (\<lambda>sg. sg\<lparr>as_abort_algorithms := []\<rparr>) st) \<and>
    dom_le st (on_signal s (\<lambda>sg. sg\<lparr>as_abort_algorithms := []\<rparr>) st)"
proof (rule signals_change_keeps [OF inv])
  let ?sgs = "(d_signals st)(s := (d_signals st s)\<lparr>as_abort_algorithms := []\<rparr>)"
  show "on_signal s (\<lambda>sg. sg\<lparr>as_abort_algorithms := []\<rparr>) st = st\<lparr>d_signals := ?sgs\<rparr>"
    by (simp add: on_signal_def)
  fix u assume u: "u < d_next_object st"
  then have "signal_ok (s # F) (d_next_object st) (d_signals st) u"
    using dom_invD(3) [OF inv] by (simp add: signals_ok_def)
  then show "signal_ok F (d_next_object st) ?sgs u" unfolding signal_ok_def by (cases "u = s") auto
  show "signal_le (d_signals st u) (?sgs u)" by (auto simp: signal_le_def)
qed

section \<open>Running the abort steps\<close>

text \<open>What signalling abort achieves.\<close>

definition aborts :: "oid \<Rightarrow> jsval \<Rightarrow> dom \<Rightarrow> dom \<Rightarrow> bool" where
  "aborts s v st st' \<longleftrightarrow>
     as_abort_reason (d_signals st' s) = v \<and>
     (\<forall>d \<in> set (as_dependent_signals (d_signals st s)).
        as_abort_reason (d_signals st' d) =
          (if aborted d st then as_abort_reason (d_signals st d) else v))"

context dom_user_code
begin

lemma run_abort_algorithm_keeps:
  assumes inv: "dom_inv F st"
  shows "rwp (allowed st) (run_abort_algorithm U stack reason a st) (keeps F st)"
proof (cases a)
  case (RemoveListener t i)
  then show ?thesis
    by (simp add: run_abort_algorithm_def remove_an_event_listener_by_id_keeps [OF inv])
next
  case (RunSteps cb)
  show ?thesis
    unfolding run_abort_algorithm_def RunSteps abort_algorithm.case
    by (rule run_keeps [OF user_ok [OF inv]]) (simp add: clean_up_keeps)
qed

lemma run_the_abort_steps_keeps:
  assumes inv: "dom_inv (s # F) st"
  shows "rwp (allowed st) (run_the_abort_steps U s stack st) (\<lambda>st'. dom_inv F st' \<and> dom_le st st')"
proof -
  let ?st = "on_signal s (\<lambda>sg. sg\<lparr>as_abort_algorithms := []\<rparr>) st"
  have inv1: "dom_inv F ?st" and le: "dom_le st ?st" using clear_algorithms_keep [OF inv] by simp_all
  have main: "rwp (allowed ?st) (and_then (run_cmds (run_abort_algorithm U stack r) as ?st)
      (\<lambda>st2. and_then (fire_an_event U ''abort'' s stack st2) (\<lambda>(st3, _). Inr st3))) (keeps F ?st)" for r as
  proof (rule then_keeps)
    show "rwp (allowed ?st) (run_cmds (run_abort_algorithm U stack r) as ?st) (keeps F ?st)"
      by (rule run_cmds_keeps [OF _ inv1]) (blast intro: run_abort_algorithm_keeps keeps_inv)
    fix st2 assume "dom_inv F st2"
    then show "rwp (allowed st2) (and_then (fire_an_event U ''abort'' s stack st2)
        (\<lambda>(st3, _). Inr st3)) (keeps F st2)"
      using fire_an_event_keeps [of F st2 "''abort''" s stack] by (auto elim!: rwp_mono)
  qed
  show ?thesis
    unfolding run_the_abort_steps_def Let_def allowed_le [OF le, symmetric]
    by (rule rwp_mono [OF main]) (auto simp: keeps_def intro: dom_le_trans [OF le])
qed

lemma abort_steps_of_keeps:
  "dom_inv (ds @ F) st \<Longrightarrow>
     rwp (allowed st) (run_cmds (abort_steps_of U stack) ds st) (\<lambda>st'. dom_inv F st' \<and> dom_le st st')"
proof (induction ds arbitrary: st)
  case Nil
  then show ?case by simp
next
  case (Cons d ds)
  have "rwp (allowed st) (run_cmds (abort_steps_of U stack) ds st1) (\<lambda>st'. dom_inv F st' \<and> dom_le st st')"
    if "dom_inv (ds @ F) st1 \<and> dom_le st st1" for st1
    using Cons.IH [of st1] that dom_le_trans [of None st st1] allowed_le [of None st st1]
    by (auto elim!: rwp_mono)
  then show ?case
    using run_the_abort_steps_keeps [of d "ds @ F" st stack] Cons.prems
    by (auto simp: abort_steps_of_def [of U stack d] elim!: rwp_mono)
qed

lemma signals_leD:
  "dom_le st st' \<Longrightarrow> s < d_next_object st \<Longrightarrow> signal_le (d_signals st s) (d_signals st' s)"
  by (simp add: dom_le_x_def signals_le_def)

lemma signal_abort_done:
  assumes inv: "dom_inv F st" and s: "s < d_next_object st"
  shows "rwp (allowed st) (signal_abort U s reason stack st) (\<lambda>st'. keeps F st st' \<and>
    (\<not> aborted s st \<longrightarrow> aborts s (if reason \<noteq> JUndefined then reason
       else JAbortError ''signal is aborted without reason'') st st'))"
proof (cases "aborted s st")
  case True
  then show ?thesis by (simp add: signal_abort_def aborted_def keeps_refl [OF inv])
next
  case False
  define v where "v = (if reason \<noteq> JUndefined then reason
    else JAbortError ''signal is aborted without reason'')"
  have vu: "v \<noteq> JUndefined" by (simp add: v_def)
  define st1 where "st1 = on_signal s (\<lambda>sg. sg\<lparr>as_abort_reason := v\<rparr>) st"
  obtain st2 ds where st2: "abort_dependents v (as_dependent_signals (d_signals st s)) st1 = (st2, ds)"
    by fastforce
  note r = abort_reasons_keep [OF inv s False vu st1_def st2 [symmetric]]
  have run: "signal_abort U s reason stack st =
      and_then (run_the_abort_steps U s stack st2) (run_cmds (abort_steps_of U stack) ds)"
    using False st2
    by (simp add: signal_abort_def aborted_def Let_def v_def [symmetric] st1_def on_signal_def)
  have reasons: "aborts s v st st'" if le: "dom_le st2 st'" for st'
  proof -
    have n: "d_next_object st \<le> d_next_object st2" using r(2) by (simp add: dom_le_x_def signals_le_def)
    have keep: "as_abort_reason (d_signals st' u) = as_abort_reason (d_signals st2 u)"
      if "u < d_next_object st" "as_abort_reason (d_signals st2 u) \<noteq> JUndefined" for u
      using signals_leD [OF le, of u] that n by (simp add: signal_le_def)
    have "as_abort_reason (d_signals st2 d) \<noteq> JUndefined"
      if "d \<in> set (as_dependent_signals (d_signals st s))" for d
      using r(4) that vu by (auto simp: aborted_def)
    with keep r(3,4) vu s signal_links [OF inv s] show ?thesis by (auto simp: aborts_def)
  qed
  have al: "allowed st2 = allowed st" by (rule allowed_le [OF r(2)])
  have "rwp (allowed st) (run_cmds (abort_steps_of U stack) ds st3)
      (\<lambda>st'. keeps F st st' \<and> aborts s v st st')"
    if m: "dom_inv (ds @ F) st3 \<and> dom_le st2 st3" for st3
  proof -
    have al3: "allowed st3 = allowed st" using allowed_le [of None st2 st3] m al by simp
    show ?thesis
      by (rule rwp_mono [OF abort_steps_of_keeps [of ds F st3 stack, unfolded al3]])
        (use m dom_le_trans [of None st2 st3] dom_le_trans [OF r(2)] reasons in
          \<open>auto simp: keeps_def\<close>)
  qed
  then show ?thesis
    using run_the_abort_steps_keeps [of s "ds @ F" st2 stack] r(1) False
    unfolding run v_def [symmetric] by (auto simp: al elim!: rwp_mono)
qed

lemma signal_abort_keeps:
  "dom_inv F st \<Longrightarrow> s < d_next_object st \<Longrightarrow>
     rwp (allowed st) (signal_abort U s reason stack st) (keeps F st)"
  using signal_abort_done [of F st s reason stack] by (auto elim!: rwp_mono)

lemma controller_abort_keeps:
  "dom_inv F st \<Longrightarrow> c < length (d_controllers st) \<Longrightarrow>
     rwp (allowed st) (controller_abort U c reason stack st) (keeps F st)"
  using dom_invD(3) [of F st]
  by (auto simp: controller_abort_def signals_ok_def intro!: signal_abort_keeps)

end

end
