(* ===== verification/Dom_Sessions.thy ===== *)
theory Dom_Sessions
  imports Dom_Abort
begin

text \<open>
  Every command keeps the invariant and respects the frame, whatever JavaScript runs inside it;
  hence so does JavaScript at every depth, and every session.
\<close>

section \<open>Commands\<close>

lemma guarded_keeps:
  assumes "dom_inv F st" and "b \<Longrightarrow> rwp (allowed st) m (keeps F st)"
  shows "rwp (allowed st) (guarded b m st) (keeps F st)"
  using assms by (simp add: guarded_def keeps_refl)

lemma state_of_keeps:
  "rwp ok m (\<lambda>(st', r). keeps F st st') \<Longrightarrow> rwp ok (state_of m) (keeps F st)"
  by (auto simp: state_of_def elim!: rwp_mono)

lemma loops_keeps:
  assumes inv: "dom_inv F st"
    and ls: "\<And>l. el_interest (ls l) = el_interest (d_loops st l)"
  shows "keeps F st (st\<lparr>d_loops := ls\<rparr>)"
proof (rule lifetime_change [OF inv])
  show "st\<lparr>d_loops := ls\<rparr> = st\<lparr>d_pending_promises_count := d_pending_promises_count st,
      d_fetch := d_fetch st, d_reactions := d_reactions st, d_loops := ls,
      d_promises := d_promises st\<rparr>" by simp
  show "lifetime_ok (st\<lparr>d_loops := ls\<rparr>)" "interest_ok (st\<lparr>d_loops := ls\<rparr>)"
    using dom_invD [OF inv] ls by (auto simp: fetch_handles_def intro: lifetime_ok_cong interest_ok_cong)
qed

lemma schedule_abort_timeout_keeps:
  "dom_inv F st \<Longrightarrow> keeps F st (schedule_abort_timeout s ms st)"
  by (auto simp: schedule_abort_timeout_def keeps_refl queue_timer_def insert_timer_def insert_entry_def
      next_task_id_def Let_def notify_def intro!: loops_keeps split: option.split)

lemma abort_timeout_keeps [keeps]: "dom_inv F st \<Longrightarrow> keeps F st (fst (abort_timeout ms st))"
  using keeps_trans [OF new_abort_signal_keeps schedule_abort_timeout_keeps]
    keeps_inv [OF new_abort_signal_keeps]
  by (simp add: abort_timeout_def Let_def split_beta)

lemma clock_keeps [keeps]: "dom_inv F st \<Longrightarrow> keeps F st (st\<lparr>d_clock := n\<rparr>)"
proof -
  assume inv: "dom_inv F st"
  note d = dom_invD [OF inv]
  have "dom_inv F (st\<lparr>d_clock := n\<rparr>)"
    by (intro dom_invI events_ok_cong [OF _ _ d(1)] listeners_ok_cong [OF _ _ d(2)]
          signals_ok_cong [OF _ _ _ d(3)] lifetime_ok_cong [OF _ _ _ _ _ _ d(4)]
          interest_ok_cong [OF _ _ _ d(5)]) (simp_all add: fetch_handles_def)
  moreover have "dom_le st (st\<lparr>d_clock := n\<rparr>)"
    by (intro dom_le_xI events_le_cong listeners_le_cong signals_le_cong)
      (simp_all add: constants_le_def)
  ultimately show ?thesis by (simp add: keeps_def)
qed

context dom_user_code
begin

lemma dom_exec_keeps:
  assumes inv: "dom_inv F st"
  shows "rwp (allowed st) (dom_exec U c st) (keeps F st)"
  by (cases c)
    (auto simp: run_abort_timeout_def event_exists_def has_class_def is_abort_signal_def
      intro!: guarded_keeps [OF inv] state_of_keeps inv keeps allocate_event_keeps
        add_event_listener_keeps remove_event_listener_keeps dispatch_event_keeps
        fetch_dispatch_keeps controller_abort_keeps signal_abort_keeps)

end

section \<open>JavaScript\<close>

lemma dom_js_ok: "dom_user_code (dom_js scr n)"
proof (induction n)
  case 0
  show ?case by standard (simp add: keeps_refl)
next
  case (Suc n)
  show ?case
  proof
    fix F st call assume inv: "dom_inv F st"
    have "rwp (allowed st) (run_cmds (dom_exec (dom_js scr n)) cmds st) (keeps F st)" for cmds
      by (rule run_cmds_keeps [OF _ inv]) (blast intro: dom_user_code.dom_exec_keeps [OF Suc] keeps_inv)
    then show "rwp (allowed st) (dom_js scr (Suc n) call st) (\<lambda>(st', r). keeps F st st')"
      by (cases "scr n call st") (auto elim!: rwp_mono)
  qed
qed

interpretation js: dom_user_code "dom_js scr n" for scr n
  by (rule dom_js_ok)

section \<open>Sessions\<close>

interpretation js_commands: guarded_commands "dom_exec (dom_js scr n)" allowed "dom_inv F" dom_le
  for scr n F
proof
  show "dom_inv F s \<Longrightarrow> rwp (allowed s) (dom_exec (dom_js scr n) c s) (\<lambda>s'. dom_inv F s' \<and> dom_le s s')"
    for s c using js.dom_exec_keeps [of F s scr n c] by (auto simp: keeps_def elim!: rwp_mono)
  show "dom_le s t \<Longrightarrow> dom_le t u \<Longrightarrow> dom_le s u" for s t u by (rule dom_le_trans)
  show "dom_le s t \<Longrightarrow> allowed t = allowed s" for s t by (rule allowed_le)
qed simp

lemma dom_run_keeps:
  "dom_inv F st \<Longrightarrow> rwp (allowed st) (dom_run scr n cmds st) (\<lambda>st'. dom_inv F st' \<and> dom_le st st')"
  by (simp add: dom_run_def js_commands.run_steps)

lemma dom_start_inv: "dom_inv F (dom_start debug active og)"
  by (simp add: dom_inv_def dom_start_def events_ok_def listeners_ok_def signals_ok_def signal_ok_def
      abort_signal_new_def lifetime_ok_def interest_ok_def fetch_handles_def reaction_handles_def
      event_loop_new_def interest_new_def ids_of_def)

lemma dom_session_keeps:
  "rwp (allowed (dom_start debug active og)) (dom_session debug active og scr n cmds)
     (\<lambda>st. dom_inv [] st \<and> dom_le (dom_start debug active og) st)"
  unfolding dom_session_def by (rule dom_run_keeps [OF dom_start_inv])

lemma session_inv:
  "dom_session debug active og scr n cmds = Inr st \<Longrightarrow> dom_inv [] st"
  using dom_session_keeps [of debug active og scr n cmds] by simp

text \<open>Between two commands of a session no event is being dispatched.\<close>

lemma session_not_dispatching:
  assumes "dom_session debug active og scr n cmds = Inr st" and "e < d_next_event st"
  shows "DISPATCH \<notin> flags st e"
  using dom_session_keeps [of debug active og scr n cmds] assms
  by (simp add: dom_le_x_def events_le_def dom_start_def)

lemma dom_run_inv:
  "dom_session debug active og scr n cmds = Inr st \<Longrightarrow> dom_run scr' n' later st = Inr st' \<Longrightarrow>
     dom_inv [] st' \<and> dom_le st st'"
  using dom_run_keeps [OF session_inv, of debug active og scr n cmds st scr' n' later] by simp

end
