(* ===== verification/Dom_Claims.thy ===== *)
theory Dom_Claims
  imports Dom_Sessions
begin

text \<open>
  The properties of the events, the abort signals and the extendable events. A session starts
  from a fresh realm, with or without an active event loop, in a debug or a release build; it
  runs any commands, and JavaScript at every depth may be any script.
\<close>

section \<open>Examples\<close>

text \<open>
  JavaScript by the number of the function: 0 does nothing, 1 stops immediate propagation, 2
  extends the lifetime of its event and responds, 3 prevents the default. The options object 0 is
  \<open>{once: true}\<close>, 1 is \<open>{passive: true}\<close>.
\<close>

definition example_js :: dom_script where
  "example_js n call st =
     (case call of
        CallListener f this e \<Rightarrow>
          (if f = ArgFunction 1 then [StopImmediatePropagation e]
           else if f = ArgFunction 2 then [WaitUntil e, RespondWith e]
           else if f = ArgFunction 3 then [PreventDefault e] else [], Inr ArgUndefined)
      | GetProperty obj name \<Rightarrow>
          ([], Inr (if obj = ArgObject 0 \<and> name = ''once'' \<or> obj = ArgObject 1 \<and> name = ''passive''
                    then ArgPrimitive True else ArgUndefined))
      | _ \<Rightarrow> ([], Inr ArgUndefined))"

abbreviation example_user :: dom_user where
  "example_user \<equiv> dom_js example_js (Suc (Suc 0))"

abbreviation example_session :: "bool \<Rightarrow> dom_cmd list \<Rightarrow> (panic, dom) run" where
  "example_session debug \<equiv> dom_session debug (Some 0) None example_js (Suc (Suc 0))"

text \<open>The state after a computation that does not panic.\<close>

definition state_after :: "(panic, dom) run \<Rightarrow> dom" where
  "state_after m = (case m of Inr st \<Rightarrow> st | Inl p \<Rightarrow> dom_start True None None)"

abbreviation example_state :: "dom_cmd list \<Rightarrow> dom" where
  "example_state cmds \<equiv> state_after (example_session True cmds)"

lemma returns_state:
  "(case m of Inr st \<Rightarrow> P st | Inl p \<Rightarrow> False) \<Longrightarrow> m = Inr (state_after m) \<and> P (state_after m)"
  by (simp add: state_after_def split: sum.splits)

lemmas run_example =
  dom_eval Let_def example_js_def insert_Diff_if new_pending_def no_promises_def

definition listening :: "dom_cmd list" where
  "listening =
     [AddEventListener 0 ''x'' (ArgFunction 0) (Some (ArgObject 0)),
      AddEventListener 0 ''x'' (ArgFunction 1) None, AddEventListener 0 ''x'' (ArgFunction 0) None,
      AddEventListener 0 ''x'' (ArgFunction 3) None, NewEvent ''x'' None]"

lemma listening:
  "case example_session True listening of
     Inr st \<Rightarrow> map li_id (d_listeners st 0) = [0, 1, 2] \<and> d_next_event st = 1 \<and> flags st 0 = {INITIALIZED}
   | Inl p \<Rightarrow> False"
  by (simp add: run_example listening_def cong: and_then_weak_cong js_then_weak_cong)

definition canceling :: "dom_cmd list" where
  "canceling =
     [NewEvent ''x'' (Some \<lparr>ei_bubbles = False, ei_cancelable = True, ei_composed = False\<rparr>),
      AddEventListener 0 ''x'' (ArgFunction 3) (Some (ArgObject 1))]"

lemma canceling:
  "case example_session True canceling of
     Inr st \<Rightarrow> d_next_event st = 1 \<and> CANCELED \<notin> flags st 0 \<and>
       (\<forall>l \<in> set (d_listeners st 0). li_passive l = Some True)
   | Inl p \<Rightarrow> False"
  by (simp add: run_example canceling_def cong: and_then_weak_cong js_then_weak_cong)

definition following :: "dom_cmd list" where
  "following =
     [NewAbortController, NewAbortController, AbortAny [1, 2], AbortAny [1, 3], AddAbortAlgorithm 4 7]"

lemma following:
  "case example_session True following of
     Inr st \<Rightarrow> d_next_object st = 5 \<and> d_controllers st = [1, 2] \<and>
       as_dependent_signals (d_signals st 1) = [3, 4] \<and> as_source_signals (d_signals st 4) = [1, 2] \<and>
       as_abort_algorithms (d_signals st 1) = [] \<and> as_abort_algorithms (d_signals st 3) = [] \<and>
       as_abort_algorithms (d_signals st 4) = [RunSteps 7] \<and>
       as_dependent (d_signals st 3) \<and> as_source_signals (d_signals st 3) = [1, 2] \<and>
       \<not> as_dependent (d_signals st 1) \<and> \<not> aborted 1 st \<and> \<not> aborted 3 st \<and> \<not> aborted 4 st
   | Inl p \<Rightarrow> False"
  by (simp add: run_example following_def cong: and_then_weak_cong js_then_weak_cong)

definition responding :: "dom_cmd list" where
  "responding = [AddEventListener 0 ''fetch'' (ArgFunction 2) None, FetchDispatch 5 StackEmpty]"

lemma responding:
  "case example_session True responding of
     Inr st \<Rightarrow> d_next_event st = 1 \<and> ev_class (d_events st 0) = ClassFetchEvent \<and>
       d_pending_promises_count st 0 = 2 \<and> fe_wait_to_respond (d_fetch st 0)
   | Inl p \<Rightarrow> False"
  by (simp add: run_example responding_def cong: and_then_weak_cong js_then_weak_cong)

section \<open>Panics\<close>

text \<open>C16: the only panics a session can end in are the overflow of the interest count, the missing
  event loop of \<open>respondWith\<close>, and, in a debug build, the assertion on the flags of an event that
  is dispatched and the one on a full count of lifetime promises. No other assertion, \<open>expect\<close> or
  checked subtraction of these components fails, whatever JavaScript does.\<close>

theorem dom_sessions_panic_only_as_permitted:
  assumes "dom_session debug active og scr n cmds = Inl p"
  shows "p = InterestOverflow \<or> (p = NoEventLoop \<and> active = None) \<or>
    (debug \<and> (p = StartDispatching \<or> p = PendingCountOverflow))"
  using dom_session_keeps [of debug active og scr n cmds] assms
  by (simp add: allowed_def dom_start_def)

text \<open>
  The assertion on the flags is reached by \<open>event.stopPropagation()\<close> before
  \<open>target.dispatchEvent(event)\<close>; a release build dispatches the event to nobody.
\<close>

lemma stopped_event_panics_in_debug:
  "example_session True [NewEvent ''x'' None, StopPropagation 0, DispatchEvent 0 0] = Inl StartDispatching"
  "(case example_session False [NewEvent ''x'' None, StopPropagation 0, DispatchEvent 0 0] of
      Inr st \<Rightarrow> flags st 0 = {INITIALIZED} | Inl p \<Rightarrow> False)"
  by (simp_all add: dom_eval Let_def example_js_def insert_Diff_if cong: and_then_weak_cong js_then_weak_cong)

lemma dom_sessions_panic_only_as_permitted_witness:
  "StartDispatching = InterestOverflow \<or> (StartDispatching = NoEventLoop \<and> Some (0::nat) = None) \<or>
    (True \<and> (StartDispatching = StartDispatching \<or> StartDispatching = PendingCountOverflow))"
  by (rule dom_sessions_panic_only_as_permitted [OF stopped_event_panics_in_debug(1)])

section \<open>Listeners and dispatch\<close>

text \<open>C17: after every session the lists of event listeners are well formed: an id is held by one
  listener of one target and is below the counter, no two listeners of a target agree in type,
  callback and capture, and every callback is an object.\<close>

theorem listener_lists_are_well_formed:
  assumes "dom_session debug active og scr n cmds = Inr st"
  shows "distinct (map li_id (d_listeners st t)) \<and> distinct (map li_key (d_listeners st t)) \<and>
    (t \<noteq> u \<longrightarrow> li_id ` set (d_listeners st t) \<inter> li_id ` set (d_listeners st u) = {}) \<and>
    (\<forall>l \<in> set (d_listeners st t). li_id l < d_next_listener_id st \<and> is_object (li_callback l))"
  using dom_invD(2) [OF session_inv [OF assms]] by (simp add: listeners_ok_def ids_of_def)

lemma listener_lists_are_well_formed_witness:
  "map li_id (d_listeners (example_state listening) 0) = [0, 1, 2] \<and>
    distinct (map li_key (d_listeners (example_state listening) 0))"
  using returns_state [OF listening]
    listener_lists_are_well_formed [OF conjunct1 [OF returns_state [OF listening]], of 0 1] by blast

text \<open>Between the commands of a session, whatever its listeners did, no event is being dispatched or
  in a passive listener, every event is initialized, and an event whose immediate propagation is
  stopped has its propagation stopped.\<close>

theorem events_rest_between_commands:
  assumes "dom_session debug active og scr n cmds = Inr st" and "e < d_next_event st"
  shows "DISPATCH \<notin> flags st e \<and> IN_PASSIVE_LISTENER \<notin> flags st e \<and> INITIALIZED \<in> flags st e \<and>
    (STOP_IMMEDIATE_PROPAGATION \<in> flags st e \<longrightarrow> STOP_PROPAGATION \<in> flags st e)"
  using session_not_dispatching [OF assms] flags_okD [OF session_inv [OF assms(1)] assms(2)]
  by (auto simp: flags_ok_def)

lemma events_rest_between_commands_witness:
  "DISPATCH \<notin> flags (example_state listening) 0 \<and> INITIALIZED \<in> flags (example_state listening) 0"
  using returns_state [OF listening]
    events_rest_between_commands [OF conjunct1 [OF returns_state [OF listening]], of 0] by simp

lemma start_dispatching_run:
  assumes "start_dispatching e st = Inr st1"
  shows "on_event e (\<lambda>ev. ev\<lparr>ev_target := Some t\<rparr>) st1 =
    on_event e (\<lambda>ev. ev\<lparr>ev_flags := insert DISPATCH (ev_flags ev), ev_target := Some t\<rparr>) st"
proof -
  have "st1 = on_flags e (set_flag DISPATCH True) st"
    using assms by (auto simp: start_dispatching_def debug_assert_def or_panic_def split: if_splits)
  then show ?thesis by (simp add: on_event_def set_flag_def)
qed

text \<open>C18: a dispatch calls listeners of the type of the event that the target had when it started, in
  the order of the list and each at most once. A listener that was called and is \<open>once\<close> is in the
  list no more. A listener of the type that was not called has been removed, unless a listener
  stopped immediate propagation.\<close>

theorem dispatch_calls_each_listener_once:
  assumes s: "dom_session debug active og scr n cmds = Inr st"
    and e: "e < d_next_event st" "STOP_PROPAGATION \<notin> flags st e"
    and start: "start_dispatching e st = Inr st1"
    and run: "invoke_listeners (dom_js scr' n') e t stack (on_event e (\<lambda>ev. ev\<lparr>ev_target := Some t\<rparr>) st1) =
      Inr (st', called)"
  defines "ls \<equiv> filter (\<lambda>l. li_event_type l = ev_type (d_events st e)) (d_listeners st t)"
  shows "subseq called (map li_id ls) \<and> distinct called \<and>
    (\<forall>l \<in> set ls. li_once l \<and> li_id l \<in> set called \<longrightarrow> li_id l \<notin> li_id ` set (d_listeners st' t)) \<and>
    (\<forall>l \<in> set ls. li_id l \<in> set called \<or> li_id l \<notin> li_id ` set (d_listeners st' t) \<or>
       STOP_IMMEDIATE_PROPAGATION \<in> flags st' e)"
proof -
  note inv = session_inv [OF s]
  let ?st = "on_event e (\<lambda>ev. ev\<lparr>ev_flags := insert DISPATCH (ev_flags ev), ev_target := Some t\<rparr>) st"
  have h: "e < d_next_event ?st" "DISPATCH \<in> flags ?st e" "\<not> is_propagation_stopped e ?st"
    "d_listeners ?st = d_listeners st" "ev_type (d_events ?st e) = ev_type (d_events st e)"
    using e by (simp_all add: on_event_def is_propagation_stopped_def)
  have i: "dom_inv [] ?st"
    using flags_okD [OF inv e(1)] by (intro on_event_inv [OF inv]) (auto simp: flags_ok_def)
  from js.invoke_listeners_done [OF i h(1-3), of scr' n' t stack]
  have d: "loop_done [] e t (map snapshot_of ls) ?st (st', called)"
    using run by (simp add: start_dispatching_run [OF start] h snapshots_def ls_def)
  have m: "map sn_id (map snapshot_of ls) = map li_id ls" by (simp add: snapshot_of_def)
  have "distinct (map li_id ls)"
    using dom_invD(2) [OF inv] by (simp add: listeners_ok_def ls_def distinct_map_filter)
  moreover have sub: "subseq called (map li_id ls)"
    using d unfolding loop_done_def prod.case m by blast
  ultimately have "distinct called" by (metis distinct_nthsI subseq_conv_nths)
  with sub d show ?thesis by (simp add: loop_done_def snapshot_of_def ids_of_def)
qed

lemma listening_dispatch:
  "case example_session True listening of
     Inr st \<Rightarrow>
       (case start_dispatching 0 st of
          Inr st1 \<Rightarrow>
            (case invoke_listeners example_user 0 0 StackNonEmpty (on_event 0 (\<lambda>ev. ev\<lparr>ev_target := Some 0\<rparr>) st1) of
               Inr (st', called) \<Rightarrow> called = [0, 1] \<and> 0 < d_next_event st \<and> STOP_PROPAGATION \<notin> flags st 0
             | Inl p \<Rightarrow> False)
        | Inl p \<Rightarrow> False)
   | Inl p \<Rightarrow> False"
  by (simp add: run_example listening_def cong: and_then_weak_cong js_then_weak_cong)

lemma dispatch_calls_each_listener_once_witness:
  "\<exists>st1 st' called. start_dispatching 0 (example_state listening) = Inr st1 \<and>
    invoke_listeners example_user 0 0 StackNonEmpty (on_event 0 (\<lambda>ev. ev\<lparr>ev_target := Some 0\<rparr>) st1) =
      Inr (st', called) \<and> called = [0, 1] \<and> distinct called"
proof -
  note s = returns_state [OF listening_dispatch]
  from s obtain st1 st' called where r: "start_dispatching 0 (example_state listening) = Inr st1"
      "invoke_listeners example_user 0 0 StackNonEmpty (on_event 0 (\<lambda>ev. ev\<lparr>ev_target := Some 0\<rparr>) st1) =
        Inr (st', called)" "called = [0, 1]" "0 < d_next_event (example_state listening)"
      "STOP_PROPAGATION \<notin> flags (example_state listening) 0"
    by (auto split: sum.splits)
  from dispatch_calls_each_listener_once [OF conjunct1 [OF s] r(4,5,1,2)] have "distinct called" by blast
  with r show ?thesis by blast
qed

text \<open>An event that is not cancelable, or that only passive listeners handle, is not canceled by
  dispatching it: whatever the listeners do, \<open>dispatchEvent\<close> returns true unless it was canceled
  before. In every case it returns whether the event is not canceled, and leaves the dispatch and
  stop flags clear.\<close>

theorem passive_listeners_do_not_cancel:
  assumes s: "dom_session debug active og scr n cmds = Inr st" and e: "e < d_next_event st"
    and run: "dispatch_event (dom_js scr' n') t e st = Inr (st', Inr ok)"
  shows "ok = (CANCELED \<notin> flags st' e) \<and>
    flags st' e \<inter> {DISPATCH, STOP_PROPAGATION, STOP_IMMEDIATE_PROPAGATION} = {} \<and>
    (CANCELABLE \<notin> flags st e \<or> (\<forall>l \<in> set (d_listeners st t).
        li_event_type l = ev_type (d_events st e) \<longrightarrow> li_passive l = Some True) \<longrightarrow>
     ok = (CANCELED \<notin> flags st e))"
proof -
  let ?st = "on_flags e (\<lambda>fs. fs - {TRUSTED}) st"
  have nd: "DISPATCH \<notin> flags st e" by (rule session_not_dispatching [OF s e])
  have k: "keeps [] st ?st" by (rule js.untrust_keeps [OF session_inv [OF s] e nd])
  have e1: "e < d_next_event ?st" "DISPATCH \<notin> flags ?st e"
    using e nd by (simp_all add: on_event_def)
  have eq: "CANCELABLE \<in> flags ?st e \<longleftrightarrow> CANCELABLE \<in> flags st e" "CANCELED \<in> flags ?st e \<longleftrightarrow> CANCELED \<in> flags st e"
    "d_listeners ?st = d_listeners st" "ev_type (d_events ?st e) = ev_type (d_events st e)"
    by (simp_all add: on_event_def)
  have r: "dispatch (dom_js scr' n') e t StackNonEmpty ?st = Inr (st', ok)"
    using run by (auto simp: dispatch_event_def and_then_def split: if_splits sum.splits)
  from js.dispatch_done [OF keeps_inv [OF k] e1, of scr' n' t StackNonEmpty] r
  have "dispatched [] e t ?st (st', ok)" by simp
  then show ?thesis unfolding dispatched_def prod.case eq by blast
qed

lemma canceling_dispatch:
  "case example_session True canceling of
     Inr st \<Rightarrow>
       (case dispatch_event example_user 0 0 st of
          Inr (st', r) \<Rightarrow> r = Inr True
        | Inl p \<Rightarrow> False)
   | Inl p \<Rightarrow> False"
  by (simp add: run_example canceling_def cong: and_then_weak_cong js_then_weak_cong)

lemma passive_listeners_do_not_cancel_witness:
  "\<exists>st'. dispatch_event example_user 0 0 (example_state canceling) = Inr (st', Inr True) \<and> CANCELED \<notin> flags st' 0"
proof -
  note s = returns_state [OF canceling_dispatch]
  from s obtain st' where r: "dispatch_event example_user 0 0 (example_state canceling) = Inr (st', Inr True)"
    by (auto split: sum.splits)
  note c = conjunct2 [OF returns_state [OF canceling]]
  have "0 < d_next_event (example_state canceling)" using c by simp
  from passive_listeners_do_not_cancel [OF conjunct1 [OF s] this r] have "CANCELED \<notin> flags st' 0" by blast
  with r show ?thesis by blast
qed

text \<open>
  \<open>onabort\<close> and \<open>addEventListener\<close> share one listener when they are given the same function, so
  clearing \<open>onabort\<close> removes the listener that was added by \<open>addEventListener\<close>.
\<close>

lemma clearing_onabort_removes_the_added_listener:
  "case example_session True
      [NewAbortController, AddEventListener 1 ''abort'' (ArgFunction 0) None, SetOnabort 1 (ArgFunction 0),
       SetOnabort 1 ArgNull] of
     Inr st \<Rightarrow> d_listeners st 1 = [] | Inl p \<Rightarrow> False"
  by (simp add: run_example cong: and_then_weak_cong js_then_weak_cong)

text \<open>\<open>initEvent\<close> leaves \<open>isTrusted\<close> as it is.\<close>

lemma init_event_keeps_trusted:
  "TRUSTED \<in> flags (init_event e ty b c st) e \<longleftrightarrow> TRUSTED \<in> flags st e"
  by (auto simp: init_event_def on_event_def initialize_def set_flag_def)

section \<open>Abort signals\<close>

text \<open>C26: after every session a dependent of a signal is a dependent signal with it as a source, while a
  source is never dependent itself; when a signal is aborted, all its dependents are, and no abort
  algorithm is left on it. Later commands keep every abort reason.\<close>

theorem dependents_follow_their_sources:
  assumes s: "dom_session debug active og scr n cmds = Inr st"
    and later: "dom_run scr' n' later st = Inr st'"
    and u: "u < d_next_object st"
  shows "(\<forall>d \<in> set (as_dependent_signals (d_signals st u)).
        as_dependent (d_signals st d) \<and> \<not> as_dependent (d_signals st u) \<and>
        u \<in> set (as_source_signals (d_signals st d)) \<and> (aborted u st \<longrightarrow> aborted d st)) \<and>
    (\<forall>r \<in> set (as_source_signals (d_signals st u)).
        \<not> as_dependent (d_signals st r) \<and> u \<in> set (as_dependent_signals (d_signals st r))) \<and>
    (aborted u st \<longrightarrow> as_abort_algorithms (d_signals st u) = [] \<and>
        as_abort_reason (d_signals st' u) = as_abort_reason (d_signals st u) \<and>
        as_abort_algorithms (d_signals st' u) = [])"
proof -
  note inv = session_inv [OF s]
  note r = dom_run_inv [OF s later]
  have ok: "signal_ok [] (d_next_object st) (d_signals st) u"
    using dom_invD(3) [OF inv] u by (simp add: signals_ok_def)
  have "signal_le (d_signals st u) (d_signals st' u)" using js.signals_leD [OF _ u] r by blast
  then have "aborted u st \<longrightarrow> as_abort_reason (d_signals st' u) = as_abort_reason (d_signals st u) \<and>
      set (as_abort_algorithms (d_signals st' u)) \<subseteq> set (as_abort_algorithms (d_signals st u))"
    by (simp add: signal_le_def aborted_def)
  with ok signal_links [OF inv u] show ?thesis
    unfolding signal_ok_def aborted_def by auto
qed

lemma following_abort:
  "case example_session True following of
     Inr st \<Rightarrow>
       (case dom_run example_js (Suc (Suc 0)) [ControllerAbort 0 (JUser 3) StackEmpty] st of
          Inr st' \<Rightarrow> as_abort_reason (d_signals st' 1) = JUser 3 | Inl p \<Rightarrow> False)
   | Inl p \<Rightarrow> False"
  by (simp add: run_example following_def cong: and_then_weak_cong js_then_weak_cong)

lemma dependents_follow_their_sources_witness:
  "as_dependent (d_signals (example_state following) 4) \<and> 1 \<in> set (as_source_signals (d_signals (example_state following) 4))"
proof -
  note s = returns_state [OF following_abort]
  note f = conjunct2 [OF returns_state [OF following]]
  from s obtain st' where r:
    "dom_run example_js (Suc (Suc 0)) [ControllerAbort 0 (JUser 3) StackEmpty] (example_state following) = Inr st'"
    by (auto split: sum.splits)
  have "1 < d_next_object (example_state following)" "4 \<in> set (as_dependent_signals (d_signals (example_state following) 1))"
    using f by simp_all
  with dependents_follow_their_sources [OF conjunct1 [OF s] r, of 1] show ?thesis by blast
qed

text \<open>Aborting a controller aborts its signal with the reason, an \<open>AbortError\<close> if there is none,
  gives the same reason to each of its dependents that is not aborted yet, and leaves the others
  theirs; when it returns, no abort algorithm is left on any of them.\<close>

theorem controller_abort_reaches_dependents:
  assumes s: "dom_session debug active og scr n cmds = Inr st"
    and c: "c < length (d_controllers st)"
    and na: "\<not> aborted (d_controllers st ! c) st"
    and run: "controller_abort (dom_js scr' n') c reason stack st = Inr st'"
  defines "u \<equiv> d_controllers st ! c"
    and "v \<equiv> (if reason \<noteq> JUndefined then reason
              else JDomException ''AbortError'' ''signal is aborted without reason'')"
  shows "as_abort_reason (d_signals st' u) = v \<and> as_abort_algorithms (d_signals st' u) = [] \<and>
    (\<forall>d \<in> set (as_dependent_signals (d_signals st u)).
       as_abort_reason (d_signals st' d) =
         (if aborted d st then as_abort_reason (d_signals st d) else v) \<and>
       as_abort_algorithms (d_signals st' d) = [])"
proof -
  note inv = session_inv [OF s]
  have u: "u < d_next_object st"
    using dom_invD(3) [OF inv] c by (simp add: signals_ok_def u_def)
  from js.signal_abort_done [OF inv u, of scr' n' reason stack]
  have k: "keeps [] st st'" and a: "aborts u v st st'"
    using run na by (simp_all add: controller_abort_def u_def v_def)
  have n: "d_next_object st \<le> d_next_object st'"
    using k unfolding keeps_def dom_le_x_def signals_le_def by blast
  have empty: "as_abort_algorithms (d_signals st' w) = []" if "w < d_next_object st" "aborted w st'" for w
  proof -
    have "signal_ok [] (d_next_object st') (d_signals st') w"
      using dom_invD(3) [OF keeps_inv [OF k]] that(1) n by (simp add: signals_ok_def)
    then have "as_abort_reason (d_signals st' w) \<noteq> JUndefined \<and> w \<notin> set [] \<longrightarrow>
        as_abort_algorithms (d_signals st' w) = []" unfolding signal_ok_def by (elim conjE)
    then show ?thesis using that(2) by (simp add: aborted_def)
  qed
  have v: "v \<noteq> JUndefined" by (simp add: v_def)
  have reason: "as_abort_reason (d_signals st' u) = v" using a by (simp add: aborts_def)
  have none: "as_abort_algorithms (d_signals st' u) = []"
    using reason v by (intro empty [OF u]) (simp add: aborted_def)
  have dep: "as_abort_reason (d_signals st' d) =
      (if aborted d st then as_abort_reason (d_signals st d) else v)"
    if "d \<in> set (as_dependent_signals (d_signals st u))" for d
    using a that by (simp add: aborts_def)
  have "as_abort_algorithms (d_signals st' d) = []"
    if d: "d \<in> set (as_dependent_signals (d_signals st u))" for d
  proof -
    have "aborted d st'" unfolding aborted_def dep [OF d] using v by (simp add: aborted_def)
    then show ?thesis using signal_links [OF inv u d] empty [of d] by blast
  qed
  with reason none dep show ?thesis by (intro conjI ballI)
qed

lemma following_controller_abort:
  "case example_session True following of
     Inr st \<Rightarrow>
       (case controller_abort example_user 0 JUndefined StackEmpty st of Inr st' \<Rightarrow> True | Inl p \<Rightarrow> False)
   | Inl p \<Rightarrow> False"
  by (simp add: run_example following_def cong: and_then_weak_cong js_then_weak_cong)

lemma controller_abort_reaches_dependents_witness:
  "\<exists>st'. controller_abort example_user 0 JUndefined StackEmpty (example_state following) = Inr st' \<and>
    as_abort_reason (d_signals st' 4) = JDomException ''AbortError'' ''signal is aborted without reason'' \<and>
    as_abort_algorithms (d_signals st' 4) = []"
proof -
  note s = returns_state [OF following_controller_abort]
  note f = conjunct2 [OF returns_state [OF following]]
  from s obtain st' where r: "controller_abort example_user 0 JUndefined StackEmpty (example_state following) = Inr st'"
    by (auto split: sum.splits)
  have c: "0 < length (d_controllers (example_state following))" "d_controllers (example_state following) ! 0 = 1"
    "\<not> aborted (d_controllers (example_state following) ! 0) (example_state following)"
    "4 \<in> set (as_dependent_signals (d_signals (example_state following) 1))" "\<not> aborted 4 (example_state following)"
    using f by simp_all
  from controller_abort_reaches_dependents [OF conjunct1 [OF s] c(1,3) r] c(2,4,5)
  show ?thesis using r by auto
qed

lemma link_source_sources:
  "r \<noteq> s \<Longrightarrow> as_source_signals (d_signals (link_source r s st) u) =
     (if u = r then as_source_signals (d_signals st r) @ [s] else as_source_signals (d_signals st u))"
  by (simp add: link_source_signals)

lemma fold_link_sources:
  "r \<notin> set ss \<Longrightarrow> set (as_source_signals (d_signals (fold (link_source_if_new r) ss st) r)) =
       set (as_source_signals (d_signals st r)) \<union> set ss \<and>
     (\<forall>u. u \<noteq> r \<longrightarrow> as_source_signals (d_signals (fold (link_source_if_new r) ss st) u) =
       as_source_signals (d_signals st u))"
  by (induction ss arbitrary: st) (auto simp: link_source_if_new_def link_source_sources)

lemma link_signal_sources:
  assumes "linking F r st0 st" and "s < d_next_object st" "s \<noteq> r"
  shows "set (as_source_signals (d_signals (link_signal r s st) r)) =
      set (as_source_signals (d_signals st r)) \<union>
      (if as_dependent (d_signals st s) then set (as_source_signals (d_signals st s)) else {s})"
    and "u \<noteq> r \<Longrightarrow> as_source_signals (d_signals (link_signal r s st) u) = as_source_signals (d_signals st u)"
proof -
  have inv: "dom_inv F st" and r: "as_dependent (d_signals st r)"
    using assms(1) unfolding linking_def keeps_def by blast+
  have "signal_ok F (d_next_object st) (d_signals st) s"
    using dom_invD(3) [OF inv] assms(2) by (simp add: signals_ok_def)
  then have nr: "r \<notin> set (as_source_signals (d_signals st s))"
    using r unfolding signal_ok_def by blast
  show "set (as_source_signals (d_signals (link_signal r s st) r)) =
      set (as_source_signals (d_signals st r)) \<union>
      (if as_dependent (d_signals st s) then set (as_source_signals (d_signals st s)) else {s})"
    and "u \<noteq> r \<Longrightarrow> as_source_signals (d_signals (link_signal r s st) u) = as_source_signals (d_signals st u)"
    using assms(3) fold_link_sources [OF nr, of st] by (auto simp: link_signal_def link_source_sources)
qed

lemma fold_link_signal_sources:
  assumes "linking F r st0 st" and "\<And>s. s \<in> set ss \<Longrightarrow> s < d_next_object st \<and> s \<noteq> r \<and> \<not> aborted s st"
  shows "set (as_source_signals (d_signals (fold (link_signal r) ss st) r)) =
    set (as_source_signals (d_signals st r)) \<union>
    (\<Union>s \<in> set ss. if as_dependent (d_signals st s) then set (as_source_signals (d_signals st s)) else {s})"
  using assms
proof (induction ss arbitrary: st)
  case Nil
  then show ?case by simp
next
  case (Cons s ss)
  have s: "s < d_next_object st" "s \<noteq> r" "\<not> aborted s st" using Cons.prems(2) by auto
  let ?st = "link_signal r s st"
  have l: "linking F r st0 ?st" by (rule link_signal_linking [OF Cons.prems(1) s(1,3)])
  note src = link_signal_sources [OF Cons.prems(1) s(1,2)]
  have same: "as_dependent (d_signals ?st u) = as_dependent (d_signals st u)"
    "d_next_object ?st = d_next_object st" "aborted u ?st = aborted u st" for u
    using l Cons.prems(1) by (simp_all add: linking_def)
  have ih: "set (as_source_signals (d_signals (fold (link_signal r) ss ?st) r)) =
    set (as_source_signals (d_signals ?st r)) \<union>
    (\<Union>s \<in> set ss. if as_dependent (d_signals ?st s) then set (as_source_signals (d_signals ?st s)) else {s})"
    using Cons.prems(2) by (intro Cons.IH [OF l]) (simp add: same)
  have "(\<Union>s \<in> set ss. if as_dependent (d_signals ?st s) then set (as_source_signals (d_signals ?st s)) else {s}) =
      (\<Union>s \<in> set ss. if as_dependent (d_signals st s) then set (as_source_signals (d_signals st s)) else {s})"
    using Cons.prems(2) by (intro SUP_cong refl) (simp add: same src(2))
  then show ?case using ih by (simp add: src(1) Un_assoc)
qed

text \<open>\<open>AbortSignal.any\<close> of signals of which one is aborted is an aborted signal with the reason of
  the first such one and no links. Of signals none of which is aborted it is a dependent signal
  that is not aborted, whose sources are the independent signals of the list and the sources of the
  dependent ones.\<close>

theorem abort_any_depends_on_all_sources:
  assumes s: "dom_session debug active og scr n cmds = Inr st"
    and ss: "\<forall>s \<in> set ss. s < d_next_object st"
    and r: "abort_any ss st = (st', r)"
  shows "r = d_next_object st \<and>
    (case find (\<lambda>s. aborted s st) ss of
       Some a \<Rightarrow> as_abort_reason (d_signals st' r) = as_abort_reason (d_signals st a) \<and>
         \<not> as_dependent (d_signals st' r) \<and> as_source_signals (d_signals st' r) = []
     | None \<Rightarrow> \<not> aborted r st' \<and> as_dependent (d_signals st' r) \<and>
         set (as_source_signals (d_signals st' r)) =
           (\<Union>s \<in> set ss. if as_dependent (d_signals st s)
                     then set (as_source_signals (d_signals st s)) else {s}))"
proof -
  note inv = session_inv [OF s]
  let ?st1 = "fst (new_abort_signal st)"
  have first: "first_aborted ss ?st1 = find (\<lambda>s. aborted s st) ss"
    using ss by (induction ss) (auto simp: aborted_def)
  have r': "r = d_next_object st" using r by (auto simp: abort_any_def create_dependent_cases split: option.splits)
  show ?thesis
  proof (cases "first_aborted ss ?st1")
    case (Some a)
    have "a \<in> set ss" using first_aborted_Some [OF Some] by simp
    with ss have "a \<noteq> d_next_object st" by auto
    with Some r show ?thesis
      by (auto simp: abort_any_def create_dependent_cases first [symmetric] abort_signal_new_def)
  next
    case None
    let ?st = "with_new_signal (\<lambda>sg. sg\<lparr>as_dependent := True\<rparr>) st"
    have st': "st' = fold (link_signal r) ss ?st" using r None by (auto simp: abort_any_def create_dependent_cases)
    have l: "linking [] r ?st st'"
      using create_dependent_linking [OF inv ss None] r r' by (simp add: abort_any_def)
    have k: "keeps [] st ?st" using inv by (rule with_new_signal_keeps) (simp_all add: abort_signal_new_def)
    then have l0: "linking [] r ?st ?st"
      by (simp add: linking_def keeps_refl keeps_inv aborted_def abort_signal_new_def r')
    have "s < d_next_object ?st \<and> s \<noteq> r \<and> \<not> aborted s ?st" if "s \<in> set ss" for s
      using None ss that by (auto simp: first_aborted_None aborted_def less_SucI r')
    then have src: "set (as_source_signals (d_signals (fold (link_signal r) ss ?st) r)) =
        set (as_source_signals (d_signals ?st r)) \<union>
        (\<Union>s \<in> set ss. if as_dependent (d_signals ?st s) then set (as_source_signals (d_signals ?st s)) else {s})"
      by (rule fold_link_signal_sources [OF l0])
    have u: "(\<Union>s \<in> set ss. if as_dependent (d_signals ?st s) then set (as_source_signals (d_signals ?st s)) else {s}) =
        (\<Union>s \<in> set ss. if as_dependent (d_signals st s) then set (as_source_signals (d_signals st s)) else {s})"
      using ss by (intro SUP_cong refl) auto
    have none: "set (as_source_signals (d_signals ?st r)) = {}" by (simp add: r' abort_signal_new_def)
    have "set (as_source_signals (d_signals st' r)) =
        (\<Union>s \<in> set ss. if as_dependent (d_signals st s) then set (as_source_signals (d_signals st s)) else {s})"
      unfolding st' src u none by (rule Un_empty_left)
    moreover have "\<not> aborted r st'" "as_dependent (d_signals st' r)" using l unfolding linking_def by blast+
    moreover have "find (\<lambda>s. aborted s st) ss = None" using None first by simp
    ultimately show ?thesis using r' by simp
  qed
qed

lemma abort_any_depends_on_all_sources_witness:
  "set (as_source_signals (d_signals (fst (abort_any [3, 1] (example_state following))) 5)) = {1, 2}"
proof -
  note s = returns_state [OF following]
  obtain st' r where r: "abort_any [3, 1] (example_state following) = (st', r)" by fastforce
  have ss: "\<forall>s \<in> set [3, 1]. s < d_next_object (example_state following)"
    and f: "find (\<lambda>s. aborted s (example_state following)) [3, 1] = None"
    using s by simp_all
  from abort_any_depends_on_all_sources [OF conjunct1 [OF s] ss r] s f
  have "r = 5 \<and> set (as_source_signals (d_signals st' r)) = {1, 2}" by (auto simp: insert_commute)
  with r show ?thesis by auto
qed

text \<open>C27: the recursion that counts the abort algorithms of a signal and its dependents ends: from
  depth two on it returns the sum over the signal and its direct dependents, because a dependent
  signal has no dependents.\<close>

theorem abort_algorithm_count_terminates:
  assumes s: "dom_session debug active og scr n cmds = Inr st" and u: "u < d_next_object st"
  shows "abort_algorithm_count_fuel (Suc (Suc k)) st u =
    Some (length (as_abort_algorithms (d_signals st u)) +
      sum_list (map (\<lambda>d. length (as_abort_algorithms (d_signals st d))) (as_dependent_signals (d_signals st u))))"
proof -
  note inv = session_inv [OF s]
  have leaf: "abort_algorithm_count_fuel (Suc k) st d = Some (length (as_abort_algorithms (d_signals st d)))"
    if "d \<in> set (as_dependent_signals (d_signals st u))" for d
  proof -
    note d = signal_links [OF inv u that]
    then have "as_dependent_signals (d_signals st d) = []"
      using signal_links [OF inv, of d] by (cases "as_dependent_signals (d_signals st d)") auto
    then show ?thesis by simp
  qed
  have sums: "sum_some (map (\<lambda>d. Some (f d)) ds) = Some (sum_list (map f ds))" for f and ds :: "oid list"
    by (induction ds) simp_all
  have deps: "map (abort_algorithm_count_fuel (Suc k) st) (as_dependent_signals (d_signals st u)) =
      map (\<lambda>d. Some (length (as_abort_algorithms (d_signals st d)))) (as_dependent_signals (d_signals st u))"
    using leaf by simp
  show ?thesis
    unfolding abort_algorithm_count_fuel.simps(2) [of "Suc k"] Let_def deps sums by simp
qed

lemma abort_algorithm_count_terminates_witness:
  "abort_algorithm_count_fuel (Suc (Suc 0)) (example_state following) 1 = Some 1"
  using returns_state [OF following]
    abort_algorithm_count_terminates [OF conjunct1 [OF returns_state [OF following]], of 1 0] by simp

section \<open>Lifetimes\<close>

text \<open>C28: after every session the pending count of an event is the number of its lifetime promises that
  have not settled (modulo the width of the counter), and the interest of each loop is the number
  of handles that unsettled lifetime promises and \<open>respondWith\<close> promises hold on it: each handle is
  released exactly once.\<close>

theorem lifetime_promises_are_counted:
  assumes s: "dom_session debug active og scr n cmds = Inr st"
  shows "(\<forall>e < d_next_event st. d_pending_promises_count st e =
      length (filter (\<lambda>r. reaction_event r = e) (d_reactions st)) mod (usize_max + 1)) \<and>
    in_count (el_interest (d_loops st l)) =
      length (filter (\<lambda>r. \<exists>h e. r = LifetimePromise (l, h) e) (d_reactions st)) +
      card {e. e < d_next_event st \<and> ev_class (d_events st e) = ClassFetchEvent \<and>
        (\<exists>h. fe_respond_interest (d_fetch st e) = Some (l, h))}"
proof -
  note d = dom_invD [OF session_inv [OF s]]
  have "(reaction_loop r = Some l) = (\<exists>h e. r = LifetimePromise (l, h) e)" for r
    by (cases r) force+
  then have "reaction_handles (d_reactions st) l =
      length (filter (\<lambda>r. \<exists>h e. r = LifetimePromise (l, h) e) (d_reactions st))"
    by (simp add: reaction_handles_def)
  moreover have "fetch_handles st l = card {e. e < d_next_event st \<and>
      ev_class (d_events st e) = ClassFetchEvent \<and> (\<exists>h. fe_respond_interest (d_fetch st e) = Some (l, h))}"
    by (simp add: fetch_handles_def holds_fetch_def Int_def lessThan_def)
  ultimately show ?thesis
    using d(4,5) by (simp add: interest_ok_def lifetime_ok_def count_ok_def lifetime_reactions_def)
qed

lemma lifetime_promises_are_counted_witness:
  "2 = length (filter (\<lambda>r. reaction_event r = 0) (d_reactions (example_state responding))) mod (usize_max + 1)"
  using returns_state [OF responding]
    lifetime_promises_are_counted [OF conjunct1 [OF returns_state [OF responding]], of 0] by simp

text \<open>C29: \<open>respondWith\<close> goes one way: a fetch event that was not responded to has neither a response nor
  an error; while one waits there is exactly one reaction for it and nothing else can be set; once
  its promise settled there is either a response or the error flag, never both, and no interest is
  held for it.\<close>

theorem respond_with_settles_once:
  assumes s: "dom_session debug active og scr n cmds = Inr st"
    and e: "e < d_next_event st" "ev_class (d_events st e) = ClassFetchEvent"
  defines "f \<equiv> d_fetch st e"
  shows "count_list (d_reactions st) (RespondPromise e) = (if fe_wait_to_respond f then 1 else 0) \<and>
    (fe_wait_to_respond f \<longrightarrow> fe_respond_with_entered f) \<and>
    (\<not> fe_wait_to_respond f \<longrightarrow> fe_respond_interest f = None) \<and>
    (if fe_respond_with_entered f \<and> \<not> fe_wait_to_respond f
     then (fe_potential_response f \<noteq> None) = (\<not> fe_respond_with_error f)
     else fe_potential_response f = None \<and> \<not> fe_respond_with_error f)"
proof -
  have "fetch_ok (count_list (d_reactions st) (RespondPromise e)) f"
    unfolding f_def using lifetime_okD(2) [OF dom_invD(4) [OF session_inv [OF s]] e] .
  then show ?thesis unfolding fetch_ok_def by auto
qed

lemma respond_with_settles_once_witness:
  "count_list (d_reactions (example_state responding)) (RespondPromise 0) = 1 \<and>
    fe_respond_with_entered (d_fetch (example_state responding) 0)"
  using returns_state [OF responding]
    respond_with_settles_once [OF conjunct1 [OF returns_state [OF responding]], of 0] by simp

end
