(* ===== verification/Byte_Strings.thy ===== *)
theory Byte_Strings
  imports Prelude "HOL-Library.Char_ord" "HOL-Library.List_Lexorder" "HOL-Library.Multiset"
begin

text \<open>
  The operations of Rust's \<open>str\<close> and \<open>Vec\<close> that the HTTP and URL components use. A \<open>ByteString\<close>,
  whose code points are all at most \<open>U+00FF\<close>, is a list of characters, one for each code point;
  \<open>bytes()\<close> of it is its UTF-8 encoding.
\<close>

section \<open>Bytes\<close>

definition code :: "char \<Rightarrow> nat" where
  "code c = of_char c"

definition utf8_char :: "char \<Rightarrow> nat list" where
  "utf8_char c = (if code c < 128 then [code c] else [192 + code c div 64, 128 + code c mod 64])"

definition utf8 :: "string \<Rightarrow> nat list" where
  "utf8 s = concat (map utf8_char s)"

definition is_ascii_alphanumeric :: "nat \<Rightarrow> bool" where
  "is_ascii_alphanumeric b \<longleftrightarrow> 48 \<le> b \<and> b \<le> 57 \<or> 65 \<le> b \<and> b \<le> 90 \<or> 97 \<le> b \<and> b \<le> 122"

definition to_ascii_lowercase_byte :: "nat \<Rightarrow> nat" where
  "to_ascii_lowercase_byte b = (if 65 \<le> b \<and> b \<le> 90 then b + 32 else b)"

definition to_ascii_lowercase_char :: "char \<Rightarrow> char" where
  "to_ascii_lowercase_char c = (if 65 \<le> code c \<and> code c \<le> 90 then char_of (code c + 32) else c)"

definition to_ascii_lowercase :: "string \<Rightarrow> string" where
  "to_ascii_lowercase = map to_ascii_lowercase_char"

definition eq_ignore_ascii_case :: "string \<Rightarrow> string \<Rightarrow> bool" where
  "eq_ignore_ascii_case a b \<longleftrightarrow> to_ascii_lowercase a = to_ascii_lowercase b"

text \<open>\<open>char::is_whitespace\<close>, the property \<open>White_Space\<close>, up to \<open>U+00FF\<close>.\<close>

definition is_whitespace :: "char \<Rightarrow> bool" where
  "is_whitespace c \<longleftrightarrow> 9 \<le> code c \<and> code c \<le> 13 \<or> code c \<in> {32, 133, 160}"

section \<open>Slices and searches\<close>

definition trim_matches :: "('a \<Rightarrow> bool) \<Rightarrow> 'a list \<Rightarrow> 'a list" where
  "trim_matches p s = rev (dropWhile p (rev (dropWhile p s)))"

definition str_trim :: "string \<Rightarrow> string" where
  "str_trim = trim_matches is_whitespace"

fun split_on :: "'a \<Rightarrow> 'a list \<Rightarrow> 'a list list" where
  "split_on sep [] = [[]]"
| "split_on sep (c # cs) =
     (if c = sep then [] # split_on sep cs
      else (case split_on sep cs of [] \<Rightarrow> [[c]] | piece # pieces \<Rightarrow> (c # piece) # pieces))"

text \<open>\<open>s.get(..n)\<close>: the first \<open>n\<close> bytes, if \<open>n\<close> is the start of a character or the end.\<close>

fun str_get_to :: "nat \<Rightarrow> string \<Rightarrow> string option" where
  "str_get_to n [] = (if n = 0 then Some [] else None)"
| "str_get_to n (c # cs) =
     (if n = 0 then Some []
      else if length (utf8_char c) \<le> n
      then map_option ((#) c) (str_get_to (n - length (utf8_char c)) cs)
      else None)"

fun position :: "('a \<Rightarrow> bool) \<Rightarrow> 'a list \<Rightarrow> nat option" where
  "position p [] = None"
| "position p (x # xs) = (if p x then Some 0 else map_option Suc (position p xs))"

text \<open>\<open>retain\<close> with a closure that keeps the first match only.\<close>

fun retain_first :: "('a \<Rightarrow> bool) \<Rightarrow> bool \<Rightarrow> 'a list \<Rightarrow> 'a list" where
  "retain_first p seen [] = []"
| "retain_first p seen (x # xs) =
     (if \<not> p x then x # retain_first p seen xs
      else if seen then retain_first p seen xs else x # retain_first p True xs)"

text \<open>Push what is not in the list yet: the ordered set of a list.\<close>

fun ordered_set :: "'a list \<Rightarrow> 'a list \<Rightarrow> 'a list" where
  "ordered_set acc [] = acc"
| "ordered_set acc (x # xs) = ordered_set (if x \<in> set acc then acc else acc @ [x]) xs"

section \<open>Lemmas\<close>

lemma code_bound [simp]: "code c < 256"
  by (simp add: code_def)

lemma code_char_of [simp]: "n < 256 \<Longrightarrow> code (char_of n) = n"
  by (simp add: code_def)

lemma code_eq_iff [simp]: "code c = code d \<longleftrightarrow> c = d"
  by (simp add: code_def)

lemma utf8_simps [simp]: "utf8 [] = []" "utf8 (c # s) = utf8_char c @ utf8 s"
  "utf8 (s @ t) = utf8 s @ utf8 t"
  by (simp_all add: utf8_def)

lemma length_utf8_char [simp]: "length (utf8_char c) \<noteq> 0"
  by (simp add: utf8_char_def)

text \<open>A predicate on ASCII bytes sees the same in the bytes and in the code points.\<close>

lemma list_ex_utf8:
  assumes "\<And>b. 128 \<le> b \<Longrightarrow> \<not> p b"
  shows "list_ex p (utf8 s) \<longleftrightarrow> list_ex (\<lambda>c. p (code c)) s"
  using assms by (induction s) (auto simp: utf8_char_def)

lemma list_all_utf8:
  assumes "\<And>b. 128 \<le> b \<Longrightarrow> \<not> p b"
  shows "list_all p (utf8 s) \<longleftrightarrow> list_all (\<lambda>c. p (code c)) s"
  using assms by (induction s) (auto simp: utf8_char_def)

lemma utf8_eq_Nil [simp]: "utf8 s = [] \<longleftrightarrow> s = []"
  by (cases s) (auto simp: utf8_char_def)

lemma lowercase_simps [simp]:
  "to_ascii_lowercase [] = []"
  "to_ascii_lowercase (c # s) = to_ascii_lowercase_char c # to_ascii_lowercase s"
  "to_ascii_lowercase (s @ t) = to_ascii_lowercase s @ to_ascii_lowercase t"
  by (simp_all add: to_ascii_lowercase_def)

lemma length_lowercase [simp]: "length (to_ascii_lowercase s) = length s"
  by (simp add: to_ascii_lowercase_def)

lemma lowercase_idem_char [simp]:
  "to_ascii_lowercase_char (to_ascii_lowercase_char c) = to_ascii_lowercase_char c"
  by (simp add: to_ascii_lowercase_char_def)

lemma lowercase_idem [simp]: "to_ascii_lowercase (to_ascii_lowercase s) = to_ascii_lowercase s"
  by (induction s) simp_all

lemma eq_ignore_refl [simp]: "eq_ignore_ascii_case a a"
  by (simp add: eq_ignore_ascii_case_def)

lemma eq_ignore_sym: "eq_ignore_ascii_case a b \<longleftrightarrow> eq_ignore_ascii_case b a"
  by (auto simp: eq_ignore_ascii_case_def)

lemma eq_ignore_trans:
  "eq_ignore_ascii_case a b \<Longrightarrow> eq_ignore_ascii_case b c \<longleftrightarrow> eq_ignore_ascii_case a c"
  by (simp add: eq_ignore_ascii_case_def)

lemma eq_ignore_lowercase [simp]:
  "eq_ignore_ascii_case (to_ascii_lowercase a) b \<longleftrightarrow> eq_ignore_ascii_case a b"
  "eq_ignore_ascii_case a (to_ascii_lowercase b) \<longleftrightarrow> eq_ignore_ascii_case a b"
  by (simp_all add: eq_ignore_ascii_case_def)

lemma code_lowercase: "code (to_ascii_lowercase_char c) = to_ascii_lowercase_byte (code c)"
  by (simp add: to_ascii_lowercase_char_def to_ascii_lowercase_byte_def)

lemma utf8_char_lowercase:
  "utf8_char (to_ascii_lowercase_char c) = map to_ascii_lowercase_byte (utf8_char c)"
  by (simp add: utf8_char_def code_lowercase to_ascii_lowercase_byte_def)

lemma utf8_lowercase: "utf8 (to_ascii_lowercase s) = map to_ascii_lowercase_byte (utf8 s)"
  by (induction s) (simp_all add: utf8_char_lowercase)

lemma utf8_char_inj: "utf8_char c @ s = utf8_char d @ t \<longleftrightarrow> c = d \<and> s = t"
proof
  assume e: "utf8_char c @ s = utf8_char d @ t"
  show "c = d \<and> s = t"
  proof (cases "code c < 128 \<or> code d < 128")
    case True
    with e show ?thesis by (auto simp: utf8_char_def split: if_splits)
  next
    case False
    with e have "192 + code c div 64 = 192 + code d div 64" "128 + code c mod 64 = 128 + code d mod 64" "s = t"
      by (simp_all only: utf8_char_def if_False de_Morgan_disj append_Cons append_Nil list.inject)
    then have "code c div 64 = code d div 64" "code c mod 64 = code d mod 64" "s = t"
      by (simp_all only: add_left_cancel)
    then show ?thesis using div_mult_mod_eq [of "code c" 64] div_mult_mod_eq [of "code d" 64]
      by (metis code_eq_iff)
  qed
qed simp

lemma utf8_inj [simp]: "utf8 s = utf8 t \<longleftrightarrow> s = t"
proof (induction s arbitrary: t)
  case Nil
  then show ?case by (cases t) (auto simp: utf8_char_def)
next
  case (Cons c s)
  show ?case
  proof (cases t)
    case Nil
    then show ?thesis by (auto simp: utf8_char_def)
  next
    case (Cons d t')
    then show ?thesis by (simp add: utf8_char_inj Cons.IH)
  qed
qed

text \<open>The comparison of the bytes, one after the other, is the comparison without case.\<close>

lemma eq_ignore_bytes:
  "eq_ignore_ascii_case a b \<longleftrightarrow>
     map to_ascii_lowercase_byte (utf8 a) = map to_ascii_lowercase_byte (utf8 b)"
  by (simp add: eq_ignore_ascii_case_def flip: utf8_lowercase)

lemma list_all2_map_eq: "list_all2 (\<lambda>a b. f a = b) xs ys \<longleftrightarrow> map f xs = ys"
  by (induction xs arbitrary: ys) (auto simp: list_all2_Cons1)

lemma set_trim_matches: "set (trim_matches p s) \<subseteq> set s"
  by (auto simp: trim_matches_def dest!: set_dropWhileD)

lemma trim_keeps:
  assumes "x \<in> set s" "\<not> p x"
  shows "x \<in> set (trim_matches p s)"
proof -
  have keep: "x \<in> set (dropWhile p t)" if "x \<in> set t" for t
    using that assms(2) by (induction t) auto
  then have keep': "x \<in> set t \<Longrightarrow> x \<in> set (rev (dropWhile p t))" for t by simp
  show ?thesis unfolding trim_matches_def using keep [OF keep' [OF assms(1)]] by simp
qed

lemma trim_id:
  assumes "s \<noteq> [] \<Longrightarrow> \<not> p (hd s) \<and> \<not> p (last s)"
  shows "trim_matches p s = s"
proof (cases s)
  case Nil
  then show ?thesis by (simp add: trim_matches_def)
next
  case (Cons c t)
  have 1: "dropWhile p s = s" using assms Cons by simp
  have "s \<noteq> []" by (simp add: Cons)
  then have "rev s \<noteq> []" "\<not> p (hd (rev s))" using assms by (simp_all add: hd_rev)
  then have "dropWhile p (rev s) = rev s" by (cases "rev s") simp_all
  then show ?thesis by (simp add: trim_matches_def 1)
qed

lemma trim_ends:
  assumes "trim_matches p s \<noteq> []"
  shows "\<not> p (hd (trim_matches p s))" "\<not> p (last (trim_matches p s))"
proof -
  let ?t = "dropWhile p s" and ?u = "dropWhile p (rev (dropWhile p s))"
  have u: "?u \<noteq> []" using assms by (simp add: trim_matches_def)
  have "\<not> p (hd ?u)" using u by (rule hd_dropWhile)
  then show "\<not> p (last (trim_matches p s))" using u by (simp add: trim_matches_def last_rev)
  have t: "?t \<noteq> []" using u by (metis dropWhile.simps(1) rev.simps(1))
  have "last ?u = last (rev ?t)" using u
    by (metis last_appendR takeWhile_dropWhile_id)
  then have "last ?u = hd ?t" using t by (simp add: last_rev)
  moreover have "\<not> p (hd ?t)" using t by (rule hd_dropWhile)
  ultimately show "\<not> p (hd (trim_matches p s))" using u by (simp add: trim_matches_def hd_rev)
qed

lemma position_None [simp]: "position p xs = None \<longleftrightarrow> (\<forall>x \<in> set xs. \<not> p x)"
  by (induction xs) auto

lemma position_Some:
  "position p xs = Some i \<longleftrightarrow> i < length xs \<and> p (xs ! i) \<and> (\<forall>j < i. \<not> p (xs ! j))"
proof (induction xs arbitrary: i)
  case Nil
  then show ?case by simp
next
  case (Cons x xs)
  show ?case
  proof (cases i)
    case 0
    then show ?thesis by auto
  next
    case (Suc k)
    have "(\<forall>j < Suc k. \<not> p ((x # xs) ! j)) \<longleftrightarrow> \<not> p x \<and> (\<forall>j < k. \<not> p (xs ! j))"
      by (auto simp: less_Suc_eq_0_disj)
    then show ?thesis using Cons.IH [of k] Suc by auto
  qed
qed

lemma retain_first_seen: "retain_first p True xs = filter (\<lambda>x. \<not> p x) xs"
  by (induction xs) auto

lemma retain_first_split:
  assumes "\<forall>x \<in> set xs. \<not> p x" "p y"
  shows "retain_first p False (xs @ y # ys) = xs @ y # filter (\<lambda>x. \<not> p x) ys"
  using assms by (induction xs) (auto simp: retain_first_seen)

lemma set_ordered_set [simp]: "set (ordered_set acc xs) = set acc \<union> set xs"
  by (induction acc xs rule: ordered_set.induct) auto

lemma distinct_ordered_set [simp]: "distinct acc \<Longrightarrow> distinct (ordered_set acc xs)"
  by (induction acc xs rule: ordered_set.induct) auto

lemma str_get_to_ascii:
  assumes "list_all (\<lambda>c. code c < 128) s"
  shows "str_get_to n s = (if n \<le> length s then Some (take n s) else None)"
  using assms by (induction n s rule: str_get_to.induct) (auto simp: utf8_char_def take_Cons')

end
