(* ===== verification/Header_List.thy ===== *)
theory Header_List
  imports Byte_Strings
begin

text \<open>
  The header lists of \<open>crates/builtins/web-fetch/src/algorithms.rs\<close>: names and values as byte
  strings, what is a name, a value, a method, what the guards forbid or allow, and the operations
  on lists. Every \<open>debug_assert!\<close> and \<open>expect\<close> is a branch that panics (\<open>None\<close>).
\<close>

section \<open>Names, values and methods\<close>

type_synonym header_list = "(string \<times> string) list"

definition is_http_token_byte :: "nat \<Rightarrow> bool" where
  "is_http_token_byte b \<longleftrightarrow>
     is_ascii_alphanumeric b \<or>
     b \<in> {33, 35, 36, 37, 38, 39, 42, 43, 45, 46, 94, 95, 96, 124, 126}"

definition is_header_name :: "string \<Rightarrow> bool" where
  "is_header_name name \<longleftrightarrow> name \<noteq> [] \<and> list_all is_http_token_byte (utf8 name)"

definition is_header_value :: "string \<Rightarrow> bool" where
  "is_header_value value' \<longleftrightarrow>
     (let bytes = utf8 value' in
        if bytes \<noteq> [] \<and> (hd bytes \<in> {9, 32} \<or> last bytes \<in> {9, 32}) then False
        else \<not> list_ex (\<lambda>b. b \<in> {0, 10, 13}) bytes)"

definition normalize_byte_sequence :: "string \<Rightarrow> string" where
  "normalize_byte_sequence potential_value =
     trim_matches (\<lambda>c. code c \<in> {9, 10, 13, 32}) potential_value"

definition is_forbidden_response_header_name :: "string \<Rightarrow> bool" where
  "is_forbidden_response_header_name name \<longleftrightarrow>
     eq_ignore_ascii_case name ''set-cookie'' \<or> eq_ignore_ascii_case name ''set-cookie2''"

definition is_forbidden_method :: "string \<Rightarrow> bool" where
  "is_forbidden_method m \<longleftrightarrow>
     eq_ignore_ascii_case m ''connect'' \<or> eq_ignore_ascii_case m ''trace'' \<or>
     eq_ignore_ascii_case m ''track''"

definition is_method :: "string \<Rightarrow> bool" where
  "is_method m \<longleftrightarrow> m \<noteq> [] \<and> list_all is_http_token_byte (utf8 m)"

definition is_cors_safelisted_method :: "string \<Rightarrow> bool" where
  "is_cors_safelisted_method m \<longleftrightarrow>
     eq_ignore_ascii_case m ''get'' \<or> eq_ignore_ascii_case m ''head'' \<or>
     eq_ignore_ascii_case m ''post''"

definition normalize_a_method :: "string \<Rightarrow> string" where
  "normalize_a_method m =
     (case find (eq_ignore_ascii_case m)
             [''DELETE'', ''GET'', ''HEAD'', ''OPTIONS'', ''POST'', ''PUT''] of
        Some normalized \<Rightarrow> normalized
      | None \<Rightarrow> m)"

section \<open>What requests may carry\<close>

definition forbidden_names :: "string list" where
  "forbidden_names =
     [''accept-charset'', ''accept-encoding'', ''access-control-request-headers'',
      ''access-control-request-method'', ''connection'', ''content-length'', ''cookie'', ''cookie2'',
      ''date'', ''dnt'', ''expect'', ''host'', ''keep-alive'', ''origin'', ''referer'', ''set-cookie'',
      ''te'', ''trailer'', ''transfer-encoding'', ''upgrade'', ''via'']"

definition has_prefix_ignore_case :: "nat \<Rightarrow> string \<Rightarrow> string \<Rightarrow> bool" where
  "has_prefix_ignore_case n prefix' name =
     (case str_get_to n name of Some p \<Rightarrow> eq_ignore_ascii_case p prefix' | None \<Rightarrow> False)"

definition forbidden_request_header :: "string \<Rightarrow> string \<Rightarrow> bool" where
  "forbidden_request_header name value' =
     (if list_ex (eq_ignore_ascii_case name) forbidden_names then True
      else if has_prefix_ignore_case 6 ''proxy-'' name \<or> has_prefix_ignore_case 4 ''sec-'' name
      then True
      else if (eq_ignore_ascii_case name ''x-http-method'' \<or>
               eq_ignore_ascii_case name ''x-http-method-override'' \<or>
               eq_ignore_ascii_case name ''x-method-override'') \<and>
              list_ex (\<lambda>m. is_forbidden_method (trim_matches (\<lambda>c. code c \<in> {32, 9}) m))
                (split_on CHR '','' value')
      then True
      else False)"

definition is_safelisted_language_byte :: "nat \<Rightarrow> bool" where
  "is_safelisted_language_byte b \<longleftrightarrow>
     is_ascii_alphanumeric b \<or> b \<in> {32, 42, 44, 45, 46, 59, 61}"

definition is_safelisted_content_type_essence :: "string \<Rightarrow> bool" where
  "is_safelisted_content_type_essence essence \<longleftrightarrow>
     eq_ignore_ascii_case essence ''application/x-www-form-urlencoded'' \<or>
     eq_ignore_ascii_case essence ''multipart/form-data'' \<or>
     eq_ignore_ascii_case essence ''text/plain''"

definition is_cors_unsafe_request_header_byte :: "nat \<Rightarrow> bool" where
  "is_cors_unsafe_request_header_byte b \<longleftrightarrow>
     b < 32 \<and> b \<noteq> 9 \<or>
     b \<in> {34, 40, 41, 58, 60, 62, 63, 64, 91, 92, 93, 123, 125, 127}"

text \<open>The \<open>range\<close> branch answers false, every other name true.\<close>

definition is_cors_safelisted_request_header :: "string \<Rightarrow> string \<Rightarrow> bool" where
  "is_cors_safelisted_request_header name value' =
     (if length value' > 128 then False
      else if eq_ignore_ascii_case name ''accept''
      then \<not> list_ex is_cors_unsafe_request_header_byte (utf8 value')
      else if eq_ignore_ascii_case name ''accept-language'' \<or>
              eq_ignore_ascii_case name ''content-language''
      then list_all is_safelisted_language_byte (utf8 value')
      else if eq_ignore_ascii_case name ''content-type''
      then (if list_ex is_cors_unsafe_request_header_byte (utf8 value') then False
            else is_safelisted_content_type_essence
                   (str_trim (case split_on CHR '';'' value' of [] \<Rightarrow> [] | piece # _ \<Rightarrow> piece)))
      else if eq_ignore_ascii_case name ''range'' then False
      else True)"

definition is_no_cors_safelisted_request_header_name :: "string \<Rightarrow> bool" where
  "is_no_cors_safelisted_request_header_name name \<longleftrightarrow>
     eq_ignore_ascii_case name ''accept'' \<or> eq_ignore_ascii_case name ''accept-language'' \<or>
     eq_ignore_ascii_case name ''content-language'' \<or> eq_ignore_ascii_case name ''content-type''"

definition is_privileged_no_cors_request_header_name :: "string \<Rightarrow> bool" where
  "is_privileged_no_cors_request_header_name name \<longleftrightarrow> eq_ignore_ascii_case name ''range''"

definition is_no_cors_safelisted_request_header :: "string \<Rightarrow> string \<Rightarrow> bool" where
  "is_no_cors_safelisted_request_header name value' =
     (if \<not> is_no_cors_safelisted_request_header_name name then False
      else is_cors_safelisted_request_header name value')"

text \<open>The check of the combined value without building it.\<close>

definition is_no_cors_safelisted_request_header_after_append ::
    "string \<Rightarrow> string option \<Rightarrow> string \<Rightarrow> bool" where
  "is_no_cors_safelisted_request_header_after_append name existing value' =
     (case existing of
        None \<Rightarrow> is_no_cors_safelisted_request_header name value'
      | Some ex \<Rightarrow>
          if \<not> is_no_cors_safelisted_request_header_name name then False
          else if length ex + 2 + length value' > 128 then False
          else if eq_ignore_ascii_case name ''accept''
          then \<not> list_ex is_cors_unsafe_request_header_byte (utf8 ex) \<and>
               \<not> list_ex is_cors_unsafe_request_header_byte (utf8 value')
          else if eq_ignore_ascii_case name ''accept-language'' \<or>
                  eq_ignore_ascii_case name ''content-language''
          then list_all is_safelisted_language_byte (utf8 ex) \<and>
               list_all is_safelisted_language_byte (utf8 value')
          else if list_ex is_cors_unsafe_request_header_byte (utf8 ex) \<or>
                  list_ex is_cors_unsafe_request_header_byte (utf8 value')
          then False
          else (case position (\<lambda>c. c = CHR '';'') ex of
                  Some index \<Rightarrow> is_safelisted_content_type_essence (str_trim (take index ex))
                | None \<Rightarrow> False))"

section \<open>Operations on lists\<close>

definition contains :: "header_list \<Rightarrow> string \<Rightarrow> bool" where
  "contains list name = list_ex (\<lambda>(n, _). eq_ignore_ascii_case n name) list"

definition get_header_for_name :: "header_list \<Rightarrow> string \<Rightarrow> string option option" where
  "get_header_for_name list name =
     do {
       require (is_header_name name);
       let lowercase = map to_ascii_lowercase_byte (utf8 name);
       let values = map snd (filter (\<lambda>(n, _).
              length (utf8 n) = length lowercase \<and>
              list_all2 (\<lambda>a b. to_ascii_lowercase_byte a = b) (utf8 n) lowercase) list);
       Some (case values of
               [] \<Rightarrow> None
             | [first] \<Rightarrow> Some first
             | first # rest \<Rightarrow> Some (first @ concat (map (\<lambda>v. '', '' @ v) rest)))
     }"

definition append_a_header :: "string \<Rightarrow> string \<Rightarrow> header_list \<Rightarrow> header_list option" where
  "append_a_header name value' list =
     do {
       require (is_header_name name);
       require (is_header_value value');
       let name' = (case find (\<lambda>(n, _). eq_ignore_ascii_case n name) list of
                      Some (n, _) \<Rightarrow> n
                    | None \<Rightarrow> name);
       Some (list @ [(name', value')])
     }"

definition delete_header :: "string \<Rightarrow> header_list \<Rightarrow> header_list option" where
  "delete_header name list =
     do {
       require (is_header_name name);
       Some (filter (\<lambda>(n, _). \<not> eq_ignore_ascii_case n name) list)
     }"

definition set_a_header :: "string \<Rightarrow> string \<Rightarrow> header_list \<Rightarrow> header_list option" where
  "set_a_header name value' list =
     do {
       require (is_header_name name);
       require (is_header_value value');
       Some (case position (\<lambda>(n, _). eq_ignore_ascii_case n name) list of
               Some first \<Rightarrow>
                 retain_first (\<lambda>(n, _). eq_ignore_ascii_case n name) False
                   (list[first := (fst (list ! first), value')])
             | None \<Rightarrow> list @ [(name, value')])
     }"

definition convert_header_names_to_sorted_lowercase_set :: "string list \<Rightarrow> string list" where
  "convert_header_names_to_sorted_lowercase_set header_names =
     sort_key utf8 (ordered_set [] (map to_ascii_lowercase header_names))"

text \<open>The loop over the sorted names. The inner \<open>expect\<close> is a panic when the name is not found.\<close>

fun combine_names :: "header_list \<Rightarrow> string list \<Rightarrow> header_list option" where
  "combine_names list [] = Some []"
| "combine_names list (name # names) =
     do {
       entries \<leftarrow>
         (if name = ''set-cookie''
          then Some (map (\<lambda>(n, v). (name, v))
                 (filter (\<lambda>(n, v). eq_ignore_ascii_case n name) list))
          else do {
            found \<leftarrow> get_header_for_name list name;
            value' \<leftarrow> found;
            Some [(name, value')]
          });
       rest \<leftarrow> combine_names list names;
       Some (entries @ rest)
     }"

definition sort_and_combine_a_header_list :: "header_list \<Rightarrow> header_list option" where
  "sort_and_combine_a_header_list list =
     combine_names list (convert_header_names_to_sorted_lowercase_set (map fst list))"

end
