(* ===== verification/Pair_Iteration.thy ===== *)
theory Pair_Iteration
  imports Promise_Store
begin

text \<open>
  The pair iterators of \<open>crates/js/src/iteration.rs\<close>: the result for a pair and a kind, the default
  iterator object, and \<open>forEach\<close>, which reads the current list again before every callback.
\<close>

type_synonym 'a thrown = "jsval + 'a"

datatype iteration_kind = KindKey | KindValue | KindKeyValue

datatype ('k, 'v) iter_value = IterUndefined | IterKey 'k | IterValue 'v | IterPair 'k 'v

text \<open>An iterator result object: \<open>value\<close> and \<open>done\<close>.\<close>

type_synonym ('k, 'v) iter_result = "('k, 'v) iter_value \<times> bool"

definition pair_iterator_result :: "'k \<Rightarrow> 'v \<Rightarrow> iteration_kind \<Rightarrow> ('k, 'v) iter_result" where
  "pair_iterator_result key value' kind =
     ((case kind of
         KindKey \<Rightarrow> IterKey key
       | KindValue \<Rightarrow> IterValue value'
       | KindKeyValue \<Rightarrow> IterPair key value'), False)"

record pair_iterator =
  it_index :: nat
  it_kind :: iteration_kind

definition pair_iterator_new :: "iteration_kind \<Rightarrow> pair_iterator" where
  "pair_iterator_new kind = \<lparr>it_index = 0, it_kind = kind\<rparr>"

text \<open>The \<open>next\<close> method on the current values of the target.\<close>

definition pair_iterator_next ::
    "('k \<times> 'v) list \<Rightarrow> pair_iterator \<Rightarrow> pair_iterator \<times> ('k, 'v) iter_result" where
  "pair_iterator_next values it =
     (let index = it_index it; kind = it_kind it
      in if index \<ge> length values then (it, (IterUndefined, True))
         else (it\<lparr>it_index := index + 1\<rparr>,
               pair_iterator_result (fst (values ! index)) (snd (values ! index)) kind))"

text \<open>
  The loop of \<open>forEach\<close>. The callback may change the list, so the loop need not end: with no fuel
  left the last component is \<open>None\<close>, the loop still runs.
\<close>

fun for_each_pair ::
    "nat \<Rightarrow> (nat \<Rightarrow> 's \<Rightarrow> ('s \<times> ('k \<times> 'v) option) option) \<Rightarrow>
       ('v \<Rightarrow> 'k \<Rightarrow> 's \<Rightarrow> ('s \<times> unit thrown) option) \<Rightarrow> nat \<Rightarrow> 's \<Rightarrow>
       ('s \<times> unit thrown option) option" where
  "for_each_pair 0 pair_at callback i s = Some (s, None)"
| "for_each_pair (Suc n) pair_at callback i s =
     do {
       (s1, pair) \<leftarrow> pair_at i s;
       case pair of
         None \<Rightarrow> Some (s1, Some (Inr ()))
       | Some (key, value') \<Rightarrow>
           do {
             (s2, r) \<leftarrow> callback value' key s1;
             case r of
               Inl e \<Rightarrow> Some (s2, Some (Inl e))
             | Inr _ \<Rightarrow> for_each_pair n pair_at callback (i + 1) s2
           }
     }"

text \<open>The callback that only notes what it is called with, and the reads beside its notes.\<close>

definition logging ::
    "'v \<Rightarrow> 'k \<Rightarrow> 's \<times> ('k \<times> 'v) list \<Rightarrow> (('s \<times> ('k \<times> 'v) list) \<times> unit thrown) option" where
  "logging v k = (\<lambda>(s, log). Some ((s, log @ [(k, v)]), Inr ()))"

definition logged ::
    "('s \<Rightarrow> ('s \<times> 'p) option) \<Rightarrow> 's \<times> 'l \<Rightarrow> (('s \<times> 'l) \<times> 'p) option" where
  "logged f = (\<lambda>(s, log). map_option (\<lambda>(s', p). ((s', log), p)) (f s))"

lemma wp_logged [simp]: "wp (logged f (s, log)) Q = wp (f s) (\<lambda>(s', p). Q ((s', log), p))"
  by (cases "f s") (simp_all add: logged_def case_prod_beta)

text \<open>
  What the loop relies on: reading an entry does not panic, gives the entry of the current list and
  leaves the list as it is.
\<close>

locale pair_iterable =
  fixes pair_at :: "nat \<Rightarrow> 's \<Rightarrow> ('s \<times> ('k \<times> 'v) option) option"
    and pairs :: "'s \<Rightarrow> ('k \<times> 'v) list"
    and Inv :: "'s \<Rightarrow> bool"
  assumes read: "Inv s \<Longrightarrow> wp (pair_at i s) (\<lambda>(s', p).
      p = (if i < length (pairs s) then Some (pairs s ! i) else None) \<and> Inv s' \<and> pairs s' = pairs s)"
begin

text \<open>A callback that leaves the list alone sees every pair once, in order, and the loop ends.\<close>

lemma for_each_visits:
  assumes "Inv s" "length (pairs s) - i < n"
  shows "wp (for_each_pair n (\<lambda>i. logged (pair_at i)) logging i (s, log)) (\<lambda>((s', log'), r).
    r = Some (Inr ()) \<and> log' = log @ drop i (pairs s) \<and> Inv s' \<and> pairs s' = pairs s)"
  using assms
proof (induction n arbitrary: i s log)
  case 0
  then show ?case by simp
next
  case (Suc n)
  obtain s' where r: "pair_at i s = Some (s', if i < length (pairs s) then Some (pairs s ! i) else None)"
    and s': "Inv s'" "pairs s' = pairs s"
    using read [OF Suc.prems(1), of i] by (auto elim!: wpE)
  show ?case
  proof (cases "i < length (pairs s)")
    case True
    have "length (pairs s') - (i + 1) < n" using Suc.prems(2) True s' by simp
    from Suc.IH [OF s'(1) this, of "log @ [pairs s ! i]"] show ?thesis
      using True s' by (simp add: r logged_def logging_def case_prod_beta flip: Cons_nth_drop_Suc)
  next
    case False
    then show ?thesis using s' by (simp add: r logged_def)
  qed
qed

end

end
