(* ===== verification/Headers.thy ===== *)
theory Headers
  imports Header_List Pair_Iteration
begin

text \<open>
  The \<open>Headers\<close> class, \<open>crates/builtins/web-fetch/src/headers.rs\<close>, and the algorithms on it: a list
  with a cache of its sorted and combined form, and a guard. \<open>enforce\<close> is
  \<open>config::enforce_fetch_restrictions()\<close>, which is fixed while a session of commands runs; an embedder
  may change it at any time, and what holds then is what holds of a session that begins there. A method
  returns the object and the thrown value or its result.
\<close>

datatype guard = GuardNone | Immutable | GuardRequest | RequestNoCors | GuardResponse

record headers =
  hd_list :: header_list
  hd_sorted_and_combined :: "header_list option"
  hd_guard :: guard

definition headers_from_list :: "header_list \<Rightarrow> guard \<Rightarrow> headers" where
  "headers_from_list list guard' =
     \<lparr>hd_list = list, hd_sorted_and_combined = None, hd_guard = guard'\<rparr>"

text \<open>Every mutable access drops the cache, whether or not it changes the list.\<close>

definition header_list_mut ::
    "(header_list \<Rightarrow> header_list option) \<Rightarrow> headers \<Rightarrow> headers option" where
  "header_list_mut f h =
     map_option (\<lambda>list. h\<lparr>hd_sorted_and_combined := None, hd_list := list\<rparr>) (f (hd_list h))"

definition sorted_and_combined :: "headers \<Rightarrow> (headers \<times> header_list) option" where
  "sorted_and_combined h =
     (case hd_sorted_and_combined h of
        Some list \<Rightarrow> Some (h, list)
      | None \<Rightarrow>
          map_option (\<lambda>list. (h\<lparr>hd_sorted_and_combined := Some list\<rparr>, list))
            (sort_and_combine_a_header_list (hd_list h)))"

section \<open>Appending\<close>

definition validate_header_name :: "bool \<Rightarrow> headers \<Rightarrow> string \<Rightarrow> string \<Rightarrow> bool thrown" where
  "validate_header_name enforce h name value' =
     (if \<not> is_header_name name then Inl (JTypeError ''Invalid header name'')
      else if \<not> is_header_value value' then Inl (JTypeError ''Invalid header value'')
      else if hd_guard h = Immutable then Inl (JTypeError ''Headers object is immutable'')
      else if enforce \<and> hd_guard h = GuardRequest \<and> forbidden_request_header name value'
      then Inr False
      else if enforce \<and> hd_guard h = GuardResponse \<and> is_forbidden_response_header_name name
      then Inr False
      else Inr True)"

definition remove_privileged_no_cors_request_headers :: "headers \<Rightarrow> headers option" where
  "remove_privileged_no_cors_request_headers h = header_list_mut (delete_header ''range'') h"

definition append_to_headers ::
    "bool \<Rightarrow> string \<Rightarrow> string \<Rightarrow> headers \<Rightarrow> (headers \<times> unit thrown) option" where
  "append_to_headers enforce name value0 h =
     (let value' = normalize_byte_sequence value0
      in case validate_header_name enforce h name value' of
           Inl e \<Rightarrow> Some (h, Inl e)
         | Inr valid \<Rightarrow>
             if \<not> valid then Some (h, Inr ())
             else do {
               safelisted \<leftarrow>
                 (if enforce \<and> hd_guard h = RequestNoCors
                  then do {
                    existing \<leftarrow> get_header_for_name (hd_list h) name;
                    Some (is_no_cors_safelisted_request_header_after_append name existing value')
                  }
                  else Some True);
               if \<not> safelisted then Some (h, Inr ())
               else do {
                 h1 \<leftarrow> header_list_mut (append_a_header name value') h;
                 h2 \<leftarrow> (if hd_guard h1 = RequestNoCors
                       then remove_privileged_no_cors_request_headers h1 else Some h1);
                 Some (h2, Inr ())
               }
             })"

text \<open>The value a \<open>HeadersInit\<close> was converted to: a sequence of sequences or a record.\<close>

datatype headers_init = InitSequence "string list list" | InitRecord "(string \<times> string) list"

fun fill_sequence :: "bool \<Rightarrow> string list list \<Rightarrow> headers \<Rightarrow> (headers \<times> unit thrown) option" where
  "fill_sequence enforce [] h = Some (h, Inr ())"
| "fill_sequence enforce (header # sequence) h =
     (case header of
        [name, value'] \<Rightarrow>
          do {
            (h1, r) \<leftarrow> append_to_headers enforce name value' h;
            case r of Inl e \<Rightarrow> Some (h1, Inl e) | Inr _ \<Rightarrow> fill_sequence enforce sequence h1
          }
      | _ \<Rightarrow> Some (h, Inl (JTypeError ''Header sequence entry must contain exactly two items'')))"

fun fill_record :: "bool \<Rightarrow> (string \<times> string) list \<Rightarrow> headers \<Rightarrow> (headers \<times> unit thrown) option" where
  "fill_record enforce [] h = Some (h, Inr ())"
| "fill_record enforce ((key, value') # rest) h =
     do {
       (h1, r) \<leftarrow> append_to_headers enforce key value' h;
       case r of Inl e \<Rightarrow> Some (h1, Inl e) | Inr _ \<Rightarrow> fill_record enforce rest h1
     }"

definition fill_headers :: "bool \<Rightarrow> headers_init \<Rightarrow> headers \<Rightarrow> (headers \<times> unit thrown) option" where
  "fill_headers enforce init h =
     (case init of
        InitSequence sequence \<Rightarrow> fill_sequence enforce sequence h
      | InitRecord record' \<Rightarrow> fill_record enforce record' h)"

definition headers_new :: "bool \<Rightarrow> headers_init option \<Rightarrow> (headers \<times> unit thrown) option" where
  "headers_new enforce init =
     (let h = headers_from_list [] GuardNone
      in case init of None \<Rightarrow> Some (h, Inr ()) | Some i \<Rightarrow> fill_headers enforce i h)"

text \<open>The refilling of the list by the constructor of \<open>Request\<close>: only the filters of the guard.\<close>

fun refill_loop :: "(string \<times> string) list \<Rightarrow> headers \<Rightarrow> headers option" where
  "refill_loop [] h = Some h"
| "refill_loop ((name, value') # list) h =
     do {
       keep \<leftarrow>
         (case hd_guard h of
            GuardRequest \<Rightarrow> Some (\<not> forbidden_request_header name value')
          | RequestNoCors \<Rightarrow>
              do {
                existing \<leftarrow> get_header_for_name (hd_list h) name;
                Some (is_no_cors_safelisted_request_header_after_append name existing value')
              }
          | _ \<Rightarrow> Some True);
       h1 \<leftarrow> (if keep then header_list_mut (append_a_header name value') h else Some h);
       refill_loop list h1
     }"

definition refill_headers_from_own_list :: "bool \<Rightarrow> headers \<Rightarrow> headers option" where
  "refill_headers_from_own_list enforce h =
     (if \<not> enforce then Some h
      else do {
        require (hd_guard h = GuardRequest \<or> hd_guard h = RequestNoCors);
        let list = hd_list h;
        refill_loop list (h\<lparr>hd_sorted_and_combined := None, hd_list := []\<rparr>)
      })"

section \<open>The methods\<close>

definition headers_append ::
    "bool \<Rightarrow> string \<Rightarrow> string \<Rightarrow> headers \<Rightarrow> (headers \<times> unit thrown) option" where
  "headers_append enforce name value' h = append_to_headers enforce name value' h"

definition headers_delete :: "bool \<Rightarrow> string \<Rightarrow> headers \<Rightarrow> (headers \<times> unit thrown) option" where
  "headers_delete enforce name h =
     (case validate_header_name enforce h name [] of
        Inl e \<Rightarrow> Some (h, Inl e)
      | Inr valid \<Rightarrow>
          if \<not> valid then Some (h, Inr ())
          else if hd_guard h = RequestNoCors \<and> \<not> is_no_cors_safelisted_request_header_name name \<and>
                  \<not> is_privileged_no_cors_request_header_name name
          then Some (h, Inr ())
          else if \<not> contains (hd_list h) name then Some (h, Inr ())
          else do {
            h1 \<leftarrow> header_list_mut (delete_header name) h;
            h2 \<leftarrow> (if hd_guard h1 = RequestNoCors
                  then remove_privileged_no_cors_request_headers h1 else Some h1);
            Some (h2, Inr ())
          })"

definition headers_get :: "string \<Rightarrow> headers \<Rightarrow> string option thrown option" where
  "headers_get name h =
     (if \<not> is_header_name name then Some (Inl (JTypeError ''Invalid header name''))
      else map_option Inr (get_header_for_name (hd_list h) name))"

definition headers_get_set_cookie :: "headers \<Rightarrow> string list" where
  "headers_get_set_cookie h =
     map snd (filter (\<lambda>(name, _). eq_ignore_ascii_case name ''set-cookie'') (hd_list h))"

definition headers_has :: "string \<Rightarrow> headers \<Rightarrow> bool thrown" where
  "headers_has name h =
     (if \<not> is_header_name name then Inl (JTypeError ''Invalid header name'')
      else Inr (contains (hd_list h) name))"

definition headers_set ::
    "bool \<Rightarrow> string \<Rightarrow> string \<Rightarrow> headers \<Rightarrow> (headers \<times> unit thrown) option" where
  "headers_set enforce name value0 h =
     (let value' = normalize_byte_sequence value0
      in case validate_header_name enforce h name value' of
           Inl e \<Rightarrow> Some (h, Inl e)
         | Inr valid \<Rightarrow>
             if \<not> valid then Some (h, Inr ())
             else if hd_guard h = RequestNoCors \<and> \<not> is_no_cors_safelisted_request_header name value'
             then Some (h, Inr ())
             else do {
               h1 \<leftarrow> header_list_mut (set_a_header name value') h;
               h2 \<leftarrow> (if hd_guard h1 = RequestNoCors
                     then remove_privileged_no_cors_request_headers h1 else Some h1);
               Some (h2, Inr ())
             })"

text \<open>The pairs that \<open>forEach\<close> and the iterators read, from the cached list.\<close>

definition headers_pair_at :: "nat \<Rightarrow> headers \<Rightarrow> (headers \<times> (string \<times> string) option) option" where
  "headers_pair_at i h =
     do {
       (h1, values) \<leftarrow> sorted_and_combined h;
       Some (h1, if i < length values then Some (values ! i) else None)
     }"

definition headers_iterator_next ::
    "pair_iterator \<Rightarrow> headers \<Rightarrow> (headers \<times> pair_iterator \<times> (string, string) iter_result) option" where
  "headers_iterator_next it h =
     do {
       (h1, values) \<leftarrow> sorted_and_combined h;
       Some (h1, pair_iterator_next values it)
     }"

definition headers_for_each ::
    "nat \<Rightarrow> (string \<Rightarrow> string \<Rightarrow> headers \<Rightarrow> (headers \<times> unit thrown) option) \<Rightarrow> headers \<Rightarrow>
       (headers \<times> unit thrown option) option" where
  "headers_for_each fuel callback h = for_each_pair fuel headers_pair_at callback 0 h"

section \<open>Sessions\<close>

text \<open>
  What code holding a \<open>Headers\<close> object and its iterators can do. A \<open>forEach\<close> is its reads, with the
  commands of the callback in between.
\<close>

datatype headers_cmd =
    HAppend string string
  | HDelete string
  | HGet string
  | HSet string string
  | HRead nat

definition headers_exec :: "bool \<Rightarrow> headers_cmd \<Rightarrow> headers \<Rightarrow> headers option" where
  "headers_exec enforce c h =
     (case c of
        HAppend name value' \<Rightarrow> map_option fst (headers_append enforce name value' h)
      | HDelete name \<Rightarrow> map_option fst (headers_delete enforce name h)
      | HGet name \<Rightarrow> map_option (\<lambda>_. h) (headers_get name h)
      | HSet name value' \<Rightarrow> map_option fst (headers_set enforce name value' h)
      | HRead i \<Rightarrow> map_option fst (headers_pair_at i h))"

end
