(* ===== verification/Header_Props.thy ===== *)
theory Header_Props
  imports Headers
begin

text \<open>
  What the operations on header lists do, said by the values of a name: the list of the values of
  all headers whose name matches without case. Then the invariant of a \<open>Headers\<close> object and its
  preservation.
\<close>

section \<open>Names\<close>

lemma token_byte_lowercase [simp]:
  "is_http_token_byte (to_ascii_lowercase_byte b) \<longleftrightarrow> is_http_token_byte b"
  by (auto simp: is_http_token_byte_def is_ascii_alphanumeric_def to_ascii_lowercase_byte_def)

lemma header_name_cong: "eq_ignore_ascii_case a b \<Longrightarrow> is_header_name a \<longleftrightarrow> is_header_name b"
proof -
  have e: "list_all is_http_token_byte (utf8 c) \<longleftrightarrow>
      list_all is_http_token_byte (map to_ascii_lowercase_byte (utf8 c))" for c
    by (simp add: list_all_iff)
  assume "eq_ignore_ascii_case a b"
  moreover from this have "a = [] \<longleftrightarrow> b = []"
    unfolding eq_ignore_bytes by (metis map_is_Nil_conv utf8_eq_Nil)
  ultimately show ?thesis by (simp add: is_header_name_def e [of a] e [of b] eq_ignore_bytes)
qed

lemma header_name_lowercase [simp]: "is_header_name (to_ascii_lowercase n) \<longleftrightarrow> is_header_name n"
  by (rule header_name_cong) simp

lemma header_name_ascii: "is_header_name n \<Longrightarrow> list_all (\<lambda>c. code c < 128) n"
proof -
  have t: "is_http_token_byte b \<Longrightarrow> b < 128" for b
    by (auto simp: is_http_token_byte_def is_ascii_alphanumeric_def)
  assume "is_header_name n"
  then have "list_all is_http_token_byte (utf8 n)" by (simp add: is_header_name_def)
  moreover have "list_all is_http_token_byte (utf8 n) \<longleftrightarrow> list_all (\<lambda>c. is_http_token_byte (code c)) n"
    by (rule list_all_utf8) (use t leD in blast)
  ultimately show ?thesis using t by (auto simp: list_all_iff)
qed

lemma header_name_range [simp]: "is_header_name ''range''"
  by (simp add: is_header_name_def utf8_char_def code_def is_http_token_byte_def is_ascii_alphanumeric_def)

lemma lowercase_take: "to_ascii_lowercase (take n s) = take n (to_ascii_lowercase s)"
  by (simp add: to_ascii_lowercase_def take_map)

lemma has_prefix_cong:
  assumes "eq_ignore_ascii_case a b" "is_header_name a" "is_header_name b"
  shows "has_prefix_ignore_case n p a \<longleftrightarrow> has_prefix_ignore_case n p b"
proof -
  have "length a = length b"
    using assms(1) by (metis eq_ignore_ascii_case_def length_lowercase)
  then show ?thesis
    using assms by (simp add: has_prefix_ignore_case_def str_get_to_ascii header_name_ascii
        eq_ignore_ascii_case_def lowercase_take)
qed

lemma forbidden_cong:
  assumes "eq_ignore_ascii_case a b" "is_header_name a" "is_header_name b"
  shows "forbidden_request_header a v \<longleftrightarrow> forbidden_request_header b v"
proof -
  have e: "eq_ignore_ascii_case a c \<longleftrightarrow> eq_ignore_ascii_case b c" for c
    using assms(1) by (simp add: eq_ignore_ascii_case_def)
  show ?thesis
    unfolding forbidden_request_header_def e has_prefix_cong [OF assms] by simp
qed

lemma safelisted_cong:
  assumes "eq_ignore_ascii_case a b"
  shows "is_no_cors_safelisted_request_header a v \<longleftrightarrow> is_no_cors_safelisted_request_header b v"
proof -
  have "eq_ignore_ascii_case a c \<longleftrightarrow> eq_ignore_ascii_case b c" for c
    using assms by (simp add: eq_ignore_ascii_case_def)
  then show ?thesis
    by (simp add: is_no_cors_safelisted_request_header_def is_cors_safelisted_request_header_def
        is_no_cors_safelisted_request_header_name_def)
qed

section \<open>Values\<close>

lemma header_value_chars:
  "is_header_value v \<longleftrightarrow>
     \<not> (v \<noteq> [] \<and> (code (hd v) \<in> {9, 32} \<or> code (last v) \<in> {9, 32})) \<and>
     list_all (\<lambda>c. code c \<notin> {0, 10, 13}) v"
proof -
  have "hd (utf8 v) \<in> {9, 32} \<longleftrightarrow> code (hd v) \<in> {9, 32}" if "v \<noteq> []"
    using that by (cases v) (auto simp: utf8_char_def)
  moreover have "last (utf8 v) \<in> {9, 32} \<longleftrightarrow> code (last v) \<in> {9, 32}" if "v \<noteq> []"
    using that by (cases v rule: rev_cases) (auto simp: utf8_char_def)
  moreover have "list_ex (\<lambda>b. b \<in> {0, 10, 13}) (utf8 v) \<longleftrightarrow> list_ex (\<lambda>c. code c \<in> {0, 10, 13}) v"
    by (rule list_ex_utf8) auto
  ultimately show ?thesis
    unfolding is_header_value_def Let_def by (auto simp: list_ex_iff list_all_iff)
qed

text \<open>Normalizing leaves a header value alone, so that appending it again does.\<close>

lemma normalize_header_value: "is_header_value v \<Longrightarrow> normalize_byte_sequence v = v"
  unfolding normalize_byte_sequence_def
proof (rule trim_id)
  assume v: "is_header_value v" "v \<noteq> []"
  then have "hd v \<in> set v" "last v \<in> set v" by simp_all
  with v show "code (hd v) \<notin> {9, 10, 13, 32} \<and> code (last v) \<notin> {9, 10, 13, 32}"
    by (auto simp: header_value_chars list_all_iff)
qed

section \<open>The values of a name\<close>

definition values_of :: "string \<Rightarrow> header_list \<Rightarrow> string list" where
  "values_of name list = map snd (filter (\<lambda>(n, _). eq_ignore_ascii_case n name) list)"

fun combined :: "string list \<Rightarrow> string option" where
  "combined [] = None"
| "combined (v # vs) = Some (v @ concat (map (\<lambda>w. '', '' @ w) vs))"

lemma combined_snoc:
  "combined (vs @ [v]) = Some (case combined vs of None \<Rightarrow> v | Some c \<Rightarrow> c @ '', '' @ v)"
  by (cases vs) simp_all

lemma combined_None [simp]: "combined vs = None \<longleftrightarrow> vs = []"
  by (cases vs) simp_all

lemma values_of_simps [simp]:
  "values_of name [] = []"
  "values_of name ((n, v) # l) = (if eq_ignore_ascii_case n name then [v] else []) @ values_of name l"
  "values_of name (l @ l') = values_of name l @ values_of name l'"
  by (simp_all add: values_of_def)

lemma values_of_cong: "eq_ignore_ascii_case a b \<Longrightarrow> values_of a l = values_of b l"
  by (simp add: values_of_def eq_ignore_ascii_case_def)

lemma values_of_Nil: "values_of name l = [] \<longleftrightarrow> (\<forall>n \<in> fst ` set l. \<not> eq_ignore_ascii_case n name)"
  by (force simp: values_of_def filter_empty_conv)

lemma contains_values: "contains l name \<longleftrightarrow> values_of name l \<noteq> []"
  by (force simp: contains_def list_ex_iff values_of_Nil)

text \<open>The search that compares bytes finds the same values.\<close>

lemma get_header_values:
  "get_header_for_name l name =
     (if is_header_name name then Some (combined (values_of name l)) else None)"
proof -
  have "(length (utf8 n) = length (map to_ascii_lowercase_byte (utf8 name)) \<and>
      list_all2 (\<lambda>a b. to_ascii_lowercase_byte a = b) (utf8 n) (map to_ascii_lowercase_byte (utf8 name))) \<longleftrightarrow>
      eq_ignore_ascii_case n name" for n
    by (auto simp: list_all2_map_eq eq_ignore_bytes dest: map_eq_imp_length_eq)
  then have f: "filter (\<lambda>(n, _). length (utf8 n) = length (map to_ascii_lowercase_byte (utf8 name)) \<and>
      list_all2 (\<lambda>a b. to_ascii_lowercase_byte a = b) (utf8 n) (map to_ascii_lowercase_byte (utf8 name))) l =
      filter (\<lambda>(n, _). eq_ignore_ascii_case n name) l"
    by (simp only:)
  have c: "(case vs of [] \<Rightarrow> None | [first] \<Rightarrow> Some first
      | first # rest \<Rightarrow> Some (first @ concat (map (\<lambda>v. '', '' @ v) rest))) = combined vs" for vs
    by (auto split: list.split)
  show ?thesis
    unfolding get_header_for_name_def Let_def f c by (simp add: require_def values_of_def)
qed

section \<open>What each operation does to the values\<close>

definition list_ok :: "header_list \<Rightarrow> bool" where
  "list_ok l \<longleftrightarrow> (\<forall>(n, v) \<in> set l. is_header_name n \<and> is_header_value v)"

text \<open>Names that match without case are spelled alike.\<close>

definition coherent :: "header_list \<Rightarrow> bool" where
  "coherent l \<longleftrightarrow> (\<forall>n \<in> fst ` set l. \<forall>m \<in> fst ` set l. eq_ignore_ascii_case n m \<longrightarrow> n = m)"

lemma list_ok_append [simp]: "list_ok (l @ l') \<longleftrightarrow> list_ok l \<and> list_ok l'"
  by (auto simp: list_ok_def)

lemma list_okD: "list_ok l \<Longrightarrow> (n, v) \<in> set l \<Longrightarrow> is_header_name n \<and> is_header_value v"
  by (auto simp: list_ok_def)

lemma append_a_header_ok:
  assumes "is_header_name name" "is_header_value v"
  obtains n where "append_a_header name v l = Some (l @ [(n, v)])" "eq_ignore_ascii_case n name"
    "n = name \<and> (\<forall>m \<in> fst ` set l. \<not> eq_ignore_ascii_case m name) \<or> n \<in> fst ` set l"
proof (cases "find (\<lambda>(n, _). eq_ignore_ascii_case n name) l")
  case None
  have "append_a_header name v l = Some (l @ [(name, v)])"
    by (simp add: append_a_header_def assms require_def None Let_def)
  moreover have "\<forall>m \<in> fst ` set l. \<not> eq_ignore_ascii_case m name"
    using None by (auto simp: find_None_iff)
  ultimately show ?thesis by (intro that [of name]) simp_all
next
  case (Some p)
  obtain n w where p: "p = (n, w)" by (cases p)
  from Some obtain i where "i < length l" "l ! i = (n, w)" "eq_ignore_ascii_case n name"
    unfolding p find_Some_iff by auto
  then have "(n, w) \<in> set l" "eq_ignore_ascii_case n name" by (metis nth_mem)+
  moreover from this have "n \<in> fst ` set l" by force
  moreover have "append_a_header name v l = Some (l @ [(n, v)])"
    by (simp add: append_a_header_def assms require_def Some p Let_def)
  ultimately show ?thesis using that by blast
qed

lemma delete_header_ok:
  assumes "is_header_name name"
  shows "delete_header name l = Some (filter (\<lambda>(n, _). \<not> eq_ignore_ascii_case n name) l)"
  by (simp add: delete_header_def assms require_def)

lemma values_of_deleted:
  "values_of m (filter (\<lambda>(n, _). \<not> eq_ignore_ascii_case n name) l) =
     (if eq_ignore_ascii_case m name then [] else values_of m l)"
proof (cases "eq_ignore_ascii_case m name")
  case True
  then show ?thesis by (auto simp: values_of_Nil eq_ignore_ascii_case_def)
next
  case False
  then show ?thesis by (induction l) (auto simp: eq_ignore_ascii_case_def)
qed

lemma set_a_header_ok:
  assumes "is_header_name name" "is_header_value v"
  obtains l' where "set_a_header name v l = Some l'"
    "\<And>m. values_of m l' = (if eq_ignore_ascii_case m name then [v] else values_of m l)"
    "\<And>n w. (n, w) \<in> set l' \<Longrightarrow> (n, w) \<in> set l \<or>
       eq_ignore_ascii_case n name \<and> w = v \<and>
       (n \<in> fst ` set l \<or> n = name \<and> (\<forall>m \<in> fst ` set l. \<not> eq_ignore_ascii_case m name))"
proof (cases "position (\<lambda>(n, _). eq_ignore_ascii_case n name) l")
  case None
  then have no: "\<forall>m \<in> fst ` set l. \<not> eq_ignore_ascii_case m name" by auto
  then have "values_of m l = []" if "eq_ignore_ascii_case m name" for m
    using that by (auto simp: values_of_Nil eq_ignore_ascii_case_def)
  then have "values_of m (l @ [(name, v)]) = (if eq_ignore_ascii_case m name then [v] else values_of m l)" for m
    by (simp add: eq_ignore_sym [of name m])
  moreover have "set_a_header name v l = Some (l @ [(name, v)])"
    by (simp add: set_a_header_def require_def assms None)
  ultimately show ?thesis using no by (intro that [of "l @ [(name, v)]"]) auto
next
  case (Some i)
  let ?p = "\<lambda>(n, _). eq_ignore_ascii_case n name"
  obtain n w where nw: "l ! i = (n, w)" by (cases "l ! i")
  have i: "i < length l" "eq_ignore_ascii_case n name" "\<forall>j < i. \<not> ?p (l ! j)"
    using Some nw by (auto simp: position_Some)
  let ?xs = "take i l" and ?ys = "drop (Suc i) l"
  have l: "l = ?xs @ (n, w) # ?ys" using i(1) nw by (metis id_take_nth_drop)
  have upd: "l[i := (n, v)] = ?xs @ (n, v) # ?ys" using i(1) by (simp add: upd_conv_take_nth_drop)
  have xs: "\<forall>x \<in> set ?xs. \<not> ?p x"
  proof
    fix x
    assume "x \<in> set ?xs"
    then obtain j where j: "j < i" "x = l ! j" by (auto simp: in_set_conv_nth)
    show "\<not> ?p x" unfolding j(2) by (rule i(3) [rule_format, OF j(1)])
  qed
  let ?l' = "?xs @ (n, v) # filter (\<lambda>x. \<not> ?p x) ?ys"
  have r: "set_a_header name v l = Some ?l'"
    using retain_first_split [OF xs, of "(n, v)" ?ys] i(2)
    by (simp add: set_a_header_def require_def assms Some nw upd)
  have none: "values_of m ?xs = []" if "eq_ignore_ascii_case m name" for m
    using xs that by (fastforce simp: values_of_Nil eq_ignore_ascii_case_def)
  have flt: "filter (\<lambda>x. \<not> ?p x) ?ys = filter (\<lambda>(n, _). \<not> eq_ignore_ascii_case n name) ?ys"
    by (rule filter_cong) auto
  have vals: "values_of m ?l' = (if eq_ignore_ascii_case m name then [v] else values_of m l)" for m
  proof (cases "eq_ignore_ascii_case m name")
    case True
    with i(2) have "eq_ignore_ascii_case n m" by (simp add: eq_ignore_ascii_case_def)
    with True show ?thesis by (simp add: none flt values_of_deleted)
  next
    case False
    then have "\<not> eq_ignore_ascii_case n m" using i(2) by (auto simp: eq_ignore_ascii_case_def)
    with False show ?thesis by (subst (2) l) (simp add: flt values_of_deleted)
  qed
  have "(n, w) \<in> set l" using i(1) nw by (metis nth_mem)
  then have "n \<in> fst ` set l" by force
  then show ?thesis
    using i(2) by (intro that [OF r vals]) (auto dest: in_set_takeD in_set_dropD)
qed

end
