(* ===== verification/Headers_Inv.thy ===== *)
theory Headers_Inv
  imports Header_Props
begin

text \<open>
  The invariant of a \<open>Headers\<close> object: names and values are valid, names that match are spelled
  alike, the cache is the sorted and combined list, and the list respects its guard. Every method
  keeps it, and none panics.
\<close>

section \<open>Sorting and combining\<close>

definition entries_of :: "header_list \<Rightarrow> string \<Rightarrow> header_list" where
  "entries_of l name =
     (if name = ''set-cookie'' then map (Pair name) (values_of name l)
      else case combined (values_of name l) of None \<Rightarrow> [] | Some v \<Rightarrow> [(name, v)])"

lemma combine_names_eq:
  assumes "\<forall>n \<in> set names. is_header_name n \<and> values_of n l \<noteq> []"
  shows "combine_names l names = Some (concat (map (entries_of l) names))"
proof -
  have c: "map (\<lambda>(n, v). (''set-cookie'', v)) (filter (\<lambda>(n, v). eq_ignore_ascii_case n ''set-cookie'') l) =
      map (Pair ''set-cookie'') (values_of ''set-cookie'' l)"
    by (simp add: values_of_def case_prod_beta)
  show ?thesis
    using assms
    by (induction names) (auto simp: entries_of_def get_header_values c split: option.splits)
qed

definition sorted_names :: "header_list \<Rightarrow> string list" where
  "sorted_names l = convert_header_names_to_sorted_lowercase_set (map fst l)"

lemma set_sorted_names: "set (sorted_names l) = to_ascii_lowercase ` fst ` set l"
  by (simp add: sorted_names_def convert_header_names_to_sorted_lowercase_set_def image_image)

lemma distinct_sorted_names: "distinct (sorted_names l)"
  by (simp add: sorted_names_def convert_header_names_to_sorted_lowercase_set_def)

lemma sorted_sorted_names: "sorted (map utf8 (sorted_names l))"
  by (simp add: sorted_names_def convert_header_names_to_sorted_lowercase_set_def)

lemma sorted_names_values:
  "n \<in> set (sorted_names l) \<longleftrightarrow> to_ascii_lowercase n = n \<and> values_of n l \<noteq> []"
  by (auto simp: set_sorted_names values_of_Nil eq_ignore_ascii_case_def image_image) force+

lemma sort_and_combine_eq:
  assumes "list_ok l"
  shows "sort_and_combine_a_header_list l = Some (concat (map (entries_of l) (sorted_names l)))"
  unfolding sort_and_combine_a_header_list_def sorted_names_def [symmetric]
proof (rule combine_names_eq, intro ballI conjI)
  fix n
  assume n: "n \<in> set (sorted_names l)"
  then show "values_of n l \<noteq> []" by (simp add: sorted_names_values)
  from n obtain m v where "n = to_ascii_lowercase m" "(m, v) \<in> set l" by (auto simp: set_sorted_names)
  then show "is_header_name n" using assms by (auto dest: list_okD)
qed

section \<open>The invariant\<close>

definition headers_ok :: "headers \<Rightarrow> bool" where
  "headers_ok h \<longleftrightarrow> list_ok (hd_list h) \<and> coherent (hd_list h) \<and>
     (\<forall>l. hd_sorted_and_combined h = Some l \<longrightarrow> sort_and_combine_a_header_list (hd_list h) = Some l)"

definition no_cors_ok :: "header_list \<Rightarrow> bool" where
  "no_cors_ok l \<longleftrightarrow>
     (\<forall>n v. combined (values_of n l) = Some v \<longrightarrow> is_no_cors_safelisted_request_header n v)"

definition guard_ok :: "bool \<Rightarrow> headers \<Rightarrow> bool" where
  "guard_ok enforce h \<longleftrightarrow>
     (hd_guard h = RequestNoCors \<longrightarrow> enforce \<and> no_cors_ok (hd_list h)) \<and>
     (enforce \<and> hd_guard h = GuardRequest \<longrightarrow>
       (\<forall>(n, v) \<in> set (hd_list h). \<not> forbidden_request_header n v)) \<and>
     (enforce \<and> hd_guard h = GuardResponse \<longrightarrow>
       (\<forall>n \<in> fst ` set (hd_list h). \<not> is_forbidden_response_header_name n))"

definition same_guard :: "headers \<Rightarrow> headers \<Rightarrow> bool" where
  "same_guard h h' \<longleftrightarrow> hd_guard h' = hd_guard h \<and> (hd_guard h = Immutable \<longrightarrow> hd_list h' = hd_list h)"

lemma same_guard_refl [simp]: "same_guard h h"
  by (simp add: same_guard_def)

lemma same_guard_trans: "same_guard a b \<Longrightarrow> same_guard b c \<Longrightarrow> same_guard a c"
  by (auto simp: same_guard_def)

definition keeps_headers :: "bool \<Rightarrow> headers \<Rightarrow> headers \<Rightarrow> bool" where
  "keeps_headers enforce h h' \<longleftrightarrow> headers_ok h' \<and> guard_ok enforce h' \<and> same_guard h h'"

lemma keeps_headers_refl: "headers_ok h \<Longrightarrow> guard_ok enforce h \<Longrightarrow> keeps_headers enforce h h"
  by (simp add: keeps_headers_def)

lemma coherent_append:
  assumes "coherent l" "n \<in> fst ` set l \<or> (\<forall>m \<in> fst ` set l. \<not> eq_ignore_ascii_case m n)"
  shows "coherent (l @ [(n, v)])"
  unfolding coherent_def
proof (intro ballI impI)
  fix a b
  assume ab: "a \<in> fst ` set (l @ [(n, v)])" "b \<in> fst ` set (l @ [(n, v)])" "eq_ignore_ascii_case a b"
  have n: "c = n" if "c \<in> fst ` set l" "eq_ignore_ascii_case c n" for c
    using assms that unfolding coherent_def by blast
  show "a = b"
  proof (cases "a \<in> fst ` set l \<and> b \<in> fst ` set l")
    case True
    with ab(3) assms(1) show ?thesis unfolding coherent_def by blast
  next
    case False
    have "fst ` set (l @ [(n, v)]) = insert n (fst ` set l)" by simp
    with ab False consider "a = n" "b = n" | "a = n" "b \<in> fst ` set l" | "b = n" "a \<in> fst ` set l" by blast
    then show ?thesis
    proof cases
      case 2
      with n [of b] ab(3) show ?thesis by (simp add: eq_ignore_sym [of n b])
    next
      case 3
      with n [of a] ab(3) show ?thesis by simp
    qed simp
  qed
qed

lemma coherent_subset: "coherent l \<Longrightarrow> fst ` set l' \<subseteq> fst ` set l \<Longrightarrow> coherent l'"
  unfolding coherent_def by (meson subsetD)

text \<open>
  Whether the guard lets a header with a valid name and value pass when it is appended. For
  requests without CORS this is a check of the value that the name would have then.
\<close>

definition accepts_append :: "bool \<Rightarrow> headers \<Rightarrow> string \<Rightarrow> string \<Rightarrow> bool" where
  "accepts_append enforce h name v \<longleftrightarrow>
     \<not> (enforce \<and> hd_guard h = GuardRequest \<and> forbidden_request_header name v) \<and>
     \<not> (enforce \<and> hd_guard h = GuardResponse \<and> is_forbidden_response_header_name name) \<and>
     (enforce \<and> hd_guard h = RequestNoCors \<longrightarrow>
       is_no_cors_safelisted_request_header name
         (case combined (values_of name (hd_list h)) of None \<Rightarrow> v | Some c \<Rightarrow> c @ '', '' @ v))"

section \<open>The check of a combined value\<close>

lemma split_on_first: "\<exists>pieces. split_on c s = takeWhile (\<lambda>x. x \<noteq> c) s # pieces"
proof (induction s)
  case Nil
  then show ?case by simp
next
  case (Cons x s)
  then obtain ps where "split_on c s = takeWhile (\<lambda>x. x \<noteq> c) s # ps" by blast
  then show ?case by simp
qed

lemma take_position:
  "position p s = Some i \<Longrightarrow> take i s = takeWhile (\<lambda>x. \<not> p x) s"
proof (induction s arbitrary: i)
  case Nil
  then show ?case by simp
next
  case (Cons x s)
  then show ?case by (auto split: if_splits)
qed

lemma lowercase_comma: "CHR '','' \<in> set s \<Longrightarrow> CHR '','' \<in> set (to_ascii_lowercase s)"
proof -
  have "to_ascii_lowercase_char CHR '','' = CHR '',''"
    by (simp add: to_ascii_lowercase_char_def code_def)
  then show "CHR '','' \<in> set s \<Longrightarrow> CHR '','' \<in> set (to_ascii_lowercase s)"
    unfolding to_ascii_lowercase_def by (metis image_eqI list.set_map)
qed

lemma no_essence_with_comma:
  assumes "CHR '','' \<in> set s"
  shows "\<not> is_safelisted_content_type_essence (str_trim s)"
proof -
  have "\<not> is_whitespace CHR '',''" by (simp add: is_whitespace_def code_def)
  then have "CHR '','' \<in> set (to_ascii_lowercase (str_trim s))"
    using assms unfolding str_trim_def by (intro lowercase_comma trim_keeps)
  moreover have "CHR '','' \<notin> set (to_ascii_lowercase e)"
    if "e \<in> {''application/x-www-form-urlencoded'', ''multipart/form-data'', ''text/plain''}" for e
    using that by (auto simp: to_ascii_lowercase_def to_ascii_lowercase_char_def code_def char_of_def)
  ultimately show ?thesis
    unfolding is_safelisted_content_type_essence_def eq_ignore_ascii_case_def by (metis insertCI)
qed

text \<open>The check without the combined string agrees with the check of the combined string.\<close>

lemma after_append_eq:
  "is_no_cors_safelisted_request_header_after_append name existing v =
     is_no_cors_safelisted_request_header name (case existing of None \<Rightarrow> v | Some c \<Rightarrow> c @ '', '' @ v)"
proof (cases existing)
  case None
  then show ?thesis by (simp add: is_no_cors_safelisted_request_header_after_append_def)
next
  case (Some c)
  have inert: "utf8 '', '' = [44, 32]" by (simp add: utf8_char_def code_def)
  have join: "utf8 (c @ '', '' @ v) = utf8 c @ [44, 32] @ utf8 v" unfolding inert [symmetric] utf8_simps(3) ..
  have unsafe: "list_ex is_cors_unsafe_request_header_byte (utf8 (c @ '', '' @ v)) \<longleftrightarrow>
      list_ex is_cors_unsafe_request_header_byte (utf8 c) \<or> list_ex is_cors_unsafe_request_header_byte (utf8 v)"
    unfolding join by (simp add: is_cors_unsafe_request_header_byte_def)
  have lang: "list_all is_safelisted_language_byte (utf8 (c @ '', '' @ v)) \<longleftrightarrow>
      list_all is_safelisted_language_byte (utf8 c) \<and> list_all is_safelisted_language_byte (utf8 v)"
    unfolding join by (simp add: is_safelisted_language_byte_def)
  have essence: "is_safelisted_content_type_essence
        (str_trim (case split_on CHR '';'' (c @ '', '' @ v) of [] \<Rightarrow> [] | piece # _ \<Rightarrow> piece)) =
      (case position (\<lambda>c. c = CHR '';'') c of
         Some index \<Rightarrow> is_safelisted_content_type_essence (str_trim (take index c))
       | None \<Rightarrow> False)"
  proof -
    obtain ps where p: "split_on CHR '';'' (c @ '', '' @ v) = takeWhile (\<lambda>x. x \<noteq> CHR '';'') (c @ '', '' @ v) # ps"
      using split_on_first [of "CHR '';''" "c @ '', '' @ v"] by blast
    show ?thesis
    proof (cases "position (\<lambda>c. c = CHR '';'') c")
      case None
      then have "\<forall>x \<in> set c. x \<noteq> CHR '';''" by simp
      then have "CHR '','' \<in> set (takeWhile (\<lambda>x. x \<noteq> CHR '';'') (c @ '', '' @ v))"
        by (simp add: takeWhile_append2)
      from no_essence_with_comma [OF this] show ?thesis unfolding p None list.case option.case by blast
    next
      case (Some i)
      have "CHR '';'' \<in> set c" using Some position_None [of "\<lambda>c. c = CHR '';''" c] by auto
      then have "takeWhile (\<lambda>x. x \<noteq> CHR '';'') (c @ '', '' @ v) = takeWhile (\<lambda>x. x \<noteq> CHR '';'') c"
        by (simp add: takeWhile_append1)
      then show ?thesis unfolding p Some take_position [OF Some] list.case option.case by simp
    qed
  qed
  show ?thesis
    unfolding Some option.case is_no_cors_safelisted_request_header_after_append_def
      is_no_cors_safelisted_request_header_def is_cors_safelisted_request_header_def unsafe lang essence
    by (auto simp: is_no_cors_safelisted_request_header_name_def)
qed

end
