(* ===== verification/Headers_Ops.thy ===== *)
theory Headers_Ops
  imports Headers_Inv
begin

text \<open>Every method of \<open>Headers\<close> keeps the invariant, does not panic, and does what it says.\<close>

section \<open>Changes of the list\<close>

definition with_list :: "header_list \<Rightarrow> headers \<Rightarrow> headers" where
  "with_list l h = h\<lparr>hd_sorted_and_combined := None, hd_list := l\<rparr>"

lemma with_list_simps [simp]:
  "hd_list (with_list l h) = l" "hd_guard (with_list l h) = hd_guard h"
  "hd_sorted_and_combined (with_list l h) = None" "with_list l' (with_list l h) = with_list l' h"
  by (simp_all add: with_list_def)

lemma header_list_mut_Some: "f (hd_list h) = Some l \<Longrightarrow> header_list_mut f h = Some (with_list l h)"
  by (simp add: header_list_mut_def with_list_def)

lemma headers_ok_with_list: "headers_ok (with_list l h) \<longleftrightarrow> list_ok l \<and> coherent l"
  by (simp add: headers_ok_def)

lemma headers_okD: "headers_ok h \<Longrightarrow> list_ok (hd_list h) \<and> coherent (hd_list h)"
  by (simp add: headers_ok_def)

lemma combined_Some: "combined vs = Some v \<Longrightarrow> vs \<noteq> []"
  by auto

lemma no_cors_names:
  assumes "no_cors_ok l" "n \<in> fst ` set l"
  shows "is_no_cors_safelisted_request_header_name n"
proof -
  have "eq_ignore_ascii_case n n" by simp
  with assms(2) have "values_of n l \<noteq> []" unfolding values_of_Nil by blast
  then obtain v where "combined (values_of n l) = Some v" by (cases "combined (values_of n l)") simp_all
  with assms(1) have "is_no_cors_safelisted_request_header n v" by (simp add: no_cors_ok_def)
  then show ?thesis by (simp add: is_no_cors_safelisted_request_header_def split: if_splits)
qed

lemma range_not_safelisted: "eq_ignore_ascii_case n ''range'' \<Longrightarrow> \<not> is_no_cors_safelisted_request_header_name n"
  by (simp add: is_no_cors_safelisted_request_header_name_def eq_ignore_ascii_case_def
      to_ascii_lowercase_char_def code_def)

text \<open>No header of a safelisted list is privileged, so removing the privileged ones does nothing.\<close>

lemma remove_privileged_ok:
  assumes "no_cors_ok (hd_list h)" "hd_sorted_and_combined h = None"
  shows "remove_privileged_no_cors_request_headers h = Some h"
proof -
  have "filter (\<lambda>(n, _). \<not> eq_ignore_ascii_case n ''range'') (hd_list h) = hd_list h"
    using no_cors_names [OF assms(1)] range_not_safelisted by (force simp: filter_id_conv)
  then have "remove_privileged_no_cors_request_headers h = Some (with_list (hd_list h) h)"
    unfolding remove_privileged_no_cors_request_headers_def
    by (intro header_list_mut_Some) (simp add: delete_header_ok)
  also have "with_list (hd_list h) h = h" using assms(2) by (simp add: with_list_def)
  finally show ?thesis .
qed

lemma after_change:
  assumes "hd_guard h1 = RequestNoCors \<longrightarrow> no_cors_ok (hd_list h1)" "hd_sorted_and_combined h1 = None"
  shows "(if hd_guard h1 = RequestNoCors then remove_privileged_no_cors_request_headers h1 else Some h1) = Some h1"
  using remove_privileged_ok [of h1] assms by simp

section \<open>Appending\<close>

lemma validate_cases:
  "validate_header_name enforce h name v =
     (if is_header_name name \<and> is_header_value v \<and> hd_guard h \<noteq> Immutable
      then Inr (\<not> (enforce \<and> hd_guard h = GuardRequest \<and> forbidden_request_header name v) \<and>
                \<not> (enforce \<and> hd_guard h = GuardResponse \<and> is_forbidden_response_header_name name))
      else Inl (JTypeError (if \<not> is_header_name name then ''Invalid header name''
                            else if \<not> is_header_value v then ''Invalid header value''
                            else ''Headers object is immutable'')))"
  by (simp add: validate_header_name_def)

lemma no_cors_ok_append:
  assumes "no_cors_ok l" "eq_ignore_ascii_case n name"
    "is_no_cors_safelisted_request_header name
       (case combined (values_of name l) of None \<Rightarrow> v | Some c \<Rightarrow> c @ '', '' @ v)"
  shows "no_cors_ok (l @ [(n, v)])"
  unfolding no_cors_ok_def
proof (intro allI impI)
  fix m w
  assume c: "combined (values_of m (l @ [(n, v)])) = Some w"
  show "is_no_cors_safelisted_request_header m w"
  proof (cases "eq_ignore_ascii_case n m")
    case True
    then have m: "eq_ignore_ascii_case name m" using assms(2) by (simp add: eq_ignore_ascii_case_def)
    have "w = (case combined (values_of name l) of None \<Rightarrow> v | Some c \<Rightarrow> c @ '', '' @ v)"
      using c True by (simp add: combined_snoc values_of_cong [OF m])
    with assms(3) show ?thesis by (simp add: safelisted_cong [OF m])
  next
    case False
    with c assms(1) show ?thesis by (simp add: no_cors_ok_def)
  qed
qed

lemma guard_ok_append:
  assumes "headers_ok h" "guard_ok enforce h" "is_header_name name" "is_header_value v"
    "accepts_append enforce h name v" "eq_ignore_ascii_case n name" "is_header_name n"
  shows "guard_ok enforce (with_list (hd_list h @ [(n, v)]) h)"
proof -
  have r: "is_forbidden_response_header_name n \<longleftrightarrow> is_forbidden_response_header_name name"
    using assms(6) by (simp add: is_forbidden_response_header_name_def eq_ignore_ascii_case_def)
  have f: "forbidden_request_header n v \<longleftrightarrow> forbidden_request_header name v"
    by (rule forbidden_cong [OF assms(6,7,3)])
  have c: "no_cors_ok (hd_list h @ [(n, v)])" if "hd_guard h = RequestNoCors"
    using assms(2,5) that by (intro no_cors_ok_append [OF _ assms(6)])
      (auto simp: guard_ok_def accepts_append_def)
  show ?thesis using assms(2,5) r f c by (auto simp: guard_ok_def accepts_append_def)
qed

lemma append_to_headers_ok:
  assumes ok: "headers_ok h" and g: "guard_ok enforce h"
  shows "wp (append_to_headers enforce name w h) (\<lambda>(h', r).
    keeps_headers enforce h h' \<and>
    (let v = normalize_byte_sequence w in
      if is_header_name name \<and> is_header_value v \<and> hd_guard h \<noteq> Immutable
      then r = Inr () \<and>
        (if accepts_append enforce h name v
         then \<exists>n. h' = with_list (hd_list h @ [(n, v)]) h \<and> eq_ignore_ascii_case n name
         else h' = h)
      else h' = h \<and> (\<exists>m. r = Inl (JTypeError m))))"
proof -
  let ?v = "normalize_byte_sequence w"
  note refl = keeps_headers_refl [OF ok g]
  show ?thesis
  proof (cases "is_header_name name \<and> is_header_value ?v \<and> hd_guard h \<noteq> Immutable")
    case False
    then show ?thesis using refl by (auto simp: append_to_headers_def validate_cases)
  next
    case v: True
    show ?thesis
    proof (cases "accepts_append enforce h name ?v")
      case False
      then have "append_to_headers enforce name w h = Some (h, Inr ())"
        using v by (auto simp: append_to_headers_def validate_cases accepts_append_def Let_def
            get_header_values after_append_eq)
      then show ?thesis using v False refl by (simp add: Let_def)
    next
      case True
      obtain n where n: "append_a_header name ?v (hd_list h) = Some (hd_list h @ [(n, ?v)])"
          "eq_ignore_ascii_case n name"
          "n = name \<and> (\<forall>m \<in> fst ` set (hd_list h). \<not> eq_ignore_ascii_case m name) \<or> n \<in> fst ` set (hd_list h)"
        using append_a_header_ok [of name ?v "hd_list h"] v by metis
      let ?h = "with_list (hd_list h @ [(n, ?v)]) h"
      have hn: "is_header_name n" using header_name_cong [OF n(2)] v by blast
      have go: "guard_ok enforce ?h"
        using guard_ok_append [OF ok g _ _ True n(2) hn] v by blast
      have "coherent (hd_list h @ [(n, ?v)])"
        using headers_okD [OF ok] n(3) by (intro coherent_append) blast+
      then have ho: "headers_ok ?h"
        using headers_okD [OF ok] hn v by (simp add: headers_ok_with_list list_ok_def)
      have "append_to_headers enforce name w h = Some (?h, Inr ())"
        using v True go after_change [of ?h]
        by (auto simp: append_to_headers_def validate_cases accepts_append_def Let_def get_header_values
            after_append_eq header_list_mut_Some [of "append_a_header name ?v", OF n(1)] guard_ok_def)
      moreover have "keeps_headers enforce h ?h"
        using ho go v by (simp add: keeps_headers_def same_guard_def)
      ultimately show ?thesis using v True n(2) by (auto simp: Let_def)
    qed
  qed
qed

section \<open>Deleting and setting\<close>

lemma coherent_filter: "coherent l \<Longrightarrow> coherent (filter p l)"
  by (erule coherent_subset) auto

lemma guard_ok_delete:
  assumes "guard_ok enforce h"
  shows "guard_ok enforce (with_list (filter (\<lambda>(n, _). \<not> eq_ignore_ascii_case n name) (hd_list h)) h)"
proof -
  have "no_cors_ok (filter (\<lambda>(n, _). \<not> eq_ignore_ascii_case n name) l)" if "no_cors_ok l" for l
    using that by (auto simp: no_cors_ok_def values_of_deleted)
  then show ?thesis using assms by (auto simp: guard_ok_def)
qed

text \<open>Whether the guard lets a valid name be deleted, and a valid name be set to a valid value.\<close>

definition accepts_delete :: "bool \<Rightarrow> headers \<Rightarrow> string \<Rightarrow> bool" where
  "accepts_delete enforce h name \<longleftrightarrow>
     \<not> (enforce \<and> hd_guard h = GuardRequest \<and> forbidden_request_header name []) \<and>
     \<not> (enforce \<and> hd_guard h = GuardResponse \<and> is_forbidden_response_header_name name) \<and>
     \<not> (hd_guard h = RequestNoCors \<and> \<not> is_no_cors_safelisted_request_header_name name \<and>
        \<not> is_privileged_no_cors_request_header_name name)"

definition accepts_set :: "bool \<Rightarrow> headers \<Rightarrow> string \<Rightarrow> string \<Rightarrow> bool" where
  "accepts_set enforce h name v \<longleftrightarrow>
     \<not> (enforce \<and> hd_guard h = GuardRequest \<and> forbidden_request_header name v) \<and>
     \<not> (enforce \<and> hd_guard h = GuardResponse \<and> is_forbidden_response_header_name name) \<and>
     \<not> (hd_guard h = RequestNoCors \<and> \<not> is_no_cors_safelisted_request_header name v)"

lemma headers_delete_ok:
  assumes ok: "headers_ok h" and g: "guard_ok enforce h"
  shows "wp (headers_delete enforce name h) (\<lambda>(h', r).
    keeps_headers enforce h h' \<and>
    (if is_header_name name \<and> hd_guard h \<noteq> Immutable \<and> accepts_delete enforce h name
     then \<forall>m. values_of m (hd_list h') = (if eq_ignore_ascii_case m name then [] else values_of m (hd_list h))
     else h' = h) \<and>
    (case r of Inl e \<Rightarrow> h' = h \<and> \<not> (is_header_name name \<and> hd_guard h \<noteq> Immutable)
     | Inr _ \<Rightarrow> is_header_name name \<and> hd_guard h \<noteq> Immutable))"
proof -
  let ?h = "with_list (filter (\<lambda>(n, _). \<not> eq_ignore_ascii_case n name) (hd_list h)) h"
  note refl = keeps_headers_refl [OF ok g]
  have go: "guard_ok enforce ?h" by (rule guard_ok_delete [OF g])
  have "list_ok (filter (\<lambda>(n, _). \<not> eq_ignore_ascii_case n name) (hd_list h))"
    using headers_okD [OF ok] by (auto simp: list_ok_def)
  then have ho: "headers_ok ?h"
    using headers_okD [OF ok] by (simp add: headers_ok_with_list coherent_filter)
  have a: "(if hd_guard ?h = RequestNoCors then remove_privileged_no_cors_request_headers ?h else Some ?h) = Some ?h"
    using go by (intro after_change) (auto simp: guard_ok_def)
  have k: "keeps_headers enforce h ?h" if "hd_guard h \<noteq> Immutable"
    using ho go that by (simp add: keeps_headers_def same_guard_def)
  show ?thesis
  proof (cases "is_header_name name \<and> is_header_value [] \<and> hd_guard h \<noteq> Immutable")
    case False
    moreover have "is_header_value []" by (simp add: is_header_value_def)
    ultimately show ?thesis using refl by (auto simp: headers_delete_def validate_cases)
  next
    case True
    have m: "header_list_mut (delete_header name) h = Some ?h"
      using True by (intro header_list_mut_Some delete_header_ok) blast
    have none: "values_of m (hd_list h) = []" if "\<not> contains (hd_list h) name" "eq_ignore_ascii_case m name" for m
      using that values_of_cong [OF that(2), of "hd_list h"] by (simp add: contains_values)
    show ?thesis
      using True refl k none
      by (auto simp: headers_delete_def validate_cases m a [simplified] values_of_deleted accepts_delete_def)
  qed
qed

lemma headers_set_ok:
  assumes ok: "headers_ok h" and g: "guard_ok enforce h"
  shows "wp (headers_set enforce name w h) (\<lambda>(h', r).
    keeps_headers enforce h h' \<and>
    (let v = normalize_byte_sequence w in
      (if is_header_name name \<and> is_header_value v \<and> hd_guard h \<noteq> Immutable \<and> accepts_set enforce h name v
       then \<forall>m. values_of m (hd_list h') = (if eq_ignore_ascii_case m name then [v] else values_of m (hd_list h))
       else h' = h) \<and>
      (case r of Inl e \<Rightarrow> h' = h \<and> \<not> (is_header_name name \<and> is_header_value v \<and> hd_guard h \<noteq> Immutable)
       | Inr _ \<Rightarrow> is_header_name name \<and> is_header_value v \<and> hd_guard h \<noteq> Immutable)))"
proof -
  let ?v = "normalize_byte_sequence w"
  note refl = keeps_headers_refl [OF ok g]
  let ?valid = "is_header_name name \<and> is_header_value ?v \<and> hd_guard h \<noteq> Immutable"
  let ?pass = "accepts_set enforce h name ?v"
  note pass = accepts_set_def [of enforce h name ?v]
  consider "\<not> ?valid" | "?valid" "\<not> ?pass" | "?valid" "?pass" by blast
  then show ?thesis
  proof cases
    case 1
    then show ?thesis using refl by (auto simp: headers_set_def validate_cases Let_def)
  next
    case 2
    then have "headers_set enforce name w h = Some (h, Inr ())"
      by (auto simp: headers_set_def validate_cases Let_def pass)
    then show ?thesis using 2 refl by (simp add: Let_def)
  next
    case 3
    note p3 = 3(2) [unfolded pass]
    obtain l where l: "set_a_header name ?v (hd_list h) = Some l"
        "\<And>m. values_of m l = (if eq_ignore_ascii_case m name then [?v] else values_of m (hd_list h))"
        "\<And>n u. (n, u) \<in> set l \<Longrightarrow> (n, u) \<in> set (hd_list h) \<or> eq_ignore_ascii_case n name \<and> u = ?v \<and>
           (n \<in> fst ` set (hd_list h) \<or>
            n = name \<and> (\<forall>m \<in> fst ` set (hd_list h). \<not> eq_ignore_ascii_case m name))"
      using set_a_header_ok [of name ?v "hd_list h"] 3(1) by metis
    let ?h = "with_list l h"
    have hn: "is_header_name n" if "eq_ignore_ascii_case n name" for n
      using header_name_cong [OF that] 3(1) by blast
    have lo: "list_ok l"
      using l(3) headers_okD [OF ok] 3(1) hn unfolding list_ok_def by blast
    have "fst ` set l \<subseteq> fst ` set (hd_list h) \<or>
        fst ` set l \<subseteq> fst ` set (hd_list h @ [(name, ?v)]) \<and>
        (\<forall>m \<in> fst ` set (hd_list h). \<not> eq_ignore_ascii_case m name)"
      using l(3) by (cases "\<exists>m \<in> fst ` set (hd_list h). eq_ignore_ascii_case m name") force+
    then have co: "coherent l"
      using headers_okD [OF ok] coherent_append [of "hd_list h" name ?v] coherent_subset by metis
    have "no_cors_ok l" if nc: "hd_guard h = RequestNoCors"
      unfolding no_cors_ok_def
    proof (intro allI impI)
      fix m u
      assume c: "combined (values_of m l) = Some u"
      show "is_no_cors_safelisted_request_header m u"
      proof (cases "eq_ignore_ascii_case m name")
        case True
        with c p3 nc show ?thesis by (simp add: l(2) safelisted_cong [OF True])
      next
        case False
        with c g nc show ?thesis by (simp add: l(2) guard_ok_def no_cors_ok_def)
      qed
    qed
    moreover have "\<not> forbidden_request_header n u"
      if "enforce \<and> hd_guard h = GuardRequest" "(n, u) \<in> set l" for n u
      using l(3) [OF that(2)] that(1) g 3(1) p3 forbidden_cong [OF _ hn, of n name ?v] by (auto simp: guard_ok_def)
    moreover have "\<not> is_forbidden_response_header_name n"
      if "enforce \<and> hd_guard h = GuardResponse" "(n, u) \<in> set l" for n u
      using l(3) [OF that(2)] that(1) g p3
      by (force simp: guard_ok_def is_forbidden_response_header_name_def eq_ignore_ascii_case_def)
    ultimately have go: "guard_ok enforce ?h" using g by (auto simp: guard_ok_def)
    have "headers_set enforce name w h = Some (?h, Inr ())"
      using 3(1) p3 go after_change [of ?h]
      by (auto simp: headers_set_def validate_cases Let_def header_list_mut_Some [of "set_a_header name ?v", OF l(1)] guard_ok_def)
    moreover have "keeps_headers enforce h ?h"
      using lo co go 3(1) by (simp add: keeps_headers_def headers_ok_with_list same_guard_def)
    ultimately show ?thesis using 3 l(2) by (simp add: Let_def)
  qed
qed

section \<open>Reading\<close>

lemma sorted_and_combined_ok:
  assumes ok: "headers_ok h" and g: "guard_ok enforce h"
  shows "wp (sorted_and_combined h) (\<lambda>(h', l).
    keeps_headers enforce h h' \<and> hd_list h' = hd_list h \<and>
    sort_and_combine_a_header_list (hd_list h) = Some l)"
proof (cases "hd_sorted_and_combined h")
  case None
  then show ?thesis
    using ok g sort_and_combine_eq [of "hd_list h"]
    by (simp add: sorted_and_combined_def keeps_headers_def headers_ok_def guard_ok_def same_guard_def)
next
  case (Some l)
  then show ?thesis
    using ok keeps_headers_refl [OF ok g] by (simp add: sorted_and_combined_def headers_ok_def)
qed

definition current_pairs :: "headers \<Rightarrow> header_list" where
  "current_pairs h = (case sort_and_combine_a_header_list (hd_list h) of Some l \<Rightarrow> l | None \<Rightarrow> [])"

lemma headers_pair_at_ok:
  assumes ok: "headers_ok h" and g: "guard_ok enforce h"
  shows "wp (headers_pair_at i h) (\<lambda>(h', p).
    p = (if i < length (current_pairs h) then Some (current_pairs h ! i) else None) \<and>
    keeps_headers enforce h h' \<and> current_pairs h' = current_pairs h)"
  using sorted_and_combined_ok [OF ok g]
  by (auto simp: headers_pair_at_def current_pairs_def elim!: wp_mono)

text \<open>Reading the pairs of a \<open>Headers\<close> object meets the contract of \<open>forEach\<close>.\<close>

interpretation headers_pairs: pair_iterable headers_pair_at current_pairs
    "\<lambda>h. headers_ok h \<and> guard_ok enforce h"
  by unfold_locales (use headers_pair_at_ok in \<open>fastforce simp: keeps_headers_def elim!: wp_mono\<close>)

section \<open>Sessions\<close>

lemma headers_exec_ok:
  assumes ok: "headers_ok h" and g: "guard_ok enforce h"
  shows "wp (headers_exec enforce c h) (keeps_headers enforce h)"
proof (cases c)
  case (HAppend n v)
  then show ?thesis using append_to_headers_ok [OF ok g, of n v]
    by (cases "append_to_headers enforce n v h") (auto simp: headers_exec_def headers_append_def)
next
  case (HDelete n)
  then show ?thesis using headers_delete_ok [OF ok g, of n]
    by (cases "headers_delete enforce n h") (auto simp: headers_exec_def)
next
  case (HGet n)
  then show ?thesis using keeps_headers_refl [OF ok g]
    by (simp add: headers_exec_def headers_get_def get_header_values)
next
  case (HSet n v)
  then show ?thesis using headers_set_ok [OF ok g, of n v]
    by (cases "headers_set enforce n v h") (auto simp: headers_exec_def)
next
  case (HRead i)
  then show ?thesis using headers_pair_at_ok [OF ok g, of i]
    by (cases "headers_pair_at i h") (auto simp: headers_exec_def)
qed

interpretation headers_commands: total_command_system "headers_exec enforce"
    "\<lambda>h. headers_ok h \<and> guard_ok enforce h" same_guard
proof
  fix h c h'
  assume "headers_ok h \<and> guard_ok enforce h"
  then have k: "wp (headers_exec enforce c h) (keeps_headers enforce h)" using headers_exec_ok by blast
  show "headers_exec enforce c h \<noteq> None" using k by (cases "headers_exec enforce c h") simp_all
  assume "headers_exec enforce c h = Some h'"
  with k have "keeps_headers enforce h h'" by simp
  then show "headers_ok h' \<and> guard_ok enforce h'" "same_guard h h'" by (simp_all add: keeps_headers_def)
qed (auto simp: same_guard_def)

end
