(* ===== verification/Headers_Claims.thy ===== *)
theory Headers_Claims
  imports Headers_Ops
begin

text \<open>The properties of header lists and of the \<open>Headers\<close> class.\<close>

section \<open>Refilling\<close>

lemma append_valid_eq:
  assumes ok: "headers_ok h" and g: "guard_ok enforce h" and v: "is_header_name name" "is_header_value v"
    and i: "hd_guard h \<noteq> Immutable"
  shows "append_to_headers enforce name v h =
    (if accepts_append enforce h name v
     then map_option (\<lambda>h'. (h', Inr ())) (header_list_mut (append_a_header name v) h)
     else Some (h, Inr ()))"
proof (cases "accepts_append enforce h name v")
  case False
  then show ?thesis
    using v i by (auto simp: append_to_headers_def validate_cases accepts_append_def Let_def
        get_header_values after_append_eq normalize_header_value)
next
  case True
  obtain n where n: "append_a_header name v (hd_list h) = Some (hd_list h @ [(n, v)])"
      "eq_ignore_ascii_case n name"
    using append_a_header_ok [of name v "hd_list h"] v by metis
  let ?h = "with_list (hd_list h @ [(n, v)]) h"
  have "is_header_name n" using header_name_cong [OF n(2)] v by blast
  then have go: "guard_ok enforce ?h" by (rule guard_ok_append [OF ok g v True n(2)])
  have m: "header_list_mut (append_a_header name v) h = Some ?h" by (rule header_list_mut_Some) (rule n(1))
  have "append_to_headers enforce name v h = Some (?h, Inr ())"
    using v i True go after_change [of ?h]
    by (auto simp: append_to_headers_def validate_cases accepts_append_def Let_def get_header_values
        after_append_eq m guard_ok_def normalize_header_value)
  with True show ?thesis by (simp add: m)
qed

lemma append_valid_ok:
  assumes "headers_ok h" "guard_ok enforce h" "header_list_mut (append_a_header name v) h = Some h'"
    "append_to_headers enforce name v h = Some (h', Inr ())"
  shows "headers_ok h' \<and> guard_ok enforce h' \<and> hd_guard h' = hd_guard h"
  using append_to_headers_ok [OF assms(1,2), of name v] assms(4) by (simp add: keeps_headers_def same_guard_def)

lemma refill_loop_eq:
  assumes "headers_ok h" "guard_ok True h" "list_ok l" "hd_guard h = GuardRequest \<or> hd_guard h = RequestNoCors"
  shows "\<exists>h'. refill_loop l h = Some h' \<and> fill_record True l h = Some (h', Inr ()) \<and>
    headers_ok h' \<and> guard_ok True h' \<and> hd_guard h' = hd_guard h"
  using assms
proof (induction l arbitrary: h)
  case Nil
  then show ?case by simp
next
  case (Cons p l)
  obtain name v where p: "p = (name, v)" by (cases p)
  have v: "is_header_name name" "is_header_value v" and l: "list_ok l"
    using Cons.prems(3) by (auto simp: p list_ok_def)
  have i: "hd_guard h \<noteq> Immutable" using Cons.prems(4) by auto
  note e = append_valid_eq [OF Cons.prems(1,2) v i]
  have keep: "refill_loop ((name, v) # l) h =
      (if accepts_append True h name v
       then Option.bind (header_list_mut (append_a_header name v) h) (refill_loop l)
       else refill_loop l h)"
    using Cons.prems(4) v by (auto simp: accepts_append_def get_header_values after_append_eq)
  show ?case
  proof (cases "accepts_append True h name v")
    case False
    then show ?thesis using Cons.IH [OF Cons.prems(1,2) l Cons.prems(4)] by (simp add: p e keep del: refill_loop.simps)
  next
    case True
    have "append_to_headers True name v h \<noteq> None"
      using append_to_headers_ok [OF Cons.prems(1,2), of name v] by (cases "append_to_headers True name v h") simp_all
    then obtain h' where h': "header_list_mut (append_a_header name v) h = Some h'" using e True by auto
    then have a: "append_to_headers True name v h = Some (h', Inr ())" using e True by simp
    note ok = append_valid_ok [OF Cons.prems(1,2) h' a]
    then have "\<exists>h''. refill_loop l h' = Some h'' \<and> fill_record True l h' = Some (h'', Inr ()) \<and>
        headers_ok h'' \<and> guard_ok True h'' \<and> hd_guard h'' = hd_guard h'"
      using Cons.prems(4) by (intro Cons.IH l) simp_all
    then show ?thesis using True h' a ok by (simp add: p keep del: refill_loop.simps)
  qed
qed

text \<open>Without enforcement nothing is filtered, and a coherent list comes back as it was.\<close>

lemma fill_same:
  assumes "list_ok (hd_list h @ l)" "coherent (hd_list h @ l)" "hd_guard h = GuardRequest"
  shows "fill_record False l h = Some (if l = [] then h else with_list (hd_list h @ l) h, Inr ())"
  using assms
proof (induction l arbitrary: h)
  case Nil
  then show ?case by simp
next
  case (Cons p l)
  obtain name v where p: "p = (name, v)" by (cases p)
  have v: "is_header_name name" "is_header_value v" using Cons.prems(1) by (auto simp: p list_ok_def)
  obtain n where n: "append_a_header name v (hd_list h) = Some (hd_list h @ [(n, v)])"
      "eq_ignore_ascii_case n name"
      "n = name \<and> (\<forall>m \<in> fst ` set (hd_list h). \<not> eq_ignore_ascii_case m name) \<or> n \<in> fst ` set (hd_list h)"
    using append_a_header_ok [of name v "hd_list h"] v by metis
  have "name \<in> fst ` set (hd_list h @ p # l)" "n = name \<or> n \<in> fst ` set (hd_list h @ p # l)"
    using n(3) by (auto simp: p)
  then have "n = name" using Cons.prems(2) n(2) unfolding coherent_def by blast
  then have m: "header_list_mut (append_a_header name v) h = Some (with_list (hd_list h @ [(name, v)]) h)"
    using n(1) by (intro header_list_mut_Some) simp
  have a: "append_to_headers False name v h = Some (with_list (hd_list h @ [(name, v)]) h, Inr ())"
    using Cons.prems(3) v by (simp add: append_to_headers_def validate_cases normalize_header_value m)
  have "fill_record False l (with_list (hd_list h @ [(name, v)]) h) =
      Some (if l = [] then with_list (hd_list h @ [(name, v)]) h
            else with_list ((hd_list h @ [(name, v)]) @ l) h, Inr ())"
    using Cons.IH [of "with_list (hd_list h @ [(name, v)]) h"] Cons.prems by (simp add: p)
  then show ?case using a by (simp add: p)
qed

text \<open>C20: the constructor's refilling of a \<open>Request\<close>'s own headers, which only runs the filters of the
  guard, gives the list that emptying it and appending every header again gives, and neither throws.\<close>

theorem refilling_appends_again:
  assumes ok: "headers_ok h" and g: "hd_guard h = GuardRequest \<or> hd_guard h = RequestNoCors \<and> enforce"
  shows "\<exists>h1 h2. refill_headers_from_own_list enforce h = Some h1 \<and>
    fill_record enforce (hd_list h) (h\<lparr>hd_sorted_and_combined := None, hd_list := []\<rparr>) = Some (h2, Inr ()) \<and>
    hd_list h1 = hd_list h2 \<and> hd_guard h1 = hd_guard h2"
proof -
  let ?e = "with_list [] h"
  have e: "h\<lparr>hd_sorted_and_combined := None, hd_list := []\<rparr> = ?e" by (simp add: with_list_def)
  have lo: "list_ok (hd_list h)" "coherent (hd_list h)" using headers_okD [OF ok] by blast+
  show ?thesis
  proof (cases enforce)
    case True
    have he: "headers_ok ?e" by (simp add: headers_ok_with_list list_ok_def coherent_def)
    have ge: "guard_ok True ?e" by (simp add: guard_ok_def no_cors_ok_def)
    have g': "hd_guard ?e = GuardRequest \<or> hd_guard ?e = RequestNoCors" using g by auto
    obtain h1 where h1: "refill_loop (hd_list h) ?e = Some h1" "fill_record True (hd_list h) ?e = Some (h1, Inr ())"
      using refill_loop_eq [OF he ge lo(1) g'] by blast
    have "refill_headers_from_own_list True h = Some h1"
      using g h1(1) by (auto simp: refill_headers_from_own_list_def require_def e)
    with h1 True show ?thesis by (simp add: e)
  next
    case False
    then have gr: "hd_guard h = GuardRequest" using g by blast
    have "fill_record False (hd_list h) ?e = Some (if hd_list h = [] then ?e else with_list (hd_list h) h, Inr ())"
      using fill_same [of ?e "hd_list h"] lo gr by simp
    then show ?thesis using False by (simp add: refill_headers_from_own_list_def e)
  qed
qed


definition example_headers :: "guard \<Rightarrow> headers" where
  "example_headers g =
     headers_from_list [(''Accept'', ''text/html''), (''Cookie'', ''a=b''), (''Accept'', ''*'')] g"

lemma example_headers_ok: "headers_ok (example_headers g)"
  by (simp add: headers_ok_def example_headers_def headers_from_list_def list_ok_def coherent_def
      header_value_chars is_header_name_def utf8_char_def code_def is_http_token_byte_def
      is_ascii_alphanumeric_def eq_ignore_ascii_case_def to_ascii_lowercase_char_def)

lemma refilling_appends_again_witness:
  "\<exists>h1 h2. refill_headers_from_own_list True (example_headers RequestNoCors) = Some h1 \<and>
    fill_record True (hd_list (example_headers RequestNoCors))
      ((example_headers RequestNoCors)\<lparr>hd_sorted_and_combined := None, hd_list := []\<rparr>) = Some (h2, Inr ()) \<and>
    hd_list h1 = hd_list h2 \<and> hd_guard h1 = hd_guard h2"
  by (rule refilling_appends_again [OF example_headers_ok]) (simp add: example_headers_def headers_from_list_def)

text \<open>C21: checking the part of the combined value that a header would add, as appending to the headers of
  a request without CORS does, answers as the check of the combined value.\<close>

theorem combined_check_is_equivalent:
  "is_no_cors_safelisted_request_header_after_append name existing v =
     is_no_cors_safelisted_request_header name (case existing of None \<Rightarrow> v | Some c \<Rightarrow> c @ '', '' @ v)"
  by (rule after_append_eq)

section \<open>Sessions\<close>

text \<open>C19: whatever is done to a \<open>Headers\<close> object, no assertion and no \<open>expect\<close> fails, names and values stay
  valid, the cache is the sorted and combined list, and the guard is respected: immutable headers
  do not change, a request never holds a forbidden header, a response no forbidden name, and
  without CORS the combined value of every name is safelisted.\<close>

theorem headers_sessions_respect_the_guard:
  assumes l: "list_ok l" "coherent l" and g: "guard_ok enforce (headers_from_list l g)"
  shows "wp (run_all (headers_exec enforce) cmds (headers_from_list l g)) (\<lambda>h.
    (\<forall>(n, v) \<in> set (hd_list h). is_header_name n \<and> is_header_value v) \<and>
    (hd_sorted_and_combined h = None \<or>
      hd_sorted_and_combined h = sort_and_combine_a_header_list (hd_list h)) \<and>
    (g = Immutable \<longrightarrow> hd_list h = l) \<and>
    (enforce \<and> g = GuardRequest \<longrightarrow> (\<forall>(n, v) \<in> set (hd_list h). \<not> forbidden_request_header n v)) \<and>
    (enforce \<and> g = GuardResponse \<longrightarrow>
      (\<forall>n \<in> fst ` set (hd_list h). \<not> is_forbidden_response_header_name n)) \<and>
    (g = RequestNoCors \<longrightarrow> (\<forall>n v. get_header_for_name (hd_list h) n = Some (Some v) \<longrightarrow>
      is_no_cors_safelisted_request_header n v)))"
proof -
  have "headers_ok (headers_from_list l g)" using l by (simp add: headers_ok_def headers_from_list_def)
  with g have "wp (run_all (headers_exec enforce) cmds (headers_from_list l g))
      (\<lambda>h. (headers_ok h \<and> guard_ok enforce h) \<and> same_guard (headers_from_list l g) h)"
    by (intro headers_commands.run_total) blast
  then show ?thesis
  proof (rule wp_mono)
    fix h
    assume h: "(headers_ok h \<and> guard_ok enforce h) \<and> same_guard (headers_from_list l g) h"
    then have gd: "hd_guard h = g" "g = Immutable \<longrightarrow> hd_list h = l"
      by (simp_all add: same_guard_def headers_from_list_def)
    have cache: "hd_sorted_and_combined h = None \<or>
        hd_sorted_and_combined h = sort_and_combine_a_header_list (hd_list h)"
      using h by (cases "hd_sorted_and_combined h") (simp_all add: headers_ok_def)
    have "list_ok (hd_list h)" "guard_ok enforce h" using h headers_okD by blast+
    then show "(\<forall>(n, v) \<in> set (hd_list h). is_header_name n \<and> is_header_value v) \<and>
        (hd_sorted_and_combined h = None \<or>
          hd_sorted_and_combined h = sort_and_combine_a_header_list (hd_list h)) \<and>
        (g = Immutable \<longrightarrow> hd_list h = l) \<and>
        (enforce \<and> g = GuardRequest \<longrightarrow> (\<forall>(n, v) \<in> set (hd_list h). \<not> forbidden_request_header n v)) \<and>
        (enforce \<and> g = GuardResponse \<longrightarrow>
          (\<forall>n \<in> fst ` set (hd_list h). \<not> is_forbidden_response_header_name n)) \<and>
        (g = RequestNoCors \<longrightarrow> (\<forall>n v. get_header_for_name (hd_list h) n = Some (Some v) \<longrightarrow>
          is_no_cors_safelisted_request_header n v))"
      using cache gd by (simp add: guard_ok_def list_ok_def get_header_values no_cors_ok_def)
  qed
qed

lemma eq_char_of_iff: "c = char_of n \<longleftrightarrow> take_bit 8 n = (of_char c :: nat)"
  by (auto simp flip: char_of_eq_iff)

lemmas evaluate_headers =
  headers_from_list_def list_ok_def coherent_def guard_ok_def header_value_chars is_header_name_def
  utf8_char_def code_def char_of_eq_iff eq_char_of_iff take_bit_eq_mod is_http_token_byte_def is_ascii_alphanumeric_def eq_ignore_ascii_case_def
  to_ascii_lowercase_char_def forbidden_request_header_def forbidden_names_def has_prefix_ignore_case_def

lemma headers_sessions_respect_the_guard_witness:
  "\<exists>h. run_all (headers_exec True) [HAppend ''Host'' ''x'', HSet ''X-Custom'' '' y '', HRead 0]
       (headers_from_list [(''Accept'', ''*'')] GuardRequest) = Some h \<and>
     list_all (\<lambda>(n, v). \<not> forbidden_request_header n v) (hd_list h)"
proof -
  have l: "list_ok [(''Accept'', ''*'')]" "coherent [(''Accept'', ''*'')]"
    and g: "guard_ok True (headers_from_list [(''Accept'', ''*'')] GuardRequest)"
    by (simp_all add: evaluate_headers)
  show ?thesis
    using headers_sessions_respect_the_guard [OF l g, of "[HAppend ''Host'' ''x'', HSet ''X-Custom'' '' y '', HRead 0]"]
    unfolding wp_Ex list_all_iff by blast
qed

section \<open>What is read back\<close>

lemma example_guard_ok: "guard_ok False (example_headers GuardRequest)"
  by (simp add: guard_ok_def example_headers_def headers_from_list_def)

lemma inr_unit: "(case r of Inl e \<Rightarrow> False | Inr u \<Rightarrow> True) \<Longrightarrow> r = Inr ()"
  by (cases r) simp_all

lemma headers_get_values:
  "headers_get m h = (if is_header_name m then Some (Inr (combined (values_of m (hd_list h))))
     else Some (Inl (JTypeError ''Invalid header name'')))"
  by (simp add: headers_get_def get_header_values)

text \<open>C37: \<open>append\<close>, \<open>set\<close> and \<open>delete\<close> with a valid name and value on mutable headers do to what is
  read what they say, or nothing when the guard refuses: appending adds the value after a comma to
  what its name reads, setting makes it what its name reads, deleting makes its name read nothing,
  and every other name reads as before.\<close>

theorem changes_are_read_back:
  assumes ok: "headers_ok h" and g: "guard_ok enforce h"
    and valid: "is_header_name name" "is_header_value (normalize_byte_sequence w)" "hd_guard h \<noteq> Immutable"
    and m: "is_header_name m"
  shows "wp (headers_append enforce name w h) (\<lambda>(h', r). r = Inr () \<and>
      headers_get m h' =
        (if accepts_append enforce h name (normalize_byte_sequence w) \<and> eq_ignore_ascii_case name m
         then Some (Inr (Some (case combined (values_of m (hd_list h)) of
                None \<Rightarrow> normalize_byte_sequence w | Some c \<Rightarrow> c @ '', '' @ normalize_byte_sequence w)))
         else headers_get m h))
    \<and> wp (headers_set enforce name w h) (\<lambda>(h', r). r = Inr () \<and>
      headers_get m h' =
        (if accepts_set enforce h name (normalize_byte_sequence w) \<and> eq_ignore_ascii_case name m
         then Some (Inr (Some (normalize_byte_sequence w))) else headers_get m h))
    \<and> wp (headers_delete enforce name h) (\<lambda>(h', r). r = Inr () \<and>
      headers_get m h' =
        (if accepts_delete enforce h name \<and> eq_ignore_ascii_case name m
         then Some (Inr None) else headers_get m h))"
proof (intro conjI)
  obtain h' r where a: "append_to_headers enforce name w h = Some (h', r)" "r = Inr ()"
      "if accepts_append enforce h name (normalize_byte_sequence w)
       then \<exists>n. h' = with_list (hd_list h @ [(n, normalize_byte_sequence w)]) h \<and> eq_ignore_ascii_case n name
       else h' = h"
    using append_to_headers_ok [OF ok g, of name w] valid
    by (cases "append_to_headers enforce name w h") (auto simp: Let_def)
  show "wp (headers_append enforce name w h) (\<lambda>(h', r). r = Inr () \<and>
      headers_get m h' =
        (if accepts_append enforce h name (normalize_byte_sequence w) \<and> eq_ignore_ascii_case name m
         then Some (Inr (Some (case combined (values_of m (hd_list h)) of
                None \<Rightarrow> normalize_byte_sequence w | Some c \<Rightarrow> c @ '', '' @ normalize_byte_sequence w)))
         else headers_get m h))"
  proof (cases "accepts_append enforce h name (normalize_byte_sequence w)")
    case True
    then obtain n where n: "h' = with_list (hd_list h @ [(n, normalize_byte_sequence w)]) h"
        "eq_ignore_ascii_case n name" using a(3) by auto
    have "eq_ignore_ascii_case n m \<longleftrightarrow> eq_ignore_ascii_case name m"
      using n(2) by (simp add: eq_ignore_ascii_case_def)
    then show ?thesis using True a(1,2) n(1) m by (simp add: headers_append_def headers_get_values combined_snoc)
  qed (use a in \<open>simp add: headers_append_def\<close>)
next
  obtain h' r where s0: "headers_set enforce name w h = Some (h', r)"
      and r: "case r of Inl _ \<Rightarrow> False | Inr _ \<Rightarrow> True"
      and s1: "if accepts_set enforce h name (normalize_byte_sequence w)
       then \<forall>m. values_of m (hd_list h') =
         (if eq_ignore_ascii_case m name then [normalize_byte_sequence w] else values_of m (hd_list h))
       else h' = h"
    using headers_set_ok [OF ok g, of name w] valid
    by (elim wp_pairE) (simp add: Let_def split: sum.splits)
  note s = s0 inr_unit [OF r] s1
  show "wp (headers_set enforce name w h) (\<lambda>(h', r). r = Inr () \<and>
      headers_get m h' =
        (if accepts_set enforce h name (normalize_byte_sequence w) \<and> eq_ignore_ascii_case name m
         then Some (Inr (Some (normalize_byte_sequence w))) else headers_get m h))"
  proof (cases "accepts_set enforce h name (normalize_byte_sequence w)")
    case True
    then show ?thesis using s m by (simp add: headers_get_values eq_ignore_sym [of m name])
  qed (use s in simp)
next
  obtain h' r where d0: "headers_delete enforce name h = Some (h', r)"
      and r: "case r of Inl _ \<Rightarrow> False | Inr _ \<Rightarrow> True"
      and d1: "if accepts_delete enforce h name
       then \<forall>m. values_of m (hd_list h') = (if eq_ignore_ascii_case m name then [] else values_of m (hd_list h))
       else h' = h"
    using headers_delete_ok [OF ok g, of name] valid
    by (elim wp_pairE) (simp split: sum.splits)
  note d = d0 inr_unit [OF r] d1
  show "wp (headers_delete enforce name h) (\<lambda>(h', r). r = Inr () \<and>
      headers_get m h' =
        (if accepts_delete enforce h name \<and> eq_ignore_ascii_case name m
         then Some (Inr None) else headers_get m h))"
  proof (cases "accepts_delete enforce h name")
    case True
    then show ?thesis using d m by (simp add: headers_get_values eq_ignore_sym [of m name])
  qed (use d in simp)
qed

lemma changes_are_read_back_witness:
  "\<exists>h'. headers_append False ''accept'' '' text/plain '' (example_headers GuardRequest) = Some (h', Inr ()) \<and>
     headers_get ''ACCEPT'' h' = Some (Inr (Some ''text/html, *, text/plain''))"
proof -
  have n: "normalize_byte_sequence '' text/plain '' = ''text/plain''"
    by (simp add: normalize_byte_sequence_def trim_matches_def code_def)
  have "is_header_name ''accept''" "is_header_name ''ACCEPT''" "is_header_value ''text/plain''"
    "eq_ignore_ascii_case ''accept'' ''ACCEPT''" "hd_guard (example_headers GuardRequest) \<noteq> Immutable"
    "accepts_append False (example_headers GuardRequest) ''accept'' ''text/plain''"
    "combined (values_of ''ACCEPT'' (hd_list (example_headers GuardRequest))) = Some ''text/html, *''"
    by (simp_all add: evaluate_headers example_headers_def accepts_append_def)
  then show ?thesis
    using changes_are_read_back [OF example_headers_ok example_guard_ok, of "''accept''" "'' text/plain ''" "''ACCEPT''"]
    by (auto simp: n elim!: wp_pairE)
qed

lemma lowercase_set_cookie: "eq_ignore_ascii_case n ''set-cookie'' \<longleftrightarrow> to_ascii_lowercase n = ''set-cookie''"
  by (simp add: eq_ignore_ascii_case_def to_ascii_lowercase_char_def code_def)

lemma fst_entries: "p \<in> set (entries_of l n) \<Longrightarrow> fst p = n"
  by (auto simp: entries_of_def split: if_splits option.splits)

lemma values_of_map_Pair [simp]:
  "values_of m (map (Pair n) vs) = (if eq_ignore_ascii_case n m then vs else [])"
  by (induction vs) simp_all

lemma values_of_entries:
  "values_of m (entries_of l n) =
     (if eq_ignore_ascii_case n m
      then if n = ''set-cookie'' then values_of n l
        else (case combined (values_of n l) of None \<Rightarrow> [] | Some v \<Rightarrow> [v])
      else [])"
  by (simp add: entries_of_def split: option.split)

lemma values_of_all_entries:
  assumes "distinct ns" "\<forall>n \<in> set ns. to_ascii_lowercase n = n"
  shows "values_of m (concat (map (entries_of l) ns)) =
    (if to_ascii_lowercase m \<in> set ns then values_of m (entries_of l (to_ascii_lowercase m)) else [])"
  using assms
proof (induction ns)
  case Nil
  then show ?case by simp
next
  case (Cons n ns)
  have n: "eq_ignore_ascii_case n m \<longleftrightarrow> n = to_ascii_lowercase m"
    using Cons.prems(2) by (simp add: eq_ignore_ascii_case_def)
  show ?case
  proof (cases "n = to_ascii_lowercase m")
    case True
    then show ?thesis using Cons.IH Cons.prems by simp
  next
    case False
    then have "values_of m (entries_of l n) = []" by (simp add: values_of_entries n)
    then show ?thesis using False Cons.IH Cons.prems by auto
  qed
qed

lemma sorted_entries: "sorted (map utf8 ns) \<Longrightarrow> sorted (map (\<lambda>p. utf8 (fst p)) (concat (map (entries_of l) ns)))"
proof (induction ns)
  case Nil
  then show ?case by simp
next
  case (Cons n ns)
  have "sorted (map (\<lambda>p. utf8 (fst p)) (entries_of l n))"
  proof (rule sorted_iff_nth_mono [THEN iffD2], intro allI impI)
    fix i j
    assume "i \<le> j" "j < length (map (\<lambda>p. utf8 (fst p)) (entries_of l n))"
    then have "fst (entries_of l n ! i) = n" "fst (entries_of l n ! j) = n"
      by (simp_all add: fst_entries [OF nth_mem])
    then show "map (\<lambda>p. utf8 (fst p)) (entries_of l n) ! i \<le> map (\<lambda>p. utf8 (fst p)) (entries_of l n) ! j"
      using \<open>i \<le> j\<close> \<open>j < _\<close> by simp
  qed
  moreover have "sorted (map (\<lambda>p. utf8 (fst p)) (concat (map (entries_of l) ns)))"
    by (rule Cons.IH) (use Cons.prems in simp)
  moreover have "utf8 (fst a) \<le> utf8 (fst b)"
    if "a \<in> set (entries_of l n)" "b \<in> set (concat (map (entries_of l) ns))" for a b
    using that Cons.prems by (auto dest!: fst_entries)
  ultimately show ?case by (simp add: sorted_append) blast
qed

text \<open>The sorted and combined list has lower-case names in the order of their bytes, one entry for each
  name but \<open>set-cookie\<close>, whose values stay apart and in order, and every name reads the same from it
  as from the list.\<close>

theorem sorting_and_combining_keeps_the_values:
  assumes l: "list_ok l"
  shows "\<exists>s. sort_and_combine_a_header_list l = Some s \<and>
    sorted (map (utf8 \<circ> fst) s) \<and> (\<forall>n \<in> fst ` set s. to_ascii_lowercase n = n) \<and>
    values_of ''set-cookie'' s = values_of ''set-cookie'' l \<and>
    (\<forall>n. \<not> eq_ignore_ascii_case n ''set-cookie'' \<longrightarrow>
      values_of n s = (case combined (values_of n l) of Some v \<Rightarrow> [v] | None \<Rightarrow> [])) \<and>
    (\<forall>n. get_header_for_name s n = get_header_for_name l n)"
proof (intro exI conjI)
  let ?s = "concat (map (entries_of l) (sorted_names l))"
  show "sort_and_combine_a_header_list l = Some ?s" by (rule sort_and_combine_eq [OF l])
  show "sorted (map (utf8 \<circ> fst) ?s)" using sorted_entries [OF sorted_sorted_names] by (simp add: comp_def)
  show "\<forall>n \<in> fst ` set ?s. to_ascii_lowercase n = n"
    by (auto dest!: fst_entries simp: sorted_names_values)
  have v: "values_of m ?s = (if m' = ''set-cookie'' then values_of m l
      else case combined (values_of m l) of None \<Rightarrow> [] | Some v \<Rightarrow> [v])"
    if "m' = to_ascii_lowercase m" for m m'
  proof -
    have e: "values_of (to_ascii_lowercase m) l = values_of m l" by (rule values_of_cong) simp
    have m: "m' \<in> set (sorted_names l) \<longleftrightarrow> values_of m l \<noteq> []" by (simp add: that sorted_names_values e)
    have "values_of m ?s = (if values_of m l \<noteq> [] then values_of m (entries_of l m') else [])"
      unfolding m [symmetric] that
      by (rule values_of_all_entries [OF distinct_sorted_names]) (simp add: sorted_names_values)
    also have "values_of m (entries_of l m') = (if m' = ''set-cookie'' then values_of m l
        else case combined (values_of m l) of None \<Rightarrow> [] | Some v \<Rightarrow> [v])"
      unfolding values_of_entries by (simp only: that e eq_ignore_lowercase eq_ignore_refl if_True)
    finally show ?thesis by (simp split: option.split)
  qed
  show sc: "values_of ''set-cookie'' ?s = values_of ''set-cookie'' l"
    by (rule trans [OF v [of "''set-cookie''"]]) (simp_all add: to_ascii_lowercase_char_def code_def)
  show "\<forall>n. \<not> eq_ignore_ascii_case n ''set-cookie'' \<longrightarrow>
      values_of n ?s = (case combined (values_of n l) of Some v \<Rightarrow> [v] | None \<Rightarrow> [])"
    by (auto simp: v [OF refl] lowercase_set_cookie split: option.split)
  show "\<forall>n. get_header_for_name ?s n = get_header_for_name l n"
    by (auto simp: get_header_values v [OF refl] split: option.split)
qed

lemma sorting_and_combining_keeps_the_values_witness:
  "\<exists>s. sort_and_combine_a_header_list (hd_list (example_headers GuardNone)) = Some s \<and>
     values_of ''accept'' s = [''text/html, *'']"
proof -
  have l: "list_ok (hd_list (example_headers GuardNone))"
    using example_headers_ok [of GuardNone] headers_okD by blast
  have "\<not> eq_ignore_ascii_case ''accept'' ''set-cookie''"
    "combined (values_of ''accept'' (hd_list (example_headers GuardNone))) = Some ''text/html, *''"
    by (simp_all add: evaluate_headers example_headers_def)
  then show ?thesis using sorting_and_combining_keeps_the_values [OF l] by fastforce
qed

section \<open>Iterating\<close>

text \<open>\<open>forEach\<close> with a callback that leaves the headers alone returns, calls back once for each entry
  of the sorted and combined list, in its order, and changes nothing but the cache.\<close>

theorem for_each_visits_the_sorted_headers:
  assumes "headers_ok h" "guard_ok enforce h" "sort_and_combine_a_header_list (hd_list h) = Some l"
    "length l < fuel"
  shows "wp (for_each_pair fuel (\<lambda>i. logged (headers_pair_at i)) logging 0 (h, [])) (\<lambda>((h', calls), r).
    r = Some (Inr ()) \<and> calls = l \<and> headers_ok h' \<and>
    sort_and_combine_a_header_list (hd_list h') = Some l)"
proof -
  have l: "current_pairs h = l" using assms(3) by (simp add: current_pairs_def)
  have some: "sort_and_combine_a_header_list (hd_list h') = Some (current_pairs h')" if "headers_ok h'" for h'
    using that sort_and_combine_eq headers_okD unfolding current_pairs_def by fastforce
  have "wp (for_each_pair fuel (\<lambda>i. logged (headers_pair_at i)) logging 0 (h, [])) (\<lambda>((h', calls), r).
      r = Some (Inr ()) \<and> calls = [] @ drop 0 (current_pairs h) \<and>
      (headers_ok h' \<and> guard_ok enforce h') \<and> current_pairs h' = current_pairs h)"
    using assms l by (intro headers_pairs.for_each_visits) simp_all
  then show ?thesis by (rule wp_mono) (use l some in auto)
qed

lemma for_each_visits_the_sorted_headers_witness:
  "\<exists>h'. for_each_pair 3 (\<lambda>i. logged (headers_pair_at i)) logging 0 (example_headers GuardNone, []) =
     Some ((h', [(''accept'', ''text/html, *''), (''cookie'', ''a=b'')]), Some (Inr ()))"
proof -
  have "sort_and_combine_a_header_list (hd_list (example_headers GuardNone)) =
      Some [(''accept'', ''text/html, *''), (''cookie'', ''a=b'')]"
    by (simp add: evaluate_headers example_headers_def sort_and_combine_a_header_list_def
        convert_header_names_to_sorted_lowercase_set_def get_header_values)
  moreover have "guard_ok True (example_headers GuardNone)"
    by (simp add: guard_ok_def example_headers_def headers_from_list_def)
  ultimately show ?thesis
    using for_each_visits_the_sorted_headers [OF example_headers_ok, of True GuardNone _ 3]
    by (auto elim!: wpE)
qed

section \<open>Errors\<close>

text \<open>\<open>append\<close> and \<open>set\<close> throw a \<open>TypeError\<close> exactly when the name or the normalized value is not
  valid or the headers are immutable, \<open>delete\<close> when the name is not valid or they are immutable, and
  then the object is as it was.\<close>

theorem invalid_changes_throw:
  assumes ok: "headers_ok h" and g: "guard_ok enforce h"
  shows "wp (headers_append enforce name w h) (\<lambda>(h', r). case r of
      Inl e \<Rightarrow> h' = h \<and> \<not> (is_header_name name \<and> is_header_value (normalize_byte_sequence w) \<and> hd_guard h \<noteq> Immutable)
    | Inr _ \<Rightarrow> is_header_name name \<and> is_header_value (normalize_byte_sequence w) \<and> hd_guard h \<noteq> Immutable)
    \<and> wp (headers_set enforce name w h) (\<lambda>(h', r). case r of
      Inl e \<Rightarrow> h' = h \<and> \<not> (is_header_name name \<and> is_header_value (normalize_byte_sequence w) \<and> hd_guard h \<noteq> Immutable)
    | Inr _ \<Rightarrow> is_header_name name \<and> is_header_value (normalize_byte_sequence w) \<and> hd_guard h \<noteq> Immutable)
    \<and> wp (headers_delete enforce name h) (\<lambda>(h', r). case r of
      Inl e \<Rightarrow> h' = h \<and> \<not> (is_header_name name \<and> hd_guard h \<noteq> Immutable)
    | Inr _ \<Rightarrow> is_header_name name \<and> hd_guard h \<noteq> Immutable)"
proof (intro conjI)
  show "wp (headers_append enforce name w h) (\<lambda>(h', r). case r of
      Inl e \<Rightarrow> h' = h \<and> \<not> (is_header_name name \<and> is_header_value (normalize_byte_sequence w) \<and> hd_guard h \<noteq> Immutable)
    | Inr _ \<Rightarrow> is_header_name name \<and> is_header_value (normalize_byte_sequence w) \<and> hd_guard h \<noteq> Immutable)"
    unfolding headers_append_def
    by (rule wp_mono [OF append_to_headers_ok [OF ok g, of name w]]) (auto simp: Let_def split: if_splits)
  show "wp (headers_set enforce name w h) (\<lambda>(h', r). case r of
      Inl e \<Rightarrow> h' = h \<and> \<not> (is_header_name name \<and> is_header_value (normalize_byte_sequence w) \<and> hd_guard h \<noteq> Immutable)
    | Inr _ \<Rightarrow> is_header_name name \<and> is_header_value (normalize_byte_sequence w) \<and> hd_guard h \<noteq> Immutable)"
    by (rule wp_mono [OF headers_set_ok [OF ok g, of name w]]) (auto simp: Let_def split: sum.splits)
  show "wp (headers_delete enforce name h) (\<lambda>(h', r). case r of
      Inl e \<Rightarrow> h' = h \<and> \<not> (is_header_name name \<and> hd_guard h \<noteq> Immutable)
    | Inr _ \<Rightarrow> is_header_name name \<and> hd_guard h \<noteq> Immutable)"
    by (rule wp_mono [OF headers_delete_ok [OF ok g, of name]]) (auto split: sum.splits)
qed

lemma invalid_changes_throw_witness:
  "\<exists>e. headers_append False ''accept'' ''x'' (example_headers Immutable) = Some (example_headers Immutable, Inl e)"
proof -
  have "guard_ok False (example_headers Immutable)" "hd_guard (example_headers Immutable) = Immutable"
    by (simp_all add: guard_ok_def example_headers_def headers_from_list_def)
  then show ?thesis
    using invalid_changes_throw [OF example_headers_ok, of False Immutable "''accept''" "''x''"]
    by (auto elim!: wp_pairE split: sum.splits)
qed

text \<open>The trimming of a content type takes all white space of Unicode, so a value whose type ends in
  \<open>U+00A0\<close>, which is no MIME type, is safelisted.\<close>

lemma nbsp_content_type_is_safelisted:
  "is_cors_safelisted_request_header ''Content-Type'' (''text/plain'' @ [char_of (160 :: nat)])"
  by code_simp

end
