(* ===== verification/Code_Points.thy ===== *)
theory Code_Points
  imports Prelude "HOL-Library.List_Lexorder" "HOL-Library.Product_Lexorder"
begin

text \<open>
  Strings of Unicode scalar values, as Rust's \<open>str\<close> holds them: a list of code points, with the
  encodings of the standard library (\<open>as_bytes\<close>, \<open>encode_utf16\<close>), its comparisons and its stable
  sort.
\<close>

type_synonym code_points = "nat list"

definition scalar_value :: "nat \<Rightarrow> bool" where
  "scalar_value c \<longleftrightarrow> c < 55296 \<or> 57344 \<le> c \<and> c < 1114112"

definition utf8_of :: "nat \<Rightarrow> nat list" where
  "utf8_of c =
     (if c < 128 then [c]
      else if c < 2048 then [192 + c div 64, 128 + c mod 64]
      else if c < 65536 then [224 + c div 4096, 128 + c div 64 mod 64, 128 + c mod 64]
      else [240 + c div 262144, 128 + c div 4096 mod 64, 128 + c div 64 mod 64, 128 + c mod 64])"

definition utf16_of :: "nat \<Rightarrow> nat list" where
  "utf16_of c =
     (if c < 65536 then [c]
      else [55296 + (c - 65536) div 1024, 56320 + (c - 65536) mod 1024])"

definition as_bytes :: "code_points \<Rightarrow> nat list" where
  "as_bytes s = concat (map utf8_of s)"

definition encode_utf16 :: "code_points \<Rightarrow> nat list" where
  "encode_utf16 s = concat (map utf16_of s)"

text \<open>The code points of a literal.\<close>

definition lit :: "string \<Rightarrow> code_points" where
  "lit = map of_char"

definition is_ascii :: "code_points \<Rightarrow> bool" where
  "is_ascii s \<longleftrightarrow> list_all (\<lambda>c. c < 128) s"

text \<open>\<open>Ordering\<close>, \<open>cmp\<close> of iterators and the stable \<open>sort_by\<close>.\<close>

datatype ordering = Less | Equal | Greater

fun cmp_list :: "nat list \<Rightarrow> nat list \<Rightarrow> ordering" where
  "cmp_list [] [] = Equal"
| "cmp_list [] (y # ys) = Less"
| "cmp_list (x # xs) [] = Greater"
| "cmp_list (x # xs) (y # ys) = (if x < y then Less else if y < x then Greater else cmp_list xs ys)"

fun insert_by :: "('a \<Rightarrow> 'a \<Rightarrow> ordering) \<Rightarrow> 'a \<Rightarrow> 'a list \<Rightarrow> 'a list" where
  "insert_by cmp x [] = [x]"
| "insert_by cmp x (y # ys) = (if cmp x y = Greater then y # insert_by cmp x ys else x # y # ys)"

definition sort_by :: "('a \<Rightarrow> 'a \<Rightarrow> ordering) \<Rightarrow> 'a list \<Rightarrow> 'a list" where
  "sort_by cmp xs = foldr (insert_by cmp) xs []"

section \<open>Lemmas\<close>

lemma as_bytes_simps [simp]:
  "as_bytes [] = []" "as_bytes (c # s) = utf8_of c @ as_bytes s" "as_bytes (s @ t) = as_bytes s @ as_bytes t"
  by (simp_all add: as_bytes_def)

lemma encode_utf16_simps [simp]:
  "encode_utf16 [] = []" "encode_utf16 (c # s) = utf16_of c @ encode_utf16 s"
  by (simp_all add: encode_utf16_def)

lemma utf8_of_ascii [simp]: "c < 128 \<Longrightarrow> utf8_of c = [c]"
  by (simp add: utf8_of_def)

lemma utf16_of_bmp [simp]: "c < 65536 \<Longrightarrow> utf16_of c = [c]"
  by (simp add: utf16_of_def)

lemma as_bytes_ascii: "is_ascii s \<Longrightarrow> as_bytes s = s"
  by (induction s) (simp_all add: is_ascii_def)

lemma utf8_of_head: "128 \<le> c \<Longrightarrow> \<exists>b bs. utf8_of c = b # bs \<and> 128 \<le> b"
  by (simp add: utf8_of_def)

lemma utf16_of_head: "128 \<le> c \<Longrightarrow> \<exists>u us. utf16_of c = u # us \<and> 128 \<le> u"
  by (auto simp: utf16_of_def)

lemma cmp_list_iff:
  "cmp_list xs ys = Less \<longleftrightarrow> xs < ys" "cmp_list xs ys = Greater \<longleftrightarrow> ys < xs" "cmp_list xs ys = Equal \<longleftrightarrow> xs = ys"
  by (induction xs ys rule: cmp_list.induct) auto

text \<open>An ASCII string compares with any string alike by its bytes and by its code units.\<close>

lemma cmp_ascii:
  assumes "is_ascii a"
  shows "cmp_list (as_bytes a) (as_bytes b) = cmp_list (encode_utf16 a) (encode_utf16 b)"
  using assms
proof (induction a arbitrary: b)
  case Nil
  show ?case
  proof (cases b)
    case (Cons y b')
    have "utf8_of y \<noteq> []" "utf16_of y \<noteq> []" by (simp_all add: utf8_of_def utf16_of_def)
    then show ?thesis unfolding Cons
      by (cases "utf8_of y"; cases "utf16_of y") simp_all
  qed simp
next
  case (Cons x a)
  have x: "x < 128" "is_ascii a" using Cons.prems by (simp_all add: is_ascii_def)
  show ?case
  proof (cases b)
    case Nil
    then show ?thesis using x by simp
  next
    case (Cons y b')
    show ?thesis
    proof (cases "y < 128")
      case True
      then show ?thesis using x Cons Cons.IH by simp
    next
      case False
      then obtain v vs u us where "utf8_of y = v # vs" "128 \<le> v" "utf16_of y = u # us" "128 \<le> u"
        using utf8_of_head [of y] utf16_of_head [of y] by force
      then show ?thesis using x Cons by simp
    qed
  qed
qed

text \<open>Sorting with a comparison that orders by a key is the stable sort by that key.\<close>

lemma sort_by_key:
  fixes f :: "'a \<Rightarrow> 'b :: linorder"
  assumes "\<And>x y. cmp x y = Greater \<longleftrightarrow> f y < f x"
  shows "sort_by cmp xs = sort_key f xs"
proof -
  have "insert_by cmp x ys = insort_key f x ys" for x ys
    by (induction ys) (auto simp: assms not_le)
  then have "insert_by cmp = insort_key f" by blast
  then show ?thesis by (simp add: sort_by_def sort_key_def)
qed

end
