(* ===== verification/Base64.thy ===== *)
theory Base64
  imports Code_Points Byte_Strings "HOL-Library.Word"
begin

unbundle bit_operations_syntax

text \<open>
  \<open>btoa\<close> and \<open>atob\<close>, \<open>crates/builtins/web-globals/src/base64.rs\<close>. Bytes are \<open>8 word\<close>, a triple of
  bytes is a \<open>u32\<close>. Decoding is a function of the crate \<open>data-url\<close>, the parameter \<open>decode_to_vec\<close>
  (\<open>None\<close> is its error).
\<close>

datatype dom_exception = DOMException string string

definition BASE64_CHARS :: "code_points" where
  "BASE64_CHARS =
     map of_char ''ABCDEFGHIJKLMNOPQRSTUVWXYZabcdefghijklmnopqrstuvwxyz0123456789+/''"

text \<open>\<open>chunks(n)\<close> of a slice, for \<open>n > 0\<close>.\<close>

fun chunks :: "nat \<Rightarrow> 'a list \<Rightarrow> 'a list list" where
  "chunks n xs = (if xs = [] \<or> n = 0 then [] else take n xs # chunks n (drop n xs))"

declare chunks.simps [simp del]

definition base64_char :: "32 word \<Rightarrow> nat" where
  "base64_char index = BASE64_CHARS ! unat (index AND 63)"

definition encode_chunk :: "8 word list \<Rightarrow> code_points" where
  "encode_chunk chunk =
     (let b0 = (ucast (chunk ! 0) :: 32 word);
          b1 = (if length chunk > 1 then ucast (chunk ! 1) else 0);
          b2 = (if length chunk > 2 then ucast (chunk ! 2) else 0);
          triple = push_bit 16 b0 OR push_bit 8 b1 OR b2
      in [base64_char (drop_bit 18 triple),
          base64_char (drop_bit 12 triple),
          (if length chunk > 1 then base64_char (drop_bit 6 triple) else of_char CHR ''=''),
          (if length chunk > 2 then base64_char triple else of_char CHR ''='')])"

definition base64_encode :: "8 word list \<Rightarrow> code_points" where
  "base64_encode input = concat (map encode_chunk (chunks 3 input))"

definition btoa :: "code_points \<Rightarrow> string + code_points" where
  "btoa data =
     (if list_ex (\<lambda>ch. ch > 255) data
      then Inl ''The string to be encoded contains characters outside of the Latin1 range.''
      else Inr (base64_encode (map of_nat data)))"

definition forgiving_base64_decode ::
    "(nat list \<Rightarrow> 8 word list option) \<Rightarrow> code_points \<Rightarrow> string + 8 word list" where
  "forgiving_base64_decode decode_to_vec data =
     (case decode_to_vec (as_bytes data) of
        Some bytes \<Rightarrow> Inr bytes
      | None \<Rightarrow> Inl ''The string to be decoded is not correctly encoded.'')"

definition atob ::
    "(nat list \<Rightarrow> 8 word list option) \<Rightarrow> code_points \<Rightarrow> string + code_points" where
  "atob decode_to_vec data = map_sum id (map unat) (forgiving_base64_decode decode_to_vec data)"

text \<open>The functions that scripts call.\<close>

definition js_btoa :: "code_points \<Rightarrow> dom_exception + code_points" where
  "js_btoa data = map_sum (DOMException ''InvalidCharacterError'') id (btoa data)"

definition js_atob ::
    "(nat list \<Rightarrow> 8 word list option) \<Rightarrow> code_points \<Rightarrow> dom_exception + code_points" where
  "js_atob decode_to_vec data =
     map_sum (DOMException ''InvalidCharacterError'') id (atob decode_to_vec data)"

section \<open>The specification of decoding\<close>

text \<open>
  Forgiving-base64 decode of the Infra Standard, by groups of four characters: white space goes,
  up to two \<open>=\<close> at the end of a length that is a multiple of four go, then every character must
  be in the alphabet and the length not one more than a multiple of four; four bits of a last group
  of two characters and two bits of one of three are discarded.
\<close>

definition is_base64_space :: "nat \<Rightarrow> bool" where
  "is_base64_space b \<longleftrightarrow> b \<in> {9, 10, 12, 13, 32}"

definition strip_padding :: "nat list \<Rightarrow> nat list" where
  "strip_padding s =
     (if length s mod 4 \<noteq> 0 \<or> s = [] \<or> last s \<noteq> of_char CHR ''='' then s
      else if last (butlast s) = of_char CHR ''='' then butlast (butlast s) else butlast s)"

definition base64_digit :: "nat \<Rightarrow> 32 word option" where
  "base64_digit b = map_option of_nat (position ((=) b) BASE64_CHARS)"

fun digits :: "nat list \<Rightarrow> 32 word list option" where
  "digits [] = Some []"
| "digits (b # bs) = do { d \<leftarrow> base64_digit b; ds \<leftarrow> digits bs; Some (d # ds) }"

fun decode_digits :: "32 word list \<Rightarrow> 8 word list option" where
  "decode_digits (d0 # d1 # d2 # d3 # ds) =
     (let n = push_bit 18 d0 OR push_bit 12 d1 OR push_bit 6 d2 OR d3
      in map_option ((@) [ucast (drop_bit 16 n), ucast (drop_bit 8 n), ucast n]) (decode_digits ds))"
| "decode_digits [d0, d1, d2] =
     (let n = push_bit 12 d0 OR push_bit 6 d1 OR d2
      in Some [ucast (drop_bit 10 n), ucast (drop_bit 2 n)])"
| "decode_digits [d0, d1] = Some [ucast (drop_bit 4 (push_bit 6 d0 OR d1))]"
| "decode_digits [d0] = None"
| "decode_digits [] = Some []"

definition forgiving_decode :: "nat list \<Rightarrow> 8 word list option" where
  "forgiving_decode bytes =
     Option.bind (digits (strip_padding (filter (\<lambda>b. \<not> is_base64_space b) bytes))) decode_digits"

end
