(* ===== verification/Base64_Claims.thy ===== *)
theory Base64_Claims
  imports Base64
begin

unbundle bit_operations_syntax

text \<open>The properties of \<open>btoa\<close> and \<open>atob\<close>.\<close>

section \<open>The alphabet\<close>

lemma length_alphabet [simp]: "length BASE64_CHARS = 64"
  by (simp add: BASE64_CHARS_def)

lemma distinct_alphabet: "distinct BASE64_CHARS"
  by (simp add: BASE64_CHARS_def)

lemma alphabet_inert: "c \<in> set BASE64_CHARS \<Longrightarrow> \<not> is_base64_space c \<and> c \<noteq> 61 \<and> c < 128"
  by (auto simp: BASE64_CHARS_def is_base64_space_def)

lemma sextet [simp]: "unat (w AND 63 :: 32 word) < 64"
  using word_and_le1 [of w 63] by (simp add: word_le_nat_alt)

lemma base64_char_in [simp]: "base64_char w \<in> set BASE64_CHARS"
  by (simp add: base64_char_def)

lemma digit_char: "base64_digit (base64_char w) = Some (w AND 63)"
proof -
  have "position ((=) (BASE64_CHARS ! i)) BASE64_CHARS = Some i" if "i < 64" for i
    using that distinct_alphabet by (simp add: position_Some nth_eq_iff_index_eq)
  from this [OF sextet [of w]] show ?thesis by (simp add: base64_digit_def base64_char_def)
qed

lemma digits_chars: "digits (map base64_char ws) = Some (map (\<lambda>w. w AND 63) ws)"
  by (induction ws) (simp_all add: digit_char)

section \<open>Bits\<close>

lemma and_63: "(w :: 32 word) AND 63 = take_bit 6 w"
  by (simp add: take_bit_eq_mask mask_eq_exp_minus_1)

text \<open>A word below \<open>2 ^ 24\<close> is its four sextets, and one whose low bits are clear the first of them.\<close>

lemma sextets_join:
  fixes t :: "32 word"
  assumes "\<And>i. bit t i \<Longrightarrow> i < 24"
  shows "push_bit 18 (drop_bit 18 t AND 63) OR push_bit 12 (drop_bit 12 t AND 63) OR
    push_bit 6 (drop_bit 6 t AND 63) OR (t AND 63) = t"
    "push_bit 12 (drop_bit 18 t AND 63) OR push_bit 6 (drop_bit 12 t AND 63) OR (drop_bit 6 t AND 63) = drop_bit 6 t"
    "push_bit 6 (drop_bit 18 t AND 63) OR (drop_bit 12 t AND 63) = drop_bit 12 t"
proof -
  have sum: "bit t (k + (i - k)) = bit t (if k \<le> i then i else k)" for i k by simp
  show "push_bit 18 (drop_bit 18 t AND 63) OR push_bit 12 (drop_bit 12 t AND 63) OR
      push_bit 6 (drop_bit 6 t AND 63) OR (t AND 63) = t"
  proof (rule bit_word_eqI)
    fix i :: nat
    consider "i < 6" | "6 \<le> i" "i < 12" | "12 \<le> i" "i < 18" | "18 \<le> i" "i < 24" | "24 \<le> i" by linarith
    then show "bit (push_bit 18 (drop_bit 18 t AND 63) OR push_bit 12 (drop_bit 12 t AND 63) OR
        push_bit 6 (drop_bit 6 t AND 63) OR (t AND 63)) i = bit t i"
      unfolding and_63 by cases (use assms [of i] in \<open>auto simp: bit_simps sum\<close>)
  qed
  show "push_bit 12 (drop_bit 18 t AND 63) OR push_bit 6 (drop_bit 12 t AND 63) OR (drop_bit 6 t AND 63) =
      drop_bit 6 t"
  proof (rule bit_word_eqI)
    fix i :: nat
    consider "i < 6" | "6 \<le> i" "i < 12" | "12 \<le> i" "i < 18" | "18 \<le> i" by linarith
    then show "bit (push_bit 12 (drop_bit 18 t AND 63) OR push_bit 6 (drop_bit 12 t AND 63) OR
        (drop_bit 6 t AND 63)) i = bit (drop_bit 6 t) i"
      unfolding and_63 by cases (use assms [of "6 + i"] in \<open>auto simp: bit_simps sum\<close>)
  qed
  show "push_bit 6 (drop_bit 18 t AND 63) OR (drop_bit 12 t AND 63) = drop_bit 12 t"
  proof (rule bit_word_eqI)
    fix i :: nat
    consider "i < 6" | "6 \<le> i" "i < 12" | "12 \<le> i" by linarith
    then show "bit (push_bit 6 (drop_bit 18 t AND 63) OR (drop_bit 12 t AND 63)) i = bit (drop_bit 12 t) i"
      unfolding and_63 by cases (use assms [of "12 + i"] in \<open>auto simp: bit_simps sum\<close>)
  qed
qed

lemma bytes_of_triple:
  fixes a b c :: "8 word"
  defines "t \<equiv> push_bit 16 (ucast a) OR push_bit 8 (ucast b) OR (ucast c :: 32 word)"
  shows "bit t i \<Longrightarrow> i < 24" "(ucast (drop_bit 16 t) :: 8 word) = a" "(ucast (drop_bit 8 t) :: 8 word) = b"
    "(ucast t :: 8 word) = c"
proof -
  show "bit t i \<Longrightarrow> i < 24" by (auto simp: t_def bit_simps dest!: bit_imp_le_length)
  show "(ucast (drop_bit 16 t) :: 8 word) = a" "(ucast (drop_bit 8 t) :: 8 word) = b" "(ucast t :: 8 word) = c"
    by (rule bit_word_eqI; auto simp: t_def bit_simps dest: bit_imp_le_length)+
qed

section \<open>Encodings\<close>

lemma chunks_simps [simp]:
  "chunks 3 [] = []" "chunks 3 [a] = [[a]]" "chunks 3 [a, b] = [[a, b]]"
  "chunks 3 (a # b # c # rest) = [a, b, c] # chunks 3 rest"
  by (simp_all add: chunks.simps)

text \<open>The induction by three bytes.\<close>

lemma triple_induct [case_names Nil One Two Three]:
  assumes "P []" "\<And>a. P [a]" "\<And>a b. P [a, b]" "\<And>a b c rest. P rest \<Longrightarrow> P (a # b # c # rest)"
  shows "P xs"
proof (induction xs rule: length_induct)
  case (1 xs)
  consider "xs = []" | a where "xs = [a]" | a b where "xs = [a, b]" | a b c rest where "xs = a # b # c # rest"
    by (metis neq_Nil_conv)
  then show ?case using 1 assms by cases simp_all
qed

definition triple :: "8 word \<Rightarrow> 8 word \<Rightarrow> 8 word \<Rightarrow> 32 word" where
  "triple a b c = push_bit 16 (ucast a) OR push_bit 8 (ucast b) OR ucast c"

lemma encode_chunk_simps:
  "encode_chunk [a] = map base64_char [drop_bit 18 (triple a 0 0), drop_bit 12 (triple a 0 0)] @ [61, 61]"
  "encode_chunk [a, b] = map base64_char [drop_bit 18 (triple a b 0), drop_bit 12 (triple a b 0),
     drop_bit 6 (triple a b 0)] @ [61]"
  "encode_chunk [a, b, c] = map base64_char [drop_bit 18 (triple a b c), drop_bit 12 (triple a b c),
     drop_bit 6 (triple a b c), triple a b c]"
  by (simp_all add: encode_chunk_def triple_def Let_def)

text \<open>An encoding is the characters of its digits with its padding.\<close>

lemma encode_split:
  "\<exists>ws pad. base64_encode bs = map base64_char ws @ replicate pad 61 \<and>
     decode_digits (map (\<lambda>w. w AND 63) ws) = Some bs \<and>
     length ws + pad = 4 * ((length bs + 2) div 3) \<and> pad \<le> 2 \<and> (ws = [] \<longrightarrow> pad = 0)"
proof (induction bs rule: triple_induct)
  case Nil
  show ?case by (intro exI [of _ "[]"] exI [of _ 0]) (simp add: base64_encode_def)
next
  case (One a)
  let ?t = "triple a 0 0"
  have "(ucast (drop_bit 4 (drop_bit 12 ?t)) :: 8 word) = a"
    using bytes_of_triple(2) [of a 0 0] by (simp add: triple_def)
  moreover have "push_bit 6 (drop_bit 18 ?t AND 63) OR (drop_bit 12 ?t AND 63) = drop_bit 12 ?t"
    by (rule sextets_join(3)) (use bytes_of_triple(1) [of a 0 0] in \<open>simp add: triple_def\<close>)
  ultimately show ?case
    by (intro exI [of _ "[drop_bit 18 ?t, drop_bit 12 ?t]"] exI [of _ 2])
      (simp add: base64_encode_def encode_chunk_simps numeral_2_eq_2)
next
  case (Two a b)
  let ?t = "triple a b 0"
  have "(ucast (drop_bit 10 (drop_bit 6 ?t)) :: 8 word) = a" "(ucast (drop_bit 2 (drop_bit 6 ?t)) :: 8 word) = b"
    using bytes_of_triple(2,3) [of a b 0] by (simp_all add: triple_def)
  moreover have "push_bit 12 (drop_bit 18 ?t AND 63) OR push_bit 6 (drop_bit 12 ?t AND 63) OR
      (drop_bit 6 ?t AND 63) = drop_bit 6 ?t"
    by (rule sextets_join(2)) (use bytes_of_triple(1) [of a b 0] in \<open>simp add: triple_def\<close>)
  ultimately show ?case
    by (intro exI [of _ "[drop_bit 18 ?t, drop_bit 12 ?t, drop_bit 6 ?t]"] exI [of _ 1])
      (simp add: base64_encode_def encode_chunk_simps Let_def)
next
  case (Three a b c rest)
  let ?t = "triple a b c"
  obtain ws pad where ws: "base64_encode rest = map base64_char ws @ replicate pad 61"
      "decode_digits (map (\<lambda>w. w AND 63) ws) = Some rest" "length ws + pad = 4 * ((length rest + 2) div 3)"
      "pad \<le> 2" "ws = [] \<longrightarrow> pad = 0"
    using Three by blast
  have "(ucast (drop_bit 16 ?t) :: 8 word) = a" "(ucast (drop_bit 8 ?t) :: 8 word) = b" "(ucast ?t :: 8 word) = c"
    using bytes_of_triple(2-4) [of a b c] by (simp_all add: triple_def)
  moreover have "push_bit 18 (drop_bit 18 ?t AND 63) OR push_bit 12 (drop_bit 12 ?t AND 63) OR
      push_bit 6 (drop_bit 6 ?t AND 63) OR (?t AND 63) = ?t"
    by (rule sextets_join(1)) (use bytes_of_triple(1) [of a b c] in \<open>simp add: triple_def\<close>)
  moreover have "base64_encode (a # b # c # rest) = encode_chunk [a, b, c] @ base64_encode rest"
    by (simp add: base64_encode_def)
  moreover have "(length (a # b # c # rest) + 2) div 3 = Suc ((length rest + 2) div 3)" by simp
  ultimately show ?case
    using ws
    by (intro exI [of _ "[drop_bit 18 ?t, drop_bit 12 ?t, drop_bit 6 ?t, ?t] @ ws"] exI [of _ pad])
      (simp add: encode_chunk_simps Let_def del: length_Cons)
qed

lemma strip_encoding:
  assumes "pad \<le> 2" "ws = [] \<longrightarrow> pad = 0" "(length ws + pad) mod 4 = 0"
  shows "strip_padding (map base64_char ws @ replicate pad 61) = map base64_char ws"
proof -
  have no: "base64_char w \<noteq> 61" for w using alphabet_inert [OF base64_char_in [of w]] by simp
  consider "ws = []" "replicate pad (61 :: nat) = []"
    | us u where "ws = us @ [u]" "replicate pad (61 :: nat) = []"
    | us u where "ws = us @ [u]" "replicate pad (61 :: nat) = [61]"
    | us u where "ws = us @ [u]" "replicate pad (61 :: nat) = [61, 61]"
    using assms(1,2) by (cases ws rule: rev_cases) (auto simp: le_Suc_eq numeral_2_eq_2)
  then show ?thesis
  proof cases
    case 4
    then have "length (replicate pad (61 :: nat)) = 2" by simp
    then have "pad = 2" by simp
    with 4 assms(3) show ?thesis by (simp add: strip_padding_def butlast_append)
  next
    case 3
    then have "length (replicate pad (61 :: nat)) = 1" by simp
    then have "pad = 1" by simp
    with 3 assms(3) show ?thesis by (simp add: strip_padding_def butlast_append no)
  qed (simp_all add: strip_padding_def no)
qed

lemma encode_inert:
  assumes "base64_encode bs = map base64_char ws @ replicate pad 61" "c \<in> set (base64_encode bs)"
  shows "c < 128 \<and> \<not> is_base64_space c \<and> (c \<in> set BASE64_CHARS \<or> c = 61)"
  using assms alphabet_inert by (auto simp: is_base64_space_def in_set_replicate)

lemma forgiving_decode_encode: "forgiving_decode (as_bytes (base64_encode bs)) = Some bs"
proof -
  obtain ws pad where ws: "base64_encode bs = map base64_char ws @ replicate pad 61"
      "decode_digits (map (\<lambda>w. w AND 63) ws) = Some bs" "length ws + pad = 4 * ((length bs + 2) div 3)"
      "pad \<le> 2" "ws = [] \<longrightarrow> pad = 0"
    using encode_split by blast
  have "is_ascii (base64_encode bs)" using encode_inert [OF ws(1)] by (simp add: is_ascii_def list_all_iff)
  moreover have "filter (\<lambda>b. \<not> is_base64_space b) (base64_encode bs) = base64_encode bs"
    using encode_inert [OF ws(1)] by (simp add: filter_id_conv)
  moreover have "strip_padding (base64_encode bs) = map base64_char ws"
    unfolding ws(1) by (rule strip_encoding) (use ws in simp_all)
  ultimately show ?thesis by (simp add: forgiving_decode_def as_bytes_ascii digits_chars ws(2))
qed

section \<open>The properties\<close>

text \<open>C22: decoding what \<open>btoa\<close> returns gives back the string, for every decoder that meets the
  specification of forgiving-base64 decode, and \<open>btoa\<close> throws an \<open>InvalidCharacterError\<close> exactly
  when a code point is above 255.\<close>

theorem base64_round_trip:
  assumes decoder: "\<And>bytes. decode_to_vec bytes = forgiving_decode bytes"
  shows "case js_btoa data of
    Inr encoded \<Rightarrow> (\<forall>c \<in> set data. c \<le> 255) \<and> js_atob decode_to_vec encoded = Inr data
  | Inl e \<Rightarrow> (\<exists>c \<in> set data. c > 255) \<and>
      e = DOMException ''InvalidCharacterError''
        ''The string to be encoded contains characters outside of the Latin1 range.''"
proof (cases "\<exists>c \<in> set data. c > 255")
  case True
  then have "list_ex (\<lambda>ch. ch > 255) data" by (simp add: list_ex_iff)
  with True show ?thesis by (simp add: js_btoa_def btoa_def)
next
  case False
  then have small: "\<forall>c \<in> set data. c \<le> 255" by (simp add: not_less)
  then have "map (unat \<circ> (of_nat :: nat \<Rightarrow> 8 word)) data = data"
    by (intro map_idI) (use le_imp_less_Suc in \<open>fastforce simp: unat_of_nat\<close>)
  moreover have "\<not> list_ex (\<lambda>ch. ch > 255) data" using False by (simp add: list_ex_iff)
  ultimately show ?thesis using small
    by (simp add: js_btoa_def btoa_def js_atob_def atob_def forgiving_base64_decode_def decoder
        forgiving_decode_encode)
qed

lemma base64_round_trip_witness:
  "js_atob forgiving_decode [89, 87, 74, 106, 90, 65, 61, 61] = Inr [97, 98, 99, 100]"
proof -
  have "js_btoa [97, 98, 99, 100] = Inr [89, 87, 74, 106, 90, 65, 61, 61]" by code_simp
  then show ?thesis using base64_round_trip [OF refl, of "[97, 98, 99, 100]"] by simp
qed

text \<open>An encoding has four characters for every three bytes begun, the first of them from the
  alphabet and at most two \<open>=\<close> at the end.\<close>

theorem base64_encoding_bounds:
  "\<exists>body pad. base64_encode input = body @ replicate pad (of_char CHR ''='') \<and> pad \<le> 2 \<and>
     set body \<subseteq> set BASE64_CHARS \<and> length (base64_encode input) = 4 * ((length input + 2) div 3)"
proof -
  obtain ws pad where ws: "base64_encode input = map base64_char ws @ replicate pad 61"
      "length ws + pad = 4 * ((length input + 2) div 3)" "pad \<le> 2"
    using encode_split by blast
  then show ?thesis by (intro exI [of _ "map base64_char ws"] exI [of _ pad]) auto
qed

end
