(* ===== verification/Url_Params.thy ===== *)
theory Url_Params
  imports Code_Points Pair_Iteration Byte_Strings
begin

text \<open>
  \<open>URLSearchParams\<close> and \<open>URL\<close>, \<open>crates/builtins/web-url/src\<close>: two kinds of objects that refer to each
  other. Parsing, serializing and changing a URL record are the crates \<open>url\<close> and
  \<open>form_urlencoded\<close>, the parameter \<open>uc\<close> of type \<open>url_crate\<close>, where \<open>'u\<close> are the URL records.
\<close>

type_synonym tuples = "(code_points \<times> code_points) list"

datatype url_part =
  Protocol | Username | Password | Host | Hostname | Port | Pathname | Search | Hash

record 'u url_crate =
  uc_parse :: "code_points \<Rightarrow> 'u option"
  uc_join :: "'u \<Rightarrow> code_points \<Rightarrow> 'u option"
  uc_as_str :: "'u \<Rightarrow> code_points"
  uc_query :: "'u \<Rightarrow> code_points option"
  uc_set_query :: "code_points option \<Rightarrow> 'u \<Rightarrow> 'u"
  uc_path :: "'u \<Rightarrow> code_points"
  uc_set_path :: "code_points \<Rightarrow> 'u \<Rightarrow> 'u"
  uc_cannot_be_a_base :: "'u \<Rightarrow> bool"
  uc_host_str :: "'u \<Rightarrow> code_points option"
  uc_quirks_get :: "url_part \<Rightarrow> 'u \<Rightarrow> code_points"
  uc_quirks_set :: "url_part \<Rightarrow> code_points \<Rightarrow> 'u \<Rightarrow> 'u"
  uc_urlencoded_parse :: "code_points \<Rightarrow> tuples"
  uc_urlencoded_serialize :: "tuples \<Rightarrow> code_points"

record url_search_params =
  sp_list :: tuples
  sp_url_object :: "nat option"

record 'u url_object =
  uo_url :: "'u option"
  uo_query_object :: "nat option"

text \<open>The objects of both classes, by identity, and the next fresh identity.\<close>

record 'u url_heap =
  uh_urls :: "nat \<Rightarrow> 'u url_object option"
  uh_params :: "nat \<Rightarrow> url_search_params option"
  uh_next :: nat

definition url_heap_empty :: "'u url_heap" where
  "url_heap_empty = \<lparr>uh_urls = Map.empty, uh_params = Map.empty, uh_next = 0\<rparr>"

definition on_list :: "nat \<Rightarrow> (tuples \<Rightarrow> tuples) \<Rightarrow> 'u url_heap \<Rightarrow> 'u url_heap" where
  "on_list p f st =
     st\<lparr>uh_params := (uh_params st)(p := map_option (\<lambda>sp. sp\<lparr>sp_list := f (sp_list sp)\<rparr>) (uh_params st p))\<rparr>"

definition on_url :: "nat \<Rightarrow> ('u \<Rightarrow> 'u) \<Rightarrow> 'u url_heap \<Rightarrow> 'u url_heap" where
  "on_url i f st =
     st\<lparr>uh_urls := (uh_urls st)(i := map_option (\<lambda>u. u\<lparr>uo_url := map_option f (uo_url u)\<rparr>) (uh_urls st i))\<rparr>"

section \<open>Lists of tuples\<close>

definition list_append :: "code_points \<Rightarrow> code_points \<Rightarrow> tuples \<Rightarrow> tuples" where
  "list_append name value' list = list @ [(name, value')]"

definition list_delete :: "code_points \<Rightarrow> code_points option \<Rightarrow> tuples \<Rightarrow> tuples" where
  "list_delete name value' list =
     (case value' of
        Some v \<Rightarrow> filter (\<lambda>(tuple_name, tuple_value). tuple_name \<noteq> name \<or> tuple_value \<noteq> v) list
      | None \<Rightarrow> filter (\<lambda>(tuple_name, _). tuple_name \<noteq> name) list)"

definition list_get :: "code_points \<Rightarrow> tuples \<Rightarrow> code_points option" where
  "list_get name list = map_option snd (find (\<lambda>(tuple_name, _). tuple_name = name) list)"

definition list_get_all :: "code_points \<Rightarrow> tuples \<Rightarrow> code_points list" where
  "list_get_all name list = map snd (filter (\<lambda>(tuple_name, _). tuple_name = name) list)"

definition list_has :: "code_points \<Rightarrow> code_points option \<Rightarrow> tuples \<Rightarrow> bool" where
  "list_has name value' list =
     (case value' of
        Some v \<Rightarrow> list_ex (\<lambda>(tuple_name, tuple_value). tuple_name = name \<and> tuple_value = v) list
      | None \<Rightarrow> list_ex (\<lambda>(tuple_name, _). tuple_name = name) list)"

definition list_set :: "code_points \<Rightarrow> code_points \<Rightarrow> tuples \<Rightarrow> tuples" where
  "list_set name value' list =
     (case position (\<lambda>(tuple_name, _). tuple_name = name) list of
        Some first_index \<Rightarrow>
          retain_first (\<lambda>(tuple_name, _). tuple_name = name) False
            (list[first_index := (fst (list ! first_index), value')])
      | None \<Rightarrow> list @ [(name, value')])"

definition compare_names :: "code_points \<times> code_points \<Rightarrow> code_points \<times> code_points \<Rightarrow> ordering" where
  "compare_names a b =
     (if is_ascii (fst a) then cmp_list (as_bytes (fst a)) (as_bytes (fst b))
      else cmp_list (encode_utf16 (fst a)) (encode_utf16 (fst b)))"

definition list_sort :: "tuples \<Rightarrow> tuples" where
  "list_sort list = sort_by compare_names list"

section \<open>URLSearchParams\<close>

definition ends_with_space :: "code_points \<Rightarrow> bool" where
  "ends_with_space s \<longleftrightarrow> s \<noteq> [] \<and> last s = 32"

definition trim_end_spaces :: "code_points \<Rightarrow> code_points" where
  "trim_end_spaces s = rev (dropWhile ((=) 32) (rev s))"

text \<open>Setting the query of the URL, with the trailing space of an opaque path encoded when the query goes.\<close>

definition set_serialized_query :: "'u url_crate \<Rightarrow> code_points option \<Rightarrow> 'u \<Rightarrow> 'u" where
  "set_serialized_query uc serialized_query url =
     (let url1 =
        (if serialized_query = None \<and> uc_cannot_be_a_base uc url \<and> ends_with_space (uc_path uc url)
         then (let path = uc_path uc url;
                   trimmed = trim_end_spaces path;
                   trailing_spaces = length path - length trimmed;
                   rebuilt = trimmed @ replicate (trailing_spaces - 1) 32 @ [37, 50, 48]
               in uc_set_path uc rebuilt url)
         else url)
      in uc_set_query uc serialized_query url1)"

definition params_update :: "'u url_crate \<Rightarrow> nat \<Rightarrow> 'u url_heap \<Rightarrow> 'u url_heap" where
  "params_update uc p st =
     (case uh_params st p of
        None \<Rightarrow> st
      | Some sp \<Rightarrow>
          (case sp_url_object sp of
             None \<Rightarrow> st
           | Some url_object \<Rightarrow>
               let serialized = uc_urlencoded_serialize uc (sp_list sp);
                   serialized_query = (if serialized = [] then None else Some serialized)
               in on_url url_object (set_serialized_query uc serialized_query) st))"

datatype params_init = InitPairs "code_points list list" | InitRecord tuples | InitStr code_points

fun list_of_pairs :: "code_points list list \<Rightarrow> (string + tuples)" where
  "list_of_pairs [] = Inr []"
| "list_of_pairs (pair # pairs) =
     (case pair of
        [name, value'] \<Rightarrow> map_sum id ((#) (name, value')) (list_of_pairs pairs)
      | _ \<Rightarrow> Inl ''Each URLSearchParams sequence element must contain exactly two items'')"

definition strip_question_mark :: "code_points \<Rightarrow> code_points" where
  "strip_question_mark s = (case s of c # cs \<Rightarrow> if c = 63 then cs else s | [] \<Rightarrow> [])"

definition params_list :: "'u url_crate \<Rightarrow> params_init option \<Rightarrow> string + tuples" where
  "params_list uc init =
     (case init of
        None \<Rightarrow> Inr []
      | Some (InitPairs pairs) \<Rightarrow> list_of_pairs pairs
      | Some (InitRecord record') \<Rightarrow> Inr record'
      | Some (InitStr s) \<Rightarrow> Inr (uc_urlencoded_parse uc (strip_question_mark s)))"

definition params_new :: "'u url_crate \<Rightarrow> params_init option \<Rightarrow> 'u url_heap \<Rightarrow> 'u url_heap \<times> (string + nat)" where
  "params_new uc init st =
     (case params_list uc init of
        Inl e \<Rightarrow> (st, Inl e)
      | Inr list \<Rightarrow>
          let p = uh_next st
          in (st\<lparr>uh_params := (uh_params st)(p \<mapsto> \<lparr>sp_list = list, sp_url_object = None\<rparr>), uh_next := p + 1\<rparr>, Inr p))"

definition params_size :: "url_search_params \<Rightarrow> nat" where
  "params_size sp = length (sp_list sp) mod 2 ^ 32"

definition params_append ::
    "'u url_crate \<Rightarrow> nat \<Rightarrow> code_points \<Rightarrow> code_points \<Rightarrow> 'u url_heap \<Rightarrow> 'u url_heap" where
  "params_append uc p name value' st = params_update uc p (on_list p (list_append name value') st)"

definition params_delete ::
    "'u url_crate \<Rightarrow> nat \<Rightarrow> code_points \<Rightarrow> code_points option \<Rightarrow> 'u url_heap \<Rightarrow> 'u url_heap" where
  "params_delete uc p name value' st = params_update uc p (on_list p (list_delete name value') st)"

definition params_set ::
    "'u url_crate \<Rightarrow> nat \<Rightarrow> code_points \<Rightarrow> code_points \<Rightarrow> 'u url_heap \<Rightarrow> 'u url_heap" where
  "params_set uc p name value' st = params_update uc p (on_list p (list_set name value') st)"

definition params_sort :: "'u url_crate \<Rightarrow> nat \<Rightarrow> 'u url_heap \<Rightarrow> 'u url_heap" where
  "params_sort uc p st = params_update uc p (on_list p list_sort st)"

definition params_to_string :: "'u url_crate \<Rightarrow> url_search_params \<Rightarrow> code_points" where
  "params_to_string uc sp = uc_urlencoded_serialize uc (sp_list sp)"

definition params_pair_at ::
    "nat \<Rightarrow> url_search_params \<Rightarrow> (url_search_params \<times> (code_points \<times> code_points) option) option" where
  "params_pair_at i sp = Some (sp, if i < length (sp_list sp) then Some (sp_list sp ! i) else None)"

definition params_for_each ::
    "nat \<Rightarrow> (code_points \<Rightarrow> code_points \<Rightarrow> url_search_params \<Rightarrow> (url_search_params \<times> unit thrown) option) \<Rightarrow>
       url_search_params \<Rightarrow> (url_search_params \<times> unit thrown option) option" where
  "params_for_each fuel callback sp = for_each_pair fuel params_pair_at callback 0 sp"

definition params_iterator_next ::
    "pair_iterator \<Rightarrow> url_search_params \<Rightarrow> pair_iterator \<times> (code_points, code_points) iter_result" where
  "params_iterator_next it sp = pair_iterator_next (sp_list sp) it"

section \<open>URL\<close>

definition basic_url_parser :: "'u url_crate \<Rightarrow> code_points \<Rightarrow> 'u option \<Rightarrow> 'u option" where
  "basic_url_parser uc input base =
     (case base of Some base_url \<Rightarrow> uc_join uc base_url input | None \<Rightarrow> uc_parse uc input)"

definition api_url_parser :: "'u url_crate \<Rightarrow> code_points \<Rightarrow> code_points option \<Rightarrow> 'u option" where
  "api_url_parser uc url base =
     (case base of
        Some b \<Rightarrow>
          (case basic_url_parser uc b None of
             None \<Rightarrow> None
           | Some parsed_base \<Rightarrow> basic_url_parser uc url (Some parsed_base))
      | None \<Rightarrow> basic_url_parser uc url None)"

text \<open>A new URL object for a record, with its query object: the two refer to each other.\<close>

definition initialize_with_url_record :: "'u url_crate \<Rightarrow> nat \<Rightarrow> 'u \<Rightarrow> 'u url_heap \<Rightarrow> 'u url_heap" where
  "initialize_with_url_record uc i url_record st =
     (let query = (case uc_query uc url_record of Some q \<Rightarrow> q | None \<Rightarrow> []);
          query_list = uc_urlencoded_parse uc query;
          p = uh_next st
      in st\<lparr>uh_next := p + 1,
            uh_urls := (uh_urls st)(i \<mapsto> \<lparr>uo_url = Some url_record, uo_query_object = Some p\<rparr>),
            uh_params := (uh_params st)(p \<mapsto> \<lparr>sp_list = query_list, sp_url_object = Some i\<rparr>)\<rparr>)"

definition url_new ::
    "'u url_crate \<Rightarrow> code_points \<Rightarrow> code_points option \<Rightarrow> 'u url_heap \<Rightarrow> 'u url_heap \<times> (string + nat)" where
  "url_new uc url base st =
     (case api_url_parser uc url base of
        None \<Rightarrow> (st, Inl ''Invalid URL'')
      | Some parsed_url \<Rightarrow>
          let i = uh_next st
          in (initialize_with_url_record uc i parsed_url (st\<lparr>uh_next := i + 1\<rparr>), Inr i))"

definition url_parse ::
    "'u url_crate \<Rightarrow> code_points \<Rightarrow> code_points option \<Rightarrow> 'u url_heap \<Rightarrow> 'u url_heap \<times> nat option" where
  "url_parse uc url base st =
     (case url_new uc url base st of (st', Inr i) \<Rightarrow> (st', Some i) | (st', Inl _) \<Rightarrow> (st', None))"

definition can_parse :: "'u url_crate \<Rightarrow> code_points \<Rightarrow> code_points option \<Rightarrow> bool" where
  "can_parse uc url base \<longleftrightarrow> api_url_parser uc url base \<noteq> None"

definition href :: "'u url_crate \<Rightarrow> 'u url_object \<Rightarrow> code_points" where
  "href uc o' = (case uo_url o' of Some u \<Rightarrow> uc_as_str uc u | None \<Rightarrow> [])"

definition set_href ::
    "'u url_crate \<Rightarrow> nat \<Rightarrow> code_points \<Rightarrow> 'u url_heap \<Rightarrow> 'u url_heap \<times> (string + unit)" where
  "set_href uc i value' st =
     (case basic_url_parser uc value' None of
        None \<Rightarrow> (st, Inl ''Invalid URL'')
      | Some parsed_url \<Rightarrow>
          let st1 = st\<lparr>uh_urls := (uh_urls st)(i := map_option (\<lambda>o'. o'\<lparr>uo_url := Some parsed_url\<rparr>) (uh_urls st i))\<rparr>
          in (case Option.bind (uh_urls st1 i) uo_query_object of
                None \<Rightarrow> st1
              | Some p \<Rightarrow>
                  (case uc_query uc parsed_url of
                     Some query \<Rightarrow> on_list p (\<lambda>_. uc_urlencoded_parse uc query) (on_list p (\<lambda>_. []) st1)
                   | None \<Rightarrow> on_list p (\<lambda>_. []) st1),
              Inr ()))"

definition url_set_part :: "'u url_crate \<Rightarrow> url_part \<Rightarrow> nat \<Rightarrow> code_points \<Rightarrow> 'u url_heap \<Rightarrow> 'u url_heap" where
  "url_set_part uc part i value' st = on_url i (uc_quirks_set uc part value') st"

definition set_protocol :: "'u url_crate \<Rightarrow> nat \<Rightarrow> code_points \<Rightarrow> 'u url_heap \<Rightarrow> 'u url_heap" where
  "set_protocol uc = url_set_part uc Protocol"

definition set_username :: "'u url_crate \<Rightarrow> nat \<Rightarrow> code_points \<Rightarrow> 'u url_heap \<Rightarrow> 'u url_heap" where
  "set_username uc i value' st =
     on_url i (\<lambda>url. if uc_cannot_be_a_base uc url \<or> uc_host_str uc url = None then url
                else uc_quirks_set uc Username value' url) st"

definition set_password :: "'u url_crate \<Rightarrow> nat \<Rightarrow> code_points \<Rightarrow> 'u url_heap \<Rightarrow> 'u url_heap" where
  "set_password uc i value' st =
     on_url i (\<lambda>url. if uc_cannot_be_a_base uc url \<or> uc_host_str uc url = None then url
                else uc_quirks_set uc Password value' url) st"

definition set_host :: "'u url_crate \<Rightarrow> nat \<Rightarrow> code_points \<Rightarrow> 'u url_heap \<Rightarrow> 'u url_heap" where
  "set_host uc = url_set_part uc Host"

definition set_hostname :: "'u url_crate \<Rightarrow> nat \<Rightarrow> code_points \<Rightarrow> 'u url_heap \<Rightarrow> 'u url_heap" where
  "set_hostname uc = url_set_part uc Hostname"

definition set_port :: "'u url_crate \<Rightarrow> nat \<Rightarrow> code_points \<Rightarrow> 'u url_heap \<Rightarrow> 'u url_heap" where
  "set_port uc = url_set_part uc Port"

definition set_pathname :: "'u url_crate \<Rightarrow> nat \<Rightarrow> code_points \<Rightarrow> 'u url_heap \<Rightarrow> 'u url_heap" where
  "set_pathname uc = url_set_part uc Pathname"

definition set_hash :: "'u url_crate \<Rightarrow> nat \<Rightarrow> code_points \<Rightarrow> 'u url_heap \<Rightarrow> 'u url_heap" where
  "set_hash uc = url_set_part uc Hash"

definition set_search :: "'u url_crate \<Rightarrow> nat \<Rightarrow> code_points \<Rightarrow> 'u url_heap \<Rightarrow> 'u url_heap" where
  "set_search uc i value' st =
     (let input = strip_question_mark value'
      in case Option.bind (uh_urls st i) uo_url of
           None \<Rightarrow> st
         | Some _ \<Rightarrow>
             let st1 = url_set_part uc Search i value' st
             in case Option.bind (uh_urls st1 i) uo_query_object of
                  None \<Rightarrow> st1
                | Some p \<Rightarrow>
                    if value' = [] then on_list p (\<lambda>_. []) st1
                    else on_list p (\<lambda>_. uc_urlencoded_parse uc input) st1)"

definition search_params :: "nat \<Rightarrow> 'u url_heap \<Rightarrow> nat option" where
  "search_params i st = Option.bind (uh_urls st i) uo_query_object"

section \<open>Sessions\<close>

datatype url_cmd =
    NewUrl code_points "code_points option"
  | NewParams "params_init option"
  | SetHref nat code_points
  | SetPart url_part nat code_points
  | ParamsAppend nat code_points code_points
  | ParamsDelete nat code_points "code_points option"
  | ParamsSet nat code_points code_points
  | ParamsSort nat

fun set_part :: "'u url_crate \<Rightarrow> url_part \<Rightarrow> nat \<Rightarrow> code_points \<Rightarrow> 'u url_heap \<Rightarrow> 'u url_heap" where
  "set_part uc Protocol = set_protocol uc"
| "set_part uc Username = set_username uc"
| "set_part uc Password = set_password uc"
| "set_part uc Host = set_host uc"
| "set_part uc Hostname = set_hostname uc"
| "set_part uc Port = set_port uc"
| "set_part uc Pathname = set_pathname uc"
| "set_part uc Search = set_search uc"
| "set_part uc Hash = set_hash uc"

fun url_exec :: "'u url_crate \<Rightarrow> url_cmd \<Rightarrow> 'u url_heap \<Rightarrow> 'u url_heap" where
  "url_exec uc (NewUrl url base) st = fst (url_new uc url base st)"
| "url_exec uc (NewParams init) st = fst (params_new uc init st)"
| "url_exec uc (SetHref i v) st = fst (set_href uc i v st)"
| "url_exec uc (SetPart part i v) st = set_part uc part i v st"
| "url_exec uc (ParamsAppend p n v) st = params_append uc p n v st"
| "url_exec uc (ParamsDelete p n v) st = params_delete uc p n v st"
| "url_exec uc (ParamsSet p n v) st = params_set uc p n v st"
| "url_exec uc (ParamsSort p) st = params_sort uc p st"

end
