(* ===== verification/Url_Claims.thy ===== *)
theory Url_Claims
  imports Url_Params
begin

text \<open>
  The properties of search parameters and URLs. The lists of tuples need nothing of the parsing
  crates; that a URL and its search parameters agree rests on the documented laws \<open>url_laws\<close>.
\<close>

section \<open>Sorting\<close>

lemma compare_names_key:
  "compare_names a b = Greater \<longleftrightarrow> encode_utf16 (fst b) < encode_utf16 (fst a)"
  by (simp add: compare_names_def cmp_ascii cmp_list_iff)

text \<open>\<open>sort\<close>, which compares ASCII names by their bytes and other names by their code units, is the
  stable sort of the tuples by the code units of their names.\<close>

theorem sorting_is_by_code_units:
  "list_sort list = sort_key (encode_utf16 \<circ> fst) list"
  unfolding list_sort_def by (rule sort_by_key) (simp add: compare_names_key)

section \<open>Changing lists\<close>

lemma get_all_simps [simp]:
  "list_get_all n [] = []"
  "list_get_all n ((m, v) # l) = (if m = n then v # list_get_all n l else list_get_all n l)"
  "list_get_all n (l @ l') = list_get_all n l @ list_get_all n l'"
  by (simp_all add: list_get_all_def)

lemma get_all_Nil: "list_get_all n l = [] \<longleftrightarrow> (\<forall>(m, v) \<in> set l. m \<noteq> n)"
  by (auto simp: list_get_all_def filter_empty_conv)

lemma list_get_first: "list_get n l = (case list_get_all n l of [] \<Rightarrow> None | v # _ \<Rightarrow> Some v)"
  by (induction l) (auto simp: list_get_def)

lemma list_has_get_all: "list_has n v l \<longleftrightarrow> (case v of None \<Rightarrow> list_get_all n l \<noteq> [] | Some x \<Rightarrow> x \<in> set (list_get_all n l))"
proof (cases v)
  case None
  then show ?thesis by (auto simp: list_has_def list_ex_iff list_get_all_def filter_empty_conv)
next
  case (Some x)
  then show ?thesis by (force simp: list_has_def list_ex_iff list_get_all_def)
qed

lemma get_all_delete:
  "list_get_all n (list_delete m v l) =
     (if n \<noteq> m then list_get_all n l else case v of None \<Rightarrow> [] | Some x \<Rightarrow> filter ((\<noteq>) x) (list_get_all n l))"
  by (induction l) (auto simp: list_delete_def split: option.splits)

lemma get_all_filter: "list_get_all n (filter (\<lambda>x. \<not> (case x of (k, _) \<Rightarrow> k = m)) l) = (if n = m then [] else list_get_all n l)"
  by (induction l) auto

lemma get_all_set: "list_get_all n (list_set m v l) = (if n = m then [v] else list_get_all n l)"
proof (cases "position (\<lambda>(k, _). k = m) l")
  case None
  then have "list_get_all m l = []" by (auto simp: get_all_Nil)
  with None show ?thesis by (simp add: list_set_def del: position_None)
next
  case (Some i)
  let ?p = "\<lambda>(k, _). k = m"
  obtain w where w: "l ! i = (m, w)" and i: "i < length l" "\<forall>j < i. \<not> ?p (l ! j)"
    using Some by (cases "l ! i") (auto simp: position_Some)
  have l: "l = take i l @ (m, w) # drop (Suc i) l" using i(1) w by (metis id_take_nth_drop)
  have "l[i := (m, v)] = take i l @ (m, v) # drop (Suc i) l" using i(1) by (simp add: upd_conv_take_nth_drop)
  moreover have before: "\<forall>x \<in> set (take i l). \<not> ?p x"
  proof
    fix x
    assume "x \<in> set (take i l)"
    then obtain j where j: "j < i" "x = l ! j" by (auto simp: in_set_conv_nth)
    show "\<not> ?p x" unfolding j(2) by (rule i(2) [rule_format, OF j(1)])
  qed
  ultimately have s: "list_set m v l = take i l @ (m, v) # filter (\<lambda>x. \<not> ?p x) (drop (Suc i) l)"
    using retain_first_split [OF before, of "(m, v)" "drop (Suc i) l"] Some w by (simp add: list_set_def)
  have "list_get_all m (take i l) = []" using before by (auto simp: get_all_Nil)
  then show ?thesis unfolding s by (subst (2) l) (simp add: get_all_filter)
qed

text \<open>What \<open>append\<close>, \<open>delete\<close>, \<open>set\<close> and \<open>sort\<close> do is what \<open>getAll\<close> reads for every name, and \<open>get\<close>
  and \<open>has\<close> answer by the values \<open>getAll\<close> gives.\<close>

theorem changes_of_params_are_read_back:
  "list_get_all n (list_append m v l) = list_get_all n l @ (if n = m then [v] else []) \<and>
   list_get_all n (list_delete m x l) =
     (if n \<noteq> m then list_get_all n l else case x of None \<Rightarrow> [] | Some w \<Rightarrow> filter ((\<noteq>) w) (list_get_all n l)) \<and>
   list_get_all n (list_set m v l) = (if n = m then [v] else list_get_all n l) \<and>
   list_get_all n (list_sort l) = list_get_all n l \<and>
   list_get n l = (case list_get_all n l of [] \<Rightarrow> None | w # _ \<Rightarrow> Some w) \<and>
   (list_has n x l \<longleftrightarrow>
     (case x of None \<Rightarrow> list_get_all n l \<noteq> [] | Some w \<Rightarrow> w \<in> set (list_get_all n l)))"
proof -
  have eq: "(\<lambda>p. fst p = n) = (\<lambda>p. fst p = n \<and> (encode_utf16 \<circ> fst) p = encode_utf16 n)" by auto
  have "filter (\<lambda>p. fst p = n) (list_sort l) =
      filter (\<lambda>p. fst p = n) (filter (\<lambda>p. (encode_utf16 \<circ> fst) p = encode_utf16 n) (sort_key (encode_utf16 \<circ> fst) l))"
    by (subst eq) (simp add: filter_filter conj_commute sort_by_key [of compare_names "encode_utf16 \<circ> fst"] list_sort_def compare_names_key conj_commute)
  also have "\<dots> = filter (\<lambda>p. fst p = n) (filter (\<lambda>p. (encode_utf16 \<circ> fst) p = encode_utf16 n) l)"
    by (simp only: sort_key_stable)
  also have "\<dots> = filter (\<lambda>p. fst p = n) l" by (subst filter_filter) (rule filter_cong, auto)
  finally have "list_get_all n (list_sort l) = list_get_all n l" by (simp add: list_get_all_def case_prod_unfold)
  then show ?thesis
    by (simp add: list_append_def get_all_delete get_all_set list_has_get_all flip: list_get_first)
qed

section \<open>URLs and their search parameters\<close>

text \<open>
  The documented behaviour of the crates: setting the query to a serialization sets it, parsing
  undoes serializing, the other setters leave the query, and \<open>set_search\<close> sets a query that
  parses as the text it is given, unless that has tabs or newlines, which the URL parser removes.
\<close>

definition query_list :: "'u url_crate \<Rightarrow> 'u \<Rightarrow> tuples" where
  "query_list uc u = (case uc_query uc u of None \<Rightarrow> [] | Some q \<Rightarrow> uc_urlencoded_parse uc q)"

definition no_tab_or_newline :: "code_points \<Rightarrow> bool" where
  "no_tab_or_newline v \<longleftrightarrow> list_all (\<lambda>c. c \<notin> {9, 10, 13}) v"

definition url_laws :: "'u url_crate \<Rightarrow> bool" where
  "url_laws uc \<longleftrightarrow>
     (\<forall>u. uc_query uc (uc_set_query uc None u) = None) \<and>
     (\<forall>l u. uc_query uc (uc_set_query uc (Some (uc_urlencoded_serialize uc l)) u) = Some (uc_urlencoded_serialize uc l)) \<and>
     (\<forall>l. uc_urlencoded_parse uc (uc_urlencoded_serialize uc l) = l) \<and>
     uc_urlencoded_parse uc [] = [] \<and>
     (\<forall>part v u. part \<noteq> Search \<longrightarrow> uc_query uc (uc_quirks_set uc part v u) = uc_query uc u) \<and>
     (\<forall>v u. no_tab_or_newline v \<longrightarrow> query_list uc (uc_quirks_set uc Search v u) =
       (if v = [] then [] else uc_urlencoded_parse uc (strip_question_mark v)))"

text \<open>
  Every URL object has a record and a query object that refers back and holds the tuples of the
  query, and search parameters that refer to a URL are its query object.
\<close>

definition url_agrees :: "'u url_crate \<Rightarrow> 'u url_heap \<Rightarrow> nat \<Rightarrow> 'u url_object \<Rightarrow> bool" where
  "url_agrees uc st i o' \<longleftrightarrow>
     (\<exists>u p sp. uo_url o' = Some u \<and> uo_query_object o' = Some p \<and> uh_params st p = Some sp \<and>
       sp_url_object sp = Some i \<and> sp_list sp = query_list uc u)"

definition urls_ok :: "'u url_crate \<Rightarrow> 'u url_heap \<Rightarrow> bool" where
  "urls_ok uc st \<longleftrightarrow>
     (\<forall>i o'. uh_urls st i = Some o' \<longrightarrow> i < uh_next st \<and> url_agrees uc st i o') \<and>
     (\<forall>p sp. uh_params st p = Some sp \<longrightarrow> p < uh_next st \<and>
       (\<forall>i. sp_url_object sp = Some i \<longrightarrow>
         (\<exists>o'. uh_urls st i = Some o' \<and> uo_query_object o' = Some p)))"

lemma urls_okD:
  assumes "urls_ok uc st"
  shows "uh_urls st i = Some o' \<Longrightarrow> i < uh_next st \<and> url_agrees uc st i o'"
    "uh_params st p = Some sp \<Longrightarrow> p < uh_next st"
    "uh_params st p = Some sp \<Longrightarrow> sp_url_object sp = Some i \<Longrightarrow>
       \<exists>o'. uh_urls st i = Some o' \<and> uo_query_object o' = Some p"
  using assms unfolding urls_ok_def by blast+

lemma urls_okI:
  assumes "\<And>i o'. uh_urls st i = Some o' \<Longrightarrow> i < uh_next st"
    "\<And>i o'. uh_urls st i = Some o' \<Longrightarrow> url_agrees uc st i o'"
    "\<And>p sp. uh_params st p = Some sp \<Longrightarrow> p < uh_next st"
    "\<And>p sp i. uh_params st p = Some sp \<Longrightarrow> sp_url_object sp = Some i \<Longrightarrow>
       \<exists>o'. uh_urls st i = Some o' \<and> uo_query_object o' = Some p"
  shows "urls_ok uc st"
  using assms unfolding urls_ok_def by blast

text \<open>Two objects that refer to each other change together.\<close>

definition change_both :: "nat \<Rightarrow> 'u \<Rightarrow> nat \<Rightarrow> tuples \<Rightarrow> 'u url_heap \<Rightarrow> 'u url_heap" where
  "change_both i u p l st = on_url i (\<lambda>_. u) (on_list p (\<lambda>_. l) st)"

lemma change_both_ok:
  assumes ok: "urls_ok uc st" and o: "uh_urls st i = Some o'" "uo_query_object o' = Some p"
    and l: "query_list uc u = l"
  shows "urls_ok uc (change_both i u p l st)"
proof -
  obtain v sp where v: "uo_url o' = Some v" "uh_params st p = Some sp" "sp_url_object sp = Some i"
    using urls_okD(1) [OF ok o(1)] o(2) by (auto simp: url_agrees_def)
  have other: "p' \<noteq> p" if "uh_urls st j = Some x" "j \<noteq> i" "uo_query_object x = Some p'" for j x p'
    using urls_okD(1) [OF ok that(1)] that v by (auto simp: url_agrees_def)
  show ?thesis
    unfolding urls_ok_def
  proof (intro conjI allI impI)
    fix j x
    assume x: "uh_urls (change_both i u p l st) j = Some x"
    show "j < uh_next (change_both i u p l st)"
      using x urls_okD(1) [OF ok, of j] o(1) by (auto simp: change_both_def on_url_def on_list_def split: if_splits)
    show "url_agrees uc (change_both i u p l st) j x"
    proof (cases "j = i")
      case True
      then show ?thesis using x o v l by (auto simp: url_agrees_def change_both_def on_url_def on_list_def)
    next
      case False
      then have xj: "uh_urls st j = Some x" using x by (simp add: change_both_def on_url_def on_list_def)
      from urls_okD(1) [OF ok this] obtain w q sp' where w: "uo_url x = Some w" "uo_query_object x = Some q"
          "uh_params st q = Some sp'" "sp_url_object sp' = Some j" "sp_list sp' = query_list uc w"
        by (auto simp: url_agrees_def)
      with other [OF xj False] have "q \<noteq> p" by blast
      with w show ?thesis by (simp add: url_agrees_def change_both_def on_url_def on_list_def)
    qed
  next
    fix q y
    assume y: "uh_params (change_both i u p l st) q = Some y"
    then obtain y' where y': "uh_params st q = Some y'" "sp_url_object y = sp_url_object y'"
      by (auto simp: change_both_def on_url_def on_list_def split: if_splits)
    show "q < uh_next (change_both i u p l st)"
      using urls_okD(2) [OF ok y'(1)] by (simp add: change_both_def on_url_def on_list_def)
    fix j
    assume "sp_url_object y = Some j"
    then obtain x where "uh_urls st j = Some x" "uo_query_object x = Some q"
      using urls_okD(3) [OF ok y'(1)] y'(2) by auto
    then show "\<exists>x. uh_urls (change_both i u p l st) j = Some x \<and> uo_query_object x = Some q"
      by (auto simp: change_both_def on_url_def on_list_def)
  qed
qed

lemma free_list_ok:
  assumes ok: "urls_ok uc st" and p: "uh_params st p = Some sp" "sp_url_object sp = None"
  shows "urls_ok uc (on_list p f st)"
  unfolding urls_ok_def
proof (intro conjI allI impI)
  fix j x
  assume x: "uh_urls (on_list p f st) j = Some x"
  then have "uh_urls st j = Some x" by (simp add: on_list_def)
  from urls_okD(1) [OF ok this] obtain u q sp' where u: "j < uh_next st" "uo_url x = Some u"
      "uo_query_object x = Some q" "uh_params st q = Some sp'" "sp_url_object sp' = Some j"
      "sp_list sp' = query_list uc u"
    by (auto simp: url_agrees_def)
  then have "q \<noteq> p" using p by auto
  with u show "j < uh_next (on_list p f st)" "url_agrees uc (on_list p f st) j x"
    by (simp_all add: url_agrees_def on_list_def)
next
  fix q y
  assume y: "uh_params (on_list p f st) q = Some y"
  then obtain y' where y': "uh_params st q = Some y'" "sp_url_object y = sp_url_object y'"
    using p by (auto simp: on_list_def split: if_splits)
  show "q < uh_next (on_list p f st)" using urls_okD(2) [OF ok y'(1)] by (simp add: on_list_def)
  fix i
  assume "sp_url_object y = Some i"
  then show "\<exists>x. uh_urls (on_list p f st) i = Some x \<and> uo_query_object x = Some q"
    using urls_okD(3) [OF ok y'(1)] y'(2) by (auto simp: on_list_def)
qed

lemma no_object [simp]: "uh_params st p = None \<Longrightarrow> on_list p f st = st"
  by (simp add: on_list_def fun_upd_idem)

lemma no_url [simp]: "uh_urls st i = None \<Longrightarrow> on_url i f st = st"
  by (simp add: on_url_def fun_upd_idem)

lemma url_of:
  assumes "urls_ok uc st" "uh_urls st i = Some o'"
  obtains u p sp where "o' = \<lparr>uo_url = Some u, uo_query_object = Some p\<rparr>" "uh_params st p = Some sp"
    "sp_url_object sp = Some i" "sp_list sp = query_list uc u"
  using urls_okD(1) [OF assms] by (cases o') (auto simp: url_agrees_def)

text \<open>A change of the record that keeps its query, as the other setters make.\<close>

lemma on_url_ok:
  assumes ok: "urls_ok uc st" and f: "\<And>u. query_list uc (f u) = query_list uc u"
  shows "urls_ok uc (on_url i f st)"
proof (cases "uh_urls st i")
  case None
  then show ?thesis using ok by simp
next
  case (Some o')
  obtain u p sp where u: "o' = \<lparr>uo_url = Some u, uo_query_object = Some p\<rparr>" "uh_params st p = Some sp"
      "sp_url_object sp = Some i" "sp_list sp = query_list uc u"
    using url_of [OF ok Some] by blast
  have "sp\<lparr>sp_list := sp_list sp\<rparr> = sp" by simp
  then have "on_url i f st = change_both i (f u) p (sp_list sp) st"
    using Some u(1,2) by (simp add: change_both_def on_url_def on_list_def fun_upd_idem)
  then show ?thesis
    using change_both_ok [OF ok Some, of p "f u" "sp_list sp"] u f by simp
qed

lemma params_change_ok:
  assumes ok: "urls_ok uc st" and laws: "url_laws uc"
  shows "urls_ok uc (params_update uc p (on_list p f st))"
proof (cases "uh_params st p")
  case None
  then show ?thesis using ok by (simp add: params_update_def)
next
  case (Some sp)
  show ?thesis
  proof (cases "sp_url_object sp")
    case None
    then show ?thesis using Some free_list_ok [OF ok Some] by (simp add: params_update_def on_list_def)
  next
    case (Some i)
    then obtain o' where o: "uh_urls st i = Some o'" "uo_query_object o' = Some p"
      using urls_okD(3) [OF ok \<open>uh_params st p = Some sp\<close>] by blast
    obtain u where u: "o' = \<lparr>uo_url = Some u, uo_query_object = Some p\<rparr>"
      using url_of [OF ok o(1)] o(2) by (metis option.inject url_object.ext_inject url_object.surjective)
    let ?l = "f (sp_list sp)"
    let ?s = "uc_urlencoded_serialize uc ?l"
    let ?u = "set_serialized_query uc (if ?s = [] then None else Some ?s) u"
    have "?l = []" if "?s = []"
    proof -
      have "?l = uc_urlencoded_parse uc ?s" using laws by (simp add: url_laws_def)
      also have "\<dots> = []" using laws that by (simp add: url_laws_def)
      finally show ?thesis .
    qed
    then have "query_list uc ?u = ?l"
      using laws by (cases "?s = []") (simp_all add: query_list_def set_serialized_query_def Let_def url_laws_def)
    moreover have "params_update uc p (on_list p f st) = change_both i ?u p ?l st"
      using Some \<open>uh_params st p = Some sp\<close> o(1) u
      by (simp add: params_update_def change_both_def on_list_def on_url_def Let_def)
    ultimately show ?thesis using change_both_ok [OF ok o, of ?u ?l] by simp
  qed
qed

lemma set_search_ok:
  assumes ok: "urls_ok uc st" and laws: "url_laws uc" and v: "no_tab_or_newline v"
  shows "urls_ok uc (set_search uc i v st)"
proof (cases "uh_urls st i")
  case None
  then show ?thesis using ok by (simp add: set_search_def)
next
  case (Some o')
  obtain u p sp where u: "o' = \<lparr>uo_url = Some u, uo_query_object = Some p\<rparr>" "uh_params st p = Some sp"
      "sp_url_object sp = Some i" "sp_list sp = query_list uc u"
    using url_of [OF ok Some] by blast
  let ?l = "if v = [] then [] else uc_urlencoded_parse uc (strip_question_mark v)"
  have "set_search uc i v st = change_both i (uc_quirks_set uc Search v u) p ?l st"
    using Some u by (simp add: set_search_def url_set_part_def change_both_def on_url_def on_list_def Let_def)
  then show ?thesis
    using change_both_ok [OF ok Some, of p "uc_quirks_set uc Search v u" ?l] u laws v by (simp add: url_laws_def)
qed

lemma set_href_ok:
  assumes ok: "urls_ok uc st"
  shows "urls_ok uc (fst (set_href uc i v st))"
proof (cases "basic_url_parser uc v None")
  case None
  then show ?thesis using ok by (simp add: set_href_def)
next
  case parsed: (Some w)
  show ?thesis
  proof (cases "uh_urls st i")
    case None
    then show ?thesis using ok parsed by (simp add: set_href_def fun_upd_idem)
  next
    case (Some o')
    obtain u p sp where u: "o' = \<lparr>uo_url = Some u, uo_query_object = Some p\<rparr>" "uh_params st p = Some sp"
        "sp_url_object sp = Some i" "sp_list sp = query_list uc u"
      using url_of [OF ok Some] by blast
    have "fst (set_href uc i v st) = change_both i w p (query_list uc w) st"
      using Some u parsed
      by (simp add: set_href_def change_both_def on_url_def on_list_def Let_def query_list_def split: option.split)
    then show ?thesis using change_both_ok [OF ok Some, of p w "query_list uc w"] u by simp
  qed
qed

lemma url_new_ok:
  assumes ok: "urls_ok uc st" and laws: "url_laws uc"
  shows "urls_ok uc (fst (url_new uc url base st))"
proof (cases "api_url_parser uc url base")
  case None
  then show ?thesis using ok by (simp add: url_new_def)
next
  case (Some u)
  let ?n = "uh_next st" and ?p = "Suc (uh_next st)"
  let ?st = "st\<lparr>uh_next := Suc ?p,
    uh_urls := (uh_urls st)(?n \<mapsto> \<lparr>uo_url = Some u, uo_query_object = Some ?p\<rparr>),
    uh_params := (uh_params st)(?p \<mapsto> \<lparr>sp_list = query_list uc u, sp_url_object = Some ?n\<rparr>)\<rparr>"
  have old: "\<And>i o'. uh_urls st i = Some o' \<Longrightarrow> i < ?n" "\<And>p sp. uh_params st p = Some sp \<Longrightarrow> p < ?n"
    using urls_okD(1,2) [OF ok] by blast+
  have "url_agrees uc ?st i o'" if "uh_urls ?st i = Some o'" for i o'
  proof (cases "i = ?n")
    case True
    then show ?thesis using that by (auto simp: url_agrees_def)
  next
    case False
    then have "uh_urls st i = Some o'" using that by simp
    then show ?thesis using urls_okD(1) [OF ok] old(2) by (fastforce simp: url_agrees_def)
  qed
  moreover have "\<exists>o'. uh_urls ?st i = Some o' \<and> uo_query_object o' = Some p"
    if "uh_params ?st p = Some sp" "sp_url_object sp = Some i" for p sp i
  proof (cases "p = ?p")
    case True
    then show ?thesis using that by auto
  next
    case False
    then have "uh_params st p = Some sp" using that(1) by simp
    from urls_okD(3) [OF ok this that(2)] obtain o' where "uh_urls st i = Some o'" "uo_query_object o' = Some p"
      by blast
    with old(1) show ?thesis by fastforce
  qed
  moreover have "i < uh_next ?st" if "uh_urls ?st i = Some o'" for i o'
    using that old(1) by (fastforce split: if_splits)
  moreover have "p < uh_next ?st" if "uh_params ?st p = Some sp" for p sp
    using that old(2) by (fastforce split: if_splits)
  ultimately have "urls_ok uc ?st" by (intro urls_okI)
  moreover have "uc_urlencoded_parse uc (case uc_query uc u of Some q \<Rightarrow> q | None \<Rightarrow> []) = query_list uc u"
    using laws by (simp add: query_list_def url_laws_def split: option.split)
  ultimately show ?thesis using Some by (simp add: url_new_def initialize_with_url_record_def Let_def)
qed

lemma params_new_ok:
  assumes ok: "urls_ok uc st"
  shows "urls_ok uc (fst (params_new uc init st))"
proof (cases "params_list uc init")
  case (Inl e)
  then show ?thesis using ok by (simp add: params_new_def)
next
  case (Inr l)
  let ?n = "uh_next st"
  let ?st = "st\<lparr>uh_params := (uh_params st)(?n \<mapsto> \<lparr>sp_list = l, sp_url_object = None\<rparr>), uh_next := Suc ?n\<rparr>"
  have "url_agrees uc ?st i o'" "i < Suc ?n" if "uh_urls st i = Some o'" for i o'
    using urls_okD(1) [OF ok that] urls_okD(2) [OF ok] unfolding url_agrees_def by fastforce+
  moreover have "p < uh_next ?st" if "uh_params ?st p = Some sp" for p sp
    using that urls_okD(2) [OF ok] by (fastforce split: if_splits)
  moreover have "\<exists>o'. uh_urls ?st i = Some o' \<and> uo_query_object o' = Some p"
    if "uh_params ?st p = Some sp" "sp_url_object sp = Some i" for p sp i
    using that urls_okD(3) [OF ok] by (fastforce split: if_splits)
  ultimately have "urls_ok uc ?st" by (intro urls_okI) simp_all
  then show ?thesis using Inr by (simp add: params_new_def Let_def)
qed

fun tidy :: "url_cmd \<Rightarrow> bool" where
  "tidy (SetPart Search i v) = no_tab_or_newline v"
| "tidy c = True"

lemmas setters = set_protocol_def set_username_def set_password_def set_host_def set_hostname_def
  set_port_def set_pathname_def set_hash_def url_set_part_def

lemma url_exec_ok:
  assumes ok: "urls_ok uc st" and laws: "url_laws uc" and c: "tidy c"
  shows "urls_ok uc (url_exec uc c st)"
proof (cases c)
  case (SetPart part i v)
  have keeps: "query_list uc (uc_quirks_set uc part v u) = query_list uc u" if "part \<noteq> Search" for u
    using laws that by (simp add: url_laws_def query_list_def)
  show ?thesis
    using SetPart c keeps set_search_ok [OF ok laws]
    by (cases part) (auto simp: setters intro!: on_url_ok [OF ok])
qed (use ok laws in \<open>simp_all add: url_new_ok params_new_ok set_href_ok params_change_ok
      params_append_def params_delete_def params_set_def params_sort_def\<close>)

text \<open>C40: whatever scripts do to URLs and search parameters, every URL has search parameters that refer
  back to it and hold the tuples of its query, if the crates behave as documented and no text with
  tabs or newlines is assigned to \<open>search\<close>. So \<open>searchParams\<close> always finds its object.\<close>

theorem search_params_follow_the_url:
  assumes laws: "url_laws uc" and cmds: "list_all tidy cmds"
    and url: "uh_urls (fold (url_exec uc) cmds url_heap_empty) i = Some o'"
  shows "\<exists>u p sp. uo_url o' = Some u \<and>
    search_params i (fold (url_exec uc) cmds url_heap_empty) = Some p \<and>
    uh_params (fold (url_exec uc) cmds url_heap_empty) p = Some sp \<and> sp_url_object sp = Some i \<and>
    sp_list sp = (case uc_query uc u of None \<Rightarrow> [] | Some q \<Rightarrow> uc_urlencoded_parse uc q)"
proof -
  have "urls_ok uc (fold (url_exec uc) cmds st)" if "urls_ok uc st" for st
    using that cmds by (induction cmds arbitrary: st) (simp_all add: url_exec_ok [OF _ laws])
  moreover have "urls_ok uc url_heap_empty" by (simp add: urls_ok_def url_heap_empty_def)
  ultimately have "url_agrees uc (fold (url_exec uc) cmds url_heap_empty) i o'" using urls_okD(1) url by blast
  then show ?thesis using url by (auto simp: url_agrees_def search_params_def query_list_def)
qed

text \<open>A small crate that keeps the laws: a record is a query and a path, a serialization has the length before
  each name and value.\<close>

function example_urlencoded_parse :: "code_points \<Rightarrow> tuples" where
  "example_urlencoded_parse [] = []"
| "example_urlencoded_parse (n # s) =
     (case drop n s of [] \<Rightarrow> [] | m # t \<Rightarrow> (take n s, take m t) # example_urlencoded_parse (drop m t))"
  by pat_completeness auto
termination
  by (relation "measure length") (auto dest!: arg_cong [of _ _ length])

definition example_crate :: "(code_points option \<times> code_points) url_crate" where
  "example_crate =
     \<lparr>uc_parse = (\<lambda>s. if s = [] then None else Some (None, s)),
      uc_join = (\<lambda>u s. Some (None, s)),
      uc_as_str = snd,
      uc_query = fst,
      uc_set_query = (\<lambda>q u. (q, snd u)),
      uc_path = snd,
      uc_set_path = (\<lambda>p u. (fst u, p)),
      uc_cannot_be_a_base = (\<lambda>u. False),
      uc_host_str = (\<lambda>u. None),
      uc_quirks_get = (\<lambda>part u. snd u),
      uc_quirks_set = (\<lambda>part v u. if part = Search then (if v = [] then None else Some (strip_question_mark v), snd u)
                         else u),
      uc_urlencoded_parse = example_urlencoded_parse,
      uc_urlencoded_serialize = (\<lambda>l. concat (map (\<lambda>(n, v). length n # n @ length v # v) l))\<rparr>"

lemma example_crate_laws: "url_laws example_crate"
proof -
  have "example_urlencoded_parse (concat (map (\<lambda>(n, v). length n # n @ length v # v) l)) = l" for l
    by (induction l) auto
  then show ?thesis by (simp add: url_laws_def example_crate_def query_list_def)
qed

lemma search_params_follow_the_url_witness:
  "search_params 0 (fold (url_exec example_crate) [NewUrl [97] None, ParamsAppend 1 [98] [99]] url_heap_empty) = Some 1"
proof -
  let ?cmds = "[NewUrl [97] None, ParamsAppend 1 [98] [99]]"
  obtain o' where "uh_urls (fold (url_exec example_crate) ?cmds url_heap_empty) 0 = Some o'" "uo_query_object o' = Some 1"
    by (simp add: example_crate_def url_heap_empty_def url_new_def api_url_parser_def basic_url_parser_def
        initialize_with_url_record_def params_append_def params_update_def on_list_def on_url_def Let_def)
  then show ?thesis
    using search_params_follow_the_url [OF example_crate_laws, of ?cmds 0 o'] by (auto simp: search_params_def)
qed

section \<open>Iteration\<close>

text \<open>Reading the tuples of search parameters meets the contract of \<open>forEach\<close>.\<close>

interpretation params_pairs: pair_iterable params_pair_at sp_list "\<lambda>_. True"
  by unfold_locales (simp add: params_pair_at_def)

text \<open>\<open>forEach\<close> over search parameters with a callback that leaves them alone returns and calls back
  once for each tuple, in order.\<close>

theorem for_each_visits_the_tuples:
  assumes "length (sp_list sp) < fuel"
  shows "wp (for_each_pair fuel (\<lambda>i. logged (params_pair_at i)) logging 0 (sp, [])) (\<lambda>((sp', calls), r).
    r = Some (Inr ()) \<and> calls = sp_list sp \<and> sp_list sp' = sp_list sp)"
  using params_pairs.for_each_visits [of sp 0 fuel "[]"] assms by (auto elim: wp_mono)

lemma for_each_visits_the_tuples_witness:
  "\<exists>sp'. for_each_pair 2 (\<lambda>i. logged (params_pair_at i)) logging 0 (\<lparr>sp_list = [([97], [98])], sp_url_object = None\<rparr>, []) =
     Some ((sp', [([97], [98])]), Some (Inr ()))"
  using for_each_visits_the_tuples [of "\<lparr>sp_list = [([97], [98])], sp_url_object = None\<rparr>" 2]
  by (auto elim!: wpE)

end
