(* ===== verification/Gc_Pool.thy ===== *)
theory Gc_Pool
  imports Prelude "HOL-Library.Word"
begin

text \<open>
  The allocator of GC root handles, \<open>crates/js/src/gc/pool.rs\<close>, and the scopes that root through it,
  \<open>gc/scope.rs\<close>. Boxed pages and private allocations live in a memory and are known by their
  addresses; a pointer to a slot is a page and an index. A failing \<open>debug_assert!\<close>, \<open>unwrap\<close> or index,
  and the use of a box that was freed, are \<open>None\<close>.

  What a root tracer of the engine does with a slot is the parameter \<open>mv\<close>: the collector may move the
  thing the slot refers to and writes its new address.
\<close>

section \<open>Memory\<close>

datatype slot_tag =
  TagObject | TagValue | TagString | TagScript | TagId | TagSymbol | TagFunction | TagBigInt

type_synonym word64 = "64 word"

abbreviation page_size :: nat where
  "page_size \<equiv> 128"

record page =
  pg_tags :: "nat \<Rightarrow> slot_tag"
  pg_values :: "nat \<Rightarrow> word64"

type_synonym slot = "nat \<times> nat"

text \<open>\<open>PrivatePages\<close>: \<open>next\<close> and \<open>prev\<close> link the live ones.\<close>

record private_pages =
  pp_current_page :: "nat option"
  pp_cursor :: nat
  pp_full_pages :: "nat list"
  pp_next :: "nat option"
  pp_prev :: "nat option"
  pp_active :: bool

record level =
  lv_base :: nat
  lv_alive :: bool

record handle_pool =
  hp_stack :: "nat list"
  hp_top :: nat
  hp_levels :: "level list"
  hp_freelist :: "nat list"
  hp_active_head :: "nat option"
  hp_alloc_freelist :: "nat list"
  hp_root_tracers :: "nat list"

text \<open>The pool with the memory it uses: the pages, and the boxes of private pages that are not freed.\<close>

record gc = handle_pool +
  g_pages :: "nat \<Rightarrow> page"
  g_next_page :: nat
  g_private :: "nat \<Rightarrow> private_pages option"
  g_next_private :: nat

definition page_new :: page where
  "page_new = \<lparr>pg_tags = (\<lambda>_. TagObject), pg_values = (\<lambda>_. 0)\<rparr>"

text \<open>\<open>Box::new(Page::new())\<close>.\<close>

definition box_page :: "gc \<Rightarrow> gc \<times> nat" where
  "box_page g =
     (g\<lparr>g_pages := (g_pages g)(g_next_page g := page_new), g_next_page := Suc (g_next_page g)\<rparr>,
      g_next_page g)"

definition write_slot :: "slot \<Rightarrow> slot_tag \<Rightarrow> word64 \<Rightarrow> gc \<Rightarrow> gc" where
  "write_slot p tag value g =
     g\<lparr>g_pages := (g_pages g)(fst p :=
        \<lparr>pg_tags = (pg_tags (g_pages g (fst p)))(snd p := tag),
         pg_values = (pg_values (g_pages g (fst p)))(snd p := value)\<rparr>)\<rparr>"

definition read_slot :: "gc \<Rightarrow> slot \<Rightarrow> slot_tag \<times> word64" where
  "read_slot g p = (pg_tags (g_pages g (fst p)) (snd p), pg_values (g_pages g (fst p)) (snd p))"

text \<open>A write through a pointer to private pages.\<close>

definition on_private :: "nat \<Rightarrow> (private_pages \<Rightarrow> private_pages) \<Rightarrow> gc \<Rightarrow> gc option" where
  "on_private a f g =
     do { pp \<leftarrow> g_private g a; Some (g\<lparr>g_private := (g_private g)(a \<mapsto> f pp)\<rparr>) }"

section \<open>The pool\<close>

definition pool_new :: gc where
  "pool_new =
     \<lparr>hp_stack = [], hp_top = 0, hp_levels = [], hp_freelist = [], hp_active_head = None,
      hp_alloc_freelist = [], hp_root_tracers = [], g_pages = (\<lambda>_. page_new), g_next_page = 0,
      g_private = (\<lambda>_. None), g_next_private = 0\<rparr>"

definition push_level :: "gc \<Rightarrow> gc \<times> nat" where
  "push_level g =
     (g\<lparr>hp_levels := hp_levels g @ [\<lparr>lv_base = hp_top g, lv_alive = True\<rparr>]\<rparr>, length (hp_levels g))"

definition is_innermost :: "nat \<Rightarrow> gc \<Rightarrow> bool option" where
  "is_innermost level g =
     do { require (hp_levels g \<noteq> []); Some (level = length (hp_levels g) - 1) }"

text \<open>The loop of \<open>pop_level\<close>, from the last level down.\<close>

fun pop_dead :: "level list \<Rightarrow> nat \<Rightarrow> level list \<times> nat" where
  "pop_dead [] h = ([], h)"
| "pop_dead (l # levels) h = (if lv_alive l then (l # levels, h) else pop_dead levels (lv_base l))"

definition pop_level :: "nat \<Rightarrow> gc \<Rightarrow> gc option" where
  "pop_level level g =
     do {
       require (level < length (hp_levels g));
       let levels = (hp_levels g)[level := (hp_levels g ! level)\<lparr>lv_alive := False\<rparr>];
       let (rest, h) = pop_dead (rev levels) (hp_top g);
       Some (g\<lparr>hp_levels := rev rest, hp_top := h\<rparr>)
     }"

definition grow_stack :: "gc \<Rightarrow> gc" where
  "grow_stack g = (let (g1, p) = box_page g in g1\<lparr>hp_stack := hp_stack g1 @ [p]\<rparr>)"

definition stack_alloc :: "slot_tag \<Rightarrow> word64 \<Rightarrow> gc \<Rightarrow> (gc \<times> slot) option" where
  "stack_alloc tag value g =
     do {
       let index = hp_top g;
       let page_index = index div page_size;
       let g1 = (if page_index = length (hp_stack g) then grow_stack g else g);
       require (page_index < length (hp_stack g1));
       let slot = (hp_stack g1 ! page_index, index mod page_size);
       Some ((write_slot slot tag value g1)\<lparr>hp_top := index + 1\<rparr>, slot)
     }"

definition take_page :: "gc \<Rightarrow> gc \<times> nat" where
  "take_page g =
     (if hp_freelist g = [] then box_page g
      else (g\<lparr>hp_freelist := butlast (hp_freelist g)\<rparr>, last (hp_freelist g)))"

definition return_page :: "nat \<Rightarrow> gc \<Rightarrow> gc" where
  "return_page p g = g\<lparr>hp_freelist := hp_freelist g @ [p]\<rparr>"

definition take_alloc :: "gc \<Rightarrow> gc \<times> nat option" where
  "take_alloc g =
     (if hp_alloc_freelist g = [] then (g, None)
      else (g\<lparr>hp_alloc_freelist := butlast (hp_alloc_freelist g)\<rparr>, Some (last (hp_alloc_freelist g))))"

definition max_free_allocs :: nat where
  "max_free_allocs = 32"

text \<open>A box that is not kept is dropped; its \<open>drop\<close> releases nothing, since it is not active.\<close>

definition return_alloc :: "nat \<Rightarrow> gc \<Rightarrow> gc option" where
  "return_alloc a g =
     do {
       pp \<leftarrow> g_private g a;
       require (\<not> pp_active pp);
       Some (if length (hp_alloc_freelist g) < max_free_allocs
             then g\<lparr>hp_alloc_freelist := hp_alloc_freelist g @ [a]\<rparr>
             else g\<lparr>g_private := (g_private g)(a := None)\<rparr>)
     }"

definition register :: "nat \<Rightarrow> gc \<Rightarrow> gc option" where
  "register a g =
     do {
       let head = hp_active_head g;
       g1 \<leftarrow> on_private a (\<lambda>pp. pp\<lparr>pp_next := head, pp_prev := None\<rparr>) g;
       g2 \<leftarrow> (case head of None \<Rightarrow> Some g1 | Some h \<Rightarrow> on_private h (\<lambda>pp. pp\<lparr>pp_prev := Some a\<rparr>) g1);
       Some (g2\<lparr>hp_active_head := Some a\<rparr>)
     }"

definition unregister :: "nat \<Rightarrow> gc \<Rightarrow> gc option" where
  "unregister a g =
     do {
       pp \<leftarrow> g_private g a;
       let prev = pp_prev pp;
       let next' = pp_next pp;
       g1 \<leftarrow> (case prev of
               Some q \<Rightarrow> on_private q (\<lambda>pp. pp\<lparr>pp_next := next'\<rparr>) g
             | None \<Rightarrow> Some (g\<lparr>hp_active_head := next'\<rparr>));
       case next' of
         Some n \<Rightarrow> on_private n (\<lambda>pp. pp\<lparr>pp_prev := prev\<rparr>) g1
       | None \<Rightarrow> Some g1
     }"

definition add_root_tracer :: "nat \<Rightarrow> gc \<Rightarrow> gc" where
  "add_root_tracer tracer g =
     (if tracer \<in> set (hp_root_tracers g) then g
      else g\<lparr>hp_root_tracers := hp_root_tracers g @ [tracer]\<rparr>)"

section \<open>Private pages\<close>

definition private_pages_new :: "gc \<Rightarrow> (gc \<times> nat) option" where
  "private_pages_new g =
     do {
       let (g1, taken) = take_alloc g;
       let (g2, a) =
         (case taken of
            Some a \<Rightarrow> (g1, a)
          | None \<Rightarrow>
              (g1\<lparr>g_private := (g_private g1)(g_next_private g1 \<mapsto>
                   \<lparr>pp_current_page = None, pp_cursor = 0, pp_full_pages = [], pp_next = None,
                    pp_prev = None, pp_active = False\<rparr>),
                  g_next_private := Suc (g_next_private g1)\<rparr>, g_next_private g1));
       pp \<leftarrow> g_private g2 a;
       require (\<not> pp_active pp \<and> pp_current_page pp = None \<and> pp_full_pages pp = []);
       g3 \<leftarrow> on_private a (\<lambda>pp. pp\<lparr>pp_cursor := 0, pp_active := True\<rparr>) g2;
       g4 \<leftarrow> register a g3;
       Some (g4, a)
     }"

definition release :: "nat \<Rightarrow> gc \<Rightarrow> gc option" where
  "release a g =
     do {
       pp \<leftarrow> g_private g a;
       if \<not> pp_active pp then Some g
       else do {
         g1 \<leftarrow> on_private a (\<lambda>pp. pp\<lparr>pp_active := False\<rparr>) g;
         g2 \<leftarrow> unregister a g1;
         g3 \<leftarrow> on_private a (\<lambda>pp. pp\<lparr>pp_current_page := None\<rparr>) g2;
         let g4 = (case pp_current_page pp of Some p \<Rightarrow> return_page p g3 | None \<Rightarrow> g3);
         g5 \<leftarrow> on_private a (\<lambda>pp. pp\<lparr>pp_full_pages := []\<rparr>) g4;
         Some (fold return_page (pp_full_pages pp) g5)
       }
     }"

definition recycle :: "nat \<Rightarrow> gc \<Rightarrow> gc option" where
  "recycle a g = do { g1 \<leftarrow> release a g; return_alloc a g1 }"

definition private_pages_alloc :: "nat \<Rightarrow> slot_tag \<Rightarrow> word64 \<Rightarrow> gc \<Rightarrow> (gc \<times> slot) option" where
  "private_pages_alloc a tag value g =
     do {
       pp \<leftarrow> g_private g a;
       g1 \<leftarrow> (case pp_current_page pp of
               None \<Rightarrow>
                 (let (g', p) = take_page g
                  in on_private a (\<lambda>pp. pp\<lparr>pp_current_page := Some p\<rparr>) g')
             | Some _ \<Rightarrow> Some g);
       pp1 \<leftarrow> g_private g1 a;
       g2 \<leftarrow> (if pp_cursor pp1 = page_size
             then do {
               full \<leftarrow> pp_current_page pp1;
               let (g', p) = take_page g1;
               on_private a (\<lambda>pp. pp\<lparr>pp_full_pages := pp_full_pages pp @ [full],
                 pp_current_page := Some p, pp_cursor := 0\<rparr>) g'
             }
             else Some g1);
       pp2 \<leftarrow> g_private g2 a;
       page \<leftarrow> pp_current_page pp2;
       require (pp_cursor pp2 < page_size);
       let slot = (page, pp_cursor pp2);
       g3 \<leftarrow> on_private a (\<lambda>pp. pp\<lparr>pp_cursor := pp_cursor pp2 + 1\<rparr>) (write_slot slot tag value g2);
       Some (g3, slot)
     }"

section \<open>Tracing\<close>

type_synonym collector = "slot_tag \<Rightarrow> word64 \<Rightarrow> word64"

text \<open>A null pointer is passed over; a value or an id has no null.\<close>

definition traced_value :: "collector \<Rightarrow> slot_tag \<Rightarrow> word64 \<Rightarrow> word64" where
  "traced_value mv tag value =
     (case tag of
        TagValue \<Rightarrow> mv tag value
      | TagId \<Rightarrow> mv tag value
      | _ \<Rightarrow> if value \<noteq> 0 then mv tag value else value)"

definition trace_slot :: "collector \<Rightarrow> slot \<Rightarrow> gc \<Rightarrow> gc" where
  "trace_slot mv p g = (case read_slot g p of (tag, value) \<Rightarrow> write_slot p tag (traced_value mv tag value) g)"

definition trace_page :: "collector \<Rightarrow> nat \<Rightarrow> nat \<Rightarrow> gc \<Rightarrow> gc" where
  "trace_page mv page count g = fold (\<lambda>i. trace_slot mv (page, i)) [0..<count] g"

definition private_trace :: "collector \<Rightarrow> private_pages \<Rightarrow> gc \<Rightarrow> gc" where
  "private_trace mv pp g =
     (let g1 = fold (\<lambda>page. trace_page mv page page_size) (pp_full_pages pp) g
      in case pp_current_page pp of
           Some page \<Rightarrow> trace_page mv page (pp_cursor pp) g1
         | None \<Rightarrow> g1)"

text \<open>The pages of the root stack, in order, up to the top.\<close>

fun trace_stack :: "collector \<Rightarrow> nat \<Rightarrow> nat \<Rightarrow> nat list \<Rightarrow> gc \<Rightarrow> gc" where
  "trace_stack mv h index [] g = g"
| "trace_stack mv h index (page # stack) g =
     (let start = index * page_size
      in if start \<ge> h then g
         else trace_stack mv h (Suc index) stack (trace_page mv page (min (h - start) page_size) g))"

text \<open>The list of live private allocations; without fuel left the loop may not end.\<close>

fun trace_active :: "collector \<Rightarrow> nat \<Rightarrow> nat option \<Rightarrow> gc \<Rightarrow> gc option" where
  "trace_active mv fuel None g = Some g"
| "trace_active mv 0 (Some a) g = None"
| "trace_active mv (Suc fuel) (Some a) g =
     do { pp \<leftarrow> g_private g a; trace_active mv fuel (pp_next pp) (private_trace mv pp g) }"

text \<open>The registered tracers mark other memory; which ran is part of the result.\<close>

definition pool_trace :: "collector \<Rightarrow> gc \<Rightarrow> (gc \<times> nat list) option" where
  "pool_trace mv g =
     do {
       let g1 = trace_stack mv (hp_top g) 0 (hp_stack g) g;
       g2 \<leftarrow> trace_active mv (g_next_private g) (hp_active_head g1) g1;
       Some (g2, hp_root_tracers g1)
     }"

section \<open>Scopes\<close>

record scope_alloc =
  sa_level :: nat
  sa_private :: "nat option"

definition scope_alloc_new :: "gc \<Rightarrow> gc \<times> scope_alloc" where
  "scope_alloc_new g = (let (g1, level) = push_level g in (g1, \<lparr>sa_level = level, sa_private = None\<rparr>))"

definition private_alloc :: "slot_tag \<Rightarrow> word64 \<Rightarrow> scope_alloc \<Rightarrow> gc \<Rightarrow> (gc \<times> scope_alloc \<times> slot) option" where
  "private_alloc tag value sa g =
     do {
       (g1, a) \<leftarrow> (case sa_private sa of Some a \<Rightarrow> Some (g, a) | None \<Rightarrow> private_pages_new g);
       (g2, slot) \<leftarrow> private_pages_alloc a tag value g1;
       Some (g2, sa\<lparr>sa_private := Some a\<rparr>, slot)
     }"

definition scope_alloc_alloc :: "slot_tag \<Rightarrow> word64 \<Rightarrow> scope_alloc \<Rightarrow> gc \<Rightarrow> (gc \<times> scope_alloc \<times> slot) option" where
  "scope_alloc_alloc tag value sa g =
     do {
       innermost \<leftarrow> is_innermost (sa_level sa) g;
       if innermost
       then do { (g1, slot) \<leftarrow> stack_alloc tag value g; Some (g1, sa, slot) }
       else private_alloc tag value sa g
     }"

definition scope_alloc_drop :: "scope_alloc \<Rightarrow> gc \<Rightarrow> gc option" where
  "scope_alloc_drop sa g =
     do {
       g1 \<leftarrow> (case sa_private sa of Some a \<Rightarrow> recycle a g | None \<Rightarrow> Some g);
       pop_level (sa_level sa) g1
     }"

text \<open>The rooting methods of a scope, by what they root.\<close>

datatype rootable =
  RootObject word64 | RootObjectMut word64 | RootValue word64 | RootValueMut word64 | RootString word64
| RootScript word64 | RootId word64 | RootSymbol word64 | RootFunction word64 | RootBigInt word64

fun root_slot :: "rootable \<Rightarrow> slot_tag \<times> word64" where
  "root_slot (RootObject obj) = (TagObject, obj)"
| "root_slot (RootObjectMut obj) = (TagObject, obj)"
| "root_slot (RootValue val) = (TagValue, val)"
| "root_slot (RootValueMut val) = (TagValue, val)"
| "root_slot (RootString s) = (TagString, s)"
| "root_slot (RootScript s) = (TagScript, s)"
| "root_slot (RootId bits) = (TagId, bits)"
| "root_slot (RootSymbol s) = (TagSymbol, s)"
| "root_slot (RootFunction f) = (TagFunction, f)"
| "root_slot (RootBigInt bi) = (TagBigInt, bi)"

section \<open>A thread\<close>

text \<open>The thread's pool. A runtime creates it and drops it; scopes are created on it.\<close>

definition init_pool :: "gc option \<Rightarrow> gc option option" where
  "init_pool tls = do { require (tls = None); Some (Some pool_new) }"

definition current_pool :: "gc option \<Rightarrow> gc option" where
  "current_pool tls = tls"

text \<open>
  What runs on a thread: scopes, known by the order of their creation, and the handles that rooting
  gave out, with their scope. Rust's lifetimes end a handle when its scope is dropped; scopes may be
  dropped in any order. A mutable handle is written through.
\<close>

record gc_world =
  w_pool :: gc
  w_scopes :: "nat \<Rightarrow> scope_alloc option"
  w_next_scope :: nat
  w_handles :: "(nat \<times> slot) list"

datatype gc_cmd =
    NewScope
  | Root nat rootable
  | WriteHandle nat word64
  | DropScope nat
  | AddTracer nat
  | Collect

fun gc_exec :: "collector \<Rightarrow> gc_cmd \<Rightarrow> gc_world \<Rightarrow> gc_world option" where
  "gc_exec mv NewScope w =
     (let (g, sa) = scope_alloc_new (w_pool w)
      in Some (w\<lparr>w_pool := g, w_scopes := (w_scopes w)(w_next_scope w \<mapsto> sa),
             w_next_scope := Suc (w_next_scope w)\<rparr>))"
| "gc_exec mv (Root s r) w =
     (case w_scopes w s of
        None \<Rightarrow> Some w
      | Some sa \<Rightarrow>
          do {
            (g, sa', slot) \<leftarrow> scope_alloc_alloc (fst (root_slot r)) (snd (root_slot r)) sa (w_pool w);
            Some (w\<lparr>w_pool := g, w_scopes := (w_scopes w)(s \<mapsto> sa'), w_handles := w_handles w @ [(s, slot)]\<rparr>)
          })"
| "gc_exec mv (WriteHandle k v) w =
     (if k < length (w_handles w)
      then (let slot = snd (w_handles w ! k)
            in Some (w\<lparr>w_pool := write_slot slot (fst (read_slot (w_pool w) slot)) v (w_pool w)\<rparr>))
      else Some w)"
| "gc_exec mv (DropScope s) w =
     (case w_scopes w s of
        None \<Rightarrow> Some w
      | Some sa \<Rightarrow>
          do {
            g \<leftarrow> scope_alloc_drop sa (w_pool w);
            Some (w\<lparr>w_pool := g, w_scopes := (w_scopes w)(s := None),
                   w_handles := filter (\<lambda>h. fst h \<noteq> s) (w_handles w)\<rparr>)
          })"
| "gc_exec mv (AddTracer f) w = Some (w\<lparr>w_pool := add_root_tracer f (w_pool w)\<rparr>)"
| "gc_exec mv Collect w = do { (g, tracers) \<leftarrow> pool_trace mv (w_pool w); Some (w\<lparr>w_pool := g\<rparr>) }"

definition gc_session :: "collector \<Rightarrow> gc_cmd list \<Rightarrow> gc_world option" where
  "gc_session mv cmds =
     do {
       tls \<leftarrow> init_pool None;
       g \<leftarrow> current_pool tls;
       run_all (gc_exec mv) cmds \<lparr>w_pool = g, w_scopes = (\<lambda>_. None), w_next_scope = 0, w_handles = []\<rparr>
     }"

end
