(* ===== verification/Gc_Inv.thy ===== *)
theory Gc_Inv
  imports Gc_Pool "HOL-Library.Multiset"
begin

text \<open>
  The invariant of the root allocator: who owns which page and which private allocation, the
  doubly-linked list of the live ones, the levels of the scopes, and where each handle's slot is.
\<close>

section \<open>Slots\<close>

text \<open>The slots of pages that are used up to a count.\<close>

definition slots_of :: "(nat \<times> nat) list \<Rightarrow> slot list" where
  "slots_of cs = concat (map (\<lambda>(p, n). map (Pair p) [0..<n]) cs)"

lemma slots_of_simps [simp]:
  "slots_of [] = []" "slots_of ((p, n) # cs) = map (Pair p) [0..<n] @ slots_of cs"
  "slots_of (cs @ cs') = slots_of cs @ slots_of cs'"
  by (simp_all add: slots_of_def)

lemma in_slots_of: "(p, k) \<in> set (slots_of cs) \<longleftrightarrow> (\<exists>n. (p, n) \<in> set cs \<and> k < n)"
  unfolding slots_of_def by force

lemma slot_page: "q \<in> set (slots_of cs) \<Longrightarrow> fst q \<in> fst ` set cs"
  by (cases q) (force simp: in_slots_of)

lemma distinct_slots_of: "distinct (map fst cs) \<Longrightarrow> distinct (slots_of cs)"
proof (induction cs)
  case (Cons c cs)
  obtain p n where c: "c = (p, n)" by (cases c)
  have "p \<noteq> fst q" if "q \<in> set (slots_of cs)" for q
    using slot_page [OF that] Cons.prems c by auto
  with Cons c show ?case by (fastforce simp: distinct_map inj_on_def)
qed simp

lemma read_write_slot [simp]:
  "read_slot (write_slot p t v g) q = (if q = p then (t, v) else read_slot g q)"
  by (cases p; cases q) (auto simp: read_slot_def write_slot_def)

text \<open>A write to a slot changes nothing but the pages.\<close>

lemma write_slot_shape: "\<exists>m. write_slot p t v g = g\<lparr>g_pages := m\<rparr>"
  by (auto simp: write_slot_def)

lemma trace_slot_shape: "\<exists>m. fold (trace_slot mv) ps g = g\<lparr>g_pages := m\<rparr>"
proof (induction ps arbitrary: g)
  case Nil
  show ?case by (intro exI [of _ "g_pages g"]) simp
next
  case (Cons p ps)
  obtain m where "trace_slot mv p g = g\<lparr>g_pages := m\<rparr>"
    by (cases "read_slot g p") (simp add: trace_slot_def write_slot_def)
  with Cons.IH [of "g\<lparr>g_pages := m\<rparr>"] show ?case by auto
qed

text \<open>Tracing distinct slots moves each once.\<close>

definition moved :: "collector \<Rightarrow> slot_tag \<times> word64 \<Rightarrow> slot_tag \<times> word64" where
  "moved mv tv = (fst tv, traced_value mv (fst tv) (snd tv))"

lemma read_trace_slot [simp]:
  "read_slot (trace_slot mv p g) q = (if q = p then moved mv (read_slot g p) else read_slot g q)"
  by (simp add: trace_slot_def moved_def split: prod.split)

lemma read_trace:
  "distinct ps \<Longrightarrow> read_slot (fold (trace_slot mv) ps g) q =
     (if q \<in> set ps then moved mv (read_slot g q) else read_slot g q)"
  by (induction ps arbitrary: g) auto

section \<open>The root stack\<close>

definition stack_slot :: "gc \<Rightarrow> nat \<Rightarrow> slot" where
  "stack_slot g i = (hp_stack g ! (i div page_size), i mod page_size)"

fun stack_counts :: "nat \<Rightarrow> nat \<Rightarrow> nat list \<Rightarrow> (nat \<times> nat) list" where
  "stack_counts h index [] = []"
| "stack_counts h index (p # ps) =
     (if index * page_size \<ge> h then []
      else (p, min (h - index * page_size) page_size) # stack_counts h (Suc index) ps)"

lemma trace_page_eq: "trace_page mv p n g = fold (trace_slot mv) (slots_of [(p, n)]) g"
  by (simp add: trace_page_def fold_map comp_def)

lemma trace_stack_eq: "trace_stack mv h i ps g = fold (trace_slot mv) (slots_of (stack_counts h i ps)) g"
  by (induction ps arbitrary: i g) (simp_all add: trace_page_eq Let_def)

lemma stack_counts_pages: "fst ` set (stack_counts h i ps) \<subseteq> set ps"
  by (induction ps arbitrary: i) auto

lemma distinct_stack_counts: "distinct ps \<Longrightarrow> distinct (map fst (stack_counts h i ps))"
  using stack_counts_pages by (induction ps arbitrary: i) fastforce+

lemma stack_slot_counted:
  "j < length ps \<Longrightarrow> k < page_size \<Longrightarrow> (i + j) * page_size + k < h \<Longrightarrow>
     (ps ! j, k) \<in> set (slots_of (stack_counts h i ps))"
proof (induction ps arbitrary: i j)
  case (Cons p ps)
  show ?case
  proof (cases j)
    case 0
    then show ?thesis using Cons.prems by (auto simp: in_slots_of)
  next
    case (Suc j')
    then have "i * page_size < h" using Cons.prems(3) by simp
    moreover have "(ps ! j', k) \<in> set (slots_of (stack_counts h (Suc i) ps))"
      using Cons.IH [of j' "Suc i"] Cons.prems Suc by (simp add: algebra_simps)
    ultimately show ?thesis by (simp add: Suc)
  qed
qed simp

section \<open>Ownership\<close>

definition priv_counts :: "private_pages \<Rightarrow> (nat \<times> nat) list" where
  "priv_counts pp = map (\<lambda>p. (p, page_size)) (pp_full_pages pp) @
     (case pp_current_page pp of None \<Rightarrow> [] | Some p \<Rightarrow> [(p, pp_cursor pp)])"

definition counts_of :: "gc \<Rightarrow> nat \<Rightarrow> (nat \<times> nat) list" where
  "counts_of g a = (case g_private g a of None \<Rightarrow> [] | Some pp \<Rightarrow> priv_counts pp)"

definition private_owned :: "gc \<Rightarrow> nat list \<Rightarrow> nat list" where
  "private_owned g xs = concat (map (\<lambda>a. map fst (counts_of g a)) xs)"

text \<open>
  Every page there is belongs to the root stack, to the freelist, to one live private allocation, or
  is one of \<open>E\<close>, which an operation has in its hands.
\<close>

definition pages_ok :: "nat list \<Rightarrow> gc \<Rightarrow> nat list \<Rightarrow> bool" where
  "pages_ok E g xs \<longleftrightarrow>
     mset E + mset (hp_stack g) + mset (hp_freelist g) + mset (private_owned g xs) = mset [0..<g_next_page g]"

lemma pages_okD:
  assumes "pages_ok E g xs"
  shows "distinct (hp_stack g @ private_owned g xs)"
    and "set E \<union> set (hp_stack g) \<union> set (hp_freelist g) \<union> set (private_owned g xs) = {..<g_next_page g}"
proof -
  have m: "mset (hp_stack g @ private_owned g xs @ E @ hp_freelist g) = mset [0..<g_next_page g]"
    using assms by (simp add: pages_ok_def ac_simps)
  have "distinct (hp_stack g @ private_owned g xs @ E @ hp_freelist g)"
    by (rule iffD2 [OF mset_eq_imp_distinct_iff [OF m] distinct_upt])
  then show "distinct (hp_stack g @ private_owned g xs)"
    unfolding distinct_append set_append by blast
  have "set (hp_stack g @ private_owned g xs @ E @ hp_freelist g) = {..<g_next_page g}"
    using mset_eq_setD [OF m] by (simp only: set_upt atLeast0LessThan)
  then show "set E \<union> set (hp_stack g) \<union> set (hp_freelist g) \<union> set (private_owned g xs) = {..<g_next_page g}"
    unfolding set_append by blast
qed

text \<open>What private pages hold besides their links.\<close>

definition unlinked :: "private_pages option \<Rightarrow> (nat option \<times> nat \<times> nat list \<times> bool) option" where
  "unlinked p = map_option (\<lambda>pp. (pp_current_page pp, pp_cursor pp, pp_full_pages pp, pp_active pp)) p"

lemma unlinked_Some [simp]:
  "unlinked (Some pp) = Some (pp_current_page pp, pp_cursor pp, pp_full_pages pp, pp_active pp)"
  "unlinked None = None" "unlinked p = None \<longleftrightarrow> p = None"
  by (simp_all add: unlinked_def)

lemma unlinked_eq_Some: "unlinked p = Some (c, k, f, b) \<longleftrightarrow>
    (\<exists>pp. p = Some pp \<and> pp_current_page pp = c \<and> pp_cursor pp = k \<and> pp_full_pages pp = f \<and> pp_active pp = b)"
  by (auto simp: unlinked_def)

lemma counts_of_unlinked:
  "counts_of g a = (case unlinked (g_private g a) of None \<Rightarrow> []
     | Some (c, k, f, b) \<Rightarrow> map (\<lambda>p. (p, page_size)) f @ (case c of None \<Rightarrow> [] | Some p \<Rightarrow> [(p, k)]))"
  by (simp add: counts_of_def unlinked_def priv_counts_def split: option.split)

text \<open>Private pages in use, and ones that wait in the freelist.\<close>

fun live_alloc :: "(nat option \<times> nat \<times> nat list \<times> bool) option \<Rightarrow> bool" where
  "live_alloc None = False"
| "live_alloc (Some (c, k, f, b)) \<longleftrightarrow> b \<and> k \<le> page_size \<and> (c = None \<longrightarrow> f = [] \<and> k = 0)"

fun idle_alloc :: "(nat option \<times> nat \<times> nat list \<times> bool) option \<Rightarrow> bool" where
  "idle_alloc None = False"
| "idle_alloc (Some (c, k, f, b)) \<longleftrightarrow> \<not> b \<and> c = None \<and> f = []"

definition allocs_ok :: "gc \<Rightarrow> nat list \<Rightarrow> bool" where
  "allocs_ok g xs \<longleftrightarrow>
     distinct (xs @ hp_alloc_freelist g) \<and>
     (\<forall>a \<in> set xs. live_alloc (unlinked (g_private g a))) \<and>
     (\<forall>a \<in> set (hp_alloc_freelist g). idle_alloc (unlinked (g_private g a))) \<and>
     (\<forall>a. unlinked (g_private g a) \<noteq> None \<longrightarrow> a < g_next_private g) \<and>
     length (hp_alloc_freelist g) \<le> max_free_allocs"

section \<open>The linked list\<close>

text \<open>A segment of the list, between the links before and after it.\<close>

fun segment :: "(nat \<Rightarrow> private_pages option) \<Rightarrow> nat option \<Rightarrow> nat option \<Rightarrow> nat list \<Rightarrow>
    nat option \<Rightarrow> nat option \<Rightarrow> bool" where
  "segment m prev h [] last' next' \<longleftrightarrow> h = next' \<and> prev = last'"
| "segment m prev h (a # as) last' next' \<longleftrightarrow> h = Some a \<and>
     (\<exists>pp. m a = Some pp \<and> pp_prev pp = prev \<and> segment m (Some a) (pp_next pp) as last' next')"

definition links_ok :: "gc \<Rightarrow> nat list \<Rightarrow> bool" where
  "links_ok g xs \<longleftrightarrow> (\<exists>last'. segment (g_private g) None (hp_active_head g) xs last' None)"

definition links :: "private_pages option \<Rightarrow> (nat option \<times> nat option) option" where
  "links p = map_option (\<lambda>pp. (pp_prev pp, pp_next pp)) p"

lemma segment_cong:
  "(\<And>a. a \<in> set as \<Longrightarrow> links (m' a) = links (m a)) \<Longrightarrow>
     segment m' prev h as l n = segment m prev h as l n"
proof (induction as arbitrary: prev h)
  case (Cons a as)
  have "links (m' a) = links (m a)" by (rule Cons.prems) simp
  with Cons show ?case by (cases "m a"; cases "m' a") (auto simp: links_def)
qed simp

lemma segment_append:
  "segment m prev h (as @ bs) l n \<longleftrightarrow> (\<exists>p q. segment m prev h as p q \<and> segment m p q bs l n)"
  by (induction as arbitrary: prev h) auto

lemma segment_last: "segment m prev h as l n \<Longrightarrow> as \<noteq> [] \<Longrightarrow> l = Some (last as)"
  by (induction as arbitrary: prev h) (auto split: if_splits)

lemma segment_relink_next:
  assumes "segment m prev h (as @ [z]) l n" "z \<notin> set as" "m z = Some pp"
  shows "segment (m(z \<mapsto> pp\<lparr>pp_next := n'\<rparr>)) prev h (as @ [z]) l n'"
proof -
  from assms(1,3) have s: "segment m prev h as (pp_prev pp) (Some z)" and l: "l = Some z"
    by (auto simp: segment_append)
  have "segment (m(z \<mapsto> pp\<lparr>pp_next := n'\<rparr>)) prev h as (pp_prev pp) (Some z)"
    using s assms(2) by (subst segment_cong) auto
  then show ?thesis by (auto simp: segment_append l)
qed

lemma segment_relink_prev:
  assumes "segment m p (Some y) (y # ys) l n" "y \<notin> set ys" "m y = Some pp"
  shows "segment (m(y \<mapsto> pp\<lparr>pp_prev := p'\<rparr>)) p' (Some y) (y # ys) l n"
proof -
  have "segment m (Some y) (pp_next pp) ys l n" using assms by simp
  then have "segment (m(y \<mapsto> pp\<lparr>pp_prev := p'\<rparr>)) (Some y) (pp_next pp) ys l n"
    using assms(2) by (subst segment_cong) auto
  then show ?thesis by simp
qed

text \<open>The part of the state that the private allocations do not use.\<close>

definition same_stack :: "gc \<Rightarrow> gc \<Rightarrow> bool" where
  "same_stack g g' \<longleftrightarrow> hp_stack g' = hp_stack g \<and> hp_top g' = hp_top g \<and> hp_levels g' = hp_levels g \<and>
     hp_root_tracers g' = hp_root_tracers g"

text \<open>Only links change, and the state of the allocations is the same.\<close>

definition relinks :: "gc \<Rightarrow> gc \<Rightarrow> bool" where
  "relinks g g' \<longleftrightarrow>
     (\<exists>m h. g' = g\<lparr>g_private := m, hp_active_head := h\<rparr> \<and> (\<forall>a. unlinked (m a) = unlinked (g_private g a)))"

lemma relinks_head: "relinks g (g\<lparr>hp_active_head := h\<rparr>)"
  unfolding relinks_def by (intro exI [of _ "g_private g"] exI [of _ h]) simp

lemma relinksE:
  assumes "relinks g g'"
  obtains m h where "g' = g\<lparr>g_private := m, hp_active_head := h\<rparr>"
    "\<And>a. unlinked (m a) = unlinked (g_private g a)"
  using assms unfolding relinks_def by blast

lemma relinksI: "(\<And>a. unlinked (m a) = unlinked (g_private g a)) \<Longrightarrow>
    relinks g (g\<lparr>g_private := m, hp_active_head := h\<rparr>)"
  unfolding relinks_def by blast

lemma relinks_same:
  assumes "relinks g g'"
  shows "same_stack g g'" "read_slot g' q = read_slot g q" "g_next_page g' = g_next_page g"
    "hp_freelist g' = hp_freelist g" "hp_alloc_freelist g' = hp_alloc_freelist g"
    "g_next_private g' = g_next_private g" "unlinked (g_private g' a) = unlinked (g_private g a)"
  using assms by (elim relinksE, simp add: same_stack_def read_slot_def)+

lemma relinks_trans: "relinks g g1 \<Longrightarrow> relinks g1 g2 \<Longrightarrow> relinks g g2"
  by (elim relinksE) (simp add: relinksI)

lemma relinks_link:
  assumes "g_private g a = Some pp" "unlinked (Some pp') = unlinked (Some pp)"
  shows "relinks g (g\<lparr>g_private := (g_private g)(a \<mapsto> pp')\<rparr>)"
  unfolding relinks_def using assms
  by (intro exI [of _ "(g_private g)(a \<mapsto> pp')"] exI [of _ "hp_active_head g"]) simp

end
