(* ===== verification/Gc_Links.thy ===== *)
theory Gc_Links
  imports Gc_Inv
begin

text \<open>
  The doubly-linked list of live private allocations: \<open>register\<close> puts one in front, \<open>unregister\<close>
  takes one out of anywhere, and neither changes anything but links.
\<close>

lemma segment_same:
  assumes "segment m prev h as l n" "\<And>b. b \<in> set as \<Longrightarrow> m' b = m b"
  shows "segment m' prev h as l n"
proof -
  have "segment m' prev h as l n = segment m prev h as l n"
    by (rule segment_cong) (simp add: assms(2))
  with assms(1) show ?thesis by simp
qed

lemma segment_domain: "segment m prev h as l n \<Longrightarrow> a \<in> set as \<Longrightarrow> \<exists>pp. m a = Some pp"
  by (induction as arbitrary: prev h) auto

lemma segment_None_head: "segment m prev None as l None \<Longrightarrow> as = []"
  by (cases as) auto

lemma segment_Some_head: "segment m prev (Some h) as l None \<Longrightarrow> \<exists>bs. as = h # bs"
  by (cases as) auto

lemma pool_register_ok:
  assumes "links_ok g xs" "a \<notin> set xs" "distinct xs" "g_private g a = Some pp"
  shows "wp (register a g) (\<lambda>g'. links_ok g' (a # xs) \<and> relinks g g')"
proof -
  let ?pp = "pp\<lparr>pp_next := hp_active_head g, pp_prev := None\<rparr>"
  let ?m = "(g_private g)(a \<mapsto> ?pp)"
  obtain l where l: "segment (g_private g) None (hp_active_head g) xs l None"
    using assms(1) by (auto simp: links_ok_def)
  have m: "segment ?m None (hp_active_head g) xs l None"
    by (rule segment_same [OF l]) (use assms(2) in auto)
  have u: "unlinked (?m b) = unlinked (g_private g b)" for b using assms(4) by simp
  show ?thesis
  proof (cases "hp_active_head g")
    case None
    then have "xs = []" using l segment_None_head by auto
    with None have "links_ok (g\<lparr>g_private := ?m, hp_active_head := Some a\<rparr>) (a # xs)"
      by (simp add: links_ok_def)
    with None relinksI [of ?m g "Some a", OF u] show ?thesis
      by (simp add: register_def on_private_def assms(4))
  next
    case (Some h)
    obtain ys where xs: "xs = h # ys" using l Some segment_Some_head by metis
    obtain q where q: "?m h = Some q" using segment_domain [OF m] xs by auto
    let ?m2 = "?m(h \<mapsto> q\<lparr>pp_prev := Some a\<rparr>)"
    have ah: "a \<noteq> h" "h \<notin> set ys" using assms(2,3) xs by auto
    have "segment ?m2 (Some a) (Some h) xs l None"
      using segment_relink_prev [where m = "?m" and y = h, OF _ ah(2) q] m Some xs by auto
    then have "links_ok (g\<lparr>g_private := ?m2, hp_active_head := Some a\<rparr>) (a # xs)"
      using ah Some by (auto simp: links_ok_def)
    moreover have "unlinked (?m2 b) = unlinked (g_private g b)" for b
      using u [of b] q ah by (cases "b = h") auto
    ultimately show ?thesis using q ah Some relinksI [of ?m2 g "Some a"]
      by (simp add: register_def on_private_def assms(4))
  qed
qed

text \<open>The two halves of \<open>unregister\<close>: the link from before, and the link from after.\<close>

lemma unregister_before:
  assumes "segment (g_private g) None (hp_active_head g) ys p (Some a)" "distinct ys"
  obtains g1 where
    "(case p of Some q \<Rightarrow> on_private q (\<lambda>pp. pp\<lparr>pp_next := n\<rparr>) g
      | None \<Rightarrow> Some (g\<lparr>hp_active_head := n\<rparr>)) = Some g1"
    "segment (g_private g1) None (hp_active_head g1) ys p n" "relinks g g1"
    "\<And>b. b \<notin> set ys \<Longrightarrow> g_private g1 b = g_private g b"
proof (cases ys rule: rev_cases)
  case Nil
  then show thesis using assms that [of "g\<lparr>hp_active_head := n\<rparr>"] by (auto simp: relinks_head)
next
  case (snoc as q)
  have p: "p = Some q" using segment_last [OF assms(1)] snoc by simp
  obtain pp where pp: "g_private g q = Some pp" using segment_domain [OF assms(1)] snoc by auto
  let ?m = "(g_private g)(q \<mapsto> pp\<lparr>pp_next := n\<rparr>)"
  have "segment ?m None (hp_active_head g) ys p n"
    using segment_relink_next [where m = "g_private g" and z = q, OF _ _ pp] assms snoc by auto
  moreover have "relinks g (g\<lparr>g_private := ?m\<rparr>)" by (rule relinks_link [where a = q, OF pp]) simp
  ultimately show thesis using snoc p pp that [of "g\<lparr>g_private := ?m\<rparr>"] by (auto simp: on_private_def)
qed

lemma unregister_after:
  assumes "segment (g_private g) p n zs l None" "distinct zs"
  obtains g1 where
    "(case n of Some z \<Rightarrow> on_private z (\<lambda>pp. pp\<lparr>pp_prev := p'\<rparr>) g | None \<Rightarrow> Some g) = Some g1"
    "\<exists>l'. segment (g_private g1) p' n zs l' None" "relinks g g1" "hp_active_head g1 = hp_active_head g"
    "\<And>b. b \<notin> set zs \<Longrightarrow> g_private g1 b = g_private g b"
proof (cases n)
  case None
  then have "zs = []" using assms(1) segment_None_head by auto
  moreover have "relinks g g" using relinks_head [of g "hp_active_head g"] by simp
  ultimately show thesis using None that [of g] by auto
next
  case (Some z)
  obtain ys where zs: "zs = z # ys" using assms(1) Some segment_Some_head by metis
  obtain pp where pp: "g_private g z = Some pp" using segment_domain [OF assms(1)] zs by auto
  let ?m = "(g_private g)(z \<mapsto> pp\<lparr>pp_prev := p'\<rparr>)"
  have "segment ?m p' n zs l None"
    using segment_relink_prev [where m = "g_private g" and y = z, OF _ _ pp] assms zs Some by auto
  moreover have "relinks g (g\<lparr>g_private := ?m\<rparr>)" by (rule relinks_link [where a = z, OF pp]) simp
  ultimately show thesis using zs Some pp that [of "g\<lparr>g_private := ?m\<rparr>"] by (auto simp: on_private_def)
qed

lemma unregister_ok:
  assumes "links_ok g (ys @ a # zs)" "distinct (ys @ a # zs)"
  shows "wp (unregister a g) (\<lambda>g'. links_ok g' (ys @ zs) \<and> relinks g g')"
proof -
  obtain p pp l where s: "segment (g_private g) None (hp_active_head g) ys p (Some a)"
    "g_private g a = Some pp" "pp_prev pp = p" "segment (g_private g) (Some a) (pp_next pp) zs l None"
    using assms(1) by (auto simp: links_ok_def segment_append)
  obtain g1 where g1:
    "(case p of Some q \<Rightarrow> on_private q (\<lambda>r. r\<lparr>pp_next := pp_next pp\<rparr>) g
      | None \<Rightarrow> Some (g\<lparr>hp_active_head := pp_next pp\<rparr>)) = Some g1"
    "segment (g_private g1) None (hp_active_head g1) ys p (pp_next pp)" "relinks g g1"
    "\<And>b. b \<notin> set ys \<Longrightarrow> g_private g1 b = g_private g b"
    by (rule unregister_before [OF s(1)]) (use assms(2) in auto)
  have "segment (g_private g1) (Some a) (pp_next pp) zs l None"
    by (rule segment_same [OF s(4)], rule g1(4)) (use assms(2) in auto)
  then obtain g2 l' where g2:
    "(case pp_next pp of Some z \<Rightarrow> on_private z (\<lambda>r. r\<lparr>pp_prev := p\<rparr>) g1 | None \<Rightarrow> Some g1) = Some g2"
    "segment (g_private g2) p (pp_next pp) zs l' None" "relinks g1 g2" "hp_active_head g2 = hp_active_head g1"
    "\<And>b. b \<notin> set zs \<Longrightarrow> g_private g2 b = g_private g1 b"
    by (rule unregister_after) (use assms(2) in auto)
  have "segment (g_private g2) None (hp_active_head g2) ys p (pp_next pp)"
    unfolding g2(4) by (rule segment_same [OF g1(2)], rule g2(5)) (use assms(2) in auto)
  then have "links_ok g2 (ys @ zs)" using g2(2) by (auto simp: links_ok_def segment_append)
  moreover have "unregister a g = Some g2" using s(2,3) g1(1) g2(1) by (simp add: unregister_def)
  ultimately show ?thesis using relinks_trans [OF g1(3) g2(3)] by simp
qed

end
