(* ===== verification/Gc_Private.thy ===== *)
theory Gc_Private
  imports Gc_Links
begin

text \<open>
  The private allocations: taking one, allocating slots in its pages and giving it back keep every page
  owned once and the list of the live ones linked.
\<close>

definition pinv :: "nat list \<Rightarrow> gc \<Rightarrow> nat list \<Rightarrow> bool" where
  "pinv E g xs \<longleftrightarrow> pages_ok E g xs \<and> allocs_ok g xs \<and> links_ok g xs"

lemma counts_of_cong: "unlinked (g_private g' a) = unlinked (g_private g a) \<Longrightarrow> counts_of g' a = counts_of g a"
  by (simp add: counts_of_unlinked)

lemma private_owned_cong:
  "(\<And>a. a \<in> set xs \<Longrightarrow> unlinked (g_private g' a) = unlinked (g_private g a)) \<Longrightarrow>
     private_owned g' xs = private_owned g xs"
  unfolding private_owned_def
  by (intro arg_cong [where f = concat] map_cong refl arg_cong [where f = "map fst"] counts_of_cong)

lemma private_owned_simps [simp]:
  "private_owned g [] = []" "private_owned g (a # xs) = map fst (counts_of g a) @ private_owned g xs"
  "private_owned g (xs @ ys) = private_owned g xs @ private_owned g ys"
  by (simp_all add: private_owned_def)

lemma counts_of_Some: "g_private g a = Some pp \<Longrightarrow> counts_of g a = priv_counts pp"
  by (simp add: counts_of_def)

definition pp_pages :: "private_pages \<Rightarrow> nat list" where
  "pp_pages pp = map fst (priv_counts pp)"

lemma pp_pages_eq: "pp_pages pp = pp_full_pages pp @ (case pp_current_page pp of None \<Rightarrow> [] | Some p \<Rightarrow> [p])"
  by (simp add: pp_pages_def priv_counts_def comp_def split: option.split)

text \<open>An update of one live allocation that leaves its links alone.\<close>

lemma links_ok_same:
  "links_ok g xs \<Longrightarrow> hp_active_head g' = hp_active_head g \<Longrightarrow>
     (\<And>a. a \<in> set xs \<Longrightarrow> links (g_private g' a) = links (g_private g a)) \<Longrightarrow> links_ok g' xs"
  using segment_cong unfolding links_ok_def by metis

lemma pinv_live: "pinv E g xs \<Longrightarrow> a \<in> set xs \<Longrightarrow> live_alloc (unlinked (g_private g a))"
  by (simp add: pinv_def allocs_ok_def)

lemma live_alloc_Some: "live_alloc (unlinked p) \<Longrightarrow> \<exists>pp. p = Some pp \<and> pp_active pp \<and> pp_cursor pp \<le> page_size \<and>
    (pp_current_page pp = None \<longrightarrow> pp_full_pages pp = [] \<and> pp_cursor pp = 0)"
  by (cases p) auto

lemma allocs_ok_update:
  "allocs_ok g xs \<Longrightarrow> a \<in> set xs \<Longrightarrow> g_private g a = Some pp \<Longrightarrow> live_alloc (unlinked (Some pp')) \<Longrightarrow>
     allocs_ok (g\<lparr>g_private := (g_private g)(a \<mapsto> pp')\<rparr>) xs"
  unfolding allocs_ok_def by (auto simp del: unlinked_Some(1))

lemma pinv_update:
  assumes "pinv E g xs" "a \<in> set xs" "g_private g a = Some pp" "live_alloc (unlinked (Some pp'))"
    and links: "links (Some pp') = links (Some pp)"
    and pages: "mset E + mset (pp_pages pp) = mset E' + mset (pp_pages pp')"
  shows "pinv E' (g\<lparr>g_private := (g_private g)(a \<mapsto> pp')\<rparr>) xs"
proof -
  let ?g = "g\<lparr>g_private := (g_private g)(a \<mapsto> pp')\<rparr>"
  obtain ys zs where xs: "xs = ys @ a # zs" using assms(2) by (auto simp: in_set_conv_decomp)
  have "distinct xs" using assms(1) by (simp add: pinv_def allocs_ok_def)
  then have o: "private_owned ?g ys = private_owned g ys" "private_owned ?g zs = private_owned g zs"
    using xs by (auto intro!: private_owned_cong)
  have c: "map fst (counts_of g a) = pp_pages pp" "map fst (counts_of ?g a) = pp_pages pp'"
    using assms(3) by (simp_all add: counts_of_def pp_pages_def)
  have "pages_ok E g xs" using assms(1) by (simp add: pinv_def)
  then have "mset E + mset (pp_pages pp) + (mset (hp_stack g) + mset (hp_freelist g) +
      mset (private_owned g ys) + mset (private_owned g zs)) = mset [0..<g_next_page g]"
    unfolding pages_ok_def xs private_owned_simps mset_append c(1) by (simp only: ac_simps)
  then have "pages_ok E' ?g xs"
    unfolding pages_ok_def xs private_owned_simps mset_append c(2) o pages by (simp add: ac_simps)
  moreover have "links_ok ?g xs"
    by (rule links_ok_same [of g]) (use assms(1,3) links in \<open>auto simp: pinv_def\<close>)
  moreover have "allocs_ok ?g xs" using assms(1-4) allocs_ok_update by (simp add: pinv_def)
  ultimately show ?thesis by (simp add: pinv_def)
qed

section \<open>Pages\<close>

text \<open>What an operation on private pages leaves alone: the root stack, and every slot but one.\<close>

definition keeps :: "slot option \<Rightarrow> gc \<Rightarrow> gc \<Rightarrow> bool" where
  "keeps p g g' \<longleftrightarrow> same_stack g g' \<and>
     (\<forall>q. fst q < g_next_page g \<longrightarrow> Some q \<noteq> p \<longrightarrow> read_slot g' q = read_slot g q) \<and>
     g_next_page g \<le> g_next_page g'"

lemma keepsI:
  "same_stack g g' \<Longrightarrow> (\<And>q. fst q < g_next_page g \<Longrightarrow> Some q \<noteq> p \<Longrightarrow> read_slot g' q = read_slot g q) \<Longrightarrow>
     g_next_page g \<le> g_next_page g' \<Longrightarrow> keeps p g g'"
  by (simp add: keeps_def)

lemma pool_keeps_refl: "keeps p g g"
  by (simp add: keeps_def same_stack_def)

lemma pool_keeps_trans: "keeps None g g1 \<Longrightarrow> keeps p g1 g2 \<Longrightarrow> keeps p g g2"
  unfolding keeps_def same_stack_def by simp

lemma keeps_relinks: "relinks g g' \<Longrightarrow> keeps p g g'"
  by (rule keepsI) (simp_all add: relinks_same)

lemma keeps_private: "keeps p g (g\<lparr>g_private := m\<rparr>)"
  by (simp add: keeps_def same_stack_def read_slot_def)

lemma take_page_ok:
  assumes "pinv E g xs" "take_page g = (g', p)"
  shows "pinv (p # E) g' xs" "keeps None g g'" "g_private g' = g_private g"
proof -
  have "pinv (p # E) g' xs \<and> keeps None g g' \<and> g_private g' = g_private g"
  proof (cases "hp_freelist g = []")
    case True
    then have g': "g' = g\<lparr>g_pages := (g_pages g)(g_next_page g := page_new), g_next_page := Suc (g_next_page g)\<rparr>"
      and p: "p = g_next_page g"
      using assms(2) by (auto simp: take_page_def box_page_def)
    have "private_owned g' xs = private_owned g xs" by (rule private_owned_cong) (simp add: g')
    moreover have "keeps None g g'" by (simp add: keeps_def same_stack_def read_slot_def g')
    ultimately show ?thesis using assms(1)
      by (simp add: pinv_def pages_ok_def allocs_ok_def links_ok_def g' p)
  next
    case False
    then have g': "g' = g\<lparr>hp_freelist := butlast (hp_freelist g)\<rparr>" and p: "p = last (hp_freelist g)"
      using assms(2) by (auto simp: take_page_def)
    have f: "mset (hp_freelist g) = add_mset p (mset (butlast (hp_freelist g)))"
      using arg_cong [OF append_butlast_last_id [OF False], of mset] by (simp add: p)
    have "private_owned g' xs = private_owned g xs" by (rule private_owned_cong) (simp add: g')
    moreover have "keeps None g g'" by (simp add: keeps_def same_stack_def read_slot_def g')
    ultimately show ?thesis using assms(1) f
      by (simp add: pinv_def pages_ok_def allocs_ok_def links_ok_def g')
  qed
  then show "pinv (p # E) g' xs" "keeps None g g'" "g_private g' = g_private g" by auto
qed

text \<open>A page that was just taken is nobody else's.\<close>

lemma taken_page_fresh:
  assumes "pinv (p # E) g xs"
  shows "p \<notin> set (hp_stack g)" "p \<notin> set (private_owned g xs)"
proof -
  have m: "mset (p # hp_stack g @ private_owned g xs @ E @ hp_freelist g) = mset [0..<g_next_page g]"
    using assms by (simp add: pinv_def pages_ok_def ac_simps)
  have "distinct (p # hp_stack g @ private_owned g xs @ E @ hp_freelist g)"
    by (rule iffD2 [OF mset_eq_imp_distinct_iff [OF m] distinct_upt])
  then show "p \<notin> set (hp_stack g)" "p \<notin> set (private_owned g xs)" by auto
qed

text \<open>A fresh page for a live allocation, whose other pages become full ones.\<close>

lemma fresh_page_ok:
  assumes "pinv [] g xs" "a \<in> set xs" "g_private g a = Some pp" "take_page g = (g', p)"
    and f: "pp_current_page (f pp) = Some p" "pp_cursor (f pp) \<le> page_size" "pp_active (f pp)"
      "links (Some (f pp)) = links (Some pp)" "mset (pp_full_pages (f pp)) = mset (pp_pages pp)"
  shows "wp (on_private a f g') (\<lambda>g2. pinv [] g2 xs \<and> keeps None g g2 \<and>
    g_private g2 = (g_private g)(a \<mapsto> f pp))"
proof -
  note t = take_page_ok [OF assms(1,4)]
  have "pinv [] (g'\<lparr>g_private := (g_private g')(a \<mapsto> f pp)\<rparr>) xs"
    by (rule pinv_update [OF t(1) assms(2)]) (use t(3) assms(3) f in \<open>auto simp: pp_pages_eq\<close>)
  moreover have "keeps None g (g'\<lparr>g_private := (g_private g')(a \<mapsto> f pp)\<rparr>)"
    by (rule pool_keeps_trans [OF t(2) keeps_private])
  ultimately show ?thesis using assms(3) t(3) by (simp add: on_private_def)
qed

section \<open>Allocating a slot\<close>

definition pp_slots :: "private_pages \<Rightarrow> slot set" where
  "pp_slots pp = set (slots_of (priv_counts pp))"

lemma pp_slots_eq: "pp_slots pp = {(p, k). p \<in> set (pp_full_pages pp) \<and> k < page_size} \<union>
    {(p, k). pp_current_page pp = Some p \<and> k < pp_cursor pp}"
  by (auto simp: pp_slots_def in_slots_of priv_counts_def image_iff split: option.splits)

text \<open>The state in which \<open>a\<close> has the pages \<open>pp'\<close>, with the slots it had in \<open>g\<close>.\<close>

definition roomier :: "gc \<Rightarrow> nat list \<Rightarrow> nat \<Rightarrow> gc \<Rightarrow> private_pages \<Rightarrow> bool" where
  "roomier g xs a g' pp' \<longleftrightarrow> pinv [] g' xs \<and> keeps None g g' \<and> g_private g' = (g_private g)(a \<mapsto> pp') \<and>
     (\<exists>pp. g_private g a = Some pp \<and> pp_slots pp' = pp_slots pp)"

lemma first_page_ok:
  assumes "pinv [] g xs" "a \<in> set xs" "g_private g a = Some pp"
  shows "wp (case pp_current_page pp of
      None \<Rightarrow> (let (g', p) = take_page g in on_private a (\<lambda>pp. pp\<lparr>pp_current_page := Some p\<rparr>) g')
    | Some _ \<Rightarrow> Some g) (\<lambda>g'. \<exists>pp'. roomier g xs a g' pp' \<and> pp_current_page pp' \<noteq> None)"
proof (cases "pp_current_page pp")
  case None
  obtain g1 p where t: "take_page g = (g1, p)" by (cases "take_page g")
  have e: "pp_full_pages pp = []" "pp_cursor pp = 0" "pp_active pp"
    using live_alloc_Some [OF pinv_live [OF assms(1,2)]] assms(3) None by auto
  have "wp (on_private a (\<lambda>pp. pp\<lparr>pp_current_page := Some p\<rparr>) g1) (\<lambda>g2. pinv [] g2 xs \<and> keeps None g g2 \<and>
      g_private g2 = (g_private g)(a \<mapsto> pp\<lparr>pp_current_page := Some p\<rparr>))"
    by (rule fresh_page_ok [OF assms t]) (simp_all add: e links_def pp_pages_eq None)
  then show ?thesis unfolding None option.case t Let_def prod.case
    by (rule wp_mono) (auto simp: roomier_def assms(3) pp_slots_eq e None)
next
  case (Some p)
  have "roomier g xs a g pp" using assms by (simp add: roomier_def pool_keeps_refl fun_upd_idem)
  with Some show ?thesis by auto
qed

lemma next_page_ok:
  assumes "pinv [] g xs" "a \<in> set xs" "g_private g a = Some pp" "pp_current_page pp \<noteq> None"
  shows "wp (if pp_cursor pp = page_size
      then do {
        full \<leftarrow> pp_current_page pp;
        let (g', p) = take_page g;
        on_private a (\<lambda>pp. pp\<lparr>pp_full_pages := pp_full_pages pp @ [full],
          pp_current_page := Some p, pp_cursor := 0\<rparr>) g'
      }
      else Some g)
    (\<lambda>g'. \<exists>pp'. roomier g xs a g' pp' \<and> pp_current_page pp' \<noteq> None \<and> pp_cursor pp' < page_size)"
proof (cases "pp_cursor pp = page_size")
  case True
  obtain full where full: "pp_current_page pp = Some full" using assms(4) by auto
  obtain g1 p where t: "take_page g = (g1, p)" by (cases "take_page g")
  let ?f = "\<lambda>pp. pp\<lparr>pp_full_pages := pp_full_pages pp @ [full], pp_current_page := Some p, pp_cursor := 0\<rparr>"
  have e: "pp_active pp" using live_alloc_Some [OF pinv_live [OF assms(1,2)]] assms(3) by auto
  have "wp (on_private a ?f g1) (\<lambda>g2. pinv [] g2 xs \<and> keeps None g g2 \<and>
      g_private g2 = (g_private g)(a \<mapsto> ?f pp))"
    by (rule fresh_page_ok [OF assms(1-3) t]) (simp_all add: e links_def pp_pages_eq full)
  then show ?thesis unfolding if_P [OF True] full Option.bind.simps(2) t Let_def prod.case
    by (rule wp_mono) (auto simp: roomier_def assms(3) pp_slots_eq full True)
next
  case False
  then have "pp_cursor pp < page_size" using live_alloc_Some [OF pinv_live [OF assms(1,2)]] assms(3) by auto
  moreover have "roomier g xs a g pp" using assms by (simp add: roomier_def pool_keeps_refl fun_upd_idem)
  ultimately show ?thesis using False assms(4) by auto
qed

lemma private_pages_distinct:
  assumes "pinv E g xs" "a \<in> set xs" "g_private g a = Some pp"
  shows "distinct (pp_pages pp)" "set (pp_pages pp) \<inter> set (hp_stack g) = {}" "set (pp_pages pp) \<subseteq> {..<g_next_page g}"
proof -
  have c: "map fst (counts_of g a) = pp_pages pp" by (simp add: counts_of_def assms(3) pp_pages_def)
  obtain ys zs where xs: "xs = ys @ a # zs" using assms(2) by (auto simp: in_set_conv_decomp)
  have "pages_ok E g xs" using assms(1) by (simp add: pinv_def)
  from pages_okD [OF this] c show "distinct (pp_pages pp)" "set (pp_pages pp) \<inter> set (hp_stack g) = {}"
    "set (pp_pages pp) \<subseteq> {..<g_next_page g}"
    by (auto simp: xs)
qed

lemma write_slot_same [simp]:
  "g_private (write_slot p t v g) = g_private g" "g_next_page (write_slot p t v g) = g_next_page g"
  "hp_stack (write_slot p t v g) = hp_stack g" "hp_freelist (write_slot p t v g) = hp_freelist g"
  "hp_active_head (write_slot p t v g) = hp_active_head g" "hp_levels (write_slot p t v g) = hp_levels g"
  "hp_alloc_freelist (write_slot p t v g) = hp_alloc_freelist g" "hp_top (write_slot p t v g) = hp_top g"
  "g_next_private (write_slot p t v g) = g_next_private g"
  "hp_root_tracers (write_slot p t v g) = hp_root_tracers g"
  by (simp_all add: write_slot_def)

lemma pinv_pages_only:
  assumes "g_private g' = g_private g" "g_next_page g' = g_next_page g" "hp_stack g' = hp_stack g"
    "hp_freelist g' = hp_freelist g" "hp_active_head g' = hp_active_head g"
    "hp_alloc_freelist g' = hp_alloc_freelist g" "g_next_private g' = g_next_private g"
  shows "pinv E g' xs = pinv E g xs"
proof -
  have "private_owned g' xs = private_owned g xs" by (rule private_owned_cong) (simp add: assms)
  then show ?thesis unfolding pinv_def pages_ok_def allocs_ok_def links_ok_def assms by simp
qed

lemma keeps_write: "keeps (Some p) g (write_slot p t v g)"
  by (simp add: keeps_def same_stack_def)

text \<open>\<open>a\<close> holds one more slot, a new one with the contents given.\<close>

definition slot_added :: "gc \<Rightarrow> nat list \<Rightarrow> nat \<Rightarrow> slot_tag \<Rightarrow> word64 \<Rightarrow> gc \<Rightarrow> slot \<Rightarrow> bool" where
  "slot_added g xs a tag value g' slot \<longleftrightarrow>
     pinv [] g' xs \<and> keeps (Some slot) g g' \<and> read_slot g' slot = (tag, value) \<and>
     (\<forall>b. b \<noteq> a \<longrightarrow> g_private g' b = g_private g b) \<and>
     (\<exists>pp pp'. g_private g a = Some pp \<and> g_private g' a = Some pp' \<and>
        pp_slots pp' = insert slot (pp_slots pp) \<and> slot \<notin> pp_slots pp)"

lemma write_next_slot:
  assumes "pinv [] g xs" "a \<in> set xs" "g_private g a = Some pp" "pp_current_page pp = Some p"
    "pp_cursor pp < page_size"
  shows "wp (on_private a (\<lambda>r. r\<lparr>pp_cursor := pp_cursor pp + 1\<rparr>) (write_slot (p, pp_cursor pp) tag value g))
    (\<lambda>g'. slot_added g xs a tag value g' (p, pp_cursor pp))"
proof -
  let ?s = "(p, pp_cursor pp)" and ?pp = "pp\<lparr>pp_cursor := pp_cursor pp + 1\<rparr>"
  let ?w = "write_slot ?s tag value g"
  let ?g = "?w\<lparr>g_private := (g_private ?w)(a \<mapsto> ?pp)\<rparr>"
  have e: "pp_active pp" using live_alloc_Some [OF pinv_live [OF assms(1,2)]] assms(3) by auto
  have w: "pinv [] ?w xs" using assms(1) by (subst pinv_pages_only [where g = g]) simp_all
  have "pinv [] ?g xs"
    by (rule pinv_update [OF w assms(2)])
      (use assms(3-5) e in \<open>auto simp: links_def pp_pages_eq\<close>)
  moreover have "keeps (Some ?s) g ?g"
    using keeps_write by (simp add: keeps_def same_stack_def read_slot_def write_slot_def)
  moreover have "read_slot ?g ?s = (tag, value)" by (simp add: read_slot_def write_slot_def)
  moreover have "p \<notin> set (pp_full_pages pp)"
    using private_pages_distinct(1) [OF assms(1-3)] assms(4) by (simp add: pp_pages_eq)
  then have "pp_slots ?pp = insert ?s (pp_slots pp)" "?s \<notin> pp_slots pp"
    using assms(4) by (auto simp: pp_slots_eq)
  ultimately show ?thesis using assms(3) by (simp add: on_private_def slot_added_def)
qed

lemma roomier_live: "roomier g xs a g' pp' \<Longrightarrow> g_private g' a = Some pp'"
  by (simp add: roomier_def)

lemma slot_added_trans:
  assumes "roomier g xs a g1 pp1" "slot_added g1 xs a tag value g2 slot"
  shows "slot_added g xs a tag value g2 slot"
  using assms pool_keeps_trans unfolding roomier_def slot_added_def by fastforce

lemma private_pages_alloc_ok:
  assumes "pinv [] g xs" "a \<in> set xs" "g_private g a = Some pp"
  shows "wp (private_pages_alloc a tag value g) (\<lambda>(g', slot). slot_added g xs a tag value g' slot)"
  unfolding private_pages_alloc_def assms(3) Option.bind.simps(2) wp_bind
proof (rule wp_mono [OF first_page_ok [OF assms]], elim exE conjE)
  fix g1 pp1 assume r1: "roomier g xs a g1 pp1" and c1: "pp_current_page pp1 \<noteq> None"
  have i1: "pinv [] g1 xs" "g_private g1 a = Some pp1" using r1 by (auto simp: roomier_def)
  show "wp (g_private g1 a) (\<lambda>pp1. wp (if pp_cursor pp1 = page_size
        then do { full \<leftarrow> pp_current_page pp1; let (g', p) = take_page g1;
          on_private a (\<lambda>pp. pp\<lparr>pp_full_pages := pp_full_pages pp @ [full], pp_current_page := Some p,
            pp_cursor := 0\<rparr>) g' }
        else Some g1) (\<lambda>g2. wp (g_private g2 a) (\<lambda>pp2. wp (pp_current_page pp2) (\<lambda>page.
          wp (require (pp_cursor pp2 < page_size)) (\<lambda>_. wp (let slot = (page, pp_cursor pp2) in
            do { g3 \<leftarrow> on_private a (\<lambda>pp. pp\<lparr>pp_cursor := pp_cursor pp2 + 1\<rparr>) (write_slot slot tag value g2);
              Some (g3, slot) }) (\<lambda>(g', slot). slot_added g xs a tag value g' slot))))))"
    unfolding i1(2) wp_Some
  proof (rule wp_mono [OF next_page_ok [OF i1(1) assms(2) i1(2) c1]], elim exE conjE)
    fix g2 pp2 assume r2: "roomier g1 xs a g2 pp2" and c2: "pp_current_page pp2 \<noteq> None" "pp_cursor pp2 < page_size"
    have i2: "pinv [] g2 xs" "g_private g2 a = Some pp2" using r2 by (auto simp: roomier_def)
    obtain page where page: "pp_current_page pp2 = Some page" using c2(1) by auto
    have "wp (on_private a (\<lambda>r. r\<lparr>pp_cursor := pp_cursor pp2 + 1\<rparr>) (write_slot (page, pp_cursor pp2) tag value g2))
        (\<lambda>g'. slot_added g xs a tag value g' (page, pp_cursor pp2))"
      by (rule wp_mono [OF write_next_slot [OF i2(1) assms(2) i2(2) page c2(2)]])
        (metis slot_added_trans r1 r2)
    then show "wp (g_private g2 a) (\<lambda>pp2. wp (pp_current_page pp2) (\<lambda>page.
          wp (require (pp_cursor pp2 < page_size)) (\<lambda>_. wp (let slot = (page, pp_cursor pp2) in
            do { g3 \<leftarrow> on_private a (\<lambda>pp. pp\<lparr>pp_cursor := pp_cursor pp2 + 1\<rparr>) (write_slot slot tag value g2);
              Some (g3, slot) }) (\<lambda>(g', slot). slot_added g xs a tag value g' slot))))"
      by (simp add: i2(2) page c2(2) Let_def)
  qed
qed

section \<open>Taking an allocation\<close>

lemma relinks_parts:
  assumes "relinks g g'"
  shows "pages_ok E g' xs = pages_ok E g xs" "allocs_ok g' xs = allocs_ok g xs"
proof -
  have "private_owned g' xs = private_owned g xs" by (rule private_owned_cong) (rule relinks_same [OF assms])
  moreover have "hp_stack g' = hp_stack g" using relinks_same(1) [OF assms] by (simp add: same_stack_def)
  ultimately show "pages_ok E g' xs = pages_ok E g xs" "allocs_ok g' xs = allocs_ok g xs"
    unfolding pages_ok_def allocs_ok_def relinks_same(3-7) [OF assms] by simp_all
qed

text \<open>An idle box in hand, taken from the freelist or new.\<close>

definition boxed :: "gc \<Rightarrow> nat list \<Rightarrow> gc \<Rightarrow> nat \<Rightarrow> bool" where
  "boxed g xs g' a \<longleftrightarrow> a \<notin> set xs \<and> distinct (xs @ a # hp_alloc_freelist g') \<and>
     (\<forall>b. b \<noteq> a \<longrightarrow> unlinked (g_private g' b) = unlinked (g_private g b)) \<and> keeps None g g' \<and>
     pages_ok [] g' xs \<and> links_ok g' xs \<and> idle_alloc (unlinked (g_private g' a)) \<and>
     (\<forall>b \<in> set xs. live_alloc (unlinked (g_private g' b))) \<and>
     (\<forall>b \<in> set (hp_alloc_freelist g'). idle_alloc (unlinked (g_private g' b))) \<and>
     (\<forall>b. unlinked (g_private g' b) \<noteq> None \<longrightarrow> b < g_next_private g') \<and>
     length (hp_alloc_freelist g') \<le> max_free_allocs"

lemma boxed_from_freelist:
  assumes "pinv [] g xs" "hp_alloc_freelist g \<noteq> []"
  shows "boxed g xs (g\<lparr>hp_alloc_freelist := butlast (hp_alloc_freelist g)\<rparr>) (last (hp_alloc_freelist g))"
proof -
  let ?fl = "butlast (hp_alloc_freelist g)" and ?a = "last (hp_alloc_freelist g)"
  let ?g = "g\<lparr>hp_alloc_freelist := ?fl\<rparr>"
  have fl: "hp_alloc_freelist g = ?fl @ [?a]" using assms(2) by simp
  have al: "allocs_ok g xs" and pg: "pages_ok [] g xs" and lk: "links_ok g xs" using assms(1) by (auto simp: pinv_def)
  have d: "distinct (xs @ ?a # ?fl)" "length ?fl \<le> max_free_allocs"
    "\<forall>b \<in> set (?fl @ [?a]). idle_alloc (unlinked (g_private g b))"
    using al unfolding allocs_ok_def by (subst (asm) (1 2 3) fl, simp, blast?)+
  have "private_owned ?g xs = private_owned g xs" by (rule private_owned_cong) simp
  then have "pages_ok [] ?g xs" using pg by (simp add: pages_ok_def)
  moreover have "links_ok ?g xs" using lk by (simp add: links_ok_def)
  moreover have "keeps None g ?g" by (simp add: keeps_def same_stack_def read_slot_def)
  ultimately show ?thesis using d al by (simp add: boxed_def allocs_ok_def)
qed

lemma boxed_new:
  assumes "pinv [] g xs" "hp_alloc_freelist g = []" "unlinked (Some pp) = Some (None, k, [], False)"
  shows "boxed g xs (g\<lparr>g_private := (g_private g)(g_next_private g \<mapsto> pp),
     g_next_private := Suc (g_next_private g)\<rparr>) (g_next_private g)"
proof -
  let ?a = "g_next_private g"
  let ?g = "g\<lparr>g_private := (g_private g)(?a \<mapsto> pp), g_next_private := Suc ?a\<rparr>"
  have al: "allocs_ok g xs" and pg: "pages_ok [] g xs" and lk: "links_ok g xs" using assms(1) by (auto simp: pinv_def)
  have n: "unlinked (g_private g b) \<noteq> None \<Longrightarrow> b < ?a" for b using al by (simp add: allocs_ok_def)
  have a: "?a \<notin> set xs" using al n [of ?a] unfolding allocs_ok_def by (metis live_alloc.simps(1) less_irrefl)
  then have "private_owned ?g xs = private_owned g xs" by (intro private_owned_cong) auto
  then have "pages_ok [] ?g xs" using pg by (simp add: pages_ok_def)
  moreover have "links_ok ?g xs" by (rule links_ok_same [OF lk]) (use a in auto)
  moreover have "keeps None g ?g" by (simp add: keeps_def same_stack_def read_slot_def)
  moreover have "b < Suc ?a" if "unlinked (g_private ?g b) \<noteq> None" for b
    using n [of b] that by (cases "b = ?a") auto
  ultimately show ?thesis using a al assms(2,3) by (auto simp: boxed_def allocs_ok_def simp del: unlinked_Some)
qed

text \<open>A new live allocation without slots.\<close>

definition alloc_added :: "gc \<Rightarrow> nat list \<Rightarrow> gc \<Rightarrow> nat \<Rightarrow> bool" where
  "alloc_added g xs g' a \<longleftrightarrow> a \<notin> set xs \<and> pinv [] g' (a # xs) \<and> keeps None g g' \<and>
     (\<forall>b. b \<noteq> a \<longrightarrow> unlinked (g_private g' b) = unlinked (g_private g b)) \<and>
     (\<exists>pp. g_private g' a = Some pp \<and> pp_slots pp = {})"

lemma activate_ok:
  assumes b: "boxed g xs g1 a" and pp: "g_private g1 a = Some pp"
  shows "wp (register a (g1\<lparr>g_private := (g_private g1)(a \<mapsto> pp\<lparr>pp_cursor := 0, pp_active := True\<rparr>)\<rparr>))
    (\<lambda>g'. alloc_added g xs g' a)"
proof -
  let ?pp = "pp\<lparr>pp_cursor := 0, pp_active := True\<rparr>"
  let ?g = "g1\<lparr>g_private := (g_private g1)(a \<mapsto> ?pp)\<rparr>"
  have a: "a \<notin> set xs" "distinct xs" "keeps None g g1" using b by (auto simp: boxed_def)
  have e: "pp_current_page pp = None" "pp_full_pages pp = []" using b pp by (auto simp: boxed_def)
  have o: "private_owned ?g xs = private_owned g1 xs" by (rule private_owned_cong) (use a(1) in auto)
  have "links_ok ?g xs" by (rule links_ok_same [of g1]) (use b a(1) in \<open>auto simp: boxed_def\<close>)
  moreover have "counts_of ?g a = []" by (simp add: counts_of_def priv_counts_def e)
  then have "pages_ok [] ?g (a # xs)" using b o by (simp add: boxed_def pages_ok_def)
  moreover have "allocs_ok ?g (a # xs)" using b e pp unfolding boxed_def allocs_ok_def by auto
  ultimately show ?thesis
  proof (intro wp_mono [OF pool_register_ok [of ?g xs a ?pp]] a(1,2), goal_cases)
    case (3 g')
    then have r: "relinks ?g g'" by simp
    have "pinv [] g' (a # xs)" using 3 relinks_parts [OF r] by (simp add: pinv_def)
    moreover have "keeps None g g'"
      by (rule pool_keeps_trans [OF pool_keeps_trans [OF a(3) keeps_private] keeps_relinks [OF r]])
    moreover have "unlinked (g_private g' a) = Some (None, 0, [], True)"
      using relinks_same(7) [OF r, of a] e by simp
    then have "\<exists>pp. g_private g' a = Some pp \<and> pp_slots pp = {}"
      by (auto simp: unlinked_eq_Some pp_slots_eq)
    moreover have "unlinked (g_private g' c) = unlinked (g_private g c)" if "c \<noteq> a" for c
      using relinks_same(7) [OF r, of c] b that by (auto simp: boxed_def)
    ultimately show ?case using a(1) by (simp add: alloc_added_def)
  qed simp_all
qed

lemma private_pages_new_ok:
  assumes "pinv [] g xs"
  shows "wp (private_pages_new g) (\<lambda>(g', a). alloc_added g xs g' a)"
proof -
  let ?new = "\<lparr>pp_current_page = None, pp_cursor = 0, pp_full_pages = [], pp_next = None, pp_prev = None,
     pp_active = False\<rparr>"
  have *: "wp (register a (g1\<lparr>g_private := (g_private g1)(a \<mapsto> pp\<lparr>pp_cursor := 0, pp_active := True\<rparr>)\<rparr>))
      (\<lambda>g'. alloc_added g xs g' a) \<and> pp_current_page pp = None \<and> pp_full_pages pp = [] \<and> \<not> pp_active pp"
    if "boxed g xs g1 a" "g_private g1 a = Some pp" for g1 a pp
    using activate_ok [OF that] that by (auto simp: boxed_def)
  show ?thesis
  proof (cases "hp_alloc_freelist g = []")
    case True
    show ?thesis
      using * [OF boxed_new [OF assms True, of ?new 0]]
      by (simp add: private_pages_new_def take_alloc_def True on_private_def)
  next
    case False
    note b = boxed_from_freelist [OF assms False]
    then obtain pp where "g_private g (last (hp_alloc_freelist g)) = Some pp"
      by (cases "g_private g (last (hp_alloc_freelist g))") (auto simp: boxed_def)
    then show ?thesis using * [OF b]
      by (simp add: private_pages_new_def take_alloc_def False on_private_def)
  qed
qed

section \<open>Giving an allocation back\<close>

lemma return_pages: "fold return_page ps g = g\<lparr>hp_freelist := hp_freelist g @ ps\<rparr>"
  by (induction ps arbitrary: g) (simp_all add: return_page_def)

text \<open>Once it is out of the list, its pages go to the freelist.\<close>

lemma emptied_ok:
  assumes i: "pinv [] g xs" and a: "a \<in> set xs" "g_private g a = Some pp"
    and r: "relinks (g\<lparr>g_private := (g_private g)(a \<mapsto> pp\<lparr>pp_active := False\<rparr>)\<rparr>) g2"
    and l: "links_ok g2 (remove1 a xs)" and pp2: "g_private g2 a = Some pp2"
    and ps: "mset ps = mset (pp_pages pp)"
  shows "boxed g (remove1 a xs) (g2\<lparr>g_private := (g_private g2)(a \<mapsto> pp2\<lparr>pp_current_page := None, pp_full_pages := []\<rparr>),
    hp_freelist := hp_freelist g2 @ ps\<rparr>) a"
proof -
  let ?xs = "remove1 a xs"
  let ?g1 = "g\<lparr>g_private := (g_private g)(a \<mapsto> pp\<lparr>pp_active := False\<rparr>)\<rparr>"
  let ?g = "g2\<lparr>g_private := (g_private g2)(a \<mapsto> pp2\<lparr>pp_current_page := None, pp_full_pages := []\<rparr>),
    hp_freelist := hp_freelist g2 @ ps\<rparr>"
  have al: "allocs_ok g xs" and pg: "pages_ok [] g xs" using i by (auto simp: pinv_def)
  then have d: "distinct xs" by (simp add: allocs_ok_def)
  have a': "a \<notin> set ?xs" and x: "mset xs = add_mset a (mset ?xs)" using d a(1) by auto
  note s = relinks_same [OF r]
  have u: "unlinked (g_private ?g b) = unlinked (g_private g b)" if "b \<noteq> a" for b
    using s(7) [of b] that by simp
  have "mset (private_owned g xs) = mset (pp_pages pp) + mset (private_owned g ?xs)"
  proof -
    obtain ys zs where xs: "xs = ys @ a # zs" "a \<notin> set ys" using a(1) by (meson split_list_first)
    then show ?thesis using a(2) by (simp add: remove1_append counts_of_def pp_pages_def)
  qed
  moreover have "private_owned ?g ?xs = private_owned g ?xs"
    by (rule private_owned_cong) (use u a' in metis)
  ultimately have "pages_ok [] ?g ?xs"
    using pg s(1,3,4) ps by (simp add: pages_ok_def same_stack_def ac_simps)
  moreover have "links_ok ?g ?xs" by (rule links_ok_same [OF l]) (use a' in auto)
  moreover have "keeps None g ?g"
  proof (rule pool_keeps_trans)
    show "keeps None g g2" by (rule pool_keeps_trans [OF keeps_private keeps_relinks [OF r]])
    show "keeps None g2 ?g" by (simp add: keeps_def same_stack_def read_slot_def)
  qed
  moreover have "\<not> pp_active pp2" using s(7) [of a] pp2 by simp
  moreover have "live_alloc (unlinked (g_private ?g b))" if "b \<in> set ?xs" for b
    using u [of b] that a' al set_remove1_subset [of a xs] unfolding allocs_ok_def by (metis subsetD)
  moreover have "b \<noteq> a \<and> idle_alloc (unlinked (g_private g b))" if "b \<in> set (hp_alloc_freelist g2)" for b
    using that al a s(5) by (auto simp: allocs_ok_def simp del: unlinked_Some)
  moreover have "b < g_next_private ?g" if "unlinked (g_private ?g b) \<noteq> None" for b
    using u [of b] that al a s(6) unfolding allocs_ok_def
    by (cases "b = a") (force simp del: unlinked_Some(3))+
  moreover have "distinct (?xs @ a # hp_alloc_freelist ?g)" "length (hp_alloc_freelist ?g) \<le> max_free_allocs"
    using al a a' d s(5) set_remove1_subset [of a xs] by (auto simp: allocs_ok_def)
  ultimately show ?thesis using a' u by (simp add: boxed_def del: unlinked_Some(3))
qed

lemma return_alloc_ok:
  assumes "boxed g xs g1 a"
  shows "wp (return_alloc a g1) (\<lambda>g'. pinv [] g' xs \<and> keeps None g g' \<and>
    (\<forall>b. b \<noteq> a \<longrightarrow> unlinked (g_private g' b) = unlinked (g_private g b)))"
proof -
  note b = assms [unfolded boxed_def]
  obtain pp where pp: "g_private g1 a = Some pp" "\<not> pp_active pp"
    using b by (cases "g_private g1 a") auto
  have k: "keeps None g g1" using b by simp
  let ?g2 = "g1\<lparr>hp_alloc_freelist := hp_alloc_freelist g1 @ [a]\<rparr>"
  let ?g3 = "g1\<lparr>g_private := (g_private g1)(a := None)\<rparr>"
  have o: "private_owned ?g2 xs = private_owned g1 xs" "private_owned ?g3 xs = private_owned g1 xs"
    using b by (auto intro!: private_owned_cong)
  have "links_ok ?g2 xs" "links_ok ?g3 xs" by (rule links_ok_same [of g1]; use b in auto)+
  then have "length (hp_alloc_freelist g1) < max_free_allocs \<Longrightarrow> pinv [] ?g2 xs" "pinv [] ?g3 xs"
    using b o unfolding pinv_def pages_ok_def allocs_ok_def by auto
  moreover have "keeps None g1 ?g2" by (simp add: keeps_def same_stack_def read_slot_def)
  ultimately show ?thesis using pp b pool_keeps_trans [OF k] keeps_private by (auto simp: return_alloc_def)
qed

lemma recycle_ok:
  assumes i: "pinv [] g xs" and a: "a \<in> set xs"
  shows "wp (recycle a g) (\<lambda>g'. pinv [] g' (remove1 a xs) \<and> keeps None g g' \<and>
    (\<forall>b. b \<noteq> a \<longrightarrow> unlinked (g_private g' b) = unlinked (g_private g b)))"
proof -
  obtain pp where pp: "g_private g a = Some pp" "pp_active pp" using live_alloc_Some [OF pinv_live [OF i a]] by auto
  let ?g1 = "g\<lparr>g_private := (g_private g)(a \<mapsto> pp\<lparr>pp_active := False\<rparr>)\<rparr>"
  obtain ys zs where xs: "xs = ys @ a # zs" using a by (auto simp: in_set_conv_decomp)
  have d: "distinct xs" using i by (simp add: pinv_def allocs_ok_def)
  then have x: "remove1 a xs = ys @ zs" using xs by (simp add: remove1_append)
  have "links_ok ?g1 xs" by (rule links_ok_same [of g]) (use i pp in \<open>auto simp: pinv_def links_def\<close>)
  then have "wp (unregister a ?g1) (\<lambda>g2. links_ok g2 (remove1 a xs) \<and> relinks ?g1 g2)"
    unfolding x using unregister_ok d xs by simp
  then obtain g2 where g2: "unregister a ?g1 = Some g2" "links_ok g2 (remove1 a xs)" "relinks ?g1 g2"
    by (rule wpE) auto
  have "unlinked (g_private g2 a) = Some (pp_current_page pp, pp_cursor pp, pp_full_pages pp, False)"
    using relinks_same(7) [OF g2(3), of a] by simp
  then obtain pp2 where pp2: "g_private g2 a = Some pp2" by (auto simp: unlinked_eq_Some)
  let ?ps = "(case pp_current_page pp of None \<Rightarrow> [] | Some p \<Rightarrow> [p]) @ pp_full_pages pp"
  have "boxed g (remove1 a xs) (g2\<lparr>g_private := (g_private g2)(a \<mapsto> pp2\<lparr>pp_current_page := None, pp_full_pages := []\<rparr>),
      hp_freelist := hp_freelist g2 @ ?ps\<rparr>) a"
    by (rule emptied_ok [OF i a pp(1) g2(3,2) pp2]) (simp add: pp_pages_eq)
  from return_alloc_ok [OF this] show ?thesis
    by (simp add: recycle_def release_def pp g2(1) on_private_def pp2 return_pages return_page_def
        split: option.split_asm option.split)
qed

end
