(* ===== verification/Gc_Scopes.thy ===== *)
theory Gc_Scopes
  imports Gc_Private
begin

text \<open>
  The root stack and the levels of the scopes on it: the heights at which the scopes start, the slots of
  a scope, and what truncating the stack does to them.
\<close>

section \<open>Heights\<close>

text \<open>Where each level starts, and the top of the stack; level \<open>l\<close> uses the slots from entry \<open>l\<close> to the next.\<close>

definition heights :: "gc \<Rightarrow> nat list" where
  "heights g = map lv_base (hp_levels g) @ [hp_top g]"

definition stack_ok :: "gc \<Rightarrow> bool" where
  "stack_ok g \<longleftrightarrow> sorted (heights g) \<and> hd (heights g) = 0 \<and>
     (hp_levels g \<noteq> [] \<longrightarrow> lv_alive (last (hp_levels g))) \<and> hp_top g \<le> page_size * length (hp_stack g)"

lemma length_heights [simp]: "length (heights g) = Suc (length (hp_levels g))"
  by (simp add: heights_def)

lemma height_top: "heights g ! length (hp_levels g) = hp_top g"
  by (simp add: heights_def nth_append)

lemma height_le_top: "stack_ok g \<Longrightarrow> l \<le> length (hp_levels g) \<Longrightarrow> heights g ! l \<le> hp_top g"
  using sorted_nth_mono [of "heights g" l "length (hp_levels g)"] by (simp add: stack_ok_def height_top)

lemma stack_ok_top: "stack_ok g \<Longrightarrow> hp_levels g = [] \<Longrightarrow> hp_top g = 0"
  by (simp add: stack_ok_def heights_def)

lemma pop_dead_spec:
  "\<exists>k \<le> length ls. pop_dead (rev ls) h = (rev (take k ls), (map lv_base ls @ [h]) ! k) \<and>
     (\<forall>i < length ls. k \<le> i \<longrightarrow> \<not> lv_alive (ls ! i)) \<and> (take k ls \<noteq> [] \<longrightarrow> lv_alive (last (take k ls)))"
proof (induction ls arbitrary: h rule: rev_induct)
  case (snoc l ls)
  show ?case
  proof (cases "lv_alive l")
    case True
    then show ?thesis by (intro exI [of _ "Suc (length ls)"]) (auto simp: nth_append)
  next
    case False
    obtain k where k: "k \<le> length ls" "pop_dead (rev ls) (lv_base l) = (rev (take k ls), (map lv_base ls @ [lv_base l]) ! k)"
      "\<forall>i < length ls. k \<le> i \<longrightarrow> \<not> lv_alive (ls ! i)" "take k ls \<noteq> [] \<longrightarrow> lv_alive (last (take k ls))"
      using snoc.IH by blast
    have "(map lv_base (ls @ [l]) @ [h]) ! k = (map lv_base ls @ [lv_base l]) ! k"
      using k(1) by (cases "k = length ls") (auto simp: nth_append)
    moreover have "\<forall>i < length (ls @ [l]). k \<le> i \<longrightarrow> \<not> lv_alive ((ls @ [l]) ! i)"
      using k(3) False by (auto simp: nth_append less_Suc_eq)
    ultimately show ?thesis using k False by (intro exI [of _ k]) simp
  qed
qed simp

text \<open>Dropping a level cuts off the dead ones above the last live one.\<close>

definition cut_to :: "nat \<Rightarrow> nat \<Rightarrow> gc \<Rightarrow> gc \<Rightarrow> bool" where
  "cut_to level k g g' \<longleftrightarrow> k \<le> length (hp_levels g) \<and> length (hp_levels g') = k \<and>
     heights g' = take (Suc k) (heights g) \<and>
     (\<forall>i < length (hp_levels g). i \<noteq> level \<longrightarrow> lv_alive (hp_levels g ! i) \<longrightarrow> i < k) \<and>
     (\<forall>i < k. lv_alive (hp_levels g' ! i) \<longleftrightarrow> i \<noteq> level \<and> lv_alive (hp_levels g ! i)) \<and>
     (\<exists>ls h. g' = g\<lparr>hp_levels := ls, hp_top := h\<rparr>)"

lemma heights_truncated:
  assumes "k \<le> length ls" "map lv_base ls = map lv_base (hp_levels g)"
  shows "heights (g\<lparr>hp_levels := take k ls, hp_top := (map lv_base ls @ [hp_top g]) ! k\<rparr>) =
    take (Suc k) (heights g)"
proof -
  have "take (Suc k) (map lv_base ls @ [hp_top g]) = take k (map lv_base ls @ [hp_top g]) @ [(map lv_base ls @ [hp_top g]) ! k]"
    using assms(1) by (intro take_Suc_conv_app_nth) simp
  then show ?thesis using assms(1) by (simp add: heights_def take_map flip: assms(2))
qed

lemma pop_level_ok:
  assumes "stack_ok g" "level < length (hp_levels g)"
  shows "wp (pop_level level g) (\<lambda>g'. stack_ok g' \<and> (\<exists>k. cut_to level k g g'))"
proof -
  let ?ls = "(hp_levels g)[level := (hp_levels g ! level)\<lparr>lv_alive := False\<rparr>]"
  obtain k where k: "k \<le> length ?ls" "pop_dead (rev ?ls) (hp_top g) = (rev (take k ?ls), (map lv_base ?ls @ [hp_top g]) ! k)"
    "\<forall>i < length ?ls. k \<le> i \<longrightarrow> \<not> lv_alive (?ls ! i)" "take k ?ls \<noteq> [] \<longrightarrow> lv_alive (last (take k ?ls))"
    using pop_dead_spec by blast
  let ?g = "g\<lparr>hp_levels := take k ?ls, hp_top := (map lv_base ?ls @ [hp_top g]) ! k\<rparr>"
  have b: "map lv_base ?ls = map lv_base (hp_levels g)"
    using assms(2) by (intro nth_equalityI) (auto simp: nth_list_update)
  have h: "heights ?g = take (Suc k) (heights g)" by (rule heights_truncated [OF k(1) b])
  have kl: "k \<le> length (hp_levels g)" using k(1) by simp
  have "hp_top ?g = heights g ! k" using b by (simp add: heights_def)
  then have "hp_top ?g \<le> hp_top g" using height_le_top [OF assms(1) kl] by simp
  then have "stack_ok ?g" using assms(1) k(4) unfolding stack_ok_def h
    by (auto simp: sorted_wrt_take hd_conv_nth)
  moreover
  have al: "lv_alive (?ls ! i) \<longleftrightarrow> i \<noteq> level \<and> lv_alive (hp_levels g ! i)" if "i < length (hp_levels g)" for i
    using assms(2) by (simp add: nth_list_update)
  have "i < k" if "i < length (hp_levels g)" "i \<noteq> level" "lv_alive (hp_levels g ! i)" for i
    using that al [OF that(1)] k(3) by (metis length_list_update not_less)
  then have "cut_to level k g ?g" unfolding cut_to_def h using kl al by auto
  ultimately show ?thesis using assms(2) k(2) by (auto simp: pop_level_def)
qed

section \<open>Slots on the stack\<close>

lemma stack_page: "stack_ok g \<Longrightarrow> i < hp_top g \<Longrightarrow> i div page_size < length (hp_stack g)"
  by (simp add: stack_ok_def less_mult_imp_div_less mult.commute)

lemma stack_slot_inj:
  assumes "distinct (hp_stack g)" "i div page_size < length (hp_stack g)" "j div page_size < length (hp_stack g)"
    and eq: "stack_slot g i = stack_slot g j"
  shows "i = j"
proof -
  have "hp_stack g ! (i div page_size) = hp_stack g ! (j div page_size)" and m: "i mod page_size = j mod page_size"
    using eq by (simp_all add: stack_slot_def)
  then have "i div page_size = j div page_size" using nth_eq_iff_index_eq [OF assms(1-3)] by simp
  with m show ?thesis by (metis div_mult_mod_eq)
qed

lemma pinv_distinct:
  assumes "pinv E g xs"
  shows "distinct (hp_stack g)" "set (hp_stack g) \<inter> set (private_owned g xs) = {}"
    "set (hp_stack g) \<union> set (private_owned g xs) \<subseteq> {..<g_next_page g}"
  using pages_okD [of E g xs] assms by (auto simp: pinv_def)

text \<open>The slots there are roots in: the stack up to its top, and the private pages.\<close>

definition live_slots :: "gc \<Rightarrow> nat list \<Rightarrow> slot list" where
  "live_slots g xs = slots_of (stack_counts (hp_top g) 0 (hp_stack g) @ concat (map (counts_of g) xs))"

lemma stack_slot_live:
  assumes "stack_ok g" "i < hp_top g"
  shows "stack_slot g i \<in> set (live_slots g xs)"
  using stack_slot_counted [OF stack_page [OF assms], of "i mod page_size" 0 "hp_top g"] assms(2)
  by (simp add: live_slots_def stack_slot_def)

lemma private_slot_live:
  "a \<in> set xs \<Longrightarrow> g_private g a = Some pp \<Longrightarrow> q \<in> pp_slots pp \<Longrightarrow> q \<in> set (live_slots g xs)"
  by (cases q) (force simp: live_slots_def pp_slots_def in_slots_of counts_of_def)

lemma live_slots_distinct:
  assumes "pinv E g xs"
  shows "distinct (live_slots g xs)"
  unfolding live_slots_def
proof (rule distinct_slots_of, unfold map_append distinct_append, intro conjI)
  have d: "distinct (hp_stack g @ private_owned g xs)" using pages_okD(1) assms by (auto simp: pinv_def)
  then show "distinct (map fst (stack_counts (hp_top g) 0 (hp_stack g)))" by (simp add: distinct_stack_counts)
  have p: "map fst (concat (map (counts_of g) xs)) = private_owned g xs"
    by (simp add: private_owned_def map_concat comp_def)
  then show "distinct (map fst (concat (map (counts_of g) xs)))" using d by simp
  show "set (map fst (stack_counts (hp_top g) 0 (hp_stack g))) \<inter> set (map fst (concat (map (counts_of g) xs))) = {}"
    unfolding p using d stack_counts_pages [of "hp_top g" 0 "hp_stack g"] by auto
qed

section \<open>Pushing a slot\<close>

definition pushed :: "gc \<Rightarrow> nat list \<Rightarrow> slot_tag \<Rightarrow> word64 \<Rightarrow> gc \<Rightarrow> slot \<Rightarrow> bool" where
  "pushed g xs tag value g' slot \<longleftrightarrow> pinv [] g' xs \<and> stack_ok g' \<and> hp_levels g' = hp_levels g \<and>
     hp_top g' = Suc (hp_top g) \<and> slot = stack_slot g' (hp_top g) \<and>
     (\<forall>i < hp_top g. stack_slot g' i = stack_slot g i) \<and> g_private g' = g_private g \<and>
     read_slot g' slot = (tag, value) \<and>
     (\<forall>q. fst q < g_next_page g \<longrightarrow> q \<noteq> slot \<longrightarrow> read_slot g' q = read_slot g q) \<and>
     hp_root_tracers g' = hp_root_tracers g"

text \<open>The stack has room, after it has grown if need be.\<close>

definition grown :: "gc \<Rightarrow> nat list \<Rightarrow> gc \<Rightarrow> bool" where
  "grown g xs g1 \<longleftrightarrow> pinv [] g1 xs \<and> hp_levels g1 = hp_levels g \<and> hp_top g1 = hp_top g \<and>
     hp_top g < page_size * length (hp_stack g1) \<and> (\<exists>ps. hp_stack g1 = hp_stack g @ ps) \<and>
     g_private g1 = g_private g \<and> (\<forall>q. fst q < g_next_page g \<longrightarrow> read_slot g1 q = read_slot g q) \<and>
     hp_root_tracers g1 = hp_root_tracers g"

lemma grow_stack_ok:
  assumes i: "pinv [] g xs" and s: "stack_ok g"
  shows "grown g xs (if hp_top g div page_size = length (hp_stack g) then grow_stack g else g)"
proof (cases "hp_top g div page_size = length (hp_stack g)")
  case True
  then have "hp_top g < page_size * (length (hp_stack g) + 1)"
    using dividend_less_div_times [of page_size "hp_top g"] by (simp add: algebra_simps)
  moreover have "private_owned (grow_stack g) xs = private_owned g xs"
    by (rule private_owned_cong) (simp add: grow_stack_def box_page_def)
  then have "pinv [] (grow_stack g) xs"
    using i by (simp add: pinv_def pages_ok_def allocs_ok_def links_ok_def grow_stack_def box_page_def)
  ultimately show ?thesis using True
    by (simp add: grown_def grow_stack_def box_page_def read_slot_def)
next
  case False
  moreover have "hp_top g \<le> page_size * length (hp_stack g)" using s by (simp add: stack_ok_def)
  ultimately have "hp_top g < page_size * length (hp_stack g)"
    by (metis div_mult_self1_is_m le_neq_implies_less zero_less_numeral)
  with False i show ?thesis by (simp add: grown_def)
qed

lemma stack_alloc_ok:
  assumes i: "pinv [] g xs" and s: "stack_ok g" and l: "hp_levels g \<noteq> []"
  shows "wp (stack_alloc tag value g) (\<lambda>(g', slot). pushed g xs tag value g' slot)"
proof -
  define g1 where "g1 = (if hp_top g div page_size = length (hp_stack g) then grow_stack g else g)"
  have g: "grown g xs g1" unfolding g1_def by (rule grow_stack_ok [OF i s])
  let ?slot = "(hp_stack g1 ! (hp_top g div page_size), hp_top g mod page_size)"
  let ?g = "(write_slot ?slot tag value g1)\<lparr>hp_top := hp_top g + 1\<rparr>"
  have "hp_top g div page_size < length (hp_stack g1)"
    using g by (simp add: grown_def less_mult_imp_div_less mult.commute)
  moreover have "pinv [] ?g xs"
    using g by (subst pinv_pages_only [where g = g1]) (simp_all add: grown_def)
  moreover have "stack_ok ?g"
    using g s l by (auto simp: stack_ok_def grown_def heights_def sorted_append hd_append)
  moreover have "stack_slot ?g i = stack_slot g i" if "i < hp_top g" for i
    using stack_page [OF s that] g by (auto simp: stack_slot_def grown_def nth_append)
  ultimately have "hp_top g div page_size < length (hp_stack g1) \<and> pushed g xs tag value ?g ?slot"
    using g by (simp add: pushed_def grown_def stack_slot_def read_slot_def write_slot_def)
  then show ?thesis by (simp add: stack_alloc_def g1_def [symmetric] Let_def del: One_nat_def)
qed

end
