(* ===== verification/Gc_World.thy ===== *)
theory Gc_World
  imports Gc_Scopes
begin

text \<open>
  A thread's scopes and handles: the invariant of the pool and of who uses which slot, kept by every
  command, and an abstract account of the handles that the commands refine.
\<close>

section \<open>A collection\<close>

lemma private_trace_eq: "private_trace mv pp g = fold (trace_slot mv) (slots_of (priv_counts pp)) g"
proof -
  have "fold (\<lambda>page. trace_page mv page page_size) ps g =
      fold (trace_slot mv) (slots_of (map (\<lambda>p. (p, page_size)) ps)) g" for ps
    by (induction ps arbitrary: g) (simp_all add: trace_page_eq)
  then show ?thesis by (simp add: private_trace_def priv_counts_def trace_page_eq split: option.split)
qed

lemma trace_same: "g_private (fold (trace_slot mv) ps g) = g_private g"
  "hp_root_tracers (fold (trace_slot mv) ps g) = hp_root_tracers g"
  "hp_active_head (fold (trace_slot mv) ps g) = hp_active_head g"
  "g_next_private (fold (trace_slot mv) ps g) = g_next_private g"
  using trace_slot_shape [of mv ps g] by auto

lemma trace_active_eq:
  "segment (g_private g) prev h xs l None \<Longrightarrow> length xs \<le> fuel \<Longrightarrow>
     trace_active mv fuel h g = Some (fold (trace_slot mv) (slots_of (concat (map (counts_of g) xs))) g)"
proof (induction xs arbitrary: prev h fuel g)
  case (Cons a xs)
  obtain pp where pp: "h = Some a" "g_private g a = Some pp" "segment (g_private g) (Some a) (pp_next pp) xs l None"
    using Cons.prems(1) by auto
  obtain n where n: "fuel = Suc n" "length xs \<le> n" using Cons.prems(2) by (cases fuel) auto
  let ?g = "private_trace mv pp g"
  have same: "g_private ?g = g_private g" by (simp add: private_trace_eq trace_same)
  then have "counts_of ?g = counts_of g" by (simp add: counts_of_def fun_eq_iff)
  moreover have "trace_active mv n (pp_next pp) ?g =
      Some (fold (trace_slot mv) (slots_of (concat (map (counts_of ?g) xs))) ?g)"
    using Cons.IH [of ?g] pp(3) n(2) same by metis
  ultimately show ?case using pp n(1) by (simp add: private_trace_eq counts_of_Some)
qed (cases fuel, simp_all)

text \<open>The list of live allocations is shorter than the number of boxes ever made.\<close>

lemma fuel_enough: "pinv E g xs \<Longrightarrow> length xs \<le> g_next_private g"
proof -
  assume i: "pinv E g xs"
  then have d: "distinct xs" by (simp add: pinv_def allocs_ok_def)
  have "a < g_next_private g" if "a \<in> set xs" for a
    using pinv_live [OF i that] i unfolding pinv_def allocs_ok_def by (metis live_alloc.simps(1))
  then have "card (set xs) \<le> card {..<g_next_private g}" by (intro card_mono) auto
  with d show ?thesis by (simp add: distinct_card)
qed

lemma pool_trace_ok:
  assumes "pinv [] g xs"
  shows "wp (pool_trace mv g) (\<lambda>(g', tracers). tracers = hp_root_tracers g \<and> (\<exists>m. g' = g\<lparr>g_pages := m\<rparr>) \<and>
    (\<forall>q. read_slot g' q = (if q \<in> set (live_slots g xs) then moved mv (read_slot g q) else read_slot g q)))"
proof -
  let ?g1 = "trace_stack mv (hp_top g) 0 (hp_stack g) g"
  have g1: "?g1 = fold (trace_slot mv) (slots_of (stack_counts (hp_top g) 0 (hp_stack g))) g"
    by (rule trace_stack_eq)
  obtain l where l: "segment (g_private g) None (hp_active_head g) xs l None"
    using assms by (auto simp: pinv_def links_ok_def)
  have same: "g_private ?g1 = g_private g" "hp_active_head ?g1 = hp_active_head g"
    "hp_root_tracers ?g1 = hp_root_tracers g" by (simp_all add: g1 trace_same)
  then have "counts_of ?g1 = counts_of g" by (simp add: counts_of_def fun_eq_iff)
  then have "trace_active mv (g_next_private g) (hp_active_head ?g1) ?g1 =
      Some (fold (trace_slot mv) (slots_of (concat (map (counts_of g) xs))) ?g1)"
    using trace_active_eq [of ?g1 None "hp_active_head ?g1" xs l] fuel_enough [OF assms] l same by simp
  then have "pool_trace mv g = Some (fold (trace_slot mv) (live_slots g xs) g, hp_root_tracers g)"
    by (simp add: pool_trace_def same live_slots_def g1 [symmetric])
  then show ?thesis
    using trace_slot_shape [of mv "live_slots g xs" g] read_trace [OF live_slots_distinct [OF assms]] by simp
qed

section \<open>The invariant of a thread\<close>

text \<open>The slots a scope may have given out.\<close>

definition in_scope :: "gc \<Rightarrow> scope_alloc \<Rightarrow> slot \<Rightarrow> bool" where
  "in_scope g sa slot \<longleftrightarrow>
     (\<exists>i. heights g ! sa_level sa \<le> i \<and> i < heights g ! Suc (sa_level sa) \<and> slot = stack_slot g i) \<or>
     (\<exists>a pp. sa_private sa = Some a \<and> g_private g a = Some pp \<and> slot \<in> pp_slots pp)"

text \<open>Every scope has a live level of its own, and every live private allocation one scope.\<close>

definition scopes_ok :: "level list \<Rightarrow> (nat \<Rightarrow> scope_alloc option) \<Rightarrow> nat \<Rightarrow> nat list \<Rightarrow> bool" where
  "scopes_ok ls sc n xs \<longleftrightarrow>
     (\<forall>s sa. sc s = Some sa \<longrightarrow> s < n \<and> sa_level sa < length ls \<and> lv_alive (ls ! sa_level sa)) \<and>
     (\<forall>s t sa sb. sc s = Some sa \<longrightarrow> sc t = Some sb \<longrightarrow> sa_level sa = sa_level sb \<longrightarrow> s = t) \<and>
     (\<forall>s t sa sb a. sc s = Some sa \<longrightarrow> sc t = Some sb \<longrightarrow> sa_private sa = Some a \<longrightarrow> sa_private sb = Some a \<longrightarrow> s = t) \<and>
     (\<forall>l < length ls. lv_alive (ls ! l) \<longrightarrow> (\<exists>s sa. sc s = Some sa \<and> sa_level sa = l)) \<and>
     (\<forall>a. a \<in> set xs \<longleftrightarrow> (\<exists>s sa. sc s = Some sa \<and> sa_private sa = Some a))"

definition handles_ok :: "gc \<Rightarrow> (nat \<Rightarrow> scope_alloc option) \<Rightarrow> (nat \<times> slot) list \<Rightarrow> bool" where
  "handles_ok g sc hs \<longleftrightarrow> distinct (map snd hs) \<and>
     (\<forall>s slot. (s, slot) \<in> set hs \<longrightarrow> (\<exists>sa. sc s = Some sa \<and> in_scope g sa slot))"

definition thread_inv :: "nat list \<Rightarrow> gc_world \<Rightarrow> bool" where
  "thread_inv xs w \<longleftrightarrow> pinv [] (w_pool w) xs \<and> stack_ok (w_pool w) \<and>
     scopes_ok (hp_levels (w_pool w)) (w_scopes w) (w_next_scope w) xs \<and>
     handles_ok (w_pool w) (w_scopes w) (w_handles w)"

lemma in_scope_live:
  assumes "stack_ok g" "sa_level sa < length (hp_levels g)" "in_scope g sa slot"
    "\<And>a. sa_private sa = Some a \<Longrightarrow> a \<in> set xs"
  shows "slot \<in> set (live_slots g xs)"
  using assms(3) unfolding in_scope_def
proof (elim disjE exE conjE)
  fix i assume i: "i < heights g ! Suc (sa_level sa)" "slot = stack_slot g i"
  then have "i < hp_top g" using height_le_top [OF assms(1), of "Suc (sa_level sa)"] assms(2) by simp
  then show ?thesis using stack_slot_live [OF assms(1)] i(2) by simp
next
  fix a pp assume "sa_private sa = Some a" "g_private g a = Some pp" "slot \<in> pp_slots pp"
  then show ?thesis using private_slot_live assms(4) by blast
qed

lemma live_slot_page:
  assumes "pinv E g xs" "q \<in> set (live_slots g xs)"
  shows "fst q < g_next_page g"
proof -
  have "fst q \<in> fst ` set (stack_counts (hp_top g) 0 (hp_stack g)) \<union> set (private_owned g xs)"
    using slot_page [OF assms(2) [unfolded live_slots_def]]
    by (simp add: image_Un private_owned_def image_UN)
  then show ?thesis using stack_counts_pages [of "hp_top g" 0 "hp_stack g"] pinv_distinct(3) [OF assms(1)] by auto
qed

lemma handle_live:
  assumes "thread_inv xs w" "(s, slot) \<in> set (w_handles w)"
  shows "slot \<in> set (live_slots (w_pool w) xs)"
proof -
  obtain sa where sa: "w_scopes w s = Some sa" "in_scope (w_pool w) sa slot"
    using assms unfolding thread_inv_def handles_ok_def by blast
  show ?thesis
    by (rule in_scope_live [OF _ _ sa(2)]) (use assms(1) sa(1) in \<open>auto simp: thread_inv_def scopes_ok_def\<close>)
qed

lemma in_scope_mono:
  assumes "in_scope g sa q" "sa_level sa' = sa_level sa"
    and h: "heights g' ! sa_level sa = heights g ! sa_level sa"
      "heights g ! Suc (sa_level sa) \<le> heights g' ! Suc (sa_level sa)"
    and s: "\<And>i. i < heights g ! Suc (sa_level sa) \<Longrightarrow> stack_slot g' i = stack_slot g i"
    and p: "\<And>a pp. sa_private sa = Some a \<Longrightarrow> g_private g a = Some pp \<Longrightarrow>
      sa_private sa' = Some a \<and> (\<exists>pp'. g_private g' a = Some pp' \<and> pp_slots pp \<subseteq> pp_slots pp')"
  shows "in_scope g' sa' q"
  using assms(1) unfolding in_scope_def
proof (elim disjE exE conjE)
  fix i assume i: "heights g ! sa_level sa \<le> i" "i < heights g ! Suc (sa_level sa)" "q = stack_slot g i"
  then have "heights g' ! sa_level sa' \<le> i \<and> i < heights g' ! Suc (sa_level sa') \<and> q = stack_slot g' i"
    using assms(2) h s [OF i(2)] by simp
  then show "(\<exists>i. heights g' ! sa_level sa' \<le> i \<and> i < heights g' ! Suc (sa_level sa') \<and> q = stack_slot g' i) \<or>
      (\<exists>a pp. sa_private sa' = Some a \<and> g_private g' a = Some pp \<and> q \<in> pp_slots pp)" by blast
next
  fix a pp assume "sa_private sa = Some a" "g_private g a = Some pp" "q \<in> pp_slots pp"
  then show "(\<exists>i. heights g' ! sa_level sa' \<le> i \<and> i < heights g' ! Suc (sa_level sa') \<and> q = stack_slot g' i) \<or>
      (\<exists>a pp. sa_private sa' = Some a \<and> g_private g' a = Some pp \<and> q \<in> pp_slots pp)" using p by blast
qed

lemma pp_slots_unlinked:
  assumes "unlinked (g_private g' a) = unlinked (g_private g a)" "g_private g a = Some pp"
  shows "\<exists>pp'. g_private g' a = Some pp' \<and> pp_slots pp \<subseteq> pp_slots pp'"
  using assms by (auto simp: unlinked_eq_Some pp_slots_eq)

lemma heights_same: "hp_levels g' = hp_levels g \<Longrightarrow> hp_top g' = hp_top g \<Longrightarrow> heights g' = heights g"
  by (simp add: heights_def)

lemma stack_slot_same: "hp_stack g' = hp_stack g \<Longrightarrow> stack_slot g' i = stack_slot g i"
  by (simp add: stack_slot_def)

text \<open>The slots of two private allocations, and of the stack, are apart.\<close>

lemma concat_disjoint:
  "distinct (concat (map f xs)) \<Longrightarrow> a \<in> set xs \<Longrightarrow> b \<in> set xs \<Longrightarrow> a \<noteq> b \<Longrightarrow> set (f a) \<inter> set (f b) = {}"
  by (induction xs) auto

lemma pp_slot_page: "q \<in> pp_slots pp \<Longrightarrow> fst q \<in> set (pp_pages pp)"
  by (auto simp: pp_slots_eq pp_pages_eq)

lemma private_slots_apart:
  assumes "pinv E g xs" "a \<in> set xs" "b \<in> set xs" "g_private g a = Some pp" "g_private g b = Some pq"
    "q \<in> pp_slots pp" "q \<in> pp_slots pq"
  shows "a = b"
proof (rule ccontr)
  assume "a \<noteq> b"
  moreover have "distinct (private_owned g xs)" using pages_okD(1) assms(1) by (auto simp: pinv_def)
  ultimately have "set (map fst (counts_of g a)) \<inter> set (map fst (counts_of g b)) = {}"
    using concat_disjoint [where f = "\<lambda>a. map fst (counts_of g a)"] assms(2,3) by (simp add: private_owned_def)
  then show False
    using pp_slot_page [OF assms(6)] pp_slot_page [OF assms(7)] assms(4,5)
    by (auto simp: counts_of_def pp_pages_def)
qed

lemma private_slot_not_stack:
  assumes "pinv E g xs" "a \<in> set xs" "g_private g a = Some pp" "q \<in> pp_slots pp"
    "stack_ok g" "i < hp_top g"
  shows "q \<noteq> stack_slot g i"
proof -
  have "fst (stack_slot g i) \<in> set (hp_stack g)"
    using stack_page [OF assms(5,6)] by (simp add: stack_slot_def)
  then show ?thesis
    using private_pages_distinct(2) [OF assms(1-3)] pp_slot_page [OF assms(4)] by auto
qed

section \<open>Rooting\<close>

lemma handles_ok_add:
  assumes "handles_ok g sc hs" "\<And>t sb q. sc t = Some sb \<Longrightarrow> in_scope g sb q \<Longrightarrow>
      q \<noteq> slot \<and> (\<exists>sb'. sc' t = Some sb' \<and> in_scope g' sb' q)"
    "sc' s = Some sa'" "in_scope g' sa' slot"
  shows "handles_ok g' sc' (hs @ [(s, slot)])"
proof -
  have *: "q \<noteq> slot \<and> (\<exists>sb'. sc' t = Some sb' \<and> in_scope g' sb' q)" if "(t, q) \<in> set hs" for t q
  proof -
    have "\<exists>sb. sc t = Some sb \<and> in_scope g sb q" using assms(1) that unfolding handles_ok_def by blast
    with assms(2) show ?thesis by blast
  qed
  then have "(t, slot) \<notin> set hs" for t by blast
  then have "slot \<notin> snd ` set hs" by auto
  moreover have "distinct (map snd hs)" using assms(1) by (simp add: handles_ok_def)
  ultimately have "distinct (map snd (hs @ [(s, slot)]))" by simp
  moreover have "\<exists>sb'. sc' t = Some sb' \<and> in_scope g' sb' q" if "(t, q) \<in> set (hs @ [(s, slot)])" for t q
    using * [of t q] that assms(3,4) by auto
  ultimately show ?thesis unfolding handles_ok_def by blast
qed

lemma scope_parts:
  assumes "thread_inv xs w" "w_scopes w s = Some sa"
  shows "s < w_next_scope w" "sa_level sa < length (hp_levels (w_pool w))"
    "lv_alive (hp_levels (w_pool w) ! sa_level sa)" "\<And>a. sa_private sa = Some a \<Longrightarrow> a \<in> set xs"
  using assms unfolding thread_inv_def scopes_ok_def by blast+

lemma heights_pushed:
  "pushed g xs tag value g' slot \<Longrightarrow> l < length (hp_levels g) \<Longrightarrow> heights g' ! l = heights g ! l"
  "pushed g xs tag value g' slot \<Longrightarrow> l \<le> length (hp_levels g) \<Longrightarrow> heights g ! l \<le> heights g' ! l"
  by (auto simp: pushed_def heights_def nth_append)

lemma root_on_stack:
  assumes i: "thread_inv xs w" and sa: "w_scopes w s = Some sa"
    and inner: "sa_level sa = length (hp_levels (w_pool w)) - 1"
    and p: "pushed (w_pool w) xs tag value g' slot"
  shows "thread_inv xs (w\<lparr>w_pool := g', w_scopes := (w_scopes w)(s \<mapsto> sa), w_handles := w_handles w @ [(s, slot)]\<rparr>)"
proof -
  let ?g = "w_pool w"
  note sc = scope_parts [OF i]
  have st: "stack_ok ?g" and pi: "pinv [] ?g xs" using i by (simp_all add: thread_inv_def)
  have st': "stack_ok g'" and pi': "pinv [] g' xs" and top: "hp_top g' = Suc (hp_top ?g)"
    and slot: "slot = stack_slot g' (hp_top ?g)" and lv: "hp_levels g' = hp_levels ?g"
    and pr: "g_private g' = g_private ?g" and ss: "\<And>i. i < hp_top ?g \<Longrightarrow> stack_slot g' i = stack_slot ?g i"
    using p by (simp_all add: pushed_def)
  have "q \<noteq> slot \<and> in_scope g' sb q" if t: "w_scopes w t = Some sb" "in_scope ?g sb q" for t sb q
  proof
    have le: "heights ?g ! Suc (sa_level sb) \<le> hp_top ?g"
      using height_le_top [OF st, of "Suc (sa_level sb)"] sc(2) [OF t(1)] by simp
    show "in_scope g' sb q"
      by (rule in_scope_mono [OF t(2) refl])
        (use heights_pushed [OF p] sc(2) [OF t(1)] le ss pr in auto)
    show "q \<noteq> slot"
      using t(2) unfolding in_scope_def
    proof (elim disjE exE conjE)
      fix j assume j: "j < heights ?g ! Suc (sa_level sb)" "q = stack_slot ?g j"
      then have "q = stack_slot g' j" "j < hp_top ?g" using le ss by simp_all
      then show "q \<noteq> slot"
        using stack_slot_inj [OF pinv_distinct(1) [OF pi'], of j "hp_top ?g"] stack_page [OF st'] top slot by auto
    next
      fix a pp assume "sa_private sb = Some a" "g_private ?g a = Some pp" "q \<in> pp_slots pp"
      then show "q \<noteq> slot" unfolding slot
        using private_slot_not_stack [OF pi', where i = "hp_top ?g"] sc(4) [OF t(1)] pr st' top by simp
    qed
  qed
  moreover have "in_scope g' sa slot"
  proof -
    have n: "0 < length (hp_levels ?g)" "Suc (sa_level sa) = length (hp_levels ?g)" using sc(2) [OF sa] inner by auto
    have "heights g' ! sa_level sa \<le> hp_top ?g"
      using heights_pushed(1) [OF p sc(2) [OF sa]] height_le_top [OF st, of "sa_level sa"] sc(2) [OF sa] by simp
    moreover have "hp_top ?g < heights g' ! Suc (sa_level sa)" using height_top [of g'] lv top n(2) by simp
    ultimately show ?thesis using slot by (auto simp: in_scope_def)
  qed
  ultimately have "handles_ok g' ((w_scopes w)(s \<mapsto> sa)) (w_handles w @ [(s, slot)])"
    by (intro handles_ok_add [of ?g "w_scopes w"]) (use i sa in \<open>auto simp: thread_inv_def\<close>)
  then show ?thesis using i sa pi' st' lv by (simp add: thread_inv_def fun_upd_idem)
qed

text \<open>A slot in private pages, the scope's own or ones it takes for it.\<close>

definition rooted_apart :: "gc \<Rightarrow> nat list \<Rightarrow> scope_alloc \<Rightarrow> slot_tag \<Rightarrow> word64 \<Rightarrow> gc \<Rightarrow> nat list \<Rightarrow> nat \<Rightarrow> slot \<Rightarrow> bool" where
  "rooted_apart g xs sa tag value g' xs' a slot \<longleftrightarrow>
     (sa_private sa = Some a \<and> xs' = xs \<or> sa_private sa = None \<and> a \<notin> set xs \<and> xs' = a # xs) \<and>
     pinv [] g' xs' \<and> keeps (Some slot) g g' \<and> read_slot g' slot = (tag, value) \<and>
     (\<forall>b. b \<noteq> a \<longrightarrow> unlinked (g_private g' b) = unlinked (g_private g b)) \<and>
     (\<exists>pp'. g_private g' a = Some pp' \<and> slot \<in> pp_slots pp' \<and>
        (\<forall>pp. sa_private sa = Some a \<longrightarrow> g_private g a = Some pp \<longrightarrow> slot \<notin> pp_slots pp \<and> pp_slots pp \<subseteq> pp_slots pp'))"

lemma private_alloc_ok:
  assumes i: "pinv [] g xs" and m: "\<And>a. sa_private sa = Some a \<Longrightarrow> a \<in> set xs"
  shows "wp (private_alloc tag value sa g) (\<lambda>(g', sa', slot).
    \<exists>a xs'. sa' = sa\<lparr>sa_private := Some a\<rparr> \<and> rooted_apart g xs sa tag value g' xs' a slot)"
proof (cases "sa_private sa")
  case (Some a)
  then obtain pp where pp: "g_private g a = Some pp" using live_alloc_Some [OF pinv_live [OF i m]] by auto
  have "wp (private_pages_alloc a tag value g) (\<lambda>(g', slot). rooted_apart g xs sa tag value g' xs a slot)"
  proof (rule wp_mono [OF private_pages_alloc_ok [OF i m [OF Some] pp]], clarify)
    fix g' p k assume "slot_added g xs a tag value g' (p, k)"
    then show "rooted_apart g xs sa tag value g' xs a (p, k)"
      using Some by (auto simp: slot_added_def rooted_apart_def)
  qed
  then show ?thesis using Some
    by (simp add: private_alloc_def) (erule wp_mono, clarsimp, blast)
next
  case None
  obtain g1 a where n: "private_pages_new g = Some (g1, a)" "alloc_added g xs g1 a"
    using private_pages_new_ok [OF i] by (rule wp_pairE)
  then obtain pp where pp: "g_private g1 a = Some pp" "pp_slots pp = {}" by (auto simp: alloc_added_def)
  have i1: "pinv [] g1 (a # xs)" using n(2) by (simp add: alloc_added_def)
  have "wp (private_pages_alloc a tag value g1) (\<lambda>(g', slot). rooted_apart g xs sa tag value g' (a # xs) a slot)"
  proof (rule wp_mono [OF private_pages_alloc_ok [OF i1 _ pp(1)]], simp, clarify)
    fix g' p k assume "slot_added g1 (a # xs) a tag value g' (p, k)"
    then show "rooted_apart g xs sa tag value g' (a # xs) a (p, k)"
      using None n(2) pool_keeps_trans [of g g1 "Some (p, k)" g']
      by (auto simp: slot_added_def rooted_apart_def alloc_added_def)
  qed
  then show ?thesis using None n(1)
    by (simp add: private_alloc_def) (erule wp_mono, clarsimp, blast)
qed

lemma scopes_ok_update:
  assumes s: "scopes_ok ls sc n xs" and sa: "sc s = Some sa"
    and a: "sa_private sa = Some a \<and> xs' = xs \<or> sa_private sa = None \<and> a \<notin> set xs \<and> xs' = a # xs"
  shows "scopes_ok ls (sc(s \<mapsto> sa\<lparr>sa_private := Some a\<rparr>)) n xs'"
proof -
  let ?sc = "sc(s \<mapsto> sa\<lparr>sa_private := Some a\<rparr>)"
  note s' = s [unfolded scopes_ok_def]
  have prior: "\<exists>sb'. sc t = Some sb' \<and> sa_level sb' = sa_level sb" if "?sc t = Some sb" for t sb
    using that sa by (cases "t = s") auto
  have priv: "(sc t = Some sb \<and> sa_private sb = Some b) \<or> (t = s \<and> b = a)" if "?sc t = Some sb" "sa_private sb = Some b" for t sb b
    using that by (cases "t = s") auto
  have fwd: "\<exists>sb. ?sc t = Some sb \<and> sa_level sb = sa_level sb' \<and> (sa_private sb' = Some b \<longrightarrow> sa_private sb = Some b)"
    if "sc t = Some sb'" for t sb' b
    using that sa a by (cases "t = s") auto
  have uniq: "t = s" if "sc t = Some sb" "sa_private sb = Some a" for t sb
    using s' that sa a by blast
  have "t < n \<and> sa_level sb < length ls \<and> lv_alive (ls ! sa_level sb)" if "?sc t = Some sb" for t sb
    using prior [OF that] s' by metis
  moreover have "t = u" if "?sc t = Some sb" "?sc u = Some sc'" "sa_level sb = sa_level sc'" for t u sb sc'
    using prior [OF that(1)] prior [OF that(2)] that(3) s' by metis
  moreover have "t = u" if "?sc t = Some sb" "?sc u = Some sc'" "sa_private sb = Some b" "sa_private sc' = Some b" for t u sb sc' b
    using priv [OF that(1,3)] priv [OF that(2,4)] uniq s' by metis
  moreover have "\<exists>t sb. ?sc t = Some sb \<and> sa_level sb = l" if "l < length ls" "lv_alive (ls ! l)" for l
    using s' that fwd by metis
  moreover have "b \<in> set xs' \<longleftrightarrow> (\<exists>t sb. ?sc t = Some sb \<and> sa_private sb = Some b)" for b
  proof
    assume "b \<in> set xs'"
    then have "b = a \<or> b \<in> set xs" using a by auto
    then show "\<exists>t sb. ?sc t = Some sb \<and> sa_private sb = Some b"
    proof
      assume "b = a" then show ?thesis by (intro exI [of _ s]) simp
    next
      assume "b \<in> set xs"
      then obtain t sb' where "sc t = Some sb'" "sa_private sb' = Some b" using s' by blast
      then show ?thesis using fwd by blast
    qed
  next
    assume "\<exists>t sb. ?sc t = Some sb \<and> sa_private sb = Some b"
    then have "b = a \<or> b \<in> set xs" using priv s' by metis
    then show "b \<in> set xs'" using a s' sa by auto
  qed
  ultimately show ?thesis unfolding scopes_ok_def by blast
qed

lemma root_apart:
  assumes i: "thread_inv xs w" and sa: "w_scopes w s = Some sa"
    and r: "rooted_apart (w_pool w) xs sa tag value g' xs' a slot"
  shows "thread_inv xs' (w\<lparr>w_pool := g', w_scopes := (w_scopes w)(s \<mapsto> sa\<lparr>sa_private := Some a\<rparr>),
    w_handles := w_handles w @ [(s, slot)]\<rparr>)"
proof -
  let ?g = "w_pool w" and ?sa = "sa\<lparr>sa_private := Some a\<rparr>"
  note sc = scope_parts [OF i]
  have pi': "pinv [] g' xs'" and a: "sa_private sa = Some a \<and> xs' = xs \<or> sa_private sa = None \<and> a \<notin> set xs \<and> xs' = a # xs"
    using r by (simp_all add: rooted_apart_def)
  obtain pp' where pp': "g_private g' a = Some pp'" "slot \<in> pp_slots pp'"
    "\<And>pp. sa_private sa = Some a \<Longrightarrow> g_private ?g a = Some pp \<Longrightarrow> slot \<notin> pp_slots pp \<and> pp_slots pp \<subseteq> pp_slots pp'"
    using r by (auto simp: rooted_apart_def)
  have same: "same_stack ?g g'" using r by (simp add: rooted_apart_def keeps_def)
  then have h: "heights g' = heights ?g" and ss: "stack_slot g' j = stack_slot ?g j" for j
    unfolding same_stack_def by (auto intro!: heights_same stack_slot_same)
  have st: "stack_ok ?g" using i by (simp add: thread_inv_def)
  then have st': "stack_ok g'" using same h by (simp add: stack_ok_def same_stack_def)
  have ax: "a \<in> set xs'" using a sc(4) [OF sa] by auto
  have others: "\<exists>pp'. g_private g' b = Some pp' \<and> pp_slots pp \<subseteq> pp_slots pp'"
    if "b \<noteq> a" "g_private ?g b = Some pp" for b pp
    using r that pp_slots_unlinked unfolding rooted_apart_def by metis
  have "q \<noteq> slot \<and> in_scope g' (if t = s then ?sa else sb) q" if t: "w_scopes w t = Some sb" "in_scope ?g sb q" for t sb q
  proof
    have own: "b = a \<Longrightarrow> t = s" if "sa_private sb = Some b" for b
    proof -
      assume "b = a"
      then have "sa_private sa = Some a" using a sc(4) [OF t(1) that] by auto
      then show "t = s" using i t(1) sa that \<open>b = a\<close> unfolding thread_inv_def scopes_ok_def by blast
    qed
    have keep: "\<exists>pp'. g_private g' b = Some pp' \<and> pp_slots pp \<subseteq> pp_slots pp'"
      if "sa_private sb = Some b" "g_private ?g b = Some pp" for b pp
      using own that others pp' sa t(1) by (cases "b = a") auto
    show "in_scope g' (if t = s then ?sa else sb) q"
      by (rule in_scope_mono [OF t(2)]) (use h ss keep t(1) sa a in auto)
    show "q \<noteq> slot"
      using t(2) unfolding in_scope_def
    proof (elim disjE exE conjE)
      fix j assume j: "j < heights ?g ! Suc (sa_level sb)" "q = stack_slot ?g j"
      then have "j < hp_top g'"
        using height_le_top [OF st, of "Suc (sa_level sb)"] sc(2) [OF t(1)] same by (simp add: same_stack_def)
      then show "q \<noteq> slot" using private_slot_not_stack [OF pi' ax pp'(1,2) st'] j(2) ss by metis
    next
      fix b pp assume b: "sa_private sb = Some b" "g_private ?g b = Some pp" "q \<in> pp_slots pp"
      show "q \<noteq> slot"
      proof (cases "b = a")
        case True
        then show ?thesis using own b pp'(3) sa t(1) by auto
      next
        case False
        obtain pq where "g_private g' b = Some pq" "q \<in> pp_slots pq" using others [OF False b(2)] b(3) by auto
        moreover have "b \<in> set xs'" using sc(4) [OF t(1) b(1)] a by auto
        ultimately show ?thesis using private_slots_apart [OF pi' ax _ pp'(1) _ pp'(2)] False by metis
      qed
    qed
  qed
  then have old: "q \<noteq> slot \<and> (\<exists>sb'. ((w_scopes w)(s \<mapsto> ?sa)) t = Some sb' \<and> in_scope g' sb' q)"
    if "w_scopes w t = Some sb" "in_scope ?g sb q" for t sb q
    using that sa by (cases "t = s") fastforce+
  have "in_scope g' ?sa slot" using pp' by (auto simp: in_scope_def)
  then have "handles_ok g' ((w_scopes w)(s \<mapsto> ?sa)) (w_handles w @ [(s, slot)])"
    by (intro handles_ok_add [of ?g "w_scopes w"] old) (use i in \<open>simp_all add: thread_inv_def\<close>)
  moreover have "scopes_ok (hp_levels g') ((w_scopes w)(s \<mapsto> ?sa)) (w_next_scope w) xs'"
    using scopes_ok_update [where sc = "w_scopes w" and s = s and sa = sa and a = a, OF _ sa a] i same by (simp add: thread_inv_def same_stack_def)
  ultimately show ?thesis using pi' st' by (simp add: thread_inv_def)
qed

section \<open>A new scope\<close>

lemma push_level_pinv: "push_level g = (g', l) \<Longrightarrow> pinv E g' xs = pinv E g xs"
  by (rule pinv_pages_only) (auto simp: push_level_def)

lemma new_scope:
  assumes i: "thread_inv xs w" and p: "scope_alloc_new (w_pool w) = (g', sa)"
  shows "thread_inv xs (w\<lparr>w_pool := g', w_scopes := (w_scopes w)(w_next_scope w \<mapsto> sa),
    w_next_scope := Suc (w_next_scope w)\<rparr>)" "read_slot g' = read_slot (w_pool w)"
proof -
  let ?g = "w_pool w" and ?n = "w_next_scope w"
  let ?sc = "(w_scopes w)(?n \<mapsto> sa)"
  have g': "g' = ?g\<lparr>hp_levels := hp_levels ?g @ [\<lparr>lv_base = hp_top ?g, lv_alive = True\<rparr>]\<rparr>"
    and sa: "sa = \<lparr>sa_level = length (hp_levels ?g), sa_private = None\<rparr>"
    using p by (auto simp: scope_alloc_new_def push_level_def)
  show "read_slot g' = read_slot ?g" by (simp add: g' read_slot_def fun_eq_iff)
  note sc = scope_parts [OF i]
  have st: "stack_ok ?g" using i by (simp add: thread_inv_def)
  have h: "heights g' = heights ?g @ [hp_top ?g]" by (simp add: heights_def g')
  have same: "stack_slot g' j = stack_slot ?g j" "g_private g' = g_private ?g" for j
    by (simp_all add: g' stack_slot_def)
  have "pinv [] g' xs" using i by (subst pinv_pages_only [of g' ?g]) (simp_all add: g' thread_inv_def)
  moreover have "stack_ok g'"
    using st unfolding stack_ok_def h by (auto simp: sorted_append heights_def g' hd_append split: if_splits)
  moreover have "handles_ok g' ?sc (w_handles w)"
  proof -
    have "in_scope g' sb q \<and> t \<noteq> ?n" if t: "w_scopes w t = Some sb" "in_scope ?g sb q" for t sb q
    proof
      show "in_scope g' sb q"
        by (rule in_scope_mono [OF t(2) refl])
          (use sc(2) [OF t(1)] same in \<open>auto simp: h nth_append\<close>)
      show "t \<noteq> ?n" using sc(1) [OF t(1)] by simp
    qed
    then have "\<exists>sb. ?sc t = Some sb \<and> in_scope g' sb q" if "\<exists>sb. w_scopes w t = Some sb \<and> in_scope ?g sb q" for t q
      using that by fastforce
    then show ?thesis using i unfolding thread_inv_def handles_ok_def by blast
  qed
  moreover have "scopes_ok (hp_levels g') ?sc (Suc ?n) xs"
  proof -
    have *: "scopes_ok (hp_levels ?g) (w_scopes w) ?n xs" using i by (simp add: thread_inv_def)
    have n: "w_scopes w ?n = None" using sc(1) [of ?n] by (cases "w_scopes w ?n") auto
    have old: "t \<noteq> ?n \<and> t < ?n \<and> sa_level sb < length (hp_levels ?g)" if "w_scopes w t = Some sb" for t sb
      using sc(1,2) that by fastforce
    have "t < Suc ?n \<and> sa_level sb < length (hp_levels g') \<and> lv_alive (hp_levels g' ! sa_level sb)"
      if "?sc t = Some sb" for t sb
      using that old sc(3) by (cases "t = ?n") (auto simp: g' sa nth_append less_SucI)
    moreover have "t = u" if "?sc t = Some sb" "?sc u = Some sb'" "sa_level sb = sa_level sb'" for t u sb sb'
      using that old * unfolding scopes_ok_def
      by (cases "t = ?n"; cases "u = ?n") (auto simp: sa, (metis less_irrefl)+)
    moreover have "t = u" if "?sc t = Some sb" "?sc u = Some sb'" "sa_private sb = Some a" "sa_private sb' = Some a" for t u sb sb' a
      using that * unfolding scopes_ok_def by (cases "t = ?n"; cases "u = ?n") (auto simp: sa)
    moreover have "\<exists>t sb. ?sc t = Some sb \<and> sa_level sb = l" if l: "l < length (hp_levels g')" "lv_alive (hp_levels g' ! l)" for l
    proof (cases "l = length (hp_levels ?g)")
      case True
      then show ?thesis by (intro exI [of _ ?n]) (simp add: sa)
    next
      case False
      then have "l < length (hp_levels ?g)" "lv_alive (hp_levels ?g ! l)" using l by (auto simp: g' nth_append)
      then obtain t sb where "w_scopes w t = Some sb" "sa_level sb = l" using * unfolding scopes_ok_def by blast
      then show ?thesis using old by (intro exI [of _ t]) auto
    qed
    moreover have "a \<in> set xs \<longleftrightarrow> (\<exists>t sb. ?sc t = Some sb \<and> sa_private sb = Some a)" for a
    proof -
      have "(\<exists>t sb. ?sc t = Some sb \<and> sa_private sb = Some a) \<longleftrightarrow>
          (\<exists>t sb. w_scopes w t = Some sb \<and> sa_private sb = Some a)"
        using n by (auto simp: sa) (metis option.distinct(1))
      then show ?thesis using * unfolding scopes_ok_def by simp
    qed
    ultimately show ?thesis unfolding scopes_ok_def by blast
  qed
  ultimately show "thread_inv xs (w\<lparr>w_pool := g', w_scopes := ?sc, w_next_scope := Suc ?n\<rparr>)"
    by (simp add: thread_inv_def)
qed

section \<open>Dropping a scope\<close>

text \<open>The scope's private pages are given back, if it has any.\<close>

definition recycled :: "gc \<Rightarrow> nat list \<Rightarrow> scope_alloc \<Rightarrow> gc \<Rightarrow> nat list \<Rightarrow> bool" where
  "recycled g xs sa g1 xs1 \<longleftrightarrow> pinv [] g1 xs1 \<and> keeps None g g1 \<and>
     (\<forall>b. sa_private sa \<noteq> Some b \<longrightarrow> unlinked (g_private g1 b) = unlinked (g_private g b)) \<and>
     (\<forall>b. b \<in> set xs1 \<longleftrightarrow> b \<in> set xs \<and> sa_private sa \<noteq> Some b)"

lemma recycled_ok:
  assumes i: "pinv [] g xs" and m: "\<And>a. sa_private sa = Some a \<Longrightarrow> a \<in> set xs"
  shows "wp (case sa_private sa of Some a \<Rightarrow> recycle a g | None \<Rightarrow> Some g) (\<lambda>g1. \<exists>xs1. recycled g xs sa g1 xs1)"
proof (cases "sa_private sa")
  case None
  then show ?thesis using i by (auto simp: recycled_def pool_keeps_refl)
next
  case (Some a)
  have d: "distinct xs" using i by (simp add: pinv_def allocs_ok_def)
  have "wp (recycle a g) (\<lambda>g1. recycled g xs sa g1 (remove1 a xs))"
    by (rule wp_mono [OF recycle_ok [OF i m [OF Some]]]) (use Some d in \<open>auto simp: recycled_def\<close>)
  then show ?thesis using Some by (auto elim: wp_mono)
qed

lemma drop_scopes_ok:
  assumes s: "scopes_ok ls sc n xs" and sa: "sc s = Some sa"
    and live: "\<And>i. i < length ls \<Longrightarrow> i \<noteq> sa_level sa \<Longrightarrow> lv_alive (ls ! i) \<Longrightarrow> i < length ls'"
    and le: "length ls' \<le> length ls"
    and alive: "\<And>i. i < length ls' \<Longrightarrow> lv_alive (ls' ! i) \<longleftrightarrow> i \<noteq> sa_level sa \<and> lv_alive (ls ! i)"
    and xs': "\<And>b. b \<in> set xs' \<longleftrightarrow> b \<in> set xs \<and> sa_private sa \<noteq> Some b"
  shows "scopes_ok ls' (sc(s := None)) n xs'"
proof -
  note s' = s [unfolded scopes_ok_def]
  have other: "sa_level sb \<noteq> sa_level sa" if "sc t = Some sb" "t \<noteq> s" for t sb
    using s' that sa by blast
  have "t < n \<and> sa_level sb < length ls' \<and> lv_alive (ls' ! sa_level sb)" if "(sc(s := None)) t = Some sb" for t sb
  proof -
    have t: "t \<noteq> s" "sc t = Some sb" using that by (auto split: if_splits)
    then have "t < n" "sa_level sb < length ls" "lv_alive (ls ! sa_level sb)" using s' by blast+
    with other [OF t(2,1)] live alive show ?thesis by blast
  qed
  moreover have "t = u" if "(sc(s := None)) t = Some sb" "(sc(s := None)) u = Some sb'" "sa_level sb = sa_level sb'" for t u sb sb'
    using that s' by (metis fun_upd_apply option.distinct(1))
  moreover have "t = u" if "(sc(s := None)) t = Some sb" "(sc(s := None)) u = Some sb'" "sa_private sb = Some a"
    "sa_private sb' = Some a" for t u sb sb' a
    using that s' by (metis fun_upd_apply option.distinct(1))
  moreover have "\<exists>t sb. (sc(s := None)) t = Some sb \<and> sa_level sb = l" if l: "l < length ls'" "lv_alive (ls' ! l)" for l
  proof -
    have "l \<noteq> sa_level sa" "lv_alive (ls ! l)" "l < length ls" using alive [OF l(1)] l le by auto
    then obtain t sb where "sc t = Some sb" "sa_level sb = l" "l \<noteq> sa_level sa" using s' by blast
    then show ?thesis using sa by (intro exI [of _ t] exI [of _ sb]) auto
  qed
  moreover have "b \<in> set xs' \<longleftrightarrow> (\<exists>t sb. (sc(s := None)) t = Some sb \<and> sa_private sb = Some b)" for b
  proof
    assume "b \<in> set xs'"
    then obtain t sb where "sc t = Some sb" "sa_private sb = Some b" "sa_private sa \<noteq> Some b" using xs' s' by blast
    then show "\<exists>t sb. (sc(s := None)) t = Some sb \<and> sa_private sb = Some b"
      using sa by (intro exI [of _ t] exI [of _ sb]) auto
  next
    assume "\<exists>t sb. (sc(s := None)) t = Some sb \<and> sa_private sb = Some b"
    then obtain t sb where t: "sc t = Some sb" "sa_private sb = Some b" "t \<noteq> s" by (auto split: if_splits)
    then have "sa_private sa \<noteq> Some b" "b \<in> set xs" using s' sa by blast+
    then show "b \<in> set xs'" using xs' by blast
  qed
  ultimately show ?thesis unfolding scopes_ok_def by blast
qed

lemma drop_scope:
  assumes i: "thread_inv xs w" and sa: "w_scopes w s = Some sa"
  shows "wp (scope_alloc_drop sa (w_pool w)) (\<lambda>g'. (\<exists>xs'. thread_inv xs' (w\<lparr>w_pool := g', w_scopes := (w_scopes w)(s := None),
    w_handles := filter (\<lambda>h. fst h \<noteq> s) (w_handles w)\<rparr>)) \<and>
    (\<forall>q. fst q < g_next_page (w_pool w) \<longrightarrow> read_slot g' q = read_slot (w_pool w) q))"
proof -
  let ?g = "w_pool w" and ?sc = "(w_scopes w)(s := None)"
  note sc = scope_parts [OF i]
  have pi: "pinv [] ?g xs" and st: "stack_ok ?g" and so: "scopes_ok (hp_levels ?g) (w_scopes w) (w_next_scope w) xs"
    and ho: "handles_ok ?g (w_scopes w) (w_handles w)" using i by (simp_all add: thread_inv_def)
  obtain g1 xs1 where g1: "(case sa_private sa of Some a \<Rightarrow> recycle a ?g | None \<Rightarrow> Some ?g) = Some g1"
    "recycled ?g xs sa g1 xs1"
    using recycled_ok [OF pi sc(4) [OF sa]] by (rule wpE) auto
  have k1: "keeps None ?g g1" and pi1: "pinv [] g1 xs1" using g1(2) by (simp_all add: recycled_def)
  have lv1: "hp_levels g1 = hp_levels ?g" "hp_stack g1 = hp_stack ?g" and h1: "heights g1 = heights ?g"
    using k1 unfolding keeps_def same_stack_def by (auto intro!: heights_same)
  have st1: "stack_ok g1" using st k1 h1 by (simp add: stack_ok_def keeps_def same_stack_def)
  obtain g' k where g': "pop_level (sa_level sa) g1 = Some g'" "stack_ok g'" "cut_to (sa_level sa) k g1 g'"
    using pop_level_ok [OF st1, of "sa_level sa"] sc(2) [OF sa] lv1 by (auto elim: wpE)
  obtain ls h where eq: "g' = g1\<lparr>hp_levels := ls, hp_top := h\<rparr>" using g'(3) by (auto simp: cut_to_def)
  have k: "k \<le> length (hp_levels ?g)" "length (hp_levels g') = k" "heights g' = take (Suc k) (heights ?g)"
    "\<And>i. i < length (hp_levels ?g) \<Longrightarrow> i \<noteq> sa_level sa \<Longrightarrow> lv_alive (hp_levels ?g ! i) \<Longrightarrow> i < k"
    "\<And>i. i < k \<Longrightarrow> lv_alive (hp_levels g' ! i) \<longleftrightarrow> i \<noteq> sa_level sa \<and> lv_alive (hp_levels ?g ! i)"
    using g'(3) lv1 h1 by (simp_all add: cut_to_def)
  have so': "scopes_ok (hp_levels g') ?sc (w_next_scope w) xs1"
    by (rule drop_scopes_ok [OF so sa]) (use k g1(2) in \<open>auto simp: recycled_def\<close>)
  have "in_scope g' sb q" if t: "w_scopes w t = Some sb" "in_scope ?g sb q" "t \<noteq> s" for t sb q
  proof -
    have "sa_level sb \<noteq> sa_level sa" using so t(1,3) sa unfolding scopes_ok_def by blast
    then have l: "sa_level sb < k" using k(4) sc(2,3) [OF t(1)] by simp
    have other: "sa_private sa \<noteq> Some a" if "sa_private sb = Some a" for a
      using so t(1,3) sa that unfolding scopes_ok_def by blast
    have "\<exists>pp'. g_private g' a = Some pp' \<and> pp_slots pp \<subseteq> pp_slots pp'"
      if "sa_private sb = Some a" "g_private ?g a = Some pp" for a pp
      using pp_slots_unlinked [of g1 a ?g pp] g1(2) other [OF that(1)] that(2) by (simp add: recycled_def eq)
    then show ?thesis
      using l k(1,3) lv1(2) by (intro in_scope_mono [OF t(2) refl]) (auto simp: eq stack_slot_def)
  qed
  moreover have "distinct (map snd (filter (\<lambda>h. fst h \<noteq> s) (w_handles w)))"
    using ho by (simp add: handles_ok_def distinct_map_filter)
  ultimately have "handles_ok g' ?sc (filter (\<lambda>h. fst h \<noteq> s) (w_handles w))"
    using ho unfolding handles_ok_def by fastforce
  moreover have "pinv [] g' xs1" using pi1 by (subst pinv_pages_only [of g' g1]) (simp_all add: eq)
  ultimately have "thread_inv xs1 (w\<lparr>w_pool := g', w_scopes := ?sc, w_handles := filter (\<lambda>h. fst h \<noteq> s) (w_handles w)\<rparr>)"
    using g'(2) so' by (simp add: thread_inv_def)
  moreover have "read_slot g' q = read_slot ?g q" if "fst q < g_next_page ?g" for q
    using k1 that by (simp add: keeps_def eq read_slot_def)
  ultimately show ?thesis using g1(1) g'(1) by (auto simp: scope_alloc_drop_def)
qed

end
