(* ===== verification/Gc_Claims.thy ===== *)
theory Gc_Claims
  imports Gc_World
begin

text \<open>
  The abstract account of scopes and handles, the refinement that shows the pool implements it, and the
  properties of the root allocator.
\<close>

section \<open>The account\<close>

text \<open>The live scopes, and for each handle its scope and what it refers to.\<close>

record account =
  ac_scopes :: "nat set"
  ac_next :: nat
  ac_handles :: "(nat \<times> slot_tag \<times> word64) list"

definition account_empty :: account where
  "account_empty = \<lparr>ac_scopes = {}, ac_next = 0, ac_handles = []\<rparr>"

fun account_exec :: "collector \<Rightarrow> gc_cmd \<Rightarrow> account \<Rightarrow> account" where
  "account_exec mv NewScope a = a\<lparr>ac_scopes := insert (ac_next a) (ac_scopes a), ac_next := Suc (ac_next a)\<rparr>"
| "account_exec mv (Root s r) a =
     (if s \<in> ac_scopes a then a\<lparr>ac_handles := ac_handles a @ [(s, root_slot r)]\<rparr> else a)"
| "account_exec mv (WriteHandle k v) a =
     (if k < length (ac_handles a)
      then a\<lparr>ac_handles := (ac_handles a)[k := (fst (ac_handles a ! k), fst (snd (ac_handles a ! k)), v)]\<rparr>
      else a)"
| "account_exec mv (DropScope s) a =
     a\<lparr>ac_scopes := ac_scopes a - {s}, ac_handles := filter (\<lambda>h. fst h \<noteq> s) (ac_handles a)\<rparr>"
| "account_exec mv (AddTracer f) a = a"
| "account_exec mv Collect a = a\<lparr>ac_handles := map (\<lambda>(s, tv). (s, moved mv tv)) (ac_handles a)\<rparr>"

definition seen :: "gc \<Rightarrow> nat \<times> slot \<Rightarrow> nat \<times> slot_tag \<times> word64" where
  "seen g h = (fst h, read_slot g (snd h))"

definition account_of :: "gc_world \<Rightarrow> account" where
  "account_of w = \<lparr>ac_scopes = dom (w_scopes w), ac_next = w_next_scope w,
     ac_handles = map (seen (w_pool w)) (w_handles w)\<rparr>"

definition refines :: "collector \<Rightarrow> gc_cmd \<Rightarrow> gc_world \<Rightarrow> gc_world \<Rightarrow> bool" where
  "refines mv c w w' \<longleftrightarrow> (\<exists>xs. thread_inv xs w') \<and> account_of w' = account_exec mv c (account_of w)"

section \<open>The refinement\<close>

lemma thread_inv_pages: "thread_inv xs w \<Longrightarrow> thread_inv xs (w\<lparr>w_pool := (w_pool w)\<lparr>g_pages := m\<rparr>\<rparr>)"
proof -
  assume i: "thread_inv xs w"
  let ?g = "(w_pool w)\<lparr>g_pages := m\<rparr>"
  have "pinv [] ?g xs" using i by (subst pinv_pages_only [of ?g "w_pool w"]) (simp_all add: thread_inv_def)
  moreover have h: "heights ?g = heights (w_pool w)" by (simp add: heights_def)
  moreover have "in_scope ?g = in_scope (w_pool w)"
    by (intro ext) (simp add: in_scope_def h stack_slot_def)
  ultimately show ?thesis using i by (simp add: thread_inv_def handles_ok_def stack_ok_def h)
qed

lemma handle_page: "thread_inv xs w \<Longrightarrow> h \<in> set (w_handles w) \<Longrightarrow> fst (snd h) < g_next_page (w_pool w)"
  using handle_live [of xs w "fst h" "snd h"] live_slot_page [of "[]" "w_pool w" xs "snd h"]
  by (simp add: thread_inv_def)

lemma seen_same:
  "thread_inv xs w \<Longrightarrow> (\<And>q. fst q < g_next_page (w_pool w) \<Longrightarrow> q \<in> snd ` set (w_handles w) \<Longrightarrow>
     read_slot g' q = read_slot (w_pool w) q) \<Longrightarrow>
     map (seen g') (w_handles w) = map (seen (w_pool w)) (w_handles w)"
  by (rule map_cong [OF refl]) (simp add: seen_def handle_page)

text \<open>A root leaves what the handles before it refer to.\<close>

lemma root_refines:
  assumes i: "thread_inv xs w" and sa: "w_scopes w s = Some sa"
    and i': "thread_inv xs' (w\<lparr>w_pool := g', w_scopes := (w_scopes w)(s \<mapsto> sa'), w_handles := w_handles w @ [(s, slot)]\<rparr>)"
    and r: "read_slot g' slot = root_slot r"
    and k: "\<And>q. fst q < g_next_page (w_pool w) \<Longrightarrow> q \<noteq> slot \<Longrightarrow> read_slot g' q = read_slot (w_pool w) q"
  shows "refines mv (Root s r) w (w\<lparr>w_pool := g', w_scopes := (w_scopes w)(s \<mapsto> sa'), w_handles := w_handles w @ [(s, slot)]\<rparr>)"
proof -
  have "slot \<notin> snd ` set (w_handles w)" using i' by (simp add: thread_inv_def handles_ok_def)
  then have "map (seen g') (w_handles w) = map (seen (w_pool w)) (w_handles w)"
    by (intro seen_same [OF i] k) auto
  moreover have "insert s (dom (w_scopes w)) = dom (w_scopes w)" "s \<in> dom (w_scopes w)" using sa by auto
  moreover have "seen g' (s, slot) = (s, root_slot r)" by (simp add: seen_def r)
  ultimately show ?thesis using i' by (auto simp: refines_def account_of_def)
qed

lemma root_ok:
  assumes i: "thread_inv xs w"
  shows "wp (gc_exec mv (Root s r) w) (refines mv (Root s r) w)"
proof (cases "w_scopes w s")
  case None
  then show ?thesis using i by (auto simp: refines_def account_of_def)
next
  case (Some sa)
  let ?g = "w_pool w" and ?tag = "fst (root_slot r)" and ?val = "snd (root_slot r)"
  note sc = scope_parts [OF i Some]
  have pi: "pinv [] ?g xs" and st: "stack_ok ?g" using i by (simp_all add: thread_inv_def)
  have ne: "hp_levels ?g \<noteq> []" using sc(2) by auto
  show ?thesis
  proof (cases "sa_level sa = length (hp_levels ?g) - 1")
    case True
    have "wp (stack_alloc ?tag ?val ?g) (\<lambda>(g', slot). refines mv (Root s r) w
        (w\<lparr>w_pool := g', w_scopes := (w_scopes w)(s \<mapsto> sa), w_handles := w_handles w @ [(s, slot)]\<rparr>))"
    proof (rule wp_mono [OF stack_alloc_ok [OF pi st ne]], clarify)
      fix g' p k assume p: "pushed ?g xs ?tag ?val g' (p, k)"
      show "refines mv (Root s r) w
          (w\<lparr>w_pool := g', w_scopes := (w_scopes w)(s \<mapsto> sa), w_handles := w_handles w @ [(s, p, k)]\<rparr>)"
        by (rule root_refines [OF i Some root_on_stack [OF i Some True p]]) (use p in \<open>auto simp: pushed_def\<close>)
    qed
    then show ?thesis
      by (simp add: Some scope_alloc_alloc_def is_innermost_def ne True) (erule wp_mono, clarsimp)
  next
    case False
    have "wp (private_alloc ?tag ?val sa ?g) (\<lambda>(g', sa', slot). refines mv (Root s r) w
        (w\<lparr>w_pool := g', w_scopes := (w_scopes w)(s \<mapsto> sa'), w_handles := w_handles w @ [(s, slot)]\<rparr>))"
    proof (rule wp_mono [OF private_alloc_ok [OF pi sc(4)]], assumption, clarify)
      fix g' p k a xs' assume p: "rooted_apart ?g xs sa ?tag ?val g' xs' a (p, k)"
      show "refines mv (Root s r) w
          (w\<lparr>w_pool := g', w_scopes := (w_scopes w)(s \<mapsto> sa\<lparr>sa_private := Some a\<rparr>), w_handles := w_handles w @ [(s, p, k)]\<rparr>)"
        by (rule root_refines [OF i Some root_apart [OF i Some p]])
          (use p in \<open>auto simp: rooted_apart_def keeps_def\<close>)
    qed
    then show ?thesis
      using False by (simp add: Some scope_alloc_alloc_def is_innermost_def ne) (erule wp_mono, clarsimp)
  qed
qed

lemma new_scope_ok:
  assumes i: "thread_inv xs w"
  shows "wp (gc_exec mv NewScope w) (refines mv NewScope w)"
proof -
  obtain g' sa where p: "scope_alloc_new (w_pool w) = (g', sa)" by (cases "scope_alloc_new (w_pool w)")
  from new_scope [OF i p] have "seen g' = seen (w_pool w)" by (simp add: seen_def fun_eq_iff)
  then show ?thesis using new_scope(1) [OF i p] p by (auto simp: refines_def account_of_def)
qed

lemma write_handle_ok:
  assumes i: "thread_inv xs w"
  shows "wp (gc_exec mv (WriteHandle k v) w) (refines mv (WriteHandle k v) w)"
proof (cases "k < length (w_handles w)")
  case False
  then show ?thesis using i by (auto simp: refines_def account_of_def)
next
  case True
  let ?slot = "snd (w_handles w ! k)"
  let ?g = "write_slot ?slot (fst (read_slot (w_pool w) ?slot)) v (w_pool w)"
  have d: "distinct (map snd (w_handles w))" using i by (simp add: thread_inv_def handles_ok_def)
  have "snd (w_handles w ! j) = ?slot \<longleftrightarrow> j = k" if "j < length (w_handles w)" for j
    using nth_eq_iff_index_eq [OF d, of j k] that True by simp
  then have "map (seen ?g) (w_handles w) = (map (seen (w_pool w)) (w_handles w))
      [k := (fst (w_handles w ! k), fst (read_slot (w_pool w) ?slot), v)]"
    using True by (intro nth_equalityI) (auto simp: seen_def nth_list_update)
  moreover have "thread_inv xs (w\<lparr>w_pool := ?g\<rparr>)"
    using thread_inv_pages [OF i] by (simp add: write_slot_def)
  ultimately show ?thesis using True
    by (auto simp: refines_def account_of_def seen_def Let_def)
qed

lemma drop_scope_ok:
  assumes i: "thread_inv xs w"
  shows "wp (gc_exec mv (DropScope s) w) (refines mv (DropScope s) w)"
proof (cases "w_scopes w s")
  case None
  have "fst h \<noteq> s" if h: "h \<in> set (w_handles w)" for h
  proof
    assume "fst h = s"
    then have "(s, snd h) \<in> set (w_handles w)" using h by auto
    then show False using i None unfolding thread_inv_def handles_ok_def by fastforce
  qed
  then have "filter (\<lambda>h. fst h \<noteq> s) (map (seen (w_pool w)) (w_handles w)) = map (seen (w_pool w)) (w_handles w)"
    by (intro filter_True) (auto simp: seen_def)
  moreover have "dom (w_scopes w) - {s} = dom (w_scopes w)" using None by auto
  ultimately show ?thesis using None i by (auto simp: refines_def account_of_def)
next
  case (Some sa)
  have "wp (scope_alloc_drop sa (w_pool w)) (\<lambda>g'. refines mv (DropScope s) w (w\<lparr>w_pool := g',
      w_scopes := (w_scopes w)(s := None), w_handles := filter (\<lambda>h. fst h \<noteq> s) (w_handles w)\<rparr>))"
  proof (rule wp_mono [OF drop_scope [OF i Some]], elim conjE)
    fix g' assume r: "\<forall>q. fst q < g_next_page (w_pool w) \<longrightarrow> read_slot g' q = read_slot (w_pool w) q"
      and i': "\<exists>xs'. thread_inv xs' (w\<lparr>w_pool := g', w_scopes := (w_scopes w)(s := None),
        w_handles := filter (\<lambda>h. fst h \<noteq> s) (w_handles w)\<rparr>)"
    have "map (seen g') (w_handles w) = map (seen (w_pool w)) (w_handles w)"
      by (rule seen_same [OF i]) (use r in blast)
    then have "map (seen g') (filter (\<lambda>h. fst h \<noteq> s) (w_handles w)) =
        filter (\<lambda>h. fst h \<noteq> s) (map (seen (w_pool w)) (w_handles w))"
      by (simp add: filter_map comp_def seen_def)
    moreover have "dom ((w_scopes w)(s := None)) = dom (w_scopes w) - {s}" by simp
    ultimately show "refines mv (DropScope s) w (w\<lparr>w_pool := g', w_scopes := (w_scopes w)(s := None),
        w_handles := filter (\<lambda>h. fst h \<noteq> s) (w_handles w)\<rparr>)"
      using i' by (simp add: refines_def account_of_def)
  qed
  then show ?thesis using Some by simp
qed

lemma collect_ok:
  assumes i: "thread_inv xs w"
  shows "wp (gc_exec mv Collect w) (refines mv Collect w)"
proof -
  have pi: "pinv [] (w_pool w) xs" using i by (simp add: thread_inv_def)
  have "wp (pool_trace mv (w_pool w)) (\<lambda>(g', tracers). refines mv Collect w (w\<lparr>w_pool := g'\<rparr>))"
  proof (rule wp_mono [OF pool_trace_ok [OF pi]], clarify)
    fix m assume r: "\<forall>q. read_slot ((w_pool w)\<lparr>g_pages := m\<rparr>) q =
        (if q \<in> set (live_slots (w_pool w) xs) then moved mv (read_slot (w_pool w) q) else read_slot (w_pool w) q)"
    have "seen ((w_pool w)\<lparr>g_pages := m\<rparr>) h = (\<lambda>(s, tv). (s, moved mv tv)) (seen (w_pool w) h)"
      if "h \<in> set (w_handles w)" for h
      using handle_live [OF i, of "fst h" "snd h"] that spec [OF r, of "snd h"] by (simp add: seen_def)
    then have "map (seen ((w_pool w)\<lparr>g_pages := m\<rparr>)) (w_handles w) =
        map (\<lambda>(s, tv). (s, moved mv tv)) (map (seen (w_pool w)) (w_handles w))" by simp
    then show "refines mv Collect w (w\<lparr>w_pool := (w_pool w)\<lparr>g_pages := m\<rparr>\<rparr>)"
      using thread_inv_pages [OF i] by (auto simp: refines_def account_of_def)
  qed
  then show ?thesis by simp (erule wp_mono, clarsimp)
qed

lemma add_tracer_ok:
  assumes i: "thread_inv xs w"
  shows "wp (gc_exec mv (AddTracer f) w) (refines mv (AddTracer f) w)"
proof -
  let ?g = "add_root_tracer f (w_pool w)"
  have same: "\<exists>ts. ?g = (w_pool w)\<lparr>hp_root_tracers := ts\<rparr>"
    unfolding add_root_tracer_def by (cases "f \<in> set (hp_root_tracers (w_pool w))") (auto intro: exI [of _ "hp_root_tracers (w_pool w)"])
  then obtain ts where g: "?g = (w_pool w)\<lparr>hp_root_tracers := ts\<rparr>" by blast
  have "pinv [] ?g xs" using i by (subst pinv_pages_only [of ?g "w_pool w"]) (simp_all add: thread_inv_def g)
  moreover have h: "heights ?g = heights (w_pool w)" by (simp add: heights_def g)
  moreover have "in_scope ?g = in_scope (w_pool w)"
    by (intro ext) (simp only: in_scope_def h, simp add: stack_slot_def g)
  moreover have "hp_levels ?g = hp_levels (w_pool w)" "seen ?g = seen (w_pool w)"
    "hp_stack ?g = hp_stack (w_pool w)" "hp_top ?g = hp_top (w_pool w)"
    by (simp_all add: g seen_def fun_eq_iff read_slot_def)
  ultimately have "thread_inv xs (w\<lparr>w_pool := ?g\<rparr>) \<and> account_of (w\<lparr>w_pool := ?g\<rparr>) = account_of w"
    using i by (simp add: thread_inv_def handles_ok_def stack_ok_def account_of_def)
  then show ?thesis by (auto simp: refines_def)
qed

lemma gc_exec_refines: "thread_inv xs w \<Longrightarrow> wp (gc_exec mv c w) (refines mv c w)"
  by (cases c) (simp_all only: new_scope_ok root_ok write_handle_ok drop_scope_ok add_tracer_ok collect_ok)

interpretation gc_thread: refined_command_system "gc_exec mv" "account_exec mv" "\<lambda>w. \<exists>xs. thread_inv xs w" account_of for mv
  by unfold_locales (auto simp: refines_def elim: wp_mono [OF gc_exec_refines])

lemma thread_inv_start:
  "\<exists>xs. thread_inv xs \<lparr>w_pool = pool_new, w_scopes = (\<lambda>_. None), w_next_scope = 0, w_handles = []\<rparr>"
  by (rule exI [of _ "[]"]) (simp add: thread_inv_def pinv_def pages_ok_def allocs_ok_def links_ok_def stack_ok_def scopes_ok_def
      handles_ok_def pool_new_def heights_def max_free_allocs_def)

lemma gc_session_refines: "wp (gc_session mv cs) (\<lambda>w. (\<exists>xs. thread_inv xs w) \<and>
    account_of w = fold (account_exec mv) cs account_empty)"
  using gc_thread.run_refines [OF thread_inv_start, of mv cs]
  by (simp add: gc_session_def init_pool_def current_pool_def account_of_def account_empty_def)

section \<open>Properties\<close>

text \<open>C7: whatever a thread does with scopes, handles and collections, and in whatever order the scopes are
  dropped, no assertion of the pool fails and no freed box is used; each handle whose scope is alive
  refers to what was rooted or last written through it, moved once by every collection since.\<close>

theorem handles_refer_to_their_roots:
  "\<exists>w. gc_session mv cmds = Some w \<and> account_of w = fold (account_exec mv) cmds account_empty"
  using gc_session_refines [of mv cmds] by (rule wpE) blast

text \<open>C8: every page ever made is in one place, the root stack, the freelist or the pages of one live scope,
  and the list the collector walks is that of the private allocations of the live scopes, each once.\<close>

theorem pages_are_owned_once:
  "wp (gc_session mv cmds) (\<lambda>w. \<exists>xs.
     links_ok (w_pool w) xs \<and> distinct xs \<and>
     set xs = {a. \<exists>s sa. w_scopes w s = Some sa \<and> sa_private sa = Some a} \<and>
     mset (hp_stack (w_pool w)) + mset (hp_freelist (w_pool w)) + mset (private_owned (w_pool w) xs) =
       mset [0..<g_next_page (w_pool w)])"
proof (rule wp_mono [OF gc_session_refines], elim conjE exE)
  fix w xs assume i: "thread_inv xs w"
  have "set xs = {a. \<exists>s sa. w_scopes w s = Some sa \<and> sa_private sa = Some a}"
    using i unfolding thread_inv_def scopes_ok_def by blast
  moreover have "links_ok (w_pool w) xs" "distinct xs" "pages_ok [] (w_pool w) xs"
    using i by (simp_all add: thread_inv_def pinv_def allocs_ok_def)
  ultimately show "\<exists>xs. links_ok (w_pool w) xs \<and> distinct xs \<and>
     set xs = {a. \<exists>s sa. w_scopes w s = Some sa \<and> sa_private sa = Some a} \<and>
     mset (hp_stack (w_pool w)) + mset (hp_freelist (w_pool w)) + mset (private_owned (w_pool w) xs) =
       mset [0..<g_next_page (w_pool w)]"
    by (intro exI [of _ xs]) (simp add: pages_ok_def)
qed

text \<open>C32: the top of the stack is within its pages, at most 32 released allocations are kept, and once
  the last scope is dropped, in whatever order, the stack is empty and the collector has nothing to walk.\<close>

theorem dropped_scopes_free_the_stack:
  "wp (gc_session mv cmds) (\<lambda>w.
     hp_top (w_pool w) \<le> page_size * length (hp_stack (w_pool w)) \<and>
     length (hp_alloc_freelist (w_pool w)) \<le> max_free_allocs \<and>
     (w_scopes w = (\<lambda>_. None) \<longrightarrow>
        hp_levels (w_pool w) = [] \<and> hp_top (w_pool w) = 0 \<and> hp_active_head (w_pool w) = None))"
proof (rule wp_mono [OF gc_session_refines], elim conjE exE)
  fix w xs assume i: "thread_inv xs w"
  have l: "hp_levels (w_pool w) = []" if "w_scopes w = (\<lambda>_. None)"
  proof (rule ccontr)
    assume "hp_levels (w_pool w) \<noteq> []"
    then have "lv_alive (hp_levels (w_pool w) ! (length (hp_levels (w_pool w)) - 1))"
        "length (hp_levels (w_pool w)) - 1 < length (hp_levels (w_pool w))"
      using i by (simp_all add: thread_inv_def stack_ok_def last_conv_nth)
    then show False using i that unfolding thread_inv_def scopes_ok_def by fastforce
  qed
  have "xs = []" if "w_scopes w = (\<lambda>_. None)"
    using i that unfolding thread_inv_def scopes_ok_def by (metis last_in_set option.distinct(1))
  then have "hp_active_head (w_pool w) = None" if "w_scopes w = (\<lambda>_. None)"
    using i that by (simp add: thread_inv_def pinv_def links_ok_def)
  then show "hp_top (w_pool w) \<le> page_size * length (hp_stack (w_pool w)) \<and>
     length (hp_alloc_freelist (w_pool w)) \<le> max_free_allocs \<and>
     (w_scopes w = (\<lambda>_. None) \<longrightarrow>
        hp_levels (w_pool w) = [] \<and> hp_top (w_pool w) = 0 \<and> hp_active_head (w_pool w) = None)"
    using i l stack_ok_top by (simp add: thread_inv_def stack_ok_def pinv_def allocs_ok_def)
qed

lemma dropped_scopes_free_the_stack_witness:
  "wp (gc_session (\<lambda>_ v. v + 1) [NewScope, Root 0 (RootValue 7), NewScope, Root 1 (RootObject 8), Root 0 (RootString 9),
      Collect, DropScope 0, DropScope 1])
    (\<lambda>w. hp_levels (w_pool w) = [] \<and> hp_top (w_pool w) = 0 \<and> hp_active_head (w_pool w) = None)"
proof -
  let ?cs = "[NewScope, Root 0 (RootValue 7), NewScope, Root 1 (RootObject 8), Root 0 (RootString 9),
      Collect, DropScope 0, DropScope 1]"
  obtain w where w: "gc_session (\<lambda>_ v. v + 1) ?cs = Some w"
    "account_of w = fold (account_exec (\<lambda>_ v. v + 1)) ?cs account_empty"
    using gc_session_refines [of "\<lambda>_ v. v + 1" ?cs] by (rule wpE) blast
  have "dom (w_scopes w) = {}" using w(2) by (auto simp: account_of_def account_empty_def)
  then have "w_scopes w = (\<lambda>_. None)" by (auto simp: dom_def fun_eq_iff)
  then show ?thesis using dropped_scopes_free_the_stack [of "\<lambda>_ v. v + 1" ?cs] w(1) by simp
qed

end
