(* ===== verification/Text_Support.thy ===== *)
theory Text_Support
  imports Code_Points
begin

text \<open>
  What the configuration and the module loader use of Rust's standard library: trimming, decimal
  numbers, and Unix paths as lists of components.
\<close>

section \<open>Strings\<close>

text \<open>\<open>char::is_whitespace\<close>, \<open>str::trim\<close>, \<open>to_ascii_lowercase\<close>, \<open>is_ascii_digit\<close>.\<close>

definition white_space :: "nat \<Rightarrow> bool" where
  "white_space c \<longleftrightarrow> 9 \<le> c \<and> c \<le> 13 \<or> 8192 \<le> c \<and> c \<le> 8202 \<or>
     c \<in> {32, 133, 160, 5760, 8232, 8233, 8239, 8287, 12288}"

definition trim :: "code_points \<Rightarrow> code_points" where
  "trim s = rev (dropWhile white_space (rev (dropWhile white_space s)))"

definition ascii_lowercase :: "code_points \<Rightarrow> code_points" where
  "ascii_lowercase = map (\<lambda>c. if 65 \<le> c \<and> c \<le> 90 then c + 32 else c)"

definition ascii_digit :: "nat \<Rightarrow> bool" where
  "ascii_digit c \<longleftrightarrow> 48 \<le> c \<and> c \<le> 57"

text \<open>\<open>u64::to_string\<close> and \<open>u64::from_str\<close> on digits; the latter fails on overflow.\<close>

fun decimal :: "nat \<Rightarrow> code_points" where
  "decimal n = (if n < 10 then [48 + n] else decimal (n div 10) @ [48 + n mod 10])"

declare decimal.simps [simp del]

fun read_digits :: "nat \<Rightarrow> code_points \<Rightarrow> nat option" where
  "read_digits acc [] = Some acc"
| "read_digits acc (c # cs) =
     (let n = acc * 10 + (c - 48)
      in if ascii_digit c \<and> n < 2 ^ 64 then read_digits n cs else None)"

definition parse_u64 :: "code_points \<Rightarrow> nat option" where
  "parse_u64 s = (if s = [] then None else read_digits 0 s)"

section \<open>Paths\<close>

text \<open>\<open>std::path\<close> on Unix. A path is the list of its components; \<open>.\<close> is one only at the start of a
  relative path, and separators that follow each other count once.\<close>

datatype component = RootDir | CurDir | ParentDir | Normal code_points

type_synonym path = "component list"

abbreviation slash :: nat where
  "slash \<equiv> 47"

fun pieces :: "code_points \<Rightarrow> code_points \<Rightarrow> code_points list" where
  "pieces acc [] = [acc]"
| "pieces acc (c # cs) = (if c = slash then acc # pieces [] cs else pieces (acc @ [c]) cs)"

definition component_of :: "code_points \<Rightarrow> component" where
  "component_of s = (if s = [46] then CurDir else if s = [46, 46] then ParentDir else Normal s)"

definition path_of :: "code_points \<Rightarrow> path" where
  "path_of s =
     (let parts = map component_of (filter (\<lambda>p. p \<noteq> []) (pieces [] s))
      in if s \<noteq> [] \<and> hd s = slash then RootDir # filter (\<lambda>c. c \<noteq> CurDir) parts
         else if parts \<noteq> [] \<and> hd parts = CurDir then CurDir # filter (\<lambda>c. c \<noteq> CurDir) parts
         else filter (\<lambda>c. c \<noteq> CurDir) parts)"

fun component_str :: "component \<Rightarrow> code_points" where
  "component_str RootDir = []"
| "component_str CurDir = [46]"
| "component_str ParentDir = [46, 46]"
| "component_str (Normal s) = s"

text \<open>\<open>to_string_lossy\<close> of a path without separators to spare.\<close>

fun join_str :: "path \<Rightarrow> code_points" where
  "join_str [] = []"
| "join_str [c] = component_str c"
| "join_str (c # cs) = component_str c @ slash # join_str cs"

definition path_str :: "path \<Rightarrow> code_points" where
  "path_str p = (if p = [RootDir] then [slash] else join_str p)"

definition is_absolute :: "path \<Rightarrow> bool" where
  "is_absolute p \<longleftrightarrow> p \<noteq> [] \<and> hd p = RootDir"

definition path_join :: "path \<Rightarrow> path \<Rightarrow> path" where
  "path_join p q =
     (if is_absolute q then q
      else if p = [] then q
      else p @ filter (\<lambda>c. c \<noteq> CurDir) q)"

definition path_parent :: "path \<Rightarrow> path option" where
  "path_parent p = (if p = [] \<or> last p = RootDir then None else Some (butlast p))"

text \<open>The part of a file name after its last dot, unless that is where it starts.\<close>

definition path_extension :: "path \<Rightarrow> code_points option" where
  "path_extension p =
     (if p = [] then None
      else (case last p of
              Normal s \<Rightarrow>
                (let ext = takeWhile (\<lambda>c. c \<noteq> 46) (rev s)
                 in if length ext + 1 < length s then Some (rev ext) else None)
            | _ \<Rightarrow> None))"

section \<open>Lemmas\<close>

lemma lit_simps [simp]: "lit [] = []" "lit (c # cs) = of_char c # lit cs"
  by (simp_all add: lit_def)

lemma trim_unchanged: "s \<noteq> [] \<Longrightarrow> \<not> white_space (hd s) \<Longrightarrow> \<not> white_space (last s) \<Longrightarrow> trim s = s"
proof -
  assume s: "s \<noteq> []" "\<not> white_space (hd s)" "\<not> white_space (last s)"
  have "dropWhile white_space s = s" using s(1,2) by (cases s) auto
  moreover have "dropWhile white_space (rev s) = rev s" using s(1,3) by (cases s rule: rev_cases) auto
  ultimately show ?thesis by (simp add: trim_def)
qed

lemma decimal_digits: "d \<in> set (decimal n) \<Longrightarrow> ascii_digit d"
  by (induction n rule: decimal.induct) (subst (asm) decimal.simps, auto simp: ascii_digit_def split: if_splits)

lemma decimal_nonempty [simp]: "decimal n \<noteq> []"
  by (subst decimal.simps) simp

text \<open>The number that digits denote.\<close>

definition number :: "nat \<Rightarrow> code_points \<Rightarrow> nat" where
  "number acc s = foldl (\<lambda>n c. n * 10 + (c - 48)) acc s"

lemma number_ge: "acc \<le> number acc s"
proof (induction s arbitrary: acc)
  case (Cons c s)
  have "acc \<le> acc * 10 + (c - 48)" by simp
  also have "\<dots> \<le> number acc (c # s)" using Cons [of "acc * 10 + (c - 48)"] by (simp add: number_def)
  finally show ?case .
qed (simp add: number_def)

lemma read_digits_eq:
  "acc < 2 ^ 64 \<Longrightarrow> read_digits acc s =
     (if (\<forall>c \<in> set s. ascii_digit c) \<and> number acc s < 2 ^ 64 then Some (number acc s) else None)"
proof (induction s arbitrary: acc)
  case (Cons c s)
  let ?n = "acc * 10 + (c - 48)"
  have "?n \<le> number acc (c # s)" using number_ge [of ?n s] by (simp add: number_def)
  then show ?case using Cons.IH [of ?n] by (auto simp: Let_def number_def)
qed (simp add: number_def)

lemma parse_u64_eq: "parse_u64 s =
    (if s \<noteq> [] \<and> (\<forall>c \<in> set s. ascii_digit c) \<and> number 0 s < 2 ^ 64 then Some (number 0 s) else None)"
  by (simp add: parse_u64_def read_digits_eq)

lemma number_decimal: "number 0 (decimal n) = n"
proof (induction n rule: decimal.induct)
  case (1 n)
  show ?case
  proof (cases "n < 10")
    case True
    then show ?thesis by (subst decimal.simps) (simp add: number_def)
  next
    case False
    then show ?thesis using 1 by (subst decimal.simps) (simp add: number_def)
  qed
qed

end
