(* ===== verification/Config.thy ===== *)
theory Config
  imports Text_Support "HOL-Library.Word"
begin

text \<open>
  The settings of the runtime, \<open>crates/core-runtime/src/config.rs\<close>: byte sizes as they are printed and
  read on the command line, the timeouts and limits of the server with their validation, and the
  settings derived from the options. The crate \<open>clap\<close>, which fills the record from the arguments, and
  the splitting of an argument string by the crate \<open>shlex\<close> are outside.
\<close>

type_synonym u64 = "64 word"

section \<open>Byte sizes\<close>

datatype byte_size = ByteSize (size_bytes: u64)

definition kib :: "u64 \<Rightarrow> byte_size" where
  "kib n = ByteSize (n * 1024)"

definition mib :: "u64 \<Rightarrow> byte_size" where
  "mib n = ByteSize (n * 1024 * 1024)"

definition gib :: "u64 \<Rightarrow> byte_size" where
  "gib n = ByteSize (n * 1024 * 1024 * 1024)"

definition binary_units :: "(code_points \<times> u64) list" where
  "binary_units = [(lit ''GiB'', 2 ^ 30), (lit ''MiB'', 2 ^ 20), (lit ''KiB'', 2 ^ 10)]"

fun display_units :: "(code_points \<times> u64) list \<Rightarrow> u64 \<Rightarrow> code_points" where
  "display_units [] b = decimal (unat b) @ lit ''B''"
| "display_units ((unit, multiple) # units) b =
     (if multiple \<le> b \<and> b mod multiple = 0 then decimal (unat (b div multiple)) @ unit
      else display_units units b)"

definition byte_size_display :: "byte_size \<Rightarrow> code_points" where
  "byte_size_display s = display_units binary_units (size_bytes s)"

text \<open>The messages, with the value they name.\<close>

datatype byte_size_error = NotAByteSize code_points | MoreThanU64 code_points

definition unit_multiple :: "code_points \<Rightarrow> nat option" where
  "unit_multiple u =
     (if u = [] \<or> u = lit ''b'' then Some 1
      else if u = lit ''k'' \<or> u = lit ''kib'' then Some (2 ^ 10)
      else if u = lit ''m'' \<or> u = lit ''mib'' then Some (2 ^ 20)
      else if u = lit ''g'' \<or> u = lit ''gib'' then Some (2 ^ 30)
      else if u = lit ''kb'' then Some 1000
      else if u = lit ''mb'' then Some 1000000
      else if u = lit ''gb'' then Some 1000000000
      else None)"

definition byte_size_from_str :: "code_points \<Rightarrow> byte_size_error + byte_size" where
  "byte_size_from_str s =
     (let value = trim s;
          digits = takeWhile ascii_digit value;
          rest = dropWhile ascii_digit value
      in case parse_u64 digits of
           None \<Rightarrow> Inl (NotAByteSize value)
         | Some n \<Rightarrow>
             (case unit_multiple (ascii_lowercase (trim rest)) of
                None \<Rightarrow> Inl (NotAByteSize value)
              | Some multiple \<Rightarrow>
                  if n * multiple < 2 ^ 64 then Inr (ByteSize (of_nat (n * multiple)))
                  else Inl (MoreThanU64 value)))"

section \<open>The options\<close>

record serve_limits =
  max_connection_buffer_size :: byte_size
  max_request_headers :: u64
  max_request_body_bytes :: byte_size
  max_body_drain_bytes :: byte_size
  max_connections :: u64
  sl_request_read_timeout :: u64
  sl_keepalive_timeout :: u64

definition serve_limits_default :: serve_limits where
  "serve_limits_default =
     \<lparr>max_connection_buffer_size = ByteSize (8192 + 4096 * 100), max_request_headers = 128,
      max_request_body_bytes = mib 512, max_body_drain_bytes = kib 256, max_connections = 1024,
      sl_request_read_timeout = 30, sl_keepalive_timeout = 30\<rparr>"

record runtime_config =
  rc_script_path :: code_points
  rc_eval_script :: "code_points option"
  rc_initializer_script_path :: "code_points option"
  rc_verbose :: bool
  rc_debugging :: bool
  rc_async_stacks :: bool
  rc_legacy_script :: bool
  rc_wpt_mode :: bool
  rc_enforce_fetch_restrictions :: "bool option"
  rc_init_location :: "code_points option"
  rc_path_prefix :: "code_points option"
  rc_serve :: "16 word option"
  rc_serve_isolated :: bool
  rc_dispatch_timeout :: "u64 option"
  rc_response_body_timeout :: "u64 option"
  rc_waituntil_timeout :: "u64 option"
  rc_end_to_end_timeout :: "u64 option"
  rc_serve_limits :: serve_limits
  rc_pre_initialize :: bool

definition runtime_config_default :: runtime_config where
  "runtime_config_default =
     \<lparr>rc_script_path = lit ''./index.js'', rc_eval_script = None, rc_initializer_script_path = None,
      rc_verbose = False, rc_debugging = False, rc_async_stacks = False, rc_legacy_script = False,
      rc_wpt_mode = False, rc_enforce_fetch_restrictions = None, rc_init_location = None,
      rc_path_prefix = None, rc_serve = None, rc_serve_isolated = False, rc_dispatch_timeout = None,
      rc_response_body_timeout = None, rc_waituntil_timeout = None, rc_end_to_end_timeout = None,
      rc_serve_limits = serve_limits_default, rc_pre_initialize = False\<rparr>"

section \<open>Settings derived from the options\<close>

definition module_mode :: "runtime_config \<Rightarrow> bool" where
  "module_mode c = (\<not> rc_legacy_script c)"

definition enforce_fetch_restrictions :: "runtime_config \<Rightarrow> bool" where
  "enforce_fetch_restrictions c =
     (case rc_enforce_fetch_restrictions c of Some b \<Rightarrow> b | None \<Rightarrow> rc_wpt_mode c)"

definition wpt_serve_timeout :: u64 where
  "wpt_serve_timeout = 120"

text \<open>A timeout in seconds, or no limit.\<close>

definition serve_timeout :: "u64 option \<Rightarrow> bool \<Rightarrow> u64 option" where
  "serve_timeout seconds wpt =
     (case seconds of
        Some s \<Rightarrow> if s = 0 then None else Some s
      | None \<Rightarrow> if wpt then Some wpt_serve_timeout else None)"

definition dispatch_timeout :: "runtime_config \<Rightarrow> u64 option" where
  "dispatch_timeout c = serve_timeout (rc_dispatch_timeout c) (rc_wpt_mode c)"

definition response_body_timeout :: "runtime_config \<Rightarrow> u64 option" where
  "response_body_timeout c = serve_timeout (rc_response_body_timeout c) (rc_wpt_mode c)"

definition waituntil_timeout :: "runtime_config \<Rightarrow> u64 option" where
  "waituntil_timeout c = serve_timeout (rc_waituntil_timeout c) (rc_wpt_mode c)"

definition end_to_end_timeout :: "runtime_config \<Rightarrow> u64 option" where
  "end_to_end_timeout c = serve_timeout (rc_end_to_end_timeout c) False"

text \<open>The message: the flag, its seconds and those of \<open>--end-to-end-timeout\<close>.\<close>

type_synonym timeout_error = "string \<times> u64 \<times> u64"

fun check_phases :: "u64 \<Rightarrow> (string \<times> u64 option) list \<Rightarrow> timeout_error + unit" where
  "check_phases end_to_end [] = Inr ()"
| "check_phases end_to_end ((flag, seconds) # phases) =
     (case seconds of
        Some s \<Rightarrow>
          if s \<noteq> 0 \<and> s > end_to_end then Inl (flag, s, end_to_end) else check_phases end_to_end phases
      | None \<Rightarrow> check_phases end_to_end phases)"

definition validate_serve_timeouts :: "runtime_config \<Rightarrow> timeout_error + unit" where
  "validate_serve_timeouts c =
     (case rc_end_to_end_timeout c of
        Some end_to_end \<Rightarrow>
          if end_to_end \<noteq> 0
          then check_phases end_to_end
            [(''--dispatch-timeout'', rc_dispatch_timeout c),
             (''--response-body-timeout'', rc_response_body_timeout c),
             (''--waituntil-timeout'', rc_waituntil_timeout c)]
          else Inr ()
      | None \<Rightarrow> Inr ())"

definition base_path :: "path option \<Rightarrow> runtime_config \<Rightarrow> path" where
  "base_path current_dir c =
     (let cwd = (case current_dir of Some d \<Rightarrow> d | None \<Rightarrow> [])
      in if rc_eval_script c \<noteq> None then cwd
         else (let p = path_of (rc_script_path c);
                   abs = (if is_absolute p then p else path_join cwd p)
               in case path_parent abs of
                    Some parent \<Rightarrow> if parent \<noteq> [] then parent else abs
                  | None \<Rightarrow> abs))"

section \<open>Limits\<close>

definition min_request_head_bytes :: u64 where
  "min_request_head_bytes = 8 * 1024"

definition request_read_timeout :: "serve_limits \<Rightarrow> u64 option" where
  "request_read_timeout l = (if sl_request_read_timeout l \<noteq> 0 then Some (sl_request_read_timeout l) else None)"

definition keepalive_timeout :: "serve_limits \<Rightarrow> u64 option" where
  "keepalive_timeout l = (if sl_keepalive_timeout l \<noteq> 0 then Some (sl_keepalive_timeout l) else None)"

datatype limit_error = ZeroLimit string | BufferTooSmall byte_size

fun first_zero :: "(string \<times> u64) list \<Rightarrow> string option" where
  "first_zero [] = None"
| "first_zero ((flag, value) # limits) = (if value = 0 then Some flag else first_zero limits)"

definition validate_limits :: "serve_limits \<Rightarrow> limit_error + unit" where
  "validate_limits l =
     (case first_zero
        [(''--max-connection-buffer-size'', size_bytes (max_connection_buffer_size l)),
         (''--max-request-headers'', max_request_headers l),
         (''--max-request-body-bytes'', size_bytes (max_request_body_bytes l)),
         (''--max-connections'', max_connections l)] of
        Some flag \<Rightarrow> Inl (ZeroLimit flag)
      | None \<Rightarrow>
          if size_bytes (max_connection_buffer_size l) < min_request_head_bytes
          then Inl (BufferTooSmall (max_connection_buffer_size l))
          else Inr ())"

section \<open>The restrictions of the running instance\<close>

definition set_enforce_fetch_restrictions :: "bool \<Rightarrow> bool \<Rightarrow> bool" where
  "set_enforce_fetch_restrictions enabled cell = enabled"

end
