(* ===== verification/Config_Claims.thy ===== *)
theory Config_Claims
  imports Config
begin

text \<open>
  The properties of the configuration: byte sizes print as what they are read from, exactly the sizes
  below \<open>2 ^ 64\<close> are accepted, and the validations say exactly what they are for.
\<close>

section \<open>Byte sizes\<close>

text \<open>A number with a unit is read as the product.\<close>

definition unit_text :: "code_points \<Rightarrow> bool" where
  "unit_text u \<longleftrightarrow> u \<noteq> [] \<and> \<not> white_space (hd u) \<and> \<not> white_space (last u) \<and> \<not> ascii_digit (hd u)"

lemma digit_not_space: "ascii_digit c \<Longrightarrow> \<not> white_space c"
  by (auto simp: ascii_digit_def white_space_def)

lemma from_str_decimal:
  assumes u: "unit_text u" "unit_multiple (ascii_lowercase u) = Some m"
    and n: "n < 2 ^ 64" "n * m < 2 ^ 64"
  shows "byte_size_from_str (decimal n @ u) = Inr (ByteSize (of_nat (n * m)))"
proof -
  have d: "\<forall>c \<in> set (decimal n). ascii_digit c" using decimal_digits by blast
  have "ascii_digit (hd (decimal n))" using d by simp
  then have "trim (decimal n @ u) = decimal n @ u"
    using u(1) digit_not_space by (intro trim_unchanged) (auto simp: unit_text_def)
  moreover have "takeWhile ascii_digit (decimal n @ u) = decimal n" "dropWhile ascii_digit (decimal n @ u) = u"
    using d u(1) by (cases u; auto simp: unit_text_def takeWhile_append2 dropWhile_append2)+
  moreover have "trim u = u" using u(1) by (intro trim_unchanged) (auto simp: unit_text_def)
  moreover have "parse_u64 (decimal n) = Some n" using d n(1) by (simp add: parse_u64_eq number_decimal)
  ultimately show ?thesis using u(2) n(2) by (simp add: byte_size_from_str_def Let_def)
qed

lemma unit_texts:
  "unit_text (lit ''GiB'')" "unit_text (lit ''MiB'')" "unit_text (lit ''KiB'')" "unit_text (lit ''B'')"
  "unit_multiple (ascii_lowercase (lit ''GiB'')) = Some (unat (2 ^ 30 :: u64))"
  "unit_multiple (ascii_lowercase (lit ''MiB'')) = Some (unat (2 ^ 20 :: u64))"
  "unit_multiple (ascii_lowercase (lit ''KiB'')) = Some (unat (2 ^ 10 :: u64))"
  "unit_multiple (ascii_lowercase (lit ''B'')) = Some 1"
  by (simp_all add: unit_text_def white_space_def ascii_digit_def unit_multiple_def ascii_lowercase_def)

definition printed :: "u64 \<Rightarrow> code_points \<Rightarrow> bool" where
  "printed b s \<longleftrightarrow> (\<exists>n u m. s = decimal n @ u \<and> unit_text u \<and>
     unit_multiple (ascii_lowercase u) = Some m \<and> n * m = unat b \<and> n \<le> unat b)"

lemma printed_multiple:
  assumes "unit_text u" "unit_multiple (ascii_lowercase u) = Some (unat m)" "b mod m = 0"
  shows "printed b (decimal (unat (b div m)) @ u)"
proof -
  have "unat (b div m) * unat m = unat b \<and> unat (b div m) \<le> unat b"
    using assms(3) by (simp add: unat_div unat_mod_distrib unat_eq_0 [symmetric] mod_0_imp_dvd del: unat_eq_0)
  with assms(1,2) show ?thesis unfolding printed_def by blast
qed

lemma display_units_printed: "printed b (display_units binary_units b)"
proof -
  have "printed b (decimal (unat b) @ lit ''B'')"
    using unit_texts(4,8) unfolding printed_def by (metis mult.right_neutral order_refl)
  then show ?thesis
    using printed_multiple unit_texts unfolding binary_units_def display_units.simps by (simp del: lit_simps)
qed

text \<open>C36: every byte size is printed as a value that is read back as the same number of bytes.\<close>

theorem byte_sizes_round_trip: "byte_size_from_str (byte_size_display s) = Inr s"
proof -
  obtain n u m where p: "byte_size_display s = decimal n @ u" "unit_text u" "unit_multiple (ascii_lowercase u) = Some m"
    "n * m = unat (size_bytes s)" "n \<le> unat (size_bytes s)"
    using display_units_printed [of "size_bytes s"] unfolding printed_def byte_size_display_def by blast
  have "unat (size_bytes s) < 2 ^ 64" using unsigned_less [of "size_bytes s"] by simp
  then show ?thesis using from_str_decimal [OF p(2,3), of n] p(1,4,5) by simp
qed

text \<open>A size is read from exactly the strings that are, between spaces, digits, maybe spaces, and a
  known unit or none, when the product is below \<open>2 ^ 64\<close>; every other string is refused by name.\<close>

theorem byte_sizes_are_read_exactly:
  "byte_size_from_str s = Inr b \<longleftrightarrow>
     (\<exists>digits rest m. trim s = digits @ rest \<and> digits \<noteq> [] \<and> list_all ascii_digit digits \<and>
        (case rest of [] \<Rightarrow> True | c # _ \<Rightarrow> \<not> ascii_digit c) \<and>
        unit_multiple (ascii_lowercase (trim rest)) = Some m \<and>
        number 0 digits < 2 ^ 64 \<and> number 0 digits * m < 2 ^ 64 \<and> b = ByteSize (of_nat (number 0 digits * m)))"
    (is "?l \<longleftrightarrow> ?r")
proof
  let ?d = "takeWhile ascii_digit (trim s)" and ?r = "dropWhile ascii_digit (trim s)"
  assume ?l
  then obtain m where "unit_multiple (ascii_lowercase (trim ?r)) = Some m" "parse_u64 ?d \<noteq> None"
      "number 0 ?d * m < 2 ^ 64" "b = ByteSize (of_nat (number 0 ?d * m))"
    by (auto simp: byte_size_from_str_def Let_def parse_u64_eq split: option.splits if_splits)
  moreover have "case ?r of [] \<Rightarrow> True | c # _ \<Rightarrow> \<not> ascii_digit c"
    using hd_dropWhile [of ascii_digit "trim s"] by (cases ?r) (auto simp del: dropWhile_eq_Nil_conv)
  moreover have "list_all ascii_digit ?d" by (auto simp: list_all_iff dest: set_takeWhileD)
  ultimately show "\<exists>digits rest m. trim s = digits @ rest \<and> digits \<noteq> [] \<and> list_all ascii_digit digits \<and>
        (case rest of [] \<Rightarrow> True | c # _ \<Rightarrow> \<not> ascii_digit c) \<and>
        unit_multiple (ascii_lowercase (trim rest)) = Some m \<and>
        number 0 digits < 2 ^ 64 \<and> number 0 digits * m < 2 ^ 64 \<and> b = ByteSize (of_nat (number 0 digits * m))"
    by (intro exI [of _ ?d] exI [of _ ?r] exI [of _ m]) (auto simp: parse_u64_eq split: if_splits)
next
  assume ?r
  then obtain d r m where s: "trim s = d @ r" "d \<noteq> []" "list_all ascii_digit d"
    "case r of [] \<Rightarrow> True | c # _ \<Rightarrow> \<not> ascii_digit c" "unit_multiple (ascii_lowercase (trim r)) = Some m"
    "number 0 d < 2 ^ 64" "number 0 d * m < 2 ^ 64" "b = ByteSize (of_nat (number 0 d * m))" by blast
  have "takeWhile ascii_digit (d @ r) = d" "dropWhile ascii_digit (d @ r) = r"
    using s(3,4) by (cases r; auto simp: list_all_iff takeWhile_append2 dropWhile_append2)+
  moreover have "parse_u64 d = Some (number 0 d)" using s(2,3,6) by (simp add: parse_u64_eq list_all_iff)
  ultimately show ?l using s(1,5,7,8) by (simp add: byte_size_from_str_def Let_def)
qed

section \<open>Timeouts and limits\<close>

lemma check_phases_ok: "check_phases e ps = Inr () \<longleftrightarrow> list_all (\<lambda>(flag, t). case t of None \<Rightarrow> True | Some s \<Rightarrow> s \<le> e) ps"
  by (induction e ps rule: check_phases.induct) (auto split: option.splits)

text \<open>C39: the timeouts are accepted exactly when no timeout given for a phase is longer than the limit on
  the whole request, if there is one.\<close>

definition within :: "u64 option \<Rightarrow> u64 option \<Rightarrow> bool" where
  "within t limit = (case (t, limit) of (Some s, Some e) \<Rightarrow> s \<le> e | _ \<Rightarrow> True)"

theorem timeouts_are_validated:
  "validate_serve_timeouts c = Inr () \<longleftrightarrow>
     within (rc_dispatch_timeout c) (end_to_end_timeout c) \<and>
     within (rc_response_body_timeout c) (end_to_end_timeout c) \<and>
     within (rc_waituntil_timeout c) (end_to_end_timeout c)"
  by (cases "rc_end_to_end_timeout c")
    (auto simp: validate_serve_timeouts_def end_to_end_timeout_def serve_timeout_def check_phases_ok within_def
       simp del: check_phases.simps split: option.splits)

text \<open>The limits are accepted exactly when none that needs to be positive is zero and the buffer can hold a
  request head; the defaults are.\<close>

lemma limits_are_validated:
  "validate_limits l = Inr () \<longleftrightarrow>
     min_request_head_bytes \<le> size_bytes (max_connection_buffer_size l) \<and>
     max_request_headers l \<noteq> 0 \<and> size_bytes (max_request_body_bytes l) \<noteq> 0 \<and> max_connections l \<noteq> 0"
  by (auto simp: validate_limits_def min_request_head_bytes_def not_less)

lemma defaults_are_valid:
  "validate_limits (rc_serve_limits runtime_config_default) = Inr ()"
  "validate_serve_timeouts runtime_config_default = Inr ()"
  by (simp_all add: limits_are_validated runtime_config_default_def serve_limits_default_def mib_def
      min_request_head_bytes_def validate_serve_timeouts_def)

text \<open>Modules are resolved from an absolute directory.\<close>

lemma path_parent_absolute: "is_absolute p \<Longrightarrow> path_parent p = Some q \<Longrightarrow> q \<noteq> [] \<Longrightarrow> is_absolute q"
  by (cases p rule: rev_cases) (auto simp: path_parent_def is_absolute_def hd_append split: if_splits)

lemma base_path_is_absolute: "is_absolute cwd \<Longrightarrow> is_absolute (base_path (Some cwd) c)"
proof -
  assume c: "is_absolute cwd"
  let ?p = "path_of (rc_script_path c)"
  define abs where "abs = (if is_absolute ?p then ?p else path_join cwd ?p)"
  have a: "is_absolute abs" using c by (auto simp: abs_def path_join_def is_absolute_def hd_append)
  have "base_path (Some cwd) c = (if rc_eval_script c \<noteq> None then cwd
      else case path_parent abs of Some parent \<Rightarrow> if parent \<noteq> [] then parent else abs | None \<Rightarrow> abs)"
    by (simp only: base_path_def Let_def abs_def option.case)
  then show ?thesis using a c path_parent_absolute [OF a] by (cases "path_parent abs") auto
qed

end
