(* ===== verification/Module_Loader.thy ===== *)
theory Module_Loader
  imports Text_Support
begin

text \<open>
  The module loader, \<open>crates/core-runtime/src/module.rs\<close>: the registry of compiled modules, the load
  hook that the engine calls for each import, native and synthetic modules, and entry modules.

  Outside are the file system, the resolver of the crate \<open>oxc_resolver\<close> and the compiler of the engine
  (the record \<open>host\<close>, which may be another at every command, as files change), and what the engine does
  with a compiled module: it loads the modules that it imports, links and evaluates it, all of which
  come back as commands. A failing \<open>unwrap\<close> or \<open>expect\<close> is \<open>None\<close>.
\<close>

section \<open>State\<close>

datatype module_kind = JavaScript | Json

text \<open>A module of the engine: how it was compiled, and its module private, a path or nothing.\<close>

record module_obj =
  mo_kind :: module_kind
  mo_private :: "code_points option"

text \<open>\<open>ModuleState\<close>, with the modules of the engine by their identities.\<close>

record module_state =
  ms_registry :: "code_points \<rightharpoonup> nat"
  ms_resolver :: bool
  ms_base_path :: "path option"
  ms_entry :: "code_points option"
  ms_modules :: "module_obj list"

record host =
  ho_resolve :: "path \<Rightarrow> code_points \<Rightarrow> path option"
  ho_canonicalize :: "path \<Rightarrow> path option"
  ho_read :: "path \<Rightarrow> code_points option"
  ho_compiles :: "module_kind \<Rightarrow> code_points \<Rightarrow> bool"
  ho_current_dir :: "path option"
  ho_exists :: "path \<Rightarrow> bool"
  ho_is_file :: "path \<Rightarrow> bool"

definition module_state_empty :: module_state where
  "module_state_empty =
     \<lparr>ms_registry = (\<lambda>_. None), ms_resolver = False, ms_base_path = None, ms_entry = None, ms_modules = []\<rparr>"

definition registry_insert :: "code_points \<Rightarrow> nat \<Rightarrow> module_state \<Rightarrow> module_state" where
  "registry_insert key m st = st\<lparr>ms_registry := (ms_registry st)(key \<mapsto> m)\<rparr>"

definition registry_remove :: "code_points \<Rightarrow> module_state \<Rightarrow> module_state" where
  "registry_remove key st = st\<lparr>ms_registry := (ms_registry st)(key := None)\<rparr>"

definition module_private :: "nat \<Rightarrow> module_state \<Rightarrow> code_points option" where
  "module_private m st = (if m < length (ms_modules st) then mo_private (ms_modules st ! m) else None)"

definition set_module_private :: "nat \<Rightarrow> code_points \<Rightarrow> module_state \<Rightarrow> module_state" where
  "set_module_private m s st =
     st\<lparr>ms_modules := (ms_modules st)[m := (ms_modules st ! m)\<lparr>mo_private := Some s\<rparr>]\<rparr>"

text \<open>A module the engine compiled from a source.\<close>

definition new_module :: "module_kind \<Rightarrow> module_state \<Rightarrow> module_state \<times> nat" where
  "new_module kind st =
     (st\<lparr>ms_modules := ms_modules st @ [\<lparr>mo_kind = kind, mo_private = None\<rparr>]\<rparr>, length (ms_modules st))"

definition compile :: "host \<Rightarrow> module_kind \<Rightarrow> code_points \<Rightarrow> module_state \<Rightarrow> (module_state \<times> nat) option" where
  "compile ho kind source st = (if ho_compiles ho kind source then Some (new_module kind st) else None)"

section \<open>Resolving\<close>

text \<open>\<open>lexically_normalize\<close>: the loop over the components.\<close>

definition is_normal :: "component \<Rightarrow> bool" where
  "is_normal c = (case c of Normal _ \<Rightarrow> True | _ \<Rightarrow> False)"

fun normalize_step :: "component \<Rightarrow> path \<Rightarrow> path" where
  "normalize_step CurDir out = out"
| "normalize_step ParentDir out =
     (if out = [] \<or> \<not> is_normal (last out) then out @ [ParentDir] else butlast out)"
| "normalize_step other out = (if other = RootDir then [RootDir] else out @ [other])"

definition lexically_normalize :: "path \<Rightarrow> path" where
  "lexically_normalize p = fold normalize_step p []"

definition canonical :: "host \<Rightarrow> path \<Rightarrow> path" where
  "canonical ho p = (case ho_canonicalize ho p of Some c \<Rightarrow> c | None \<Rightarrow> lexically_normalize p)"

definition referrer_base_dir :: "nat option \<Rightarrow> module_state \<Rightarrow> path option" where
  "referrer_base_dir referrer st =
     (case Option.bind referrer (\<lambda>m. module_private m st) of
        Some p \<Rightarrow>
          (case path_parent (path_of p) of
             Some parent \<Rightarrow> if parent \<noteq> [] then Some parent else ms_base_path st
           | None \<Rightarrow> ms_base_path st)
      | None \<Rightarrow> ms_base_path st)"

datatype load_error =
  NoBasePath | CannotResolve | JsonAsJavaScript | CannotRead | InvalidFilename | CompileThrew
| UnsupportedType | LoadOfImportsFailed

definition json_prefix :: code_points where
  "json_prefix = lit ''json:''"

definition starts_with :: "code_points \<Rightarrow> code_points \<Rightarrow> bool" where
  "starts_with p s \<longleftrightarrow> take (length p) s = p"

definition cache_key :: "module_kind \<Rightarrow> code_points \<Rightarrow> code_points" where
  "cache_key kind canonical_key =
     (case kind of JavaScript \<Rightarrow> canonical_key | Json \<Rightarrow> json_prefix @ canonical_key)"

definition is_json_file :: "path \<Rightarrow> bool" where
  "is_json_file p = (case path_extension p of Some e \<Rightarrow> ascii_lowercase e = lit ''json'' | None \<Rightarrow> False)"

text \<open>Reading and compiling the file of a path that is not cached.\<close>

definition compile_file ::
  "host \<Rightarrow> path \<Rightarrow> module_kind \<Rightarrow> module_state \<Rightarrow> module_state \<times> (load_error + nat)" where
  "compile_file ho canonical_path kind st =
     (let canonical_key = path_str canonical_path
      in case ho_read ho canonical_path of
           None \<Rightarrow> (st, Inl CannotRead)
         | Some source \<Rightarrow>
             if 0 \<in> set canonical_key then (st, Inl InvalidFilename)
             else (case compile ho kind source st of
                     None \<Rightarrow> (st, Inl CompileThrew)
                   | Some (st1, m) \<Rightarrow>
                       (let st2 = (case kind of
                                     JavaScript \<Rightarrow> set_module_private m canonical_key st1
                                   | Json \<Rightarrow> st1)
                        in (registry_insert (cache_key kind canonical_key) m st2, Inr m))))"

definition resolve_file_module ::
  "host \<Rightarrow> code_points \<Rightarrow> path option \<Rightarrow> module_kind \<Rightarrow> module_state \<Rightarrow>
     (module_state \<times> (load_error + nat)) option" where
  "resolve_file_module ho specifier base_dir kind st =
     (case base_dir of
        None \<Rightarrow> Some (st, Inl NoBasePath)
      | Some dir \<Rightarrow>
          do {
            require (ms_resolver st);
            Some (case ho_resolve ho dir specifier of
                    None \<Rightarrow> (st, Inl CannotResolve)
                  | Some resolved \<Rightarrow>
                      (let p = canonical ho resolved
                       in if kind = JavaScript \<and> is_json_file p then (st, Inl JsonAsJavaScript)
                          else (case ms_registry st (cache_key kind (path_str p)) of
                                  Some m \<Rightarrow> (st, Inr m)
                                | None \<Rightarrow> compile_file ho p kind st)))
          })"

section \<open>What the engine does with a module\<close>

datatype module_call =
    LoadRequested nat
  | Link nat
  | Evaluate nat
  | GetEnvironment nat
  | Populate nat code_points

type_synonym module_user = "module_call \<Rightarrow> module_state \<Rightarrow> (module_state \<times> bool) option"

text \<open>The load hook. The type of a request is one the loader compiles, or another.\<close>

definition module_load_hook ::
  "host \<Rightarrow> module_user \<Rightarrow> nat option \<Rightarrow> code_points \<Rightarrow> module_kind option \<Rightarrow> bool \<Rightarrow> module_state \<Rightarrow>
     (module_state \<times> (load_error + nat)) option" where
  "module_load_hook ho U referrer specifier request_type is_dynamic st =
     (case request_type of
        None \<Rightarrow> Some (st, Inl UnsupportedType)
      | Some kind \<Rightarrow>
          do {
            let cached = (if kind = JavaScript \<and> \<not> starts_with json_prefix specifier
                          then ms_registry st specifier else None);
            (st1, result) \<leftarrow>
              (case cached of
                 Some m \<Rightarrow> Some (st, Inr m)
               | None \<Rightarrow> resolve_file_module ho specifier (referrer_base_dir referrer st) kind st);
            (case result of
               Inl e \<Rightarrow> Some (st1, Inl e)
             | Inr m \<Rightarrow>
                 if is_dynamic
                 then do {
                   (st2, loaded) \<leftarrow> U (LoadRequested m) st1;
                   Some (st2, if loaded then Inr m else Inl LoadOfImportsFailed)
                 }
                 else Some (st1, Inr m))
          })"

section \<open>Entry modules\<close>

definition register_entry_module :: "host \<Rightarrow> nat \<Rightarrow> path \<Rightarrow> module_state \<Rightarrow> module_state" where
  "register_entry_module ho m p st =
     (let abs = (if is_absolute p then p
                 else path_join (case ho_current_dir ho of Some d \<Rightarrow> d | None \<Rightarrow> []) p);
          key = path_str (canonical ho abs);
          st1 = registry_insert key m (set_module_private m key st)
      in st1\<lparr>ms_entry := Some key\<rparr>)"

definition record_entry_module :: "nat \<Rightarrow> code_points \<Rightarrow> module_state \<Rightarrow> module_state" where
  "record_entry_module m name st = (registry_insert name m st)\<lparr>ms_entry := Some name\<rparr>"

text \<open>The module whose namespace is read.\<close>

definition entry_namespace :: "module_state \<Rightarrow> nat option" where
  "entry_namespace st = do { key \<leftarrow> ms_entry st; ms_registry st key }"

text \<open>The three stages of the engine, each after the one before it succeeded.\<close>

fun engine_stages :: "module_user \<Rightarrow> module_call list \<Rightarrow> module_state \<Rightarrow> (module_state \<times> bool) option" where
  "engine_stages U [] st = Some (st, True)"
| "engine_stages U (c # cs) st =
     do { (st1, ok) \<leftarrow> U c st; if ok then engine_stages U cs st1 else Some (st1, False) }"

definition evaluate_module ::
  "host \<Rightarrow> module_user \<Rightarrow> code_points \<Rightarrow> code_points \<Rightarrow> module_state \<Rightarrow> (module_state \<times> bool) option" where
  "evaluate_module ho U source filename st =
     do {
       require (0 \<notin> set filename);
       (case compile ho JavaScript source st of
          None \<Rightarrow> Some (st, False)
        | Some (st1, m) \<Rightarrow>
            (let p = path_of filename;
                 is_path = (case path_parent p of
                              Some parent \<Rightarrow> if parent \<noteq> [] then ho_exists ho parent else ho_is_file ho p
                            | None \<Rightarrow> ho_is_file ho p);
                 st2 = (if is_path then register_entry_module ho m p st1
                        else record_entry_module m filename st1)
             in engine_stages U [LoadRequested m, Link m, Evaluate m] st2))
     }"

section \<open>Native and synthetic modules\<close>

text \<open>\<open>link_evaluate_and_populate\<close>, and the same for the values of a synthetic module.\<close>

definition link_evaluate_and_populate ::
  "module_user \<Rightarrow> nat \<Rightarrow> code_points \<Rightarrow> module_state \<Rightarrow> (module_state \<times> bool) option" where
  "link_evaluate_and_populate U m name st =
     engine_stages U [LoadRequested m, Link m, Evaluate m, GetEnvironment m, Populate m name] st"

definition export_source :: "code_points list \<Rightarrow> code_points" where
  "export_source names = concat (map (\<lambda>n. lit ''export var '' @ n @ [59, 10]) names)"

text \<open>A name with a \<open>NUL\<close> panics for a native module, and is an error for a synthetic one.\<close>

definition register_compiled ::
  "host \<Rightarrow> module_user \<Rightarrow> code_points \<Rightarrow> code_points list \<Rightarrow> module_state \<Rightarrow> (module_state \<times> bool) option" where
  "register_compiled ho U name exports st =
     (case compile ho JavaScript (export_source exports) st of
        None \<Rightarrow> Some (st, False)
      | Some (st1, m) \<Rightarrow>
          do {
            (st2, populated) \<leftarrow> link_evaluate_and_populate U m name (registry_insert name m st1);
            Some (if populated then st2 else registry_remove name st2, populated)
          })"

definition register_module ::
  "host \<Rightarrow> module_user \<Rightarrow> code_points \<Rightarrow> code_points list \<Rightarrow> module_state \<Rightarrow> (module_state \<times> bool) option" where
  "register_module ho U name exports st =
     do { require (0 \<notin> set name); register_compiled ho U name exports st }"

definition register_synthetic_module ::
  "host \<Rightarrow> module_user \<Rightarrow> code_points \<Rightarrow> code_points list \<Rightarrow> module_state \<Rightarrow> (module_state \<times> bool) option" where
  "register_synthetic_module ho U name exports st =
     (if 0 \<in> set name then Some (st, False) else register_compiled ho U name exports st)"

section \<open>Set-up\<close>

definition init_module_loader :: "path \<Rightarrow> module_state \<Rightarrow> module_state" where
  "init_module_loader base st = st\<lparr>ms_base_path := Some base, ms_resolver := True\<rparr>"

definition clear_module_registry :: "module_state \<Rightarrow> module_state" where
  "clear_module_registry st = st\<lparr>ms_registry := (\<lambda>_. None)\<rparr>"

definition clear_module_state :: "module_state \<Rightarrow> module_state" where
  "clear_module_state st =
     (clear_module_registry st)\<lparr>ms_base_path := None, ms_resolver := False, ms_entry := None\<rparr>"

section \<open>A runtime\<close>

datatype module_cmd =
    Import "nat option" code_points "module_kind option" bool
  | EvaluateModule code_points code_points
  | RegisterModule code_points "code_points list"
  | RegisterSynthetic code_points "code_points list"
  | ClearRegistry

fun module_exec :: "module_user \<Rightarrow> host \<times> module_cmd \<Rightarrow> module_state \<Rightarrow> module_state option" where
  "module_exec U (ho, Import referrer specifier kind is_dynamic) st =
     map_option fst (module_load_hook ho U referrer specifier kind is_dynamic st)"
| "module_exec U (ho, EvaluateModule source filename) st =
     map_option fst (evaluate_module ho U source filename st)"
| "module_exec U (ho, RegisterModule name exports) st =
     map_option fst (register_module ho U name exports st)"
| "module_exec U (ho, RegisterSynthetic name exports) st =
     map_option fst (register_synthetic_module ho U name exports st)"
| "module_exec U (ho, ClearRegistry) st = Some (clear_module_registry st)"

text \<open>
  What the engine and the code of modules do in a call: commands chosen from the whole state, nested
  at most \<open>n\<close> deep, and whether the call succeeds.
\<close>

type_synonym module_script = "module_call \<Rightarrow> module_state \<Rightarrow> (host \<times> module_cmd) list \<times> bool"

fun module_js :: "module_script \<Rightarrow> nat \<Rightarrow> module_user" where
  "module_js scr 0 c st = Some (st, False)"
| "module_js scr (Suc n) c st =
     do {
       st' \<leftarrow> run_all (module_exec (module_js scr n)) (fst (scr c st)) st;
       Some (st', snd (scr c st))
     }"

definition module_session ::
  "module_script \<Rightarrow> nat \<Rightarrow> path \<Rightarrow> (host \<times> module_cmd) list \<Rightarrow> module_state option" where
  "module_session scr n base cmds =
     run_all (module_exec (module_js scr n)) cmds (init_module_loader base module_state_empty)"

end
