(* ===== verification/Module_Claims.thy ===== *)
theory Module_Claims
  imports Module_Loader
begin

text \<open>
  The properties of the module loader. The registry's invariant says which keys hold which kind of
  module; the locale \<open>module_engine\<close> is what the loader relies on in the calls that come back to it.
\<close>

section \<open>Paths\<close>

definition slash_first :: "code_points \<Rightarrow> bool" where
  "slash_first s \<longleftrightarrow> s \<noteq> [] \<and> hd s = slash"

lemma absolute_str: "is_absolute p \<Longrightarrow> slash_first (path_str p)"
  by (cases p rule: join_str.cases) (auto simp: is_absolute_def path_str_def slash_first_def)

lemma slash_not_json: "slash_first s \<Longrightarrow> \<not> starts_with json_prefix s"
  by (cases s) (auto simp: slash_first_def starts_with_def json_prefix_def)

lemma slash_path_absolute: "slash_first s \<Longrightarrow> is_absolute (path_of s)"
  by (simp add: slash_first_def path_of_def is_absolute_def Let_def)

lemma parent_absolute: "is_absolute p \<Longrightarrow> path_parent p = Some q \<Longrightarrow> q \<noteq> [] \<Longrightarrow> is_absolute q"
  by (cases p rule: rev_cases) (auto simp: path_parent_def is_absolute_def hd_append split: if_splits)

lemma normalize_step_absolute:
  "c \<noteq> RootDir \<Longrightarrow> is_absolute out \<Longrightarrow> is_absolute (normalize_step c out)"
proof (cases c)
  case ParentDir
  assume "is_absolute out"
  then show ?thesis
    by (cases out rule: rev_cases; cases "butlast out")
      (auto simp: ParentDir is_absolute_def is_normal_def hd_append split: component.splits)
qed (auto simp: is_absolute_def)

lemma fold_normalize_absolute: "is_absolute out \<Longrightarrow> is_absolute (fold normalize_step p out)"
proof (induction p arbitrary: out)
  case (Cons c p)
  have "is_absolute (normalize_step c out)"
  proof (cases "c = RootDir")
    case True
    then show ?thesis by (simp add: is_absolute_def)
  next
    case False
    then show ?thesis using normalize_step_absolute Cons.prems by blast
  qed
  then show ?case using Cons.IH by simp
qed simp

lemma lexically_normalize_absolute: "is_absolute p \<Longrightarrow> is_absolute (lexically_normalize p)"
  using fold_normalize_absolute [of "[RootDir]" "tl p"]
  by (cases p) (auto simp: is_absolute_def lexically_normalize_def)

text \<open>Paths in normal form: no \<open>.\<close>, the root only in front, and no name before a \<open>..\<close>.\<close>

fun reduced :: "path \<Rightarrow> bool" where
  "reduced [] = True"
| "reduced [c] \<longleftrightarrow> c \<noteq> CurDir"
| "reduced (c # d # p) \<longleftrightarrow> c \<noteq> CurDir \<and> d \<noteq> RootDir \<and> \<not> (is_normal c \<and> d = ParentDir) \<and> reduced (d # p)"

lemma reduced_snoc: "reduced (p @ [c]) \<longleftrightarrow> reduced p \<and> c \<noteq> CurDir \<and>
    (p = [] \<or> c \<noteq> RootDir \<and> \<not> (is_normal (last p) \<and> c = ParentDir))"
  by (induction p rule: reduced.induct) auto

lemma reduced_butlast: "reduced out \<Longrightarrow> reduced (butlast out)"
  by (cases out rule: rev_cases) (auto simp: reduced_snoc)

lemma normalize_step_reduced: "reduced out \<Longrightarrow> reduced (normalize_step c out)"
  by (cases c) (auto simp: reduced_snoc reduced_butlast)

lemma fold_normalize_reduced: "reduced out \<Longrightarrow> reduced (fold normalize_step p out)"
  by (induction p arbitrary: out) (auto simp: normalize_step_reduced)

lemma fold_normalize_id: "reduced (out @ p) \<Longrightarrow> fold normalize_step p out = out @ p"
proof (induction p arbitrary: out)
  case (Cons c p)
  have "reduced ((out @ [c]) @ p)" using Cons.prems by simp
  moreover from this have "reduced (out @ [c])"
    by (induction p rule: rev_induct) (auto simp: reduced_snoc simp flip: append_assoc)
  then have "normalize_step c out = out @ [c]" by (cases c) (auto simp: reduced_snoc)
  ultimately show ?case using Cons.IH [of "out @ [c]"] by simp
qed simp

text \<open>What a path means in a tree of directories without symbolic links: the names on the way to the
  directory or file it leads to from the directory \<open>d\<close>. Above the root is the root.\<close>

fun locate_step :: "component \<Rightarrow> code_points list \<Rightarrow> code_points list" where
  "locate_step RootDir d = []"
| "locate_step CurDir d = d"
| "locate_step ParentDir d = butlast d"
| "locate_step (Normal x) d = d @ [x]"

definition locate :: "path \<Rightarrow> code_points list \<Rightarrow> code_points list" where
  "locate p d = fold locate_step p d"

lemma locate_append [simp]: "locate (p @ q) d = locate q (locate p d)" "locate [] d = d" "locate [c] d = locate_step c d"
  by (simp_all add: locate_def)

lemma locate_normalize_step: "locate (normalize_step c out) d = locate_step c (locate out d)"
proof (cases c)
  case ParentDir
  show ?thesis
  proof (cases "out \<noteq> [] \<and> is_normal (last out)")
    case True
    then obtain x where "out = butlast out @ [Normal x]"
      by (cases out rule: rev_cases; cases "last out") (auto simp: is_normal_def)
    then have "locate out d = locate (butlast out) d @ [x]" by (metis locate_append(1,3) locate_step.simps(4))
    with True ParentDir show ?thesis by simp
  qed (auto simp: ParentDir)
qed simp_all

lemma locate_normalized: "locate (lexically_normalize p) d = locate p d"
proof -
  have "locate (fold normalize_step p out) d = locate p (locate out d)" for out
    by (induction p arbitrary: out) (simp_all add: locate_normalize_step, simp_all add: locate_def)
  from this [of "[]"] show ?thesis by (simp add: lexically_normalize_def)
qed

text \<open>A path in normal form: from the root or not, some steps up, then names.\<close>

definition climb :: "bool \<Rightarrow> nat \<Rightarrow> code_points list \<Rightarrow> path" where
  "climb a k ns = (if a then [RootDir] else []) @ replicate k ParentDir @ map Normal ns"

lemma reduced_climb: "reduced p \<Longrightarrow> \<exists>a k ns. p = climb a k ns"
proof (induction p rule: rev_induct)
  case Nil
  have "[] = climb False 0 []" by (simp add: climb_def)
  then show ?case by blast
next
  case (snoc c p)
  then obtain a k ns where p: "p = climb a k ns" by (auto simp: reduced_snoc)
  show ?case
  proof (cases c)
    case (Normal x)
    then have "p @ [c] = climb a k (ns @ [x])" by (simp add: p climb_def)
    then show ?thesis by blast
  next
    case ParentDir
    then have "p = [] \<or> \<not> is_normal (last p)" using snoc.prems by (auto simp: reduced_snoc)
    then have "ns = []" by (cases ns rule: rev_cases) (auto simp: p climb_def is_normal_def)
    then have "p @ [c] = climb a (Suc k) []" by (simp add: p climb_def ParentDir replicate_append_same)
    then show ?thesis by blast
  next
    case RootDir
    then have "p @ [c] = climb True 0 []" using snoc.prems by (simp add: reduced_snoc climb_def)
    then show ?thesis by blast
  next
    case CurDir
    then show ?thesis using snoc.prems by (simp add: reduced_snoc)
  qed
qed

lemma locate_climb: "locate (climb a k ns) d = take (length (if a then [] else d) - k) (if a then [] else d) @ ns"
proof -
  have up: "locate (replicate k ParentDir) d = take (length d - k) d" for d
    by (induction k arbitrary: d) (auto simp: locate_def butlast_conv_take min_def)
  have "locate (map Normal ns) d = d @ ns" for d by (induction ns arbitrary: d) (simp_all add: locate_def)
  then show ?thesis by (simp add: climb_def up)
qed

lemma climb_determined:
  assumes eq: "\<And>d. locate (climb a k ns) d = locate (climb b l ms) d" and up: "a \<Longrightarrow> k = 0" "b \<Longrightarrow> l = 0"
  shows "climb a k ns = climb b l ms"
proof -
  have ns: "ns = ms" using eq [of "[]"] by (simp add: locate_climb)
  have len: "n - (if a then n else k) = n - (if b then n else l)" for n
    using arg_cong [OF eq [of "replicate n []"], of length] by (simp add: locate_climb ns split: if_splits)
  have "a = b" using len [of "Suc (k + l)"] by (auto split: if_splits)
  moreover have "k = l" using len [of "k + l"] up \<open>a = b\<close> by (auto split: if_splits)
  ultimately show ?thesis using ns by simp
qed

definition above_root :: "path \<Rightarrow> bool" where
  "above_root p \<longleftrightarrow> take 2 (lexically_normalize p) = [RootDir, ParentDir]"

text \<open>C38: The fallback key of a path leads, in a tree of directories without symbolic links, from every
  directory to where the path leads, and is in normal form: no \<open>.\<close>, no name before a \<open>..\<close>. So for paths
  that do not climb above the root, the keys of two are equal if and only if they lead to the same place
  from every directory.\<close>

theorem equivalent_paths_have_one_key:
  "locate (lexically_normalize p) d = locate p d \<and> reduced (lexically_normalize p) \<and>
   (\<not> above_root p \<longrightarrow> \<not> above_root q \<longrightarrow>
     lexically_normalize p = lexically_normalize q \<longleftrightarrow> (\<forall>d. locate p d = locate q d))"
proof (intro conjI impI)
  have red: "reduced (lexically_normalize p)" for p unfolding lexically_normalize_def by (rule fold_normalize_reduced) simp
  show "locate (lexically_normalize p) d = locate p d" by (rule locate_normalized)
  show "reduced (lexically_normalize p)" by (rule red)
  assume n: "\<not> above_root p" "\<not> above_root q"
  show "lexically_normalize p = lexically_normalize q \<longleftrightarrow> (\<forall>d. locate p d = locate q d)"
  proof
    assume "lexically_normalize p = lexically_normalize q"
    then show "\<forall>d. locate p d = locate q d" by (metis locate_normalized)
  next
    assume "\<forall>d. locate p d = locate q d"
    then have eq: "locate (lexically_normalize p) d = locate (lexically_normalize q) d" for d by (simp add: locate_normalized)
    obtain a k ns b l ms where c: "lexically_normalize p = climb a k ns" "lexically_normalize q = climb b l ms"
      using reduced_climb red by metis
    have "a \<longrightarrow> k = 0" "b \<longrightarrow> l = 0"
      using n c by (cases k; cases l; auto simp: above_root_def climb_def numeral_2_eq_2)+
    then show "lexically_normalize p = lexically_normalize q"
      using climb_determined [of a k ns b l ms] eq unfolding c by blast
  qed
qed

lemma equivalent_paths_have_one_key_witness:
  "lexically_normalize [ParentDir, Normal [120], CurDir, Normal [121]] =
     lexically_normalize [ParentDir, Normal [120], Normal [122], ParentDir, Normal [121]] \<and>
   lexically_normalize [ParentDir, Normal [121]] \<noteq> lexically_normalize [Normal [121]]"
proof -
  let ?p = "[ParentDir, Normal [120], CurDir, Normal [121]]"
    and ?q = "[ParentDir, Normal [120], Normal [122], ParentDir, Normal [121]]"
    and ?r = "[ParentDir, Normal [121]]" and ?s = "[Normal [121]]"
  have n: "\<not> above_root ?p" "\<not> above_root ?q" "\<not> above_root ?r" "\<not> above_root ?s" by code_simp+
  have "locate ?p d = locate ?q d" for d by (simp add: locate_def butlast_append)
  moreover have "locate ?r [[97]] \<noteq> locate ?s [[97]]" by (simp add: locate_def)
  ultimately show ?thesis
    using equivalent_paths_have_one_key [of ?p "[]" ?q] equivalent_paths_have_one_key [of ?r "[]" ?s] n by metis
qed

text \<open>A path that climbs above the root keeps its \<open>..\<close> there, and has another key than the same file without.\<close>

lemma keys_above_the_root_differ:
  "locate [RootDir, ParentDir, Normal x] d = locate [RootDir, Normal x] d \<and>
   lexically_normalize [RootDir, ParentDir, Normal x] \<noteq> lexically_normalize [RootDir, Normal x]"
  by (simp add: locate_def lexically_normalize_def is_normal_def)

section \<open>The invariant\<close>

text \<open>Only keys with the prefix \<open>json:\<close> hold JSON modules, and if \<open>J\<close> they hold nothing else; the loader is
  set up, and every path it resolves against is absolute.\<close>

definition module_inv :: "bool \<Rightarrow> module_state \<Rightarrow> bool" where
  "module_inv J st \<longleftrightarrow> ms_resolver st \<and> (\<exists>b. ms_base_path st = Some b \<and> is_absolute b) \<and>
     (\<forall>k m. ms_registry st k = Some m \<longrightarrow> m < length (ms_modules st) \<and>
        (mo_kind (ms_modules st ! m) = Json \<longrightarrow> starts_with json_prefix k) \<and>
        (J \<longrightarrow> starts_with json_prefix k \<longrightarrow> mo_kind (ms_modules st ! m) = Json)) \<and>
     (\<forall>mo \<in> set (ms_modules st). \<forall>s. mo_private mo = Some s \<longrightarrow> slash_first s)"

lemma module_inv_privateD: "module_inv J st \<Longrightarrow> module_private m st = Some s \<Longrightarrow> slash_first s"
  by (auto simp: module_inv_def module_private_def split: if_splits)

text \<open>Modules stay and keep their kinds, and the keys of \<open>K\<close> keep their modules.\<close>

definition module_le :: "code_points set \<Rightarrow> module_state \<Rightarrow> module_state \<Rightarrow> bool" where
  "module_le K st st' \<longleftrightarrow> length (ms_modules st) \<le> length (ms_modules st') \<and>
     (\<forall>m < length (ms_modules st). mo_kind (ms_modules st' ! m) = mo_kind (ms_modules st ! m)) \<and>
     (\<forall>k \<in> K. \<forall>m. ms_registry st k = Some m \<longrightarrow> ms_registry st' k = Some m)"

lemma module_le_refl: "module_le K st st"
  by (simp add: module_le_def)

lemma module_le_trans: "module_le K st st1 \<Longrightarrow> module_le K st1 st2 \<Longrightarrow> module_le K st st2"
  unfolding module_le_def by auto

text \<open>What the file system and the resolver are documented to give: absolute paths.\<close>

definition host_ok :: "host \<Rightarrow> bool" where
  "host_ok ho \<longleftrightarrow> (\<forall>p c. ho_canonicalize ho p = Some c \<longrightarrow> is_absolute c) \<and>
     (\<forall>d s p. is_absolute d \<longrightarrow> ho_resolve ho d s = Some p \<longrightarrow> is_absolute p) \<and>
     (\<forall>d. ho_current_dir ho = Some d \<longrightarrow> is_absolute d)"

lemma canonical_absolute: "host_ok ho \<Longrightarrow> is_absolute p \<Longrightarrow> is_absolute (canonical ho p)"
  by (auto simp: host_ok_def canonical_def lexically_normalize_absolute split: option.split)

text \<open>The key under which an entry file is registered.\<close>

definition entry_path :: "host \<Rightarrow> path \<Rightarrow> path" where
  "entry_path ho p = canonical ho (if is_absolute p then p
     else path_join (case ho_current_dir ho of Some d \<Rightarrow> d | None \<Rightarrow> []) p)"

lemma path_join_absolute: "is_absolute d \<Longrightarrow> is_absolute (path_join d p)"
  by (cases d) (simp_all add: path_join_def is_absolute_def)

lemma entry_path_absolute:
  assumes h: "host_ok ho" and p: "is_absolute p \<or> ho_current_dir ho \<noteq> None"
  shows "is_absolute (entry_path ho p)"
  unfolding entry_path_def
  by (rule canonical_absolute [OF h]) (use h p in \<open>auto simp: host_ok_def path_join_absolute split: option.split\<close>)

text \<open>Commands whose names have no \<open>NUL\<close>, and if \<open>J\<close> do not begin with \<open>json:\<close>, and which take no key of \<open>K\<close>
  from its module; a relative name is only evaluated where there is a current directory.\<close>

fun cmd_ok :: "bool \<Rightarrow> code_points set \<Rightarrow> host \<times> module_cmd \<Rightarrow> bool" where
  "cmd_ok J K (ho, Import r s k d) = host_ok ho"
| "cmd_ok J K (ho, EvaluateModule source f) \<longleftrightarrow> host_ok ho \<and> 0 \<notin> set f \<and> (J \<longrightarrow> \<not> starts_with json_prefix f) \<and>
     (is_absolute (path_of f) \<or> ho_current_dir ho \<noteq> None) \<and>
     f \<notin> K \<and> path_str (entry_path ho (path_of f)) \<notin> K"
| "cmd_ok J K (ho, RegisterModule n e) \<longleftrightarrow>
     host_ok ho \<and> 0 \<notin> set n \<and> (J \<longrightarrow> \<not> starts_with json_prefix n) \<and> n \<notin> K"
| "cmd_ok J K (ho, RegisterSynthetic n e) \<longleftrightarrow> host_ok ho \<and> (J \<longrightarrow> \<not> starts_with json_prefix n) \<and> n \<notin> K"
| "cmd_ok J K (ho, ClearRegistry) \<longleftrightarrow> K = {}"

section \<open>Steps of the loader\<close>

lemma module_inv_insert:
  assumes "module_inv J st" "m < length (ms_modules st)" "mo_kind (ms_modules st ! m) = Json \<longrightarrow> starts_with json_prefix k"
    "J \<Longrightarrow> starts_with json_prefix k \<Longrightarrow> mo_kind (ms_modules st ! m) = Json"
  shows "module_inv J (registry_insert k m st)"
  using assms by (simp add: module_inv_def registry_insert_def)

lemma module_inv_remove: "module_inv J st \<Longrightarrow> module_inv J (registry_remove k st)"
  by (simp add: module_inv_def registry_remove_def)

lemma module_inv_new: "module_inv J st \<Longrightarrow> new_module kind st = (st1, m) \<Longrightarrow>
    module_inv J st1 \<and> module_le K st st1 \<and> m < length (ms_modules st1) \<and> mo_kind (ms_modules st1 ! m) = kind \<and>
    ms_registry st1 = ms_registry st"
  by (auto simp: module_inv_def new_module_def module_le_def nth_append less_SucI)

lemma module_inv_private:
  "module_inv J st \<Longrightarrow> m < length (ms_modules st) \<Longrightarrow> slash_first s \<Longrightarrow>
     module_inv J (set_module_private m s st) \<and> module_le K st (set_module_private m s st) \<and>
     ms_registry (set_module_private m s st) = ms_registry st \<and>
     length (ms_modules (set_module_private m s st)) = length (ms_modules st) \<and>
     mo_kind (ms_modules (set_module_private m s st) ! m) = mo_kind (ms_modules st ! m)"
  by (auto simp: module_inv_def set_module_private_def module_le_def nth_list_update
      dest!: subsetD [OF set_update_subset_insert])

lemma module_le_insert: "ms_registry st k = None \<or> k \<notin> K \<Longrightarrow> module_le K st (registry_insert k m st)"
  by (auto simp: module_le_def registry_insert_def)

lemma module_le_remove: "k \<notin> K \<Longrightarrow> module_le K st (registry_remove k st)"
  by (auto simp: module_le_def registry_remove_def)

lemma insert_step:
  assumes "module_inv J st1" "module_le K st st1" "m < length (ms_modules st1)"
    "mo_kind (ms_modules st1 ! m) = JavaScript" "J \<longrightarrow> \<not> starts_with json_prefix k" "k \<notin> K"
  shows "module_inv J (registry_insert k m st1) \<and> module_le K st (registry_insert k m st1)"
proof
  show "module_inv J (registry_insert k m st1)" by (rule module_inv_insert) (use assms in simp_all)
  show "module_le K st (registry_insert k m st1)"
    by (rule module_le_trans [OF assms(2) module_le_insert]) (use assms in simp)
qed

text \<open>A loaded module is a script if that was asked for, and if \<open>J\<close> it always has the kind asked for; or the
  state is as it was.\<close>

definition loaded :: "bool \<Rightarrow> code_points set \<Rightarrow> module_kind \<Rightarrow> module_state \<Rightarrow> module_state \<Rightarrow> load_error + nat \<Rightarrow> bool" where
  "loaded J K kind st st' result \<longleftrightarrow> module_inv J st' \<and> module_le K st st' \<and>
     (case result of
        Inl e \<Rightarrow> st' = st
      | Inr m \<Rightarrow> m < length (ms_modules st') \<and> (kind = JavaScript \<or> J \<longrightarrow> mo_kind (ms_modules st' ! m) = kind))"

lemma starts_with_append: "starts_with p (p @ s)"
  by (simp add: starts_with_def)

lemma cache_key_kind: "is_absolute p \<Longrightarrow> starts_with json_prefix (cache_key kind (path_str p)) \<longleftrightarrow> kind = Json"
  using slash_not_json [OF absolute_str] by (cases kind) (auto simp: cache_key_def starts_with_append)

lemma compile_file_ok:
  assumes i: "module_inv J st" and p: "is_absolute p" and n: "ms_registry st (cache_key kind (path_str p)) = None"
    and c: "compile_file ho p kind st = (st', result)"
  shows "loaded J K kind st st' result \<and> (\<forall>m. result = Inr m \<longrightarrow> ms_registry st' (cache_key kind (path_str p)) = Some m)"
proof (cases "\<exists>source st1 m. ho_read ho p = Some source \<and> 0 \<notin> set (path_str p) \<and> compile ho kind source st = Some (st1, m)")
  case False
  then have "st' = st \<and> (\<exists>e. result = Inl e)" using c by (auto simp: compile_file_def Let_def split: option.splits if_splits)
  then show ?thesis using i by (auto simp: loaded_def module_le_refl)
next
  case True
  then obtain source st1 m where s: "ho_read ho p = Some source" "0 \<notin> set (path_str p)" "compile ho kind source st = Some (st1, m)"
    by blast
  then have "new_module kind st = (st1, m)" by (simp add: compile_def split: if_splits)
  note n1 = module_inv_new [OF i this, of K]
  define st2 where "st2 = (case kind of JavaScript \<Rightarrow> set_module_private m (path_str p) st1 | Json \<Rightarrow> st1)"
  have st2: "module_inv J st2" "module_le K st st2" "ms_registry st2 = ms_registry st" "m < length (ms_modules st2)"
    "mo_kind (ms_modules st2 ! m) = kind"
    using n1 module_inv_private [of J st1 m "path_str p" K] absolute_str [OF p] module_le_trans [of K st st1]
    by (auto simp: st2_def split: module_kind.splits)
  have r: "st' = registry_insert (cache_key kind (path_str p)) m st2" "result = Inr m"
    using c s by (auto simp: compile_file_def Let_def st2_def split: module_kind.splits)
  have "module_le K st2 st'" unfolding r by (rule module_le_insert) (simp add: st2 n)
  moreover have "module_inv J st'" unfolding r
    by (rule module_inv_insert [OF st2(1,4)]) (simp_all only: st2 cache_key_kind [OF p] simp_thms)
  ultimately show ?thesis
    using st2 module_le_trans by (auto simp: loaded_def r registry_insert_def)
qed

lemma referrer_dir_absolute:
  assumes "module_inv J st"
  shows "\<exists>d. referrer_base_dir referrer st = Some d \<and> is_absolute d"
proof -
  obtain b where b: "ms_base_path st = Some b" "is_absolute b" using assms by (auto simp: module_inv_def)
  show ?thesis
  proof (cases "Option.bind referrer (\<lambda>m. module_private m st)")
    case None
    then show ?thesis using b by (simp add: referrer_base_dir_def)
  next
    case (Some s)
    then have "slash_first s" using module_inv_privateD [OF assms] by (auto simp: bind_eq_Some_conv)
    then have a: "is_absolute (path_of s)" by (rule slash_path_absolute)
    show ?thesis
      using Some b parent_absolute [OF a] by (cases "path_parent (path_of s)") (auto simp: referrer_base_dir_def)
  qed
qed

lemma resolve_file_ok:
  assumes i: "module_inv J st" and h: "host_ok ho" and d: "is_absolute d"
  shows "wp (resolve_file_module ho specifier (Some d) kind st) (\<lambda>(st', result). loaded J K kind st st' result)"
proof (cases "ho_resolve ho d specifier")
  case None
  then show ?thesis using i by (simp add: resolve_file_module_def loaded_def module_le_refl module_inv_def)
next
  case (Some q)
  let ?p = "canonical ho q"
  have "is_absolute q" using h d Some unfolding host_ok_def by blast
  then have p: "is_absolute ?p" by (rule canonical_absolute [OF h])
  have rs: "ms_resolver st" using i by (simp add: module_inv_def)
  show ?thesis
  proof (cases "ms_registry st (cache_key kind (path_str ?p))")
    case None
    then show ?thesis
      using compile_file_ok [OF i p None] i Some rs
      by (auto simp: resolve_file_module_def Let_def loaded_def module_le_refl split: prod.split)
  next
    case (Some m)
    then have "m < length (ms_modules st)" "mo_kind (ms_modules st ! m) = Json \<longrightarrow> kind = Json"
      "J \<longrightarrow> kind = Json \<longrightarrow> mo_kind (ms_modules st ! m) = Json"
      using i cache_key_kind [OF p, of kind] unfolding module_inv_def by blast+
    then have "m < length (ms_modules st) \<and> (kind = JavaScript \<or> J \<longrightarrow> mo_kind (ms_modules st ! m) = kind)"
      by (cases kind; cases "mo_kind (ms_modules st ! m)") auto
    then show ?thesis using \<open>ho_resolve ho d specifier = Some q\<close> Some i rs
      by (auto simp: resolve_file_module_def Let_def loaded_def module_le_refl)
  qed
qed

section \<open>What the loader relies on\<close>

text \<open>A call of the engine returns and keeps the invariant and the modules of the keys of \<open>K\<close>.\<close>

locale module_engine =
  fixes J :: bool and K :: "code_points set" and U :: module_user
  assumes engine_ok: "module_inv J st \<Longrightarrow> wp (U c st) (\<lambda>(st', ok). module_inv J st' \<and> module_le K st st')"
begin

lemma hook_ok:
  assumes i: "module_inv J st" and h: "host_ok ho"
  shows "wp (module_load_hook ho U referrer specifier request_type is_dynamic st) (\<lambda>(st', result).
    module_inv J st' \<and> module_le K st st' \<and>
    (case result of Inl e \<Rightarrow> e = LoadOfImportsFailed \<or> st' = st
     | Inr m \<Rightarrow> m < length (ms_modules st') \<and> request_type \<noteq> None \<and>
        (request_type = Some JavaScript \<or> J \<longrightarrow> request_type = Some (mo_kind (ms_modules st' ! m)))))"
proof (cases request_type)
  case None
  then show ?thesis using i by (simp add: module_load_hook_def module_le_refl)
next
  case (Some kind)
  define cached where "cached = (if kind = JavaScript \<and> \<not> starts_with json_prefix specifier
    then ms_registry st specifier else None)"
  have "wp (case cached of Some m \<Rightarrow> Some (st, Inr m)
      | None \<Rightarrow> resolve_file_module ho specifier (referrer_base_dir referrer st) kind st)
    (\<lambda>(st1, result). loaded J K kind st st1 result)"
  proof (cases cached)
    case None
    obtain d where "referrer_base_dir referrer st = Some d" "is_absolute d" using referrer_dir_absolute [OF i] by blast
    then show ?thesis using resolve_file_ok [OF i h, of d specifier kind K] None by simp
  next
    case (Some m)
    then have k: "kind = JavaScript" "\<not> starts_with json_prefix specifier" "ms_registry st specifier = Some m"
      by (auto simp: cached_def split: if_splits)
    then have "m < length (ms_modules st)" "mo_kind (ms_modules st ! m) \<noteq> Json"
      using i unfolding module_inv_def by blast+
    then show ?thesis using Some i k(1)
      by (cases "mo_kind (ms_modules st ! m)") (auto simp: loaded_def module_le_refl)
  qed
  then obtain st1 result where r: "(case cached of Some m \<Rightarrow> Some (st, Inr m)
      | None \<Rightarrow> resolve_file_module ho specifier (referrer_base_dir referrer st) kind st) = Some (st1, result)"
    "loaded J K kind st st1 result" by (rule wp_pairE)
  have i1: "module_inv J st1" "module_le K st st1" using r(2) by (simp_all add: loaded_def)
  show ?thesis
  proof (cases result)
    case (Inl e)
    then show ?thesis using Some r i1 by (simp add: module_load_hook_def cached_def [symmetric] loaded_def)
  next
    case (Inr m)
    then have m: "m < length (ms_modules st1)" "kind = JavaScript \<or> J \<longrightarrow> mo_kind (ms_modules st1 ! m) = kind" using r(2) by (simp_all add: loaded_def)
    obtain st2 ok where u: "U (LoadRequested m) st1 = Some (st2, ok)" "module_inv J st2" "module_le K st1 st2"
      using engine_ok [OF i1(1), of "LoadRequested m"] by (rule wp_pairE) auto
    have "module_le K st st2" using module_le_trans i1(2) u(3) by blast
    moreover have "m < length (ms_modules st2) \<and> (kind = JavaScript \<or> J \<longrightarrow> mo_kind (ms_modules st2 ! m) = kind)"
      using m u(3) unfolding module_le_def by auto
    ultimately show ?thesis using Some Inr r i1 m u
      by (simp add: module_load_hook_def cached_def [symmetric])
  qed
qed

lemma stages_ok: "module_inv J st \<Longrightarrow> wp (engine_stages U cs st) (\<lambda>(st', ok). module_inv J st' \<and> module_le K st st')"
proof (induction cs arbitrary: st)
  case Nil
  then show ?case by (simp add: module_le_refl)
next
  case (Cons c cs)
  obtain st1 ok where u: "U c st = Some (st1, ok)" "module_inv J st1" "module_le K st st1"
    using engine_ok [OF Cons.prems, of c] by (rule wp_pairE) auto
  show ?case using Cons.IH [OF u(2)] u module_le_trans
    by (auto elim: wp_mono)
qed

lemma evaluate_ok:
  assumes i: "module_inv J st" and c: "cmd_ok J K (ho, EvaluateModule source f)"
  shows "wp (evaluate_module ho U source f st) (\<lambda>(st', ok). module_inv J st' \<and> module_le K st st')"
proof (cases "compile ho JavaScript source st")
  case None
  then show ?thesis using i c by (simp add: evaluate_module_def module_le_refl)
next
  case (Some r)
  obtain st1 m where r: "r = (st1, m)" by (cases r)
  have "new_module JavaScript st = (st1, m)" using Some r by (simp add: compile_def split: if_splits)
  note n = module_inv_new [OF i this, of K]
  let ?key = "path_str (entry_path ho (path_of f))"
  have ks: "slash_first ?key" using c entry_path_absolute absolute_str by simp
  note p = module_inv_private [of J st1 m ?key K]
  have e: "register_entry_module ho m (path_of f) st1 =
      (registry_insert ?key m (set_module_private m ?key st1))\<lparr>ms_entry := Some ?key\<rparr>"
    by (simp add: register_entry_module_def entry_path_def Let_def)
  have entry: "module_inv J (st'\<lparr>ms_entry := k\<rparr>) = module_inv J st'" "module_le K st (st'\<lparr>ms_entry := k\<rparr>) = module_le K st st'" for st' k
    by (simp_all add: module_inv_def module_le_def)
  have n1: "module_inv J st1" "module_le K st st1" "m < length (ms_modules st1)" "mo_kind (ms_modules st1 ! m) = JavaScript"
    using n by simp_all
  note q = p [OF n1(1,3) ks]
  have q1: "module_le K st (set_module_private m ?key st1)" by (rule module_le_trans [OF n1(2)]) (use q in simp)
  have "module_inv J (registry_insert ?key m (set_module_private m ?key st1)) \<and>
      module_le K st (registry_insert ?key m (set_module_private m ?key st1))"
    by (rule insert_step) (use q q1 n1 c slash_not_json [OF ks] in simp_all)
  then have reg: "module_inv J (register_entry_module ho m (path_of f) st1)"
      "module_le K st (register_entry_module ho m (path_of f) st1)"
    by (simp_all only: e entry)
  have "module_inv J (registry_insert f m st1) \<and> module_le K st (registry_insert f m st1)"
    by (rule insert_step [OF n1]) (use c in simp_all)
  then have rec: "module_inv J (record_entry_module m f st1)" "module_le K st (record_entry_module m f st1)"
    by (simp_all only: record_entry_module_def entry)
  have *: "wp (engine_stages U [LoadRequested m, Link m, Evaluate m] st2) (\<lambda>(st', ok). module_inv J st' \<and> module_le K st st')"
    if "module_inv J st2" "module_le K st st2" for st2
    by (rule wp_mono [OF stages_ok [OF that(1)]]) (use that(2) module_le_trans in auto)
  show ?thesis
    using Some r c * [OF reg] * [OF rec] by (simp add: evaluate_module_def Let_def del: engine_stages.simps)
qed

lemma register_ok:
  assumes i: "module_inv J st" and k: "J \<longrightarrow> \<not> starts_with json_prefix name" "name \<notin> K"
  shows "wp (register_compiled ho U name exports st) (\<lambda>(st', ok). module_inv J st' \<and> module_le K st st' \<and>
    (\<not> ok \<longrightarrow> st' = st \<or> ms_registry st' name = None))"
proof (cases "compile ho JavaScript (export_source exports) st")
  case None
  then show ?thesis using i by (simp add: register_compiled_def module_le_refl)
next
  case (Some r)
  obtain st1 m where r: "r = (st1, m)" by (cases r)
  have "new_module JavaScript st = (st1, m)" using Some r by (simp add: compile_def split: if_splits)
  note n = module_inv_new [OF i this, of K]
  have s: "module_inv J (registry_insert name m st1)" "module_le K st (registry_insert name m st1)"
    using insert_step [of J st1 K st m name] n k by simp_all
  obtain st2 ok where u: "link_evaluate_and_populate U m name (registry_insert name m st1) = Some (st2, ok)"
    "module_inv J st2" "module_le K (registry_insert name m st1) st2"
    unfolding link_evaluate_and_populate_def
    by (rule wp_pairE [OF stages_ok [OF s(1), of "[LoadRequested m, Link m, Evaluate m, GetEnvironment m, Populate m name]"]])
      (simp del: engine_stages.simps)
  have "module_le K st st2" using s(2) u(3) by (rule module_le_trans)
  then show ?thesis
    using Some r u module_inv_remove [OF u(2)] module_le_trans [OF _ module_le_remove [OF k(2)]]
    by (simp add: register_compiled_def) (simp add: registry_remove_def)
qed

lemma exec_ok:
  assumes i: "module_inv J st" and c: "cmd_ok J K c"
  shows "wp (module_exec U c st) (\<lambda>st'. module_inv J st' \<and> module_le K st st')"
proof -
  obtain ho cmd where hc: "c = (ho, cmd)" by (cases c)
  show ?thesis
  proof (cases cmd)
    case (Import r s k d)
    then show ?thesis using hook_ok [OF i, of ho r s k d] c
      by (auto simp: hc wp_map_option elim!: wp_mono)
  next
    case (EvaluateModule source f)
    then show ?thesis using evaluate_ok [OF i, of ho source f] c by (auto simp: hc wp_map_option elim!: wp_mono)
  next
    case (RegisterModule name e)
    then show ?thesis using register_ok [OF i, of name ho e] c
      by (auto simp: hc wp_map_option register_module_def elim!: wp_mono)
  next
    case (RegisterSynthetic name e)
    then show ?thesis using register_ok [OF i, of name ho e] i c
      by (auto simp: hc wp_map_option register_synthetic_module_def module_le_refl elim!: wp_mono)
  next
    case ClearRegistry
    then show ?thesis using i c by (simp add: hc clear_module_registry_def module_inv_def module_le_def)
  qed
qed

lemma run_ok:
  "module_inv J st \<Longrightarrow> list_all (cmd_ok J K) cs \<Longrightarrow>
     wp (run_all (module_exec U) cs st) (\<lambda>st'. module_inv J st' \<and> module_le K st st')"
proof (induction cs arbitrary: st)
  case Nil
  then show ?case by (simp add: module_le_refl)
next
  case (Cons c cs)
  obtain st1 where s: "module_exec U c st = Some st1" "module_inv J st1" "module_le K st st1"
    using exec_ok [OF Cons.prems(1), of c] Cons.prems(2) by (auto elim: wpE)
  show ?case using Cons.IH [OF s(2)] Cons.prems(2) s module_le_trans by (auto elim: wp_mono)
qed

end

text \<open>Scripts whose commands respect \<open>K\<close>: every engine and every code of modules that does meets the
  contract, at every depth.\<close>

definition permitted :: "bool \<Rightarrow> code_points set \<Rightarrow> module_script \<Rightarrow> module_script" where
  "permitted J K scr c st = (filter (cmd_ok J K) (fst (scr c st)), snd (scr c st))"

lemma permitted_engine: "module_engine J K (module_js (permitted J K scr) n)"
proof (induction n)
  case 0
  show ?case by unfold_locales (simp add: module_le_refl)
next
  case (Suc n)
  show ?case
  proof
    fix st c assume i: "module_inv J st"
    have "list_all (cmd_ok J K) (fst (permitted J K scr c st))" by (auto simp: permitted_def list_all_iff)
    from module_engine.run_ok [OF Suc.IH i this]
    show "wp (module_js (permitted J K scr) (Suc n) c st) (\<lambda>(st', ok). module_inv J st' \<and> module_le K st st')"
      by simp
  qed
qed

interpretation engine: module_engine J K "module_js (permitted J K scr) n" for J K scr n
  by (rule permitted_engine)

section \<open>Sessions\<close>

lemma start_ok: "is_absolute base \<Longrightarrow> module_inv J (init_module_loader base module_state_empty)"
  by (simp add: module_inv_def init_module_loader_def module_state_empty_def)

lemma session_ok:
  "is_absolute base \<Longrightarrow> wp (module_session (permitted J K scr) n base (filter (cmd_ok J K) cmds)) (module_inv J)"
  unfolding module_session_def
  by (rule wp_mono [OF engine.run_ok [OF start_ok]]) (auto simp: list_all_iff)

text \<open>C33: whatever files there are and whatever the engine and the code of modules do, no session panics, the
  hook answers every import, and an import of a script is never given a JSON module; an import as JSON is
  never given a script either, if \<open>J\<close>: if no module is evaluated or registered under a name that begins with
  \<open>json:\<close>. Sessions are those without a \<open>NUL\<close> in such a name, which panics, and in which a relative name is
  only evaluated where there is a current directory.\<close>

theorem imports_have_the_kind_asked_for:
  assumes "is_absolute base" "host_ok ho"
  shows "wp (module_session (permitted J {} scr) n base (filter (cmd_ok J {}) cmds)) (\<lambda>st.
    wp (module_load_hook ho (module_js (permitted J {} scr) n) referrer specifier kind is_dynamic st) (\<lambda>(st', result).
      case result of Inl e \<Rightarrow> True
      | Inr m \<Rightarrow> m < length (ms_modules st') \<and>
          (kind = Some JavaScript \<or> J \<longrightarrow> kind = Some (mo_kind (ms_modules st' ! m)))))"
proof (rule wp_mono [OF session_ok [OF assms(1)]])
  fix st assume "module_inv J st"
  from engine.hook_ok [OF this assms(2)]
  show "wp (module_load_hook ho (module_js (permitted J {} scr) n) referrer specifier kind is_dynamic st) (\<lambda>(st', result).
      case result of Inl e \<Rightarrow> True
      | Inr m \<Rightarrow> m < length (ms_modules st') \<and>
          (kind = Some JavaScript \<or> J \<longrightarrow> kind = Some (mo_kind (ms_modules st' ! m))))"
    by (rule wp_mono) (auto split: sum.splits)
qed

definition example_host :: host where
  "example_host =
     \<lparr>ho_resolve = (\<lambda>d s. if s = [] then None else Some (path_join d (path_of s))), ho_canonicalize = (\<lambda>_. None),
      ho_read = (\<lambda>_. Some []), ho_compiles = (\<lambda>_ _. True), ho_current_dir = Some [RootDir],
      ho_exists = (\<lambda>_. False), ho_is_file = (\<lambda>_. False)\<rparr>"

lemma example_host_ok: "host_ok example_host"
  by (simp add: host_ok_def example_host_def path_join_absolute) (simp add: is_absolute_def)

lemma imports_have_the_kind_asked_for_witness:
  "wp (module_session (permitted True {} (\<lambda>c st. ([], True))) 2 [RootDir] (filter (cmd_ok True {}) [])) (\<lambda>st.
    wp (module_load_hook example_host (module_js (permitted True {} (\<lambda>c st. ([], True))) 2) None (lit ''a.json'') (Some Json) True st)
      (\<lambda>(st', result). case result of Inl e \<Rightarrow> True
      | Inr m \<Rightarrow> m < length (ms_modules st') \<and>
          (Some Json = Some JavaScript \<or> True \<longrightarrow> Some Json = Some (mo_kind (ms_modules st' ! m)))))"
  by (rule imports_have_the_kind_asked_for) (simp_all add: example_host_ok, simp add: is_absolute_def)

text \<open>An entry evaluated under a name that begins with \<open>json:\<close> is what a JSON import of that path gets.\<close>

lemma quiet_stages: "engine_stages (module_js (\<lambda>c st. ([], True)) 1) cs st = Some (st, True)"
  by (induction cs) simp_all

lemma json_named_entry_is_imported:
  "\<exists>st. evaluate_module example_host (module_js (\<lambda>c st. ([], True)) 1) [] (lit ''json:/a'')
      (init_module_loader [RootDir] module_state_empty) = Some (st, True) \<and>
    module_load_hook example_host (module_js (\<lambda>c st. ([], True)) 1) None (lit ''/a'') (Some Json) False st =
      Some (st, Inr 0) \<and> mo_kind (ms_modules st ! 0) = JavaScript"
proof -
  let ?U = "module_js (\<lambda>c st. ([], True)) 1"
  let ?st = "\<lparr>ms_registry = [lit ''json:/a'' \<mapsto> 0], ms_resolver = True, ms_base_path = Some [RootDir],
    ms_entry = Some (lit ''json:/a''), ms_modules = [\<lparr>mo_kind = JavaScript, mo_private = None\<rparr>]\<rparr>"
  have p: "path_of (lit ''json:/a'') = [Normal (lit ''json:''), Normal (lit ''a'')]" "path_of (lit ''/a'') = [RootDir, Normal (lit ''a'')]"
    by (simp_all add: path_of_def component_of_def Let_def)
  have "evaluate_module example_host ?U [] (lit ''json:/a'') (init_module_loader [RootDir] module_state_empty) = Some (?st, True)"
    unfolding evaluate_module_def p
    by (simp add: require_def compile_def new_module_def Let_def example_host_def path_parent_def record_entry_module_def
        quiet_stages init_module_loader_def module_state_empty_def registry_insert_def
        del: engine_stages.simps module_js.simps One_nat_def)
  moreover have "module_load_hook example_host ?U None (lit ''/a'') (Some Json) False ?st = Some (?st, Inr 0)"
  proof -
    have r: "ho_resolve example_host [RootDir] (lit ''/a'') = Some [RootDir, Normal (lit ''a'')]"
      unfolding example_host_def host.simps p by (simp add: path_join_def is_absolute_def)
    have c: "canonical example_host [RootDir, Normal (lit ''a'')] = [RootDir, Normal (lit ''a'')]"
      by (simp add: canonical_def example_host_def lexically_normalize_def)
    have k: "cache_key Json (path_str [RootDir, Normal (lit ''a'')]) = lit ''json:/a''"
      by (simp add: cache_key_def json_prefix_def path_str_def)
    have "resolve_file_module example_host (lit ''/a'') (Some [RootDir]) Json ?st = Some (?st, Inr 0)"
      unfolding resolve_file_module_def option.case r Let_def c k by (simp add: require_def)
    then show ?thesis by (simp add: module_load_hook_def referrer_base_dir_def del: lit_simps)
  qed
  moreover have "mo_kind (ms_modules ?st ! 0) = JavaScript" by simp
  ultimately show ?thesis by blast
qed

section \<open>One module for a file\<close>

lemma resolved_is_cached:
  assumes i: "module_inv False st" and h: "host_ok ho" "is_absolute d"
    and r: "resolve_file_module ho specifier (Some d) kind st = Some (st1, Inr m)" "ho_resolve ho d specifier = Some q"
  shows "module_inv False st1 \<and> ms_registry st1 (cache_key kind (path_str (canonical ho q))) = Some m \<and>
    \<not> (kind = JavaScript \<and> is_json_file (canonical ho q))"
proof -
  let ?p = "canonical ho q"
  have "is_absolute q" using h r(2) unfolding host_ok_def by blast
  then have p: "is_absolute ?p" by (rule canonical_absolute [OF h(1)])
  have k: "\<not> (kind = JavaScript \<and> is_json_file ?p)"
    using r by (auto simp: resolve_file_module_def Let_def split: if_splits bind_splits)
  show ?thesis
  proof (cases "ms_registry st (cache_key kind (path_str ?p))")
    case None
    then have c: "compile_file ho ?p kind st = (st1, Inr m)"
      using r k by (auto simp: resolve_file_module_def Let_def split: bind_splits)
    show ?thesis using compile_file_ok [OF i p None c, of "{}"] k by (simp add: loaded_def)
  next
    case (Some m')
    then have "st1 = st \<and> m' = m" using r k by (auto simp: resolve_file_module_def Let_def split: bind_splits)
    then show ?thesis using Some i k by simp
  qed
qed

text \<open>C34: a file is one module. Once an import of a file has succeeded, any later import that is resolved to
  the same canonical path, by whatever specifier, from whatever directory and with the files changed or
  not, gets the same module and compiles nothing, unless in between the registry was cleared or a module
  put in place of the file's: the file evaluated as an entry, or one evaluated or registered under its key.\<close>

theorem a_file_is_one_module:
  assumes "is_absolute base" "module_session (permitted False {} scr') n' base (filter (cmd_ok False {}) cmds') = Some st"
    and "host_ok ho1" "is_absolute d1" "ho_resolve ho1 d1 specifier1 = Some q1"
    and "resolve_file_module ho1 specifier1 (Some d1) kind st = Some (st1, Inr m)"
    and "key = cache_key kind (path_str (canonical ho1 q1))"
    and "run_all (module_exec (module_js (permitted False {key} scr) n)) (filter (cmd_ok False {key}) cmds) st1 = Some st2"
    and "ho_resolve ho2 d2 specifier2 = Some q2" "canonical ho2 q2 = canonical ho1 q1"
  shows "resolve_file_module ho2 specifier2 (Some d2) kind st2 = Some (st2, Inr m)"
proof -
  have "module_inv False st" using wpD [OF session_ok [OF assms(1)] assms(2)] .
  note c = resolved_is_cached [OF this assms(3,4,6,5)]
  have "list_all (cmd_ok False {key}) (filter (cmd_ok False {key}) cmds)" by (auto simp: list_all_iff)
  from wpD [OF engine.run_ok [OF _ this] assms(8)] c
  have "module_inv False st2" "module_le {key} st1 st2" by auto
  then have "ms_resolver st2" "ms_registry st2 key = Some m"
    using c assms(7) by (auto simp: module_inv_def module_le_def)
  then show ?thesis using c assms(7,9,10) by (simp add: resolve_file_module_def Let_def require_def)
qed

lemma a_file_is_one_module_witness:
  "wp (resolve_file_module example_host (lit ''a'') (Some [RootDir]) JavaScript
      (init_module_loader [RootDir] module_state_empty)) (\<lambda>(st1, result).
    resolve_file_module example_host (lit ''./b/../a'') (Some [RootDir]) JavaScript st1 = Some (st1, Inr 0))"
proof -
  let ?st = "init_module_loader [RootDir] module_state_empty" and ?q = "[RootDir, Normal (lit ''a'')]"
  let ?q2 = "[RootDir, Normal (lit ''b''), ParentDir, Normal (lit ''a'')]"
  obtain st1 where r: "resolve_file_module example_host (lit ''a'') (Some [RootDir]) JavaScript ?st = Some (st1, Inr 0)"
    by (simp add: resolve_file_module_def init_module_loader_def module_state_empty_def example_host_def Let_def
        canonical_def path_join_def path_of_def component_of_def lexically_normalize_def is_normal_def
        is_json_file_def path_extension_def cache_key_def compile_file_def path_str_def compile_def new_module_def
        is_absolute_def set_module_private_def registry_insert_def require_def)
  have q: "ho_resolve example_host [RootDir] (lit ''a'') = Some ?q"
    "ho_resolve example_host [RootDir] (lit ''./b/../a'') = Some ?q2"
    "canonical example_host ?q2 = canonical example_host ?q"
    by code_simp+
  have "resolve_file_module example_host (lit ''./b/../a'') (Some [RootDir]) JavaScript st1 = Some (st1, Inr 0)"
    by (rule a_file_is_one_module [OF _ _ example_host_ok _ q(1) r refl _ q(2,3), where base = "[RootDir]" and cmds = "[]"
          and n = 0 and scr = "\<lambda>c st. ([], True)" and scr' = "\<lambda>c st. ([], True)" and n' = 0 and cmds' = "[]"])
      (simp_all add: module_session_def is_absolute_def)
  then show ?thesis unfolding r by simp
qed

text \<open>A static import leaves its module in the registry, and one that fails changes nothing.\<close>

lemma static_import:
  assumes "module_load_hook ho U referrer specifier kind False st = Some (st1, result)"
  shows "(\<forall>e. result = Inl e \<longrightarrow> st1 = st) \<and> (\<forall>m. result = Inr m \<longrightarrow> (\<exists>k. ms_registry st1 k = Some m))"
proof -
  have c: "(\<forall>e. r = Inl e \<longrightarrow> st' = st) \<and> (\<forall>m. r = Inr m \<longrightarrow> (\<exists>k. ms_registry st' k = Some m))"
    if "compile_file ho p kd st = (st', r)" for p kd st' r
    using that unfolding compile_file_def Let_def
    by (auto simp: registry_insert_def split: option.splits if_splits intro: exI [of _ "cache_key kd (path_str p)"])
  show ?thesis using assms
    by (auto simp: module_load_hook_def resolve_file_module_def Let_def dest: c
        split: option.splits if_splits bind_splits sum.splits prod.splits)
qed

text \<open>A dynamic import is the static one, and then loads what the module imports.\<close>

lemma dynamic_import:
  "module_load_hook ho U referrer specifier kind True st =
     do {
       (st1, result) \<leftarrow> module_load_hook ho U referrer specifier kind False st;
       (case result of
          Inl e \<Rightarrow> Some (st1, Inl e)
        | Inr m \<Rightarrow> do { (st2, loaded) \<leftarrow> U (LoadRequested m) st1;
                       Some (st2, if loaded then Inr m else Inl LoadOfImportsFailed) })
     }"
  by (cases kind) (auto simp: module_load_hook_def Let_def split: sum.split option.split intro!: arg_cong2 [of _ _ _ _ Option.bind])

definition import_failed ::
  "host \<Rightarrow> module_user \<Rightarrow> nat option \<Rightarrow> code_points \<Rightarrow> module_kind option \<Rightarrow> module_state \<Rightarrow> module_state \<Rightarrow> bool" where
  "import_failed ho U referrer specifier kind st st' \<longleftrightarrow>
     (\<exists>st1 m k. module_load_hook ho U referrer specifier kind False st = Some (st1, Inr m) \<and>
        ms_registry st1 k = Some m \<and> U (LoadRequested m) st1 = Some (st', False))"

lemma import_failure:
  assumes "module_load_hook ho U referrer specifier kind is_dynamic st = Some (st', Inl e)"
  shows "st' = st \<or> e = LoadOfImportsFailed \<and> is_dynamic \<and> import_failed ho U referrer specifier kind st st'"
proof (cases is_dynamic)
  case False
  then show ?thesis using static_import [of ho U referrer specifier kind st st' "Inl e"] assms by simp
next
  case True
  with assms obtain st1 r where s: "module_load_hook ho U referrer specifier kind False st = Some (st1, r)"
    and d: "(case r of Inl e \<Rightarrow> Some (st1, Inl e)
        | Inr m \<Rightarrow> do { (st2, loaded) \<leftarrow> U (LoadRequested m) st1;
                       Some (st2, if loaded then Inr m else Inl LoadOfImportsFailed) }) = Some (st', Inl e)"
    by (auto simp: dynamic_import split: bind_splits)
  show ?thesis
  proof (cases r)
    case (Inl e')
    then show ?thesis using static_import [OF s] d by simp
  next
    case (Inr m)
    then obtain k where "ms_registry st1 k = Some m" using static_import [OF s] by blast
    moreover have "U (LoadRequested m) st1 = Some (st', False) \<and> e = LoadOfImportsFailed"
      using d Inr by (auto split: bind_splits if_splits)
    ultimately show ?thesis using s Inr True unfolding import_failed_def by blast
  qed
qed

text \<open>C35: an import that fails leaves the state of the loader as it was, unless the module was found or
  compiled and the engine failed to load what that imports: then the module stays in the registry, as
  after a static import of it, and only what the engine did in that call is added. A native module whose
  set-up fails after its compilation is not in the registry; one that does not compile changes nothing.\<close>

theorem failures_leave_no_module:
  assumes "is_absolute base" "cmd_ok False {} (ho, RegisterModule name exports)"
  shows "wp (module_session (permitted False {} scr) n base (filter (cmd_ok False {}) cmds)) (\<lambda>st.
    wp (module_load_hook ho (module_js (permitted False {} scr) n) referrer specifier kind is_dynamic st) (\<lambda>(st', result).
      case result of
        Inl e \<Rightarrow> st' = st \<or> e = LoadOfImportsFailed \<and> is_dynamic \<and>
          import_failed ho (module_js (permitted False {} scr) n) referrer specifier kind st st'
      | Inr m \<Rightarrow> True) \<and>
    wp (register_module ho (module_js (permitted False {} scr) n) name exports st) (\<lambda>(st', ok).
      ok \<or> st' = st \<or> ms_registry st' name = None))"
proof (rule wp_mono [OF session_ok [OF assms(1)]], intro conjI)
  fix st assume i: "module_inv False st"
  have h: "host_ok ho" "0 \<notin> set name" using assms(2) by auto
  obtain st' result where m: "module_load_hook ho (module_js (permitted False {} scr) n) referrer specifier kind is_dynamic st =
      Some (st', result)" using engine.hook_ok [OF i h(1)] by (rule wp_pairE)
  then show "wp (module_load_hook ho (module_js (permitted False {} scr) n) referrer specifier kind is_dynamic st) (\<lambda>(st', result).
      case result of
        Inl e \<Rightarrow> st' = st \<or> e = LoadOfImportsFailed \<and> is_dynamic \<and>
          import_failed ho (module_js (permitted False {} scr) n) referrer specifier kind st st'
      | Inr m \<Rightarrow> True)"
    using import_failure by (cases result) auto
  from engine.register_ok [OF i, of name "{}" ho scr n exports]
  show "wp (register_module ho (module_js (permitted False {} scr) n) name exports st) (\<lambda>(st', ok).
      ok \<or> st' = st \<or> ms_registry st' name = None)"
    using h(2) by (auto simp: register_module_def elim!: wp_mono)
qed

lemma failures_leave_no_module_witness:
  "wp (module_session (permitted False {} (\<lambda>c st. ([], False))) 1 [RootDir] (filter (cmd_ok False {}) [])) (\<lambda>st.
    wp (module_load_hook example_host (module_js (permitted False {} (\<lambda>c st. ([], False))) 1) None [] (Some Json) True st)
      (\<lambda>(st', result).
      case result of
        Inl e \<Rightarrow> st' = st \<or> e = LoadOfImportsFailed \<and> True \<and>
          import_failed example_host (module_js (permitted False {} (\<lambda>c st. ([], False))) 1) None [] (Some Json) st st'
      | Inr m \<Rightarrow> True) \<and>
    wp (register_module example_host (module_js (permitted False {} (\<lambda>c st. ([], False))) 1) (lit ''m'') [] st) (\<lambda>(st', ok).
      ok \<or> st' = st \<or> ms_registry st' (lit ''m'') = None))"
proof (rule failures_leave_no_module)
  show "cmd_ok False {} (example_host, RegisterModule (lit ''m'') [])" by (simp add: example_host_ok)
qed (simp add: is_absolute_def)

end
