(* ===== verification/Spec2Isabelle.thy ===== *)
theory Spec2Isabelle
  imports Event_Loop_Claims Writable_Claims Readable_Claims Dom_Claims Headers_Claims Base64_Claims Url_Claims Gc_Claims Config_Claims
    Module_Claims
begin

text \<open>
  A verification of the core of StarlingMonkey, the JavaScript runtime of this repository: the
  event loop that drives all asynchronous work, the writable and readable streams of the web-streams
  builtin with the promises and the queue they are built on, the events, abort signals and extendable
  events that connect the host with JavaScript, the headers, base64 and URL builtins, the
  allocator of the roots through which all of them hold what the garbage collector may move, the
  module loader and the configuration.

  \<^bold>\<open>The program.\<close> The runtime embeds SpiderMonkey (\<open>crates/js\<close> is its safe
  wrapper), adds an event loop (\<open>crates/core-runtime\<close>) and web APIs written in Rust
  (\<open>crates/builtins\<close>). JavaScript runs on one thread. The event loop keeps a registry of tasks,
  JS timers, keep-alive interest, pending sends and the futures behind promises; a step runs what
  is due, a driver alternates steps with waiting until nothing keeps the loop alive. A stream's
  algorithms run when JavaScript calls a method, or when a promise of the sink settles and the
  engine runs a reaction; they call out into JavaScript in the middle of an operation, and that
  JavaScript may call any method again.

  \<^bold>\<open>The theories.\<close>
  \<^item> \<open>Prelude\<close>: fallible code as \<open>option\<close> with a total-correctness \<open>wp\<close>, the locales
    \<open>command_system\<close>, \<open>total_command_system\<close> (a set of commands that keep an invariant and a
    frame relation) and \<open>refined_command_system\<close> (commands that implement abstract ones), ordered sets as sorted lists and hash maps as association lists.
  \<^item> \<open>Task_Queue\<close>: \<open>TaskQueue\<close> of \<open>core-runtime/src/event_loop.rs\<close>. \<open>task_queue\<close> has the map and
    the two indexes; \<open>tq_insert\<close>, \<open>tq_remove\<close>, \<open>mark_ready\<close>, \<open>expire_timers\<close> are its methods.
    \<open>tq_wf\<close> ties the indexes to the map.
  \<^item> \<open>Interest\<close>: \<open>event_loop/interest.rs\<close>, the counted handles.
  \<^item> \<open>Event_Loop\<close>: \<open>event_loop.rs\<close>, \<open>event_loop/timer.rs\<close> and the futures of \<open>js/src/promise.rs\<close>.
    A \<open>world\<close> is the thread: every loop by its identity, the thread-local cells, the futures.
    \<open>step\<close>, \<open>run_until_turn\<close> and \<open>run_until\<close> are the loop and its driver; what JavaScript, the
    microtasks and a poll do is the parameter \<open>env\<close>, a list of interface commands (\<open>cmd\<close>) chosen
    from the whole state. \<open>Event_Loop_Inv\<close> has the invariant and its preservation by every
    operation, \<open>Event_Loop_Props\<close> the lemmas on batches and the driver, \<open>Event_Loop_Claims\<close> the
    properties.
  \<^item> \<open>F64\<close>: comparison, addition and subtraction of binary64, rounded to nearest even.
  \<^item> \<open>Promise_Store\<close>: promises as \<open>js/src/promise.rs\<close> creates and settles them.
  \<^item> \<open>Queue_With_Sizes\<close>: \<open>web-streams/src/queuing/queue_with_sizes.rs\<close> and the operations of
    \<open>web-streams/src/algorithms.rs\<close>. The Rust trait is the record \<open>queue_ops\<close>, its contract the
    locale \<open>queue_container\<close>, interpreted on the controllers of both kinds of stream.
  \<^item> \<open>Stream_Support\<close>: the stored algorithms of \<open>web-streams/src/support.rs\<close> and their invocation.
  \<^item> \<open>Writable_Stream\<close>, \<open>Writable_Api\<close>: \<open>web-streams/src/writable/\<close>. A \<open>ws\<close> is one stream with
    its controller, writers, promises and the reactions still to run; the definitions follow
    \<open>writable/algorithms.rs\<close> function by function, with every \<open>debug_assert!\<close>, \<open>expect\<close> and
    \<open>unwrap\<close> as a branch that panics. The parameter \<open>user_code\<close> is what the code calls: the
    sink's algorithms, the size function, the listeners of the abort signal.
  \<^item> \<open>Writable_Inv\<close>, \<open>Writable_Ops\<close>, \<open>Writable_Contracts\<close>, \<open>Writable_Methods\<close>,
    \<open>Writable_Reactions\<close>: the invariant \<open>winv\<close> and the contract of every operation. \<open>winv\<close> is
    stated for a list of frames, the reactions that operations on the stack will attach when their
    call returns, so that it also holds in the middle of an operation, where JavaScript runs. The
    locale \<open>sink_user\<close> is what the operations rely on: user code keeps the invariant.
  \<^item> \<open>Writable_Loop\<close>: the circle closed. \<open>ws_exec\<close> is the interface that JavaScript, piping and
    the engine's job queue have; \<open>js_user scr n\<close> is JavaScript that reacts to each call with
    commands of that interface, nested at most \<open>n\<close> deep; it is an instance of \<open>sink_user\<close> for
    every script and every depth. \<open>ws_session\<close> constructs a stream and runs commands.
    \<open>Writable_Claims\<close> has the properties.

  \<^item> \<open>Readable_Stream\<close>, \<open>Readable_Api\<close>: \<open>web-streams/src/readable/\<close>, the default controller and the
    default readers. An \<open>rs\<close> is one stream with its controller, readers, promises, the reads that
    were asked for and the reactions still to run. The parameter \<open>rs_code\<close> is what the code calls:
    the source's algorithms, the size function, the lookups of \<open>then\<close> on a result object and of
    \<open>constructor\<close> on a promise, and the read requests of other consumers (tee, pipe, async iteration,
    bodies).
  \<^item> \<open>Readable_Inv\<close>, \<open>Readable_Ops\<close>, \<open>Readable_Contracts\<close>, \<open>Readable_Loop\<close>: the invariant
    \<open>rinv K P\<close>, for the reactions \<open>K\<close> that operations on the stack will attach and the reads \<open>P\<close> they
    will answer, and the contract of every operation in the locale \<open>read_user\<close>, interpreted on \<open>rs_user\<close>
    for every script whose lookups of a constructor do not throw, and every depth. One that throws
    panics; \<open>Readable_Mono\<close> shows that what ends without does so with such a script too, so that the
    invariant holds after every session. \<open>Readable_Order\<close> has the abstract queue that a stream with quiet
    callbacks refines, \<open>Readable_Claims\<close> the properties.

  \<^item> \<open>Panics\<close>: computations that panic or return, with the panic as a value, and the weakest
    precondition \<open>rwp\<close> that says which panics are permitted.
  \<^item> \<open>Dom_World\<close>, \<open>Dom_Events\<close>, \<open>Dom_Signals\<close>, \<open>Dom_Extend\<close>: \<open>web-globals/src/events/\<close>,
    \<open>web-globals/src/signals/\<close> and \<open>fetch-event/src/\<close>. A \<open>dom\<close> is the realm: events, listener
    lists, signals and fetch events by identity, the reactions that wait for promises, the loops
    whose interest they hold. \<open>d_debug\<close> says whether \<open>debug_assert!\<close> is compiled in. The parameter
    \<open>dom_user\<close> is JavaScript: a listener, an abort algorithm, a property read, a microtask
    checkpoint. \<open>Dom_Api\<close> has the interface \<open>dom_exec\<close> of methods, native entries and reaction jobs
    and closes the circle: \<open>dom_js scr n\<close> is any script that reacts to calls with commands of the
    interface, nested at most \<open>n\<close> deep; \<open>dom_session\<close> runs commands from a fresh realm.
  \<^item> \<open>Dom_Inv\<close>, \<open>Dom_Ops\<close>, \<open>Dom_Signal_Ops\<close>, \<open>Dom_Lifetime\<close>, \<open>Dom_Dispatch\<close>, \<open>Dom_Abort\<close>,
    \<open>Dom_Sessions\<close>: the invariant \<open>dom_inv\<close>, the frame relation \<open>dom_le\<close> that a call into JavaScript
    respects, and the contract of every operation. The locale \<open>dom_user_code\<close> states what the
    operations rely on; it is interpreted on \<open>dom_js\<close> for every script. \<open>Dom_Claims\<close> has the
    properties.

  \<^item> \<open>Byte_Strings\<close>, \<open>Code_Points\<close>: what the code uses of Rust's \<open>str\<close> and \<open>Vec\<close>, on strings of
    code points up to 255 and on strings of any scalar values.
  \<^item> \<open>Header_List\<close>, \<open>Headers\<close>: the header lists of \<open>web-fetch/src/algorithms.rs\<close> and the class of
    \<open>web-fetch/src/headers.rs\<close>: list, cache and guard. \<open>Header_Props\<close> says what the operations on
    lists do by the values of a name, \<open>Headers_Inv\<close> has the invariant \<open>headers_ok\<close> and \<open>guard_ok\<close>,
    \<open>Headers_Ops\<close> the contract of every method, \<open>Headers_Claims\<close> the properties.
  \<^item> \<open>Pair_Iteration\<close>: the iterators and \<open>forEach\<close> of \<open>js/src/iteration.rs\<close>; its contract, the locale
    \<open>pair_iterable\<close>, is interpreted on \<open>Headers\<close> and on \<open>URLSearchParams\<close>.
  \<^item> \<open>Base64\<close>, \<open>Base64_Claims\<close>: \<open>web-globals/src/base64.rs\<close>. The decoder of the crate \<open>data-url\<close> is a
    parameter, \<open>forgiving_decode\<close> its specification.
  \<^item> \<open>Url_Params\<close>, \<open>Url_Claims\<close>: \<open>web-url/src/\<close>, a heap of \<open>URL\<close> and \<open>URLSearchParams\<close> objects that
    refer to each other. The crates \<open>url\<close> and \<open>form_urlencoded\<close> are the parameter \<open>url_crate\<close>,
    their documented laws \<open>url_laws\<close>.

  \<^item> \<open>Gc_Pool\<close>: \<open>js/src/gc/pool.rs\<close> and the rooting of \<open>js/src/gc/scope.rs\<close>. A \<open>gc\<close> is the handle pool
    with the memory it uses: pages by address, and the boxes of private allocations that are not freed,
    linked through their \<open>next\<close> and \<open>prev\<close>. What the collector does to a slot is the parameter \<open>mv\<close>.
    \<open>gc_session\<close> runs scopes, roots, writes through handles, drops in any order and collections.
  \<^item> \<open>Gc_Inv\<close>, \<open>Gc_Links\<close>, \<open>Gc_Private\<close>, \<open>Gc_Scopes\<close>, \<open>Gc_World\<close>: who owns which page, the linked
    list as \<open>segment\<close>s, the private allocations, the heights of the levels on the root stack, and the
    invariant \<open>thread_inv\<close> with its preservation by every command. \<open>Gc_Claims\<close> has the abstract
    account of handles that a thread refines, and the properties.

  \<^item> \<open>Text_Support\<close>: trimming, decimal numbers and Unix paths of Rust's standard library.
  \<^item> \<open>Config\<close>, \<open>Config_Claims\<close>: \<open>core-runtime/src/config.rs\<close>, byte sizes as they are printed and read,
    timeouts and limits with their validation. The crates that fill the record from the arguments,
    \<open>clap\<close> and \<open>shlex\<close>, are outside.
  \<^item> \<open>Module_Loader\<close>, \<open>Module_Claims\<close>: \<open>core-runtime/src/module.rs\<close>. A \<open>module_state\<close> is the registry of a
    runtime with the modules of the engine by identity. The file system, the resolver and the compiler
    are the record \<open>host\<close>, another one at every command; the engine's loading, linking and evaluation
    are calls of a \<open>module_user\<close>, closed by scripts of commands (\<open>module_js scr n\<close>). The locale
    \<open>module_engine\<close> is what the loader relies on in those calls, interpreted on every script of
    commands that \<open>cmd_ok\<close> permits.

  \<^bold>\<open>What the lemmas show.\<close> For the event loop: the registry's indexes agree with its map and
  \<open>expire_timers\<close> with a scan of it; a step runs exactly what was due when it began, in dispatch
  order, and keeps the invariant whatever JavaScript does; the driver returns only when nothing
  keeps the loop alive and waits no longer than the first deadline; timers are queued, repeated and
  cleared as the HTML timer steps say; the loops of a thread do not interfere. For the writable
  streams: no assertion fails in any session; every pending promise is owned once and every pending
  request has a reaction to come; the operations of the sink do not overlap; terminal states and
  stored errors are final; backpressure follows the desired size; the queue and its floating-point
  total are those of an abstract queue. For the readable streams: a session panics only where a lookup of a promise's constructor throws; reads and
  promises that are pending have one owner and none is left once the stream is closed or errored;
  pulls do not overlap; reads get the chunks in order. For the events and signals: which assertions can fail and
  which cannot; a dispatch calls each listener once, in order, whatever the listeners do to the
  list; passive listeners do not cancel; the links between dependent signals are symmetric, one
  level deep and follow an abort; lifetime promises and the interest of the loop are counted
  exactly, and \<open>respondWith\<close> settles once. For headers: no session fails an assertion or escapes
  the guard; the shortcuts of the constructor and of the safelist check agree with what they
  stand for; what is changed is what is read, sorted and combined or not. Base64 decodes to what
  was encoded; the sort of search parameters is the stable sort by code units; a URL and its
  search parameters agree. For the roots: in whatever order scopes are dropped, a handle of a live
  scope refers to what was rooted, moved once by every collection; no page has two owners, and no
  freed box is used. For modules: an import of a script is never given a JSON module, nor the other way
  round if no module is named with the prefix of the JSON keys; a file is one module however it is
  reached; the fallback keys of two paths agree when they lead to the same file; and what a failed
  import leaves is known. Byte sizes are read back from
  what they print, and the validations accept exactly what they describe.

  \<^bold>\<open>Bounds.\<close> The depth \<open>n\<close> of \<open>js_user\<close> is the JavaScript stack: a call that finds none left
  throws, as the engine does, and every property holds for every \<open>n\<close>. The fuel of \<open>run_until\<close>
  and of the futures' polling loop is a bound on the turns; what is proved of a run holds at every
  bound. Counters of the event loop are natural numbers with the limit written where the code
  checks it. The list of private allocations is walked with as much fuel as there were ever boxes,
  which the invariant shows to be enough.

  \<^bold>\<open>Not modelled.\<close> The engine itself, and so allocation failure, and garbage collection and tracing beyond the handle pool;
  conversions that the WebIDL glue makes before a method is entered; time stamps of events and the
  reports of exceptions that listeners throw; byte streams, tee, pipes, the transform streams and
  the rest of fetch, which are the plan's next parts; I/O, servers
  and the macro crate. The manifest lists every component.
\<close>

end
